(* ===== verification/Prelude.thy ===== *)
theory Prelude
  imports Main "HOL-Library.Multiset" "HOL-Library.List_Lexorder" "HOL-Library.Product_Lexorder" "HOL-Library.Char_ord"
begin

text \<open>
  Shared vocabulary of the development.

  A Go function that works inside a database transaction is a function of the store that
  returns a result or an error together with the store as the transaction sees it at that
  point (\<open>('s, 'e, 'a) tx\<close>).  The caller decides whether the changes made so far
  are kept: the code sometimes commits although it returns an error, so an error does not
  discard the store by itself.  The operations \<open>tret\<close>, \<open>tfail\<close>, \<open>tbind\<close>, \<open>tlook\<close>, \<open>tmod\<close>,
  \<open>tguard\<close>, \<open>tfor\<close> and \<open>ttry\<close> correspond to a normal return, an early return with an error,
  sequencing with an \<open>if err != nil\<close> check, a query, an update, a guard, a loop over rows and
  a call whose error the caller inspects.

  \<open>moves R m\<close> says that every run of \<open>m\<close>, successful or not, relates the store before and
  after by \<open>R\<close>; for a preorder \<open>R\<close> this composes along \<open>tbind\<close>.  The collections \<open>reader\<close>,
  \<open>tx_simps\<close> and \<open>core\<close> carry the facts about queries, the evaluation of the combinators and
  the preservation of the invariant of the coordination store.
\<close>

named_theorems tx_simps
named_theorems reader
named_theorems core

subsection \<open>The transaction monad\<close>

type_synonym ('s, 'e, 'a) tx = "'s \<Rightarrow> ('e + 'a) \<times> 's"

definition tret :: "'a \<Rightarrow> ('s, 'e, 'a) tx" where
  "tret a = (\<lambda>s. (Inr a, s))"

definition tfail :: "'e \<Rightarrow> ('s, 'e, 'a) tx" where
  "tfail e = (\<lambda>s. (Inl e, s))"

definition tbind :: "('s, 'e, 'a) tx \<Rightarrow> ('a \<Rightarrow> ('s, 'e, 'b) tx) \<Rightarrow> ('s, 'e, 'b) tx" where
  "tbind m f = (\<lambda>s. case m s of (Inl e, s') \<Rightarrow> (Inl e, s') | (Inr a, s') \<Rightarrow> f a s')"

definition tget :: "('s \<Rightarrow> 'a) \<Rightarrow> ('s, 'e, 'a) tx" where
  "tget g = (\<lambda>s. (Inr (g s), s))"

definition tlook :: "('s \<Rightarrow> 'a option) \<Rightarrow> 'e \<Rightarrow> ('s, 'e, 'a) tx" where
  "tlook g e = (\<lambda>s. case g s of None \<Rightarrow> (Inl e, s) | Some a \<Rightarrow> (Inr a, s))"

definition tmod :: "('s \<Rightarrow> 's) \<Rightarrow> ('s, 'e, unit) tx" where
  "tmod f = (\<lambda>s. (Inr (), f s))"

definition tguard :: "bool \<Rightarrow> 'e \<Rightarrow> ('s, 'e, unit) tx" where
  "tguard b e = (if b then tret () else tfail e)"

definition ttry :: "('s, 'e, 'a) tx \<Rightarrow> ('s, 'e, 'e + 'a) tx" where
  "ttry m = (\<lambda>s. case m s of (r, s') \<Rightarrow> (Inr r, s'))"

definition tlift :: "'e + 'a \<Rightarrow> ('s, 'e, 'a) tx" where
  "tlift r = (\<lambda>s. (r, s))"

fun tfor :: "('a \<Rightarrow> ('s, 'e, unit) tx) \<Rightarrow> 'a list \<Rightarrow> ('s, 'e, unit) tx" where
  "tfor f [] = tret ()"
| "tfor f (x # xs) = tbind (f x) (\<lambda>_. tfor f xs)"

lemma tret_run [simp, tx_simps]: "tret a s = (Inr a, s)"
  by (simp add: tret_def)

lemma tfail_run [simp, tx_simps]: "tfail e s = (Inl e, s)"
  by (simp add: tfail_def)

lemma tget_run [simp, tx_simps]: "tget g s = (Inr (g s), s)"
  by (simp add: tget_def)

lemma tmod_run [simp, tx_simps]: "tmod f s = (Inr (), f s)"
  by (simp add: tmod_def)

lemma tlift_run [simp, tx_simps]: "tlift r s = (r, s)"
  by (simp add: tlift_def)

lemma tguard_run [tx_simps]: "tguard b e s = (if b then Inr () else Inl e, s)"
  by (simp add: tguard_def)

lemma tlook_run [tx_simps]:
  "tlook g e s = ((case g s of None \<Rightarrow> Inl e | Some a \<Rightarrow> Inr a), s)"
  by (simp add: tlook_def split: option.splits)

lemma ttry_run [tx_simps]: "ttry m s = (Inr (fst (m s)), snd (m s))"
  by (simp add: ttry_def split: prod.splits)

lemma tbind_run [tx_simps]:
  "tbind m f s = (case fst (m s) of Inl e \<Rightarrow> (Inl e, snd (m s)) | Inr a \<Rightarrow> f a (snd (m s)))"
  by (cases "m s") (auto simp: tbind_def split: sum.splits)

lemma tbind_Inr:
  assumes "tbind m f s = (Inr b, s'')"
  obtains a s' where "m s = (Inr a, s')" and "f a s' = (Inr b, s'')"
  using assms by (auto simp: tbind_def split: prod.splits sum.splits)

lemma tbind_eq_Inr:
  "tbind m f s = (Inr b, s'') \<longleftrightarrow> (\<exists>a s'. m s = (Inr a, s') \<and> f a s' = (Inr b, s''))"
  by (auto simp: tbind_def split: prod.splits sum.splits)

lemma tlook_Inr [simp]: "tlook g e s = (Inr a, s') \<longleftrightarrow> g s = Some a \<and> s' = s"
  by (auto simp: tlook_def split: option.splits)

lemma tguard_Inr [simp]: "tguard b e s = (Inr a, s') \<longleftrightarrow> b \<and> s' = s"
  by (auto simp: tguard_def)

lemma tlook_snd [simp]: "snd (tlook g e s) = s"
  by (simp add: tlook_run)

lemma tguard_snd [simp]: "snd (tguard b e s) = s"
  by (simp add: tguard_run)

subsection \<open>Queries\<close>

text \<open>A query leaves the store as it is, whatever it answers.\<close>

definition reads :: "('s, 'e, 'a) tx \<Rightarrow> bool" where
  "reads m \<longleftrightarrow> (\<forall>s. snd (m s) = s)"

lemma readsD: "reads m \<Longrightarrow> snd (m s) = s"
  by (simp add: reads_def)

lemma reads_state: "reads m \<Longrightarrow> m s = (r, s') \<Longrightarrow> s' = s"
  by (metis reads_def snd_conv)

lemma reads_tret [reader]: "reads (tret a)"
  by (simp add: reads_def)

lemma reads_tfail [reader]: "reads (tfail e)"
  by (simp add: reads_def)

lemma reads_tget [reader]: "reads (tget g)"
  by (simp add: reads_def)

lemma reads_tlook [reader]: "reads (tlook g e)"
  by (simp add: reads_def)

lemma reads_tguard [reader]: "reads (tguard b e)"
  by (simp add: reads_def)

lemma reads_tlift [reader]: "reads (tlift r)"
  by (simp add: reads_def)

lemma reads_tbind [reader]: "reads m \<Longrightarrow> (\<And>a. reads (f a)) \<Longrightarrow> reads (tbind m f)"
  by (auto simp: reads_def tbind_run split: sum.splits)

lemma reads_if [reader]: "reads m \<Longrightarrow> reads n \<Longrightarrow> reads (if b then m else n)"
  by simp

lemma reads_option [reader]:
  "reads m \<Longrightarrow> (\<And>x. reads (f x)) \<Longrightarrow> reads (case y of None \<Rightarrow> m | Some x \<Rightarrow> f x)"
  by (cases y) auto

lemma reads_sum [reader]:
  "(\<And>x. reads (f x)) \<Longrightarrow> (\<And>x. reads (g x)) \<Longrightarrow> reads (case y of Inl x \<Rightarrow> f x | Inr x \<Rightarrow> g x)"
  by (cases y) auto

lemma reads_prod [reader]:
  "(\<And>a b. reads (f a b)) \<Longrightarrow> reads (case y of (a, b) \<Rightarrow> f a b)"
  by (cases y) auto

lemma reads_ttry [reader]: "reads m \<Longrightarrow> reads (ttry m)"
  by (simp add: reads_def ttry_run)

lemma reads_tfor [reader]: "(\<And>x. reads (f x)) \<Longrightarrow> reads (tfor f xs)"
  by (induction xs) (auto intro: reader)

subsection \<open>Relating the store before and after\<close>

definition moves :: "('s \<Rightarrow> 's \<Rightarrow> bool) \<Rightarrow> ('s, 'e, 'a) tx \<Rightarrow> 's \<Rightarrow> bool" where
  "moves R m s \<longleftrightarrow> R s (snd (m s))"

definition preorder_rel :: "('s \<Rightarrow> 's \<Rightarrow> bool) \<Rightarrow> bool" where
  "preorder_rel R \<longleftrightarrow> (\<forall>s. R s s) \<and> (\<forall>a b c. R a b \<longrightarrow> R b c \<longrightarrow> R a c)"

lemma preorder_refl: "preorder_rel R \<Longrightarrow> R s s"
  by (simp add: preorder_rel_def)

lemma preorder_trans: "preorder_rel R \<Longrightarrow> R a b \<Longrightarrow> R b c \<Longrightarrow> R a c"
  unfolding preorder_rel_def by blast

lemma moves_reads: "preorder_rel R \<Longrightarrow> reads m \<Longrightarrow> moves R m s"
  by (simp add: moves_def reads_def preorder_rel_def)

lemma moves_tbind:
  assumes "preorder_rel R" and "moves R m s"
    and "\<And>a s'. m s = (Inr a, s') \<Longrightarrow> moves R (f a) s'"
  shows "moves R (tbind m f) s"
proof (cases "m s")
  case (Pair r s')
  show ?thesis
  proof (cases r)
    case (Inl e)
    with Pair assms(2) show ?thesis by (simp add: moves_def tbind_def)
  next
    case (Inr a)
    with Pair assms(3) have "R s' (snd (f a s'))" by (simp add: moves_def)
    moreover from Pair Inr assms(2) have "R s s'" by (simp add: moves_def)
    ultimately have "R s (snd (f a s'))" using assms(1) preorder_trans by metis
    with Pair Inr show ?thesis by (simp add: moves_def tbind_def)
  qed
qed

text \<open>After a query the store is the one it was asked on.\<close>

lemma moves_read_bind:
  assumes "reads m" and "preorder_rel R"
    and "\<And>a. m s = (Inr a, s) \<Longrightarrow> moves R (f a) s"
  shows "moves R (tbind m f) s"
proof (rule moves_tbind [OF assms(2)])
  show "moves R m s" using assms(1,2) by (rule moves_reads [rotated])
  fix a s' assume a: "m s = (Inr a, s')"
  with assms(1) have "s' = s" by (rule reads_state)
  with a assms(3) show "moves R (f a) s'" by simp
qed

lemma moves_if:
  "(b \<Longrightarrow> moves R m s) \<Longrightarrow> (\<not> b \<Longrightarrow> moves R n s) \<Longrightarrow> moves R (if b then m else n) s"
  by simp

lemma moves_option:
  "(y = None \<Longrightarrow> moves R m s) \<Longrightarrow> (\<And>x. y = Some x \<Longrightarrow> moves R (f x) s) \<Longrightarrow>
   moves R (case y of None \<Rightarrow> m | Some x \<Rightarrow> f x) s"
  by (cases y) auto

lemma moves_sum:
  "(\<And>x. y = Inl x \<Longrightarrow> moves R (f x) s) \<Longrightarrow> (\<And>x. y = Inr x \<Longrightarrow> moves R (g x) s) \<Longrightarrow>
   moves R (case y of Inl x \<Rightarrow> f x | Inr x \<Rightarrow> g x) s"
  by (cases y) auto

lemma moves_prod:
  "(\<And>a b. y = (a, b) \<Longrightarrow> moves R (f a b) s) \<Longrightarrow> moves R (case y of (a, b) \<Rightarrow> f a b) s"
  by (cases y) auto

lemmas moves_cases = moves_if moves_option moves_sum moves_prod

lemma moves_tmod: "moves R (tmod f) s = R s (f s)"
  by (simp add: moves_def)

lemma moves_ttry: "moves R (ttry m) s = moves R m s"
  by (simp add: moves_def ttry_run)

lemma moves_tfor:
  assumes "preorder_rel R" and "\<And>x s. moves R (f x) s"
  shows "moves R (tfor f xs) s"
proof (induction xs arbitrary: s)
  case Nil
  show ?case using assms(1) by (simp add: moves_def preorder_rel_def)
next
  case (Cons x xs)
  show ?case by (simp, rule moves_tbind [OF assms(1) assms(2)], rule Cons.IH)
qed

text \<open>An invariant is the relation that carries it from the state before to the state after.\<close>

definition carries :: "('s \<Rightarrow> bool) \<Rightarrow> 's \<Rightarrow> 's \<Rightarrow> bool" where
  "carries I s s' \<longleftrightarrow> (I s \<longrightarrow> I s')"

lemma preorder_carries [simp, intro]: "preorder_rel (carries I)"
  by (simp add: preorder_rel_def carries_def)

subsection \<open>Tables\<close>

text \<open>
  A database table is the list of its rows in insertion order.  \<open>first_by\<close> is
  \<open>ORDER BY key LIMIT 1\<close> and \<open>order_by\<close> is \<open>ORDER BY key\<close>.
\<close>

definition order_by :: "('a \<Rightarrow> 'k::linorder) \<Rightarrow> 'a list \<Rightarrow> 'a list" where
  "order_by key rows = sort_key key rows"

definition first_by :: "('a \<Rightarrow> 'k::linorder) \<Rightarrow> 'a list \<Rightarrow> 'a option" where
  "first_by key rows = (case order_by key rows of [] \<Rightarrow> None | r # _ \<Rightarrow> Some r)"

definition update_rows :: "('a \<Rightarrow> bool) \<Rightarrow> ('a \<Rightarrow> 'a) \<Rightarrow> 'a list \<Rightarrow> 'a list" where
  "update_rows P f = map (\<lambda>r. if P r then f r else r)"

definition delete_rows :: "('a \<Rightarrow> bool) \<Rightarrow> 'a list \<Rightarrow> 'a list" where
  "delete_rows P = filter (\<lambda>r. \<not> P r)"

lemma set_order_by [simp]: "set (order_by key rows) = set rows"
  by (simp add: order_by_def)

lemma first_by_in: "first_by key rows = Some r \<Longrightarrow> r \<in> set rows"
  by (metis (no_types, lifting) first_by_def list.case_eq_if list.set_sel(1) option.distinct(1)
      option.inject set_order_by)

lemma first_by_None [simp]: "first_by key rows = None \<longleftrightarrow> rows = []"
  by (auto simp: first_by_def order_by_def split: list.splits) (metis length_0_conv length_sort list.size(3))

lemma find_in_set: "find P xs = Some x \<Longrightarrow> x \<in> set xs \<and> P x"
  by (auto simp: find_Some_iff)

lemma find_distinct_key:
  assumes "distinct (map key xs)" and "x \<in> set xs"
  shows "find (\<lambda>y. key y = key x) xs = Some x"
  using assms by (induction xs) force+

lemma map_update_rows:
  "(\<And>r. P r \<Longrightarrow> key (f r) = key r) \<Longrightarrow> map key (update_rows P f rows) = map key rows"
  by (induction rows) (auto simp: update_rows_def)

lemma length_update_rows [simp]: "length (update_rows P f rows) = length rows"
  by (simp add: update_rows_def)

lemma in_update_rows:
  "x \<in> set (update_rows P f rows) \<longleftrightarrow> (\<exists>r \<in> set rows. x = (if P r then f r else r))"
  by (auto simp: update_rows_def)

lemma distinct_map_inj_on: "distinct (map f xs) \<Longrightarrow> x \<in> set xs \<Longrightarrow> y \<in> set xs \<Longrightarrow> f x = f y \<Longrightarrow> x = y"
  by (metis distinct_map inj_onD)

lemma map_sum_Inr_iff: "map_sum f g r = Inr y \<longleftrightarrow> (\<exists>x. r = Inr x \<and> y = g x)"
  by (cases r) auto

lemma find_append: "find P (xs @ ys) = (case find P xs of None \<Rightarrow> find P ys | Some x \<Rightarrow> Some x)"
  by (induction xs) auto

end
