(* ===== verification/Go_Text.thy ===== *)
theory Go_Text
  imports Prelude
begin

text \<open>
  The functions of Go's standard library on strings that the modelled code calls, on byte
  strings (\<open>string\<close> is a list of bytes): \<open>strings.HasPrefix\<close>, \<open>strings.Split\<close>,
  \<open>strings.Fields\<close>, \<open>strings.TrimSpace\<close> (the ASCII white space), \<open>strings.ContainsAny\<close>,
  \<open>strconv.Atoi\<close>, \<open>utf8.ValidString\<close>, \<open>path.Clean\<close> and \<open>json.Valid\<close>.  The last is the
  scanner of \<open>encoding/json\<close>: a state machine with a stack of open objects and arrays.
\<close>

subsection \<open>Bytes and substrings\<close>

definition byte :: "char \<Rightarrow> nat" where
  "byte c = of_char c"

definition is_digit :: "char \<Rightarrow> bool" where
  "is_digit c \<longleftrightarrow> 48 \<le> byte c \<and> byte c \<le> 57"

definition is_lower :: "char \<Rightarrow> bool" where
  "is_lower c \<longleftrightarrow> 97 \<le> byte c \<and> byte c \<le> 122"

definition is_space :: "char \<Rightarrow> bool" where
  "is_space c \<longleftrightarrow> byte c = 32 \<or> (9 \<le> byte c \<and> byte c \<le> 13)"

fun has_prefix :: "string \<Rightarrow> string \<Rightarrow> bool" where
  "has_prefix s [] = True"
| "has_prefix [] (p # ps) = False"
| "has_prefix (c # s) (p # ps) = (c = p \<and> has_prefix s ps)"

lemma has_prefix_iff: "has_prefix s p \<longleftrightarrow> (\<exists>r. s = p @ r)"
  by (induction s p rule: has_prefix.induct) auto

definition trim_space :: "string \<Rightarrow> string" where
  "trim_space s = rev (dropWhile is_space (rev (dropWhile is_space s)))"

definition contains_any :: "string \<Rightarrow> string \<Rightarrow> bool" where
  "contains_any s cs = list_ex (\<lambda>c. c \<in> set cs) s"

fun split_on :: "char \<Rightarrow> string \<Rightarrow> string list" where
  "split_on d [] = [[]]"
| "split_on d (c # s) =
     (if c = d then [] # split_on d s
      else case split_on d s of [] \<Rightarrow> [[c]] | w # ws \<Rightarrow> (c # w) # ws)"

definition split_first :: "char \<Rightarrow> string \<Rightarrow> string \<times> string option" where
  "split_first d s = (takeWhile (\<lambda>c. c \<noteq> d) s,
     (case dropWhile (\<lambda>c. c \<noteq> d) s of [] \<Rightarrow> None | _ # r \<Rightarrow> Some r))"

definition fields :: "string \<Rightarrow> string list" where
  "fields s = filter (\<lambda>w. w \<noteq> []) (split_on CHR '' '' (map (\<lambda>c. if is_space c then CHR '' '' else c) s))"

lemma split_on_nonempty [simp]: "split_on d s \<noteq> []"
  by (induction s) (auto split: list.splits)

lemma split_on_no_delim: "w \<in> set (split_on d s) \<Longrightarrow> d \<notin> set w"
proof (induction s arbitrary: w)
  case (Cons c s)
  then show ?case
    by (cases "split_on d s") (auto split: if_splits)
qed simp

lemma split_on_join: "concat (map (\<lambda>w. w @ [d]) (split_on d s)) = s @ [d]"
proof (induction s)
  case (Cons c s)
  then show ?case by (cases "split_on d s") auto
qed simp

lemma split_on_prefix: "d \<notin> set l \<Longrightarrow> split_on d (l @ d # s) = l # split_on d s"
  by (induction l) auto

lemma split_on_none: "d \<notin> set l \<Longrightarrow> split_on d l = [l]"
  by (induction l) auto

subsection \<open>strconv.Atoi\<close>

definition max_int :: int where "max_int = 9223372036854775807"
definition min_int :: int where "min_int = - 9223372036854775808"

definition digits_value :: "string \<Rightarrow> int" where
  "digits_value = foldl (\<lambda>v c. 10 * v + (int (byte c) - 48)) 0"

definition atoi :: "string \<Rightarrow> int option" where
  "atoi s =
    (let (neg, ds) = (case s of [] \<Rightarrow> (False, [])
          | c # r \<Rightarrow> if c = CHR ''-'' then (True, r) else if c = CHR ''+'' then (False, r) else (False, s))
     in if ds = [] \<or> \<not> list_all is_digit ds then None
        else let v = (if neg then - digits_value ds else digits_value ds)
             in if v < min_int \<or> max_int < v then None else Some v)"

text \<open>Decimal texts, as \<open>strconv.Itoa\<close> and \<open>%d\<close> print them.\<close>

function show_nat :: "nat \<Rightarrow> string" where
  "show_nat n = (if n < 10 then [char_of (48 + n)] else show_nat (n div 10) @ [char_of (48 + n mod 10)])"
  by pat_completeness auto
termination
  by (relation "measure id") auto

declare show_nat.simps [simp del]

definition show_int :: "int \<Rightarrow> string" where
  "show_int z = (if z < 0 then CHR ''-'' # show_nat (nat (- z)) else show_nat (nat z))"

text \<open>Arithmetic on \<open>int\<close> values wraps at 64 bits.\<close>

definition wrap64 :: "int \<Rightarrow> int" where
  "wrap64 x = (x + 2 ^ 63) mod 2 ^ 64 - 2 ^ 63"

lemma wrap64_id: "- (2 ^ 63) \<le> x \<Longrightarrow> x < 2 ^ 63 \<Longrightarrow> wrap64 x = x"
  unfolding wrap64_def by (subst mod_pos_pos_trivial) auto

subsection \<open>UTF-8\<close>

definition cont_byte :: "char \<Rightarrow> bool" where
  "cont_byte c \<longleftrightarrow> 128 \<le> byte c \<and> byte c \<le> 191"

definition in_bytes :: "nat \<Rightarrow> nat \<Rightarrow> char \<Rightarrow> bool" where
  "in_bytes lo hi c \<longleftrightarrow> lo \<le> byte c \<and> byte c \<le> hi"

function utf8_valid :: "string \<Rightarrow> bool" where
  "utf8_valid s = (case s of [] \<Rightarrow> True
    | a # r \<Rightarrow>
       if byte a < 128 then utf8_valid r
       else if in_bytes 194 223 a then (case r of b # t \<Rightarrow> cont_byte b \<and> utf8_valid t | _ \<Rightarrow> False)
       else if in_bytes 224 239 a then
         (case r of b # c # t \<Rightarrow>
            (if byte a = 224 then in_bytes 160 191 b else if byte a = 237 then in_bytes 128 159 b else cont_byte b)
            \<and> cont_byte c \<and> utf8_valid t | _ \<Rightarrow> False)
       else if in_bytes 240 244 a then
         (case r of b # c # d # t \<Rightarrow>
            (if byte a = 240 then in_bytes 144 191 b else if byte a = 244 then in_bytes 128 143 b else cont_byte b)
            \<and> cont_byte c \<and> cont_byte d \<and> utf8_valid t | _ \<Rightarrow> False)
       else False)"
  by pat_completeness auto
termination by (relation "measure length") auto

declare utf8_valid.simps [simp del]

lemma utf8_valid_Nil [simp]: "utf8_valid []"
  by (subst utf8_valid.simps) simp

lemma utf8_valid_ascii: "list_all (\<lambda>c. byte c < 128) s \<Longrightarrow> utf8_valid s"
  by (induction s) (auto simp: utf8_valid.simps [of "_ # _"])

subsection \<open>path.Clean\<close>

fun clean_elems :: "bool \<Rightarrow> string list \<Rightarrow> string list \<Rightarrow> string list" where
  "clean_elems rooted out [] = rev out"
| "clean_elems rooted out (e # es) =
     (if e = '''' \<or> e = ''.'' then clean_elems rooted out es
      else if e = ''..'' then
        (case out of
           [] \<Rightarrow> if rooted then clean_elems rooted [] es else clean_elems rooted [''..''] es
         | p # ps \<Rightarrow> if p = ''..'' then clean_elems rooted (''..'' # out) es else clean_elems rooted ps es)
      else clean_elems rooted (e # out) es)"

fun join_slash :: "string list \<Rightarrow> string" where
  "join_slash [] = []"
| "join_slash [w] = w"
| "join_slash (w # ws) = w @ CHR ''/'' # join_slash ws"

definition path_clean :: "string \<Rightarrow> string" where
  "path_clean p =
    (let rooted = has_prefix p ''/'';
         out = join_slash (clean_elems rooted [] (split_on CHR ''/'' p))
     in if rooted then CHR ''/'' # out else if out = [] then ''.'' else out)"

lemma clean_elems_parts:
  assumes "\<And>w. w \<in> set out \<Longrightarrow> w \<noteq> '''' \<and> w \<noteq> ''.''"
  shows "w \<in> set (clean_elems rooted out es) \<Longrightarrow> w \<noteq> '''' \<and> w \<noteq> ''.''"
  using assms
proof (induction rooted out es rule: clean_elems.induct)
  case (2 rooted out e es)
  then show ?case by (auto split: if_splits list.splits)
qed auto

lemma clean_elems_idem_aux:
  assumes "\<And>w. w \<in> set es \<Longrightarrow> w \<noteq> '''' \<and> w \<noteq> ''.'' \<and> w \<noteq> ''..''"
  shows "clean_elems rooted out es = rev out @ es"
  using assms by (induction es arbitrary: out) auto

subsection \<open>json.Valid\<close>

datatype json_open = ObjectKey | ObjectValue | ArrayValue

datatype json_state = BeginValue | BeginValueOrEmpty | BeginString | BeginStringOrEmpty
  | EndValue | EndTop | InString | InEscape | InHex nat | InLiteral string
  | Neg | Digits | Zero | Dot | DotDigits | Exp | ExpSign | ExpDigits

type_synonym json_scan = "json_state \<times> json_open list"

definition json_max_depth :: nat where "json_max_depth = 10000"

definition json_push :: "json_open \<Rightarrow> json_state \<Rightarrow> json_open list \<Rightarrow> json_scan option" where
  "json_push o' st stack =
     (if length stack + 1 \<le> json_max_depth then Some (st, o' # stack) else None)"

definition json_space :: "char \<Rightarrow> bool" where
  "json_space c \<longleftrightarrow> c = CHR '' '' \<or> byte c = 9 \<or> byte c = 10 \<or> byte c = 13"

definition json_pop :: "json_open list \<Rightarrow> json_scan option" where
  "json_pop rest = Some (if rest = [] then EndTop else EndValue, rest)"

fun json_end_value :: "json_open list \<Rightarrow> char \<Rightarrow> json_scan option" where
  "json_end_value [] c = (if json_space c then Some (EndTop, []) else None)"
| "json_end_value (o1 # rest) c =
     (if json_space c then Some (EndValue, o1 # rest)
      else case o1 of
        ObjectKey \<Rightarrow> if c = CHR '':'' then Some (BeginValue, ObjectValue # rest) else None
      | ObjectValue \<Rightarrow> if c = CHR '','' then Some (BeginString, ObjectKey # rest)
                      else if c = CHR ''}'' then json_pop rest else None
      | ArrayValue \<Rightarrow> if c = CHR '','' then Some (BeginValue, ArrayValue # rest)
                     else if c = CHR '']'' then json_pop rest else None)"

definition json_begin_value :: "json_open list \<Rightarrow> char \<Rightarrow> json_scan option" where
  "json_begin_value stack c =
    (if json_space c then Some (BeginValue, stack)
     else if c = CHR ''{'' then json_push ObjectKey BeginStringOrEmpty stack
     else if c = CHR ''['' then json_push ArrayValue BeginValueOrEmpty stack
     else if byte c = 34 then Some (InString, stack)
     else if c = CHR ''-'' then Some (Neg, stack)
     else if c = CHR ''0'' then Some (Zero, stack)
     else if c = CHR ''t'' then Some (InLiteral ''rue'', stack)
     else if c = CHR ''f'' then Some (InLiteral ''alse'', stack)
     else if c = CHR ''n'' then Some (InLiteral ''ull'', stack)
     else if is_digit c then Some (Digits, stack) else None)"

definition is_hex :: "char \<Rightarrow> bool" where
  "is_hex c \<longleftrightarrow> is_digit c \<or> in_bytes 97 102 c \<or> in_bytes 65 70 c"

definition json_fraction :: "json_open list \<Rightarrow> char \<Rightarrow> json_scan option" where
  "json_fraction stack c = (if c = CHR ''.'' then Some (Dot, stack)
     else if c = CHR ''e'' \<or> c = CHR ''E'' then Some (Exp, stack) else json_end_value stack c)"

fun json_step :: "json_state \<Rightarrow> json_open list \<Rightarrow> char \<Rightarrow> json_scan option" where
  "json_step BeginValue k c = json_begin_value k c"
| "json_step BeginValueOrEmpty k c =
     (if json_space c then Some (BeginValueOrEmpty, k)
      else if c = CHR '']'' then json_end_value k c else json_begin_value k c)"
| "json_step BeginString k c =
     (if json_space c then Some (BeginString, k) else if byte c = 34 then Some (InString, k) else None)"
| "json_step BeginStringOrEmpty k c =
     (if json_space c then Some (BeginStringOrEmpty, k)
      else if c = CHR ''}'' then json_end_value (case k of [] \<Rightarrow> [] | _ # r \<Rightarrow> ObjectValue # r) c
      else if byte c = 34 then Some (InString, k) else None)"
| "json_step EndValue k c = json_end_value k c"
| "json_step EndTop k c = (if json_space c then Some (EndTop, k) else None)"
| "json_step InString k c =
     (if byte c = 34 then Some (EndValue, k) else if byte c = 92 then Some (InEscape, k)
      else if byte c < 32 then None else Some (InString, k))"
| "json_step InEscape k c =
     (if c = CHR ''u'' then Some (InHex 4, k)
      else if c \<in> set ''bfnrt/'' \<or> byte c = 92 \<or> byte c = 34 then Some (InString, k) else None)"
| "json_step (InHex n) k c =
     (if \<not> is_hex c then None else if n \<le> 1 then Some (InString, k) else Some (InHex (n - 1), k))"
| "json_step (InLiteral w) k c =
     (case w of [] \<Rightarrow> None | x # r \<Rightarrow>
        if c \<noteq> x then None else Some (if r = [] then EndValue else InLiteral r, k))"
| "json_step Neg k c = (if c = CHR ''0'' then Some (Zero, k) else if is_digit c then Some (Digits, k) else None)"
| "json_step Digits k c = (if is_digit c then Some (Digits, k) else json_fraction k c)"
| "json_step Zero k c = json_fraction k c"
| "json_step Dot k c = (if is_digit c then Some (DotDigits, k) else None)"
| "json_step DotDigits k c =
     (if is_digit c then Some (DotDigits, k)
      else if c = CHR ''e'' \<or> c = CHR ''E'' then Some (Exp, k) else json_end_value k c)"
| "json_step Exp k c =
     (if c = CHR ''+'' \<or> c = CHR ''-'' then Some (ExpSign, k)
      else if is_digit c then Some (ExpDigits, k) else None)"
| "json_step ExpSign k c = (if is_digit c then Some (ExpDigits, k) else None)"
| "json_step ExpDigits k c = (if is_digit c then Some (ExpDigits, k) else json_end_value k c)"

fun json_run :: "json_state \<Rightarrow> json_open list \<Rightarrow> string \<Rightarrow> json_scan option" where
  "json_run st k [] = Some (st, k)"
| "json_run st k (c # cs) =
     (case json_step st k c of None \<Rightarrow> None | Some (st', k') \<Rightarrow> json_run st' k' cs)"

definition json_valid :: "string \<Rightarrow> bool" where
  "json_valid s = (case json_run BeginValue [] s of
     None \<Rightarrow> False
   | Some (st, k) \<Rightarrow> st = EndTop \<or>
       (case json_step st k CHR '' '' of None \<Rightarrow> False | Some (st', _) \<Rightarrow> st' = EndTop))"

lemma json_run_append:
  "json_run st k (xs @ ys) =
     (case json_run st k xs of None \<Rightarrow> None | Some (st', k') \<Rightarrow> json_run st' k' ys)"
  by (induction xs arbitrary: st k) (auto split: option.splits)

lemma json_valid_samples:
  "json_valid ''{}''" "\<not> json_valid ''''" "\<not> json_valid ''{''" "json_valid '' [1, -2.5e3, true, null] ''"
  "\<not> json_valid ''01''" "\<not> json_valid ''[1,]''"
  by code_simp+

end
