(* ===== verification/Coord_Model.thy ===== *)
theory Coord_Model
  imports Go_Text
begin

text \<open>
  The data of the coordination store (\<open>internal/coordination\<close>): peers, credentials, worker
  leases, messages, the event and escalation journals, handoff contracts and task usage.

  The PostgreSQL database is the record \<open>db\<close>, one field per table, a table being the list of
  its rows in insertion order; a per-project cursor table is a function from project to
  sequence number.  The \<open>UNIQUE\<close> and \<open>PRIMARY KEY\<close> constraints that an insertion can hit are
  checked where the row is inserted and answer \<open>SqlConstraint\<close>.  A transaction is one atomic
  step: the advisory and row locks the code takes serialise the operations of a project.

  \<open>env\<close> is what an operation reads from outside: the clocks (\<open>clock_timestamp()\<close>, \<open>NOW()\<close>,
  the clock at the credential check of the commit, and the process's \<open>time.Now()\<close>), freshly
  generated identifiers, and the functions of code outside the repository (UUID parsing, path
  folding, hashing, the inspection of the file system and of Git).  \<open>ctx\<close> is what the code
  attaches to a Go \<open>context\<close>.
\<close>

subsection \<open>Errors\<close>

datatype err =
    ErrRequestContracts | ErrUnauthorized | ErrNotFound | ErrConflict | ErrIdempotency | ErrBusy
  | ErrLeaseLost | ErrRecoveryRequired | ErrQueueFull | ErrRequestBudget | ErrUsageBudget
  | ErrOwnershipConflict | ErrDependencyCycle | ErrContractValidation
  | SqlNoRows | SqlConstraint string | ErrOther string | Wrapped err string

text \<open>\<open>errors.Is\<close> follows the \<open>%w\<close> chain.\<close>

fun errors_is :: "err \<Rightarrow> err \<Rightarrow> bool" where
  "errors_is (Wrapped e msg) t = (Wrapped e msg = t \<or> errors_is e t)"
| "errors_is e t = (e = t)"

subsection \<open>Rows\<close>

record peer =
  p_id :: string
  p_project :: string
  p_name :: string
  p_role :: string
  p_workspace :: string
  p_endpoint :: string
  p_capabilities :: "string list"
  p_enabled :: bool

datatype msg_state = Accepted | Started | Blocked | Completed | Failed | Cancelled

definition terminal :: "msg_state \<Rightarrow> bool" where
  "terminal st \<longleftrightarrow> st = Completed \<or> st = Failed \<or> st = Cancelled"

record contract_dep =
  cd_contract :: string
  cd_revision :: int

record message =
  m_id :: string
  m_project :: string
  m_from :: string
  m_to :: string
  m_kind :: string
  m_conversation :: string
  m_task :: string
  m_in_reply_to :: string
  m_payload :: string
  m_state :: msg_state
  m_revision :: int
  m_created :: int
  m_updated :: int
  m_deadline :: int
  m_parent :: string
  m_depth :: int
  m_attempts :: int
  m_depends_on :: "string list"
  m_contracts :: "contract_dep list"
  m_key :: string
  m_hash :: string

record send_input =
  in_contracts :: "contract_dep list"
  in_depends_on :: "string list"
  in_to :: string
  in_kind :: string
  in_conversation :: string
  in_task :: string
  in_reply_to :: string
  in_payload :: string
  in_deadline :: "int option"
  in_key :: string

record contract_blocker =
  cb_contract :: string
  cb_reason :: string
  cb_expected :: int
  cb_actual :: int

record dependency_blocker =
  db_dep_id :: string
  db_dep_state :: "msg_state option"
  db_dep_reason :: string

record usage_limits =
  ul_tokens :: int
  ul_cost :: int

text \<open>The JSON documents the code itself writes into the event journal, by their content.\<close>

datatype payload =
    Raw string
  | EmptyObject
  | ReasonOnly string
  | Interrupted
  | DependencyFailed "dependency_blocker list"
  | ContractEvidence string "contract_blocker list"
  | ReplyId string
  | AttemptLimit string int
  | Reviewed string string string usage_limits int

record event =
  e_project :: string
  e_seq :: int
  e_message :: string
  e_revision :: int
  e_type :: string
  e_payload :: payload
  e_created :: int

record escalation =
  x_seq :: int
  x_project :: string
  x_from :: string
  x_to :: string
  x_parent :: string
  x_conversation :: string
  x_reason :: string
  x_created :: int

record credential =
  c_hash :: string
  c_peer :: string
  c_revoked :: bool
  c_expires :: "int option"

record lease_row =
  l_peer :: string
  l_owner :: string
  l_expires :: int
  l_transport :: string

record artifact =
  a_name :: string
  a_path :: string
  a_media_type :: string
  a_digest :: string

record compat_change =
  cc_kind :: string
  cc_from :: string
  cc_to :: string
  cc_description :: string

record contract_spec =
  sp_name :: string
  sp_endpoint :: string
  sp_version :: string
  sp_schema :: string
  sp_criteria :: "string list"
  sp_artifacts :: "artifact list"
  sp_workspace :: string
  sp_worktree :: string
  sp_paths :: "string list"
  sp_deps :: "contract_dep list"
  sp_changes :: "compat_change list"
  sp_task :: string

record contract =
  k_id :: string
  k_project :: string
  k_owner :: string
  k_revision :: int
  k_spec :: contract_spec
  k_created :: int
  k_updated :: int

record revision_row =
  r_contract :: string
  r_revision :: int
  r_spec :: contract_spec

record path_row =
  pr_contract :: string
  pr_project :: string
  pr_path :: string

record dep_row =
  d_contract :: string
  d_dependency :: string
  d_revision :: int

record ack_row =
  ak_contract :: string
  ak_revision :: int
  ak_peer :: string
  ak_at :: int

record usage_row =
  u_project :: string
  u_scope :: string
  u_task :: string
  u_owner :: string
  u_token_limit :: int
  u_cost_limit :: int
  u_input :: int
  u_output :: int
  u_cached :: int
  u_cost :: int
  u_unknown_usage :: int
  u_unknown_price :: int
  u_revision :: int
  u_reason :: string

record usage_sample =
  us_input :: int
  us_output :: int
  us_cached :: int
  us_reported :: bool
  us_cost :: int
  us_price_known :: bool

record sample_row =
  s_message :: string
  s_key :: string
  s_sample :: usage_sample

record run_row =
  rn_message :: string
  rn_owner :: string
  rn_finished :: bool

record review_input =
  rq_message :: string
  rq_revision :: int
  rq_usage_revision :: int
  rq_review :: string
  rq_note :: string
  rq_limits :: usage_limits
  rq_requeue :: bool

record review_row =
  rv_actor :: string
  rv_id :: string
  rv_hash :: string
  rv_message :: message
  rv_usage :: usage_row

record db =
  db_peers :: "peer list"
  db_creds :: "credential list"
  db_leases :: "lease_row list"
  db_messages :: "message list"
  db_cursor :: "string \<Rightarrow> int"
  db_events :: "event list"
  db_esc_cursor :: "string \<Rightarrow> int"
  db_escalations :: "escalation list"
  db_contracts :: "contract list"
  db_revisions :: "revision_row list"
  db_paths :: "path_row list"
  db_deps :: "dep_row list"
  db_acks :: "ack_row list"
  db_usage :: "usage_row list"
  db_samples :: "sample_row list"
  db_runs :: "run_row list"
  db_resolved :: "(string \<times> string) list"
  db_reviews :: "review_row list"

definition empty_db :: db where
  "empty_db = \<lparr>db_peers = [], db_creds = [], db_leases = [], db_messages = [], db_cursor = (\<lambda>_. 0),
     db_events = [], db_esc_cursor = (\<lambda>_. 0), db_escalations = [], db_contracts = [], db_revisions = [],
     db_paths = [], db_deps = [], db_acks = [], db_usage = [], db_samples = [], db_runs = [],
     db_resolved = [], db_reviews = []\<rparr>"

type_synonym 'a dbtx = "(db, err, 'a) tx"

subsection \<open>What an operation is given\<close>

record lease =
  ls_peer :: string
  ls_owner :: string
  ls_expires :: int
  ls_capability :: string

record env =
  now :: int
  tx_now :: int
  commit_now :: int
  app_now :: int
  fresh_id :: string
  fresh_conversation :: string
  fresh_secret :: string
  uuid_parse :: "string \<Rightarrow> string option"
  fold_path :: "string \<Rightarrow> string"
  sha256 :: "string \<Rightarrow> string"
  request_hash :: "send_input \<Rightarrow> usage_limits option \<Rightarrow> string option \<Rightarrow> string"
  review_hash :: "review_input \<Rightarrow> string"
  repository_check :: "peer \<Rightarrow> err option"
  symlink_check :: "string \<Rightarrow> string \<Rightarrow> err option"
  endpoint_valid :: "string \<Rightarrow> bool"
  workspace_canonical :: "string \<Rightarrow> string option"
  schema_object :: "string \<Rightarrow> bool"
  schema_equal :: "string \<Rightarrow> string \<Rightarrow> bool"
  spec_bytes :: "contract_spec \<Rightarrow> int"

record ctx =
  ctx_lineage :: "(string \<times> lease) option"
  ctx_transport :: bool
  ctx_budget :: "usage_limits option"
  ctx_scope :: "(string \<times> string) option"
  ctx_external :: bool

definition plain_ctx :: ctx where
  "plain_ctx = \<lparr>ctx_lineage = None, ctx_transport = False, ctx_budget = None, ctx_scope = None,
     ctx_external = False\<rparr>"

subsection \<open>Constants\<close>

definition max_dependencies :: nat where "max_dependencies = 32"
definition max_request_depth :: int where "max_request_depth = 8"
definition max_conversation_requests :: nat where "max_conversation_requests = 32"
definition max_peer_queue :: nat where "max_peer_queue = 128"
definition max_project_queue :: nat where "max_project_queue = 512"
definition max_execution_attempts :: int where "max_execution_attempts = 3"

subsection \<open>Queries and updates of messages\<close>

definition find_message :: "string \<Rightarrow> db \<Rightarrow> message option" where
  "find_message i s = find (\<lambda>m. m_id m = i) (db_messages s)"

definition select_message :: "string \<Rightarrow> (message \<Rightarrow> bool) \<Rightarrow> message dbtx" where
  "select_message i P =
     tlook (\<lambda>s. find (\<lambda>m. m_id m = i \<and> P m) (db_messages s)) ErrNotFound"

definition by_age :: "message \<Rightarrow> int \<times> string" where
  "by_age m = (m_created m, m_id m)"

definition set_state :: "env \<Rightarrow> msg_state \<Rightarrow> int \<Rightarrow> message \<Rightarrow> message" where
  "set_state E st inc m = m\<lparr>m_state := st, m_revision := m_revision m + 1,
     m_attempts := m_attempts m + inc, m_updated := now E\<rparr>"

definition put_state :: "env \<Rightarrow> string \<Rightarrow> msg_state \<Rightarrow> int \<Rightarrow> db \<Rightarrow> db" where
  "put_state E i st inc s =
     s\<lparr>db_messages := update_rows (\<lambda>m. m_id m = i) (set_state E st inc) (db_messages s)\<rparr>"

definition update_state :: "env \<Rightarrow> string \<Rightarrow> msg_state \<Rightarrow> int \<Rightarrow> message dbtx" where
  "update_state E i st inc =
     tbind (tmod (put_state E i st inc)) (\<lambda>_.
     tlook (find_message i) ErrNotFound)"

subsection \<open>The journals\<close>

definition push_event :: "env \<Rightarrow> message \<Rightarrow> string \<Rightarrow> payload \<Rightarrow> db \<Rightarrow> db" where
  "push_event E m kind p s =
    (let n = db_cursor s (m_project m) + 1
     in s\<lparr>db_cursor := (db_cursor s)(m_project m := n),
          db_events := db_events s @ [\<lparr>e_project = m_project m, e_seq = n, e_message = m_id m,
             e_revision = m_revision m, e_type = kind, e_payload = p, e_created = tx_now E\<rparr>]\<rparr>)"

definition event_fits :: "message \<Rightarrow> db \<Rightarrow> bool" where
  "event_fits m s \<longleftrightarrow>
     (\<forall>e \<in> set (db_events s). \<not> (e_project e = m_project m \<and> e_seq e = db_cursor s (m_project m) + 1)
        \<and> \<not> (e_message e = m_id m \<and> e_revision e = m_revision m)) \<and>
     (\<exists>r \<in> set (db_messages s). m_id r = m_id m)"

definition append_event :: "env \<Rightarrow> message \<Rightarrow> string \<Rightarrow> payload \<Rightarrow> unit dbtx" where
  "append_event E m kind p =
     tbind (tget (event_fits m)) (\<lambda>ok.
     tbind (tguard ok (SqlConstraint ''coordination_events'')) (\<lambda>_.
     tmod (push_event E m kind p)))"

definition push_escalation ::
    "env \<Rightarrow> string \<Rightarrow> string \<Rightarrow> string \<Rightarrow> string \<Rightarrow> string \<Rightarrow> string \<Rightarrow> db \<Rightarrow> db" where
  "push_escalation E project from to parent conversation reason s =
    (let n = db_esc_cursor s project + 1
     in s\<lparr>db_esc_cursor := (db_esc_cursor s)(project := n),
          db_escalations := db_escalations s @ [\<lparr>x_seq = n, x_project = project, x_from = from,
             x_to = to, x_parent = parent, x_conversation = conversation, x_reason = reason,
             x_created = tx_now E\<rparr>]\<rparr>)"

definition escalation_fits :: "string \<Rightarrow> string \<Rightarrow> string \<Rightarrow> db \<Rightarrow> bool" where
  "escalation_fits project from to s \<longleftrightarrow>
     (\<forall>x \<in> set (db_escalations s). \<not> (x_project x = project \<and> x_seq x = db_esc_cursor s project + 1)) \<and>
     (\<exists>p \<in> set (db_peers s). p_id p = from) \<and> (\<exists>p \<in> set (db_peers s). p_id p = to)"

definition append_escalation ::
    "env \<Rightarrow> string \<Rightarrow> string \<Rightarrow> string \<Rightarrow> string \<Rightarrow> string \<Rightarrow> string \<Rightarrow> unit dbtx" where
  "append_escalation E project from to parent conversation reason =
     tbind (tget (escalation_fits project from to)) (\<lambda>ok.
     tbind (tguard ok (SqlConstraint ''coordination_escalations'')) (\<lambda>_.
     tmod (push_escalation E project from to parent conversation reason)))"

end
