(* ===== verification/Coord_Journal.thy ===== *)
theory Coord_Journal
  imports Coord_Model
begin

text \<open>
  The interface of an append-only journal with a per-project sequence number, which the code
  uses twice: \<open>coordination_events\<close> with \<open>coordination_cursors\<close> and \<open>coordination_escalations\<close> with
  \<open>coordination_escalation_cursors\<close>.  A reader polls with the last sequence number it has
  seen, so the order the code relies on is that the numbers of a project are exactly
  1, 2, \dots, cursor, in the order of the appends.
\<close>

subsection \<open>The interface\<close>

locale journal =
  fixes cursor :: "'l \<Rightarrow> string \<Rightarrow> int"
    and entries :: "'l \<Rightarrow> string \<Rightarrow> int list"
    and append :: "string \<Rightarrow> 'x \<Rightarrow> 'l \<Rightarrow> 'l"
  assumes cursor_append: "cursor (append p x l) q = (if q = p then cursor l p + 1 else cursor l q)"
    and entries_append: "entries (append p x l) q =
      (if q = p then entries l p @ [cursor l p + 1] else entries l q)"

context journal
begin

definition gapless :: "'l \<Rightarrow> bool" where
  "gapless l \<longleftrightarrow> (\<forall>p. 0 \<le> cursor l p \<and> entries l p = [1..cursor l p])"

lemma gapless_append: "gapless l \<Longrightarrow> gapless (append p x l)"
  by (auto simp: gapless_def cursor_append entries_append upto_rec2)

lemma gapless_fold: "gapless l \<Longrightarrow> gapless (fold (\<lambda>(p, x). append p x) xs l)"
  by (induction xs arbitrary: l) (auto intro: gapless_append)

lemma cursor_fold:
  "cursor (fold (\<lambda>(p, x). append p x) xs l) q = cursor l q + int (length (filter (\<lambda>(p, x). p = q) xs))"
  by (induction xs arbitrary: l) (auto simp: cursor_append)

lemma fresh_number: "gapless l \<Longrightarrow> cursor l p + 1 \<notin> set (entries l p)"
  by (simp add: gapless_def)

lemma sorted_entries: "gapless l \<Longrightarrow> sorted (entries l p) \<and> distinct (entries l p)"
  by (simp add: gapless_def)

text \<open>What a reader at position \<open>after\<close> has still to see is a full interval.\<close>

lemma unread:
  assumes "gapless l" and "0 \<le> after" and "after \<le> cursor l p"
  shows "filter (\<lambda>n. after < n) (entries l p) = [after + 1..cursor l p]"
proof -
  have "[1..cursor l p] = [1..after] @ [after + 1..cursor l p]"
    using assms(2,3) by (cases "after = 0") (auto intro: upto_split2)
  moreover have "filter (\<lambda>n. after < n) [1..after] = []"
    by (simp add: filter_empty_conv)
  moreover have "filter (\<lambda>n. after < n) [after + 1..cursor l p] = [after + 1..cursor l p]"
    by (simp add: filter_id_conv)
  ultimately show ?thesis
    using assms(1) by (simp add: gapless_def)
qed

end

subsection \<open>The two journals of the store\<close>

definition event_numbers :: "(string \<Rightarrow> int) \<times> event list \<Rightarrow> string \<Rightarrow> int list" where
  "event_numbers l p = map e_seq (filter (\<lambda>e. e_project e = p) (snd l))"

definition event_append ::
    "string \<Rightarrow> event \<Rightarrow> (string \<Rightarrow> int) \<times> event list \<Rightarrow> (string \<Rightarrow> int) \<times> event list" where
  "event_append p e l = ((fst l)(p := fst l p + 1),
     snd l @ [e\<lparr>e_project := p, e_seq := fst l p + 1\<rparr>])"

definition escalation_numbers :: "(string \<Rightarrow> int) \<times> escalation list \<Rightarrow> string \<Rightarrow> int list" where
  "escalation_numbers l p = map x_seq (filter (\<lambda>e. x_project e = p) (snd l))"

definition escalation_append ::
    "string \<Rightarrow> escalation \<Rightarrow> (string \<Rightarrow> int) \<times> escalation list \<Rightarrow> (string \<Rightarrow> int) \<times> escalation list" where
  "escalation_append p e l = ((fst l)(p := fst l p + 1),
     snd l @ [e\<lparr>x_project := p, x_seq := fst l p + 1\<rparr>])"

interpretation ev: journal fst event_numbers event_append
  by unfold_locales (auto simp: event_numbers_def event_append_def)

interpretation esc: journal fst escalation_numbers escalation_append
  by unfold_locales (auto simp: escalation_numbers_def escalation_append_def)

definition event_journal :: "db \<Rightarrow> (string \<Rightarrow> int) \<times> event list" where
  "event_journal s = (db_cursor s, db_events s)"

definition escalation_journal :: "db \<Rightarrow> (string \<Rightarrow> int) \<times> escalation list" where
  "escalation_journal s = (db_esc_cursor s, db_escalations s)"

text \<open>\<open>appendEvent\<close> and \<open>appendEscalation\<close> are appends of the interface.\<close>

lemma push_event_journal:
  "\<exists>e. event_journal (push_event E m kind p s) = event_append (m_project m) e (event_journal s)
     \<and> e_message e = m_id m \<and> e_revision e = m_revision m"
  by (rule exI [of _ "\<lparr>e_project = m_project m, e_seq = 0, e_message = m_id m,
      e_revision = m_revision m, e_type = kind, e_payload = p, e_created = tx_now E\<rparr>"])
    (simp add: event_journal_def push_event_def event_append_def Let_def)

lemma push_escalation_journal:
  "\<exists>e. escalation_journal (push_escalation E project f t pm cv r s)
     = escalation_append project e (escalation_journal s)"
  by (rule exI [of _ "\<lparr>x_seq = 0, x_project = project, x_from = f, x_to = t, x_parent = pm,
      x_conversation = cv, x_reason = r, x_created = tx_now E\<rparr>"])
    (simp add: escalation_journal_def push_escalation_def escalation_append_def Let_def)

lemma gapless_push_event:
  "ev.gapless (event_journal s) \<Longrightarrow> ev.gapless (event_journal (push_event E m kind p s))"
  by (metis push_event_journal ev.gapless_append)

lemma gapless_push_escalation:
  "esc.gapless (escalation_journal s) \<Longrightarrow>
   esc.gapless (escalation_journal (push_escalation E project f t pm cv r s))"
  by (metis push_escalation_journal esc.gapless_append)

lemma push_event_frame [simp]:
  "db_peers (push_event E m k p s) = db_peers s" "db_creds (push_event E m k p s) = db_creds s"
  "db_leases (push_event E m k p s) = db_leases s" "db_messages (push_event E m k p s) = db_messages s"
  "db_escalations (push_event E m k p s) = db_escalations s"
  "db_esc_cursor (push_event E m k p s) = db_esc_cursor s"
  "db_contracts (push_event E m k p s) = db_contracts s"
  "db_revisions (push_event E m k p s) = db_revisions s" "db_paths (push_event E m k p s) = db_paths s"
  "db_deps (push_event E m k p s) = db_deps s" "db_acks (push_event E m k p s) = db_acks s"
  "db_usage (push_event E m k p s) = db_usage s" "db_samples (push_event E m k p s) = db_samples s"
  "db_runs (push_event E m k p s) = db_runs s" "db_resolved (push_event E m k p s) = db_resolved s"
  "db_reviews (push_event E m k p s) = db_reviews s"
  by (simp_all add: push_event_def Let_def)

lemma push_escalation_frame [simp]:
  "db_peers (push_escalation E p f t pm cv r s) = db_peers s"
  "db_creds (push_escalation E p f t pm cv r s) = db_creds s"
  "db_leases (push_escalation E p f t pm cv r s) = db_leases s"
  "db_messages (push_escalation E p f t pm cv r s) = db_messages s"
  "db_events (push_escalation E p f t pm cv r s) = db_events s"
  "db_cursor (push_escalation E p f t pm cv r s) = db_cursor s"
  "db_contracts (push_escalation E p f t pm cv r s) = db_contracts s"
  "db_revisions (push_escalation E p f t pm cv r s) = db_revisions s"
  "db_paths (push_escalation E p f t pm cv r s) = db_paths s"
  "db_deps (push_escalation E p f t pm cv r s) = db_deps s"
  "db_acks (push_escalation E p f t pm cv r s) = db_acks s"
  "db_usage (push_escalation E p f t pm cv r s) = db_usage s"
  "db_samples (push_escalation E p f t pm cv r s) = db_samples s"
  "db_runs (push_escalation E p f t pm cv r s) = db_runs s"
  "db_resolved (push_escalation E p f t pm cv r s) = db_resolved s"
  "db_reviews (push_escalation E p f t pm cv r s) = db_reviews s"
  by (simp_all add: push_escalation_def Let_def)

end
