(* ===== verification/Coord_Invariant.thy ===== *)
theory Coord_Invariant
  imports Coord_Journal
begin

text \<open>
  What every transaction keeps.  \<open>db_inv\<close> is the invariant of the coordination tables: keys
  are unique, both journals are gapless, every event belongs to a stored message revision,
  counters stay within their limits, a recipient executes at most one message, prerequisites
  and causal parents are earlier messages of the same project.  \<open>evolves\<close> is the two-state
  part: a message keeps its identity, its revision only grows, a terminal message never changes
  again, events and escalations are only appended, a disabled peer stays disabled.

  \<open>core_step\<close> is the preorder that joins the two; the lemmas on the four primitive changes
  (\<open>put_state\<close>, \<open>push_event\<close>, \<open>push_escalation\<close>, and changes of tables other than the messages
  and journals) are what the preservation proof of each operation is composed of.
\<close>

subsection \<open>The invariant\<close>

definition peers_ok :: "peer list \<Rightarrow> bool" where
  "peers_ok ps \<longleftrightarrow> distinct (map p_id ps) \<and> distinct (map (\<lambda>p. (p_project p, p_name p)) ps)"

definition ids_ok :: "message list \<Rightarrow> bool" where
  "ids_ok ms \<longleftrightarrow> distinct (map m_id ms)"

definition keys_ok :: "message list \<Rightarrow> bool" where
  "keys_ok ms \<longleftrightarrow> distinct (map (\<lambda>m. (m_from m, m_key m)) ms)"

definition is_peer :: "peer list \<Rightarrow> string \<Rightarrow> string \<Rightarrow> bool" where
  "is_peer ps project i \<longleftrightarrow> (project, i) \<in> set (map (\<lambda>p. (p_project p, p_id p)) ps)"

definition fk_ok :: "peer list \<Rightarrow> message list \<Rightarrow> bool" where
  "fk_ok ps ms \<longleftrightarrow> (\<forall>m \<in> set ms. is_peer ps (m_project m) (m_from m) \<and>
     is_peer ps (m_project m) (m_to m) \<and> m_from m \<noteq> m_to m)"

definition numbers_ok :: "message list \<Rightarrow> bool" where
  "numbers_ok ms \<longleftrightarrow> (\<forall>m \<in> set ms. 1 \<le> m_revision m \<and>
     0 \<le> m_attempts m \<and> m_attempts m \<le> max_execution_attempts \<and>
     0 \<le> m_depth m \<and> m_depth m \<le> max_request_depth)"

definition started_ok :: "message list \<Rightarrow> bool" where
  "started_ok ms \<longleftrightarrow> (\<forall>m \<in> set ms. \<forall>m' \<in> set ms.
     m_state m = Started \<longrightarrow> m_state m' = Started \<longrightarrow> m_to m = m_to m' \<longrightarrow> m_id m = m_id m')"

text \<open>\<open>earlier ms i d\<close>: the message at position \<open>i\<close> refers to \<open>d\<close>, which comes before it.\<close>

definition earlier :: "(string \<times> string) list \<Rightarrow> nat \<Rightarrow> string \<Rightarrow> string \<Rightarrow> bool" where
  "earlier ids i project d \<longleftrightarrow> (\<exists>j < i. j < length ids \<and> ids ! j = (project, d))"

definition id_list :: "message list \<Rightarrow> (string \<times> string) list" where
  "id_list ms = map (\<lambda>m. (m_project m, m_id m)) ms"

definition order_ok :: "message list \<Rightarrow> bool" where
  "order_ok ms \<longleftrightarrow> (\<forall>i < length ms.
     (\<forall>d \<in> set (m_depends_on (ms ! i)). earlier (id_list ms) i (m_project (ms ! i)) d) \<and>
     (m_parent (ms ! i) \<noteq> '''' \<longrightarrow> earlier (id_list ms) i (m_project (ms ! i)) (m_parent (ms ! i))))"

definition events_ok :: "message list \<Rightarrow> event list \<Rightarrow> bool" where
  "events_ok ms es \<longleftrightarrow> distinct (map (\<lambda>e. (e_message e, e_revision e)) es) \<and>
     (\<forall>e \<in> set es. \<exists>m \<in> set ms. m_id m = e_message e \<and> m_project m = e_project e \<and>
        e_revision e \<le> m_revision m)"

definition leases_ok :: "lease_row list \<Rightarrow> bool" where
  "leases_ok ls \<longleftrightarrow> distinct (map l_peer ls)"

definition usage_ok :: "usage_row list \<Rightarrow> sample_row list \<Rightarrow> bool" where
  "usage_ok us ss \<longleftrightarrow> distinct (map (\<lambda>u. (u_project u, u_scope u)) us) \<and>
     distinct (map (\<lambda>x. (s_message x, s_key x)) ss)"

definition messages_ok :: "peer list \<Rightarrow> message list \<Rightarrow> bool" where
  "messages_ok ps ms \<longleftrightarrow> ids_ok ms \<and> keys_ok ms \<and> fk_ok ps ms \<and> numbers_ok ms \<and> started_ok ms \<and> order_ok ms"

definition db_inv :: "db \<Rightarrow> bool" where
  "db_inv s \<longleftrightarrow> peers_ok (db_peers s) \<and> messages_ok (db_peers s) (db_messages s) \<and>
     events_ok (db_messages s) (db_events s) \<and> ev.gapless (event_journal s) \<and>
     esc.gapless (escalation_journal s) \<and> leases_ok (db_leases s) \<and> usage_ok (db_usage s) (db_samples s)"

lemma db_inv_empty: "db_inv empty_db"
  by (simp add: db_inv_def empty_db_def peers_ok_def messages_ok_def ids_ok_def keys_ok_def fk_ok_def
      numbers_ok_def started_ok_def order_ok_def events_ok_def leases_ok_def usage_ok_def
      ev.gapless_def esc.gapless_def event_journal_def escalation_journal_def event_numbers_def
      escalation_numbers_def)

lemma db_invD:
  assumes "db_inv s"
  shows "peers_ok (db_peers s)" "messages_ok (db_peers s) (db_messages s)" "ids_ok (db_messages s)"
    "keys_ok (db_messages s)" "fk_ok (db_peers s) (db_messages s)" "numbers_ok (db_messages s)"
    "started_ok (db_messages s)" "order_ok (db_messages s)"
    "events_ok (db_messages s) (db_events s)" "ev.gapless (event_journal s)"
    "esc.gapless (escalation_journal s)" "leases_ok (db_leases s)" "usage_ok (db_usage s) (db_samples s)"
  using assms by (simp_all add: db_inv_def messages_ok_def)

subsection \<open>The two-state part\<close>

definition same_envelope :: "message \<Rightarrow> message \<Rightarrow> bool" where
  "same_envelope m m' \<longleftrightarrow> m' = m\<lparr>m_state := m_state m', m_revision := m_revision m',
     m_attempts := m_attempts m', m_updated := m_updated m'\<rparr>"

definition msg_le :: "message \<Rightarrow> message \<Rightarrow> bool" where
  "msg_le m m' \<longleftrightarrow> same_envelope m m' \<and> m_revision m \<le> m_revision m' \<and> m_attempts m \<le> m_attempts m' \<and>
     (terminal (m_state m) \<or> m_revision m' = m_revision m \<longrightarrow> m' = m)"

definition peer_le :: "peer \<Rightarrow> peer \<Rightarrow> bool" where
  "peer_le p p' \<longleftrightarrow> p_id p' = p_id p \<and> p_project p' = p_project p \<and> p_name p' = p_name p \<and>
     (p_enabled p' \<longrightarrow> p_enabled p)"

definition rows_le :: "('a \<Rightarrow> 'a \<Rightarrow> bool) \<Rightarrow> 'a list \<Rightarrow> 'a list \<Rightarrow> bool" where
  "rows_le le xs ys \<longleftrightarrow> length xs \<le> length ys \<and> (\<forall>i < length xs. le (xs ! i) (ys ! i))"

definition evolves :: "db \<Rightarrow> db \<Rightarrow> bool" where
  "evolves s s' \<longleftrightarrow> rows_le msg_le (db_messages s) (db_messages s') \<and>
     rows_le peer_le (db_peers s) (db_peers s') \<and>
     (\<exists>es. db_events s' = db_events s @ es) \<and> (\<exists>xs. db_escalations s' = db_escalations s @ xs)"

definition contract_tables :: "db \<Rightarrow> contract list \<times> revision_row list \<times> path_row list \<times> dep_row list \<times> ack_row list" where
  "contract_tables s = (db_contracts s, db_revisions s, db_paths s, db_deps s, db_acks s)"

definition core_step :: "db \<Rightarrow> db \<Rightarrow> bool" where
  "core_step s s' \<longleftrightarrow> (db_inv s \<longrightarrow> db_inv s' \<and> evolves s s' \<and> contract_tables s' = contract_tables s)"

lemma msg_le_refl [simp]: "msg_le m m"
  by (simp add: msg_le_def same_envelope_def)

lemma msg_le_trans: "msg_le a b \<Longrightarrow> msg_le b c \<Longrightarrow> msg_le a c"
  by (cases a; cases b; cases c) (auto simp: msg_le_def same_envelope_def)

lemma peer_le_refl [simp]: "peer_le p p"
  by (simp add: peer_le_def)

lemma rows_le_refl: "(\<And>x. le x x) \<Longrightarrow> rows_le le xs xs"
  by (simp add: rows_le_def)

lemma rows_le_trans:
  "(\<And>a b c. le a b \<Longrightarrow> le b c \<Longrightarrow> le a c) \<Longrightarrow> rows_le le xs ys \<Longrightarrow> rows_le le ys zs \<Longrightarrow> rows_le le xs zs"
  unfolding rows_le_def by (meson order_less_le_trans order_trans)

lemma rows_le_append: "(\<And>x. le x x) \<Longrightarrow> rows_le le xs (xs @ ys)"
  by (simp add: rows_le_def nth_append)

lemma rows_le_update: "(\<And>x. x \<in> set xs \<Longrightarrow> P x \<Longrightarrow> le x (f x)) \<Longrightarrow> (\<And>x. le x x) \<Longrightarrow>
    rows_le le xs (update_rows P f xs)"
  by (auto simp: rows_le_def update_rows_def)

lemma evolves_refl [simp]: "evolves s s"
  by (simp add: evolves_def rows_le_refl)

lemma evolves_trans: "evolves a b \<Longrightarrow> evolves b c \<Longrightarrow> evolves a c"
proof -
  assume ab: "evolves a b" and bc: "evolves b c"
  have "peer_le p q \<Longrightarrow> peer_le q r \<Longrightarrow> peer_le p r" for p q r
    by (auto simp: peer_le_def)
  with ab bc show ?thesis
    by (auto simp: evolves_def intro: rows_le_trans [OF msg_le_trans] rows_le_trans [of peer_le])
qed

lemma preorder_core [simp, intro]: "preorder_rel core_step"
  by (auto simp: preorder_rel_def core_step_def intro: evolves_trans)

lemma core_stepD:
  assumes "core_step s s'" and "db_inv s"
  shows "db_inv s'" "evolves s s'" "contract_tables s' = contract_tables s"
  using assms by (simp_all add: core_step_def)

subsection \<open>Looking messages up\<close>

lemma find_messageD: "find_message i s = Some m \<Longrightarrow> m \<in> set (db_messages s) \<and> m_id m = i"
  unfolding find_message_def by (drule find_in_set) auto

lemma find_message_eq:
  assumes "ids_ok (db_messages s)" and "m \<in> set (db_messages s)"
  shows "find_message (m_id m) s = Some m"
  using assms find_distinct_key [of m_id "db_messages s" m] by (simp add: ids_ok_def find_message_def)

lemma ids_ok_inj: "ids_ok ms \<Longrightarrow> m \<in> set ms \<Longrightarrow> m' \<in> set ms \<Longrightarrow> m_id m = m_id m' \<Longrightarrow> m = m'"
  unfolding ids_ok_def by (rule distinct_map_inj_on)

lemma find_first_match:
  "find (\<lambda>m. m_id m = i \<and> P m) ms = Some m \<Longrightarrow> m \<in> set ms \<and> m_id m = i \<and> P m"
  by (drule find_in_set) auto

lemma select_messageD:
  "select_message i P s = (Inr m, s') \<Longrightarrow> s' = s \<and> m \<in> set (db_messages s) \<and> m_id m = i \<and> P m"
  by (auto simp: select_message_def dest: find_first_match)

lemma reads_select_message [reader]: "reads (select_message i P)"
  by (simp add: select_message_def reads_tlook)

lemma put_state_frame [simp]:
  "db_peers (put_state E i st n s) = db_peers s" "db_creds (put_state E i st n s) = db_creds s"
  "db_leases (put_state E i st n s) = db_leases s" "db_cursor (put_state E i st n s) = db_cursor s"
  "db_events (put_state E i st n s) = db_events s" "db_escalations (put_state E i st n s) = db_escalations s"
  "db_esc_cursor (put_state E i st n s) = db_esc_cursor s"
  "db_contracts (put_state E i st n s) = db_contracts s"
  "db_revisions (put_state E i st n s) = db_revisions s" "db_paths (put_state E i st n s) = db_paths s"
  "db_deps (put_state E i st n s) = db_deps s" "db_acks (put_state E i st n s) = db_acks s"
  "db_usage (put_state E i st n s) = db_usage s" "db_samples (put_state E i st n s) = db_samples s"
  "db_runs (put_state E i st n s) = db_runs s" "db_resolved (put_state E i st n s) = db_resolved s"
  "db_reviews (put_state E i st n s) = db_reviews s"
  by (simp_all add: put_state_def)

lemma set_state_simps [simp]:
  "m_id (set_state E st n m) = m_id m" "m_project (set_state E st n m) = m_project m"
  "m_from (set_state E st n m) = m_from m" "m_to (set_state E st n m) = m_to m"
  "m_kind (set_state E st n m) = m_kind m" "m_key (set_state E st n m) = m_key m"
  "m_depends_on (set_state E st n m) = m_depends_on m" "m_parent (set_state E st n m) = m_parent m"
  "m_contracts (set_state E st n m) = m_contracts m" "m_depth (set_state E st n m) = m_depth m"
  "m_state (set_state E st n m) = st" "m_revision (set_state E st n m) = m_revision m + 1"
  "m_attempts (set_state E st n m) = m_attempts m + n" "m_deadline (set_state E st n m) = m_deadline m"
  "m_conversation (set_state E st n m) = m_conversation m" "m_task (set_state E st n m) = m_task m"
  "m_hash (set_state E st n m) = m_hash m" "m_created (set_state E st n m) = m_created m"
  "m_in_reply_to (set_state E st n m) = m_in_reply_to m" "m_payload (set_state E st n m) = m_payload m"
  by (simp_all add: set_state_def)

lemma db_messages_put [simp]:
  "db_messages (put_state E i st n s) = update_rows (\<lambda>m. m_id m = i) (set_state E st n) (db_messages s)"
  by (simp add: put_state_def)

lemma find_message_put:
  "find_message j (put_state E i st n s) =
     map_option (\<lambda>m. if m_id m = i then set_state E st n m else m) (find_message j s)"
proof -
  have "find (\<lambda>m. m_id m = j) (update_rows (\<lambda>m. m_id m = i) (set_state E st n) ms) =
     map_option (\<lambda>m. if m_id m = i then set_state E st n m else m) (find (\<lambda>m. m_id m = j) ms)" for ms
    by (induction ms) (auto simp: update_rows_def)
  then show ?thesis by (simp add: find_message_def)
qed

lemma update_state_run:
  "find_message i s = Some m \<Longrightarrow>
   update_state E i st n s = (Inr (set_state E st n m), put_state E i st n s)"
  by (frule find_messageD) (auto simp: update_state_def tbind_run tlook_run find_message_put)

lemma update_state_Inr:
  "update_state E i st n s = (Inr m', s') \<Longrightarrow>
   \<exists>m. find_message i s = Some m \<and> m' = set_state E st n m \<and> s' = put_state E i st n s"
  by (auto simp: update_state_def tbind_eq_Inr find_message_put dest: find_messageD)

lemma snd_update_state [simp]: "snd (update_state E i st n s) = put_state E i st n s"
  by (simp add: update_state_def tbind_run)

subsection \<open>The primitive changes\<close>

lemma numbers_put:
  assumes "numbers_ok ms" and "0 \<le> n"
    and "\<And>m. m \<in> set ms \<Longrightarrow> m_id m = i \<Longrightarrow> m_attempts m + n \<le> max_execution_attempts"
  shows "numbers_ok (update_rows (\<lambda>m. m_id m = i) (set_state E st n) ms)"
  unfolding numbers_ok_def
proof
  fix x assume "x \<in> set (update_rows (\<lambda>m. m_id m = i) (set_state E st n) ms)"
  then obtain m where m: "m \<in> set ms" "x = (if m_id m = i then set_state E st n m else m)"
    by (auto simp: in_update_rows)
  note bspec [OF assms(1) [unfolded numbers_ok_def] m(1)]
  then show "1 \<le> m_revision x \<and> 0 \<le> m_attempts x \<and> m_attempts x \<le> max_execution_attempts \<and>
     0 \<le> m_depth x \<and> m_depth x \<le> max_request_depth"
    using m assms(2,3) by (cases "m_id m = i") simp_all
qed

lemma started_put:
  assumes "started_ok ms" and "ids_ok ms"
    and "st = Started \<Longrightarrow> m \<in> set ms \<Longrightarrow> m_id m = i \<Longrightarrow>
      \<forall>o' \<in> set ms. m_state o' = Started \<longrightarrow> m_to o' = m_to m \<longrightarrow> m_id o' = i"
    and "m \<in> set ms" and "m_id m = i"
  shows "started_ok (update_rows (\<lambda>m. m_id m = i) (set_state E st n) ms)"
proof -
  have unique: "x = m" if "x \<in> set ms" "m_id x = i" for x
    using ids_ok_inj [OF assms(2)] that assms(4,5) by auto
  show ?thesis
    unfolding started_ok_def
  proof (intro ballI impI)
    fix a b
    assume a: "a \<in> set (update_rows (\<lambda>m. m_id m = i) (set_state E st n) ms)"
      and b: "b \<in> set (update_rows (\<lambda>m. m_id m = i) (set_state E st n) ms)"
      and st: "m_state a = Started" "m_state b = Started" and to: "m_to a = m_to b"
    from a obtain a0 where a0: "a0 \<in> set ms" "a = (if m_id a0 = i then set_state E st n a0 else a0)"
      by (auto simp: in_update_rows)
    from b obtain b0 where b0: "b0 \<in> set ms" "b = (if m_id b0 = i then set_state E st n b0 else b0)"
      by (auto simp: in_update_rows)
    have "m_id a0 = m_id b0"
    proof (cases "m_id a0 = i"; cases "m_id b0 = i")
      assume "m_id a0 = i" "m_id b0 = i" then show ?thesis by simp
    next
      assume *: "m_id a0 = i" "m_id b0 \<noteq> i"
      then have "st = Started" "a0 = m" using st a0 unique by auto
      then show ?thesis using assms(3) [OF _ assms(4,5)] * st to a0 b0 by simp
    next
      assume *: "m_id a0 \<noteq> i" "m_id b0 = i"
      then have "st = Started" "b0 = m" using st b0 unique by auto
      then show ?thesis using assms(3) [OF _ assms(4,5)] * st to a0 b0 by simp
    next
      assume "m_id a0 \<noteq> i" "m_id b0 \<noteq> i"
      then have "a = a0" "b = b0" using a0 b0 by simp_all
      then show ?thesis using assms(1) [unfolded started_ok_def, rule_format, OF a0(1) b0(1)] st to by simp
    qed
    then show "m_id a = m_id b" using a0(2) b0(2) by simp
  qed
qed

lemma id_list_put [simp]: "id_list (update_rows (\<lambda>m. m_id m = i) (set_state E st n) ms) = id_list ms"
  by (auto simp: id_list_def update_rows_def)

lemma order_put: "order_ok ms \<Longrightarrow> order_ok (update_rows (\<lambda>m. m_id m = i) (set_state E st n) ms)"
  unfolding order_ok_def id_list_put length_update_rows by (simp add: update_rows_def)

lemma events_put:
  assumes "events_ok ms es"
  shows "events_ok (update_rows (\<lambda>m. m_id m = i) (set_state E st n) ms) es"
  unfolding events_ok_def
proof (intro conjI ballI)
  show "distinct (map (\<lambda>e. (e_message e, e_revision e)) es)" using assms by (simp add: events_ok_def)
  fix e assume "e \<in> set es"
  with assms obtain m where m: "m \<in> set ms" "m_id m = e_message e" "m_project m = e_project e"
    "e_revision e \<le> m_revision m" by (auto simp: events_ok_def)
  let ?m = "if m_id m = i then set_state E st n m else m"
  have "?m \<in> set (update_rows (\<lambda>m. m_id m = i) (set_state E st n) ms)"
    using m(1) by (auto simp: update_rows_def)
  moreover have "m_id ?m = e_message e \<and> m_project ?m = e_project e \<and> e_revision e \<le> m_revision ?m"
    using m by simp
  ultimately show "\<exists>m \<in> set (update_rows (\<lambda>m. m_id m = i) (set_state E st n) ms).
     m_id m = e_message e \<and> m_project m = e_project e \<and> e_revision e \<le> m_revision m"
    by blast
qed

lemma fk_put: "fk_ok ps ms \<Longrightarrow> fk_ok ps (update_rows (\<lambda>m. m_id m = i) (set_state E st n) ms)"
  unfolding fk_ok_def by (fastforce simp: in_update_rows split: if_splits)

lemma map_put:
  "map m_id (update_rows (\<lambda>m. m_id m = i) (set_state E st n) ms) = map m_id ms"
  "map (\<lambda>m. (m_from m, m_key m)) (update_rows (\<lambda>m. m_id m = i) (set_state E st n) ms) =
   map (\<lambda>m. (m_from m, m_key m)) ms"
  by (simp_all add: map_update_rows)

text \<open>
  The one place where a message changes: it is not terminal, and it is started only when its
  recipient has no other started message and attempts are left.
\<close>

definition may_change :: "msg_state \<Rightarrow> int \<Rightarrow> string \<Rightarrow> db \<Rightarrow> bool" where
  "may_change st n i s \<longleftrightarrow> (\<forall>m. find_message i s = Some m \<longrightarrow>
     \<not> terminal (m_state m) \<and> 0 \<le> n \<and> (0 < n \<longrightarrow> m_attempts m + n \<le> max_execution_attempts) \<and>
     (st = Started \<longrightarrow> (\<forall>o' \<in> set (db_messages s).
        m_state o' = Started \<longrightarrow> m_to o' = m_to m \<longrightarrow> m_id o' = i)))"

lemma update_rows_none: "(\<And>x. x \<in> set xs \<Longrightarrow> \<not> P x) \<Longrightarrow> update_rows P f xs = xs"
  by (induction xs) (auto simp: update_rows_def)

lemma put_state_none: "find_message i s = None \<Longrightarrow> put_state E i st n s = s"
  by (auto simp: put_state_def find_message_def find_None_iff update_rows_none)

lemma core_put:
  assumes "may_change st n i s"
  shows "core_step s (put_state E i st n s)"
  unfolding core_step_def
proof (intro impI)
  assume inv: "db_inv s"
  show "db_inv (put_state E i st n s) \<and> evolves s (put_state E i st n s) \<and>
    contract_tables (put_state E i st n s) = contract_tables s"
  proof (cases "find_message i s")
    case None
    with inv show ?thesis by (simp add: put_state_none)
  next
    case (Some m)
    note m = find_messageD [OF Some]
    note change = assms [unfolded may_change_def, rule_format, OF Some]
    have unique: "x = m" if "x \<in> set (db_messages s)" "m_id x = i" for x
      using ids_ok_inj [OF db_invD(3) [OF inv]] that m by auto
    have inv': "db_inv (put_state E i st n s)"
      unfolding db_inv_def messages_ok_def db_messages_put
    proof (intro conjI)
      show "numbers_ok (update_rows (\<lambda>m. m_id m = i) (set_state E st n) (db_messages s))"
        using db_invD(6) [OF inv] change unique
        by (intro numbers_put) (auto simp: numbers_ok_def dest!: bspec)
      show "started_ok (update_rows (\<lambda>m. m_id m = i) (set_state E st n) (db_messages s))"
        using change m by (intro started_put [OF db_invD(7,3) [OF inv]]) auto
    qed (use db_invD [OF inv] in \<open>simp_all add: ids_ok_def keys_ok_def map_put order_put events_put fk_put
          event_journal_def escalation_journal_def\<close>)
    have "rows_le msg_le (db_messages s) (db_messages (put_state E i st n s))"
      unfolding db_messages_put
    proof (rule rows_le_update)
      fix x assume "x \<in> set (db_messages s)" "m_id x = i"
      then have "x = m" by (rule unique)
      with change show "msg_le x (set_state E st n x)"
        by (simp add: msg_le_def same_envelope_def set_state_def)
    qed simp
    then have "evolves s (put_state E i st n s)"
      by (simp add: evolves_def rows_le_refl)
    with inv' show ?thesis by (simp add: contract_tables_def)
  qed
qed

lemma core_push_event:
  assumes "event_fits m s" and "find_message (m_id m) s = Some m"
  shows "core_step s (push_event E m k p s)"
  unfolding core_step_def
proof (intro impI conjI)
  assume inv: "db_inv s"
  have ev: "db_events (push_event E m k p s) = db_events s @ [\<lparr>e_project = m_project m,
      e_seq = db_cursor s (m_project m) + 1, e_message = m_id m, e_revision = m_revision m,
      e_type = k, e_payload = p, e_created = tx_now E\<rparr>]"
    by (simp add: push_event_def Let_def)
  have "events_ok (db_messages s) (db_events (push_event E m k p s))"
    using db_invD(9) [OF inv] assms find_messageD [OF assms(2)]
    by (auto simp: events_ok_def ev event_fits_def)
  then show "db_inv (push_event E m k p s)"
    using db_invD [OF inv] gapless_push_event [OF db_invD(10) [OF inv]]
    by (simp add: db_inv_def escalation_journal_def)
  show "evolves s (push_event E m k p s)"
    by (simp add: evolves_def ev rows_le_refl)
  show "contract_tables (push_event E m k p s) = contract_tables s"
    by (simp add: contract_tables_def)
qed

lemma core_push_escalation: "core_step s (push_escalation E pr f t pm cv r s)"
  unfolding core_step_def
proof (intro impI conjI)
  assume inv: "db_inv s"
  then show "db_inv (push_escalation E pr f t pm cv r s)"
    using gapless_push_escalation [OF db_invD(11) [OF inv]]
    by (simp add: db_inv_def event_journal_def)
  show "evolves s (push_escalation E pr f t pm cv r s)"
    by (simp add: evolves_def rows_le_refl) (simp add: push_escalation_def Let_def)
  show "contract_tables (push_escalation E pr f t pm cv r s) = contract_tables s"
    by (simp add: contract_tables_def)
qed

text \<open>A change that leaves the messages, peers, journals and contracts alone.\<close>

definition same_core :: "db \<Rightarrow> db \<Rightarrow> bool" where
  "same_core s s' \<longleftrightarrow> db_peers s' = db_peers s \<and> db_messages s' = db_messages s \<and>
     event_journal s' = event_journal s \<and> escalation_journal s' = escalation_journal s \<and>
     contract_tables s' = contract_tables s"

lemma preorder_same_core [simp, intro]: "preorder_rel same_core"
  by (auto simp: preorder_rel_def same_core_def)

lemma core_same:
  assumes "same_core s s'" and "leases_ok (db_leases s) \<Longrightarrow> leases_ok (db_leases s')"
    and "usage_ok (db_usage s) (db_samples s) \<Longrightarrow> usage_ok (db_usage s') (db_samples s')"
  shows "core_step s s'"
  using assms by (auto simp: core_step_def db_inv_def same_core_def evolves_def rows_le_refl
      event_journal_def escalation_journal_def)

lemma moves_append_event:
  assumes "preorder_rel R"
    and "event_fits m s \<Longrightarrow> R s (push_event E m k p s)"
  shows "moves R (append_event E m k p) s"
  using assms by (auto simp: moves_def append_event_def tbind_run tguard_run preorder_refl)

lemma moves_append_escalation:
  assumes "preorder_rel R"
    and "escalation_fits pr f t s \<Longrightarrow> R s (push_escalation E pr f t pm cv r s)"
  shows "moves R (append_escalation E pr f t pm cv r) s"
  using assms by (auto simp: moves_def append_escalation_def tbind_run tguard_run preorder_refl)

lemma core_append_escalation: "moves core_step (append_escalation E pr f t pm cv r) s"
  by (rule moves_append_escalation) (auto intro: core_push_escalation)

lemma core_append_event:
  "find_message (m_id m) s = Some m \<Longrightarrow> moves core_step (append_event E m k p) s"
  by (rule moves_append_event) (auto intro: core_push_event)

lemma core_update_state:
  "may_change st n i s \<Longrightarrow> moves core_step (update_state E i st n) s"
  by (simp add: moves_def core_put)

text \<open>The update of a message followed by its event, as every operation of the code has it.\<close>

lemma core_update_event:
  assumes "may_change st n i s"
    and "\<And>m s'. find_message i s' = Some m \<Longrightarrow> moves core_step (f m) s'"
  shows "moves core_step (tbind (update_state E i st n) (\<lambda>m. tbind (append_event E m k (p m)) (\<lambda>_. f m))) s"
proof (rule moves_tbind [OF preorder_core core_update_state [OF assms(1)]])
  fix m s' assume "update_state E i st n s = (Inr m, s')"
  then obtain m0 where *: "find_message i s = Some m0" "m = set_state E st n m0" "s' = put_state E i st n s"
    by (auto dest: update_state_Inr)
  then have i: "m_id m = i" "find_message i s' = Some m"
    by (auto simp: find_message_put dest: find_messageD)
  show "moves core_step (tbind (append_event E m k (p m)) (\<lambda>_. f m)) s'"
  proof (rule moves_tbind [OF preorder_core])
    show "moves core_step (append_event E m k (p m)) s'"
      using i by (intro core_append_event) simp
    fix a s'' assume "append_event E m k (p m) s' = (Inr a, s'')"
    then have "s'' = push_event E m k (p m) s'"
      by (auto simp: append_event_def tbind_eq_Inr)
    then have "find_message i s'' = Some m" using i by (simp add: find_message_def)
    then show "moves core_step (f m) s''" by (rule assms(2))
  qed
qed

subsection \<open>Composing\<close>

lemma core_bind [core]:
  "moves core_step m s \<Longrightarrow> (\<And>a s'. m s = (Inr a, s') \<Longrightarrow> moves core_step (f a) s') \<Longrightarrow>
   moves core_step (tbind m f) s"
  by (rule moves_tbind [OF preorder_core])

lemmas core_read = moves_reads [OF preorder_core]
lemmas [core] = moves_cases core_append_escalation core_read [OF reads_tget] core_read [OF reads_tlook] core_read [OF reads_tguard]
  core_read [OF reads_tret] core_read [OF reads_tfail] core_read [OF reads_tlift]
  core_read [OF reads_select_message]

lemma core_vacuous: "(db_inv s \<Longrightarrow> moves core_step m s) \<Longrightarrow> moves core_step m s"
  by (auto simp: moves_def core_step_def)

end
