(* ===== verification/Coord_Access.thy ===== *)
theory Coord_Access
  imports Coord_Invariant
begin

text \<open>
  Identity and authority: registration and authentication of peers (\<open>store.go\<close>), credentials
  bound to a request and re-checked at commit (\<open>credential_expiry.go\<close>), worker leases
  (\<open>lease.go\<close>), the proof of a remote execution (\<open>transport_execution.go\<close>) and the recovery of
  manually processed work (\<open>external.go\<close>).

  The lemmas show that a lease excludes every other owner until it expires, that acquiring one
  turns interrupted work into blocked work, and that a transaction whose credential has expired
  by the time of its commit leaves no trace.
\<close>

subsection \<open>Reading peers\<close>

definition validate_repository_peer :: "env \<Rightarrow> peer \<Rightarrow> unit dbtx" where
  "validate_repository_peer E p =
     (if \<not> has_prefix (p_project p) ''repository:'' then tret ()
      else case repository_check E p of None \<Rightarrow> tret () | Some e \<Rightarrow> tfail e)"

definition enabled_peer :: "env \<Rightarrow> string \<Rightarrow> peer dbtx" where
  "enabled_peer E i =
     tbind (tlook (\<lambda>s. find (\<lambda>p. p_id p = i \<and> p_enabled p) (db_peers s)) ErrUnauthorized) (\<lambda>p.
     tbind (validate_repository_peer E p) (\<lambda>_.
     tret p))"

definition lock_peer :: "env \<Rightarrow> string \<Rightarrow> peer dbtx" where
  "lock_peer E i =
     tbind (tlook (\<lambda>s. find (\<lambda>p. p_id p = i \<and> p_enabled p) (db_peers s)) ErrUnauthorized) (\<lambda>p.
     tbind (validate_repository_peer E p) (\<lambda>_.
     tret p))"

definition lock_admission :: "string \<Rightarrow> unit dbtx" where
  "lock_admission i =
     tbind (tlook (\<lambda>s. find (\<lambda>p. p_id p = i \<and> p_enabled p) (db_peers s)) SqlNoRows) (\<lambda>_.
     tret ())"

definition validate_repository_peer_id :: "env \<Rightarrow> string \<Rightarrow> unit dbtx" where
  "validate_repository_peer_id E i =
     tbind (tget (\<lambda>s. find (\<lambda>p. p_id p = i \<and> has_prefix (p_project p) ''repository:'') (db_peers s))) (\<lambda>r.
     case r of None \<Rightarrow> tret () | Some p \<Rightarrow> validate_repository_peer E p)"

lemma reads_validate [reader]: "reads (validate_repository_peer E p)"
  unfolding validate_repository_peer_def by (intro reader)

lemma reads_enabled_peer [reader]: "reads (enabled_peer E i)"
  unfolding enabled_peer_def by (intro reader)

lemma reads_lock_peer [reader]: "reads (lock_peer E i)"
  unfolding lock_peer_def by (intro reader)

lemma reads_lock_admission [reader]: "reads (lock_admission i)"
  unfolding lock_admission_def by (intro reader)

lemma reads_validate_id [reader]: "reads (validate_repository_peer_id E i)"
  unfolding validate_repository_peer_id_def by (intro reader)

lemma enabled_peerD:
  "enabled_peer E i s = (Inr p, s') \<Longrightarrow> s' = s \<and> p \<in> set (db_peers s) \<and> p_id p = i \<and> p_enabled p"
  using reads_state [OF reads_validate]
  by (fastforce simp: enabled_peer_def tbind_eq_Inr dest: find_in_set)

lemma lock_peerD:
  "lock_peer E i s = (Inr p, s') \<Longrightarrow> s' = s \<and> p \<in> set (db_peers s) \<and> p_id p = i \<and> p_enabled p"
  using reads_state [OF reads_validate]
  by (fastforce simp: lock_peer_def tbind_eq_Inr dest: find_in_set)

subsection \<open>Credentials\<close>

definition credential_valid :: "int \<Rightarrow> string \<Rightarrow> credential \<Rightarrow> bool" where
  "credential_valid clock i c \<longleftrightarrow> c_peer c = i \<and> \<not> c_revoked c \<and>
     (case c_expires c of None \<Rightarrow> True | Some t \<Rightarrow> clock < t)"

definition check_scoped_credential :: "int \<Rightarrow> ctx \<Rightarrow> string \<Rightarrow> unit dbtx" where
  "check_scoped_credential clock c i =
     (case ctx_scope c of
        None \<Rightarrow> tret ()
      | Some (actor, hash) \<Rightarrow>
          if actor \<noteq> i then tfail ErrUnauthorized
          else tbind (tlook (\<lambda>s. find (\<lambda>r. c_hash r = hash) (db_creds s)) ErrUnauthorized) (\<lambda>r.
               tguard (credential_valid clock i r) ErrUnauthorized))"

lemma reads_check_scoped [reader]: "reads (check_scoped_credential clock c i)"
  unfolding check_scoped_credential_def by (intro reader)

text \<open>
  A transaction body answers \<open>Inr r\<close> to commit, where \<open>r\<close> may itself be an error that is
  returned after the commit, and \<open>Inl e\<close> to roll back with \<open>e\<close>.
\<close>

definition commit_tx :: "(err + 'a) dbtx \<Rightarrow> db \<Rightarrow> (err + 'a) \<times> db" where
  "commit_tx body s = (case body s of (Inl e, _) \<Rightarrow> (Inl e, s) | (Inr r, s') \<Rightarrow> (r, s'))"

definition commit_peer_transaction :: "env \<Rightarrow> ctx \<Rightarrow> string \<Rightarrow> (err + 'a) dbtx \<Rightarrow> db \<Rightarrow> (err + 'a) \<times> db" where
  "commit_peer_transaction E c i body s =
     (case body s of
        (Inl e, _) \<Rightarrow> (Inl e, s)
      | (Inr r, s') \<Rightarrow>
          (case fst (check_scoped_credential (commit_now E) c i s') of
             Inl e \<Rightarrow> (Inl e, s)
           | Inr _ \<Rightarrow> (r, s')))"

lemma commit_tx_moves: "preorder_rel R \<Longrightarrow> moves R body s \<Longrightarrow> R s (snd (commit_tx body s))"
  by (auto simp: commit_tx_def moves_def preorder_refl split: prod.splits sum.splits)

lemma commit_peer_moves:
  "preorder_rel R \<Longrightarrow> moves R body s \<Longrightarrow> R s (snd (commit_peer_transaction E c i body s))"
  by (auto simp: commit_peer_transaction_def moves_def preorder_refl split: prod.splits sum.splits)

lemma commit_tx_ok: "commit_tx body s = (Inr a, s') \<Longrightarrow> body s = (Inr (Inr a), s')"
  by (auto simp: commit_tx_def split: prod.splits sum.splits)

lemma commit_peer_ok: "commit_peer_transaction E c i body s = (Inr a, s') \<Longrightarrow> body s = (Inr (Inr a), s')"
  by (auto simp: commit_peer_transaction_def split: prod.splits sum.splits)

text \<open>No effect without a credential that is still valid when the transaction commits.\<close>

lemma commit_peer_unauthorized:
  assumes "ctx_scope c = Some (actor, hash)"
    and "\<forall>r \<in> set (db_creds (snd (body s))). c_hash r = hash \<longrightarrow> \<not> credential_valid (commit_now E) i r"
  shows "\<exists>e. commit_peer_transaction E c i body s = (Inl e, s)"
proof (cases "body s")
  case (Pair r s')
  have "\<exists>e. fst (check_scoped_credential (commit_now E) c i s') = Inl e"
  proof (cases "find (\<lambda>r. c_hash r = hash) (db_creds s')")
    case None
    with assms(1) show ?thesis by (simp add: check_scoped_credential_def tx_simps)
  next
    case (Some r)
    with assms(2) Pair have "\<not> credential_valid (commit_now E) i r" by (auto dest: find_in_set)
    with Some assms(1) show ?thesis by (simp add: check_scoped_credential_def tx_simps)
  qed
  with Pair show ?thesis
    by (auto simp: commit_peer_transaction_def split: sum.splits)
qed

definition authenticate :: "env \<Rightarrow> string \<Rightarrow> peer dbtx" where
  "authenticate E token =
     (if length token \<noteq> 64 then tfail ErrUnauthorized
      else tbind (tlook (\<lambda>s. find (\<lambda>c. c_hash c = sha256 E token) (db_creds s)) ErrUnauthorized) (\<lambda>c.
           tbind (tguard (\<not> c_revoked c \<and> (case c_expires c of None \<Rightarrow> True | Some t \<Rightarrow> now E < t)) ErrUnauthorized) (\<lambda>_.
           tlook (\<lambda>s. find (\<lambda>p. p_id p = c_peer c \<and> p_enabled p) (db_peers s)) ErrUnauthorized)))"

definition authenticate_scoped :: "env \<Rightarrow> ctx \<Rightarrow> string \<Rightarrow> (peer \<times> ctx) dbtx" where
  "authenticate_scoped E c token =
     tbind (authenticate E token) (\<lambda>p.
     tret (p, c\<lparr>ctx_scope := Some (p_id p, sha256 E token)\<rparr>))"

lemma authenticateD:
  "authenticate E token s = (Inr p, s') \<Longrightarrow> s' = s \<and> p \<in> set (db_peers s) \<and> p_enabled p \<and>
     (\<exists>c \<in> set (db_creds s). c_hash c = sha256 E token \<and> credential_valid (now E) (p_id p) c)"
  by (auto simp: authenticate_def tbind_eq_Inr credential_valid_def split: if_splits dest!: find_in_set)

subsection \<open>Registration and revocation\<close>

definition peer_name_ok :: "string \<Rightarrow> bool" where
  "peer_name_ok n = (case n of [] \<Rightarrow> False
     | c # r \<Rightarrow> is_lower c \<and> length r \<le> 63 \<and>
         list_all (\<lambda>x. is_lower x \<or> is_digit x \<or> x = CHR ''_'' \<or> x = CHR ''-'') r)"

definition prepare_peer :: "env \<Rightarrow> peer \<Rightarrow> err + peer" where
  "prepare_peer E p =
    (if \<not> endpoint_valid E (p_endpoint p) then Inl (ErrOther ''endpoint'')
     else if trim_space (p_project p) = [] \<or> length (p_project p) > 256 \<or> \<not> peer_name_ok (p_name p)
          \<or> trim_space (p_role p) = [] \<or> length (p_role p) > 256
     then Inl (ErrOther ''valid project, peer name and role are required'')
     else if \<not> has_prefix (p_workspace p) ''/'' \<or> length (p_capabilities p) > 64
     then Inl (ErrOther ''absolute workspace and at most 64 capabilities required'')
     else if list_ex (\<lambda>x. x = [] \<or> length x > 128) (p_capabilities p)
     then Inl (ErrOther ''capability must be 1..128 bytes'')
     else case workspace_canonical E (p_workspace p) of
        None \<Rightarrow> Inl (ErrOther ''workspace must be an existing directory'')
      | Some w \<Rightarrow> Inr (p\<lparr>p_id := fresh_id E, p_workspace := w, p_enabled := True\<rparr>))"

definition insert_peer :: "peer \<Rightarrow> unit dbtx" where
  "insert_peer p =
     tbind (tget (\<lambda>s. list_ex (\<lambda>q. p_id q = p_id p \<or> (p_project q = p_project p \<and> p_name q = p_name p)) (db_peers s))) (\<lambda>dup.
     tbind (tguard (\<not> dup) (SqlConstraint ''coordination_peers'')) (\<lambda>_.
     tmod (\<lambda>s. s\<lparr>db_peers := db_peers s @ [p]\<rparr>)))"

definition insert_credential :: "credential \<Rightarrow> unit dbtx" where
  "insert_credential c =
     tbind (tget (\<lambda>s. list_ex (\<lambda>r. c_hash r = c_hash c) (db_creds s))) (\<lambda>dup.
     tbind (tguard (\<not> dup) (SqlConstraint ''coordination_credentials'')) (\<lambda>_.
     tmod (\<lambda>s. s\<lparr>db_creds := db_creds s @ [c]\<rparr>)))"

definition register_peer :: "env \<Rightarrow> peer \<Rightarrow> db \<Rightarrow> (err + (peer \<times> string)) \<times> db" where
  "register_peer E p0 = commit_tx (
     tbind (tguard (\<not> has_prefix (p_project p0) ''repository:'') (ErrOther ''repository scope'')) (\<lambda>_.
     tbind (tlift (prepare_peer E p0)) (\<lambda>p.
     tbind (insert_peer p) (\<lambda>_.
     tbind (insert_credential \<lparr>c_hash = sha256 E (fresh_secret E), c_peer = p_id p, c_revoked = False,
               c_expires = None\<rparr>) (\<lambda>_.
     tret (Inr (p, fresh_secret E)))))))"

definition disable_peer :: "string \<Rightarrow> db \<Rightarrow> (err + unit) \<times> db" where
  "disable_peer i = commit_tx (
     tbind (tget (\<lambda>s. list_ex (\<lambda>p. p_id p = i) (db_peers s))) (\<lambda>found.
     tbind (tmod (\<lambda>s. s\<lparr>db_peers := update_rows (\<lambda>p. p_id p = i) (p_enabled_update (\<lambda>_. False)) (db_peers s)\<rparr>)) (\<lambda>_.
     tbind (tguard found ErrNotFound) (\<lambda>_.
     tbind (tmod (\<lambda>s. s\<lparr>db_creds := update_rows (\<lambda>c. c_peer c = i) (c_revoked_update (\<lambda>_. True)) (db_creds s)\<rparr>)) (\<lambda>_.
     tret (Inr ()))))))"

text \<open>
  \<open>RevokePeerCredential\<close> is given the two peers its sessions resolve to.  It retires one credential
  of the target and leaves the peer and its other credentials alone.
\<close>

definition revoke_peer_credential :: "env \<Rightarrow> peer \<Rightarrow> peer \<Rightarrow> string \<Rightarrow> db \<Rightarrow> (err + unit) \<times> db" where
  "revoke_peer_credential E anchor target token = commit_tx (
     tbind (tguard (length token = 64) (ErrOther ''valid private credential required'')) (\<lambda>_.
     tbind (tguard (p_project anchor = p_project target) ErrUnauthorized) (\<lambda>_.
     tbind (lock_admission (p_id anchor)) (\<lambda>_.
     tbind (tget (\<lambda>s. length (filter (\<lambda>p. (p_id p = p_id anchor \<or> p_id p = p_id target) \<and>
        p_project p = p_project anchor \<and> p_enabled p) (db_peers s)))) (\<lambda>count.
     tbind (tguard (count = (if p_id anchor = p_id target then 1 else 2)) ErrUnauthorized) (\<lambda>_.
     tbind (validate_repository_peer E anchor) (\<lambda>_.
     tbind (validate_repository_peer E target) (\<lambda>_.
     tbind (tget (\<lambda>s. list_ex (\<lambda>c. c_hash c = sha256 E token \<and> c_peer c = p_id target) (db_creds s))) (\<lambda>found.
     tbind (tmod (\<lambda>s. s\<lparr>db_creds := update_rows (\<lambda>c. c_hash c = sha256 E token \<and> c_peer c = p_id target)
              (c_revoked_update (\<lambda>_. True)) (db_creds s)\<rparr>)) (\<lambda>_.
     tbind (tguard found ErrNotFound) (\<lambda>_.
     tret (Inr ()))))))))))))"

lemma core_peers_update:
  assumes "\<And>p. p_id (f p) = p_id p \<and> p_project (f p) = p_project p \<and> p_name (f p) = p_name p \<and>
     (p_enabled (f p) \<longrightarrow> p_enabled p)"
  shows "core_step s (s\<lparr>db_peers := update_rows P f (db_peers s)\<rparr>)"
proof -
  have ids: "map p_id (update_rows P f ps) = map p_id ps"
    "map (\<lambda>p. (p_project p, p_name p)) (update_rows P f ps) = map (\<lambda>p. (p_project p, p_name p)) ps"
    "map (\<lambda>p. (p_project p, p_id p)) (update_rows P f ps) = map (\<lambda>p. (p_project p, p_id p)) ps" for ps
    using assms by (simp_all add: map_update_rows)
  have "fk_ok (update_rows P f ps) ms = fk_ok ps ms" for ps ms
    unfolding fk_ok_def is_peer_def ids ..
  moreover have "peers_ok (update_rows P f ps) = peers_ok ps" for ps
    unfolding peers_ok_def ids ..
  moreover have "rows_le peer_le ps (update_rows P f ps)" for ps
    using assms by (intro rows_le_update) (auto simp: peer_le_def)
  ultimately show ?thesis
    by (simp add: core_step_def db_inv_def messages_ok_def evolves_def rows_le_refl contract_tables_def
        event_journal_def escalation_journal_def)
qed

lemma core_insert_peer:
  assumes "\<not> list_ex (\<lambda>q. p_id q = p_id p \<or> (p_project q = p_project p \<and> p_name q = p_name p)) (db_peers s)"
  shows "core_step s (s\<lparr>db_peers := db_peers s @ [p]\<rparr>)"
proof -
  have "peers_ok (db_peers s) \<Longrightarrow> peers_ok (db_peers s @ [p])"
    using assms by (auto simp: peers_ok_def list_ex_iff)
  moreover have "fk_ok (db_peers s) ms \<Longrightarrow> fk_ok (db_peers s @ [p]) ms" for ms
    by (auto simp: fk_ok_def is_peer_def)
  ultimately show ?thesis
    by (simp add: core_step_def db_inv_def messages_ok_def evolves_def rows_le_refl rows_le_append
        contract_tables_def event_journal_def escalation_journal_def)
qed

lemma core_register_peer: "core_step s (snd (register_peer E p s))"
  unfolding register_peer_def
proof (rule commit_tx_moves [OF preorder_core])
  have peer: "moves core_step (insert_peer p) s" for p s
    unfolding insert_peer_def
    by (auto simp: moves_def tx_simps intro: core_insert_peer preorder_refl)
  have cred: "moves core_step (insert_credential c) s" for c s
    unfolding insert_credential_def
    by (auto simp: moves_def tx_simps same_core_def event_journal_def escalation_journal_def contract_tables_def
        intro: core_same preorder_refl)
  show "moves core_step (tbind (tguard (\<not> has_prefix (p_project p) ''repository:'') (ErrOther ''repository scope'')) (\<lambda>_.
     tbind (tlift (prepare_peer E p)) (\<lambda>p. tbind (insert_peer p) (\<lambda>_.
     tbind (insert_credential \<lparr>c_hash = sha256 E (fresh_secret E), c_peer = p_id p, c_revoked = False,
               c_expires = None\<rparr>) (\<lambda>_. tret (Inr (p, fresh_secret E))))))) s"
    by (intro core peer cred)
qed

lemma core_revoke: "core_step s (s\<lparr>db_creds := cs\<rparr>)"
  by (rule core_same) (simp_all add: same_core_def event_journal_def escalation_journal_def contract_tables_def)

lemma core_disable_peer: "core_step s (snd (disable_peer i s))"
  unfolding disable_peer_def
proof (rule commit_tx_moves [OF preorder_core])
  have 1: "moves core_step (tmod (\<lambda>s. s\<lparr>db_peers := update_rows (\<lambda>p. p_id p = i)
      (p_enabled_update (\<lambda>_. False)) (db_peers s)\<rparr>)) s" for s
    unfolding moves_tmod by (rule core_peers_update) simp
  have 2: "moves core_step (tmod (\<lambda>s. s\<lparr>db_creds := f (db_creds s)\<rparr>)) s" for f s
    unfolding moves_tmod by (rule core_revoke)
  show "moves core_step (tbind (tget (\<lambda>s. list_ex (\<lambda>p. p_id p = i) (db_peers s))) (\<lambda>found.
     tbind (tmod (\<lambda>s. s\<lparr>db_peers := update_rows (\<lambda>p. p_id p = i) (p_enabled_update (\<lambda>_. False)) (db_peers s)\<rparr>)) (\<lambda>_.
     tbind (tguard found ErrNotFound) (\<lambda>_.
     tbind (tmod (\<lambda>s. s\<lparr>db_creds := update_rows (\<lambda>c. c_peer c = i) (c_revoked_update (\<lambda>_. True)) (db_creds s)\<rparr>)) (\<lambda>_.
     tret (Inr ())))))) s"
    by (intro core 1 2)
qed

lemma core_revoke_peer_credential: "core_step s (snd (revoke_peer_credential E anchor target token s))"
proof -
  have cred: "moves core_step (tmod (\<lambda>s. s\<lparr>db_creds := f (db_creds s)\<rparr>)) s" for f s
    unfolding moves_tmod by (rule core_revoke)
  show ?thesis
    unfolding revoke_peer_credential_def
    by (intro commit_tx_moves [OF preorder_core] core cred core_read [OF reads_validate] core_read [OF reads_lock_admission])
qed

text \<open>After a successful revocation the token authenticates nobody and passes no commit.\<close>

lemma revoke_marks:
  assumes "revoke_peer_credential E anchor target token s = (Inr u, s')"
  shows "\<forall>c \<in> set (db_creds s'). c_hash c = sha256 E token \<and> c_peer c = p_id target \<longrightarrow> c_revoked c"
    "\<exists>c \<in> set (db_creds s'). c_hash c = sha256 E token \<and> c_peer c = p_id target"
proof -
  from commit_tx_ok [OF assms [unfolded revoke_peer_credential_def]] obtain s1 s2 s3 where
    1: "lock_admission (p_id anchor) s = (Inr (), s1)" and 2: "validate_repository_peer E anchor s1 = (Inr (), s2)"
    and 3: "validate_repository_peer E target s2 = (Inr (), s3)"
    and found: "list_ex (\<lambda>c. c_hash c = sha256 E token \<and> c_peer c = p_id target) (db_creds s3)"
    and s': "s' = s3\<lparr>db_creds := update_rows (\<lambda>c. c_hash c = sha256 E token \<and> c_peer c = p_id target)
        (c_revoked_update (\<lambda>_. True)) (db_creds s3)\<rparr>"
    by (auto simp: tbind_eq_Inr)
  show "\<forall>c \<in> set (db_creds s'). c_hash c = sha256 E token \<and> c_peer c = p_id target \<longrightarrow> c_revoked c"
  proof (intro ballI impI)
    fix c assume "c \<in> set (db_creds s')" and c: "c_hash c = sha256 E token \<and> c_peer c = p_id target"
    then obtain r where "c = (if c_hash r = sha256 E token \<and> c_peer r = p_id target then r\<lparr>c_revoked := True\<rparr> else r)"
      by (auto simp: s' in_update_rows)
    with c show "c_revoked c" by (cases "c_hash r = sha256 E token \<and> c_peer r = p_id target") simp_all
  qed
  show "\<exists>c \<in> set (db_creds s'). c_hash c = sha256 E token \<and> c_peer c = p_id target"
  proof -
    from found obtain r where r: "r \<in> set (db_creds s3)" "c_hash r = sha256 E token" "c_peer r = p_id target"
      by (auto simp: list_ex_iff)
    then have "r\<lparr>c_revoked := True\<rparr> \<in> set (db_creds s')"
      by (auto simp: s' in_update_rows intro!: bexI [of _ r])
    with r show ?thesis by (intro bexI) simp_all
  qed
qed

lemmas [core] = core_read [OF reads_validate] core_read [OF reads_enabled_peer] core_read [OF reads_lock_peer]
  core_read [OF reads_lock_admission] core_read [OF reads_validate_id] core_read [OF reads_check_scoped]

end
