(* ===== verification/Coord_Lease.thy ===== *)
theory Coord_Lease
  imports Coord_Access
begin

text \<open>
  Worker leases (\<open>lease.go\<close>), the proof of a remote execution (\<open>transport_execution.go\<close>) and
  the recovery of manually processed work (\<open>external.go\<close>).  Timestamps are in microseconds, a
  Go \<open>time.Duration\<close> is in nanoseconds; \<open>ttl.Milliseconds()\<close> truncates, as \<open>div\<close> does on the
  non-negative durations that pass the range check.
\<close>

subsection \<open>Shared loops over rows\<close>

text \<open>
  Marking a list of messages: \<open>AcquireLease\<close> and \<open>RecoverExternal\<close> block interrupted work with
  it, \<open>claim\<close> fails expired work.
\<close>

definition mark_all :: "env \<Rightarrow> msg_state \<Rightarrow> string \<Rightarrow> payload \<Rightarrow> message list \<Rightarrow> unit dbtx" where
  "mark_all E st kind p ms =
     tfor (\<lambda>m. tbind (update_state E (m_id m) st 0) (\<lambda>m'. append_event E m' kind p)) ms"

definition open_message :: "db \<Rightarrow> string \<Rightarrow> bool" where
  "open_message s i \<longleftrightarrow> (\<exists>m. find_message i s = Some m \<and> \<not> terminal (m_state m))"

lemma append_event_frame: "append_event E m k p s = (r, s') \<Longrightarrow> db_messages s' = db_messages s"
  by (auto simp: append_event_def tx_simps split: if_splits)

lemma find_message_cong: "db_messages s' = db_messages s \<Longrightarrow> find_message i s' = find_message i s"
  by (simp add: find_message_def)

lemma may_change_open:
  "open_message s i \<Longrightarrow> st \<noteq> Started \<Longrightarrow> may_change st 0 i s"
  by (auto simp: may_change_def open_message_def)

lemma core_mark_one:
  assumes "open_message s i" and "st \<noteq> Started"
  shows "moves core_step (tbind (update_state E i st 0) (\<lambda>m'. append_event E m' k p)) s"
proof (rule moves_tbind [OF preorder_core core_update_state [OF may_change_open [OF assms]]])
  fix m s' assume "update_state E i st 0 s = (Inr m, s')"
  then obtain m0 where "find_message i s = Some m0" "m = set_state E st 0 m0" "s' = put_state E i st 0 s"
    by (auto dest: update_state_Inr)
  then have "find_message (m_id m) s' = Some m"
    by (auto simp: find_message_put dest: find_messageD)
  then show "moves core_step (append_event E m k p) s'" by (rule core_append_event)
qed

lemma mark_one_messages:
  assumes "tbind (update_state E i st 0) (\<lambda>m'. append_event E m' k p) s = (r, s')"
  shows "db_messages s' = update_rows (\<lambda>m. m_id m = i) (set_state E st 0) (db_messages s)"
proof (cases "find_message i s")
  case (Some m)
  with assms show ?thesis by (auto simp: tbind_run update_state_run dest: append_event_frame)
next
  case None
  with assms have "s' = s"
    by (auto simp: update_state_def tbind_run tlook_run put_state_none)
  with None show ?thesis
    by (auto simp: find_message_def find_None_iff update_rows_none)
qed

lemma open_after_mark:
  assumes "tbind (update_state E i st 0) (\<lambda>m'. append_event E m' k p) s = (r, s')"
    and "j \<noteq> i" and "open_message s j"
  shows "open_message s' j"
proof -
  have "find_message j s' = find_message j (put_state E i st 0 s)"
    using mark_one_messages [OF assms(1)] by (simp add: find_message_def)
  with assms(2,3) show ?thesis
    by (auto simp: open_message_def find_message_put dest: find_messageD)
qed

lemma core_mark_all:
  assumes "distinct (map m_id ms)" and "\<forall>m \<in> set ms. open_message s (m_id m)" and "st \<noteq> Started"
  shows "moves core_step (mark_all E st k p ms) s"
  using assms(1,2)
proof (induction ms arbitrary: s)
  case Nil
  show ?case unfolding mark_all_def tfor.simps by (rule moves_reads [OF preorder_core reads_tret])
next
  case (Cons m ms)
  show ?case
    unfolding mark_all_def tfor.simps
  proof (rule moves_tbind [OF preorder_core])
    show "moves core_step (tbind (update_state E (m_id m) st 0) (\<lambda>m'. append_event E m' k p)) s"
      using Cons.prems(2) assms(3) by (intro core_mark_one) auto
    fix a s' assume run: "tbind (update_state E (m_id m) st 0) (\<lambda>m'. append_event E m' k p) s = (Inr a, s')"
    have "moves core_step (mark_all E st k p ms) s'"
    proof (rule Cons.IH)
      show "distinct (map m_id ms)" using Cons.prems(1) by simp
      show "\<forall>x \<in> set ms. open_message s' (m_id x)"
      proof
        fix x assume x: "x \<in> set ms"
        then have "m_id x \<in> set (map m_id ms)" by simp
        moreover have "m_id m \<notin> set (map m_id ms)" "open_message s (m_id x)" using Cons.prems x by simp_all
        ultimately have "m_id x \<noteq> m_id m \<and> open_message s (m_id x)" by metis
        then show "open_message s' (m_id x)" by (blast intro: open_after_mark [OF run])
      qed
    qed
    then show "moves core_step (tfor (\<lambda>m. tbind (update_state E (m_id m) st 0) (\<lambda>m'. append_event E m' k p)) ms) s'"
      by (simp add: mark_all_def)
  qed
qed

text \<open>No message is started by a run: every started message was there before, unchanged.\<close>

definition no_new_started :: "db \<Rightarrow> db \<Rightarrow> bool" where
  "no_new_started s s' \<longleftrightarrow> (\<forall>m \<in> set (db_messages s'). m_state m = Started \<longrightarrow> m \<in> set (db_messages s))"

lemma preorder_no_new_started [simp, intro]: "preorder_rel no_new_started"
  by (auto simp: preorder_rel_def no_new_started_def)

lemma no_new_started_put: "st \<noteq> Started \<Longrightarrow> no_new_started s (put_state E i st n s)"
  by (auto simp: no_new_started_def in_update_rows split: if_splits)

lemma no_new_started_same: "db_messages s' = db_messages s \<Longrightarrow> no_new_started s s'"
  by (simp add: no_new_started_def)

lemma nns_mark_all: "st \<noteq> Started \<Longrightarrow> moves no_new_started (mark_all E st k p ms) s"
  unfolding mark_all_def
proof (rule moves_tfor [OF preorder_no_new_started])
  fix m s assume "st \<noteq> Started"
  then have "moves no_new_started (update_state E (m_id m) st 0) s" for s
    by (simp add: moves_def no_new_started_put)
  moreover have "moves no_new_started (append_event E m' k p) s'" for m' s'
    by (rule moves_append_event) (auto intro: no_new_started_same)
  ultimately show "moves no_new_started (tbind (update_state E (m_id m) st 0) (\<lambda>m'. append_event E m' k p)) s"
    by (intro moves_tbind [OF preorder_no_new_started])
qed

lemma mark_all_messages:
  assumes "mark_all E st k p ms s = (r, s')" and "i \<notin> m_id ` set ms"
  shows "find_message i s' = find_message i s"
  using assms
proof (induction ms arbitrary: s)
  case (Cons m ms)
  let ?body = "tbind (update_state E (m_id m) st 0) (\<lambda>m'. append_event E m' k p)"
  obtain r1 s1 where one: "?body s = (r1, s1)" by fastforce
  have keep: "find_message i s1 = find_message i s"
    using mark_one_messages [OF one] Cons.prems(2)
    by (simp add: find_message_cong [of s1 "put_state E (m_id m) st 0 s"] find_message_put)
      (auto simp: map_option_case dest: find_messageD split: option.splits)
  show ?case
  proof (cases r1)
    case (Inl e)
    with Cons.prems one keep show ?thesis by (simp add: mark_all_def tbind_def)
  next
    case (Inr u)
    with Cons.prems one have "mark_all E st k p ms s1 = (r, s')"
      by (simp add: mark_all_def tbind_def)
    with Cons.IH Cons.prems(2) keep show ?thesis by simp
  qed
qed (simp add: mark_all_def)

lemma sorted_rows_open:
  assumes "ids_ok (db_messages s)" and "\<And>m. P m \<Longrightarrow> \<not> terminal (m_state m)"
  shows "distinct (map m_id (order_by key (filter P (db_messages s))))"
    and "\<forall>m \<in> set (order_by key (filter P (db_messages s))). open_message s (m_id m)"
proof -
  have "distinct (map m_id (filter P (db_messages s)))"
    using assms(1) by (auto simp: ids_ok_def distinct_map intro: inj_on_subset)
  moreover have "mset (map m_id (order_by key (filter P (db_messages s)))) = mset (map m_id (filter P (db_messages s)))"
    by (simp add: order_by_def)
  ultimately show "distinct (map m_id (order_by key (filter P (db_messages s))))"
    by (metis mset_eq_imp_distinct_iff)
  show "\<forall>m \<in> set (order_by key (filter P (db_messages s))). open_message s (m_id m)"
    using assms find_message_eq by (auto simp: open_message_def)
qed

subsection \<open>Leases\<close>

definition validate_lease :: "env \<Rightarrow> lease \<Rightarrow> unit dbtx" where
  "validate_lease E l =
     tguard (uuid_parse E (ls_peer l) \<noteq> None \<and> uuid_parse E (ls_owner l) \<noteq> None) ErrLeaseLost"

definition check_lease :: "env \<Rightarrow> string \<Rightarrow> string \<Rightarrow> unit dbtx" where
  "check_lease E i owner =
     tbind (tlook (\<lambda>s. find (\<lambda>l. l_peer l = i) (db_leases s)) ErrLeaseLost) (\<lambda>l.
     tguard (l_owner l = owner \<and> now E < l_expires l) ErrLeaseLost)"

definition check_transport_execution :: "env \<Rightarrow> ctx \<Rightarrow> string \<Rightarrow> unit dbtx" where
  "check_transport_execution E c i =
     (case ctx_lineage c of
        None \<Rightarrow> tfail ErrUnauthorized
      | Some (_, l) \<Rightarrow>
          if ls_peer l \<noteq> i then tfail ErrUnauthorized
          else tbind (tlook (\<lambda>s. find (\<lambda>r. l_peer r = i) (db_leases s)) ErrLeaseLost) (\<lambda>r.
               tguard (l_owner r = ls_owner l \<and> now E < l_expires r \<and>
                 l_transport r = sha256 E (ls_capability l)) ErrLeaseLost))"

definition reject_external_worker_lease :: "string \<Rightarrow> unit dbtx" where
  "reject_external_worker_lease i =
     tbind (tget (\<lambda>s. list_ex (\<lambda>l. l_peer l = i) (db_leases s))) (\<lambda>held.
     tguard (\<not> held) ErrBusy)"

definition ttl_ok :: "int \<Rightarrow> bool" where
  "ttl_ok ttl \<longleftrightarrow> 300 * 1000000 \<le> ttl \<and> ttl \<le> 60 * 1000000000"

definition lease_until :: "env \<Rightarrow> int \<Rightarrow> int" where
  "lease_until E ttl = now E + (ttl div 1000000) * 1000"

definition upsert_lease :: "lease_row \<Rightarrow> db \<Rightarrow> db" where
  "upsert_lease row s = s\<lparr>db_leases :=
     (if list_ex (\<lambda>l. l_peer l = l_peer row) (db_leases s)
      then update_rows (\<lambda>l. l_peer l = l_peer row) (\<lambda>_. row) (db_leases s)
      else db_leases s @ [row])\<rparr>"

definition delete_lease :: "string \<Rightarrow> db \<Rightarrow> db" where
  "delete_lease i s = s\<lparr>db_leases := delete_rows (\<lambda>l. l_peer l = i) (db_leases s)\<rparr>"

definition interrupted_work :: "string \<Rightarrow> db \<Rightarrow> message list" where
  "interrupted_work i s = order_by m_id (filter (\<lambda>m. m_to m = i \<and> m_state m = Started) (db_messages s))"

definition acquire_lease :: "env \<Rightarrow> string \<Rightarrow> string \<Rightarrow> int \<Rightarrow> db \<Rightarrow> (err + lease) \<times> db" where
  "acquire_lease E i owner ttl = commit_tx (
     tbind (tguard (uuid_parse E owner \<noteq> None) (ErrOther ''worker owner must be a UUID'')) (\<lambda>_.
     tbind (tguard (ttl_ok ttl) (ErrOther ''lease TTL must be 300ms..1m'')) (\<lambda>_.
     tbind (lock_peer E i) (\<lambda>_.
     tbind (tget (\<lambda>s. list_ex (\<lambda>l. l_peer l = i \<and> now E < l_expires l) (db_leases s))) (\<lambda>held.
     tbind (tguard (\<not> held) ErrBusy) (\<lambda>_.
     tbind (tget (interrupted_work i)) (\<lambda>interrupted.
     tbind (mark_all E Blocked ''blocked'' Interrupted interrupted) (\<lambda>_.
     tbind (tget (\<lambda>s. list_ex (\<lambda>m. m_to m = i \<and> m_state m = Blocked) (db_messages s))) (\<lambda>blocked.
     if blocked then
       tbind (tmod (delete_lease i)) (\<lambda>_. tret (Inl ErrRecoveryRequired))
     else
       tbind (tmod (upsert_lease \<lparr>l_peer = i, l_owner = owner, l_expires = lease_until E ttl,
                l_transport = sha256 E (fresh_secret E)\<rparr>)) (\<lambda>_.
       tret (Inr \<lparr>ls_peer = i, ls_owner = owner, ls_expires = lease_until E ttl,
                ls_capability = fresh_secret E\<rparr>)))))))))))"

definition renew_lease :: "env \<Rightarrow> lease \<Rightarrow> int \<Rightarrow> db \<Rightarrow> (err + lease) \<times> db" where
  "renew_lease E l ttl = commit_tx (
     tbind (validate_lease E l) (\<lambda>_.
     tbind (tguard (ttl_ok ttl) (ErrOther ''lease TTL must be 300ms..1m'')) (\<lambda>_.
     tbind (tget (\<lambda>s. list_ex (\<lambda>p. p_id p = ls_peer l \<and> p_enabled p) (db_peers s) \<and>
        list_ex (\<lambda>r. l_peer r = ls_peer l \<and> l_owner r = ls_owner l \<and> now E < l_expires r) (db_leases s))) (\<lambda>live.
     tbind (tguard live ErrLeaseLost) (\<lambda>_.
     tbind (tmod (\<lambda>s. s\<lparr>db_leases := update_rows (\<lambda>r. l_peer r = ls_peer l \<and> l_owner r = ls_owner l \<and> now E < l_expires r)
              (l_expires_update (\<lambda>_. lease_until E ttl)) (db_leases s)\<rparr>)) (\<lambda>_.
     tret (Inr (l\<lparr>ls_expires := lease_until E ttl\<rparr>))))))))"

definition release_lease :: "lease \<Rightarrow> db \<Rightarrow> (err + unit) \<times> db" where
  "release_lease l = commit_tx (
     tbind (tmod (\<lambda>s. s\<lparr>db_leases := delete_rows (\<lambda>r. l_peer r = ls_peer l \<and> l_owner r = ls_owner l) (db_leases s)\<rparr>)) (\<lambda>_.
     tret (Inr ())))"

definition recover_external :: "env \<Rightarrow> ctx \<Rightarrow> string \<Rightarrow> db \<Rightarrow> (err + unit) \<times> db" where
  "recover_external E c i = commit_peer_transaction E c i (
     tbind (lock_admission i) (\<lambda>_.
     tbind (lock_peer E i) (\<lambda>_.
     tbind (check_scoped_credential (now E) c i) (\<lambda>_.
     tbind (tget (\<lambda>s. list_ex (\<lambda>l. l_peer l = i \<and> now E < l_expires l) (db_leases s))) (\<lambda>held.
     tbind (tguard (\<not> held) ErrBusy) (\<lambda>_.
     tbind (tget (interrupted_work i)) (\<lambda>pending.
     tbind (mark_all E Blocked ''blocked'' Interrupted pending) (\<lambda>_.
     tbind (tmod (delete_lease i)) (\<lambda>_.
     tret (Inr ()))))))))))"

lemma reads_validate_lease [reader]: "reads (validate_lease E l)"
  unfolding validate_lease_def by (intro reader)

lemma reads_check_lease [reader]: "reads (check_lease E i owner)"
  unfolding check_lease_def by (intro reader)

lemma reads_check_transport [reader]: "reads (check_transport_execution E c i)"
  unfolding check_transport_execution_def by (intro reader)

lemma reads_reject_external [reader]: "reads (reject_external_worker_lease i)"
  unfolding reject_external_worker_lease_def by (intro reader)

lemma check_leaseD:
  "check_lease E i owner s = (Inr u, s') \<Longrightarrow> s' = s \<and>
     (\<exists>l \<in> set (db_leases s). l_peer l = i \<and> l_owner l = owner \<and> now E < l_expires l)"
  by (auto simp: check_lease_def tbind_eq_Inr dest!: find_in_set)

lemma leases_ok_upsert: "leases_ok (db_leases s) \<Longrightarrow> leases_ok (db_leases (upsert_lease row s))"
proof -
  have "map l_peer (update_rows (\<lambda>l. l_peer l = l_peer row) (\<lambda>_. row) ls) = map l_peer ls" for ls
    by (simp add: map_update_rows)
  then show "leases_ok (db_leases s) \<Longrightarrow> leases_ok (db_leases (upsert_lease row s))"
    by (auto simp: upsert_lease_def leases_ok_def list_ex_iff)
qed

lemma leases_ok_delete: "leases_ok ls \<Longrightarrow> leases_ok (delete_rows P ls)"
  by (auto simp: leases_ok_def delete_rows_def distinct_map intro: inj_on_subset)

lemma same_core_leases: "same_core s (s\<lparr>db_leases := ls\<rparr>)"
  by (simp add: same_core_def event_journal_def escalation_journal_def contract_tables_def)

lemma core_leases: "(leases_ok (db_leases s) \<Longrightarrow> leases_ok ls) \<Longrightarrow> core_step s (s\<lparr>db_leases := ls\<rparr>)"
  by (rule core_same [OF same_core_leases]) simp_all

lemma core_delete_lease: "moves core_step (tmod (delete_lease i)) s"
  unfolding moves_tmod delete_lease_def by (rule core_leases) (rule leases_ok_delete)

lemma core_upsert_lease: "moves core_step (tmod (upsert_lease row)) s"
  unfolding moves_tmod
  by (rule core_same)
    (use leases_ok_upsert in \<open>auto simp: same_core_def upsert_lease_def event_journal_def escalation_journal_def
       contract_tables_def\<close>)

text \<open>The loop over interrupted work runs in the state its rows were read in.\<close>

lemma core_mark_interrupted:
  "moves core_step (tbind (tget (interrupted_work i)) (\<lambda>ms.
     tbind (mark_all E Blocked ''blocked'' Interrupted ms) f)) s"
  if f: "\<And>a s. moves core_step (f a) s"
proof (cases "ids_ok (db_messages s)")
  case True
  have rows: "distinct (map m_id (interrupted_work i s))"
    "\<forall>m \<in> set (interrupted_work i s). open_message s (m_id m)"
    unfolding interrupted_work_def by (intro sorted_rows_open [OF True]; simp add: terminal_def)+
  show ?thesis
  proof (rule moves_read_bind [OF reads_tget preorder_core])
    fix ms assume "tget (interrupted_work i) s = (Inr ms, s)"
    then have "ms = interrupted_work i s" by simp
    with rows show "moves core_step (tbind (mark_all E Blocked ''blocked'' Interrupted ms) f) s"
      by (intro moves_tbind [OF preorder_core] f core_mark_all) simp_all
  qed
next
  case False
  then have "\<not> db_inv s" by (auto dest: db_invD)
  then show ?thesis by (simp add: moves_def core_step_def)
qed

lemmas [core] = core_read [OF reads_validate_lease] core_read [OF reads_check_lease]
  core_read [OF reads_check_transport] core_read [OF reads_reject_external]
  core_mark_interrupted core_delete_lease core_upsert_lease

lemma core_acquire_lease: "core_step s (snd (acquire_lease E i owner ttl s))"
  unfolding acquire_lease_def
  by (rule commit_tx_moves [OF preorder_core])
    (rule core_bind core_mark_interrupted core | assumption)+

lemma core_renew_lease: "core_step s (snd (renew_lease E l ttl s))"
proof -
  have "map l_peer (update_rows P (l_expires_update f) ls) = map l_peer ls" for P f and ls :: "lease_row list"
    by (simp add: map_update_rows)
  then have "moves core_step (tmod (\<lambda>s. s\<lparr>db_leases := update_rows P (l_expires_update f) (db_leases s)\<rparr>)) s" for P f s
    unfolding moves_tmod by (intro core_leases) (simp add: leases_ok_def)
  then show ?thesis
    unfolding renew_lease_def by (intro commit_tx_moves [OF preorder_core] core)
qed

lemma core_release_lease: "core_step s (snd (release_lease l s))"
proof -
  have "moves core_step (tmod (\<lambda>s. s\<lparr>db_leases := delete_rows P (db_leases s)\<rparr>)) s" for P s
    unfolding moves_tmod by (intro core_leases) (rule leases_ok_delete)
  then show ?thesis
    unfolding release_lease_def by (intro commit_tx_moves [OF preorder_core] core)
qed

lemma core_recover_external: "core_step s (snd (recover_external E c i s))"
  unfolding recover_external_def
  by (rule commit_peer_moves [OF preorder_core]) (intro core)

end
