(* ===== verification/Coord_Contracts.thy ===== *)
theory Coord_Contracts
  imports Coord_Lease
begin

text \<open>
  Handoff contracts (\<open>contracts.go\<close>) and the guards on owned paths (\<open>contract_guards.go\<close>): the
  normalisation of ownership paths, the check that no two contracts of a project reserve
  overlapping paths, the dependency graph with its cycle check (the recursive query of
  \<open>checkContractDependencies\<close> is \<open>cte\<close>), and the operations that create, update, delete and
  acknowledge a contract.

  \<open>contracts_inv\<close> is their invariant: reservations of different contracts are disjoint and the
  dependency graph is acyclic.
\<close>

subsection \<open>Paths\<close>

definition valid_contract_text :: "string \<Rightarrow> nat \<Rightarrow> bool \<Rightarrow> bool" where
  "valid_contract_text t bound required \<longleftrightarrow>
     utf8_valid t \<and> length t \<le> bound \<and> CHR 0x00 \<notin> set t \<and> (\<not> required \<or> trim_space t \<noteq> [])"

definition path_metachars :: string where
  "path_metachars = [CHR 0x5C, CHR '':'', CHR ''*'', CHR ''?'', CHR ''['', CHR '']'']"

definition normalize_contract_path :: "string \<Rightarrow> err + string" where
  "normalize_contract_path p =
    (if \<not> valid_contract_text p 1024 True \<or> contains_any p path_metachars \<or> has_prefix p ''/''
     then Inl (Wrapped ErrContractValidation ''relative literal ownership path required'')
     else let clean = path_clean p
          in if clean = ''..'' \<or> has_prefix clean ''../''
             then Inl (Wrapped ErrContractValidation ''path escapes workspace'')
             else Inr clean)"

definition normalize_owned_path :: "env \<Rightarrow> string \<Rightarrow> err + string" where
  "normalize_owned_path E p = map_sum id (fold_path E) (normalize_contract_path p)"

definition has_path_prefix :: "string \<Rightarrow> string \<Rightarrow> bool" where
  "has_path_prefix child parent \<longleftrightarrow> length parent < length child \<and>
     take (length parent) child = parent \<and> child ! length parent = CHR ''/''"

definition paths_overlap :: "string \<Rightarrow> string \<Rightarrow> bool" where
  "paths_overlap a b \<longleftrightarrow> a = ''.'' \<or> b = ''.'' \<or> a = b \<or> has_prefix a (b @ ''/'') \<or> has_prefix b (a @ ''/'')"

lemma has_path_prefix_iff: "has_path_prefix c p \<longleftrightarrow> has_prefix c (p @ ''/'')"
proof
  assume "has_path_prefix c p"
  then have *: "length p < length c" "take (length p) c = p" "c ! length p = CHR ''/''"
    by (auto simp: has_path_prefix_def)
  then have "c = p @ CHR ''/'' # drop (Suc (length p)) c"
    by (metis id_take_nth_drop)
  then show "has_prefix c (p @ ''/'')"
    by (metis append.assoc append_Cons append_Nil has_prefix_iff)
qed (auto simp: has_path_prefix_def has_prefix_iff nth_append)

lemma paths_overlap_sym: "paths_overlap a b = paths_overlap b a"
  by (auto simp: paths_overlap_def)

lemma paths_overlap_refl [simp]: "paths_overlap a a"
  by (simp add: paths_overlap_def)

text \<open>On proper relative paths, overlap is "one lies below the other" in terms of path elements.\<close>

definition below :: "string list \<Rightarrow> string list \<Rightarrow> bool" where
  "below xs ys \<longleftrightarrow> (\<exists>zs. xs = ys @ zs)"

lemma split_on_slash_append:
  "split_on CHR ''/'' (p @ CHR ''/'' # r) = split_on CHR ''/'' p @ split_on CHR ''/'' r"
  by (induction p) (auto split: list.splits)

lemma split_on_inj: "split_on d a = split_on d b \<Longrightarrow> a = b"
  by (metis split_on_join append_same_eq)

lemma has_prefix_slash_below:
  "has_prefix a (b @ ''/'') \<longleftrightarrow> (\<exists>zs. zs \<noteq> [] \<and> split_on CHR ''/'' a = split_on CHR ''/'' b @ zs)"
proof
  assume "has_prefix a (b @ ''/'')"
  then obtain r where "a = b @ CHR ''/'' # r" by (auto simp: has_prefix_iff)
  then have "split_on CHR ''/'' a = split_on CHR ''/'' b @ split_on CHR ''/'' r"
    by (simp add: split_on_slash_append)
  then show "\<exists>zs. zs \<noteq> [] \<and> split_on CHR ''/'' a = split_on CHR ''/'' b @ zs"
    using split_on_nonempty by blast
next
  assume "\<exists>zs. zs \<noteq> [] \<and> split_on CHR ''/'' a = split_on CHR ''/'' b @ zs"
  then obtain zs where zs: "zs \<noteq> []" "split_on CHR ''/'' a = split_on CHR ''/'' b @ zs" by auto
  have "a @ ''/'' = b @ ''/'' @ concat (map (\<lambda>w. w @ ''/'') zs)"
    using split_on_join [of "CHR ''/''" a] split_on_join [of "CHR ''/''" b] zs(2) by simp
  moreover obtain w ws where "zs = ws @ [w]" using zs(1) by (metis rev_exhaust)
  ultimately have "a = b @ CHR ''/'' # concat (map (\<lambda>w. w @ ''/'') ws) @ w" by simp
  then show "has_prefix a (b @ ''/'')" by (auto simp: has_prefix_iff)
qed

lemma paths_overlap_elements:
  assumes "a \<noteq> ''.''" and "b \<noteq> ''.''"
  shows "paths_overlap a b \<longleftrightarrow>
     below (split_on CHR ''/'' a) (split_on CHR ''/'' b) \<or> below (split_on CHR ''/'' b) (split_on CHR ''/'' a)"
proof -
  have "below (split_on CHR ''/'' x) (split_on CHR ''/'' y) \<longleftrightarrow> x = y \<or> has_prefix x (y @ ''/'')" for x y
    unfolding has_prefix_slash_below below_def by (metis append_Nil2 split_on_inj)
  with assms show ?thesis by (auto simp: paths_overlap_def)
qed

subsection \<open>Preparing a specification\<close>

fun normalize_all :: "env \<Rightarrow> string \<Rightarrow> string list \<Rightarrow> string list \<Rightarrow> err + string list" where
  "normalize_all E w seen [] = Inr []"
| "normalize_all E w seen (p # ps) =
     (case normalize_contract_path p of Inl e \<Rightarrow> Inl e
      | Inr clean \<Rightarrow>
        (case normalize_owned_path E clean of Inl e \<Rightarrow> Inl e
         | Inr key \<Rightarrow>
           (case symlink_check E w clean of Some e \<Rightarrow> Inl e
            | None \<Rightarrow>
              if key \<in> set seen then Inl (Wrapped ErrContractValidation ''duplicate ownership path'')
              else map_sum id (\<lambda>r. clean # r) (normalize_all E w (key # seen) ps))))"

fun check_artifacts :: "artifact list \<Rightarrow> err option" where
  "check_artifacts [] = None"
| "check_artifacts (v # vs) =
     (if \<not> valid_contract_text (a_name v) 256 True \<or> \<not> valid_contract_text (a_media_type v) 256 False
         \<or> \<not> valid_contract_text (a_digest v) 512 False then Some ErrContractValidation
      else case normalize_contract_path (a_path v) of Inl e \<Rightarrow> Some e | Inr _ \<Rightarrow> check_artifacts vs)"

fun check_dep_list :: "env \<Rightarrow> string list \<Rightarrow> contract_dep list \<Rightarrow> bool" where
  "check_dep_list E seen [] = True"
| "check_dep_list E seen (d # ds) =
     (uuid_parse E (cd_contract d) \<noteq> None \<and> 1 \<le> cd_revision d \<and> cd_contract d \<notin> set seen \<and>
      check_dep_list E (cd_contract d # seen) ds)"

definition change_ok :: "compat_change \<Rightarrow> bool" where
  "change_ok c \<longleftrightarrow> (cc_kind c = ''additive'' \<or> cc_kind c = ''breaking'' \<or> cc_kind c = ''compatible'') \<and>
     valid_contract_text (cc_from c) 128 True \<and> valid_contract_text (cc_to c) 128 True \<and>
     valid_contract_text (cc_description c) 4096 True"

definition prepare_contract_spec :: "env \<Rightarrow> peer \<Rightarrow> contract_spec \<Rightarrow> err + contract_spec" where
  "prepare_contract_spec E p sp0 =
    (if \<not> valid_contract_text (sp_name sp0) 256 True \<or> \<not> valid_contract_text (sp_endpoint sp0) 2048 True
        \<or> \<not> valid_contract_text (sp_version sp0) 128 True \<or> \<not> valid_contract_text (sp_task sp0) 256 False
        \<or> \<not> valid_contract_text (sp_worktree sp0) 1024 False
     then Inl ErrContractValidation
     else let w = (if sp_workspace sp0 = [] then p_workspace p else sp_workspace sp0)
     in if \<not> has_prefix w ''/'' then Inl (Wrapped ErrContractValidation ''workspace must be absolute'')
     else case workspace_canonical E w of
       None \<Rightarrow> Inl (Wrapped ErrContractValidation ''workspace cannot be resolved'')
     | Some cw \<Rightarrow>
     if cw \<noteq> p_workspace p then Inl (Wrapped ErrContractValidation ''workspace must match registered owner'')
     else if sp_schema sp0 = [] \<or> length (sp_schema sp0) > 131072 \<or> \<not> json_valid (sp_schema sp0)
     then Inl ErrContractValidation
     else if \<not> schema_object E (sp_schema sp0)
     then Inl (Wrapped ErrContractValidation ''schema must be a JSON object'')
     else if sp_criteria sp0 = [] \<or> length (sp_criteria sp0) > 64 \<or> length (sp_artifacts sp0) > 64
        \<or> length (sp_paths sp0) > 128 \<or> length (sp_deps sp0) > 128 \<or> length (sp_changes sp0) > 64
     then Inl ErrContractValidation
     else if \<not> list_all (\<lambda>v. valid_contract_text v 4096 True) (sp_criteria sp0)
     then Inl ErrContractValidation
     else case normalize_all E (p_workspace p) [] (sp_paths sp0) of
       Inl e \<Rightarrow> Inl e
     | Inr paths \<Rightarrow>
     (case check_artifacts (sp_artifacts sp0) of
       Some e \<Rightarrow> Inl e
     | None \<Rightarrow>
     if \<not> check_dep_list E [] (sp_deps sp0) \<or> \<not> list_all change_ok (sp_changes sp0)
     then Inl ErrContractValidation
     else let sp = sp0\<lparr>sp_workspace := p_workspace p, sp_paths := order_by (\<lambda>x. x) paths\<rparr>
     in if spec_bytes E sp > 524288 then Inl ErrContractValidation else Inr sp))"

definition path_key :: "env \<Rightarrow> string \<Rightarrow> string option" where
  "path_key E p = (case normalize_owned_path E p of Inl _ \<Rightarrow> None | Inr k \<Rightarrow> Some k)"

subsection \<open>Transactions on contracts\<close>

definition contract_transaction :: "env \<Rightarrow> string \<Rightarrow> peer dbtx" where
  "contract_transaction E i = enabled_peer E i"

definition contract_in_project :: "string \<Rightarrow> string \<Rightarrow> contract dbtx" where
  "contract_in_project project i =
     tlook (\<lambda>s. find (\<lambda>k. k_id k = i \<and> k_project k = project) (db_contracts s)) ErrNotFound"

fun overlap_error :: "env \<Rightarrow> string \<Rightarrow> string list \<Rightarrow> err option" where
  "overlap_error E p [] = None"
| "overlap_error E p (w # ws) =
     (case normalize_owned_path E w of Inl e \<Rightarrow> Some e
      | Inr key \<Rightarrow> if paths_overlap key p then Some (Wrapped ErrOwnershipConflict w) else overlap_error E p ws)"

fun first_error :: "('a \<Rightarrow> err option) \<Rightarrow> 'a list \<Rightarrow> err option" where
  "first_error f [] = None"
| "first_error f (x # xs) = (case f x of Some e \<Rightarrow> Some e | None \<Rightarrow> first_error f xs)"

definition other_paths :: "string \<Rightarrow> string \<Rightarrow> db \<Rightarrow> path_row list" where
  "other_paths project i s =
     order_by (\<lambda>r. (pr_contract r, pr_path r))
       (filter (\<lambda>r. pr_project r = project \<and> pr_contract r \<noteq> i) (db_paths s))"

definition check_contract_paths :: "env \<Rightarrow> string \<Rightarrow> string \<Rightarrow> string list \<Rightarrow> unit dbtx" where
  "check_contract_paths E project i paths =
     tbind (tget (\<lambda>s. first_error (\<lambda>r. overlap_error E (pr_path r) paths) (other_paths project i s))) (\<lambda>r.
     case r of None \<Rightarrow> tret () | Some e \<Rightarrow> tfail e)"

subsection \<open>The recursive query of the cycle check\<close>

definition dep_targets :: "dep_row list \<Rightarrow> string list \<Rightarrow> string list" where
  "dep_targets rows xs = map d_dependency (filter (\<lambda>r. d_contract r \<in> set xs) rows)"

function cte :: "dep_row list \<Rightarrow> string list \<Rightarrow> string list \<Rightarrow> string list" where
  "cte rows result [] = result"
| "cte rows result (w # ws) =
     (let new = remdups (filter (\<lambda>d. d \<notin> set result) (dep_targets rows (w # ws)))
      in cte rows (result @ new) new)"
  by pat_completeness auto
termination
proof (relation "measure (\<lambda>(rows, result, work).
    card (set (map d_dependency rows) - set result) + (if work = [] then 0 else 1))", simp)
  fix rows result and w :: string and ws new
  assume new: "new = remdups (filter (\<lambda>d. d \<notin> set result) (dep_targets rows (w # ws)))"
  let ?D = "set (map d_dependency rows)"
  have sub: "set new \<subseteq> ?D - set result" using new by (auto simp: dep_targets_def)
  have "card (?D - set (result @ new)) + (if new = [] then 0 else 1) < card (?D - set result) + 1"
  proof (cases "new = []")
    case False
    then have "?D - set (result @ new) \<subset> ?D - set result" using sub by (cases new) auto
    then have "card (?D - set (result @ new)) < card (?D - set result)"
      by (rule psubset_card_mono [rotated]) simp
    then show ?thesis by simp
  qed simp
  then show "((rows, result @ new, new), rows, result, w # ws) \<in> measure (\<lambda>(rows, result, work).
    card (set (map d_dependency rows) - set result) + (if work = [] then 0 else 1))"
    by simp
qed

definition reachable_ids :: "dep_row list \<Rightarrow> string \<Rightarrow> string list" where
  "reachable_ids rows i = (let start = remdups (dep_targets rows [i]) in cte rows start start)"

definition dep_edges :: "dep_row list \<Rightarrow> (string \<times> string) set" where
  "dep_edges rows = (\<lambda>r. (d_contract r, d_dependency r)) ` set rows"

lemma set_dep_targets: "set (dep_targets rows xs) = dep_edges rows `` set xs"
  by (force simp: dep_targets_def dep_edges_def Image_def)

lemma cte_closure:
  "set work \<subseteq> set result \<Longrightarrow> dep_edges rows `` (set result - set work) \<subseteq> set result \<Longrightarrow>
   set (cte rows result work) = (dep_edges rows)\<^sup>* `` set result"
proof (induction rows result work rule: cte.induct)
  case (1 rows result)
  then show ?case by (simp add: Image_closed_trancl)
next
  case (2 rows result w ws)
  define new where "new = remdups (filter (\<lambda>d. d \<notin> set result) (dep_targets rows (w # ws)))"
  have set_new: "set new = dep_edges rows `` set (w # ws) - set result"
    by (auto simp: new_def set_dep_targets simp del: set_simps)
  have "dep_edges rows `` (set (result @ new) - set new) \<subseteq> set (result @ new)"
  proof
    fix y assume "y \<in> dep_edges rows `` (set (result @ new) - set new)"
    then obtain x where x: "(x, y) \<in> dep_edges rows" "x \<in> set result" by auto
    show "y \<in> set (result @ new)"
    proof (cases "x \<in> set (w # ws)")
      case True
      with x set_new show ?thesis by (auto simp del: set_simps)
    next
      case False
      with x "2.prems"(2) show ?thesis by auto
    qed
  qed
  then have "set (cte rows (result @ new) new) = (dep_edges rows)\<^sup>* `` set (result @ new)"
    using "2.IH" [OF new_def] by simp
  also have "\<dots> = (dep_edges rows)\<^sup>* `` set result"
  proof
    show "(dep_edges rows)\<^sup>* `` set (result @ new) \<subseteq> (dep_edges rows)\<^sup>* `` set result"
    proof
      fix y assume "y \<in> (dep_edges rows)\<^sup>* `` set (result @ new)"
      then obtain x where x: "x \<in> set (result @ new)" "(x, y) \<in> (dep_edges rows)\<^sup>*" by auto
      then obtain z where "z \<in> set result" "(z, x) \<in> (dep_edges rows)\<^sup>*"
        using set_new "2.prems"(1) by (auto simp del: set_simps)
      with x(2) show "y \<in> (dep_edges rows)\<^sup>* `` set result" by (auto intro: rtrancl_trans)
    qed
  qed auto
  finally show ?case by (simp add: new_def Let_def)
qed

text \<open>The recursive query computes exactly the transitive dependencies.\<close>

lemma reachable_ids_trancl: "set (reachable_ids rows i) = {d. (i, d) \<in> (dep_edges rows)\<^sup>+}"
proof -
  have "set (reachable_ids rows i) = (dep_edges rows)\<^sup>* `` set (remdups (dep_targets rows [i]))"
    unfolding reachable_ids_def Let_def by (rule cte_closure) auto
  also have "\<dots> = (dep_edges rows)\<^sup>* `` (dep_edges rows `` {i})"
    by (simp add: set_dep_targets)
  also have "\<dots> = {d. (i, d) \<in> (dep_edges rows)\<^sup>+}"
    by (auto simp: trancl_unfold_left relcomp.simps Image_def)
  finally show ?thesis .
qed

subsection \<open>Checking and storing the graph\<close>

fun check_contract_dependencies :: "string \<Rightarrow> string \<Rightarrow> contract_dep list \<Rightarrow> unit dbtx" where
  "check_contract_dependencies project i [] = tret ()"
| "check_contract_dependencies project i (d # ds) =
     (if cd_contract d = i then tfail ErrDependencyCycle
      else tbind (contract_in_project project (cd_contract d)) (\<lambda>upstream.
           tbind (tguard (k_revision upstream = cd_revision d) ErrConflict) (\<lambda>_.
           tbind (tget (\<lambda>s. i \<in> set (reachable_ids (db_deps s) (cd_contract d)))) (\<lambda>cycle.
           tbind (tguard (\<not> cycle) ErrDependencyCycle) (\<lambda>_.
           check_contract_dependencies project i ds)))))"

definition path_rows :: "env \<Rightarrow> contract \<Rightarrow> path_row list" where
  "path_rows E k = map (\<lambda>p. \<lparr>pr_contract = k_id k, pr_project = k_project k, pr_path = p\<rparr>)
     (List.map_filter (path_key E) (sp_paths (k_spec k)))"

definition dep_rows :: "contract \<Rightarrow> dep_row list" where
  "dep_rows k = map (\<lambda>d. \<lparr>d_contract = k_id k, d_dependency = cd_contract d, d_revision = cd_revision d\<rparr>)
     (sp_deps (k_spec k))"

definition persist_contract_graph :: "env \<Rightarrow> contract \<Rightarrow> unit dbtx" where
  "persist_contract_graph E k =
     tbind (tmod (\<lambda>s. s\<lparr>db_paths := delete_rows (\<lambda>r. pr_contract r = k_id k) (db_paths s)\<rparr>)) (\<lambda>_.
     tbind (tguard (list_all (\<lambda>p. path_key E p \<noteq> None) (sp_paths (k_spec k))) ErrContractValidation) (\<lambda>_.
     tbind (tmod (\<lambda>s. s\<lparr>db_paths := db_paths s @ path_rows E k\<rparr>)) (\<lambda>_.
     tbind (tmod (\<lambda>s. s\<lparr>db_deps := delete_rows (\<lambda>r. d_contract r = k_id k) (db_deps s)\<rparr>)) (\<lambda>_.
     tbind (tmod (\<lambda>s. s\<lparr>db_deps := db_deps s @ dep_rows k\<rparr>)) (\<lambda>_.
     tmod (\<lambda>s. s\<lparr>db_revisions := db_revisions s @
        [\<lparr>r_contract = k_id k, r_revision = k_revision k, r_spec = k_spec k\<rparr>]\<rparr>))))))"

definition insert_contract :: "contract \<Rightarrow> unit dbtx" where
  "insert_contract k =
     tbind (tget (\<lambda>s. list_ex (\<lambda>r. k_id r = k_id k) (db_contracts s))) (\<lambda>dup.
     tbind (tguard (\<not> dup) (SqlConstraint ''coordination_contracts'')) (\<lambda>_.
     tmod (\<lambda>s. s\<lparr>db_contracts := db_contracts s @ [k]\<rparr>)))"

definition create_contract :: "env \<Rightarrow> string \<Rightarrow> contract_spec \<Rightarrow> db \<Rightarrow> (err + contract) \<times> db" where
  "create_contract E i sp0 = commit_tx (
     tbind (contract_transaction E i) (\<lambda>p.
     tbind (tlift (prepare_contract_spec E p sp0)) (\<lambda>sp.
     tbind (check_contract_paths E (p_project p) (fresh_id E) (sp_paths sp)) (\<lambda>_.
     tbind (check_contract_dependencies (p_project p) (fresh_id E) (sp_deps sp)) (\<lambda>_.
     let k = \<lparr>k_id = fresh_id E, k_project = p_project p, k_owner = p_id p, k_revision = 1, k_spec = sp,
              k_created = tx_now E, k_updated = tx_now E\<rparr>
     in tbind (insert_contract k) (\<lambda>_.
        tbind (persist_contract_graph E k) (\<lambda>_.
        tret (Inr k))))))))"

definition schema_version_declared :: "contract_spec \<Rightarrow> contract_spec \<Rightarrow> bool" where
  "schema_version_declared old sp \<longleftrightarrow>
     list_ex (\<lambda>c. cc_from c = sp_version old \<and> cc_to c = sp_version sp) (sp_changes sp)"

definition compatibility_error :: "env \<Rightarrow> contract_spec \<Rightarrow> contract_spec \<Rightarrow> err option" where
  "compatibility_error E old sp =
    (let schema_changed = \<not> schema_equal E (sp_schema sp) (sp_schema old);
         endpoint_changed = (sp_endpoint sp \<noteq> sp_endpoint old)
     in if (schema_changed \<or> endpoint_changed) \<and> sp_version sp = sp_version old
        then Some (Wrapped ErrContractValidation ''endpoint/schema mutation requires a new schema_version'')
        else if (endpoint_changed \<or> sp_version sp \<noteq> sp_version old \<or> schema_changed)
                \<and> \<not> schema_version_declared old sp
        then Some (Wrapped ErrContractValidation ''schema change requires explicit compatibility change'')
        else None)"

definition bump_contract :: "env \<Rightarrow> contract_spec \<Rightarrow> contract \<Rightarrow> contract" where
  "bump_contract E sp k = k\<lparr>k_revision := k_revision k + 1, k_spec := sp, k_updated := tx_now E\<rparr>"

definition update_contract ::
    "env \<Rightarrow> string \<Rightarrow> string \<Rightarrow> int \<Rightarrow> contract_spec \<Rightarrow> db \<Rightarrow> (err + contract) \<times> db" where
  "update_contract E i cid expected sp0 = commit_tx (
     tbind (contract_transaction E i) (\<lambda>p.
     tbind (contract_in_project (p_project p) cid) (\<lambda>old.
     tbind (tguard (k_owner old = p_id p) ErrUnauthorized) (\<lambda>_.
     tbind (tguard (expected = k_revision old) ErrConflict) (\<lambda>_.
     tbind (tlift (prepare_contract_spec E p sp0)) (\<lambda>sp.
     tbind (case compatibility_error E (k_spec old) sp of None \<Rightarrow> tret () | Some e \<Rightarrow> tfail e) (\<lambda>_.
     tbind (check_contract_paths E (p_project p) cid (sp_paths sp)) (\<lambda>_.
     tbind (check_contract_dependencies (p_project p) cid (sp_deps sp)) (\<lambda>_.
     tbind (tmod (\<lambda>s. s\<lparr>db_contracts := update_rows (\<lambda>k. k_id k = cid \<and> k_revision k = expected)
              (bump_contract E sp) (db_contracts s)\<rparr>)) (\<lambda>_.
     tbind (tlook (\<lambda>s. find (\<lambda>k. k_id k = cid) (db_contracts s)) ErrNotFound) (\<lambda>k.
     tbind (persist_contract_graph E k) (\<lambda>_.
     tret (Inr k)))))))))))))"

definition delete_contract :: "env \<Rightarrow> string \<Rightarrow> string \<Rightarrow> int \<Rightarrow> db \<Rightarrow> (err + unit) \<times> db" where
  "delete_contract E i cid expected = commit_tx (
     tbind (contract_transaction E i) (\<lambda>p.
     tbind (contract_in_project (p_project p) cid) (\<lambda>c.
     tbind (tguard (k_owner c = p_id p) ErrUnauthorized) (\<lambda>_.
     tbind (tguard (k_revision c = expected) ErrConflict) (\<lambda>_.
     tbind (tget (\<lambda>s. list_ex (\<lambda>r. d_dependency r = cid) (db_deps s))) (\<lambda>depended.
     tbind (tguard (\<not> depended) (Wrapped ErrConflict ''contract still has dependents'')) (\<lambda>_.
     tbind (tmod (\<lambda>s. s\<lparr>db_contracts := delete_rows (\<lambda>k. k_id k = cid) (db_contracts s),
          db_revisions := delete_rows (\<lambda>r. r_contract r = cid) (db_revisions s),
          db_paths := delete_rows (\<lambda>r. pr_contract r = cid) (db_paths s),
          db_deps := delete_rows (\<lambda>r. d_contract r = cid) (db_deps s),
          db_acks := delete_rows (\<lambda>a. ak_contract a = cid) (db_acks s)\<rparr>)) (\<lambda>_.
     tret (Inr ())))))))))"

definition same_ack :: "string \<Rightarrow> int \<Rightarrow> string \<Rightarrow> ack_row \<Rightarrow> bool" where
  "same_ack cid rv i a \<longleftrightarrow> ak_contract a = cid \<and> ak_revision a = rv \<and> ak_peer a = i"

definition record_ack :: "ack_row \<Rightarrow> db \<Rightarrow> db" where
  "record_ack a s =
     (if list_ex (same_ack (ak_contract a) (ak_revision a) (ak_peer a)) (db_acks s) then s
      else s\<lparr>db_acks := db_acks s @ [a]\<rparr>)"

definition acknowledge_contract ::
    "env \<Rightarrow> string \<Rightarrow> string \<Rightarrow> int \<Rightarrow> db \<Rightarrow> (err + ack_row) \<times> db" where
  "acknowledge_contract E i cid expected = commit_tx (
     tbind (contract_transaction E i) (\<lambda>p.
     tbind (contract_in_project (p_project p) cid) (\<lambda>c.
     tbind (tguard (k_revision c = expected) ErrConflict) (\<lambda>_.
     tbind (tmod (record_ack \<lparr>ak_contract = cid, ak_revision = expected, ak_peer = p_id p, ak_at = tx_now E\<rparr>)) (\<lambda>_.
     tbind (tlook (\<lambda>s. find (same_ack cid expected (p_id p)) (db_acks s)) ErrNotFound) (\<lambda>a.
     tret (Inr a)))))))"

definition read_contract :: "env \<Rightarrow> string \<Rightarrow> string \<Rightarrow> db \<Rightarrow> (err + contract) \<times> db" where
  "read_contract E i cid = commit_tx (
     tbind (contract_transaction E i) (\<lambda>p.
     tbind (contract_in_project (p_project p) cid) (\<lambda>k.
     tret (Inr k))))"

definition contract_revision :: "env \<Rightarrow> string \<Rightarrow> string \<Rightarrow> int \<Rightarrow> db \<Rightarrow> (err + contract_spec) \<times> db" where
  "contract_revision E i cid rv = commit_tx (
     tbind (contract_transaction E i) (\<lambda>p.
     tbind (contract_in_project (p_project p) cid) (\<lambda>_.
     tbind (tlook (\<lambda>s. find (\<lambda>r. r_contract r = cid \<and> r_revision r = rv) (db_revisions s)) ErrNotFound) (\<lambda>r.
     tret (Inr (r_spec r))))))"

subsection \<open>Guards on owned paths\<close>

definition project_claims :: "string \<Rightarrow> db \<Rightarrow> (string \<times> string) list" where
  "project_claims project s = concat (map (\<lambda>r.
     map (\<lambda>k. (pr_path r, k_owner k)) (filter (\<lambda>k. k_id k = pr_contract r) (db_contracts s)))
     (filter (\<lambda>r. pr_project r = project) (db_paths s)))"

fun guard_keys :: "env \<Rightarrow> string \<Rightarrow> string list \<Rightarrow> err + string list" where
  "guard_keys E w [] = Inr []"
| "guard_keys E w (f # fs) =
     (case normalize_contract_path f of Inl e \<Rightarrow> Inl e
      | Inr clean \<Rightarrow>
        (case symlink_check E w clean of Some e \<Rightarrow> Inl e
         | None \<Rightarrow>
           (case normalize_owned_path E clean of Inl e \<Rightarrow> Inl e
            | Inr key \<Rightarrow> map_sum id (\<lambda>r. key # r) (guard_keys E w fs))))"

definition claim_owns :: "string \<Rightarrow> string \<Rightarrow> string \<times> string \<Rightarrow> bool" where
  "claim_owns i key c \<longleftrightarrow> snd c = i \<and> (fst c = ''.'' \<or> fst c = key \<or> has_path_prefix key (fst c))"

definition claim_blocks :: "string \<Rightarrow> string \<Rightarrow> string \<times> string \<Rightarrow> bool" where
  "claim_blocks i key c \<longleftrightarrow> snd c \<noteq> i \<and> paths_overlap key (fst c)"

fun check_claims :: "string \<Rightarrow> (string \<times> string) list \<Rightarrow> string list \<Rightarrow> err option" where
  "check_claims i claims [] = None"
| "check_claims i claims (key # keys) =
     (if list_ex (claim_blocks i key) claims
      then Some (Wrapped ErrOwnershipConflict ''overlaps another peer's reservation'')
      else if \<not> list_ex (claim_owns i key) claims
      then Some (Wrapped ErrOwnershipConflict ''unclaimed; create an ownership contract before writing'')
      else check_claims i claims keys)"

definition owned_path_access :: "env \<Rightarrow> peer \<Rightarrow> string list \<Rightarrow> unit dbtx" where
  "owned_path_access E p paths =
     (if paths = [] \<or> length paths > 128
      then tfail (Wrapped ErrContractValidation ''guard requires 1..128 paths'')
      else tbind (tlift (guard_keys E (p_workspace p) paths)) (\<lambda>keys.
           tbind (tget (project_claims (p_project p))) (\<lambda>claims.
           if claims = [] then tret ()
           else case check_claims (p_id p) claims keys of None \<Rightarrow> tret () | Some e \<Rightarrow> tfail e)))"

end
