(* ===== verification/Coord_Contract_Inv.thy ===== *)
theory Coord_Contract_Inv
  imports Coord_Contracts
begin

text \<open>
  What the contract operations keep: contract identifiers are unique, reserved paths and
  dependency edges belong to existing contracts, the reservations of different contracts of a
  project are disjoint, the dependency graph is acyclic, and the revision history holds the
  current revision of every contract.
\<close>

subsection \<open>The invariant\<close>

definition paths_disjoint :: "path_row list \<Rightarrow> bool" where
  "paths_disjoint rows \<longleftrightarrow> (\<forall>r \<in> set rows. \<forall>r' \<in> set rows.
     pr_project r = pr_project r' \<longrightarrow> pr_contract r \<noteq> pr_contract r' \<longrightarrow> \<not> paths_overlap (pr_path r) (pr_path r'))"

definition has_contract :: "contract list \<Rightarrow> string \<Rightarrow> string \<Rightarrow> bool" where
  "has_contract ks project i \<longleftrightarrow> (\<exists>k \<in> set ks. k_id k = i \<and> k_project k = project)"

definition deps_stored :: "contract list \<Rightarrow> dep_row list \<Rightarrow> bool" where
  "deps_stored ks rows \<longleftrightarrow> (\<forall>r \<in> set rows. \<exists>project. has_contract ks project (d_contract r) \<and>
     has_contract ks project (d_dependency r))"

definition paths_stored :: "contract list \<Rightarrow> path_row list \<Rightarrow> bool" where
  "paths_stored ks rows \<longleftrightarrow> (\<forall>r \<in> set rows. has_contract ks (pr_project r) (pr_contract r))"

definition history_ok :: "contract list \<Rightarrow> revision_row list \<Rightarrow> bool" where
  "history_ok ks rows \<longleftrightarrow> distinct (map (\<lambda>r. (r_contract r, r_revision r)) rows) \<and>
     (\<forall>r \<in> set rows. \<exists>k \<in> set ks. k_id k = r_contract r \<and> r_revision r \<le> k_revision k) \<and>
     (\<forall>k \<in> set ks. \<lparr>r_contract = k_id k, r_revision = k_revision k, r_spec = k_spec k\<rparr> \<in> set rows)"

definition contracts_inv :: "db \<Rightarrow> bool" where
  "contracts_inv s \<longleftrightarrow> distinct (map k_id (db_contracts s)) \<and> paths_disjoint (db_paths s) \<and>
     paths_stored (db_contracts s) (db_paths s) \<and> deps_stored (db_contracts s) (db_deps s) \<and>
     acyclic (dep_edges (db_deps s)) \<and> history_ok (db_contracts s) (db_revisions s)"

lemma contracts_inv_empty: "contracts_inv empty_db"
  by (simp add: contracts_inv_def empty_db_def paths_disjoint_def paths_stored_def deps_stored_def
      dep_edges_def history_ok_def acyclic_def)

lemma contracts_inv_tables: "contract_tables s' = contract_tables s \<Longrightarrow> contracts_inv s' = contracts_inv s"
  by (simp add: contracts_inv_def contract_tables_def)

subsection \<open>Acyclicity\<close>

lemma first_visit: "(x, i) \<in> (R \<union> {i} \<times> D)\<^sup>* \<Longrightarrow> (x, i) \<in> R\<^sup>*"
  by (induction rule: converse_rtrancl_induct) (auto intro: converse_rtrancl_into_rtrancl)

lemma acyclic_new_targets:
  assumes "acyclic R" and "\<And>d. d \<in> set ds \<Longrightarrow> d \<noteq> i \<and> (d, i) \<notin> R\<^sup>+"
  shows "acyclic (R \<union> {i} \<times> set ds)"
  using assms(2)
proof (induction ds)
  case Nil
  show ?case using assms(1) by simp
next
  case (Cons d ds)
  have "(d, i) \<notin> (R \<union> {i} \<times> set ds)\<^sup>*"
    using Cons.prems [of d] first_visit [of d i R "set ds"] by (auto simp: rtrancl_eq_or_trancl)
  with Cons have "acyclic (insert (i, d) (R \<union> {i} \<times> set ds))" by simp
  then show ?case by (rule acyclic_subset) auto
qed

subsection \<open>What the checks establish\<close>

lemma commit_tx_cases:
  "commit_tx body s = (r, s') \<Longrightarrow> s' = s \<or> body s = (Inr r, s')"
  by (auto simp: commit_tx_def split: prod.splits sum.splits)

lemma contract_transactionD:
  "contract_transaction E i s = (Inr p, s') \<Longrightarrow> s' = s \<and> p \<in> set (db_peers s) \<and> p_id p = i \<and> p_enabled p"
  by (simp add: contract_transaction_def enabled_peerD)

lemma contract_in_projectD:
  "contract_in_project project i s = (Inr k, s') \<Longrightarrow>
   s' = s \<and> k \<in> set (db_contracts s) \<and> k_id k = i \<and> k_project k = project"
  by (auto simp: contract_in_project_def dest: find_in_set)

lemma first_error_None: "first_error f xs = None \<longleftrightarrow> (\<forall>x \<in> set xs. f x = None)"
  by (induction xs) (auto split: option.splits)

lemma overlap_error_None:
  "overlap_error E p ws = None \<Longrightarrow> w \<in> set ws \<Longrightarrow> path_key E w = Some key \<Longrightarrow> \<not> paths_overlap key p"
  by (induction E p ws rule: overlap_error.induct) (auto simp: path_key_def split: sum.splits if_splits)

lemma check_contract_pathsD:
  assumes "check_contract_paths E project i paths s = (Inr u, s')"
    and "r \<in> set (db_paths s)" and "pr_project r = project" and "pr_contract r \<noteq> i"
    and "w \<in> set paths" and "path_key E w = Some key"
  shows "\<not> paths_overlap key (pr_path r)"
proof -
  have "first_error (\<lambda>r. overlap_error E (pr_path r) paths) (other_paths project i s) = None"
    using assms(1) by (auto simp: check_contract_paths_def tx_simps split: option.splits)
  then have "overlap_error E (pr_path r) paths = None"
    using assms(2-4) by (simp add: first_error_None other_paths_def)
  then show ?thesis using assms(5,6) by (rule overlap_error_None)
qed

lemma reads_check_paths [reader]: "reads (check_contract_paths E project i paths)"
  unfolding check_contract_paths_def by (intro reader)

lemma reads_contract_in_project [reader]: "reads (contract_in_project project i)"
  by (simp add: contract_in_project_def reads_tlook)

lemma reads_contract_transaction [reader]: "reads (contract_transaction E i)"
  by (simp add: contract_transaction_def reads_enabled_peer)

lemma reads_check_deps [reader]: "reads (check_contract_dependencies project i ds)"
proof (induction ds)
  case Nil
  show ?case unfolding check_contract_dependencies.simps by (rule reads_tret)
next
  case (Cons d ds)
  then show ?case unfolding check_contract_dependencies.simps by (intro reader)
qed

lemma check_contract_dependenciesD:
  assumes "check_contract_dependencies project i ds s = (Inr u, s')" and "d \<in> set ds"
  shows "cd_contract d \<noteq> i \<and> (cd_contract d, i) \<notin> (dep_edges (db_deps s))\<^sup>+ \<and>
     (\<exists>k \<in> set (db_contracts s). k_id k = cd_contract d \<and> k_project k = project \<and> k_revision k = cd_revision d)"
  using assms
proof (induction ds arbitrary: s)
  case (Cons d0 ds)
  from Cons.prems(1) have d0: "cd_contract d0 \<noteq> i" by (auto split: if_splits)
  with Cons.prems(1) obtain up where
    up: "contract_in_project project (cd_contract d0) s = (Inr up, s)" "k_revision up = cd_revision d0"
    and cycle: "i \<notin> set (reachable_ids (db_deps s) (cd_contract d0))"
    and rest: "check_contract_dependencies project i ds s = (Inr u, s')"
    by (auto simp: tbind_eq_Inr dest: contract_in_projectD)
  show ?case
  proof (cases "d = d0")
    case True
    with d0 cycle up contract_in_projectD [OF up(1)] show ?thesis
      by (auto simp: reachable_ids_trancl)
  next
    case False
    with Cons.prems(2) have "d \<in> set ds" by simp
    with Cons.IH [OF rest] show ?thesis by simp
  qed
qed simp

subsection \<open>Storing the graph of a contract\<close>

definition stored_graph :: "env \<Rightarrow> contract \<Rightarrow> db \<Rightarrow> db" where
  "stored_graph E k s = s\<lparr>
     db_paths := delete_rows (\<lambda>r. pr_contract r = k_id k) (db_paths s) @ path_rows E k,
     db_deps := delete_rows (\<lambda>r. d_contract r = k_id k) (db_deps s) @ dep_rows k,
     db_revisions := db_revisions s @ [\<lparr>r_contract = k_id k, r_revision = k_revision k, r_spec = k_spec k\<rparr>]\<rparr>"

lemma persist_contract_graphD:
  "persist_contract_graph E k s = (Inr u, s') \<Longrightarrow> s' = stored_graph E k s"
  by (auto simp: persist_contract_graph_def tbind_eq_Inr stored_graph_def)

lemma path_rowsD:
  "r \<in> set (path_rows E k) \<Longrightarrow> pr_contract r = k_id k \<and> pr_project r = k_project k \<and>
     (\<exists>w \<in> set (sp_paths (k_spec k)). path_key E w = Some (pr_path r))"
  by (force simp: path_rows_def List.map_filter_def)

lemma paths_disjoint_replace:
  assumes "paths_disjoint rows"
    and "\<And>r. r \<in> set new \<Longrightarrow> pr_contract r = i \<and> pr_project r = project"
    and "\<And>r r'. r \<in> set new \<Longrightarrow> r' \<in> set rows \<Longrightarrow> pr_project r' = project \<Longrightarrow> pr_contract r' \<noteq> i \<Longrightarrow>
      \<not> paths_overlap (pr_path r) (pr_path r')"
  shows "paths_disjoint (delete_rows (\<lambda>r. pr_contract r = i) rows @ new)"
  unfolding paths_disjoint_def
proof (intro ballI impI)
  fix r r' assume r: "r \<in> set (delete_rows (\<lambda>r. pr_contract r = i) rows @ new)"
    and r': "r' \<in> set (delete_rows (\<lambda>r. pr_contract r = i) rows @ new)"
    and p: "pr_project r = pr_project r'" and c: "pr_contract r \<noteq> pr_contract r'"
  have old: "x \<in> set rows \<and> pr_contract x \<noteq> i"
    if "x \<in> set (delete_rows (\<lambda>r. pr_contract r = i) rows @ new)" "x \<notin> set new" for x
    using that by (auto simp: delete_rows_def)
  consider "r \<in> set new" "r' \<in> set rows" "pr_contract r' \<noteq> i"
    | "r' \<in> set new" "r \<in> set rows" "pr_contract r \<noteq> i" | "r \<in> set rows" "r' \<in> set rows"
  proof (cases "r \<in> set new"; cases "r' \<in> set new")
    assume "r \<in> set new" "r' \<in> set new"
    with assms(2) c have False by metis
    then show ?thesis ..
  qed (use old [OF r] old [OF r'] in \<open>blast intro: that\<close>)+
  then show "\<not> paths_overlap (pr_path r) (pr_path r')"
  proof cases
    case 1
    with p assms(2) [OF 1(1)] show ?thesis by (intro assms(3)) simp_all
  next
    case 2
    with p assms(2) [OF 2(1)] have "\<not> paths_overlap (pr_path r') (pr_path r)" by (intro assms(3)) simp_all
    then show ?thesis by (simp add: paths_overlap_sym)
  next
    case 3
    with p c assms(1) show ?thesis by (simp add: paths_disjoint_def)
  qed
qed

lemma dep_edges_replace:
  "dep_edges (delete_rows (\<lambda>r. d_contract r = k_id k) rows @ dep_rows k) \<subseteq>
     dep_edges rows \<union> {k_id k} \<times> set (map cd_contract (sp_deps (k_spec k)))"
  by (auto simp: dep_edges_def delete_rows_def dep_rows_def)

text \<open>
  The step shared by \<open>CreateContract\<close> and \<open>UpdateContract\<close>: the contract \<open>k\<close> is in place in the
  table and its new paths and dependencies have passed both checks.
\<close>

lemma contracts_inv_store:
  assumes inv: "contracts_inv s"
    and ks: "distinct (map k_id ks)"
    and keep: "\<And>project i. has_contract (db_contracts s) project i \<Longrightarrow> has_contract ks project i"
    and k: "k \<in> set ks"
    and paths: "check_contract_paths E (k_project k) (k_id k) (sp_paths (k_spec k)) s = (Inr u, s)"
    and deps: "check_contract_dependencies (k_project k) (k_id k) (sp_deps (k_spec k)) s = (Inr v, s)"
    and hist: "history_ok ks (db_revisions s @ [\<lparr>r_contract = k_id k, r_revision = k_revision k, r_spec = k_spec k\<rparr>])"
  shows "contracts_inv (stored_graph E k (s\<lparr>db_contracts := ks\<rparr>))"
proof -
  note I = inv [unfolded contracts_inv_def]
  have "paths_disjoint (delete_rows (\<lambda>r. pr_contract r = k_id k) (db_paths s) @ path_rows E k)"
    using I path_rowsD check_contract_pathsD [OF paths]
    by (intro paths_disjoint_replace [where project = "k_project k"]) blast+
  moreover have "paths_stored ks (delete_rows (\<lambda>r. pr_contract r = k_id k) (db_paths s) @ path_rows E k)"
    unfolding paths_stored_def
  proof
    fix r assume "r \<in> set (delete_rows (\<lambda>r. pr_contract r = k_id k) (db_paths s) @ path_rows E k)"
    then consider "r \<in> set (db_paths s)" | "r \<in> set (path_rows E k)" by (auto simp: delete_rows_def)
    then show "has_contract ks (pr_project r) (pr_contract r)"
    proof cases
      case 1
      with I show ?thesis by (auto simp: paths_stored_def intro: keep)
    next
      case 2
      from path_rowsD [OF this] k show ?thesis by (auto simp: has_contract_def)
    qed
  qed
  moreover have "deps_stored ks (delete_rows (\<lambda>r. d_contract r = k_id k) (db_deps s) @ dep_rows k)"
    unfolding deps_stored_def
  proof
    fix r assume "r \<in> set (delete_rows (\<lambda>r. d_contract r = k_id k) (db_deps s) @ dep_rows k)"
    then consider "r \<in> set (db_deps s)"
      | d where "d \<in> set (sp_deps (k_spec k))" "d_contract r = k_id k" "d_dependency r = cd_contract d"
      by (auto simp: delete_rows_def dep_rows_def)
    then show "\<exists>project. has_contract ks project (d_contract r) \<and> has_contract ks project (d_dependency r)"
    proof cases
      case 1
      with I obtain project where "has_contract (db_contracts s) project (d_contract r)"
        "has_contract (db_contracts s) project (d_dependency r)" unfolding deps_stored_def by blast
      then show ?thesis by (blast intro: keep)
    next
      case 2
      have "has_contract (db_contracts s) (k_project k) (cd_contract d)"
        using check_contract_dependenciesD [OF deps 2(1)] by (auto simp: has_contract_def)
      with k 2(2,3) show ?thesis by (auto simp: has_contract_def [of ks _ "k_id k"] intro: keep)
    qed
  qed
  moreover have "acyclic (dep_edges (delete_rows (\<lambda>r. d_contract r = k_id k) (db_deps s) @ dep_rows k))"
    by (rule acyclic_subset [OF acyclic_new_targets dep_edges_replace])
      (use I check_contract_dependenciesD [OF deps] in auto)
  ultimately show ?thesis
    using ks hist by (simp add: contracts_inv_def stored_graph_def)
qed

subsection \<open>The operations\<close>

text \<open>What one contract operation may do: only the contract tables change, and their invariant is kept.\<close>

definition contract_step :: "db \<Rightarrow> db \<Rightarrow> bool" where
  "contract_step s s' \<longleftrightarrow> (contracts_inv s \<longrightarrow> contracts_inv s') \<and>
     (\<exists>ks rs ps ds as. s' = s\<lparr>db_contracts := ks, db_revisions := rs, db_paths := ps, db_deps := ds, db_acks := as\<rparr>)"

lemma contract_step_refl [simp]: "contract_step s s"
  unfolding contract_step_def by (intro conjI exI [of _ "db_contracts s"] exI [of _ "db_revisions s"]
      exI [of _ "db_paths s"] exI [of _ "db_deps s"] exI [of _ "db_acks s"]) simp_all

lemma contract_step_update:
  "(contracts_inv s \<Longrightarrow> contracts_inv (s\<lparr>db_contracts := ks, db_revisions := rs, db_paths := ps, db_deps := ds, db_acks := as\<rparr>)) \<Longrightarrow>
   contract_step s (s\<lparr>db_contracts := ks, db_revisions := rs, db_paths := ps, db_deps := ds, db_acks := as\<rparr>)"
  unfolding contract_step_def by blast

lemma contract_step_frame:
  assumes "contract_step s s'" shows "db_inv s' = db_inv s" "evolves s s'"
  using assms by (auto simp: contract_step_def db_inv_def event_journal_def escalation_journal_def evolves_def
      rows_le_refl)

lemma contract_step_stored:
  assumes "contracts_inv s \<Longrightarrow> contracts_inv (stored_graph E k (s\<lparr>db_contracts := ks\<rparr>))"
  shows "contract_step s (stored_graph E k (s\<lparr>db_contracts := ks\<rparr>))"
proof -
  have *: "stored_graph E k (s\<lparr>db_contracts := ks\<rparr>) = s\<lparr>db_contracts := ks,
     db_revisions := db_revisions (stored_graph E k (s\<lparr>db_contracts := ks\<rparr>)),
     db_paths := db_paths (stored_graph E k (s\<lparr>db_contracts := ks\<rparr>)),
     db_deps := db_deps (stored_graph E k (s\<lparr>db_contracts := ks\<rparr>)), db_acks := db_acks s\<rparr>"
    by (simp add: stored_graph_def)
  show ?thesis unfolding contract_step_def using assms * by blast
qed

lemma create_contract_run:
  assumes "create_contract E i sp0 s = (Inr k, s')"
  obtains p sp where "p \<in> set (db_peers s)" "p_id p = i" "p_enabled p" "prepare_contract_spec E p sp0 = Inr sp"
    "k = \<lparr>k_id = fresh_id E, k_project = p_project p, k_owner = i, k_revision = 1, k_spec = sp,
       k_created = tx_now E, k_updated = tx_now E\<rparr>"
    "check_contract_paths E (p_project p) (fresh_id E) (sp_paths sp) s = (Inr (), s)"
    "check_contract_dependencies (p_project p) (fresh_id E) (sp_deps sp) s = (Inr (), s)"
    "\<forall>c \<in> set (db_contracts s). k_id c \<noteq> fresh_id E"
    "s' = stored_graph E k (s\<lparr>db_contracts := db_contracts s @ [k]\<rparr>)"
proof -
  from commit_tx_ok [OF assms [unfolded create_contract_def]] obtain p sp s1 s2
    where p: "p \<in> set (db_peers s)" "p_id p = i" "p_enabled p" and sp: "prepare_contract_spec E p sp0 = Inr sp"
      and paths: "check_contract_paths E (p_project p) (fresh_id E) (sp_paths sp) s = (Inr (), s1)"
      and deps: "check_contract_dependencies (p_project p) (fresh_id E) (sp_deps sp) s1 = (Inr (), s2)"
      and k: "k = \<lparr>k_id = fresh_id E, k_project = p_project p, k_owner = i, k_revision = 1, k_spec = sp,
         k_created = tx_now E, k_updated = tx_now E\<rparr>"
      and new: "\<forall>c \<in> set (db_contracts s2). k_id c \<noteq> fresh_id E"
      and s': "s' = stored_graph E k (s2\<lparr>db_contracts := db_contracts s2 @ [k]\<rparr>)"
    by (auto simp: tbind_eq_Inr insert_contract_def list_ex_iff Let_def
        dest!: contract_transactionD persist_contract_graphD)
  have "s1 = s" using paths by (rule reads_state [OF reads_check_paths])
  moreover from this have "s2 = s" using deps reads_state [OF reads_check_deps] by metis
  ultimately show thesis using that p sp k paths deps new s' by simp
qed

lemma create_contract_fails: "create_contract E i sp0 s = (Inl e, s') \<Longrightarrow> s' = s"
  unfolding create_contract_def commit_tx_def
  by (auto simp: tbind_eq_Inr Let_def split: prod.splits sum.splits)

lemma history_append:
  assumes "history_ok ks rows" and "\<forall>c \<in> set ks. k_id c \<noteq> k_id k"
  shows "history_ok (ks @ [k]) (rows @ [\<lparr>r_contract = k_id k, r_revision = k_revision k, r_spec = k_spec k\<rparr>])"
  using assms by (auto simp: history_ok_def)

lemma step_create_contract: "contract_step s (snd (create_contract E i sp0 s))"
proof (cases "create_contract E i sp0 s")
  case (Pair r s')
  show ?thesis
  proof (cases r)
    case (Inl e)
    with Pair show ?thesis by (auto dest: create_contract_fails)
  next
    case (Inr k)
    show ?thesis
    proof (rule create_contract_run [OF Pair [unfolded Inr]])
      fix p sp
      assume k: "k = \<lparr>k_id = fresh_id E, k_project = p_project p, k_owner = i, k_revision = 1, k_spec = sp,
          k_created = tx_now E, k_updated = tx_now E\<rparr>"
        and paths: "check_contract_paths E (p_project p) (fresh_id E) (sp_paths sp) s = (Inr (), s)"
        and deps: "check_contract_dependencies (p_project p) (fresh_id E) (sp_deps sp) s = (Inr (), s)"
        and new: "\<forall>c \<in> set (db_contracts s). k_id c \<noteq> fresh_id E"
        and s': "s' = stored_graph E k (s\<lparr>db_contracts := db_contracts s @ [k]\<rparr>)"
      have "contracts_inv s \<Longrightarrow> contracts_inv (stored_graph E k (s\<lparr>db_contracts := db_contracts s @ [k]\<rparr>))"
        using k paths deps new
        by (intro contracts_inv_store history_append) (auto simp: contracts_inv_def has_contract_def)
      then show ?thesis using Pair s' by (simp add: contract_step_stored)
    qed
  qed
qed

lemma update_contract_run:
  assumes "update_contract E i cid expected sp0 s = (Inr k, s')"
  obtains p old sp where "p \<in> set (db_peers s)" "p_id p = i" "p_enabled p"
    "old \<in> set (db_contracts s)" "k_id old = cid" "k_project old = p_project p" "k_owner old = i"
    "k_revision old = expected" "prepare_contract_spec E p sp0 = Inr sp"
    "compatibility_error E (k_spec old) sp = None"
    "check_contract_paths E (p_project p) cid (sp_paths sp) s = (Inr (), s)"
    "check_contract_dependencies (p_project p) cid (sp_deps sp) s = (Inr (), s)"
    "find (\<lambda>k. k_id k = cid) (update_rows (\<lambda>k. k_id k = cid \<and> k_revision k = expected) (bump_contract E sp) (db_contracts s)) = Some k"
    "s' = stored_graph E k (s\<lparr>db_contracts :=
       update_rows (\<lambda>k. k_id k = cid \<and> k_revision k = expected) (bump_contract E sp) (db_contracts s)\<rparr>)"
proof -
  from commit_tx_ok [OF assms [unfolded update_contract_def]] obtain p old sp s1 s2
    where p: "p \<in> set (db_peers s)" "p_id p = i" "p_enabled p"
      and old: "old \<in> set (db_contracts s)" "k_id old = cid" "k_project old = p_project p" "k_owner old = i"
        "k_revision old = expected"
      and sp: "prepare_contract_spec E p sp0 = Inr sp" "compatibility_error E (k_spec old) sp = None"
      and paths: "check_contract_paths E (p_project p) cid (sp_paths sp) s = (Inr (), s1)"
      and deps: "check_contract_dependencies (p_project p) cid (sp_deps sp) s1 = (Inr (), s2)"
      and k: "find (\<lambda>k. k_id k = cid) (update_rows (\<lambda>k. k_id k = cid \<and> k_revision k = expected) (bump_contract E sp) (db_contracts s2)) = Some k"
      and s': "s' = stored_graph E k (s2\<lparr>db_contracts :=
       update_rows (\<lambda>k. k_id k = cid \<and> k_revision k = expected) (bump_contract E sp) (db_contracts s2)\<rparr>)"
    by (auto simp: tbind_eq_Inr dest!: contract_transactionD contract_in_projectD persist_contract_graphD
        split: option.splits)
  have "s1 = s" using paths by (rule reads_state [OF reads_check_paths])
  moreover from this have "s2 = s" using deps reads_state [OF reads_check_deps] by metis
  ultimately show thesis using that p old sp k paths deps s' by simp
qed

lemma update_contract_fails: "update_contract E i cid expected sp0 s = (Inl e, s') \<Longrightarrow> s' = s"
  unfolding update_contract_def commit_tx_def
  by (auto simp: tbind_eq_Inr split: prod.splits sum.splits)

lemma bump_simps [simp]:
  "k_id (bump_contract E sp k) = k_id k" "k_project (bump_contract E sp k) = k_project k"
  "k_owner (bump_contract E sp k) = k_owner k" "k_revision (bump_contract E sp k) = k_revision k + 1"
  "k_spec (bump_contract E sp k) = sp"
  by (simp_all add: bump_contract_def)

lemma history_bump:
  assumes "history_ok ks rows" and "distinct (map k_id ks)" and "old \<in> set ks"
    and "ks' = update_rows (\<lambda>k. k_id k = k_id old \<and> k_revision k = k_revision old) (bump_contract E sp) ks"
  shows "history_ok ks' (rows @ [\<lparr>r_contract = k_id old, r_revision = k_revision old + 1, r_spec = sp\<rparr>])"
proof -
  have unique: "k = old" if "k \<in> set ks" "k_id k = k_id old" for k
    using distinct_map_inj_on [OF assms(2) that(1) assms(3) that(2)] .
  have fresh: "(k_id old, k_revision old + 1) \<notin> (\<lambda>r. (r_contract r, r_revision r)) ` set rows"
    using assms(1) unique by (fastforce simp: history_ok_def)
  have new: "bump_contract E sp old \<in> set ks'"
    using assms(3) by (force simp: assms(4) in_update_rows)
  have kept: "k \<in> set ks'" if "k \<in> set ks" "k_id k \<noteq> k_id old" for k
    using that by (force simp: assms(4) in_update_rows)
  have origin: "k = bump_contract E sp old \<or> (k \<in> set ks \<and> k_id k \<noteq> k_id old)" if "k \<in> set ks'" for k
    using that unique by (auto simp: assms(4) in_update_rows split: if_splits)
  show ?thesis
    unfolding history_ok_def
  proof (intro conjI ballI)
    show "distinct (map (\<lambda>r. (r_contract r, r_revision r))
        (rows @ [\<lparr>r_contract = k_id old, r_revision = k_revision old + 1, r_spec = sp\<rparr>]))"
      using assms(1) fresh by (simp add: history_ok_def)
  next
    fix r assume "r \<in> set (rows @ [\<lparr>r_contract = k_id old, r_revision = k_revision old + 1, r_spec = sp\<rparr>])"
    then consider "r \<in> set rows" | "r = \<lparr>r_contract = k_id old, r_revision = k_revision old + 1, r_spec = sp\<rparr>"
      by auto
    then show "\<exists>k \<in> set ks'. k_id k = r_contract r \<and> r_revision r \<le> k_revision k"
    proof cases
      case 1
      then obtain k where k: "k \<in> set ks" "k_id k = r_contract r" "r_revision r \<le> k_revision k"
        using assms(1) unfolding history_ok_def by blast
      show ?thesis
      proof (cases "k_id k = k_id old")
        case True
        then have "k = old" using k(1) unique by blast
        with k new show ?thesis by (intro bexI [OF _ new]) simp
      qed (use k kept in blast)
    qed (use new in \<open>intro bexI [OF _ new], simp\<close>)
  next
    fix k assume "k \<in> set ks'"
    then show "\<lparr>r_contract = k_id k, r_revision = k_revision k, r_spec = k_spec k\<rparr> \<in>
       set (rows @ [\<lparr>r_contract = k_id old, r_revision = k_revision old + 1, r_spec = sp\<rparr>])"
      using origin [of k] assms(1) by (auto simp: history_ok_def)
  qed
qed

lemma step_update_contract: "contract_step s (snd (update_contract E i cid expected sp0 s))"
proof (cases "update_contract E i cid expected sp0 s")
  case (Pair r s')
  show ?thesis
  proof (cases r)
    case (Inl e)
    with Pair show ?thesis by (auto dest: update_contract_fails)
  next
    case (Inr k)
    show ?thesis
    proof (rule update_contract_run [OF Pair [unfolded Inr]])
      fix p old sp
      let ?ks = "update_rows (\<lambda>k. k_id k = cid \<and> k_revision k = expected) (bump_contract E sp) (db_contracts s)"
      assume old: "old \<in> set (db_contracts s)" "k_id old = cid" "k_project old = p_project p" "k_revision old = expected"
        and paths: "check_contract_paths E (p_project p) cid (sp_paths sp) s = (Inr (), s)"
        and deps: "check_contract_dependencies (p_project p) cid (sp_deps sp) s = (Inr (), s)"
        and find: "find (\<lambda>k. k_id k = cid) ?ks = Some k"
        and s': "s' = stored_graph E k (s\<lparr>db_contracts := ?ks\<rparr>)"
      have "contracts_inv (stored_graph E k (s\<lparr>db_contracts := ?ks\<rparr>))" if inv: "contracts_inv s"
      proof -
        have ids: "distinct (map k_id (db_contracts s))" "distinct (map k_id ?ks)"
          using inv by (simp_all add: contracts_inv_def map_update_rows)
        have "bump_contract E sp old \<in> set ?ks" using old by (force simp: in_update_rows)
        moreover have "k \<in> set ?ks" "k_id k = cid" using find by (auto dest: find_in_set)
        ultimately have k: "k = bump_contract E sp old"
          using distinct_map_inj_on [OF ids(2)] old(2) by simp
        have keep: "has_contract ?ks project j" if "has_contract (db_contracts s) project j" for project j
        proof -
          from that obtain c where "c \<in> set (db_contracts s)" "k_id c = j" "k_project c = project"
            by (auto simp: has_contract_def)
          moreover have "(if k_id c = cid \<and> k_revision c = expected then bump_contract E sp c else c) \<in> set ?ks"
            using calculation(1) by (auto simp: in_update_rows)
          ultimately show ?thesis unfolding has_contract_def by (metis bump_simps(1,2))
        qed
        have "history_ok ?ks (db_revisions s @ [\<lparr>r_contract = k_id old, r_revision = k_revision old + 1, r_spec = sp\<rparr>])"
          using inv ids old by (intro history_bump) (simp_all add: contracts_inv_def)
        then show ?thesis
          using inv ids(2) keep k old paths deps \<open>k \<in> set ?ks\<close> by (intro contracts_inv_store) simp_all
      qed
      then show ?thesis using Pair s' by (simp add: contract_step_stored)
    qed
  qed
qed

lemma has_contract_delete:
  "has_contract ks project i \<Longrightarrow> i \<noteq> cid \<Longrightarrow> has_contract (delete_rows (\<lambda>k. k_id k = cid) ks) project i"
  by (auto simp: has_contract_def delete_rows_def)

lemma history_delete:
  assumes "history_ok ks rows"
  shows "history_ok (delete_rows (\<lambda>k. k_id k = cid) ks) (delete_rows (\<lambda>r. r_contract r = cid) rows)"
  unfolding history_ok_def
proof (intro conjI ballI)
  show "distinct (map (\<lambda>r. (r_contract r, r_revision r)) (delete_rows (\<lambda>r. r_contract r = cid) rows))"
    using assms by (auto simp: history_ok_def delete_rows_def distinct_map intro: inj_on_subset)
next
  fix r assume "r \<in> set (delete_rows (\<lambda>r. r_contract r = cid) rows)"
  then have r: "r \<in> set rows" "r_contract r \<noteq> cid" by (simp_all add: delete_rows_def)
  then obtain k where "k \<in> set ks" "k_id k = r_contract r" "r_revision r \<le> k_revision k"
    using assms unfolding history_ok_def by blast
  with r show "\<exists>k \<in> set (delete_rows (\<lambda>k. k_id k = cid) ks). k_id k = r_contract r \<and> r_revision r \<le> k_revision k"
    by (intro bexI [of _ k]) (simp_all add: delete_rows_def)
next
  fix k assume "k \<in> set (delete_rows (\<lambda>k. k_id k = cid) ks)"
  with assms show "\<lparr>r_contract = k_id k, r_revision = k_revision k, r_spec = k_spec k\<rparr> \<in>
     set (delete_rows (\<lambda>r. r_contract r = cid) rows)"
    by (simp add: history_ok_def delete_rows_def)
qed

lemma contracts_inv_delete:
  assumes "contracts_inv s" and "\<forall>r \<in> set (db_deps s). d_dependency r \<noteq> cid"
  shows "contracts_inv (s\<lparr>db_contracts := delete_rows (\<lambda>k. k_id k = cid) (db_contracts s),
          db_revisions := delete_rows (\<lambda>r. r_contract r = cid) (db_revisions s),
          db_paths := delete_rows (\<lambda>r. pr_contract r = cid) (db_paths s),
          db_deps := delete_rows (\<lambda>r. d_contract r = cid) (db_deps s),
          db_acks := acks\<rparr>)"
proof -
  note I = assms(1) [unfolded contracts_inv_def]
  have "distinct (map k_id (delete_rows (\<lambda>k. k_id k = cid) (db_contracts s)))"
    using I by (auto simp: delete_rows_def distinct_map intro: inj_on_subset)
  moreover have "paths_disjoint (delete_rows (\<lambda>r. pr_contract r = cid) (db_paths s))"
    using I by (auto simp: paths_disjoint_def delete_rows_def)
  moreover have "paths_stored (delete_rows (\<lambda>k. k_id k = cid) (db_contracts s))
      (delete_rows (\<lambda>r. pr_contract r = cid) (db_paths s))"
    using I by (auto simp: paths_stored_def delete_rows_def [of "\<lambda>r. pr_contract r = cid"] intro: has_contract_delete)
  moreover have "deps_stored (delete_rows (\<lambda>k. k_id k = cid) (db_contracts s))
      (delete_rows (\<lambda>r. d_contract r = cid) (db_deps s))"
    unfolding deps_stored_def
  proof
    fix r assume "r \<in> set (delete_rows (\<lambda>r. d_contract r = cid) (db_deps s))"
    then have r: "r \<in> set (db_deps s)" "d_contract r \<noteq> cid" "d_dependency r \<noteq> cid"
      using assms(2) by (auto simp: delete_rows_def)
    with I obtain project where "has_contract (db_contracts s) project (d_contract r)"
      "has_contract (db_contracts s) project (d_dependency r)" unfolding deps_stored_def by blast
    with r show "\<exists>project. has_contract (delete_rows (\<lambda>k. k_id k = cid) (db_contracts s)) project (d_contract r) \<and>
       has_contract (delete_rows (\<lambda>k. k_id k = cid) (db_contracts s)) project (d_dependency r)"
      by (blast intro: has_contract_delete)
  qed
  moreover have "acyclic (dep_edges (delete_rows (\<lambda>r. d_contract r = cid) (db_deps s)))"
    by (rule acyclic_subset [of "dep_edges (db_deps s)"]) (use I in \<open>auto simp: dep_edges_def delete_rows_def\<close>)
  moreover have "history_ok (delete_rows (\<lambda>k. k_id k = cid) (db_contracts s))
      (delete_rows (\<lambda>r. r_contract r = cid) (db_revisions s))"
    using I by (simp add: history_delete)
  ultimately show ?thesis by (simp add: contracts_inv_def)
qed

lemma step_delete_contract: "contract_step s (snd (delete_contract E i cid expected s))"
proof (cases "delete_contract E i cid expected s")
  case (Pair r s')
  then have "s' = s \<or> (\<forall>d \<in> set (db_deps s). d_dependency d \<noteq> cid) \<and>
     s' = s\<lparr>db_contracts := delete_rows (\<lambda>k. k_id k = cid) (db_contracts s),
          db_revisions := delete_rows (\<lambda>r. r_contract r = cid) (db_revisions s),
          db_paths := delete_rows (\<lambda>r. pr_contract r = cid) (db_paths s),
          db_deps := delete_rows (\<lambda>r. d_contract r = cid) (db_deps s),
          db_acks := delete_rows (\<lambda>a. ak_contract a = cid) (db_acks s)\<rparr>"
    by (auto simp: delete_contract_def tbind_eq_Inr list_ex_iff dest!: commit_tx_cases contract_transactionD
        contract_in_projectD)
  then show ?thesis
    using contracts_inv_delete by (auto simp: Pair contract_step_update)
qed

lemma contract_step_acks: "contract_step s (s\<lparr>db_acks := acks\<rparr>)"
proof -
  have *: "s\<lparr>db_acks := acks\<rparr> = s\<lparr>db_contracts := db_contracts s, db_revisions := db_revisions s,
     db_paths := db_paths s, db_deps := db_deps s, db_acks := acks\<rparr>" by simp
  show ?thesis by (subst *, rule contract_step_update) (simp add: contracts_inv_def)
qed

lemma step_acknowledge_contract: "contract_step s (snd (acknowledge_contract E i cid expected s))"
proof (cases "acknowledge_contract E i cid expected s")
  case (Pair r s')
  then have "s' = s \<or> (\<exists>row. s' = record_ack row s)"
    by (auto simp: acknowledge_contract_def tbind_eq_Inr dest!: commit_tx_cases contract_transactionD
        contract_in_projectD)
  moreover have "contract_step s (record_ack row s)" for row
    by (simp add: record_ack_def contract_step_acks)
  ultimately show ?thesis using Pair by auto
qed

lemma acknowledge_contract_ok:
  "acknowledge_contract E i cid expected s = (Inr a, s') \<Longrightarrow> same_ack cid expected i a \<and> a \<in> set (db_acks s') \<and>
     (\<exists>k \<in> set (db_contracts s). k_id k = cid \<and> k_revision k = expected)"
  unfolding acknowledge_contract_def
  by (drule commit_tx_ok)
    (auto simp: tbind_eq_Inr dest!: contract_transactionD contract_in_projectD find_in_set)

end
