(* ===== verification/Coord_Readiness.thy ===== *)
theory Coord_Readiness
  imports Coord_Contract_Inv
begin

text \<open>
  Contract readiness (\<open>contract_readiness.go\<close>): the depth-first walk over the pinned dependency
  graph that collects the reasons why a contract is not agreed yet.  The closure \<open>visit\<close> of the
  code is the work list \<open>visit_tasks\<close>: a task is a dependency together with the owner that must
  have acknowledged it, the dependencies of a visited contract come before the remaining tasks,
  and \<open>visited\<close> holds the strings \<open>id:peer\<close> the code uses as keys.  The walk fails beyond 2048
  keys, which is also why it ends.

  The soundness lemma says that no blockers means agreement: every contract the root needs, at
  the revision it is pinned to, is acknowledged by the peer that depends on it and owned by an
  enabled peer.  The converse lemma says that each reported blocker is a real one.
\<close>

subsection \<open>The walk\<close>

definition visit_key :: "string \<Rightarrow> string \<Rightarrow> string" where
  "visit_key i peer = i @ '':'' @ peer"

definition max_readiness_nodes :: nat where "max_readiness_nodes = 2048"

definition lookup_contract :: "db \<Rightarrow> string \<Rightarrow> string \<Rightarrow> contract option" where
  "lookup_contract s project i = find (\<lambda>k. k_id k = i \<and> k_project k = project) (db_contracts s)"

definition peer_live :: "db \<Rightarrow> string \<Rightarrow> bool option" where
  "peer_live s i = map_option p_enabled (find (\<lambda>p. p_id p = i) (db_peers s))"

definition acknowledged :: "db \<Rightarrow> contract \<Rightarrow> string \<Rightarrow> bool" where
  "acknowledged s k peer \<longleftrightarrow> list_ex (same_ack (k_id k) (k_revision k) peer) (db_acks s) \<and>
     list_ex (\<lambda>p. p_id p = peer \<and> p_enabled p) (db_peers s)"

definition blocker :: "string \<Rightarrow> string \<Rightarrow> int \<Rightarrow> int \<Rightarrow> contract_blocker" where
  "blocker i reason expected actual =
     \<lparr>cb_contract = i, cb_reason = reason, cb_expected = expected, cb_actual = actual\<rparr>"

definition pin_blockers :: "contract_dep \<Rightarrow> contract \<Rightarrow> contract_blocker list" where
  "pin_blockers d up =
     (if k_revision up = cd_revision d then []
      else [blocker (k_id up) ''dependency_revision_changed'' (cd_revision d) (k_revision up)])"

definition node_blockers :: "db \<Rightarrow> contract \<Rightarrow> string \<Rightarrow> bool \<Rightarrow> contract_blocker list" where
  "node_blockers s k ack enabled =
     (if enabled then [] else [blocker (k_id k) ''owner_disabled'' 0 0]) @
     (if acknowledged s k ack then []
      else [blocker (k_id k) (''current_revision_not_acknowledged_by:'' @ ack) (k_revision k) 0])"

function visit_tasks :: "db \<Rightarrow> string \<Rightarrow> string list \<Rightarrow> (contract_dep \<times> string) list \<Rightarrow>
    contract_blocker list \<Rightarrow> err + contract_blocker list" where
  "visit_tasks s project visited [] bs = Inr bs"
| "visit_tasks s project visited ((d, ack) # ts) bs =
     (case lookup_contract s project (cd_contract d) of
        None \<Rightarrow> Inl ErrNotFound
      | Some node \<Rightarrow>
          if visit_key (k_id node) ack \<in> set visited
          then visit_tasks s project visited ts (bs @ pin_blockers d node)
          else if length visited + 1 > max_readiness_nodes
          then Inl (ErrOther ''coordination: dependency readiness graph exceeds 2048 nodes'')
          else (case peer_live s (k_owner node) of
             None \<Rightarrow> Inl SqlNoRows
           | Some enabled \<Rightarrow>
               visit_tasks s project (visit_key (k_id node) ack # visited)
                 (map (\<lambda>c. (c, k_owner node)) (sp_deps (k_spec node)) @ ts)
                 (bs @ pin_blockers d node @ node_blockers s node ack enabled)))"
  by pat_completeness auto
termination
  by (relation "measures [\<lambda>(s, project, visited, ts, bs). Suc max_readiness_nodes - length visited,
       \<lambda>(s, project, visited, ts, bs). length ts]") auto

text \<open>The root is visited as a dependency pinned to its own revision, which adds no blocker.\<close>

definition contract_readiness_tx :: "string \<Rightarrow> string \<Rightarrow> string \<Rightarrow> db \<Rightarrow> err + contract_blocker list" where
  "contract_readiness_tx project peer i s =
     (case lookup_contract s project i of
        None \<Rightarrow> Inl ErrNotFound
      | Some c \<Rightarrow>
          visit_tasks s project [] [(\<lparr>cd_contract = i, cd_revision = k_revision c\<rparr>, peer)] [])"

definition contract_readiness :: "env \<Rightarrow> string \<Rightarrow> string \<Rightarrow> db \<Rightarrow> (err + (bool \<times> contract_blocker list)) \<times> db" where
  "contract_readiness E i cid = commit_tx (
     tbind (contract_transaction E i) (\<lambda>p.
     tbind (tget (contract_readiness_tx (p_project p) (p_id p) cid)) (\<lambda>r.
     tbind (tlift r) (\<lambda>bs.
     tret (Inr (bs = [], bs))))))"

subsection \<open>What agreement means\<close>

text \<open>
  The contracts a peer needs through a root, with the peer that has to acknowledge each: the
  root by the peer itself, a dependency by the owner of the contract that depends on it.
\<close>

inductive needs :: "db \<Rightarrow> string \<Rightarrow> string \<Rightarrow> string \<Rightarrow> contract \<Rightarrow> string \<Rightarrow> bool"
  for s project peer root where
  needs_root: "lookup_contract s project root = Some k \<Longrightarrow> needs s project peer root k peer"
| needs_dep: "needs s project peer root k ack \<Longrightarrow> d \<in> set (sp_deps (k_spec k)) \<Longrightarrow>
     lookup_contract s project (cd_contract d) = Some k' \<Longrightarrow> needs s project peer root k' (k_owner k)"

definition agreed :: "db \<Rightarrow> string \<Rightarrow> contract \<Rightarrow> string \<Rightarrow> bool" where
  "agreed s project k ack \<longleftrightarrow> peer_live s (k_owner k) = Some True \<and> acknowledged s k ack \<and>
     (\<forall>d \<in> set (sp_deps (k_spec k)). \<exists>up. lookup_contract s project (cd_contract d) = Some up \<and>
        k_revision up = cd_revision d)"

lemma lookup_contractD:
  "lookup_contract s project i = Some k \<Longrightarrow> k \<in> set (db_contracts s) \<and> k_id k = i \<and> k_project k = project"
  unfolding lookup_contract_def by (drule find_in_set) simp

lemma visit_key_inj:
  assumes "visit_key i p = visit_key j q" and "CHR '':'' \<notin> set i" and "CHR '':'' \<notin> set j"
  shows "i = j \<and> p = q"
proof -
  have "takeWhile (\<lambda>c. c \<noteq> CHR '':'') (visit_key x r) = x" if "CHR '':'' \<notin> set x" for x r
    using that by (induction x) (auto simp: visit_key_def)
  then have "i = j" using assms by metis
  then show ?thesis using assms(1) by (simp add: visit_key_def)
qed


definition pinned :: "db \<Rightarrow> string \<Rightarrow> string set \<Rightarrow> contract_dep \<Rightarrow> string \<Rightarrow> bool" where
  "pinned s project K d ack \<longleftrightarrow> (\<exists>up. lookup_contract s project (cd_contract d) = Some up \<and>
     k_revision up = cd_revision d \<and> visit_key (k_id up) ack \<in> K)"

definition visited_ok :: "db \<Rightarrow> string \<Rightarrow> string set \<Rightarrow> contract \<Rightarrow> string \<Rightarrow> bool" where
  "visited_ok s project K k ack \<longleftrightarrow> lookup_contract s project (k_id k) = Some k \<and>
     peer_live s (k_owner k) = Some True \<and> acknowledged s k ack \<and>
     (\<forall>d \<in> set (sp_deps (k_spec k)). pinned s project K d (k_owner k))"

lemma visit_no_blockers:
  assumes "visit_tasks s project visited ts bs = Inr []"
  shows "bs = [] \<and> (\<exists>W. let K = set visited \<union> (\<lambda>(k, a). visit_key (k_id k) a) ` W
     in (\<forall>(k, a) \<in> W. visited_ok s project K k a) \<and> (\<forall>(d, a) \<in> set ts. pinned s project K d a))"
  using assms
proof (induction s project visited ts bs rule: visit_tasks.induct)
  case (1 s project visited bs)
  then show ?case by (intro conjI exI [of _ "{}"]) simp_all
next
  case (2 s project visited d ack ts bs)
  then obtain node where node: "lookup_contract s project (cd_contract d) = Some node"
    by (auto split: option.splits)
  note IH = "2.IH" [OF node]
  show ?case
  proof (cases "visit_key (k_id node) ack \<in> set visited")
    case True
    with "2.prems" node have "visit_tasks s project visited ts (bs @ pin_blockers d node) = Inr []" by simp
    from IH(1) [OF True this] obtain W where W: "bs @ pin_blockers d node = []"
      "\<forall>(k, a) \<in> W. visited_ok s project (set visited \<union> (\<lambda>(k, a). visit_key (k_id k) a) ` W) k a"
      "\<forall>(d, a) \<in> set ts. pinned s project (set visited \<union> (\<lambda>(k, a). visit_key (k_id k) a) ` W) d a"
      by (auto simp: Let_def)
    have "pinned s project (set visited \<union> (\<lambda>(k, a). visit_key (k_id k) a) ` W) d ack"
      using node True W(1) by (auto simp: pinned_def pin_blockers_def split: if_splits)
    with W show ?thesis by (intro conjI exI [of _ W]) (auto simp: Let_def)
  next
    case False
    with "2.prems" node have small: "\<not> length visited + 1 > max_readiness_nodes"
      by (auto split: if_splits)
    with "2.prems" node False obtain enabled where enabled: "peer_live s (k_owner node) = Some enabled"
      by (auto split: option.splits)
    let ?key = "visit_key (k_id node) ack"
    from "2.prems" node False small enabled IH(2) [OF False small enabled] obtain W
      where bs: "bs @ pin_blockers d node @ node_blockers s node ack enabled = []"
      and W: "\<forall>(k, a) \<in> W. visited_ok s project (set (?key # visited) \<union> (\<lambda>(k, a). visit_key (k_id k) a) ` W) k a"
      and T: "\<forall>(d, a) \<in> set (map (\<lambda>c. (c, k_owner node)) (sp_deps (k_spec node)) @ ts).
        pinned s project (set (?key # visited) \<union> (\<lambda>(k, a). visit_key (k_id k) a) ` W) d a"
      by (auto simp: Let_def)
    let ?W = "insert (node, ack) W"
    let ?K = "set visited \<union> (\<lambda>(k, a). visit_key (k_id k) a) ` ?W"
    have K: "set (?key # visited) \<union> (\<lambda>(k, a). visit_key (k_id k) a) ` W = ?K" by auto
    have "visited_ok s project ?K node ack"
      using bs T node lookup_contractD [OF node] enabled
      by (auto simp: visited_ok_def node_blockers_def K [symmetric] split: if_splits)
    moreover have "pinned s project ?K d ack"
      using bs node by (auto simp: pinned_def pin_blockers_def split: if_splits)
    moreover have "\<forall>(d, a) \<in> set ts. pinned s project ?K d a" using T unfolding K by auto
    moreover have "\<forall>(k, a) \<in> W. visited_ok s project ?K k a" using W unfolding K .
    ultimately show ?thesis using bs by (intro conjI exI [of _ ?W]) (auto simp: Let_def)
  qed
qed

text \<open>No blockers means agreement on everything the root needs.\<close>

lemma readiness_sound:
  assumes ready: "contract_readiness_tx project peer root s = Inr []"
    and ids: "\<forall>k \<in> set (db_contracts s). CHR '':'' \<notin> set (k_id k)"
    and "needs s project peer root k ack"
  shows "agreed s project k ack"
proof -
  from ready obtain c where c: "lookup_contract s project root = Some c"
    and v: "visit_tasks s project [] [(\<lparr>cd_contract = root, cd_revision = k_revision c\<rparr>, peer)] [] = Inr []"
    unfolding contract_readiness_tx_def by (auto split: option.splits)
  from visit_no_blockers [OF v] obtain W V where V: "V = (\<lambda>(k, a). visit_key (k_id k) a) ` W"
    and W: "\<And>k a. (k, a) \<in> W \<Longrightarrow> visited_ok s project V k a"
    and start: "pinned s project V \<lparr>cd_contract = root, cd_revision = k_revision c\<rparr> peer"
    by (fastforce simp: Let_def)
  have mem: "(up, a) \<in> W" if "lookup_contract s project i = Some up" "visit_key (k_id up) a \<in> V" for up a i
  proof -
    from that(2) obtain k' a' where k': "(k', a') \<in> W" "visit_key (k_id up) a = visit_key (k_id k') a'"
      unfolding V by auto
    have look: "lookup_contract s project (k_id k') = Some k'" using W [OF k'(1)] by (simp add: visited_ok_def)
    have "k_id up = k_id k' \<and> a = a'"
      using visit_key_inj [OF k'(2)] ids lookup_contractD [OF that(1)] lookup_contractD [OF look] by blast
    with look that(1) lookup_contractD [OF that(1)] k' show ?thesis by auto
  qed
  from assms(3) have "(k, ack) \<in> W"
  proof induction
    case (needs_root k)
    with start show ?case by (auto simp: pinned_def intro: mem)
  next
    case (needs_dep k ack d k')
    then have "pinned s project V d (k_owner k)" using W [of k ack] by (simp add: visited_ok_def)
    with needs_dep show ?case by (auto simp: pinned_def intro: mem)
  qed
  from W [OF this] show ?thesis by (auto simp: visited_ok_def agreed_def pinned_def)
qed


text \<open>Conversely a walk in which everything needed is agreed reports nothing.\<close>

lemma visit_agreed:
  assumes "visit_tasks s project visited ts bs = Inr bs'"
    and "\<And>k a. needs s project peer root k a \<Longrightarrow> agreed s project k a"
    and "\<And>d a. (d, a) \<in> set ts \<Longrightarrow> \<exists>up. lookup_contract s project (cd_contract d) = Some up \<and>
      k_revision up = cd_revision d \<and> needs s project peer root up a"
  shows "bs' = bs"
  using assms
proof (induction s project visited ts bs rule: visit_tasks.induct)
  case (2 s project visited d ack ts bs)
  from "2.prems"(3) [of d ack] obtain node where
    node: "lookup_contract s project (cd_contract d) = Some node" "k_revision node = cd_revision d"
      "needs s project peer root node ack" by auto
  have pin: "pin_blockers d node = []" using node(2) by (simp add: pin_blockers_def)
  have agr: "agreed s project node ack" by (rule "2.prems"(2) [OF node(3)])
  show ?case
  proof (cases "visit_key (k_id node) ack \<in> set visited")
    case True
    then show ?thesis using "2.prems"(1,3) "2.IH"(1) [OF node(1) True _ "2.prems"(2)] node(1) pin by simp
  next
    case False
    with "2.prems"(1) node(1) have small: "\<not> length visited + 1 > max_readiness_nodes"
      by (auto split: if_splits)
    have live: "peer_live s (k_owner node) = Some True" and bl: "node_blockers s node ack True = []"
      using agr by (simp_all add: agreed_def node_blockers_def)
    have tasks: "\<exists>up. lookup_contract s project (cd_contract e) = Some up \<and> k_revision up = cd_revision e \<and>
        needs s project peer root up a"
      if "(e, a) \<in> set (map (\<lambda>c. (c, k_owner node)) (sp_deps (k_spec node)) @ ts)" for e a
    proof (cases "(e, a) \<in> set ts")
      case False
      with that have e: "e \<in> set (sp_deps (k_spec node))" "a = k_owner node" by auto
      with agr obtain up where "lookup_contract s project (cd_contract e) = Some up" "k_revision up = cd_revision e"
        by (auto simp: agreed_def)
      with needs_dep [OF node(3) e(1)] e(2) show ?thesis by auto
    qed (use "2.prems"(3) in auto)
    from "2.prems"(1) node(1) False small live pin bl
    have "visit_tasks s project (visit_key (k_id node) ack # visited)
        (map (\<lambda>c. (c, k_owner node)) (sp_deps (k_spec node)) @ ts) bs = Inr bs'" by simp
    then show ?thesis using "2.IH"(2) [OF node(1) False small live _ "2.prems"(2)] tasks pin bl by simp
  qed
qed simp


lemma readiness_iff:
  assumes "contract_readiness_tx project peer root s = Inr bs"
    and "\<forall>k \<in> set (db_contracts s). CHR '':'' \<notin> set (k_id k)"
  shows "bs = [] \<longleftrightarrow> (\<forall>k a. needs s project peer root k a \<longrightarrow> agreed s project k a)"
proof
  assume "bs = []"
  with assms show "\<forall>k a. needs s project peer root k a \<longrightarrow> agreed s project k a"
    using readiness_sound by blast
next
  assume agr: "\<forall>k a. needs s project peer root k a \<longrightarrow> agreed s project k a"
  from assms(1) obtain c where c: "lookup_contract s project root = Some c"
    and v: "visit_tasks s project [] [(\<lparr>cd_contract = root, cd_revision = k_revision c\<rparr>, peer)] [] = Inr bs"
    unfolding contract_readiness_tx_def by (auto split: option.splits)
  show "bs = []"
    using c agr by (intro visit_agreed [OF v]) (auto intro: needs_root)
qed

end
