(* ===== verification/Coord_Requests.thy ===== *)
theory Coord_Requests
  imports Coord_Readiness
begin

text \<open>
  What a request depends on: prerequisite messages (\<open>dependencies.go\<close>) and required contracts
  (\<open>request_contracts.go\<close>).  A message whose prerequisites can no longer succeed is failed, one
  whose pinned contract changed or was deleted is failed, one whose contract is not agreed yet
  is blocked for review; each such decision is an event and an escalation.
\<close>

subsection \<open>Validation\<close>

definition canonical_uuid :: "env \<Rightarrow> string \<Rightarrow> bool" where
  "canonical_uuid E i \<longleftrightarrow> uuid_parse E i = Some i"

fun distinct_canonical :: "env \<Rightarrow> string list \<Rightarrow> string list \<Rightarrow> bool" where
  "distinct_canonical E seen [] = True"
| "distinct_canonical E seen (i # is) =
     (canonical_uuid E i \<and> i \<notin> set seen \<and> distinct_canonical E (i # seen) is)"

definition validate_required_contracts :: "env \<Rightarrow> send_input \<Rightarrow> err option" where
  "validate_required_contracts E inp =
    (if length (in_contracts inp) > 32 \<or> (in_contracts inp \<noteq> [] \<and> in_kind inp \<noteq> ''request'')
     then Some (ErrOther ''only requests may require at most 32 contracts'')
     else if list_ex (\<lambda>p. cd_revision p \<le> 0) (in_contracts inp)
          \<or> \<not> distinct_canonical E [] (map cd_contract (in_contracts inp))
     then Some (ErrOther ''required contracts need distinct canonical IDs and positive revisions'')
     else None)"

definition validate_dependencies :: "env \<Rightarrow> send_input \<Rightarrow> err option" where
  "validate_dependencies E inp =
    (if length (in_depends_on inp) > max_dependencies \<or> (in_depends_on inp \<noteq> [] \<and> in_kind inp \<noteq> ''request'')
     then Some (ErrOther ''only requests may have dependencies'')
     else if \<not> distinct_canonical E [] (in_depends_on inp)
     then Some (ErrOther ''dependency IDs must be distinct canonical UUIDs'')
     else None)"

definition may_depend_on :: "peer \<Rightarrow> string list \<Rightarrow> message \<Rightarrow> bool" where
  "may_depend_on from ids m \<longleftrightarrow> m_id m \<in> set ids \<and> m_project m = p_project from \<and>
     m_kind m = ''request'' \<and> (m_from m = p_id from \<or> m_to m = p_id from)"

definition authorize_dependencies :: "peer \<Rightarrow> string list \<Rightarrow> unit dbtx" where
  "authorize_dependencies from ids =
     (if ids = [] then tret ()
      else tbind (tget (\<lambda>s. length (filter (may_depend_on from ids) (db_messages s)))) (\<lambda>count.
           tguard (count = length ids) ErrNotFound))"

lemma distinct_canonical_distinct: "distinct_canonical E seen is \<Longrightarrow> distinct is \<and> set is \<inter> set seen = {}"
  by (induction E seen "is" rule: distinct_canonical.induct) auto

lemma reads_authorize [reader]: "reads (authorize_dependencies from ids)"
  unfolding authorize_dependencies_def by (intro reader)

subsection \<open>Prerequisites\<close>

definition prerequisite :: "db \<Rightarrow> string \<Rightarrow> string \<Rightarrow> message option" where
  "prerequisite s project d = find (\<lambda>m. m_id m = d \<and> m_project m = project) (db_messages s)"

definition broken_dependency :: "db \<Rightarrow> string \<Rightarrow> string \<Rightarrow> bool" where
  "broken_dependency s project d = (case prerequisite s project d of
     None \<Rightarrow> True | Some p \<Rightarrow> m_state p = Failed \<or> m_state p = Cancelled)"

definition pending_dependency :: "db \<Rightarrow> string \<Rightarrow> string \<Rightarrow> bool" where
  "pending_dependency s project d = (case prerequisite s project d of
     None \<Rightarrow> True | Some p \<Rightarrow> m_state p \<noteq> Completed)"

definition next_broken :: "peer \<Rightarrow> db \<Rightarrow> message option" where
  "next_broken p s = first_by by_age (filter (\<lambda>m. m_to m = p_id p \<and> m_project m = p_project p \<and>
     m_state m = Accepted \<and> list_ex (broken_dependency s (m_project m)) (m_depends_on m)) (db_messages s))"

definition dependency_failures :: "db \<Rightarrow> string \<Rightarrow> string list \<Rightarrow> dependency_blocker list" where
  "dependency_failures s project ds = map (\<lambda>d. \<lparr>db_dep_id = d,
       db_dep_state = map_option m_state (prerequisite s project d), db_dep_reason = ''dependency_failed''\<rparr>)
     (order_by (\<lambda>d. d) (filter (broken_dependency s project) ds))"

definition fail_dependency :: "env \<Rightarrow> peer \<Rightarrow> message \<Rightarrow> unit dbtx" where
  "fail_dependency E p m0 =
     tbind (tget (\<lambda>s. dependency_failures s (p_project p) (m_depends_on m0))) (\<lambda>blockers.
     tbind (update_state E (m_id m0) Failed 0) (\<lambda>m.
     tbind (append_event E m ''failed'' (DependencyFailed blockers)) (\<lambda>_.
     append_escalation E (m_project m) (m_from m) (p_id p) (m_id m) (m_conversation m) ''dependency_failed'')))"

fun fail_dependencies_loop :: "env \<Rightarrow> peer \<Rightarrow> nat \<Rightarrow> nat dbtx" where
  "fail_dependencies_loop E p 0 = tret 0"
| "fail_dependencies_loop E p (Suc n) =
     tbind (tget (next_broken p)) (\<lambda>r.
     case r of None \<Rightarrow> tret 0
     | Some m \<Rightarrow> tbind (fail_dependency E p m) (\<lambda>_.
                 tbind (fail_dependencies_loop E p n) (\<lambda>k. tret (Suc k))))"

definition fail_dependencies :: "env \<Rightarrow> peer \<Rightarrow> nat dbtx" where
  "fail_dependencies E p = fail_dependencies_loop E p max_peer_queue"

subsection \<open>Required contracts\<close>

fun required_contract_blockers ::
    "db \<Rightarrow> string \<Rightarrow> string \<Rightarrow> contract_dep list \<Rightarrow> err + (contract_blocker list \<times> bool)" where
  "required_contract_blockers s project recipient [] = Inr ([], False)"
| "required_contract_blockers s project recipient (pin # pins) =
     (let continue = (\<lambda>bs fatal. map_sum id (\<lambda>(bs', fatal'). (bs @ bs', fatal \<or> fatal'))
            (required_contract_blockers s project recipient pins))
      in case lookup_contract s project (cd_contract pin) of
         None \<Rightarrow> continue [blocker (cd_contract pin) ''required_contract_deleted'' (cd_revision pin) 0] True
       | Some c \<Rightarrow>
           if k_revision c \<noteq> cd_revision pin
           then continue [blocker (cd_contract pin) ''required_contract_revision_changed'' (cd_revision pin) (k_revision c)] True
           else (case contract_readiness_tx project recipient (cd_contract pin) s of
              Inl e \<Rightarrow> Inl e
            | Inr bs \<Rightarrow> continue bs (list_ex (\<lambda>b. cb_reason b = ''dependency_revision_changed'') bs)))"

definition fail_request_contracts :: "env \<Rightarrow> string \<Rightarrow> message \<Rightarrow> contract_blocker list \<Rightarrow> unit dbtx" where
  "fail_request_contracts E recipient m0 blockers =
     tbind (update_state E (m_id m0) Failed 0) (\<lambda>m.
     tbind (append_event E m ''failed'' (ContractEvidence ''required_contract_failed'' blockers)) (\<lambda>_.
     append_escalation E (m_project m) (m_from m) recipient (m_id m) (m_conversation m) ''required_contract_failed''))"

definition block_request_contracts :: "env \<Rightarrow> string \<Rightarrow> message \<Rightarrow> contract_blocker list \<Rightarrow> unit dbtx" where
  "block_request_contracts E recipient m0 blockers =
     tbind (update_state E (m_id m0) Blocked 0) (\<lambda>m.
     tbind (append_event E m ''blocked'' (ContractEvidence ''required_contract_waiting'' blockers)) (\<lambda>_.
     append_escalation E (m_project m) (m_from m) recipient (m_id m) (m_conversation m) ''required_contract_waiting''))"

definition enforce_request_contracts :: "env \<Rightarrow> message \<Rightarrow> unit dbtx" where
  "enforce_request_contracts E m =
     (if m_contracts m = [] then tret ()
      else tbind (tget (\<lambda>s. required_contract_blockers s (m_project m) (m_to m) (m_contracts m))) (\<lambda>r.
           tbind (tlift r) (\<lambda>(blockers, fatal).
           if blockers = [] then tret ()
           else tbind (if fatal then fail_request_contracts E (m_to m) m blockers
                       else block_request_contracts E (m_to m) m blockers) (\<lambda>_.
                tfail ErrRequestContracts))))"

text \<open>
  The candidates of a claim are read once; the loop decides on each row in turn.  The result
  keeps the count of failed requests next to the error, because the caller commits them.
\<close>

definition claim_candidates :: "env \<Rightarrow> peer \<Rightarrow> db \<Rightarrow> message list" where
  "claim_candidates E p s = take 128 (order_by by_age (filter (\<lambda>m. m_to m = p_id p \<and>
     m_project m = p_project p \<and> m_state m = Accepted \<and> tx_now E < m_deadline m) (db_messages s)))"

fun claim_loop :: "env \<Rightarrow> peer \<Rightarrow> nat \<Rightarrow> message list \<Rightarrow> ((err + message) \<times> nat) dbtx" where
  "claim_loop E p changed [] = tret (Inl ErrNotFound, changed)"
| "claim_loop E p changed (m # ms) =
     tbind (tget (\<lambda>s. required_contract_blockers s (p_project p) (p_id p) (m_contracts m))) (\<lambda>r.
     case r of
       Inl e \<Rightarrow> tret (Inl e, changed)
     | Inr (blockers, fatal) \<Rightarrow>
         if fatal then
           tbind (ttry (fail_request_contracts E (p_id p) m blockers)) (\<lambda>f.
           case f of Inl e \<Rightarrow> tret (Inl e, changed) | Inr _ \<Rightarrow> claim_loop E p (changed + 1) ms)
         else if blockers = [] then
           tbind (tget (\<lambda>s. list_ex (pending_dependency s (p_project p)) (m_depends_on m))) (\<lambda>pending.
           if pending then claim_loop E p changed ms else tret (Inr m, changed))
         else claim_loop E p changed ms)"

definition claim_contract_ready :: "env \<Rightarrow> peer \<Rightarrow> ((err + message) \<times> nat) dbtx" where
  "claim_contract_ready E p = tbind (tget (claim_candidates E p)) (claim_loop E p 0)"

definition validate_execution_contracts :: "env \<Rightarrow> ctx \<Rightarrow> peer \<Rightarrow> unit dbtx" where
  "validate_execution_contracts E c p =
     (case ctx_lineage c of
        None \<Rightarrow> tret ()
      | Some (mid, l) \<Rightarrow>
          if ls_peer l \<noteq> p_id p then tfail ErrUnauthorized
          else tbind (check_lease E (p_id p) (ls_owner l)) (\<lambda>_.
               tbind (select_message mid (\<lambda>m. m_to m = p_id p \<and> m_project m = p_project p)) (\<lambda>m.
               tbind (tguard (m_state m = Started) ErrConflict) (\<lambda>_.
               tbind (tget (\<lambda>s. required_contract_blockers s (p_project p) (p_id p) (m_contracts m))) (\<lambda>r.
               tbind (tlift r) (\<lambda>(blockers, fatal).
               tguard (blockers = []) (Wrapped ErrRequestContracts ''blockers'')))))))"

definition reconcile_execution_contracts :: "env \<Rightarrow> lease \<Rightarrow> string \<Rightarrow> db \<Rightarrow> (err + unit) \<times> db" where
  "reconcile_execution_contracts E l mid = commit_tx (
     tbind (validate_lease E l) (\<lambda>_.
     tbind (lock_admission (ls_peer l)) (\<lambda>_.
     tbind (enabled_peer E (ls_peer l)) (\<lambda>_.
     tbind (check_lease E (ls_peer l) (ls_owner l)) (\<lambda>_.
     tbind (select_message mid (\<lambda>m. m_to m = ls_peer l)) (\<lambda>m.
     if m_state m = Blocked \<and> m_contracts m \<noteq> [] then tfail ErrRequestContracts
     else if m_state m \<noteq> Started then tret (Inr ())
     else tbind (ttry (enforce_request_contracts E m)) (\<lambda>r.
          case r of
            Inr _ \<Rightarrow> tret (Inr ())
          | Inl e \<Rightarrow> if e = ErrRequestContracts then tret (Inl e) else tfail e)))))))"

fun merge_pins :: "contract_dep list \<Rightarrow> contract_dep list \<Rightarrow> err + contract_dep list" where
  "merge_pins merged [] = Inr merged"
| "merge_pins merged (pin # pins) =
     (case find (\<lambda>q. cd_contract q = cd_contract pin) (rev merged) of
        Some q \<Rightarrow> if cd_revision q \<noteq> cd_revision pin
                  then Inl (Wrapped ErrConflict ''child cannot replace inherited required contract revision'')
                  else merge_pins merged pins
      | None \<Rightarrow> merge_pins (merged @ [pin]) pins)"

definition inherit_request_contracts :: "env \<Rightarrow> peer \<Rightarrow> string \<Rightarrow> send_input \<Rightarrow> send_input dbtx" where
  "inherit_request_contracts E from parent inp =
     (if parent = '''' then tret inp
      else tbind (select_message parent (\<lambda>m. m_project m = p_project from)) (\<lambda>pm.
           if m_contracts pm = [] then tret inp
           else tbind (if \<not> terminal (m_state pm) then enforce_request_contracts E pm
                       else tbind (tget (\<lambda>s. required_contract_blockers s (p_project from) (m_to pm) (m_contracts pm))) (\<lambda>r.
                            tbind (tlift r) (\<lambda>(blockers, fatal).
                            tguard (blockers = []) ErrRequestContracts))) (\<lambda>_.
                tbind (tlift (merge_pins (m_contracts pm) (in_contracts inp))) (\<lambda>merged.
                tbind (tguard (length merged \<le> 32) (ErrOther ''inherited and explicit requirements exceed 32 contracts'')) (\<lambda>_.
                tret (inp\<lparr>in_contracts := merged\<rparr>))))))"

subsection \<open>Deciding against a message\<close>

text \<open>The three decisions have one shape: update, event, escalation.\<close>

lemma core_report:
  assumes "open_message s i" and "st \<noteq> Started"
  shows "moves core_step (tbind (update_state E i st 0) (\<lambda>m. tbind (append_event E m k (p m)) (\<lambda>_.
     append_escalation E (pr m) (f m) t (pm m) (cv m) r))) s"
  by (rule core_update_event [OF may_change_open [OF assms]]) (rule core_append_escalation)

lemma nns_report:
  assumes "st \<noteq> Started"
  shows "moves no_new_started (tbind (update_state E i st 0) (\<lambda>m. tbind (append_event E m k (p m)) (\<lambda>_.
     append_escalation E (pr m) (f m) t (pm m) (cv m) r))) s"
proof (rule moves_tbind [OF preorder_no_new_started])
  show "moves no_new_started (update_state E i st 0) s"
    using assms by (simp add: moves_def no_new_started_put)
next
  fix m s'
  show "moves no_new_started (tbind (append_event E m k (p m)) (\<lambda>_.
     append_escalation E (pr m) (f m) t (pm m) (cv m) r)) s'"
    by (intro moves_tbind [OF preorder_no_new_started] moves_append_event moves_append_escalation
        preorder_no_new_started) (simp_all add: no_new_started_same)
qed

lemma append_escalation_frame: "append_escalation E pr f t pm cv r s = (x, s') \<Longrightarrow> db_messages s' = db_messages s"
  by (auto simp: append_escalation_def tx_simps split: if_splits)

lemma report_messages:
  assumes "tbind (update_state E i st 0) (\<lambda>m. tbind (append_event E m k (p m)) (\<lambda>_.
     append_escalation E (pr m) (f m) t (pm m) (cv m) r)) s = (x, s')"
  shows "db_messages s' = update_rows (\<lambda>m. m_id m = i) (set_state E st 0) (db_messages s)"
proof (cases "find_message i s")
  case (Some m)
  let ?m = "set_state E st 0 m"
  obtain x1 s1 where ev: "append_event E ?m k (p ?m) (put_state E i st 0 s) = (x1, s1)" by fastforce
  obtain x2 s2 where es: "append_escalation E (pr ?m) (f ?m) t (pm ?m) (cv ?m) r s1 = (x2, s2)" by fastforce
  have "s' = s1 \<or> s' = s2"
    using assms Some ev es by (auto simp: tbind_run update_state_run split: sum.splits)
  then show ?thesis
    using append_event_frame [OF ev] append_escalation_frame [OF es] by auto
next
  case None
  with assms have "s' = s" by (auto simp: update_state_def tbind_run tlook_run put_state_none)
  with None show ?thesis by (auto simp: find_message_def find_None_iff update_rows_none)
qed

lemma report_find:
  assumes "tbind (update_state E i st 0) (\<lambda>m. tbind (append_event E m k (p m)) (\<lambda>_.
     append_escalation E (pr m) (f m) t (pm m) (cv m) r)) s = (x, s')"
  shows "find_message j s' = map_option (\<lambda>m. if m_id m = i then set_state E st 0 m else m) (find_message j s)"
  using report_messages [OF assms] find_message_cong [of s' "put_state E i st 0 s" j]
  by (simp add: find_message_put)

lemma report_find_other:
  assumes "tbind (update_state E i st 0) (\<lambda>m. tbind (append_event E m k (p m)) (\<lambda>_.
     append_escalation E (pr m) (f m) t (pm m) (cv m) r)) s = (x, s')" and "j \<noteq> i"
  shows "find_message j s' = find_message j s"
  using assms(2) by (auto simp: report_find [OF assms(1)] dest: find_messageD simp: map_option_case split: option.splits)

lemma core_fail_request: "open_message s (m_id m) \<Longrightarrow> moves core_step (fail_request_contracts E i m bs) s"
  unfolding fail_request_contracts_def by (rule core_report) simp_all

lemma core_block_request: "open_message s (m_id m) \<Longrightarrow> moves core_step (block_request_contracts E i m bs) s"
  unfolding block_request_contracts_def by (rule core_report) simp_all

lemma core_enforce: "open_message s (m_id m) \<Longrightarrow> moves core_step (enforce_request_contracts E m) s"
  unfolding enforce_request_contracts_def
  by (intro core moves_read_bind [OF reads_tget preorder_core] moves_read_bind [OF reads_tlift preorder_core]
      core_fail_request core_block_request)

lemma nns_leaf: "reads m \<Longrightarrow> moves no_new_started m s"
  by (rule moves_reads [OF preorder_no_new_started])

lemma nns_bind:
  "moves no_new_started m s \<Longrightarrow> (\<And>a s'. moves no_new_started (f a) s') \<Longrightarrow> moves no_new_started (tbind m f) s"
  by (rule moves_tbind [OF preorder_no_new_started])

lemma nns_fail_request: "moves no_new_started (fail_request_contracts E i m bs) s"
  unfolding fail_request_contracts_def by (rule nns_report) simp

lemma nns_block_request: "moves no_new_started (block_request_contracts E i m bs) s"
  unfolding block_request_contracts_def by (rule nns_report) simp

lemma nns_enforce: "moves no_new_started (enforce_request_contracts E m) s"
  unfolding enforce_request_contracts_def
  by (intro moves_cases nns_bind nns_fail_request nns_block_request nns_leaf reader)

text \<open>Enforcement either finds full agreement and changes nothing, or refuses.\<close>

lemma enforce_ok:
  assumes "enforce_request_contracts E m s = (Inr u, s')"
  shows "s' = s \<and> (m_contracts m = [] \<or>
     (\<exists>fatal. required_contract_blockers s (m_project m) (m_to m) (m_contracts m) = Inr ([], fatal)))"
  using assms
  by (auto simp: enforce_request_contracts_def tbind_eq_Inr split: if_splits)

lemma enforce_keeps:
  assumes "enforce_request_contracts E m s = (r, s')" and "j \<noteq> m_id m"
  shows "find_message j s' = find_message j s"
proof -
  have f: "find_message j s2 = find_message j s1" if "fail_request_contracts E i m bs s1 = (x, s2)" for i bs s1 x s2
    using report_find_other [OF that [unfolded fail_request_contracts_def] assms(2)] .
  have b: "find_message j s2 = find_message j s1" if "block_request_contracts E i m bs s1 = (x, s2)" for i bs s1 x s2
    using report_find_other [OF that [unfolded block_request_contracts_def] assms(2)] .
  show ?thesis
    using assms(1)
    by (auto simp: enforce_request_contracts_def tbind_def split: if_splits sum.splits prod.splits dest: f b)
qed

subsection \<open>The loops of a claim\<close>

lemma next_brokenD:
  "next_broken p s = Some m \<Longrightarrow> m \<in> set (db_messages s) \<and> m_state m = Accepted \<and> m_to m = p_id p \<and>
     m_project m = p_project p \<and> (\<exists>d \<in> set (m_depends_on m). broken_dependency s (m_project m) d)"
  unfolding next_broken_def by (drule first_by_in) (auto simp: list_ex_iff)

lemma core_fail_dependency:
  "open_message s (m_id m) \<Longrightarrow> moves core_step (fail_dependency E p m) s"
  unfolding fail_dependency_def
  by (intro moves_read_bind [OF reads_tget preorder_core] core_report) simp_all

lemma core_fail_dependencies: "moves core_step (fail_dependencies E p) s"
proof -
  have "moves core_step (fail_dependencies_loop E p n) s" for n
  proof (induction n arbitrary: s)
    case 0
    show ?case unfolding fail_dependencies_loop.simps by (intro core)
  next
    case (Suc n)
    show ?case
    proof (rule core_vacuous)
      assume inv: "db_inv s"
      have op: "open_message s (m_id m)" if "next_broken p s = Some m" for m
        using next_brokenD [OF that] find_message_eq [OF db_invD(3) [OF inv], of m]
        by (simp add: open_message_def terminal_def)
      show "moves core_step (fail_dependencies_loop E p (Suc n)) s"
        unfolding fail_dependencies_loop.simps
      proof (rule moves_read_bind [OF reads_tget preorder_core])
        fix r assume "tget (next_broken p) s = (Inr r, s)"
        then have r: "r = next_broken p s" by simp
        show "moves core_step (case r of None \<Rightarrow> tret 0 | Some m \<Rightarrow> tbind (fail_dependency E p m) (\<lambda>_.
            tbind (fail_dependencies_loop E p n) (\<lambda>k. tret (Suc k)))) s"
          using op by (intro core core_fail_dependency Suc) (simp add: r)
      qed
    qed
  qed
  then show ?thesis by (simp add: fail_dependencies_def)
qed

lemma nns_fail_dependencies: "moves no_new_started (fail_dependencies E p) s"
proof -
  have "moves no_new_started (fail_dependencies_loop E p n) s" for n
  proof (induction n arbitrary: s)
    case (Suc n)
    show ?case
      unfolding fail_dependencies_loop.simps fail_dependency_def
      by (intro moves_cases nns_bind nns_leaf reader nns_report Suc) simp
  qed (unfold fail_dependencies_loop.simps, intro nns_leaf reader)
  then show ?thesis by (simp add: fail_dependencies_def)
qed

lemma fail_dependencies_result:
  assumes "fail_dependencies E p s = (Inr k, s')"
  shows "k \<le> max_peer_queue \<and> (k < max_peer_queue \<longrightarrow> next_broken p s' = None)"
proof -
  have "fail_dependencies_loop E p n s = (Inr k, s') \<Longrightarrow> k \<le> n \<and> (k < n \<longrightarrow> next_broken p s' = None)" for n
  proof (induction n arbitrary: s k)
    case (Suc n)
    then show ?case
      by (cases "next_broken p s") (auto simp: tbind_eq_Inr)
  qed simp
  with assms show ?thesis by (simp add: fail_dependencies_def)
qed

text \<open>Rows that are read once stay current until the loop reaches them.\<close>

definition current_rows :: "db \<Rightarrow> message list \<Rightarrow> bool" where
  "current_rows s ms \<longleftrightarrow> distinct (map m_id ms) \<and> (\<forall>m \<in> set ms. find_message (m_id m) s = Some m)"

lemma current_rows_Cons:
  "current_rows s (m # ms) \<Longrightarrow> (\<And>j. j \<noteq> m_id m \<Longrightarrow> find_message j s' = find_message j s) \<Longrightarrow> current_rows s' ms"
  unfolding current_rows_def by (auto simp: image_iff)

lemma fail_request_keeps:
  "fail_request_contracts E i m bs s = (x, s') \<Longrightarrow> j \<noteq> m_id m \<Longrightarrow> find_message j s' = find_message j s"
  unfolding fail_request_contracts_def by (rule report_find_other)

lemma core_claim_loop:
  assumes "current_rows s ms" and "\<forall>m \<in> set ms. \<not> terminal (m_state m)"
  shows "moves core_step (claim_loop E p n ms) s"
  using assms
proof (induction ms arbitrary: s n)
  case Nil
  show ?case unfolding claim_loop.simps by (intro core)
next
  case (Cons m ms)
  have op: "open_message s (m_id m)"
    using Cons.prems by (simp add: current_rows_def open_message_def)
  have rest: "moves core_step (claim_loop E p c ms) s'"
    if "\<And>j. j \<noteq> m_id m \<Longrightarrow> find_message j s' = find_message j s" for s' c
    using Cons.IH [OF current_rows_Cons [OF Cons.prems(1) that]] Cons.prems(2) by simp
  have fail: "moves core_step (tbind (ttry (fail_request_contracts E (p_id p) m bs)) (\<lambda>f.
      case f of Inl e \<Rightarrow> tret (Inl e, n) | Inr _ \<Rightarrow> claim_loop E p (n + 1) ms)) s" for bs
  proof (rule moves_tbind [OF preorder_core])
    show "moves core_step (ttry (fail_request_contracts E (p_id p) m bs)) s"
      unfolding moves_ttry by (rule core_fail_request [OF op])
    fix f s' assume "ttry (fail_request_contracts E (p_id p) m bs) s = (Inr f, s')"
    then have "fail_request_contracts E (p_id p) m bs s = (f, s')"
      by (auto simp: ttry_def split: prod.splits)
    then show "moves core_step (case f of Inl e \<Rightarrow> tret (Inl e, n) | Inr _ \<Rightarrow> claim_loop E p (n + 1) ms) s'"
      by (intro core rest) (auto dest: fail_request_keeps)
  qed
  show ?case
    unfolding claim_loop.simps
    by (intro moves_read_bind [OF reads_tget preorder_core] core fail rest) simp_all
qed

lemma nns_claim_loop: "moves no_new_started (claim_loop E p n ms) s"
proof (induction ms arbitrary: s n)
  case (Cons m ms)
  then show ?case
    unfolding claim_loop.simps
    by (intro moves_cases nns_bind nns_leaf [OF reads_tget] nns_leaf [OF reads_tret] Cons)
      (simp add: moves_ttry nns_fail_request)
qed (unfold claim_loop.simps, intro nns_leaf reader)

text \<open>The message a claim picks is a candidate, still current, agreed and with finished prerequisites.\<close>

definition dispatchable :: "db \<Rightarrow> peer \<Rightarrow> message \<Rightarrow> bool" where
  "dispatchable s p m \<longleftrightarrow> find_message (m_id m) s = Some m \<and>
     required_contract_blockers s (p_project p) (p_id p) (m_contracts m) = Inr ([], False) \<and>
     (\<forall>d \<in> set (m_depends_on m). \<exists>q. prerequisite s (p_project p) d = Some q \<and> m_state q = Completed)"

lemma claim_loop_step:
  assumes "required_contract_blockers s (p_project p) (p_id p) (m_contracts x) = Inr (bs, fatal)"
  shows "claim_loop E p n (x # ms) s =
    (if fatal then (case fail_request_contracts E (p_id p) x bs s of
         (Inl e, s1) \<Rightarrow> (Inr (Inl e, n), s1) | (Inr _, s1) \<Rightarrow> claim_loop E p (n + 1) ms s1)
     else if bs = [] \<and> \<not> list_ex (pending_dependency s (p_project p)) (m_depends_on x) then (Inr (Inr x, n), s)
     else claim_loop E p n ms s)"
  using assms by (simp add: tbind_run ttry_run split: prod.splits sum.splits)

lemma claim_loop_picks:
  assumes "claim_loop E p n ms s = (Inr (Inr m, c), s')" and "current_rows s ms"
  shows "m \<in> set ms \<and> dispatchable s' p m"
  using assms
proof (induction ms arbitrary: s n)
  case (Cons x ms)
  obtain bs fatal where bl: "required_contract_blockers s (p_project p) (p_id p) (m_contracts x) = Inr (bs, fatal)"
    using Cons.prems(1) by (auto simp: tbind_eq_Inr split: sum.splits)
  note run = Cons.prems(1) [unfolded claim_loop_step [OF bl]]
  show ?case
  proof (cases fatal)
    case True
    with run obtain u s1 where "fail_request_contracts E (p_id p) x bs s = (Inr u, s1)"
      and f: "claim_loop E p (n + 1) ms s1 = (Inr (Inr m, c), s')"
      by (auto split: prod.splits sum.splits)
    then have "current_rows s1 ms"
      using current_rows_Cons [OF Cons.prems(2)] fail_request_keeps by metis
    with f have "m \<in> set ms \<and> dispatchable s' p m" by (intro Cons.IH)
    then show ?thesis by simp
  next
    case False
    have cur: "current_rows s ms" by (rule current_rows_Cons [OF Cons.prems(2)]) simp
    show ?thesis
    proof (cases "claim_loop E p n ms s = (Inr (Inr m, c), s')")
      case True
      with Cons.IH [OF True cur] show ?thesis by simp
    next
      case no: False
      with run False have "bs = []" "m = x" "s' = s"
        "\<not> list_ex (pending_dependency s (p_project p)) (m_depends_on x)"
        by (auto split: if_splits)
      with bl False Cons.prems(2) show ?thesis
        by (auto simp: dispatchable_def current_rows_def list_ex_iff pending_dependency_def split: option.splits)
    qed
  qed
qed simp

end
