(* ===== verification/Coord_Send.thy ===== *)
theory Coord_Send
  imports Coord_Requests
begin

text \<open>
  Sending a message: \<open>Store.Send\<close> and \<open>sendTx\<close> (\<open>store.go\<close>), the causal lineage and the
  admission limits (\<open>budgets.go\<close>) and the task usage row a message belongs to (\<open>usage.go\<close>).

  \<open>sendTx\<close> is cut at its own stages: the submitted envelope is checked and both peers are
  resolved (\<open>send_open\<close>), a stored receipt answers a retry (\<open>stored_receipt\<close>), the message replied
  to and the lineage are resolved (\<open>send_resolve\<close>), required contracts and prerequisites are
  checked (\<open>send_contracts\<close>), the task's usage row is established (\<open>send_account\<close>), the limits are
  applied (\<open>check_admission\<close>), and the message is inserted with its event, completing the message
  it answers (\<open>send_store\<close>).
\<close>

subsection \<open>Task usage rows\<close>

definition usage_scope :: "string \<Rightarrow> string \<Rightarrow> string" where
  "usage_scope task conversation =
     (if task \<noteq> '''' then ''task:'' @ task else ''conversation:'' @ conversation)"

definition input_usage_scope :: "send_input \<Rightarrow> string" where
  "input_usage_scope inp = usage_scope (in_task inp) (in_conversation inp)"

definition message_scope :: "message \<Rightarrow> string" where
  "message_scope m = usage_scope (m_task m) (m_conversation m)"

definition usage_at :: "string \<Rightarrow> string \<Rightarrow> usage_row \<Rightarrow> bool" where
  "usage_at project scope u \<longleftrightarrow> u_project u = project \<and> u_scope u = scope"

definition find_usage :: "string \<Rightarrow> string \<Rightarrow> db \<Rightarrow> usage_row option" where
  "find_usage project scope s = find (usage_at project scope) (db_usage s)"

definition new_usage :: "string \<Rightarrow> string \<Rightarrow> string \<Rightarrow> string \<Rightarrow> usage_limits \<Rightarrow> usage_row" where
  "new_usage project scope task own lim =
     \<lparr>u_project = project, u_scope = scope, u_task = task, u_owner = own,
      u_token_limit = ul_tokens lim, u_cost_limit = ul_cost lim, u_input = 0, u_output = 0,
      u_cached = 0, u_cost = 0, u_unknown_usage = 0, u_unknown_price = 0, u_revision = 1, u_reason = ''''\<rparr>"

definition no_limits :: usage_limits where
  "no_limits = \<lparr>ul_tokens = 0, ul_cost = 0\<rparr>"

definition put_usage :: "usage_row \<Rightarrow> db \<Rightarrow> db" where
  "put_usage u s = (if find_usage (u_project u) (u_scope u) s = None then s\<lparr>db_usage := db_usage s @ [u]\<rparr> else s)"

definition ensure_usage :: "string \<Rightarrow> string \<Rightarrow> string \<Rightarrow> string \<Rightarrow> usage_limits \<Rightarrow> unit dbtx" where
  "ensure_usage project scope task own lim = tmod (put_usage (new_usage project scope task own lim))"

subsection \<open>Lineage and admission\<close>

definition derive_lineage ::
    "env \<Rightarrow> ctx \<Rightarrow> peer \<Rightarrow> send_input \<Rightarrow> message option \<Rightarrow> (send_input \<times> string \<times> int) dbtx" where
  "derive_lineage E c from inp reply =
    (let base = (case reply of None \<Rightarrow> ('''', 0) | Some r \<Rightarrow> (m_id r, m_depth r));
         deeper = (\<lambda>(inp', parent, depth). (inp', parent, if in_kind inp = ''request'' then depth + 1 else depth))
     in case ctx_lineage c of
        None \<Rightarrow> tret (deeper (inp, base))
      | Some (mid, l) \<Rightarrow>
          tbind (if ctx_transport c then check_transport_execution E c (p_id from) else tret ()) (\<lambda>_.
          tbind (tguard (ls_peer l = p_id from) ErrUnauthorized) (\<lambda>_.
          tbind (check_lease E (p_id from) (ls_owner l)) (\<lambda>_.
          tbind (select_message mid (\<lambda>m. m_to m = p_id from \<and> m_project m = p_project from)) (\<lambda>parent.
          tbind (tguard (m_state parent = Started) ErrConflict) (\<lambda>_.
          tret (deeper (inp\<lparr>in_conversation := m_conversation parent, in_task := m_task parent,
              in_deadline := Some (case in_deadline inp of None \<Rightarrow> m_deadline parent
                                   | Some d \<Rightarrow> min d (m_deadline parent))\<rparr>,
              m_id parent, m_depth parent))))))))"

fun ancestry_reason :: "db \<Rightarrow> string \<Rightarrow> string \<Rightarrow> string list \<Rightarrow> nat \<Rightarrow> string \<Rightarrow> err + string option" where
  "ancestry_reason s project to seen 0 current =
     Inr (if current = '''' then None else Some ''request_ancestry_limit'')"
| "ancestry_reason s project to seen (Suc n) current =
     (if current = '''' then Inr None
      else if current \<in> set seen then Inr (Some ''request_ancestry_limit'')
      else case prerequisite s project current of
         None \<Rightarrow> Inl SqlNoRows
       | Some m \<Rightarrow> if to = m_from m \<or> to = m_to m then Inr (Some ''request_cycle'')
                   else ancestry_reason s project to (current # seen) n (m_parent m))"

definition active :: "message \<Rightarrow> bool" where
  "active m \<longleftrightarrow> m_state m = Accepted \<or> m_state m = Started \<or> m_state m = Blocked"

definition is_answer :: "send_input \<Rightarrow> bool" where
  "is_answer inp \<longleftrightarrow> in_kind inp = ''answer'' \<or> in_kind inp = ''completion''"

definition admission_reason ::
    "peer \<Rightarrow> peer \<Rightarrow> send_input \<Rightarrow> string \<Rightarrow> int \<Rightarrow> db \<Rightarrow> err + (string \<times> err) option" where
  "admission_reason from to inp parent depth s =
    (let queue = (\<lambda>_::unit.
           if length (filter (\<lambda>m. m_project m = p_project from \<and> active m \<and> m_to m = p_id to) (db_messages s)) \<ge> max_peer_queue
           then Inr (Some (''peer_queue_limit'', ErrQueueFull))
           else if length (filter (\<lambda>m. m_project m = p_project from \<and> active m) (db_messages s)) \<ge> max_project_queue
           then Inr (Some (''project_queue_limit'', ErrQueueFull)) else Inr None)
     in if in_kind inp \<noteq> ''request'' then queue ()
        else if depth > max_request_depth then Inr (Some (''request_depth_limit'', ErrRequestBudget))
        else case ancestry_reason s (p_project from) (p_id to) [] 64 parent of
            Inl e \<Rightarrow> Inl e
          | Inr (Some r) \<Rightarrow> Inr (Some (r, ErrRequestBudget))
          | Inr None \<Rightarrow>
              if length (filter (\<lambda>m. m_project m = p_project from \<and> m_conversation m = in_conversation inp
                    \<and> m_kind m = ''request'') (db_messages s)) \<ge> max_conversation_requests
              then Inr (Some (''conversation_request_limit'', ErrRequestBudget)) else queue ())"

definition open_reply :: "send_input \<Rightarrow> message option \<Rightarrow> bool" where
  "open_reply inp reply \<longleftrightarrow> is_answer inp \<and> (case reply of None \<Rightarrow> False | Some r \<Rightarrow> \<not> terminal (m_state r))"

definition check_admission ::
    "env \<Rightarrow> peer \<Rightarrow> peer \<Rightarrow> send_input \<Rightarrow> string \<Rightarrow> int \<Rightarrow> message option \<Rightarrow> unit dbtx" where
  "check_admission E from to inp parent depth reply =
     (if open_reply inp reply then tret ()
      else tbind (tget (admission_reason from to inp parent depth)) (\<lambda>r.
           tbind (tlift r) (\<lambda>why.
           case why of
             None \<Rightarrow> tret ()
           | Some (reason, kind) \<Rightarrow>
               tbind (append_escalation E (p_project from) (p_id from) (p_id to) parent (in_conversation inp) reason) (\<lambda>_.
               tfail (Wrapped kind reason)))))"

definition budget_rejection :: "err \<Rightarrow> bool" where
  "budget_rejection e \<longleftrightarrow> errors_is e ErrQueueFull \<or> errors_is e ErrRequestBudget"

subsection \<open>The stages of sendTx\<close>

definition send_kinds :: "string list" where
  "send_kinds = [''request'', ''answer'', ''progress'', ''blocker'', ''contract_changed'', ''completion'']"

definition send_shape :: "env \<Rightarrow> send_input \<Rightarrow> err option" where
  "send_shape E inp =
    (if in_kind inp \<notin> set send_kinds then Some (ErrOther ''unsupported message kind'')
     else if \<not> peer_name_ok (in_to inp) \<or> in_payload inp = [] \<or> length (in_payload inp) > 65536
        \<or> \<not> json_valid (in_payload inp) \<or> in_key inp = [] \<or> length (in_key inp) > 128
     then Some (ErrOther ''recipient, JSON payload <=64KiB and idempotency key are required'')
     else if in_conversation inp \<noteq> '''' \<and> uuid_parse E (in_conversation inp) = None
     then Some (ErrOther ''invalid conversation ID'')
     else if length (in_task inp) > 128 \<or> length (in_reply_to inp) > 128
     then Some (ErrOther ''invalid correlation ID'')
     else case validate_required_contracts E inp of Some e \<Rightarrow> Some e
        | None \<Rightarrow> validate_dependencies E inp)"

definition send_open :: "env \<Rightarrow> ctx \<Rightarrow> string \<Rightarrow> send_input \<Rightarrow> (peer \<times> peer) dbtx" where
  "send_open E c i inp =
     tbind (case send_shape E inp of None \<Rightarrow> tret () | Some e \<Rightarrow> tfail e) (\<lambda>_.
     tbind (lock_admission i) (\<lambda>_.
     tbind (enabled_peer E i) (\<lambda>from.
     tbind (check_scoped_credential (now E) c i) (\<lambda>_.
     tbind (tlook (\<lambda>s. find (\<lambda>p. p_project p = p_project from \<and> p_name p = in_to inp \<and> p_enabled p) (db_peers s))
              ErrUnauthorized) (\<lambda>to.
     tbind (validate_repository_peer E to) (\<lambda>_.
     tbind (tguard (p_id from \<noteq> p_id to) (ErrOther ''recipient must be another peer'')) (\<lambda>_.
     tret (from, to))))))))"

definition send_digest :: "env \<Rightarrow> ctx \<Rightarrow> send_input \<Rightarrow> string" where
  "send_digest E c inp = request_hash E inp (ctx_budget c) (map_option fst (ctx_lineage c))"

definition find_receipt :: "string \<Rightarrow> string \<Rightarrow> db \<Rightarrow> message option" where
  "find_receipt i key s = find (\<lambda>m. m_from m = i \<and> m_key m = key) (db_messages s)"

definition stored_receipt :: "string \<Rightarrow> message \<Rightarrow> message dbtx" where
  "stored_receipt digest m = (if m_hash m = digest then tret m else tfail ErrIdempotency)"

definition send_resolve ::
    "env \<Rightarrow> ctx \<Rightarrow> peer \<Rightarrow> peer \<Rightarrow> send_input \<Rightarrow> (send_input \<times> message option \<times> string \<times> int) dbtx" where
  "send_resolve E c from to inp0 =
     tbind (if ctx_external c \<and> in_reply_to inp0 \<noteq> '''' \<and> is_answer inp0
            then reject_external_worker_lease (p_id from) else tret ()) (\<lambda>_.
     tbind (if in_reply_to inp0 = '''' then tret (inp0, None)
            else tbind (select_message (in_reply_to inp0) (\<lambda>m. m_project m = p_project from)) (\<lambda>orig.
                 tbind (tguard (m_to orig = p_id from \<and> m_from orig = p_id to) ErrUnauthorized) (\<lambda>_.
                 tbind (tguard (in_conversation inp0 = '''' \<or> in_conversation inp0 = m_conversation orig)
                          (ErrOther ''reply conversation mismatch'')) (\<lambda>_.
                 tret (inp0\<lparr>in_conversation := m_conversation orig\<rparr>, Some orig))))) (\<lambda>(inp1, reply).
     tbind (derive_lineage E c from inp1 reply) (\<lambda>(inp2, parent, depth).
     tret (inp2\<lparr>in_conversation := (if in_conversation inp2 = '''' then fresh_conversation E else in_conversation inp2),
                in_deadline := Some (case in_deadline inp2 of None \<Rightarrow> app_now E + 86400000000 | Some d \<Rightarrow> d)\<rparr>,
           reply, parent, depth))))"

definition pins_current :: "db \<Rightarrow> string \<Rightarrow> contract_dep list \<Rightarrow> err option" where
  "pins_current s project pins = first_error (\<lambda>pin. case lookup_contract s project (cd_contract pin) of
     None \<Rightarrow> Some ErrNotFound
   | Some k \<Rightarrow> if k_revision k \<noteq> cd_revision pin then Some ErrConflict else None) pins"

definition check_pins :: "string \<Rightarrow> contract_dep list \<Rightarrow> unit dbtx" where
  "check_pins project pins =
     tbind (tget (\<lambda>s. pins_current s project pins)) (\<lambda>e.
     case e of None \<Rightarrow> tret () | Some e \<Rightarrow> tfail e)"

definition inherit_reply :: "env \<Rightarrow> peer \<Rightarrow> message option \<Rightarrow> string \<Rightarrow> send_input \<Rightarrow> send_input dbtx" where
  "inherit_reply E from reply parent inp =
     (case reply of None \<Rightarrow> tret inp
      | Some r \<Rightarrow> if m_id r \<noteq> parent then inherit_request_contracts E from (m_id r) inp else tret inp)"

definition reply_answerable :: "send_input \<Rightarrow> message option \<Rightarrow> unit dbtx" where
  "reply_answerable inp reply =
     (case reply of None \<Rightarrow> tret ()
      | Some r \<Rightarrow> tguard (\<not> (is_answer inp \<and> (m_state r = Cancelled \<or> m_state r = Failed)))
                    (ErrOther ''cannot answer finished work''))"

definition enforce_reply :: "env \<Rightarrow> send_input \<Rightarrow> message option \<Rightarrow> unit dbtx" where
  "enforce_reply E inp reply =
     (case reply of None \<Rightarrow> tret ()
      | Some r \<Rightarrow> if open_reply inp reply then enforce_request_contracts E r else tret ())"

definition reply_unanswered :: "send_input \<Rightarrow> message option \<Rightarrow> unit dbtx" where
  "reply_unanswered inp reply =
     (case reply of None \<Rightarrow> tret ()
      | Some r \<Rightarrow>
          if is_answer inp
          then tbind (tget (\<lambda>s. list_ex (\<lambda>m. m_in_reply_to m = m_id r \<and>
                  (m_kind m = ''answer'' \<or> m_kind m = ''completion'')) (db_messages s))) (\<lambda>answered.
               tguard (\<not> answered) ErrConflict)
          else tret ())"

definition send_contracts ::
    "env \<Rightarrow> peer \<Rightarrow> send_input \<Rightarrow> message option \<Rightarrow> string \<Rightarrow> send_input dbtx" where
  "send_contracts E from inp0 reply parent =
     tbind (inherit_request_contracts E from parent inp0) (\<lambda>inp1.
     tbind (inherit_reply E from reply parent inp1) (\<lambda>inp.
     tbind (check_pins (p_project from) (in_contracts inp)) (\<lambda>_.
     tbind (authorize_dependencies from (in_depends_on inp)) (\<lambda>_.
     tbind (reply_answerable inp reply) (\<lambda>_.
     tbind (enforce_reply E inp reply) (\<lambda>_.
     tbind (reply_unanswered inp reply) (\<lambda>_.
     tret inp)))))))"

definition set_limits :: "string \<Rightarrow> string \<Rightarrow> usage_limits \<Rightarrow> db \<Rightarrow> db" where
  "set_limits project scope lim s =
     (if list_ex (\<lambda>m. m_project m = project \<and> message_scope m = scope) (db_messages s) then s
      else s\<lparr>db_usage := update_rows (usage_at project scope)
             (\<lambda>u. u\<lparr>u_token_limit := ul_tokens lim, u_cost_limit := ul_cost lim\<rparr>) (db_usage s)\<rparr>)"

definition send_account :: "env \<Rightarrow> ctx \<Rightarrow> peer \<Rightarrow> send_input \<Rightarrow> string \<Rightarrow> unit dbtx" where
  "send_account E c from inp parent =
     tbind (tguard (case in_deadline inp of None \<Rightarrow> False | Some d \<Rightarrow> app_now E < d) (ErrOther ''deadline has elapsed'')) (\<lambda>_.
     tbind (ensure_usage (p_project from) (input_usage_scope inp) (in_task inp) (p_id from) no_limits) (\<lambda>_.
     tbind (if parent = '''' then
              tbind (tlook (find_usage (p_project from) (input_usage_scope inp)) SqlNoRows) (\<lambda>u.
              tguard (u_owner u = p_id from) ErrUnauthorized)
            else tret ()) (\<lambda>_.
     case ctx_budget c of
       None \<Rightarrow> tret ()
     | Some lim \<Rightarrow>
         tbind (tguard (parent = '''' \<and> in_kind inp = ''request'') (ErrOther ''budgets belong to root requests'')) (\<lambda>_.
         tbind (tmod (set_limits (p_project from) (input_usage_scope inp) lim)) (\<lambda>_.
         tbind (tlook (find_usage (p_project from) (input_usage_scope inp)) SqlNoRows) (\<lambda>u.
         tguard (u_token_limit u = ul_tokens lim \<and> u_cost_limit u = ul_cost lim) ErrConflict))))))"

definition new_message ::
    "env \<Rightarrow> peer \<Rightarrow> peer \<Rightarrow> send_input \<Rightarrow> string \<Rightarrow> string \<Rightarrow> int \<Rightarrow> message" where
  "new_message E from to inp digest parent depth =
     \<lparr>m_id = fresh_id E, m_project = p_project from, m_from = p_id from, m_to = p_id to,
      m_kind = in_kind inp, m_conversation = in_conversation inp, m_task = in_task inp,
      m_in_reply_to = in_reply_to inp, m_payload = in_payload inp, m_state = Accepted, m_revision = 1,
      m_created = tx_now E, m_updated = tx_now E,
      m_deadline = (case in_deadline inp of None \<Rightarrow> 0 | Some d \<Rightarrow> d), m_parent = parent, m_depth = depth,
      m_attempts = 0, m_depends_on = in_depends_on inp, m_contracts = in_contracts inp,
      m_key = in_key inp, m_hash = digest\<rparr>"

definition send_complete :: "env \<Rightarrow> message \<Rightarrow> bool \<Rightarrow> message option \<Rightarrow> unit dbtx" where
  "send_complete E m answers reply =
     (case reply of
        None \<Rightarrow> tret ()
      | Some r \<Rightarrow>
          if answers \<and> \<not> terminal (m_state r) then
            tbind (update_state E (m_id r) Completed 0) (\<lambda>done.
            append_event E done ''completed'' (ReplyId (m_id m)))
          else tret ())"

definition send_store :: "env \<Rightarrow> message \<Rightarrow> bool \<Rightarrow> message option \<Rightarrow> message dbtx" where
  "send_store E m answers reply =
     tbind (tget (find_message (m_id m))) (\<lambda>dup.
     tbind (tguard (dup = None) (SqlConstraint ''coordination_messages'')) (\<lambda>_.
     tbind (tmod (\<lambda>s. s\<lparr>db_messages := db_messages s @ [m]\<rparr>)) (\<lambda>_.
     tbind (append_event E m ''accepted'' EmptyObject) (\<lambda>_.
     tbind (send_complete E m answers reply) (\<lambda>_.
     tret m)))))"

definition send_finish ::
    "env \<Rightarrow> ctx \<Rightarrow> peer \<Rightarrow> peer \<Rightarrow> send_input \<Rightarrow> string \<Rightarrow> message option \<Rightarrow> string \<Rightarrow> int \<Rightarrow> message dbtx" where
  "send_finish E c from to inp digest reply parent depth =
     tbind (send_account E c from inp parent) (\<lambda>_.
     tbind (check_admission E from to inp parent depth reply) (\<lambda>_.
     tbind (tget (find_receipt (p_id from) (in_key inp))) (\<lambda>race.
     case race of
       Some m \<Rightarrow> stored_receipt digest m
     | None \<Rightarrow> send_store E (new_message E from to inp digest parent depth) (is_answer inp) reply)))"

definition send_tx :: "env \<Rightarrow> ctx \<Rightarrow> string \<Rightarrow> send_input \<Rightarrow> message dbtx" where
  "send_tx E c i inp0 =
     tbind (send_open E c i inp0) (\<lambda>(from, to).
     tbind (tget (find_receipt (p_id from) (in_key inp0))) (\<lambda>prior.
     case prior of
       Some m \<Rightarrow> stored_receipt (send_digest E c inp0) m
     | None \<Rightarrow>
         tbind (send_resolve E c from to inp0) (\<lambda>(inp1, reply, parent, depth).
         tbind (send_contracts E from inp1 reply parent) (\<lambda>inp.
         send_finish E c from to inp (send_digest E c inp0) reply parent depth))))"

definition send :: "env \<Rightarrow> ctx \<Rightarrow> string \<Rightarrow> send_input \<Rightarrow> db \<Rightarrow> (err + message) \<times> db" where
  "send E c i inp = commit_peer_transaction E c i (
     tbind (ttry (send_tx E c i inp)) (\<lambda>r.
     case r of
       Inr m \<Rightarrow> tret (Inr m)
     | Inl e \<Rightarrow> if budget_rejection e \<or> errors_is e ErrRequestContracts then tret (Inl e) else tfail e))"

definition validate_usage_limits :: "usage_limits \<Rightarrow> bool" where
  "validate_usage_limits lim \<longleftrightarrow> 0 \<le> ul_tokens lim \<and> ul_tokens lim \<le> 1000000000000 \<and>
     0 \<le> ul_cost lim \<and> ul_cost lim \<le> 1000000 * 1000000000"

definition send_with_budget :: "env \<Rightarrow> ctx \<Rightarrow> string \<Rightarrow> send_input \<Rightarrow> usage_limits \<Rightarrow> db \<Rightarrow> (err + message) \<times> db" where
  "send_with_budget E c i inp lim s =
     (if \<not> validate_usage_limits lim then (Inl (ErrOther ''invalid usage limits''), s)
      else send E (c\<lparr>ctx_budget := Some lim\<rparr>) i inp s)"

definition external_send :: "env \<Rightarrow> ctx \<Rightarrow> string \<Rightarrow> send_input \<Rightarrow> db \<Rightarrow> (err + message) \<times> db" where
  "external_send E c i inp s = send E (c\<lparr>ctx_external := True\<rparr>) i inp s"

end
