(* ===== verification/Coord_Send_Inv.thy ===== *)
theory Coord_Send_Inv
  imports Coord_Send
begin

text \<open>
  Sending keeps the invariant of the store.  Each stage of \<open>sendTx\<close> has a lemma on what a
  success means (\<open>send_openD\<close>, \<open>send_resolveD\<close>, \<open>send_contractsD\<close>, \<open>check_admissionD\<close>) and one on
  what every run may change.
\<close>

subsection \<open>What a successful stage establishes\<close>

lemma reads_reject_none [reader]: "reads (case x of None \<Rightarrow> tret () | Some e \<Rightarrow> tfail e)"
  by (intro reader)

lemma reads_send_open [reader]: "reads (send_open E c i inp)"
  unfolding send_open_def by (intro reader)

lemma send_openD:
  assumes "send_open E c i inp s = (Inr (from, to), s')"
  shows "s' = s" "from \<in> set (db_peers s)" "p_id from = i" "p_enabled from" "to \<in> set (db_peers s)"
    "p_enabled to" "p_project to = p_project from" "p_name to = in_to inp" "p_id from \<noteq> p_id to"
    "send_shape E inp = None"
proof -
  show "s' = s" using assms by (rule reads_state [OF reads_send_open])
  from assms obtain s1 s2 s3 s4 where shape: "send_shape E inp = None"
    and 1: "lock_admission i s = (Inr (), s1)" and 2: "enabled_peer E i s1 = (Inr from, s2)"
    and 3: "check_scoped_credential (now E) c i s2 = (Inr (), s3)"
    and 4: "find (\<lambda>p. p_project p = p_project from \<and> p_name p = in_to inp \<and> p_enabled p) (db_peers s3) = Some to"
    and 5: "validate_repository_peer E to s3 = (Inr (), s4)" and ne: "p_id from \<noteq> p_id to"
    by (auto simp: send_open_def tbind_eq_Inr split: option.splits)
  have "s1 = s" "s2 = s1" "s3 = s2"
    using reads_state [OF reads_lock_admission 1] reads_state [OF reads_enabled_peer 2]
      reads_state [OF reads_check_scoped 3] by simp_all
  with 2 4 enabled_peerD [OF 2] find_in_set [OF 4] ne shape
  show "from \<in> set (db_peers s)" "p_id from = i" "p_enabled from" "to \<in> set (db_peers s)" "p_enabled to"
    "p_project to = p_project from" "p_name to = in_to inp" "p_id from \<noteq> p_id to" "send_shape E inp = None"
    by simp_all
qed

lemma reads_derive_lineage [reader]: "reads (derive_lineage E c from inp reply)"
  unfolding derive_lineage_def Let_def by (intro reader)

lemma derive_lineageD:
  assumes "derive_lineage E c from inp reply s = (Inr (inp', parent, depth), s')"
  obtains lin where "in_depends_on inp' = in_depends_on inp" "in_kind inp' = in_kind inp" "in_key inp' = in_key inp"
    "in_reply_to inp' = in_reply_to inp"
    "lin = reply \<or> (\<exists>m. lin = Some m \<and> m \<in> set (db_messages s) \<and> m_project m = p_project from \<and>
       m_to m = p_id from \<and> m_state m = Started)"
    "parent = (case lin of None \<Rightarrow> '''' | Some m \<Rightarrow> m_id m)"
    "depth = (case lin of None \<Rightarrow> 0 | Some m \<Rightarrow> m_depth m) + (if in_kind inp = ''request'' then 1 else 0)"
proof (cases "ctx_lineage c")
  case None
  with assms show ?thesis
    by (intro that [of reply]) (auto simp: derive_lineage_def Let_def split: option.splits if_splits)
next
  case (Some l)
  obtain mid l' where l: "l = (mid, l')" by fastforce
  from assms Some l obtain s1 s2 m where tr: "(if ctx_transport c then check_transport_execution E c (p_id from) else tret ()) s = (Inr (), s1)"
    and lease: "check_lease E (p_id from) (ls_owner l') s1 = (Inr (), s2)"
    and sel: "select_message mid (\<lambda>m. m_to m = p_id from \<and> m_project m = p_project from) s2 = (Inr m, s')"
    and st: "m_state m = Started"
    and r: "inp' = inp\<lparr>in_conversation := m_conversation m, in_task := m_task m,
              in_deadline := Some (case in_deadline inp of None \<Rightarrow> m_deadline m | Some d \<Rightarrow> min d (m_deadline m))\<rparr>"
      "parent = m_id m" "depth = (if in_kind inp = ''request'' then m_depth m + 1 else m_depth m)"
    unfolding derive_lineage_def Let_def by (clarsimp simp: tbind_eq_Inr simp del: if_split)
  have "reads (if ctx_transport c then check_transport_execution E c (p_id from) else tret ())"
    by (intro reader)
  from reads_state [OF this tr] check_leaseD [OF lease] have "s2 = s" by simp
  with select_messageD [OF sel] st r show ?thesis by (intro that [of "Some m"]) auto
qed

lemma reads_send_resolve [reader]: "reads (send_resolve E c from to inp)"
  unfolding send_resolve_def by (intro reader)

text \<open>A causal ancestor of the message to be sent: the executing message or the one replied to.\<close>

definition causal :: "db \<Rightarrow> peer \<Rightarrow> message option \<Rightarrow> bool" where
  "causal s from lin \<longleftrightarrow> (case lin of None \<Rightarrow> True | Some m \<Rightarrow> m \<in> set (db_messages s) \<and>
     m_project m = p_project from \<and> m_to m = p_id from)"

lemma send_resolveD:
  assumes "send_resolve E c from to inp0 s = (Inr (inp, reply, parent, depth), s')"
  obtains lin where "s' = s" "in_depends_on inp = in_depends_on inp0" "in_kind inp = in_kind inp0"
    "in_key inp = in_key inp0" "in_reply_to inp = in_reply_to inp0"
    "causal s from reply" "\<forall>r. reply = Some r \<longrightarrow> m_from r = p_id to \<and> m_id r = in_reply_to inp0"
    "causal s from lin" "parent = (case lin of None \<Rightarrow> '''' | Some m \<Rightarrow> m_id m)"
    "depth = (case lin of None \<Rightarrow> 0 | Some m \<Rightarrow> m_depth m) + (if in_kind inp0 = ''request'' then 1 else 0)"
proof -
  have s': "s' = s" using assms by (rule reads_state [OF reads_send_resolve])
  define rep where "rep = (if in_reply_to inp0 = '''' then tret (inp0, None)
            else tbind (select_message (in_reply_to inp0) (\<lambda>m. m_project m = p_project from)) (\<lambda>orig.
                 tbind (tguard (m_to orig = p_id from \<and> m_from orig = p_id to) ErrUnauthorized) (\<lambda>_.
                 tbind (tguard (in_conversation inp0 = '''' \<or> in_conversation inp0 = m_conversation orig)
                          (ErrOther ''reply conversation mismatch'')) (\<lambda>_.
                 tret (inp0\<lparr>in_conversation := m_conversation orig\<rparr>, Some orig)))))"
  from assms obtain s1 s2 inp1 inp2 d2 where
    1: "(if ctx_external c \<and> in_reply_to inp0 \<noteq> '''' \<and> is_answer inp0
        then reject_external_worker_lease (p_id from) else tret ()) s = (Inr (), s1)"
    and 2: "rep s1 = (Inr (inp1, reply), s2)"
    and 3: "derive_lineage E c from inp1 reply s2 = (Inr (inp2, parent, d2), s')"
    and out: "inp = inp2\<lparr>in_conversation := (if in_conversation inp2 = '''' then fresh_conversation E else in_conversation inp2),
        in_deadline := Some (case in_deadline inp2 of None \<Rightarrow> app_now E + 86400000000 | Some d \<Rightarrow> d)\<rparr>"
      "depth = d2"
    unfolding send_resolve_def rep_def [symmetric] by (clarsimp simp: tbind_eq_Inr simp del: if_split)
  have r1: "s1 = s" using 1 by (rule reads_state [rotated]) (intro reader)
  have "reads rep" unfolding rep_def by (intro reader)
  with 2 r1 have r2: "s2 = s" by (auto dest: reads_state)
  have rep: "in_depends_on inp1 = in_depends_on inp0 \<and> in_kind inp1 = in_kind inp0 \<and> in_key inp1 = in_key inp0 \<and>
     in_reply_to inp1 = in_reply_to inp0 \<and> causal s from reply \<and> (\<forall>r. reply = Some r \<longrightarrow> m_from r = p_id to \<and> m_id r = in_reply_to inp0)"
    using 2 r1 r2 by (auto simp: rep_def tbind_eq_Inr causal_def dest!: select_messageD split: if_splits)
  show thesis
  proof (rule derive_lineageD [OF 3])
    fix lin
    assume "in_depends_on inp2 = in_depends_on inp1" "in_kind inp2 = in_kind inp1" "in_key inp2 = in_key inp1"
      "in_reply_to inp2 = in_reply_to inp1"
      and lin: "lin = reply \<or> (\<exists>m. lin = Some m \<and> m \<in> set (db_messages s2) \<and> m_project m = p_project from \<and>
       m_to m = p_id from \<and> m_state m = Started)"
      and "parent = (case lin of None \<Rightarrow> '''' | Some m \<Rightarrow> m_id m)"
      "d2 = (case lin of None \<Rightarrow> 0 | Some m \<Rightarrow> m_depth m) + (if in_kind inp1 = ''request'' then 1 else 0)"
    moreover have "causal s from lin" using lin rep r2 by (auto simp: causal_def)
    ultimately show thesis using out rep s' by (intro that [of lin]) simp_all
  qed
qed

lemma inherit_ok:
  assumes "inherit_request_contracts E from parent inp s = (Inr inp', s')"
  shows "s' = s \<and> (\<exists>cs. inp' = inp\<lparr>in_contracts := cs\<rparr>)"
proof (cases "parent = ''''")
  case True
  with assms have "inp' = inp\<lparr>in_contracts := in_contracts inp\<rparr>" "s' = s"
    by (simp_all add: inherit_request_contracts_def)
  then show ?thesis by blast
next
  case False
  with assms obtain pm where pm: "select_message parent (\<lambda>m. m_project m = p_project from) s = (Inr pm, s)"
    and rest: "(if m_contracts pm = [] then tret inp
           else tbind (if \<not> terminal (m_state pm) then enforce_request_contracts E pm
                       else tbind (tget (\<lambda>s. required_contract_blockers s (p_project from) (m_to pm) (m_contracts pm))) (\<lambda>r.
                            tbind (tlift r) (\<lambda>(blockers, fatal).
                            tguard (blockers = []) ErrRequestContracts))) (\<lambda>_.
                tbind (tlift (merge_pins (m_contracts pm) (in_contracts inp))) (\<lambda>merged.
                tbind (tguard (length merged \<le> 32) (ErrOther ''inherited and explicit requirements exceed 32 contracts'')) (\<lambda>_.
                tret (inp\<lparr>in_contracts := merged\<rparr>))))) s = (Inr inp', s')"
    unfolding inherit_request_contracts_def by (auto simp: tbind_eq_Inr select_message_def)
  show ?thesis
  proof (cases "m_contracts pm = []")
    case True
    with rest have "inp' = inp\<lparr>in_contracts := in_contracts inp\<rparr>" "s' = s" by simp_all
    then show ?thesis by blast
  next
    case False
    with rest show ?thesis
      by (auto simp: tbind_eq_Inr split: if_splits dest!: enforce_ok [THEN conjunct1])
  qed
qed

lemma core_inherit: "moves core_step (inherit_request_contracts E from parent inp) s"
proof (rule core_vacuous)
  assume inv: "db_inv s"
  have op: "open_message s (m_id m)"
    if "select_message parent (\<lambda>m. m_project m = p_project from) s = (Inr m, s)" "\<not> terminal (m_state m)" for m
    using select_messageD [OF that(1)] that(2) find_message_eq [OF db_invD(3) [OF inv]] by (auto simp: open_message_def)
  show "moves core_step (inherit_request_contracts E from parent inp) s"
    unfolding inherit_request_contracts_def
    by (intro moves_read_bind [OF reads_select_message preorder_core] core core_enforce op)
qed

lemma authorize_all:
  assumes "authorize_dependencies from ids s = (Inr u, s')" and "distinct ids"
    and "ids_ok (db_messages s)" and "d \<in> set ids"
  shows "\<exists>m \<in> set (db_messages s). m_id m = d \<and> may_depend_on from ids m"
proof -
  let ?F = "filter (may_depend_on from ids) (db_messages s)"
  have len: "length ?F = length ids"
    using assms(1,4) by (auto simp: authorize_dependencies_def tbind_eq_Inr split: if_splits)
  have dist: "distinct (map m_id ?F)"
    using assms(3) by (auto simp: ids_ok_def distinct_map intro: inj_on_subset)
  have sub: "set (map m_id ?F) \<subseteq> set ids" by (auto simp: may_depend_on_def)
  have "card (set (map m_id ?F)) = card (set ids)"
    using len dist assms(2) by (metis distinct_card length_map)
  with sub have "set (map m_id ?F) = set ids" by (intro card_subset_eq) simp_all
  with assms(4) have "d \<in> set (map m_id ?F)" by blast
  then show ?thesis by auto
qed

lemma reads_check_pins [reader]: "reads (check_pins project pins)"
  unfolding check_pins_def by (intro reader)

lemma reads_answerable [reader]: "reads (reply_answerable inp reply)"
  unfolding reply_answerable_def by (intro reader)

lemma reads_unanswered [reader]: "reads (reply_unanswered inp reply)"
  unfolding reply_unanswered_def by (intro reader)

lemma inherit_reply_ok:
  assumes "inherit_reply E from reply parent inp s = (Inr inp', s')"
  shows "s' = s \<and> (\<exists>cs. inp' = inp\<lparr>in_contracts := cs\<rparr>)"
proof (cases "\<exists>r. reply = Some r \<and> m_id r \<noteq> parent")
  case True
  with assms show ?thesis by (auto simp: inherit_reply_def dest: inherit_ok)
next
  case False
  with assms have "s' = s" "inp' = inp\<lparr>in_contracts := in_contracts inp\<rparr>"
    by (auto simp: inherit_reply_def split: option.splits)
  then show ?thesis by blast
qed

lemma enforce_reply_ok: "enforce_reply E inp reply s = (Inr u, s') \<Longrightarrow> s' = s"
  by (auto simp: enforce_reply_def split: option.splits if_splits dest: enforce_ok)

lemma send_contractsD:
  assumes "send_contracts E from inp0 reply parent s = (Inr inp, s')"
  shows "s' = s" "\<exists>cs. inp = inp0\<lparr>in_contracts := cs\<rparr>"
    "pins_current s (p_project from) (in_contracts inp) = None"
    "authorize_dependencies from (in_depends_on inp) s = (Inr (), s)"
    "\<forall>r. reply = Some r \<longrightarrow> is_answer inp \<longrightarrow> m_state r \<noteq> Cancelled \<and> m_state r \<noteq> Failed \<and>
       (\<forall>m \<in> set (db_messages s). m_in_reply_to m = m_id r \<longrightarrow> m_kind m \<noteq> ''answer'' \<and> m_kind m \<noteq> ''completion'')"
    "enforce_reply E inp reply s = (Inr (), s)"
proof -
  from assms obtain inp1 s1 s2 s3 s4 s5 s6 where
    1: "inherit_request_contracts E from parent inp0 s = (Inr inp1, s1)"
    and 2: "inherit_reply E from reply parent inp1 s1 = (Inr inp, s2)"
    and 3: "check_pins (p_project from) (in_contracts inp) s2 = (Inr (), s3)"
    and 4: "authorize_dependencies from (in_depends_on inp) s3 = (Inr (), s4)"
    and 5: "reply_answerable inp reply s4 = (Inr (), s5)"
    and 6: "enforce_reply E inp reply s5 = (Inr (), s6)"
    and 7: "reply_unanswered inp reply s6 = (Inr (), s')"
    unfolding send_contracts_def by (auto simp: tbind_eq_Inr)
  from inherit_ok [OF 1] obtain cs1 where e1: "s1 = s" "inp1 = inp0\<lparr>in_contracts := cs1\<rparr>" by auto
  from inherit_reply_ok [OF 2] obtain cs2 where e2: "s2 = s1" "inp = inp1\<lparr>in_contracts := cs2\<rparr>" by auto
  note e3 = reads_state [OF reads_check_pins 3] and e4 = reads_state [OF reads_authorize 4]
    and e5 = reads_state [OF reads_answerable 5] and e6 = enforce_reply_ok [OF 6]
    and e7 = reads_state [OF reads_unanswered 7]
  show "s' = s" using e1 e2 e3 e4 e5 e6 e7 by simp
  show "\<exists>cs. inp = inp0\<lparr>in_contracts := cs\<rparr>" using e1 e2 by auto
  show "enforce_reply E inp reply s = (Inr (), s)" using 6 e1 e2 e3 e4 e5 e6 by simp
  show "pins_current s (p_project from) (in_contracts inp) = None"
    using 3 e1 e2 by (auto simp: check_pins_def tx_simps split: option.splits)
  show "authorize_dependencies from (in_depends_on inp) s = (Inr (), s)" using 4 e1 e2 e3 e4 by simp
  show "\<forall>r. reply = Some r \<longrightarrow> is_answer inp \<longrightarrow> m_state r \<noteq> Cancelled \<and> m_state r \<noteq> Failed \<and>
       (\<forall>m \<in> set (db_messages s). m_in_reply_to m = m_id r \<longrightarrow> m_kind m \<noteq> ''answer'' \<and> m_kind m \<noteq> ''completion'')"
    using 5 7 e1 e2 e3 e4 e5 e6
    by (auto simp: reply_answerable_def reply_unanswered_def tbind_eq_Inr list_ex_iff)
qed

lemma core_send_contracts:
  assumes reply: "\<And>r. reply = Some r \<Longrightarrow> find_message (m_id r) s = Some r"
  shows "moves core_step (send_contracts E from inp reply parent) s"
  unfolding send_contracts_def
proof (rule moves_tbind [OF preorder_core core_inherit])
  fix inp1 s1 assume "inherit_request_contracts E from parent inp s = (Inr inp1, s1)"
  then have s1: "s1 = s" by (simp add: inherit_ok)
  show "moves core_step (tbind (inherit_reply E from reply parent inp1) (\<lambda>inp.
     tbind (check_pins (p_project from) (in_contracts inp)) (\<lambda>_.
     tbind (authorize_dependencies from (in_depends_on inp)) (\<lambda>_.
     tbind (reply_answerable inp reply) (\<lambda>_. tbind (enforce_reply E inp reply) (\<lambda>_.
     tbind (reply_unanswered inp reply) (\<lambda>_. tret inp)))))) ) s1"
    unfolding s1
  proof (rule moves_tbind [OF preorder_core])
    show "moves core_step (inherit_reply E from reply parent inp1) s"
      unfolding inherit_reply_def by (intro core core_inherit)
    fix i s2 assume "inherit_reply E from reply parent inp1 s = (Inr i, s2)"
    then have s2: "s2 = s" by (simp add: inherit_reply_ok)
    have enf: "moves core_step (enforce_reply E i reply) s"
      unfolding enforce_reply_def using reply
      by (intro core core_enforce) (auto simp: open_reply_def open_message_def)
    show "moves core_step (tbind (check_pins (p_project from) (in_contracts i)) (\<lambda>_.
       tbind (authorize_dependencies from (in_depends_on i)) (\<lambda>_.
       tbind (reply_answerable i reply) (\<lambda>_. tbind (enforce_reply E i reply) (\<lambda>_.
       tbind (reply_unanswered i reply) (\<lambda>_. tret i))))) ) s2"
      unfolding s2
      by (intro moves_read_bind [OF reads_check_pins preorder_core] moves_read_bind [OF reads_authorize preorder_core]
          moves_read_bind [OF reads_answerable preorder_core] core_bind enf
          core_read [OF reads_unanswered] core_read [OF reads_tret])
  qed
qed

subsection \<open>Accounting and admission\<close>

lemma same_core_usage: "same_core s (s\<lparr>db_usage := us\<rparr>)"
  by (simp add: same_core_def event_journal_def escalation_journal_def contract_tables_def)

lemma usage_ok_put: "usage_ok (db_usage s) ss \<Longrightarrow> usage_ok (db_usage (put_usage u s)) ss"
  by (auto simp: usage_ok_def put_usage_def find_usage_def find_None_iff usage_at_def)

lemma same_core_refl [simp]: "same_core s s"
  by (simp add: same_core_def)

lemma same_core_put_usage: "same_core s (put_usage u s)"
  by (simp add: put_usage_def same_core_usage)

lemma put_usage_samples [simp]: "db_samples (put_usage u s) = db_samples s" "db_leases (put_usage u s) = db_leases s"
  by (simp_all add: put_usage_def)

lemma core_ensure_usage [core]: "moves core_step (ensure_usage project scope task own lim) s"
  unfolding ensure_usage_def moves_tmod
  by (intro core_same same_core_put_usage) (simp_all add: usage_ok_put)

lemma same_core_set_limits: "same_core s (set_limits project scope lim s)"
  by (simp add: set_limits_def same_core_usage)

lemma usage_ok_update:
  assumes "\<And>u. u_project (f u) = u_project u \<and> u_scope (f u) = u_scope u"
  shows "usage_ok (update_rows P f us) ss = usage_ok us ss"
  using assms by (simp add: usage_ok_def map_update_rows)

lemma core_set_limits [core]: "moves core_step (tmod (set_limits project scope lim)) s"
  unfolding moves_tmod
  by (intro core_same same_core_set_limits) (simp_all add: set_limits_def usage_ok_update)

lemma core_send_account: "moves core_step (send_account E c from inp parent) s"
  unfolding send_account_def by (intro core)

text \<open>Accounting touches nothing else.\<close>

lemma moves_same_core_bind:
  "moves same_core m s \<Longrightarrow> (\<And>a s'. moves same_core (f a) s') \<Longrightarrow> moves same_core (tbind m f) s"
  by (rule moves_tbind [OF preorder_same_core])

lemma moves_same_core_read: "reads m \<Longrightarrow> moves same_core m s"
  by (rule moves_reads [OF preorder_same_core])

lemma same_core_account: "moves same_core (send_account E c from inp parent) s"
proof -
  have 1: "moves same_core (ensure_usage project scope task own lim) s" for project scope task own lim s
    unfolding ensure_usage_def moves_tmod by (rule same_core_put_usage)
  have 2: "moves same_core (tmod (set_limits project scope lim)) s" for project scope lim s
    unfolding moves_tmod by (rule same_core_set_limits)
  show ?thesis
    unfolding send_account_def
    by (intro moves_same_core_bind moves_cases 1 2 moves_same_core_read [OF reads_tguard]
        moves_same_core_read [OF reads_tlook] moves_same_core_read [OF reads_tret])
qed

lemma same_coreD:
  assumes "same_core s s'"
  shows "db_messages s' = db_messages s" "db_peers s' = db_peers s" "db_events s' = db_events s"
    "contract_tables s' = contract_tables s"
  using assms by (simp_all add: same_core_def event_journal_def)

lemma check_admissionD:
  "check_admission E from to inp parent depth reply s = (Inr u, s') \<Longrightarrow> s' = s \<and>
     (open_reply inp reply \<or> admission_reason from to inp parent depth s = Inr None)"
  by (auto simp: check_admission_def tbind_eq_Inr split: if_splits option.splits prod.splits)
    (metis not_Some_eq surj_pair)

lemma core_check_admission: "moves core_step (check_admission E from to inp parent depth reply) s"
  unfolding check_admission_def by (intro core)

text \<open>A request that is admitted is within every limit.\<close>

lemma admission_request:
  assumes "admission_reason from to inp parent depth s = Inr None" and "in_kind inp = ''request''"
  shows "depth \<le> max_request_depth" "ancestry_reason s (p_project from) (p_id to) [] 64 parent = Inr None"
    "length (filter (\<lambda>m. m_project m = p_project from \<and> m_conversation m = in_conversation inp
        \<and> m_kind m = ''request'') (db_messages s)) < max_conversation_requests"
  using assms by (auto simp: admission_reason_def Let_def split: if_splits sum.splits option.splits)

lemma admission_queue:
  assumes "admission_reason from to inp parent depth s = Inr None"
  shows "length (filter (\<lambda>m. m_project m = p_project from \<and> active m \<and> m_to m = p_id to) (db_messages s)) < max_peer_queue"
    "length (filter (\<lambda>m. m_project m = p_project from \<and> active m) (db_messages s)) < max_project_queue"
  using assms by (auto simp: admission_reason_def Let_def split: if_splits sum.splits option.splits)

text \<open>An admitted request never goes back to a peer of its causal chain.\<close>

inductive ancestor :: "db \<Rightarrow> string \<Rightarrow> string \<Rightarrow> message \<Rightarrow> bool" for s project i where
  ancestor_parent: "i \<noteq> '''' \<Longrightarrow> prerequisite s project i = Some m \<Longrightarrow> ancestor s project i m"
| ancestor_step: "ancestor s project i m \<Longrightarrow> m_parent m \<noteq> '''' \<Longrightarrow> prerequisite s project (m_parent m) = Some m' \<Longrightarrow>
     ancestor s project i m'"

lemma ancestor_nonempty: "ancestor s project i m \<Longrightarrow> i \<noteq> ''''"
  by (induction rule: ancestor.induct) auto

lemma ancestor_Cons:
  assumes "ancestor s project i m" and "prerequisite s project i = Some x"
  shows "m = x \<or> (m_parent x \<noteq> '''' \<and> ancestor s project (m_parent x) m)"
  using assms(1)
proof induction
  case (ancestor_step m m')
  then show ?case by (auto intro: ancestor.intros)
qed (use assms(2) in auto)

lemma ancestry_no_cycle:
  "ancestry_reason s project to seen n i = Inr None \<Longrightarrow> ancestor s project i m \<Longrightarrow> to \<noteq> m_from m \<and> to \<noteq> m_to m"
proof (induction s project to seen n i rule: ancestry_reason.induct)
  case (1 s project to seen current)
  with ancestor_nonempty show ?case by fastforce
next
  case (2 s project to seen n current)
  note ne = ancestor_nonempty [OF "2.prems"(2)]
  with "2.prems"(1) obtain x where x: "current \<notin> set seen" "prerequisite s project current = Some x"
    "\<not> (to = m_from x \<or> to = m_to x)" "ancestry_reason s project to (current # seen) n (m_parent x) = Inr None"
    by (auto split: if_splits option.splits)
  from ancestor_Cons [OF "2.prems"(2) x(2)] show ?case
  proof
    assume "m_parent x \<noteq> '''' \<and> ancestor s project (m_parent x) m"
    with "2.IH" [OF ne x(1,2,3,4)] show ?thesis by simp
  qed (use x in simp)
qed

subsection \<open>Inserting the message\<close>

text \<open>What makes a new message fit the invariant.\<close>

definition fits :: "db \<Rightarrow> message \<Rightarrow> bool" where
  "fits s m \<longleftrightarrow> m_state m = Accepted \<and> m_revision m = 1 \<and> m_attempts m = 0 \<and>
     0 \<le> m_depth m \<and> m_depth m \<le> max_request_depth \<and>
     is_peer (db_peers s) (m_project m) (m_from m) \<and> is_peer (db_peers s) (m_project m) (m_to m) \<and>
     m_from m \<noteq> m_to m \<and> (\<forall>x \<in> set (db_messages s). \<not> (m_from x = m_from m \<and> m_key x = m_key m)) \<and>
     (\<forall>d \<in> set (m_depends_on m). (m_project m, d) \<in> set (id_list (db_messages s))) \<and>
     (m_parent m \<noteq> '''' \<longrightarrow> (m_project m, m_parent m) \<in> set (id_list (db_messages s)))"

lemma earlier_append: "earlier ids i p d \<Longrightarrow> earlier (ids @ xs) i p d"
  by (fastforce simp: earlier_def nth_append)

lemma earlier_end: "(p, d) \<in> set ids \<Longrightarrow> i = length ids \<Longrightarrow> earlier (ids @ xs) i p d"
  by (auto simp: earlier_def in_set_conv_nth nth_append)

lemma order_append:
  assumes "order_ok ms" and "\<forall>d \<in> set (m_depends_on m). (m_project m, d) \<in> set (id_list ms)"
    and "m_parent m \<noteq> '''' \<longrightarrow> (m_project m, m_parent m) \<in> set (id_list ms)"
  shows "order_ok (ms @ [m])"
  unfolding order_ok_def
proof (intro allI impI)
  fix i assume i: "i < length (ms @ [m])"
  have ids: "id_list (ms @ [m]) = id_list ms @ [(m_project m, m_id m)]" by (simp add: id_list_def)
  have len: "length (id_list ms) = length ms" by (simp add: id_list_def)
  show "(\<forall>d \<in> set (m_depends_on ((ms @ [m]) ! i)). earlier (id_list (ms @ [m])) i (m_project ((ms @ [m]) ! i)) d) \<and>
     (m_parent ((ms @ [m]) ! i) \<noteq> '''' \<longrightarrow>
        earlier (id_list (ms @ [m])) i (m_project ((ms @ [m]) ! i)) (m_parent ((ms @ [m]) ! i)))"
  proof (cases "i < length ms")
    case True
    with assms(1) show ?thesis unfolding ids by (auto simp: order_ok_def nth_append intro!: earlier_append)
  next
    case False
    with i have "i = length (id_list ms)" "(ms @ [m]) ! i = m" by (simp_all add: len nth_append less_Suc_eq)
    with assms(2,3) show ?thesis unfolding ids by (auto intro!: earlier_end)
  qed
qed

lemma started_append: "started_ok ms \<Longrightarrow> m_state m \<noteq> Started \<Longrightarrow> started_ok (ms @ [m])"
  unfolding started_ok_def by (simp only: set_append list.set ball_Un) blast

lemma core_insert_message:
  assumes "fits s m" and "find_message (m_id m) s = None"
  shows "core_step s (s\<lparr>db_messages := db_messages s @ [m]\<rparr>)"
  unfolding core_step_def
proof (intro impI)
  assume inv: "db_inv s"
  note F = assms(1) [unfolded fits_def]
  have new: "m_id m \<notin> m_id ` set (db_messages s)"
    using assms(2) by (auto simp: find_message_def find_None_iff)
  have "ids_ok (db_messages s @ [m])" using db_invD(3) [OF inv] new by (simp add: ids_ok_def)
  moreover have "keys_ok (db_messages s @ [m])" using db_invD(4) [OF inv] F by (auto simp: keys_ok_def)
  moreover have "fk_ok (db_peers s) (db_messages s @ [m])" using db_invD(5) [OF inv] F by (simp add: fk_ok_def)
  moreover have "numbers_ok (db_messages s @ [m])"
    using db_invD(6) [OF inv] F by (simp add: numbers_ok_def max_execution_attempts_def)
  moreover have "started_ok (db_messages s @ [m])"
    using F by (intro started_append [OF db_invD(7) [OF inv]]) simp
  moreover have "order_ok (db_messages s @ [m])" using F by (intro order_append [OF db_invD(8) [OF inv]]) simp_all
  moreover have "events_ok (db_messages s @ [m]) (db_events s)"
    using db_invD(9) [OF inv] by (auto simp: events_ok_def)
  ultimately have "db_inv (s\<lparr>db_messages := db_messages s @ [m]\<rparr>)"
    using db_invD [OF inv] by (simp add: db_inv_def messages_ok_def event_journal_def escalation_journal_def)
  then show "db_inv (s\<lparr>db_messages := db_messages s @ [m]\<rparr>) \<and> evolves s (s\<lparr>db_messages := db_messages s @ [m]\<rparr>) \<and>
    contract_tables (s\<lparr>db_messages := db_messages s @ [m]\<rparr>) = contract_tables s"
    by (simp add: evolves_def rows_le_append rows_le_refl contract_tables_def)
qed

lemma core_send_complete:
  assumes "\<And>r. reply = Some r \<Longrightarrow> find_message (m_id r) s = Some r"
  shows "moves core_step (send_complete E m answers reply) s"
proof -
  have "open_message s (m_id r)" if "reply = Some r" "answers \<and> \<not> terminal (m_state r)" for r
    using assms [OF that(1)] that(2) by (simp add: open_message_def)
  then show ?thesis
    unfolding send_complete_def by (intro moves_cases core_mark_one core_read [OF reads_tret]) simp_all
qed

lemma core_send_store:
  assumes "fits s m" and reply: "\<And>r. reply = Some r \<Longrightarrow> find_message (m_id r) s = Some r"
  shows "moves core_step (send_store E m answers reply) s"
  unfolding send_store_def
proof (intro moves_read_bind [OF reads_tget preorder_core] moves_read_bind [OF reads_tguard preorder_core])
  fix dup a assume "tget (find_message (m_id m)) s = (Inr dup, s)"
    and "tguard (dup = None) (SqlConstraint ''coordination_messages'') s = (Inr a, s)"
  then have new: "find_message (m_id m) s = None" by simp
  let ?s = "s\<lparr>db_messages := db_messages s @ [m]\<rparr>"
  have self: "find_message (m_id m) ?s = Some m"
    using new by (simp add: find_message_def find_append)
  have old: "find_message j ?s = Some x" if "find_message j s = Some x" for j x
    using that by (simp add: find_message_def find_append)
  have 1: "moves core_step (tmod (\<lambda>s. s\<lparr>db_messages := db_messages s @ [m]\<rparr>)) s"
    unfolding moves_tmod using assms(1) new by (rule core_insert_message)
  have 2: "moves core_step (append_event E m ''accepted'' EmptyObject) ?s"
    by (rule core_append_event [OF self])
  have 3: "moves core_step (send_complete E m answers reply) s2"
    if "append_event E m ''accepted'' EmptyObject ?s = (Inr u, s2)" for u s2
  proof (rule core_send_complete)
    fix r assume "reply = Some r"
    from old [OF reply [OF this]] show "find_message (m_id r) s2 = Some r"
      using find_message_cong [OF append_event_frame [OF that]] by simp
  qed
  show "moves core_step (tbind (tmod (\<lambda>s. s\<lparr>db_messages := db_messages s @ [m]\<rparr>)) (\<lambda>_.
     tbind (append_event E m ''accepted'' EmptyObject) (\<lambda>_.
     tbind (send_complete E m answers reply) (\<lambda>_. tret m)))) s"
    by (intro moves_tbind [OF preorder_core] 1 core_read [OF reads_tret]) (simp_all add: 2 3)
qed

lemma is_peer_member: "p \<in> set ps \<Longrightarrow> is_peer ps (p_project p) (p_id p)"
  by (auto simp: is_peer_def)

text \<open>What the earlier stages have established when the message is stored.\<close>

definition prepared :: "db \<Rightarrow> peer \<Rightarrow> peer \<Rightarrow> send_input \<Rightarrow> message option \<Rightarrow> string \<Rightarrow> int \<Rightarrow> bool" where
  "prepared s src dst inp reply parent depth \<longleftrightarrow>
     src \<in> set (db_peers s) \<and> dst \<in> set (db_peers s) \<and> p_project dst = p_project src \<and> p_id src \<noteq> p_id dst \<and>
     (\<forall>r. reply = Some r \<longrightarrow> find_message (m_id r) s = Some r) \<and>
     (\<forall>d \<in> set (in_depends_on inp). (p_project src, d) \<in> set (id_list (db_messages s))) \<and>
     (parent \<noteq> '''' \<longrightarrow> (p_project src, parent) \<in> set (id_list (db_messages s))) \<and>
     0 \<le> depth \<and> (in_kind inp \<noteq> ''request'' \<longrightarrow> depth \<le> max_request_depth)"

lemma prepared_same:
  "same_core s s' \<Longrightarrow> prepared s' src dst inp reply parent depth = prepared s src dst inp reply parent depth"
  by (simp add: prepared_def same_core_def find_message_def)

lemma core_send_finish:
  assumes "prepared s src dst inp reply parent depth"
  shows "moves core_step (send_finish E c src dst inp digest reply parent depth) s"
  unfolding send_finish_def
proof (rule moves_tbind [OF preorder_core core_send_account])
  fix u s1 assume "send_account E c src inp parent s = (Inr u, s1)"
  then have "same_core s s1" using same_core_account [of E c src inp parent s] by (simp add: moves_def)
  with assms have P: "prepared s1 src dst inp reply parent depth" by (simp add: prepared_same)
  show "moves core_step (tbind (check_admission E src dst inp parent depth reply) (\<lambda>_.
     tbind (tget (find_receipt (p_id src) (in_key inp))) (\<lambda>race.
     case race of Some m \<Rightarrow> stored_receipt digest m
     | None \<Rightarrow> send_store E (new_message E src dst inp digest parent depth) (is_answer inp) reply))) s1"
  proof (rule moves_tbind [OF preorder_core core_check_admission])
    fix v s2 assume adm: "check_admission E src dst inp parent depth reply s1 = (Inr v, s2)"
    then have s2: "s2 = s1" by (simp add: check_admissionD)
    have depth: "depth \<le> max_request_depth"
    proof (cases "in_kind inp = ''request''")
      case True
      then have "\<not> open_reply inp reply" by (simp add: open_reply_def is_answer_def)
      with check_admissionD [OF adm] have "admission_reason src dst inp parent depth s1 = Inr None" by simp
      then show ?thesis using True by (rule admission_request)
    qed (use P in \<open>simp add: prepared_def\<close>)
    show "moves core_step (tbind (tget (find_receipt (p_id src) (in_key inp))) (\<lambda>race.
     case race of Some m \<Rightarrow> stored_receipt digest m
     | None \<Rightarrow> send_store E (new_message E src dst inp digest parent depth) (is_answer inp) reply)) s2"
      unfolding s2
    proof (intro moves_read_bind [OF reads_tget preorder_core] moves_option)
      fix race assume race: "tget (find_receipt (p_id src) (in_key inp)) s1 = (Inr race, s1)" "race = None"
      then have key: "\<forall>x \<in> set (db_messages s1). \<not> (m_from x = p_id src \<and> m_key x = in_key inp)"
        by (simp add: find_receipt_def find_None_iff)
      have "fits s1 (new_message E src dst inp digest parent depth)"
        using P key depth is_peer_member [of src "db_peers s1"] is_peer_member [of dst "db_peers s1"]
        by (simp add: fits_def new_message_def prepared_def)
      then show "moves core_step (send_store E (new_message E src dst inp digest parent depth) (is_answer inp) reply) s1"
        using P by (intro core_send_store) (simp_all add: prepared_def)
    next
      fix m
      show "moves core_step (stored_receipt digest m) s1" unfolding stored_receipt_def by (intro core)
    qed
  qed
qed

lemma causal_find: "db_inv s \<Longrightarrow> causal s src (Some m) \<Longrightarrow> find_message (m_id m) s = Some m"
  using find_message_eq [OF db_invD(3)] by (simp add: causal_def)

lemma causal_depth: "db_inv s \<Longrightarrow> causal s src (Some m) \<Longrightarrow> 0 \<le> m_depth m \<and> m_depth m \<le> max_request_depth"
  using db_invD(6) [of s] by (simp add: causal_def numbers_ok_def)

lemma distinct_dependencies: "send_shape E inp = None \<Longrightarrow> distinct (in_depends_on inp)"
  by (auto simp: send_shape_def validate_dependencies_def dest: distinct_canonical_distinct
      split: if_splits option.splits)

text \<open>The stages before the message is stored prepare it.\<close>

lemma send_prepared:
  assumes inv: "db_inv s"
    and opened: "send_open E c i inp0 s = (Inr (src, dst), s)"
    and resolved: "send_resolve E c src dst inp0 s = (Inr (inp1, reply, parent, depth), s)"
    and contracts: "send_contracts E src inp1 reply parent s = (Inr inp, s1)"
  shows "prepared s src dst inp reply parent depth"
proof (rule send_resolveD [OF resolved])
  note O' = send_openD [OF opened] and C = send_contractsD [OF contracts]
  fix lin
  assume R: "in_depends_on inp1 = in_depends_on inp0" "in_kind inp1 = in_kind inp0"
    and reply: "causal s src reply" and lin: "causal s src lin"
    and parent: "parent = (case lin of None \<Rightarrow> '''' | Some m \<Rightarrow> m_id m)"
    and depth: "depth = (case lin of None \<Rightarrow> 0 | Some m \<Rightarrow> m_depth m) + (if in_kind inp0 = ''request'' then 1 else 0)"
  from C(2) R have inp: "in_depends_on inp = in_depends_on inp0" "in_kind inp = in_kind inp0" by auto
  have deps: "(p_project src, d) \<in> set (id_list (db_messages s))" if "d \<in> set (in_depends_on inp)" for d
  proof -
    from authorize_all [OF C(4) _ db_invD(3) [OF inv] that] distinct_dependencies [OF O'(10)] inp
    obtain m where "m \<in> set (db_messages s)" "m_id m = d" "m_project m = p_project src"
      by (auto simp: may_depend_on_def)
    then show ?thesis by (force simp: id_list_def)
  qed
  have "parent \<noteq> '''' \<longrightarrow> (p_project src, parent) \<in> set (id_list (db_messages s))"
    using lin parent by (cases lin) (force simp: causal_def id_list_def)+
  moreover have "0 \<le> depth \<and> (in_kind inp \<noteq> ''request'' \<longrightarrow> depth \<le> max_request_depth)"
    using depth lin causal_depth [OF inv] inp by (cases lin) (auto simp: max_request_depth_def)
  moreover have "\<forall>r. reply = Some r \<longrightarrow> find_message (m_id r) s = Some r"
    using reply causal_find [OF inv] by auto
  ultimately show ?thesis using O' deps by (simp add: prepared_def)
qed

lemma core_send_tx: "moves core_step (send_tx E c i inp0) s"
proof (rule core_vacuous)
  assume inv: "db_inv s"
  have receipt: "moves core_step (stored_receipt digest m) s" for digest m
    unfolding stored_receipt_def by (intro core)
  have stages: "moves core_step (tbind (send_contracts E src inp1 reply parent) (\<lambda>inp.
      send_finish E c src dst inp (send_digest E c inp0) reply parent depth)) s"
    if opened: "send_open E c i inp0 s = (Inr (src, dst), s)"
      and resolved: "send_resolve E c src dst inp0 s = (Inr (inp1, reply, parent, depth), s)"
    for src dst inp1 reply parent depth
  proof (rule moves_tbind [OF preorder_core])
    have "causal s src reply" by (rule send_resolveD [OF resolved])
    then show "moves core_step (send_contracts E src inp1 reply parent) s"
      using causal_find [OF inv] by (intro core_send_contracts) auto
    fix inp s1 assume contracts: "send_contracts E src inp1 reply parent s = (Inr inp, s1)"
    with send_prepared [OF inv opened resolved] send_contractsD(1)
    show "moves core_step (send_finish E c src dst inp (send_digest E c inp0) reply parent depth) s1"
      by (metis core_send_finish)
  qed
  show "moves core_step (send_tx E c i inp0) s"
    unfolding send_tx_def
    by (intro moves_read_bind [OF reads_send_open preorder_core] moves_prod
        moves_read_bind [OF reads_tget preorder_core] moves_option
        moves_read_bind [OF reads_send_resolve preorder_core] receipt stages) simp_all
qed

lemma core_send: "core_step s (snd (send E c i inp s))"
  unfolding send_def
  by (rule commit_peer_moves [OF preorder_core], rule moves_tbind [OF preorder_core])
    (simp add: moves_ttry core_send_tx, intro core)

end
