(* ===== verification/Coord_Lifecycle.thy ===== *)
theory Coord_Lifecycle
  imports Coord_Send_Inv
begin

text \<open>
  The life of a message: claiming and transitions (\<open>lifecycle.go\<close>), completion of a leased
  execution (\<open>execution.go\<close>), the manual ingress (\<open>external.go\<close>), the attempt limit
  (\<open>budgets.go\<close>), and the queries of a peer's correspondence (\<open>lifecycle.go\<close>, \<open>budgets.go\<close>,
  \<open>query.go\<close>).
\<close>

subsection \<open>Queries\<close>

definition live_peer :: "string \<Rightarrow> db \<Rightarrow> bool" where
  "live_peer i s \<longleftrightarrow> list_ex (\<lambda>p. p_id p = i \<and> p_enabled p) (db_peers s)"

definition participant :: "string \<Rightarrow> message \<Rightarrow> bool" where
  "participant i m \<longleftrightarrow> m_from m = i \<or> m_to m = i"

definition read_message :: "env \<Rightarrow> ctx \<Rightarrow> string \<Rightarrow> string \<Rightarrow> message dbtx" where
  "read_message E c i mid =
     tbind (check_scoped_credential (now E) c i) (\<lambda>_.
     tbind (validate_repository_peer_id E i) (\<lambda>_.
     tbind (tget (live_peer i)) (\<lambda>live.
     select_message mid (\<lambda>m. participant i m \<and> live))))"

definition inbox :: "env \<Rightarrow> ctx \<Rightarrow> string \<Rightarrow> int \<Rightarrow> message list dbtx" where
  "inbox E c i lim =
     tbind (check_scoped_credential (now E) c i) (\<lambda>_.
     tbind (validate_repository_peer_id E i) (\<lambda>_.
     tbind (tguard (1 \<le> lim \<and> lim \<le> 200) (ErrOther ''limit must be 1..200'')) (\<lambda>_.
     tget (\<lambda>s. take (nat lim) (order_by by_age (filter (\<lambda>m. m_to m = i \<and> active m \<and> live_peer i s) (db_messages s)))))))"

definition visible_event :: "string \<Rightarrow> db \<Rightarrow> event \<Rightarrow> bool" where
  "visible_event i s e \<longleftrightarrow> list_ex (\<lambda>p. p_id p = i \<and> p_enabled p \<and> p_project p = e_project e) (db_peers s) \<and>
     list_ex (\<lambda>m. m_id m = e_message e \<and> participant i m) (db_messages s)"

definition events_after :: "env \<Rightarrow> string \<Rightarrow> int \<Rightarrow> int \<Rightarrow> event list dbtx" where
  "events_after E i after lim =
     tbind (validate_repository_peer_id E i) (\<lambda>_.
     tbind (tguard (0 \<le> after \<and> 1 \<le> lim \<and> lim \<le> 1000) (ErrOther ''nonnegative cursor and limit 1..1000 required'')) (\<lambda>_.
     tget (\<lambda>s. take (nat lim) (order_by e_seq (filter (\<lambda>e. visible_event i s e \<and> after < e_seq e) (db_events s))))))"

definition message_events :: "env \<Rightarrow> ctx \<Rightarrow> string \<Rightarrow> string \<Rightarrow> int \<Rightarrow> int \<Rightarrow> event list dbtx" where
  "message_events E c i mid after lim =
     tbind (tguard (0 \<le> after \<and> 1 \<le> lim \<and> lim \<le> 1000) (ErrOther ''nonnegative revision and limit 1..1000 required'')) (\<lambda>_.
     tbind (read_message E c i mid) (\<lambda>_.
     tget (\<lambda>s. take (nat lim) (order_by e_revision (filter (\<lambda>e. e_message e = mid \<and> live_peer i s \<and>
       list_ex (\<lambda>m. m_id m = mid \<and> participant i m) (db_messages s) \<and> after < e_revision e) (db_events s))))))"

definition pending_count :: "env \<Rightarrow> string \<Rightarrow> nat dbtx" where
  "pending_count E i = tget (\<lambda>s. length (filter (\<lambda>m. m_to m = i \<and> m_state m = Accepted \<and>
     tx_now E < m_deadline m \<and> live_peer i s) (db_messages s)))"

definition read_escalations :: "env \<Rightarrow> string \<Rightarrow> int \<Rightarrow> int \<Rightarrow> escalation list dbtx" where
  "read_escalations E i after lim =
     tbind (validate_repository_peer_id E i) (\<lambda>_.
     tbind (tguard (0 \<le> after \<and> 1 \<le> lim \<and> lim \<le> 1000) (ErrOther ''nonnegative cursor and limit 1..1000 required'')) (\<lambda>_.
     tget (\<lambda>s. take (nat lim) (order_by x_seq (filter (\<lambda>x. (x_from x = i \<or> x_to x = i) \<and> after < x_seq x \<and>
       list_ex (\<lambda>p. p_id p = i \<and> p_enabled p \<and> p_project p = x_project x) (db_peers s)) (db_escalations s))))))"

definition project_peers :: "env \<Rightarrow> ctx \<Rightarrow> string \<Rightarrow> peer list dbtx" where
  "project_peers E c i =
     tbind (check_scoped_credential (now E) c i) (\<lambda>_.
     tbind (validate_repository_peer_id E i) (\<lambda>_.
     tbind (tget (\<lambda>s. order_by p_name (filter (\<lambda>p. p_enabled p \<and>
        list_ex (\<lambda>q. p_id q = i \<and> p_enabled q \<and> p_project q = p_project p) (db_peers s)) (db_peers s)))) (\<lambda>ps.
     tbind (tfor (validate_repository_peer E) ps) (\<lambda>_.
     tret ps))))"

subsection \<open>Claiming\<close>

definition block_attempt_limit :: "env \<Rightarrow> peer \<Rightarrow> message \<Rightarrow> unit dbtx" where
  "block_attempt_limit E recipient m0 =
     tbind (tlook (\<lambda>s. find (\<lambda>p. p_id p = m_from m0) (db_peers s)) ErrUnauthorized) (\<lambda>sender.
     tbind (update_state E (m_id m0) Blocked 0) (\<lambda>m.
     tbind (append_event E m ''blocked'' (AttemptLimit ''execution_attempt_limit'' max_execution_attempts)) (\<lambda>_.
     append_escalation E (p_project sender) (p_id sender) (p_id recipient) (m_id m) (m_conversation m) ''execution_attempt_limit'')))"

definition expired_work :: "env \<Rightarrow> string \<Rightarrow> db \<Rightarrow> message list" where
  "expired_work E i s = take 100 (order_by by_age (filter (\<lambda>m. m_to m = i \<and> m_state m = Accepted \<and>
     m_deadline m \<le> now E) (db_messages s)))"

definition start_message :: "env \<Rightarrow> message \<Rightarrow> message dbtx" where
  "start_message E m0 =
     tbind (update_state E (m_id m0) Started 1) (\<lambda>m.
     tbind (append_event E m ''started'' EmptyObject) (\<lambda>_.
     tret m))"

definition start_claimed :: "env \<Rightarrow> peer \<Rightarrow> message \<Rightarrow> (err + message) dbtx" where
  "start_claimed E p m =
     (if m_attempts m \<ge> max_execution_attempts
      then tbind (block_attempt_limit E p m) (\<lambda>_. tret (Inl ErrRequestBudget))
      else tbind (start_message E m) (\<lambda>m'. tret (Inr m')))"

definition claim_select :: "env \<Rightarrow> peer \<Rightarrow> (err + message) dbtx" where
  "claim_select E p =
     tbind (tget (expired_work E (p_id p))) (\<lambda>expired.
     tbind (mark_all E Failed ''failed'' (ReasonOnly ''deadline_elapsed_before_start'') expired) (\<lambda>_.
     tbind (fail_dependencies E p) (\<lambda>failed.
     tbind (claim_contract_ready E p) (\<lambda>(r, failed_contracts).
     case r of
       Inl e \<Rightarrow> if e = ErrNotFound \<and> (expired \<noteq> [] \<or> failed > 0 \<or> failed_contracts > 0)
                then tret (Inl e) else tfail e
     | Inr m \<Rightarrow> start_claimed E p m))))"

definition busy_peer :: "string \<Rightarrow> db \<Rightarrow> bool" where
  "busy_peer i s \<longleftrightarrow> list_ex (\<lambda>m. m_to m = i \<and> (m_state m = Started \<or> m_state m = Blocked)) (db_messages s)"

definition claim_open :: "env \<Rightarrow> ctx \<Rightarrow> string \<Rightarrow> string \<Rightarrow> bool \<Rightarrow> peer dbtx" where
  "claim_open E c i owner external =
     tbind (lock_admission i) (\<lambda>_.
     tbind (lock_peer E i) (\<lambda>p.
     tbind (check_scoped_credential (now E) c i) (\<lambda>_.
     tbind (if external then reject_external_worker_lease i else tret ()) (\<lambda>_.
     tbind (if owner \<noteq> '''' then check_lease E i owner else tret ()) (\<lambda>_.
     tret p)))))"

definition claim :: "env \<Rightarrow> ctx \<Rightarrow> string \<Rightarrow> string \<Rightarrow> bool \<Rightarrow> db \<Rightarrow> (err + message) \<times> db" where
  "claim E c i owner external = commit_peer_transaction E c i (
     tbind (claim_open E c i owner external) (\<lambda>p.
     tbind (tget (busy_peer i)) (\<lambda>busy.
     tbind (tguard (\<not> busy) ErrBusy) (\<lambda>_.
     claim_select E p))))"

definition claim_lease :: "env \<Rightarrow> ctx \<Rightarrow> lease \<Rightarrow> db \<Rightarrow> (err + message) \<times> db" where
  "claim_lease E c l s =
     (case fst (validate_lease E l s) of
        Inl e \<Rightarrow> (Inl e, s)
      | Inr _ \<Rightarrow> claim E c (ls_peer l) (ls_owner l) False s)"

subsection \<open>Transitions\<close>

definition next_state :: "string \<Rightarrow> message \<Rightarrow> string \<Rightarrow> err + msg_state" where
  "next_state i m ev =
    (if ev = ''cancelled'' then Inr Cancelled
     else if i \<noteq> m_to m then Inl ErrUnauthorized
     else if ev = ''started'' then
       (if m_state m \<noteq> Blocked then Inl (ErrOther ''only a blocked message can resume'') else Inr Started)
     else if ev = ''progress'' \<or> ev = ''contract_changed'' then
       (if m_state m \<noteq> Started then Inl (ErrOther ''progress requires started state'') else Inr (m_state m))
     else if ev = ''blocked'' then
       (if m_state m \<noteq> Started then Inl (ErrOther ''only started work can block'') else Inr Blocked)
     else if ev = ''completed'' \<or> ev = ''failed'' then
       (if m_state m \<noteq> Started \<and> m_state m \<noteq> Blocked then Inl (ErrOther ''result requires claimed work'')
        else Inr (if ev = ''completed'' then Completed else Failed))
     else Inl (ErrOther ''unsupported transition''))"

definition bounded_payload :: "string \<Rightarrow> bool" where
  "bounded_payload p \<longleftrightarrow> p \<noteq> [] \<and> length p \<le> 65536 \<and> json_valid p"

definition transition_open ::
    "env \<Rightarrow> ctx \<Rightarrow> string \<Rightarrow> string \<Rightarrow> int \<Rightarrow> string \<Rightarrow> string \<Rightarrow> string \<Rightarrow> bool \<Rightarrow> (peer \<times> message \<times> msg_state) dbtx" where
  "transition_open E c i mid expected ev payload owner external =
     tbind (tguard (1 \<le> expected \<and> bounded_payload payload) (ErrOther ''revision and bounded JSON payload are required'')) (\<lambda>_.
     tbind (lock_admission i) (\<lambda>_.
     tbind (lock_peer E i) (\<lambda>p.
     tbind (check_scoped_credential (now E) c i) (\<lambda>_.
     tbind (if external \<and> ev \<noteq> ''cancelled'' then reject_external_worker_lease i else tret ()) (\<lambda>_.
     tbind (if owner \<noteq> '''' then check_lease E i owner else tret ()) (\<lambda>_.
     tbind (select_message mid (\<lambda>m. m_project m = p_project p \<and> participant (p_id p) m)) (\<lambda>m.
     tbind (tguard (m_revision m = expected) ErrConflict) (\<lambda>_.
     tbind (tguard (\<not> terminal (m_state m)) (ErrOther ''message is already terminal'')) (\<lambda>_.
     tbind (tlift (next_state (p_id p) m ev)) (\<lambda>next.
     tret (p, m, next)))))))))))"

definition apply_transition ::
    "env \<Rightarrow> message \<Rightarrow> msg_state \<Rightarrow> string \<Rightarrow> string \<Rightarrow> (err + message) dbtx" where
  "apply_transition E m0 next ev payload =
     tbind (ttry (if ev = ''started'' \<or> ev = ''completed'' then enforce_request_contracts E m0 else tret ())) (\<lambda>r.
     case r of
       Inl e \<Rightarrow> if errors_is e ErrRequestContracts then tret (Inl e) else tfail e
     | Inr _ \<Rightarrow>
         tbind (update_state E (m_id m0) next (if ev = ''started'' then 1 else 0)) (\<lambda>m.
         tbind (append_event E m ev (Raw payload)) (\<lambda>_.
         tret (Inr m))))"

definition transition ::
    "env \<Rightarrow> ctx \<Rightarrow> string \<Rightarrow> string \<Rightarrow> int \<Rightarrow> string \<Rightarrow> string \<Rightarrow> string \<Rightarrow> bool \<Rightarrow> db \<Rightarrow> (err + message) \<times> db" where
  "transition E c i mid expected ev payload owner external = commit_peer_transaction E c i (
     tbind (transition_open E c i mid expected ev payload owner external) (\<lambda>(p, m, next).
     tbind (tget (\<lambda>s. list_ex (\<lambda>x. m_to x = i \<and> m_state x = Started \<and> m_id x \<noteq> mid) (db_messages s))) (\<lambda>busy.
     tbind (tguard (\<not> (ev = ''started'' \<and> busy)) ErrBusy) (\<lambda>_.
     if ev = ''started'' \<and> m_attempts m \<ge> max_execution_attempts
     then tbind (block_attempt_limit E p m) (\<lambda>_. tret (Inl ErrRequestBudget))
     else apply_transition E m next ev payload))))"

definition worker_transition ::
    "env \<Rightarrow> ctx \<Rightarrow> lease \<Rightarrow> string \<Rightarrow> int \<Rightarrow> string \<Rightarrow> string \<Rightarrow> db \<Rightarrow> (err + message) \<times> db" where
  "worker_transition E c l mid expected ev payload s =
     (case fst (validate_lease E l s) of
        Inl e \<Rightarrow> (Inl e, s)
      | Inr _ \<Rightarrow> transition E c (ls_peer l) mid expected ev payload (ls_owner l) False s)"

subsection \<open>Completion and reply\<close>

definition answer_input :: "string \<Rightarrow> message \<Rightarrow> string \<Rightarrow> string \<Rightarrow> send_input" where
  "answer_input name m payload key =
     \<lparr>in_contracts = [], in_depends_on = [], in_to = name, in_kind = ''answer'',
      in_conversation = m_conversation m, in_task = m_task m, in_reply_to = m_id m,
      in_payload = payload, in_deadline = None, in_key = key\<rparr>"

definition finish_message :: "env \<Rightarrow> message \<Rightarrow> string \<Rightarrow> message dbtx" where
  "finish_message E m0 payload =
     tbind (update_state E (m_id m0) Completed 0) (\<lambda>m.
     tbind (append_event E m ''completed'' (Raw payload)) (\<lambda>_.
     tret m))"

definition complete_open :: "env \<Rightarrow> lease \<Rightarrow> string \<Rightarrow> string \<Rightarrow> message dbtx" where
  "complete_open E l mid payload =
     tbind (validate_lease E l) (\<lambda>_.
     tbind (tguard (bounded_payload payload) (ErrOther ''bounded JSON result required'')) (\<lambda>_.
     tbind (lock_admission (ls_peer l)) (\<lambda>_.
     tbind (enabled_peer E (ls_peer l)) (\<lambda>_.
     tbind (check_lease E (ls_peer l) (ls_owner l)) (\<lambda>_.
     tbind (tlook (\<lambda>s. map_option m_from (find (\<lambda>m. m_id m = mid \<and> m_to m = ls_peer l) (db_messages s))) SqlNoRows) (\<lambda>sender.
     tbind (enabled_peer E sender) (\<lambda>_.
     select_message mid (\<lambda>m. m_to m = ls_peer l))))))))"

definition complete_started :: "env \<Rightarrow> ctx \<Rightarrow> lease \<Rightarrow> message \<Rightarrow> string \<Rightarrow> (err + message) dbtx" where
  "complete_started E c l m payload =
     tbind (ttry (enforce_request_contracts E m)) (\<lambda>r.
     case r of
       Inl e \<Rightarrow> if errors_is e ErrRequestContracts then tret (Inl e) else tfail e
     | Inr _ \<Rightarrow>
         if m_kind m = ''request'' then
           tbind (tlook (\<lambda>s. map_option p_name (find (\<lambda>p. p_id p = m_from m \<and> p_project p = m_project m \<and> p_enabled p) (db_peers s))) SqlNoRows) (\<lambda>name.
           tbind (send_tx E c (ls_peer l) (answer_input name m payload (''worker-answer:'' @ m_id m))) (\<lambda>_.
           tbind (tlook (find_message (m_id m)) ErrNotFound) (\<lambda>m'.
           tret (Inr m'))))
         else tbind (finish_message E m payload) (\<lambda>m'. tret (Inr m')))"

definition complete_lease :: "env \<Rightarrow> ctx \<Rightarrow> lease \<Rightarrow> string \<Rightarrow> string \<Rightarrow> db \<Rightarrow> (err + message) \<times> db" where
  "complete_lease E c l mid payload = commit_tx (
     tbind (complete_open E l mid payload) (\<lambda>m.
     if m_state m = Completed then tret (Inr m)
     else tbind (tguard (m_state m = Started) (ErrOther ''cannot finish work'')) (\<lambda>_.
          complete_started E c l m payload)))"

definition reply_message :: "env \<Rightarrow> ctx \<Rightarrow> string \<Rightarrow> string \<Rightarrow> string \<Rightarrow> string \<Rightarrow> db \<Rightarrow> (err + message) \<times> db" where
  "reply_message E c i mid payload key s =
     (case fst (read_message E c i mid s) of
        Inl e \<Rightarrow> (Inl e, s)
      | Inr orig \<Rightarrow>
          if m_to orig \<noteq> i then (Inl ErrUnauthorized, s)
          else (case fst (project_peers E c i s) of
             Inl e \<Rightarrow> (Inl e, s)
           | Inr ps \<Rightarrow>
               (case find (\<lambda>p. p_id p = m_from orig) ps of
                  None \<Rightarrow> (Inl ErrUnauthorized, s)
                | Some p \<Rightarrow> send E c i (answer_input (p_name p) orig payload key) s)))"

end
