(* ===== verification/Coord_Lifecycle_Inv.thy ===== *)
theory Coord_Lifecycle_Inv
  imports Coord_Lifecycle
begin

text \<open>
  Claims, transitions and completions keep the invariant: the recipient of a started message
  has no other started message because every path that starts one has checked it in the same
  transaction and no step in between starts anything (\<open>no_new_started\<close>).
\<close>

subsection \<open>Reads\<close>

lemma reads_read_message [reader]: "reads (read_message E c i mid)"
  unfolding read_message_def by (intro reader)

lemma reads_claim_open [reader]: "reads (claim_open E c i owner external)"
  unfolding claim_open_def by (intro reader)

lemma reads_transition_open [reader]: "reads (transition_open E c i mid expected ev payload owner external)"
  unfolding transition_open_def by (intro reader)

lemma reads_complete_open [reader]: "reads (complete_open E l mid payload)"
  unfolding complete_open_def by (intro reader)

lemma reads_validate_lease_run: "snd (validate_lease E l s) = s"
  using reads_validate_lease by (simp add: reads_def)

lemma claim_openD:
  assumes "claim_open E c i owner external s = (Inr p, s')"
  shows "s' = s" "p \<in> set (db_peers s)" "p_id p = i" "p_enabled p"
    "owner \<noteq> '''' \<Longrightarrow> \<exists>l \<in> set (db_leases s). l_peer l = i \<and> l_owner l = owner \<and> now E < l_expires l"
    "external \<Longrightarrow> \<forall>l \<in> set (db_leases s). l_peer l \<noteq> i"
proof -
  show "s' = s" using assms by (rule reads_state [OF reads_claim_open])
  define ext where "ext = (if external then reject_external_worker_lease i else tret ())"
  define own where "own = (if owner \<noteq> '''' then check_lease E i owner else tret ())"
  from assms obtain s1 s2 s3 s4 where 1: "lock_admission i s = (Inr (), s1)" and 2: "lock_peer E i s1 = (Inr p, s2)"
    and 3: "check_scoped_credential (now E) c i s2 = (Inr (), s3)" and 4: "ext s3 = (Inr (), s4)"
    and 5: "own s4 = (Inr (), s')"
    unfolding claim_open_def ext_def [symmetric] own_def [symmetric] by (clarsimp simp: tbind_eq_Inr)
  have ext: "reads ext" unfolding ext_def by (intro reader)
  have e: "s1 = s" "s2 = s" "s3 = s" "s4 = s"
    using reads_state [OF reads_lock_admission 1] reads_state [OF reads_lock_peer 2]
      reads_state [OF reads_check_scoped 3] reads_state [OF ext 4] by simp_all
  from lock_peerD [OF 2] e show "p \<in> set (db_peers s)" "p_id p = i" "p_enabled p" by simp_all
  show "\<exists>l \<in> set (db_leases s). l_peer l = i \<and> l_owner l = owner \<and> now E < l_expires l" if "owner \<noteq> ''''"
    using 5 that e by (auto simp: own_def dest: check_leaseD)
  show "\<forall>l \<in> set (db_leases s). l_peer l \<noteq> i" if external
    using 4 that e by (auto simp: ext_def reject_external_worker_lease_def tbind_eq_Inr list_ex_iff)
qed

lemma transition_openD:
  assumes "transition_open E c i mid expected ev payload owner external s = (Inr (p, m, next), s')"
  shows "s' = s" "p \<in> set (db_peers s)" "p_id p = i" "m \<in> set (db_messages s)" "m_id m = mid"
    "m_project m = p_project p" "participant i m" "m_revision m = expected" "\<not> terminal (m_state m)"
    "next_state i m ev = Inr next" "bounded_payload payload"
    "owner \<noteq> '''' \<Longrightarrow> \<exists>l \<in> set (db_leases s). l_peer l = i \<and> l_owner l = owner \<and> now E < l_expires l"
proof -
  show s': "s' = s" using assms by (rule reads_state [OF reads_transition_open])
  define ext where "ext = (if external \<and> ev \<noteq> ''cancelled'' then reject_external_worker_lease i else tret ())"
  define own where "own = (if owner \<noteq> '''' then check_lease E i owner else tret ())"
  from assms obtain s1 s2 s3 s4 s5 where 1: "lock_admission i s = (Inr (), s1)" and 2: "lock_peer E i s1 = (Inr p, s2)"
    and 3: "check_scoped_credential (now E) c i s2 = (Inr (), s3)" and 4: "ext s3 = (Inr (), s4)"
    and 5: "own s4 = (Inr (), s5)"
    and 6: "select_message mid (\<lambda>m. m_project m = p_project p \<and> participant (p_id p) m) s5 = (Inr m, s')"
    and 7: "m_revision m = expected" "\<not> terminal (m_state m)" "next_state (p_id p) m ev = Inr next" "bounded_payload payload"
    unfolding transition_open_def ext_def [symmetric] own_def [symmetric] by (clarsimp simp: tbind_eq_Inr)
  have ext: "reads ext" unfolding ext_def by (intro reader)
  have e: "s1 = s" "s2 = s" "s3 = s" "s4 = s"
    using reads_state [OF reads_lock_admission 1] reads_state [OF reads_lock_peer 2]
      reads_state [OF reads_check_scoped 3] reads_state [OF ext 4] by simp_all
  from lock_peerD [OF 2] e show "p \<in> set (db_peers s)" and pi: "p_id p = i" by simp_all
  from select_messageD [OF 6] s' pi 7
  show "m \<in> set (db_messages s)" "m_id m = mid" "m_project m = p_project p" "participant i m"
    "m_revision m = expected" "\<not> terminal (m_state m)" "next_state i m ev = Inr next" "bounded_payload payload"
    by simp_all
  show "\<exists>l \<in> set (db_leases s). l_peer l = i \<and> l_owner l = owner \<and> now E < l_expires l" if "owner \<noteq> ''''"
    using 5 that e by (auto simp: own_def dest: check_leaseD)
qed

subsection \<open>Starting and blocking\<close>

definition no_other_started :: "db \<Rightarrow> string \<Rightarrow> string \<Rightarrow> bool" where
  "no_other_started s to i \<longleftrightarrow> (\<forall>x \<in> set (db_messages s). m_state x = Started \<longrightarrow> m_to x = to \<longrightarrow> m_id x = i)"

lemma may_start:
  assumes "find_message (m_id m) s = Some m" and "\<not> terminal (m_state m)"
    and "m_attempts m < max_execution_attempts" and "no_other_started s (m_to m) (m_id m)"
  shows "may_change Started 1 (m_id m) s"
  using assms by (simp add: may_change_def no_other_started_def)

lemma core_start_message:
  assumes "may_change Started 1 (m_id m) s"
  shows "moves core_step (start_message E m) s"
  unfolding start_message_def by (intro core_update_event assms core_read [OF reads_tret])

lemma core_block_attempt_limit:
  "open_message s (m_id m) \<Longrightarrow> moves core_step (block_attempt_limit E p m) s"
  unfolding block_attempt_limit_def
  by (intro moves_read_bind [OF reads_tlook preorder_core] core_report) simp_all

lemma core_start_claimed:
  assumes "find_message (m_id m) s = Some m" and "\<not> terminal (m_state m)"
    and "no_other_started s (m_to m) (m_id m)"
  shows "moves core_step (start_claimed E p m) s"
proof -
  have "open_message s (m_id m)" using assms by (simp add: open_message_def)
  then show ?thesis
    unfolding start_claimed_def
    by (intro moves_if core_bind core_block_attempt_limit core_start_message may_start assms core_read [OF reads_tret])
      simp_all
qed

lemma expired_rows:
  assumes "ids_ok (db_messages s)"
  shows "distinct (map m_id (expired_work E i s))" "\<forall>m \<in> set (expired_work E i s). open_message s (m_id m)"
proof -
  let ?P = "\<lambda>m. m_to m = i \<and> m_state m = Accepted \<and> m_deadline m \<le> now E"
  note rows = sorted_rows_open [OF assms, of ?P by_age]
  have "distinct (map m_id (order_by by_age (filter ?P (db_messages s))))" by (rule rows) (simp add: terminal_def)
  then show "distinct (map m_id (expired_work E i s))"
    unfolding expired_work_def by (simp add: take_map [symmetric])
  have "\<forall>m \<in> set (order_by by_age (filter ?P (db_messages s))). open_message s (m_id m)"
    by (rule rows) (simp add: terminal_def)
  then show "\<forall>m \<in> set (expired_work E i s). open_message s (m_id m)"
    unfolding expired_work_def by (meson in_set_takeD)
qed

lemma candidate_rows:
  assumes "ids_ok (db_messages s)"
  shows "current_rows s (claim_candidates E p s)"
    and "\<forall>m \<in> set (claim_candidates E p s). m \<in> set (db_messages s) \<and> m_state m = Accepted \<and> m_to m = p_id p \<and>
      m_project m = p_project p \<and> tx_now E < m_deadline m"
proof -
  let ?P = "\<lambda>m. m_to m = p_id p \<and> m_project m = p_project p \<and> m_state m = Accepted \<and> tx_now E < m_deadline m"
  have "distinct (map m_id (order_by by_age (filter ?P (db_messages s))))"
    by (rule sorted_rows_open [OF assms]) (simp add: terminal_def)
  then have d: "distinct (map m_id (claim_candidates E p s))"
    unfolding claim_candidates_def by (simp add: take_map [symmetric])
  show m: "\<forall>m \<in> set (claim_candidates E p s). m \<in> set (db_messages s) \<and> m_state m = Accepted \<and> m_to m = p_id p \<and>
      m_project m = p_project p \<and> tx_now E < m_deadline m"
    by (auto simp: claim_candidates_def dest!: in_set_takeD)
  show "current_rows s (claim_candidates E p s)"
    using d m find_message_eq [OF assms] by (simp add: current_rows_def)
qed

lemma nns_claim_contract: "moves no_new_started (claim_contract_ready E p) s"
  unfolding claim_contract_ready_def by (intro nns_bind nns_leaf reads_tget nns_claim_loop)

lemma core_claim_contract: "moves core_step (claim_contract_ready E p) s"
proof (rule core_vacuous)
  assume inv: "db_inv s"
  show "moves core_step (claim_contract_ready E p) s"
    unfolding claim_contract_ready_def
  proof (rule moves_read_bind [OF reads_tget preorder_core])
    fix ms assume "tget (claim_candidates E p) s = (Inr ms, s)"
    then have "ms = claim_candidates E p s" by simp
    with candidate_rows [OF db_invD(3) [OF inv], of E p]
    show "moves core_step (claim_loop E p 0 ms) s" by (intro core_claim_loop) (auto simp: terminal_def)
  qed
qed

text \<open>The message a claim decides to start.\<close>

lemma claim_contract_picks:
  assumes "claim_contract_ready E p s = (Inr (Inr m, n), s')" and "ids_ok (db_messages s)"
  shows "m \<in> set (db_messages s)" "m_state m = Accepted" "m_to m = p_id p" "m_project m = p_project p"
    "tx_now E < m_deadline m" "dispatchable s' p m"
proof -
  have "claim_loop E p 0 (claim_candidates E p s) s = (Inr (Inr m, n), s')"
    using assms(1) by (simp add: claim_contract_ready_def tbind_run)
  from claim_loop_picks [OF this candidate_rows(1) [OF assms(2)]] candidate_rows(2) [OF assms(2), of E p]
  show "m \<in> set (db_messages s)" "m_state m = Accepted" "m_to m = p_id p" "m_project m = p_project p"
    "tx_now E < m_deadline m" "dispatchable s' p m" by auto
qed

subsection \<open>The operations\<close>

lemma no_other_started_mono:
  assumes "no_new_started s s'" and "\<forall>x \<in> set (db_messages s). m_to x = to \<longrightarrow> m_state x \<noteq> Started"
  shows "no_other_started s' to i"
  using assms by (auto simp: no_new_started_def no_other_started_def)

lemma core_claim_select:
  assumes "\<not> busy_peer (p_id p) s"
  shows "moves core_step (claim_select E p) s"
proof (rule core_vacuous)
  assume inv: "db_inv s"
  have idle: "\<forall>x \<in> set (db_messages s). m_to x = p_id p \<longrightarrow> m_state x \<noteq> Started"
    using assms by (auto simp: busy_peer_def list_ex_iff)
  show "moves core_step (claim_select E p) s"
    unfolding claim_select_def
  proof (rule moves_read_bind [OF reads_tget preorder_core])
    fix ms assume "tget (expired_work E (p_id p)) s = (Inr ms, s)"
    then have ms: "ms = expired_work E (p_id p) s" by simp
    let ?mark = "mark_all E Failed ''failed'' (ReasonOnly ''deadline_elapsed_before_start'') ms"
    let ?decide = "\<lambda>failed (r, n). case r of
         Inl e \<Rightarrow> if e = ErrNotFound \<and> (ms \<noteq> [] \<or> failed > 0 \<or> n > 0) then tret (Inl e) else tfail e
       | Inr m \<Rightarrow> start_claimed E p m"
    have tail: "moves core_step (tbind (fail_dependencies E p) (\<lambda>failed. tbind (claim_contract_ready E p) (?decide failed))) s1"
      if n1: "no_new_started s s1" for s1
    proof (rule moves_tbind [OF preorder_core core_fail_dependencies])
      fix failed s2 assume "fail_dependencies E p s1 = (Inr failed, s2)"
      then have n2: "no_new_started s s2"
        using nns_fail_dependencies [of E p s1] preorder_trans [OF preorder_no_new_started n1] by (simp add: moves_def)
      show "moves core_step (tbind (claim_contract_ready E p) (?decide failed)) s2"
      proof (rule core_vacuous)
        assume inv2: "db_inv s2"
        show "moves core_step (tbind (claim_contract_ready E p) (?decide failed)) s2"
        proof (rule moves_tbind [OF preorder_core core_claim_contract], rule moves_prod, rule moves_sum)
          fix x s3 r n m assume run: "claim_contract_ready E p s2 = (Inr x, s3)" and x: "x = (r, n)" "r = Inr m"
          then have n3: "no_new_started s s3"
            using nns_claim_contract [of E p s2] preorder_trans [OF preorder_no_new_started n2] by (simp add: moves_def)
          from run x have "claim_contract_ready E p s2 = (Inr (Inr m, n), s3)" by simp
          note pick = claim_contract_picks [OF this db_invD(3) [OF inv2]]
          show "moves core_step (start_claimed E p m) s3"
            using pick no_other_started_mono [OF n3 idle]
            by (intro core_start_claimed) (auto simp: dispatchable_def terminal_def)
        qed (intro core)
      qed
    qed
    show "moves core_step (tbind ?mark (\<lambda>_. tbind (fail_dependencies E p) (\<lambda>failed. tbind (claim_contract_ready E p) (?decide failed)))) s"
    proof (rule moves_tbind [OF preorder_core])
      show "moves core_step ?mark s"
        unfolding ms using expired_rows [OF db_invD(3) [OF inv]] by (intro core_mark_all) simp_all
      fix u s1 assume "?mark s = (Inr u, s1)"
      then have "no_new_started s s1"
        using nns_mark_all [of Failed E "''failed''" "ReasonOnly ''deadline_elapsed_before_start''" ms s]
        by (simp add: moves_def)
      then show "moves core_step (tbind (fail_dependencies E p) (\<lambda>failed. tbind (claim_contract_ready E p) (?decide failed))) s1"
        by (rule tail)
    qed
  qed
qed

lemma core_claim: "core_step s (snd (claim E c i owner external s))"
  unfolding claim_def
proof (rule commit_peer_moves [OF preorder_core], rule moves_read_bind [OF reads_claim_open preorder_core])
  fix p assume "claim_open E c i owner external s = (Inr p, s)"
  then have p: "p_id p = i" by (rule claim_openD)
  show "moves core_step (tbind (tget (busy_peer i)) (\<lambda>busy. tbind (tguard (\<not> busy) ErrBusy) (\<lambda>_. claim_select E p))) s"
    by (intro moves_read_bind [OF reads_tget preorder_core] moves_read_bind [OF reads_tguard preorder_core]
        core_claim_select) (simp add: p)
qed

lemma core_claim_lease: "core_step s (snd (claim_lease E c l s))"
  by (auto simp: claim_lease_def core_claim preorder_refl [OF preorder_core] split: sum.splits)

lemma core_apply_transition:
  assumes "find_message (m_id m) s = Some m" and "\<not> terminal (m_state m)"
    and "next = Started \<Longrightarrow> no_other_started s (m_to m) (m_id m)"
    and "ev = ''started'' \<Longrightarrow> m_attempts m < max_execution_attempts"
  shows "moves core_step (apply_transition E m next ev payload) s"
proof -
  let ?enf = "if ev = ''started'' \<or> ev = ''completed'' then enforce_request_contracts E m else tret ()"
  have op: "open_message s (m_id m)" using assms(1,2) by (simp add: open_message_def)
  have may: "may_change next (if ev = ''started'' then 1 else 0) (m_id m) s"
    using assms by (auto simp: may_change_def no_other_started_def)
  show ?thesis
    unfolding apply_transition_def
  proof (rule moves_tbind [OF preorder_core])
    show "moves core_step (ttry ?enf) s"
      unfolding moves_ttry by (intro moves_if core_enforce op core_read [OF reads_tret])
    fix r s' assume "ttry ?enf s = (Inr r, s')"
    then have run: "?enf s = (r, s')" by (auto simp: ttry_def split: prod.splits)
    show "moves core_step (case r of
       Inl e \<Rightarrow> if errors_is e ErrRequestContracts then tret (Inl e) else tfail e
     | Inr _ \<Rightarrow> tbind (update_state E (m_id m) next (if ev = ''started'' then 1 else 0)) (\<lambda>m.
         tbind (append_event E m ev (Raw payload)) (\<lambda>_. tret (Inr m)))) s'"
    proof (rule moves_sum)
      fix u assume "r = Inr u"
      with run have "s' = s" by (auto split: if_splits dest: enforce_ok)
      with may show "moves core_step (tbind (update_state E (m_id m) next (if ev = ''started'' then 1 else 0)) (\<lambda>m.
         tbind (append_event E m ev (Raw payload)) (\<lambda>_. tret (Inr m)))) s'"
        by (intro core_update_event core_read [OF reads_tret]) simp
    qed (intro core)
  qed
qed

lemma next_state_started:
  "next_state i m ev = Inr Started \<Longrightarrow> (ev = ''started'' \<and> m_state m = Blocked \<and> i = m_to m) \<or>
     (ev \<noteq> ''started'' \<and> m_state m = Started \<and> i = m_to m)"
  by (auto simp: next_state_def split: if_splits)

lemma core_transition: "core_step s (snd (transition E c i mid expected ev payload owner external s))"
  unfolding transition_def
proof (rule commit_peer_moves [OF preorder_core], rule core_vacuous,
    rule moves_read_bind [OF reads_transition_open preorder_core], clarify)
  fix p m "next" assume inv: "db_inv s"
    and opened: "transition_open E c i mid expected ev payload owner external s = (Inr (p, m, next), s)"
  note T = transition_openD [OF opened]
  have cur: "find_message (m_id m) s = Some m" by (rule find_message_eq [OF db_invD(3) [OF inv] T(4)])
  have op: "open_message s (m_id m)" using cur T(9) by (simp add: open_message_def)
  show "moves core_step (tbind (tget (\<lambda>s. list_ex (\<lambda>x. m_to x = i \<and> m_state x = Started \<and> m_id x \<noteq> mid) (db_messages s))) (\<lambda>busy.
     tbind (tguard (\<not> (ev = ''started'' \<and> busy)) ErrBusy) (\<lambda>_.
     if ev = ''started'' \<and> m_attempts m \<ge> max_execution_attempts
     then tbind (block_attempt_limit E p m) (\<lambda>_. tret (Inl ErrRequestBudget))
     else apply_transition E m next ev payload))) s"
  proof (intro moves_read_bind [OF reads_tget preorder_core] moves_read_bind [OF reads_tguard preorder_core] moves_if)
    show "moves core_step (tbind (block_attempt_limit E p m) (\<lambda>_. tret (Inl ErrRequestBudget))) s"
      by (intro core_bind core_block_attempt_limit op core_read [OF reads_tret])
  next
    fix busy u
    assume "tget (\<lambda>s. list_ex (\<lambda>x. m_to x = i \<and> m_state x = Started \<and> m_id x \<noteq> mid) (db_messages s)) s = (Inr busy, s)"
      and "tguard (\<not> (ev = ''started'' \<and> busy)) ErrBusy s = (Inr u, s)"
      and att: "\<not> (ev = ''started'' \<and> m_attempts m \<ge> max_execution_attempts)"
    then have idle: "ev = ''started'' \<Longrightarrow> \<forall>x \<in> set (db_messages s). m_to x = i \<longrightarrow> m_state x = Started \<longrightarrow> m_id x = mid"
      by (auto simp: list_ex_iff)
    have "no_other_started s (m_to m) (m_id m)" if "next = Started"
    proof (cases "ev = ''started''")
      case True
      with idle next_state_started [of i m ev] T(5,10) that show ?thesis by (auto simp: no_other_started_def)
    next
      case False
      with next_state_started [of i m ev] T(10) that have "m_state m = Started" by simp
      with db_invD(7) [OF inv] T(4) show ?thesis unfolding started_ok_def no_other_started_def by metis
    qed
    with att cur T(9) show "moves core_step (apply_transition E m next ev payload) s"
      by (intro core_apply_transition) simp_all
  qed
qed

lemma core_worker_transition: "core_step s (snd (worker_transition E c l mid expected ev payload s))"
  by (auto simp: worker_transition_def core_transition preorder_refl [OF preorder_core] split: sum.splits)

lemma core_complete_lease: "core_step s (snd (complete_lease E c l mid payload s))"
  unfolding complete_lease_def
proof (rule commit_tx_moves [OF preorder_core], rule core_vacuous, rule moves_read_bind [OF reads_complete_open preorder_core])
  fix m assume inv: "db_inv s" and "complete_open E l mid payload s = (Inr m, s)"
  then obtain s1 where "select_message mid (\<lambda>m. m_to m = ls_peer l) s1 = (Inr m, s)"
    by (auto simp: complete_open_def tbind_eq_Inr)
  then have m: "m \<in> set (db_messages s)" by (auto dest: select_messageD)
  have cur: "find_message (m_id m) s = Some m" by (rule find_message_eq [OF db_invD(3) [OF inv] m])
  have fin: "moves core_step (finish_message E m payload) s" if "m_state m = Started"
    unfolding finish_message_def
    by (intro core_update_event may_change_open core_read [OF reads_tret]) (simp_all add: open_message_def cur that terminal_def)
  have start: "moves core_step (complete_started E c l m payload) s" if st: "m_state m = Started"
    unfolding complete_started_def
  proof (rule moves_tbind [OF preorder_core])
    show "moves core_step (ttry (enforce_request_contracts E m)) s"
      unfolding moves_ttry using cur st by (intro core_enforce) (simp add: open_message_def terminal_def)
    fix r s' assume "ttry (enforce_request_contracts E m) s = (Inr r, s')"
    then have run: "enforce_request_contracts E m s = (r, s')" by (auto simp: ttry_def split: prod.splits)
    have same: "s' = s" if "r = Inr u" for u using run that enforce_ok by blast
    show "moves core_step (case r of
       Inl e \<Rightarrow> if errors_is e ErrRequestContracts then tret (Inl e) else tfail e
     | Inr _ \<Rightarrow> if m_kind m = ''request'' then
           tbind (tlook (\<lambda>s. map_option p_name (find (\<lambda>p. p_id p = m_from m \<and> p_project p = m_project m \<and> p_enabled p) (db_peers s))) SqlNoRows) (\<lambda>name.
           tbind (send_tx E c (ls_peer l) (answer_input name m payload (''worker-answer:'' @ m_id m))) (\<lambda>_.
           tbind (tlook (find_message (m_id m)) ErrNotFound) (\<lambda>m'. tret (Inr m'))))
         else tbind (finish_message E m payload) (\<lambda>m'. tret (Inr m'))) s'"
      using fin [OF st] same by (intro core core_send_tx) auto
  qed
  show "moves core_step (if m_state m = Completed then tret (Inr m)
     else tbind (tguard (m_state m = Started) (ErrOther ''cannot finish work'')) (\<lambda>_. complete_started E c l m payload)) s"
    by (intro moves_if core_read [OF reads_tret] moves_read_bind [OF reads_tguard preorder_core] start) simp
qed

lemma core_reply_message: "core_step s (snd (reply_message E c i mid payload key s))"
  by (auto simp: reply_message_def core_send preorder_refl [OF preorder_core] split: sum.splits option.splits)

lemma core_reconcile: "core_step s (snd (reconcile_execution_contracts E l mid s))"
  unfolding reconcile_execution_contracts_def
proof (rule commit_tx_moves [OF preorder_core], rule core_vacuous)
  assume inv: "db_inv s"
  have enf: "moves core_step (tbind (ttry (enforce_request_contracts E m)) (\<lambda>r.
      case r of Inr _ \<Rightarrow> tret (Inr ()) | Inl e \<Rightarrow> if e = ErrRequestContracts then tret (Inl e) else tfail e)) s"
    if "select_message mid (\<lambda>m. m_to m = ls_peer l) s = (Inr m, s)" "\<not> m_state m \<noteq> Started" for m
  proof (rule moves_tbind [OF preorder_core])
    have "find_message (m_id m) s = Some m"
      using select_messageD [OF that(1)] find_message_eq [OF db_invD(3) [OF inv], of m] by blast
    then show "moves core_step (ttry (enforce_request_contracts E m)) s"
      unfolding moves_ttry using that(2) by (intro core_enforce) (simp add: open_message_def terminal_def)
  qed (intro core)
  show "moves core_step (tbind (validate_lease E l) (\<lambda>_.
     tbind (lock_admission (ls_peer l)) (\<lambda>_.
     tbind (enabled_peer E (ls_peer l)) (\<lambda>_.
     tbind (check_lease E (ls_peer l) (ls_owner l)) (\<lambda>_.
     tbind (select_message mid (\<lambda>m. m_to m = ls_peer l)) (\<lambda>m.
     if m_state m = Blocked \<and> m_contracts m \<noteq> [] then tfail ErrRequestContracts
     else if m_state m \<noteq> Started then tret (Inr ())
     else tbind (ttry (enforce_request_contracts E m)) (\<lambda>r.
          case r of Inr _ \<Rightarrow> tret (Inr ()) | Inl e \<Rightarrow> if e = ErrRequestContracts then tret (Inl e) else tfail e))))))) s"
    by (intro moves_read_bind [OF reads_validate_lease preorder_core] moves_read_bind [OF reads_lock_admission preorder_core]
        moves_read_bind [OF reads_enabled_peer preorder_core] moves_read_bind [OF reads_check_lease preorder_core]
        moves_read_bind [OF reads_select_message preorder_core] moves_if enf core_read [OF reads_tret] core_read [OF reads_tfail])
qed

end
