(* ===== verification/Coord_Usage.thy ===== *)
theory Coord_Usage
  imports Coord_Lifecycle_Inv
begin

text \<open>
  Task usage (\<open>usage.go\<close>) and the trusted review of a blocked request (\<open>request_review.go\<close>).

  Money is an integer number of nanodollars throughout, the unit of the database columns; the
  code converts to \<open>float64\<close> dollars in between.  A usage row records what a task has used, how
  many samples came without usage or price, and why it needs review.
\<close>

subsection \<open>Evidence and reasons\<close>

definition run_open :: "db \<Rightarrow> run_row \<Rightarrow> bool" where
  "run_open s r \<longleftrightarrow> \<not> rn_finished r \<and> (rn_message r, rn_owner r) \<notin> set (db_resolved s)"

definition run_in_scope :: "db \<Rightarrow> string \<Rightarrow> string \<Rightarrow> run_row \<Rightarrow> bool" where
  "run_in_scope s project scope r \<longleftrightarrow> (case find_message (rn_message r) s of
     None \<Rightarrow> False
   | Some m \<Rightarrow> m_project m = project \<and> message_scope m = scope \<and> list_ex (\<lambda>p. p_id p = m_to m) (db_peers s))"

text \<open>A run is unconfirmed when its executor is gone: disabled, without a lease, or with another's.\<close>

definition run_unconfirmed :: "env \<Rightarrow> db \<Rightarrow> run_row \<Rightarrow> bool" where
  "run_unconfirmed E s r \<longleftrightarrow> (case find_message (rn_message r) s of
     None \<Rightarrow> False
   | Some m \<Rightarrow> \<not> live_peer (m_to m) s \<or>
       (case find (\<lambda>l. l_peer l = m_to m) (db_leases s) of
          None \<Rightarrow> True
        | Some l \<Rightarrow> l_owner l \<noteq> rn_owner r \<or> l_expires l \<le> now E))"

definition usage_execution_counts :: "env \<Rightarrow> string \<Rightarrow> string \<Rightarrow> db \<Rightarrow> nat \<times> nat" where
  "usage_execution_counts E project scope s =
    (let rs = filter (\<lambda>r. run_open s r \<and> run_in_scope s project scope r) (db_runs s)
     in (length rs, length (filter (run_unconfirmed E s) rs)))"

definition usage_reason :: "usage_row \<Rightarrow> nat \<Rightarrow> string" where
  "usage_reason u unconfirmed =
    (if (u_token_limit u > 0 \<or> u_cost_limit u > 0) \<and> unconfirmed > 0 then ''execution_usage_unknown''
     else if u_token_limit u > 0 \<and> u_unknown_usage u > 0 then ''usage_unknown''
     else if u_cost_limit u > 0 \<and> (u_unknown_usage u > 0 \<or> u_unknown_price u > 0) then ''cost_unknown''
     else if u_token_limit u > 0 \<and> (u_input u \<ge> u_token_limit u \<or> u_output u \<ge> u_token_limit u - u_input u)
     then ''token_limit''
     else if u_cost_limit u > 0 \<and> u_cost u \<ge> u_cost_limit u then ''cost_limit''
     else '''')"

text \<open>No reason for review means: within the limits, with complete evidence.\<close>

lemma usage_reason_ok:
  assumes "usage_reason u n = ''''"
  shows "u_token_limit u > 0 \<Longrightarrow> u_input u + u_output u < u_token_limit u \<and> u_unknown_usage u \<le> 0 \<and> n = 0"
    and "u_cost_limit u > 0 \<Longrightarrow> u_cost u < u_cost_limit u \<and> u_unknown_usage u \<le> 0 \<and> u_unknown_price u \<le> 0 \<and> n = 0"
  using assms by (auto simp: usage_reason_def split: if_splits)

subsection \<open>Recording\<close>

definition sample_ok :: "string \<Rightarrow> usage_sample \<Rightarrow> bool" where
  "sample_ok key x \<longleftrightarrow> key \<noteq> [] \<and> length key \<le> 128 \<and>
     0 \<le> us_input x \<and> us_input x \<le> 1000000000000 \<and> 0 \<le> us_output x \<and> us_output x \<le> 1000000000000 \<and>
     0 \<le> us_cached x \<and> us_cached x \<le> us_input x \<and> 0 \<le> us_cost x \<and> us_cost x \<le> 1000000 * 1000000000"

definition add_sample :: "usage_sample \<Rightarrow> usage_row \<Rightarrow> usage_row" where
  "add_sample x u = u\<lparr>u_input := u_input u + us_input x, u_output := u_output u + us_output x,
     u_cached := u_cached u + us_cached x, u_cost := u_cost u + us_cost x,
     u_unknown_usage := u_unknown_usage u + (if us_reported x then 0 else 1),
     u_unknown_price := u_unknown_price u + (if us_price_known x then 0 else 1),
     u_revision := u_revision u + 1\<rparr>"

definition find_sample :: "string \<Rightarrow> string \<Rightarrow> db \<Rightarrow> usage_sample option" where
  "find_sample mid key s = map_option s_sample (find (\<lambda>r. s_message r = mid \<and> s_key r = key) (db_samples s))"

definition push_sample :: "string \<Rightarrow> string \<Rightarrow> usage_sample \<Rightarrow> db \<Rightarrow> db" where
  "push_sample mid key x s = s\<lparr>db_samples := db_samples s @ [\<lparr>s_message = mid, s_key = key, s_sample = x\<rparr>]\<rparr>"

text \<open>The same sample twice counts once; another sample under the same key is refused.\<close>

definition record_sample :: "string \<Rightarrow> string \<Rightarrow> usage_sample \<Rightarrow> usage_row \<Rightarrow> usage_row dbtx" where
  "record_sample mid key x u =
     tbind (tget (find_sample mid key)) (\<lambda>prior.
     case prior of
       None \<Rightarrow> tbind (tmod (push_sample mid key x)) (\<lambda>_. tret (add_sample x u))
     | Some y \<Rightarrow> if y \<noteq> x then tfail ErrIdempotency else tret u)"

definition store_usage :: "usage_row \<Rightarrow> db \<Rightarrow> db" where
  "store_usage u s = s\<lparr>db_usage := update_rows (usage_at (u_project u) (u_scope u))
     (\<lambda>v. u\<lparr>u_project := u_project v, u_scope := u_scope v, u_task := u_task v, u_owner := u_owner v,
            u_token_limit := u_token_limit v, u_cost_limit := u_cost_limit v\<rparr>) (db_usage s)\<rparr>"

definition usage_open :: "env \<Rightarrow> ctx \<Rightarrow> string \<Rightarrow> bool \<Rightarrow> message dbtx" where
  "usage_open E c mid checking =
     (case ctx_lineage c of
        None \<Rightarrow> tfail ErrUnauthorized
      | Some (lmid, l) \<Rightarrow>
          tbind (tguard (lmid = mid) ErrUnauthorized) (\<lambda>_.
          tbind (lock_admission (ls_peer l)) (\<lambda>_.
          tbind (check_lease E (ls_peer l) (ls_owner l)) (\<lambda>_.
          tbind (select_message mid (\<lambda>m. m_to m = ls_peer l)) (\<lambda>m.
          tbind (tguard (\<not> (checking \<and> m_state m \<noteq> Started)) ErrConflict) (\<lambda>_.
          tret m))))))"

definition review_usage :: "env \<Rightarrow> message \<Rightarrow> usage_row \<Rightarrow> (string \<times> usage_row) dbtx" where
  "review_usage E m u =
     tbind (tget (usage_execution_counts E (m_project m) (u_scope u))) (\<lambda>(pending, unconfirmed).
     let reason = usage_reason u unconfirmed in
     if reason \<noteq> '''' \<and> u_reason u = '''' then
       tbind (enabled_peer E (m_from m)) (\<lambda>from.
       tbind (enabled_peer E (m_to m)) (\<lambda>to.
       tbind (append_escalation E (p_project from) (p_id from) (p_id to) (m_id m) (m_conversation m) (''task_'' @ reason)) (\<lambda>_.
       tret (reason, u\<lparr>u_reason := reason\<rparr>))))
     else tret (reason, u))"

definition update_task_usage ::
    "env \<Rightarrow> ctx \<Rightarrow> string \<Rightarrow> (string \<times> usage_sample) option \<Rightarrow> db \<Rightarrow> (err + unit) \<times> db" where
  "update_task_usage E c mid sample = commit_tx (
     tbind (usage_open E c mid (sample = None)) (\<lambda>m.
     tbind (ensure_usage (m_project m) (message_scope m) (m_task m) (m_from m) no_limits) (\<lambda>_.
     tbind (tlook (find_usage (m_project m) (message_scope m)) SqlNoRows) (\<lambda>u0.
     tbind (case sample of None \<Rightarrow> tret u0 | Some (key, x) \<Rightarrow> record_sample (m_id m) key x u0) (\<lambda>u1.
     tbind (review_usage E m u1) (\<lambda>(reason, u2).
     tbind (tmod (store_usage u2)) (\<lambda>_.
     if reason \<noteq> '''' then tret (Inl (Wrapped ErrUsageBudget reason)) else tret (Inr ()))))))))"

definition check_task_usage :: "env \<Rightarrow> ctx \<Rightarrow> string \<Rightarrow> db \<Rightarrow> (err + unit) \<times> db" where
  "check_task_usage E c mid = update_task_usage E c mid None"

definition record_task_usage :: "env \<Rightarrow> ctx \<Rightarrow> string \<Rightarrow> string \<Rightarrow> usage_sample \<Rightarrow> db \<Rightarrow> (err + unit) \<times> db" where
  "record_task_usage E c mid key x s =
     (if \<not> sample_ok key x then (Inl (ErrOther ''invalid usage sample''), s)
      else update_task_usage E c mid (Some (key, x)) s)"

text \<open>What a participant sees: the row, or an empty one, with its counts and the reason for review.\<close>

definition usage_for_message :: "env \<Rightarrow> ctx \<Rightarrow> string \<Rightarrow> string \<Rightarrow> (usage_row option \<times> (nat \<times> nat) \<times> string) dbtx" where
  "usage_for_message E c i mid =
     tbind (read_message E c i mid) (\<lambda>m.
     tbind (tget (find_usage (m_project m) (message_scope m))) (\<lambda>r.
     case r of
       None \<Rightarrow> tret (None, (0, 0), [])
     | Some u \<Rightarrow>
         tbind (tget (usage_execution_counts E (m_project m) (u_scope u))) (\<lambda>counts.
         let reason = usage_reason u (snd counts);
             shown = (if snd counts > 0 \<and> reason = [] then ''execution_usage_unknown'' else reason)
         in tret (Some u, counts, if u_reason u = [] then shown else u_reason u))))"

definition add_run :: "run_row \<Rightarrow> db \<Rightarrow> db" where
  "add_run r s = (if list_ex (\<lambda>x. rn_message x = rn_message r \<and> rn_owner x = rn_owner r) (db_runs s) then s
     else s\<lparr>db_runs := db_runs s @ [r]\<rparr>)"

definition finish_run :: "string \<Rightarrow> string \<Rightarrow> db \<Rightarrow> db" where
  "finish_run mid own s = s\<lparr>db_runs := update_rows (\<lambda>r. rn_message r = mid \<and> rn_owner r = own)
     (rn_finished_update (\<lambda>_. True)) (db_runs s)\<rparr>"

definition task_usage_run :: "env \<Rightarrow> ctx \<Rightarrow> string \<Rightarrow> bool \<Rightarrow> db \<Rightarrow> (err + unit) \<times> db" where
  "task_usage_run E c mid finish = commit_tx (
     case ctx_lineage c of
       None \<Rightarrow> tfail ErrUnauthorized
     | Some (lmid, l) \<Rightarrow>
         tbind (tguard (lmid = mid) ErrUnauthorized) (\<lambda>_.
         tbind (lock_admission (ls_peer l)) (\<lambda>_.
         tbind (check_lease E (ls_peer l) (ls_owner l)) (\<lambda>_.
         tbind (tget (\<lambda>s. list_ex (\<lambda>m. m_id m = mid \<and> m_to m = ls_peer l) (db_messages s))) (\<lambda>belongs.
         tbind (tguard belongs ErrUnauthorized) (\<lambda>_.
         if finish then tbind (tmod (finish_run mid (ls_owner l))) (\<lambda>_. tret (Inr ()))
         else
           tbind (tmod (add_run \<lparr>rn_message = mid, rn_owner = ls_owner l, rn_finished = False\<rparr>)) (\<lambda>_.
           tbind (tlook (\<lambda>s. map_option (\<lambda>r. rn_finished r \<or> (mid, ls_owner l) \<in> set (db_resolved s))
                    (find (\<lambda>r. rn_message r = mid \<and> rn_owner r = ls_owner l) (db_runs s))) SqlNoRows) (\<lambda>closed.
           tbind (tguard (\<not> closed) (Wrapped ErrConflict ''execution requires a fresh journal owner'')) (\<lambda>_.
           tret (Inr ())))))))))) "

subsection \<open>Review\<close>

definition review_shape :: "env \<Rightarrow> review_input \<Rightarrow> bool" where
  "review_shape E r \<longleftrightarrow> canonical_uuid E (rq_message r) \<and> canonical_uuid E (rq_review r) \<and> rq_requeue r \<and>
     1 \<le> rq_revision r \<and> 1 \<le> rq_usage_revision r \<and> trim_space (rq_note r) \<noteq> [] \<and>
     length (rq_note r) \<le> 2048 \<and> utf8_valid (rq_note r)"

definition review_open :: "env \<Rightarrow> string \<Rightarrow> review_input \<Rightarrow> (message \<times> usage_row) dbtx" where
  "review_open E i r =
     tbind (tguard (review_shape E r) (ErrOther ''review requires canonical UUID, revisions, bounded note and explicit requeue'')) (\<lambda>_.
     tbind (tguard (validate_usage_limits (rq_limits r)) (ErrOther ''invalid usage limits'')) (\<lambda>_.
     tbind (lock_admission i) (\<lambda>_.
     tbind (tlook (\<lambda>s. map_option m_to (find (\<lambda>m. m_id m = rq_message r \<and> participant i m \<and>
              list_ex (\<lambda>p. p_id p = i \<and> p_enabled p \<and> p_project p = m_project m) (db_peers s)) (db_messages s)))
              ErrNotFound) (\<lambda>to.
     tbind (lock_peer E to) (\<lambda>recipient.
     tbind (if i \<noteq> to then enabled_peer E i else tret recipient) (\<lambda>actor.
     tbind (select_message (rq_message r) (\<lambda>m. m_project m = p_project actor \<and> participant i m)) (\<lambda>m.
     tbind (tlook (find_usage (m_project m) (message_scope m)) SqlNoRows) (\<lambda>u.
     tbind (tguard (u_owner u = i) ErrUnauthorized) (\<lambda>_.
     tret (m, u))))))))))"

definition unresolved_evidence :: "usage_row \<Rightarrow> usage_limits \<Rightarrow> nat \<times> nat \<Rightarrow> bool" where
  "unresolved_evidence u lim counts \<longleftrightarrow> fst counts > 0 \<or> snd counts > 0 \<or>
     (u_unknown_usage u > 0 \<and> (u_token_limit u > 0 \<or> u_cost_limit u > 0 \<or> ul_tokens lim > 0 \<or> ul_cost lim > 0)) \<or>
     (u_unknown_price u > 0 \<and> (u_cost_limit u > 0 \<or> ul_cost lim > 0))"

definition review_guards :: "env \<Rightarrow> review_input \<Rightarrow> message \<Rightarrow> usage_row \<Rightarrow> unit dbtx" where
  "review_guards E r m u =
     tbind (tguard (m_revision m = rq_revision r \<and> u_revision u = rq_usage_revision r \<and>
              m_kind m = ''request'' \<and> m_state m = Blocked) ErrConflict) (\<lambda>_.
     tbind (tguard (\<not> m_deadline m \<le> now E) (Wrapped ErrConflict ''request deadline elapsed'')) (\<lambda>_.
     tbind (tget (\<lambda>s. list_ex (\<lambda>l. l_peer l = m_to m \<and> now E < l_expires l) (db_leases s) \<or>
        list_ex (\<lambda>x. m_state x = Started \<and> (m_to x = m_to m \<or>
           (m_project x = m_project m \<and> message_scope x = u_scope u))) (db_messages s))) (\<lambda>busy.
     tbind (tguard (\<not> busy) ErrBusy) (\<lambda>_.
     tbind (tguard (m_attempts m < max_execution_attempts) ErrRequestBudget) (\<lambda>_.
     tbind (tget (usage_execution_counts E (m_project m) (u_scope u))) (\<lambda>counts.
     tbind (tguard (\<not> unresolved_evidence u (rq_limits r) counts)
              (Wrapped ErrUsageBudget ''unresolved execution or usage evidence'')) (\<lambda>_.
     tguard (usage_reason (u\<lparr>u_token_limit := ul_tokens (rq_limits r), u_cost_limit := ul_cost (rq_limits r)\<rparr>) (snd counts) = '''')
       (ErrUsageBudget))))))))"

definition relimit :: "string \<Rightarrow> string \<Rightarrow> usage_limits \<Rightarrow> db \<Rightarrow> db" where
  "relimit project scope lim s = s\<lparr>db_usage := update_rows (usage_at project scope)
     (\<lambda>u. u\<lparr>u_token_limit := ul_tokens lim, u_cost_limit := ul_cost lim, u_reason := '''', u_revision := u_revision u + 1\<rparr>)
     (db_usage s)\<rparr>"

definition requeue :: "env \<Rightarrow> string \<Rightarrow> review_input \<Rightarrow> message \<Rightarrow> usage_row \<Rightarrow> (err + (message \<times> usage_row)) dbtx" where
  "requeue E i r m0 u0 =
    (let u = u0\<lparr>u_token_limit := ul_tokens (rq_limits r), u_cost_limit := ul_cost (rq_limits r),
                u_reason := '''', u_revision := u_revision u0 + 1\<rparr>
     in tbind (tmod (relimit (m_project m0) (u_scope u0) (rq_limits r))) (\<lambda>_.
        tbind (update_state E (m_id m0) Accepted 0) (\<lambda>m.
        tbind (append_event E m ''reviewed'' (Reviewed (rq_review r) i (rq_note r) (rq_limits r) (u_revision u))) (\<lambda>_.
        tbind (tmod (\<lambda>s. s\<lparr>db_reviews := db_reviews s @ [\<lparr>rv_actor = i, rv_id = rq_review r,
                 rv_hash = review_hash E r, rv_message = m, rv_usage = u\<rparr>]\<rparr>)) (\<lambda>_.
        tret (Inr (m, u)))))))"

definition review_request :: "env \<Rightarrow> string \<Rightarrow> review_input \<Rightarrow> db \<Rightarrow> (err + (message \<times> usage_row)) \<times> db" where
  "review_request E i r = commit_tx (
     tbind (review_open E i r) (\<lambda>(m, u).
     tbind (tget (\<lambda>s. find (\<lambda>v. rv_actor v = i \<and> rv_id v = rq_review r) (db_reviews s))) (\<lambda>prior.
     case prior of
       Some v \<Rightarrow> if rv_hash v = review_hash E r then tret (Inr (rv_message v, rv_usage v)) else tfail ErrIdempotency
     | None \<Rightarrow> tbind (review_guards E r m u) (\<lambda>_. requeue E i r m u))))"

subsection \<open>The invariant\<close>

lemma reads_usage_open [reader]: "reads (usage_open E c mid checking)"
  unfolding usage_open_def by (intro reader)

lemma reads_review_open [reader]: "reads (review_open E i r)"
  unfolding review_open_def by (intro reader)

lemma reads_review_guards [reader]: "reads (review_guards E r m u)"
  unfolding review_guards_def by (intro reader)

lemma core_store_usage [core]: "moves core_step (tmod (store_usage u)) s"
  unfolding moves_tmod store_usage_def
  by (rule core_same [OF same_core_usage]) (simp_all add: usage_ok_update)

lemma core_relimit [core]: "moves core_step (tmod (relimit project scope lim)) s"
  unfolding moves_tmod relimit_def
  by (rule core_same [OF same_core_usage]) (simp_all add: usage_ok_update)

lemma find_sample_None:
  "find_sample mid key s = None \<Longrightarrow> (mid, key) \<notin> set (map (\<lambda>x. (s_message x, s_key x)) (db_samples s))"
  by (auto simp: find_sample_def find_None_iff)

lemma core_record_sample [core]: "moves core_step (record_sample mid key x u) s"
  unfolding record_sample_def
proof (intro moves_read_bind [OF reads_tget preorder_core] moves_cases core_read [OF reads_tret] core_read [OF reads_tfail])
  fix prior assume "tget (find_sample mid key) s = (Inr prior, s)" "prior = None"
  then have new: "(mid, key) \<notin> set (map (\<lambda>x. (s_message x, s_key x)) (db_samples s))"
    by (intro find_sample_None) simp
  have "core_step s (push_sample mid key x s)"
    by (rule core_same) (use new in \<open>auto simp: push_sample_def same_core_def event_journal_def escalation_journal_def
      contract_tables_def usage_ok_def\<close>)
  then show "moves core_step (tbind (tmod (push_sample mid key x)) (\<lambda>_. tret (add_sample x u))) s"
    by (intro core_bind core_read [OF reads_tret]) (simp add: moves_tmod)
qed

lemma core_review_usage [core]: "moves core_step (review_usage E m u) s"
  unfolding review_usage_def Let_def by (intro core)

lemma core_update_task_usage: "core_step s (snd (update_task_usage E c mid sample s))"
  unfolding update_task_usage_def
  by (rule commit_tx_moves [OF preorder_core]) (intro core core_read [OF reads_usage_open])

lemma core_record_task_usage: "core_step s (snd (record_task_usage E c mid key x s))"
  by (simp add: record_task_usage_def core_update_task_usage preorder_refl [OF preorder_core])

lemma core_runs: "core_step s (s\<lparr>db_runs := rs\<rparr>)"
  by (rule core_same) (simp_all add: same_core_def event_journal_def escalation_journal_def contract_tables_def)

lemma core_finish_run [core]: "moves core_step (tmod (finish_run mid own)) s"
  unfolding moves_tmod finish_run_def by (rule core_runs)

lemma core_add_run [core]: "moves core_step (tmod (add_run r)) s"
  unfolding moves_tmod add_run_def by (simp add: core_runs preorder_refl [OF preorder_core])

lemma core_task_usage_run: "core_step s (snd (task_usage_run E c mid finish s))"
  unfolding task_usage_run_def
  by (rule commit_tx_moves [OF preorder_core]) (intro core)

lemma core_reviews: "core_step s (s\<lparr>db_reviews := rs\<rparr>)"
  by (rule core_same) (simp_all add: same_core_def event_journal_def escalation_journal_def contract_tables_def)

lemma review_openD:
  assumes "review_open E i r s = (Inr (m, u), s')"
  shows "s' = s \<and> m \<in> set (db_messages s) \<and> participant i m \<and> u_owner u = i \<and>
     find_usage (m_project m) (message_scope m) s = Some u"
proof -
  have s': "s' = s" using assms by (rule reads_state [OF reads_review_open])
  from assms obtain s1 and a :: peer where "select_message (rq_message r) (\<lambda>m. m_project m = p_project a \<and> participant i m) s1 = (Inr m, s')"
    "find_usage (m_project m) (message_scope m) s' = Some u" "u_owner u = i"
    by (auto simp: review_open_def tbind_eq_Inr)
  with s' show ?thesis by (auto dest: select_messageD)
qed

lemma core_requeue:
  assumes "find_message (m_id m) s = Some m" and "m_state m = Blocked"
  shows "moves core_step (requeue E i r m u) s"
  unfolding requeue_def Let_def
proof (rule moves_tbind [OF preorder_core core_relimit])
  fix x s' assume "tmod (relimit (m_project m) (u_scope u) (rq_limits r)) s = (Inr x, s')"
  then have "find_message (m_id m) s' = Some m" using assms(1) by (auto simp: relimit_def find_message_def)
  then have op: "open_message s' (m_id m)" using assms(2) by (simp add: open_message_def terminal_def)
  have rev: "moves core_step (tmod (\<lambda>s. s\<lparr>db_reviews := f s\<rparr>)) s" for f s
    unfolding moves_tmod by (rule core_reviews)
  show "moves core_step (tbind (update_state E (m_id m) Accepted 0) (\<lambda>m.
        tbind (append_event E m ''reviewed'' (Reviewed (rq_review r) i (rq_note r) (rq_limits r)
           (u_revision (u\<lparr>u_token_limit := ul_tokens (rq_limits r), u_cost_limit := ul_cost (rq_limits r),
                u_reason := '''', u_revision := u_revision u + 1\<rparr>)))) (\<lambda>_.
        tbind (tmod (\<lambda>s. s\<lparr>db_reviews := db_reviews s @ [\<lparr>rv_actor = i, rv_id = rq_review r,
                 rv_hash = review_hash E r, rv_message = m, rv_usage = u\<lparr>u_token_limit := ul_tokens (rq_limits r),
                 u_cost_limit := ul_cost (rq_limits r), u_reason := '''', u_revision := u_revision u + 1\<rparr>\<rparr>]\<rparr>)) (\<lambda>_.
        tret (Inr (m, u\<lparr>u_token_limit := ul_tokens (rq_limits r), u_cost_limit := ul_cost (rq_limits r),
                u_reason := '''', u_revision := u_revision u + 1\<rparr>)))))) s'"
    by (intro core_update_event may_change_open op core_bind rev core_read [OF reads_tret]) simp_all
qed

lemma review_guards_blocked: "review_guards E r m u s = (Inr x, s') \<Longrightarrow> m_state m = Blocked"
  by (auto simp: review_guards_def tbind_eq_Inr)

lemma core_review_request: "core_step s (snd (review_request E i r s))"
  unfolding review_request_def
proof (rule commit_tx_moves [OF preorder_core], rule core_vacuous,
    rule moves_read_bind [OF reads_review_open preorder_core], clarify)
  fix m u assume inv: "db_inv s" and "review_open E i r s = (Inr (m, u), s)"
  then have m: "find_message (m_id m) s = Some m"
    using review_openD find_message_eq [OF db_invD(3) [OF inv]] by blast
  show "moves core_step (tbind (tget (\<lambda>s. find (\<lambda>v. rv_actor v = i \<and> rv_id v = rq_review r) (db_reviews s))) (\<lambda>prior.
     case prior of
       Some v \<Rightarrow> if rv_hash v = review_hash E r then tret (Inr (rv_message v, rv_usage v)) else tfail ErrIdempotency
     | None \<Rightarrow> tbind (review_guards E r m u) (\<lambda>_. requeue E i r m u))) s"
    by (intro moves_read_bind [OF reads_tget preorder_core] moves_cases core_read [OF reads_tret] core_read [OF reads_tfail]
        moves_read_bind [OF reads_review_guards preorder_core] core_requeue m review_guards_blocked)
qed

end
