(* ===== verification/Coord_Guards.thy ===== *)
theory Coord_Guards
  imports Coord_Requests
begin

text \<open>
  The guards that a write to the workspace passes (\<open>contract_guards.go\<close>).  \<open>WithOwnedPaths\<close> lets
  a peer write paths it has reserved and nobody else's; \<open>WithUnrestrictedWorkspace\<close> lets opaque
  tools run when every foreign reservation lives in a disjoint workspace.  The callback is
  given by its result, \<open>None\<close> standing for a nil function.
\<close>

subsection \<open>The guarded operations\<close>

definition run_guarded :: "(err + unit) option \<Rightarrow> (err + unit) dbtx" where
  "run_guarded fn = (case fn of
     None \<Rightarrow> tfail (Wrapped ErrContractValidation ''callback required'')
   | Some r \<Rightarrow> tbind (tlift r) (\<lambda>_. tret (Inr ())))"

definition with_owned_paths ::
    "env \<Rightarrow> ctx \<Rightarrow> string \<Rightarrow> string list \<Rightarrow> (err + unit) option \<Rightarrow> db \<Rightarrow> (err + unit) \<times> db" where
  "with_owned_paths E c i paths fn = commit_tx (
     tbind (contract_transaction E i) (\<lambda>p.
     tbind (validate_execution_contracts E c p) (\<lambda>_.
     tbind (owned_path_access E p paths) (\<lambda>_.
     run_guarded fn))))"

definition check_owned_paths :: "env \<Rightarrow> ctx \<Rightarrow> string \<Rightarrow> string list \<Rightarrow> db \<Rightarrow> (err + unit) \<times> db" where
  "check_owned_paths E c i paths = with_owned_paths E c i paths (Some (Inr ()))"

definition trim_right_slash :: "string \<Rightarrow> string" where
  "trim_right_slash s = rev (dropWhile (\<lambda>c. c = CHR ''/'') (rev s))"

definition workspace_roots_overlap :: "env \<Rightarrow> string \<Rightarrow> string \<Rightarrow> bool" where
  "workspace_roots_overlap E a b =
    (let a' = trim_right_slash (fold_path E a); b' = trim_right_slash (fold_path E b)
     in a' = '''' \<or> b' = '''' \<or> a' = b' \<or> has_path_prefix a' b' \<or> has_path_prefix b' a')"

definition reserving_workspaces :: "peer \<Rightarrow> db \<Rightarrow> string list" where
  "reserving_workspaces p s = remdups (concat (map (\<lambda>r.
     concat (map (\<lambda>k. map p_workspace (filter (\<lambda>q. p_id q = k_owner k \<and> p_id q \<noteq> p_id p) (db_peers s)))
       (filter (\<lambda>k. k_id k = pr_contract r) (db_contracts s))))
     (filter (\<lambda>r. pr_project r = p_project p) (db_paths s))))"

definition workspace_error :: "env \<Rightarrow> string \<Rightarrow> string \<Rightarrow> err option" where
  "workspace_error E own w = (case symlink_check E w ''.'' of
     Some e \<Rightarrow> Some e
   | None \<Rightarrow> if workspace_roots_overlap E own w
             then Some (Wrapped ErrOwnershipConflict ''opaque mutation requires a disjoint workspace'') else None)"

definition unrestricted_access :: "env \<Rightarrow> peer \<Rightarrow> unit dbtx" where
  "unrestricted_access E p =
     tbind (case symlink_check E (p_workspace p) ''.'' of None \<Rightarrow> tret () | Some e \<Rightarrow> tfail e) (\<lambda>_.
     tbind (tget (\<lambda>s. first_error (workspace_error E (p_workspace p)) (reserving_workspaces p s))) (\<lambda>r.
     case r of None \<Rightarrow> tret () | Some e \<Rightarrow> tfail e))"

definition with_unrestricted_workspace ::
    "env \<Rightarrow> ctx \<Rightarrow> string \<Rightarrow> (err + unit) option \<Rightarrow> db \<Rightarrow> (err + unit) \<times> db" where
  "with_unrestricted_workspace E c i fn = commit_tx (
     tbind (contract_transaction E i) (\<lambda>p.
     tbind (validate_execution_contracts E c p) (\<lambda>_.
     tbind (unrestricted_access E p) (\<lambda>_.
     run_guarded fn))))"

subsection \<open>What the guards allow\<close>

lemma check_claims_None:
  "check_claims i claims keys = None \<longleftrightarrow>
     (\<forall>key \<in> set keys. list_ex (claim_owns i key) claims \<and> \<not> list_ex (claim_blocks i key) claims)"
  by (induction keys) auto

lemma guard_keysD: "guard_keys E w fs = Inr keys \<Longrightarrow> f \<in> set fs \<Longrightarrow> \<exists>key \<in> set keys. \<exists>clean.
    normalize_contract_path f = Inr clean \<and> normalize_owned_path E clean = Inr key \<and> symlink_check E w clean = None"
proof (induction E w fs arbitrary: keys rule: guard_keys.induct)
  case (2 E w g fs)
  then obtain clean key rest where *: "normalize_contract_path g = Inr clean" "symlink_check E w clean = None"
    "normalize_owned_path E clean = Inr key" "guard_keys E w fs = Inr rest" "keys = key # rest"
    by (auto simp: map_sum_Inr_iff split: sum.splits option.splits)
  then show ?case using "2.IH" "2.prems"(2) by (cases "f = g") auto
qed simp

text \<open>The key of a written path is covered by an own reservation and meets no foreign one.\<close>

definition may_write :: "db \<Rightarrow> string \<Rightarrow> string \<Rightarrow> string \<Rightarrow> bool" where
  "may_write s project i key \<longleftrightarrow> list_ex (claim_owns i key) (project_claims project s) \<and>
     \<not> list_ex (claim_blocks i key) (project_claims project s)"

lemma below_common:
  assumes "below k a" and "below k b" shows "below a b \<or> below b a"
  using assms unfolding below_def by (metis append_eq_append_conv2)

lemma below_trans: "below a b \<Longrightarrow> below b c \<Longrightarrow> below a c"
  unfolding below_def by auto

lemma owns_below:
  "claim_owns i key c \<longleftrightarrow> snd c = i \<and> (fst c = ''.'' \<or> below (split_on CHR ''/'' key) (split_on CHR ''/'' (fst c)))"
proof -
  have "key = fst c \<or> has_path_prefix key (fst c) \<longleftrightarrow> below (split_on CHR ''/'' key) (split_on CHR ''/'' (fst c))"
    unfolding has_path_prefix_iff has_prefix_slash_below below_def by (metis append_Nil2 split_on_inj)
  then show ?thesis by (auto simp: claim_owns_def)
qed

text \<open>Two peers are never allowed to write overlapping paths.\<close>

lemma exclusive_writers:
  assumes a: "may_write s project a ka" and b: "may_write s project b kb" and "a \<noteq> b"
  shows "\<not> paths_overlap ka kb"
proof
  assume over: "paths_overlap ka kb"
  from a obtain c where c: "c \<in> set (project_claims project s)" "claim_owns a ka c"
    by (auto simp: may_write_def list_ex_iff)
  then have own: "snd c = a" by (simp add: claim_owns_def)
  with b c(1) assms(3) have free: "\<not> paths_overlap kb (fst c)"
    by (auto simp: may_write_def list_ex_iff claim_blocks_def)
  then have nd: "fst c \<noteq> ''.''" "kb \<noteq> ''.''" by (auto simp: paths_overlap_def)
  have ab: "below (split_on CHR ''/'' ka) (split_on CHR ''/'' (fst c))"
    using c(2) nd by (simp add: owns_below)
  have disj: "\<not> below (split_on CHR ''/'' kb) (split_on CHR ''/'' (fst c))"
    "\<not> below (split_on CHR ''/'' (fst c)) (split_on CHR ''/'' kb)"
    using free paths_overlap_elements [OF nd(2,1)] by simp_all
  have "ka \<noteq> ''.''"
  proof
    assume "ka = ''.''"
    with c(2) nd show False
      by (auto simp: claim_owns_def has_path_prefix_def)
  qed
  with over nd have "below (split_on CHR ''/'' ka) (split_on CHR ''/'' kb) \<or> below (split_on CHR ''/'' kb) (split_on CHR ''/'' ka)"
    by (simp add: paths_overlap_elements)
  then show False
    using ab disj below_common below_trans by blast
qed

lemma owned_path_accessD:
  assumes "owned_path_access E p paths s = (Inr u, s')" and "project_claims (p_project p) s \<noteq> []" and "f \<in> set paths"
  shows "\<exists>clean key. normalize_contract_path f = Inr clean \<and> normalize_owned_path E clean = Inr key \<and>
     symlink_check E (p_workspace p) clean = None \<and> may_write s (p_project p) (p_id p) key"
proof -
  from assms(1,2) obtain keys where keys: "guard_keys E (p_workspace p) paths = Inr keys"
    "check_claims (p_id p) (project_claims (p_project p) s) keys = None"
    by (auto simp: owned_path_access_def tbind_eq_Inr split: if_splits option.splits)
  from guard_keysD [OF keys(1) assms(3)] keys(2) show ?thesis
    by (auto simp: check_claims_None may_write_def)
qed

lemma reads_owned_path_access [reader]: "reads (owned_path_access E p paths)"
  unfolding owned_path_access_def by (intro reader)

lemma reads_validate_execution [reader]: "reads (validate_execution_contracts E c p)"
  unfolding validate_execution_contracts_def by (intro reader)

lemma with_owned_pathsD:
  assumes "with_owned_paths E c i paths fn s = (Inr u, s')"
  obtains p where "s' = s" "p \<in> set (db_peers s)" "p_id p = i" "p_enabled p" "fn = Some (Inr ())"
    "validate_execution_contracts E c p s = (Inr (), s)" "owned_path_access E p paths s = (Inr (), s)"
proof -
  from commit_tx_ok [OF assms [unfolded with_owned_paths_def]] obtain p s1 s2
    where p: "p \<in> set (db_peers s)" "p_id p = i" "p_enabled p"
      and 1: "validate_execution_contracts E c p s = (Inr (), s1)" and 2: "owned_path_access E p paths s1 = (Inr (), s2)"
      and 3: "run_guarded fn s2 = (Inr (Inr u), s')"
    by (auto simp: tbind_eq_Inr dest!: contract_transactionD)
  have e: "s1 = s" "s2 = s1" using reads_state [OF reads_validate_execution 1] reads_state [OF reads_owned_path_access 2] by simp_all
  from 3 have "fn = Some (Inr ()) \<and> s' = s2" by (auto simp: run_guarded_def tbind_eq_Inr split: option.splits)
  with e p 1 2 show thesis by (intro that) simp_all
qed

text \<open>The guarded operations change nothing in the store.\<close>

lemma reads_run_guarded [reader]: "reads (run_guarded fn)"
  unfolding run_guarded_def by (intro reader)

lemma reads_unrestricted [reader]: "reads (unrestricted_access E p)"
  unfolding unrestricted_access_def by (intro reader)

lemma guarded_unchanged:
  "snd (with_owned_paths E c i paths fn s) = s" "snd (with_unrestricted_workspace E c i fn s) = s"
proof -
  have pre: "preorder_rel (\<lambda>s s'. s' = s)" by (auto simp: preorder_rel_def)
  show "snd (with_owned_paths E c i paths fn s) = s"
    unfolding with_owned_paths_def by (rule commit_tx_moves [OF pre]) (intro moves_reads [OF pre] reader reads_contract_transaction)
  show "snd (with_unrestricted_workspace E c i fn s) = s"
    unfolding with_unrestricted_workspace_def by (rule commit_tx_moves [OF pre]) (intro moves_reads [OF pre] reader reads_contract_transaction)
qed

end
