(* ===== verification/Coord_System.thy ===== *)
theory Coord_System
  imports Coord_Usage Coord_Guards
begin

text \<open>
  The coordination store as a transition system: a step is one operation of the store, by any
  actor with any arguments and any answer of the clocks and of the outside world (\<open>env\<close>), in
  any order.  Every reachable state satisfies both invariants, and along every run messages,
  peers and journals only evolve.
\<close>

subsection \<open>Steps\<close>

inductive step :: "db \<Rightarrow> db \<Rightarrow> bool" where
  step_register: "step s (snd (register_peer E p s))"
| step_revoke: "step s (snd (revoke_peer_credential E anchor target token s))"
| step_disable: "step s (snd (disable_peer i s))"
| step_acquire: "step s (snd (acquire_lease E i owner ttl s))"
| step_renew: "step s (snd (renew_lease E l ttl s))"
| step_release: "step s (snd (release_lease l s))"
| step_recover: "step s (snd (recover_external E c i s))"
| step_send: "step s (snd (send E c i inp s))"
| step_reply: "step s (snd (reply_message E c i mid payload key s))"
| step_claim: "step s (snd (claim E c i owner external s))"
| step_transition: "step s (snd (transition E c i mid rv ev payload owner external s))"
| step_complete: "step s (snd (complete_lease E c l mid payload s))"
| step_reconcile: "step s (snd (reconcile_execution_contracts E l mid s))"
| step_create: "step s (snd (create_contract E i sp s))"
| step_update: "step s (snd (update_contract E i cid rv sp s))"
| step_delete: "step s (snd (delete_contract E i cid rv s))"
| step_acknowledge: "step s (snd (acknowledge_contract E i cid rv s))"
| step_usage: "step s (snd (update_task_usage E c mid sample s))"
| step_run: "step s (snd (task_usage_run E c mid finish s))"
| step_review: "step s (snd (review_request E i r s))"

inductive reachable :: "db \<Rightarrow> bool" where
  reachable_init: "reachable empty_db"
| reachable_step: "reachable s \<Longrightarrow> step s s' \<Longrightarrow> reachable s'"

definition system_inv :: "db \<Rightarrow> bool" where
  "system_inv s \<longleftrightarrow> db_inv s \<and> contracts_inv s"

definition system_step :: "db \<Rightarrow> db \<Rightarrow> bool" where
  "system_step s s' \<longleftrightarrow> (system_inv s \<longrightarrow> system_inv s' \<and> evolves s s')"

lemma system_core: "core_step s s' \<Longrightarrow> system_step s s'"
  unfolding system_step_def system_inv_def core_step_def by (metis contracts_inv_tables)

lemma system_contract: "contract_step s s' \<Longrightarrow> system_step s s'"
  using contract_step_frame [of s s'] unfolding system_step_def system_inv_def
  by (simp add: contract_step_def)

lemmas core_operations = core_register_peer core_revoke_peer_credential core_disable_peer core_acquire_lease core_renew_lease
  core_release_lease core_recover_external core_send core_reply_message core_claim core_transition
  core_complete_lease core_reconcile core_update_task_usage core_task_usage_run core_review_request

lemmas contract_operations = step_create_contract step_update_contract step_delete_contract
  step_acknowledge_contract

lemma system_step: "step s s' \<Longrightarrow> system_step s s'"
  by (induction rule: step.induct) (rule system_core core_operations system_contract contract_operations)+

lemma reachable_system_inv: "reachable s \<Longrightarrow> system_inv s"
proof (induction rule: reachable.induct)
  case reachable_init
  show ?case by (simp add: system_inv_def db_inv_empty contracts_inv_empty)
next
  case (reachable_step s s')
  then show ?case using system_step by (auto simp: system_step_def)
qed

lemma reachable_db_inv: "reachable s \<Longrightarrow> db_inv s"
  using reachable_system_inv by (simp add: system_inv_def)

lemma reachable_contracts_inv: "reachable s \<Longrightarrow> contracts_inv s"
  using reachable_system_inv by (simp add: system_inv_def)

lemma run_evolves: "step\<^sup>*\<^sup>* s s' \<Longrightarrow> reachable s \<Longrightarrow> reachable s' \<and> evolves s s'"
proof (induction rule: rtranclp_induct)
  case (step y z)
  then have "reachable y" "evolves s y" by simp_all
  moreover from this step(2) have "evolves y z"
    using system_step reachable_system_inv by (auto simp: system_step_def)
  ultimately show ?case using step(2) by (blast intro: reachable_step evolves_trans)
qed simp

lemma evolves_message:
  assumes "evolves s s'" and "i < length (db_messages s)"
  shows "i < length (db_messages s') \<and> msg_le (db_messages s ! i) (db_messages s' ! i)"
  using assms by (auto simp: evolves_def rows_le_def)

lemma evolves_find:
  assumes "evolves s s'" and "m \<in> set (db_messages s)"
  shows "\<exists>m' \<in> set (db_messages s'). msg_le m m'"
proof -
  from assms(2) obtain i where "i < length (db_messages s)" "db_messages s ! i = m" by (auto simp: in_set_conv_nth)
  with evolves_message [OF assms(1)] show ?thesis by (metis nth_mem)
qed

end
