(* ===== verification/Coord_Scenario.thy ===== *)
theory Coord_Scenario
  imports Coord_System
begin

text \<open>
  A concrete run of the store, used to show that the hypotheses of the properties can hold:
  two peers register, one sends a request, the other acquires a lease and claims it.  The
  evaluation is by rewriting: \<open>tbind_step\<close> runs a query or update before its continuation is
  looked at.
\<close>

subsection \<open>Evaluation\<close>

definition continue_with :: "('e + 'a) \<times> 's \<Rightarrow> ('a \<Rightarrow> ('s, 'e, 'b) tx) \<Rightarrow> ('e + 'b) \<times> 's" where
  "continue_with r f = (case r of (Inl e, s') \<Rightarrow> (Inl e, s') | (Inr a, s') \<Rightarrow> f a s')"

lemma tbind_step: "tbind m f s = continue_with (m s) f"
  by (simp add: tbind_def continue_with_def)

lemma continue_simps:
  "continue_with (Inr a, s) f = f a s" "continue_with (Inl e, s) f = (Inl e, s)"
  by (simp_all add: continue_with_def)

lemma continue_cong: "r = r' \<Longrightarrow> continue_with r f = continue_with r' f"
  by simp

lemma tbind_cong_weak: "m = m' \<Longrightarrow> tbind m f = tbind m' f"
  by simp

lemma tlook_step: "tlook g e s = (case g s of None \<Rightarrow> (Inl e, s) | Some a \<Rightarrow> (Inr a, s))"
  by (simp add: tlook_def)

lemma ttry_step: "ttry m s = (case m s of (r, s') \<Rightarrow> (Inr r, s'))"
  by (simp add: ttry_def)

lemmas run_tx = tbind_step continue_simps tlook_step ttry_step tguard_run tfor.simps

subsection \<open>The outside world\<close>

definition sample_env :: "int \<Rightarrow> string \<Rightarrow> env" where
  "sample_env t i = \<lparr>now = t, tx_now = t, commit_now = t, app_now = t, fresh_id = i, fresh_conversation = ''c'' @ i,
     fresh_secret = ''secret-'' @ i, uuid_parse = Some, fold_path = (\<lambda>p. p), sha256 = (\<lambda>x. ''h'' @ x),
     request_hash = (\<lambda>inp b l. in_key inp @ ''/'' @ in_payload inp), review_hash = (\<lambda>r. rq_review r @ rq_note r),
     repository_check = (\<lambda>_. None), symlink_check = (\<lambda>_ _. None), endpoint_valid = (\<lambda>_. True),
     workspace_canonical = Some, schema_object = (\<lambda>_. True), schema_equal = (\<lambda>a b. a = b), spec_bytes = (\<lambda>_. 0)\<rparr>"

lemma sample_env_simps [simp]:
  "now (sample_env t i) = t" "tx_now (sample_env t i) = t" "commit_now (sample_env t i) = t"
  "app_now (sample_env t i) = t" "fresh_id (sample_env t i) = i" "fresh_conversation (sample_env t i) = ''c'' @ i"
  "fresh_secret (sample_env t i) = ''secret-'' @ i" "uuid_parse (sample_env t i) = Some"
  "fold_path (sample_env t i) = (\<lambda>p. p)" "sha256 (sample_env t i) = (\<lambda>x. ''h'' @ x)"
  "request_hash (sample_env t i) inp b l = in_key inp @ ''/'' @ in_payload inp"
  "review_hash (sample_env t i) r = rq_review r @ rq_note r"
  "repository_check (sample_env t i) p = None" "symlink_check (sample_env t i) w f = None"
  "endpoint_valid (sample_env t i) x" "workspace_canonical (sample_env t i) w = Some w"
  "schema_object (sample_env t i) x" "schema_equal (sample_env t i) x y = (x = y)" "spec_bytes (sample_env t i) sp = 0"
  by (simp_all add: sample_env_def)

definition submitted_peer :: "string \<Rightarrow> peer" where
  "submitted_peer n = \<lparr>p_id = '''', p_project = ''proj'', p_name = n, p_role = ''worker'', p_workspace = ''/w'',
     p_endpoint = '''', p_capabilities = [], p_enabled = False\<rparr>"

definition stored_peer :: "string \<Rightarrow> string \<Rightarrow> peer" where
  "stored_peer i n = \<lparr>p_id = i, p_project = ''proj'', p_name = n, p_role = ''worker'', p_workspace = ''/w'',
     p_endpoint = '''', p_capabilities = [], p_enabled = True\<rparr>"

definition stored_credential :: "string \<Rightarrow> credential" where
  "stored_credential i = \<lparr>c_hash = ''hsecret-'' @ i, c_peer = i, c_revoked = False, c_expires = None\<rparr>"

definition sample_request :: "string \<Rightarrow> string \<Rightarrow> send_input" where
  "sample_request to key = \<lparr>in_contracts = [], in_depends_on = [], in_to = to, in_kind = ''request'',
     in_conversation = '''', in_task = ''t'', in_reply_to = '''', in_payload = ''{}'', in_deadline = None, in_key = key\<rparr>"

lemma sample_request_simps [simp]:
  "in_contracts (sample_request to key) = []" "in_depends_on (sample_request to key) = []"
  "in_to (sample_request to key) = to" "in_kind (sample_request to key) = ''request''"
  "in_conversation (sample_request to key) = []" "in_task (sample_request to key) = ''t''"
  "in_reply_to (sample_request to key) = []" "in_payload (sample_request to key) = ''{}''"
  "in_deadline (sample_request to key) = None" "in_key (sample_request to key) = key"
  by (simp_all add: sample_request_def)

definition sample_message :: message where
  "sample_message = \<lparr>m_id = ''m1'', m_project = ''proj'', m_from = ''pa'', m_to = ''pb'', m_kind = ''request'',
     m_conversation = ''cm1'', m_task = ''t'', m_in_reply_to = '''', m_payload = ''{}'', m_state = Accepted,
     m_revision = 1, m_created = 3, m_updated = 3, m_deadline = 86400000003, m_parent = '''', m_depth = 1,
     m_attempts = 0, m_depends_on = [], m_contracts = [], m_key = ''k1'', m_hash = ''k1/{}''\<rparr>"

subsection \<open>The run\<close>

definition st1 :: db where
  "st1 = empty_db\<lparr>db_peers := [stored_peer ''pa'' ''alice''], db_creds := [stored_credential ''pa'']\<rparr>"

definition st2 :: db where
  "st2 = empty_db\<lparr>db_peers := [stored_peer ''pa'' ''alice'', stored_peer ''pb'' ''bob''],
     db_creds := [stored_credential ''pa'', stored_credential ''pb'']\<rparr>"

definition st3 :: db where
  "st3 = st2\<lparr>db_messages := [sample_message],
     db_cursor := (\<lambda>_. 0)(''proj'' := 1),
     db_events := [\<lparr>e_project = ''proj'', e_seq = 1, e_message = ''m1'', e_revision = 1, e_type = ''accepted'',
       e_payload = EmptyObject, e_created = 3\<rparr>],
     db_usage := [new_usage ''proj'' ''task:t'' ''t'' ''pa'' no_limits]\<rparr>"

definition sample_lease :: lease where
  "sample_lease = \<lparr>ls_peer = ''pb'', ls_owner = ''w1'', ls_expires = 1000004, ls_capability = ''secret-o''\<rparr>"

definition st4 :: db where
  "st4 = st3\<lparr>db_leases := [\<lparr>l_peer = ''pb'', l_owner = ''w1'', l_expires = 1000004, l_transport = ''hsecret-o''\<rparr>]\<rparr>"

definition claimed_message :: message where
  "claimed_message = sample_message\<lparr>m_state := Started, m_revision := 2, m_attempts := 1, m_updated := 5\<rparr>"

definition st5 :: db where
  "st5 = st4\<lparr>db_messages := [claimed_message],
     db_cursor := (\<lambda>_. 0)(''proj'' := 2),
     db_events := db_events st4 @ [\<lparr>e_project = ''proj'', e_seq = 2, e_message = ''m1'', e_revision = 2,
       e_type = ''started'', e_payload = EmptyObject, e_created = 5\<rparr>]\<rparr>"

lemma sample_names: "peer_name_ok ''alice''" "peer_name_ok ''bob''" "trim_space ''proj'' \<noteq> []" "trim_space ''worker'' \<noteq> []"
  by code_simp+

lemma sample_json: "json_valid ''{}''"
  by code_simp

lemma run_register:
  "register_peer (sample_env 1 ''pa'') (submitted_peer ''alice'') empty_db = (Inr (stored_peer ''pa'' ''alice'', ''secret-pa''), st1)"
  "register_peer (sample_env 2 ''pb'') (submitted_peer ''bob'') st1 = (Inr (stored_peer ''pb'' ''bob'', ''secret-pb''), st2)"
  using sample_names
  by (simp_all add: register_peer_def commit_tx_def run_tx prepare_peer_def submitted_peer_def stored_peer_def
      insert_peer_def insert_credential_def st1_def st2_def empty_db_def stored_credential_def
      cong: continue_cong tbind_cong_weak)

lemma sample_shape: "send_shape (sample_env 3 ''m1'') (sample_request ''bob'' ''k1'') = None"
  using sample_json sample_names
  by (simp add: send_shape_def sample_request_def send_kinds_def validate_required_contracts_def
      validate_dependencies_def max_dependencies_def)

lemma ancestry_root: "ancestry_reason s project to seen n [] = Inr None"
  by (cases n) simp_all

lemmas run_send = ancestry_root send_def commit_peer_transaction_def send_tx_def send_open_def lock_admission_def enabled_peer_def
  check_scoped_credential_def plain_ctx_def validate_repository_peer_def find_receipt_def send_resolve_def
  derive_lineage_def is_answer_def send_contracts_def inherit_request_contracts_def inherit_reply_def check_pins_def
  pins_current_def authorize_dependencies_def reply_answerable_def enforce_reply_def reply_unanswered_def
  send_finish_def send_account_def ensure_usage_def put_usage_def find_usage_def usage_at_def new_usage_def
  input_usage_scope_def usage_scope_def no_limits_def check_admission_def open_reply_def admission_reason_def
  max_request_depth_def max_conversation_requests_def max_peer_queue_def max_project_queue_def
  send_store_def find_message_def new_message_def send_complete_def append_event_def event_fits_def push_event_def
  send_digest_def Let_def

lemma run_send_request:
  "send (sample_env 3 ''m1'') plain_ctx ''pa'' (sample_request ''bob'' ''k1'') st2 = (Inr sample_message, st3)"
  by (simp add: run_send run_tx sample_shape st2_def st3_def empty_db_def stored_peer_def
      sample_message_def cong: continue_cong tbind_cong_weak)

lemma run_acquire: "acquire_lease (sample_env 4 ''o'') ''pb'' ''w1'' 1000000000 st3 = (Inr sample_lease, st4)"
  by (simp add: acquire_lease_def commit_tx_def run_tx ttl_ok_def lock_peer_def validate_repository_peer_def
      interrupted_work_def order_by_def mark_all_def upsert_lease_def lease_until_def st2_def st3_def st4_def
      empty_db_def stored_peer_def sample_message_def sample_lease_def cong: continue_cong tbind_cong_weak)

lemmas run_claim = claim_def commit_peer_transaction_def claim_open_def lock_admission_def lock_peer_def
  validate_repository_peer_def check_scoped_credential_def plain_ctx_def check_lease_def busy_peer_def
  claim_select_def expired_work_def order_by_def mark_all_def
  next_broken_def first_by_def claim_contract_ready_def claim_candidates_def start_claimed_def
  max_execution_attempts_def start_message_def update_state_def put_state_def update_rows_def set_state_def
  find_message_def append_event_def event_fits_def push_event_def Let_def

lemma fail_none: "next_broken p s = None \<Longrightarrow> fail_dependencies E p s = (Inr 0, s)"
  by (simp add: fail_dependencies_def max_peer_queue_def numeral_eq_Suc run_tx)

lemma run_claim_lease: "claim_lease (sample_env 5 ''x'') plain_ctx sample_lease st4 = (Inr claimed_message, st5)"
  by (simp add: claim_lease_def validate_lease_def run_claim run_tx fail_none st2_def st3_def st4_def st5_def
      empty_db_def stored_peer_def sample_message_def claimed_message_def sample_lease_def
      cong: continue_cong tbind_cong_weak)

text \<open>Every state of the run is reachable.\<close>

lemma reachable_st2: "reachable st2"
proof -
  have "reachable st1"
    using step_register [of empty_db "sample_env 1 ''pa''" "submitted_peer ''alice''"]
    by (simp add: run_register reachable_step [OF reachable_init])
  then show ?thesis
    using step_register [of st1 "sample_env 2 ''pb''" "submitted_peer ''bob''"]
    by (simp add: run_register reachable_step)
qed

lemma step_st3: "step st2 st3"
  using step_send [of st2 "sample_env 3 ''m1''" plain_ctx "''pa''" "sample_request ''bob'' ''k1''"]
  by (simp add: run_send_request)

lemma step_st4: "step st3 st4"
  using step_acquire [of st3 "sample_env 4 ''o''" "''pb''" "''w1''" 1000000000] by (simp add: run_acquire)

lemma step_st5: "step st4 st5"
proof -
  have "fst (validate_lease (sample_env 5 ''x'') sample_lease st4) = Inr ()"
    by (simp add: validate_lease_def tguard_run)
  then have "claim (sample_env 5 ''x'') plain_ctx ''pb'' ''w1'' False st4 = (Inr claimed_message, st5)"
    using run_claim_lease by (simp add: claim_lease_def sample_lease_def)
  then show ?thesis
    using step_claim [of st4 "sample_env 5 ''x''" plain_ctx "''pb''" "''w1''" False] by simp
qed

lemma reachable_st3: "reachable st3"
  by (rule reachable_step [OF reachable_st2 step_st3])

lemma reachable_st4: "reachable st4"
  by (rule reachable_step [OF reachable_st3 step_st4])

lemma reachable_st5: "reachable st5"
  by (rule reachable_step [OF reachable_st4 step_st5])

text \<open>The worker completes the request and releases its lease.\<close>

definition completed_message :: message where
  "completed_message = claimed_message\<lparr>m_state := Completed, m_revision := 3, m_updated := 6\<rparr>"

definition st6 :: db where
  "st6 = st5\<lparr>db_messages := [completed_message],
     db_cursor := (\<lambda>_. 0)(''proj'' := 3),
     db_events := db_events st5 @ [\<lparr>e_project = ''proj'', e_seq = 3, e_message = ''m1'', e_revision = 3,
       e_type = ''completed'', e_payload = Raw ''{}'', e_created = 6\<rparr>]\<rparr>"

definition st7 :: db where
  "st7 = st6\<lparr>db_leases := []\<rparr>"

lemmas run_transition = transition_def commit_peer_transaction_def transition_open_def bounded_payload_def
  lock_admission_def lock_peer_def validate_repository_peer_def check_scoped_credential_def plain_ctx_def
  check_lease_def select_message_def participant_def terminal_def next_state_def apply_transition_def
  enforce_request_contracts_def update_state_def put_state_def update_rows_def set_state_def
  find_message_def append_event_def event_fits_def push_event_def Let_def

lemma run_complete:
  "worker_transition (sample_env 6 ''x'') plain_ctx sample_lease ''m1'' 2 ''completed'' ''{}'' st5 = (Inr completed_message, st6)"
  by (simp add: worker_transition_def validate_lease_def run_transition run_tx sample_json st2_def st3_def st4_def st5_def
      st6_def empty_db_def stored_peer_def sample_message_def claimed_message_def completed_message_def sample_lease_def
      cong: continue_cong tbind_cong_weak)

lemma run_release: "release_lease sample_lease st6 = (Inr (), st7)"
  by (simp add: release_lease_def commit_tx_def run_tx delete_rows_def st2_def st3_def st4_def st5_def st6_def st7_def
      empty_db_def sample_lease_def cong: continue_cong tbind_cong_weak)

lemma step_st6: "step st5 st6"
proof -
  have "fst (validate_lease (sample_env 6 ''x'') sample_lease st5) = Inr ()"
    by (simp add: validate_lease_def tguard_run)
  then have "transition (sample_env 6 ''x'') plain_ctx ''pb'' ''m1'' 2 ''completed'' ''{}'' ''w1'' False st5 = (Inr completed_message, st6)"
    using run_complete by (simp add: worker_transition_def sample_lease_def)
  then show ?thesis
    using step_transition [of st5 "sample_env 6 ''x''" plain_ctx "''pb''" "''m1''" 2 "''completed''" "''{}''" "''w1''" False]
    by simp
qed

lemma step_st7: "step st6 st7"
  using step_release [of st6 sample_lease] by (simp add: run_release)

lemma reachable_st6: "reachable st6"
  by (rule reachable_step [OF reachable_st5 step_st6])

lemma reachable_st7: "reachable st7"
  by (rule reachable_step [OF reachable_st6 step_st7])

end
