(* ===== verification/Coord_Contract_Scenario.thy ===== *)
theory Coord_Contract_Scenario
  imports Coord_Scenario
begin

text \<open>
  A second concrete run, on contracts: \<open>alice\<close> reserves \<open>src\<close> with contract \<open>k1\<close>, \<open>bob\<close>
  reserves \<open>doc\<close> with \<open>k2\<close>, which pins \<open>k1\<close> at revision 1, and \<open>alice\<close> publishes revision 2.
\<close>

definition spec_one :: "string \<Rightarrow> contract_dep list \<Rightarrow> string \<Rightarrow> compat_change list \<Rightarrow> contract_spec" where
  "spec_one path deps version changes = \<lparr>sp_name = ''api'', sp_endpoint = ''/v1'', sp_version = version, sp_schema = ''{}'',
     sp_criteria = [''ok''], sp_artifacts = [], sp_workspace = ''/w'', sp_worktree = '''', sp_paths = [path], sp_deps = deps,
     sp_changes = changes, sp_task = ''''\<rparr>"

lemma sample_texts:
  "utf8_valid ''api''" "utf8_valid ''/v1''" "utf8_valid ''1''" "utf8_valid ''2''" "utf8_valid ''ok''" "utf8_valid ''''"
  "utf8_valid ''src''" "utf8_valid ''doc''"
  "trim_space ''api'' \<noteq> []" "trim_space ''/v1'' \<noteq> []" "trim_space ''1'' \<noteq> []" "trim_space ''2'' \<noteq> []" "trim_space ''ok'' \<noteq> []"
  "trim_space ''src'' \<noteq> []" "trim_space ''doc'' \<noteq> []"
  by code_simp+

lemma sample_clean: "path_clean ''src'' = ''src''" "path_clean ''doc'' = ''doc''"
  by code_simp+

lemma prepare_one:
  assumes "path = ''src'' \<or> path = ''doc''" and "version = ''1'' \<or> version = ''2''"
    and "deps = [] \<or> deps = [\<lparr>cd_contract = ''k1'', cd_revision = 1\<rparr>]"
    and "changes = [] \<or> changes = [\<lparr>cc_kind = ''breaking'', cc_from = ''1'', cc_to = ''2'', cc_description = ''ok''\<rparr>]"
  shows "prepare_contract_spec (sample_env t j) (stored_peer i n) (spec_one path deps version changes) = Inr (spec_one path deps version changes)"
  using assms sample_texts sample_json sample_clean
  by (auto simp: prepare_contract_spec_def spec_one_def valid_contract_text_def stored_peer_def normalize_contract_path_def
      normalize_owned_path_def contains_any_def path_metachars_def change_ok_def order_by_def)

definition contract_one :: contract where
  "contract_one = \<lparr>k_id = ''k1'', k_project = ''proj'', k_owner = ''pa'', k_revision = 1,
     k_spec = spec_one ''src'' [] ''1'' [], k_created = 3, k_updated = 3\<rparr>"

definition sc1 :: db where
  "sc1 = stored_graph (sample_env 3 ''k1'') contract_one (st2\<lparr>db_contracts := [contract_one]\<rparr>)"

definition pin_one :: contract_dep where "pin_one = \<lparr>cd_contract = ''k1'', cd_revision = 1\<rparr>"

definition contract_two :: contract where
  "contract_two = \<lparr>k_id = ''k2'', k_project = ''proj'', k_owner = ''pb'', k_revision = 1,
     k_spec = spec_one ''doc'' [pin_one] ''1'' [], k_created = 4, k_updated = 4\<rparr>"

definition sc2 :: db where
  "sc2 = stored_graph (sample_env 4 ''k2'') contract_two (sc1\<lparr>db_contracts := [contract_one, contract_two]\<rparr>)"

definition announced :: compat_change where
  "announced = \<lparr>cc_kind = ''breaking'', cc_from = ''1'', cc_to = ''2'', cc_description = ''ok''\<rparr>"

definition contract_one' :: contract where
  "contract_one' = bump_contract (sample_env 5 ''x'') (spec_one ''src'' [] ''2'' [announced]) contract_one"

definition sc3 :: db where
  "sc3 = stored_graph (sample_env 5 ''x'') contract_one' (sc2\<lparr>db_contracts := [contract_one', contract_two]\<rparr>)"

lemma owned_src:
  "normalize_owned_path (sample_env t i) ''src'' = Inr ''src''" "normalize_owned_path (sample_env t i) ''doc'' = Inr ''doc''"
  using sample_texts sample_clean
  by (simp_all add: normalize_owned_path_def normalize_contract_path_def valid_contract_text_def
      contains_any_def path_metachars_def)

lemma key_src: "path_key (sample_env t i) ''src'' = Some ''src''" "path_key (sample_env t i) ''doc'' = Some ''doc''"
  by (simp_all add: path_key_def owned_src)

lemmas run_contract = commit_tx_def contract_transaction_def enabled_peer_def validate_repository_peer_def
  check_contract_paths_def other_paths_def order_by_def contract_in_project_def insert_contract_def Let_def

lemma run_persist:
  "list_all (\<lambda>p. path_key E p \<noteq> None) (sp_paths (k_spec k)) \<Longrightarrow> persist_contract_graph E k s = (Inr (), stored_graph E k s)"
  by (simp add: persist_contract_graph_def run_tx stored_graph_def cong: continue_cong tbind_cong_weak)

lemma sample_peers: "db_peers st2 = [stored_peer ''pa'' ''alice'', stored_peer ''pb'' ''bob'']"
  "p_id (stored_peer a b) = a" "p_project (stored_peer a b) = ''proj''" "p_enabled (stored_peer a b)"
  by (simp_all add: st2_def stored_peer_def)

lemma spec_one_simps:
  "sp_paths (spec_one path deps version changes) = [path]" "sp_deps (spec_one path deps version changes) = deps"
  "sp_schema (spec_one path deps version changes) = ''{}''" "sp_endpoint (spec_one path deps version changes) = ''/v1''"
  "sp_version (spec_one path deps version changes) = version" "sp_changes (spec_one path deps version changes) = changes"
  by (simp_all add: spec_one_def)

lemma sc_rows:
  "db_paths sc1 = [\<lparr>pr_contract = ''k1'', pr_project = ''proj'', pr_path = ''src''\<rparr>]"
  "db_deps sc1 = []" "db_contracts sc1 = [contract_one]" "db_peers sc1 = db_peers st2"
  by (simp_all add: sc1_def stored_graph_def st2_def empty_db_def delete_rows_def path_rows_def dep_rows_def contract_one_def
      spec_one_def List.map_filter_def key_src)

lemma sc2_rows:
  "db_paths sc2 = [\<lparr>pr_contract = ''k1'', pr_project = ''proj'', pr_path = ''src''\<rparr>, \<lparr>pr_contract = ''k2'', pr_project = ''proj'', pr_path = ''doc''\<rparr>]"
  "db_deps sc2 = [\<lparr>d_contract = ''k2'', d_dependency = ''k1'', d_revision = 1\<rparr>]"
  "db_contracts sc2 = [contract_one, contract_two]" "db_peers sc2 = db_peers st2"
  by (simp_all add: sc2_def stored_graph_def sc_rows delete_rows_def path_rows_def dep_rows_def contract_two_def
      spec_one_def List.map_filter_def key_src pin_one_def)

lemma run_create_one: "create_contract (sample_env 3 ''k1'') ''pa'' (spec_one ''src'' [] ''1'' []) st2 = (Inr contract_one, sc1)"
proof -
  have prep: "prepare_contract_spec (sample_env 3 ''k1'') (stored_peer ''pa'' ''alice'') (spec_one ''src'' [] ''1'' []) = Inr (spec_one ''src'' [] ''1'' [])"
    by (rule prepare_one) simp_all
  have rows: "db_paths st2 = []" "db_contracts st2 = []" by (simp_all add: st2_def empty_db_def)
  show ?thesis
    by (simp add: create_contract_def run_contract run_tx prep spec_one_simps sample_peers rows run_persist key_src
        contract_one_def sc1_def cong: continue_cong tbind_cong_weak)
qed

lemma run_create_two: "create_contract (sample_env 4 ''k2'') ''pb'' (spec_one ''doc'' [pin_one] ''1'' []) sc1 = (Inr contract_two, sc2)"
proof -
  have prep: "prepare_contract_spec (sample_env 4 ''k2'') (stored_peer ''pb'' ''bob'') (spec_one ''doc'' [pin_one] ''1'' []) = Inr (spec_one ''doc'' [pin_one] ''1'' [])"
    by (rule prepare_one) (simp_all add: pin_one_def)
  have k1: "k_id contract_one = ''k1''" "k_project contract_one = ''proj''" "k_revision contract_one = 1"
    by (simp_all add: contract_one_def)
  have reach: "reachable_ids [] ''k1'' = []" by (simp add: reachable_ids_def dep_targets_def)
  show ?thesis
    by (simp add: create_contract_def run_contract run_tx prep [unfolded pin_one_def] spec_one_simps sample_peers sc_rows run_persist key_src
        owned_src paths_overlap_def reach pin_one_def k1 contract_two_def sc2_def cong: continue_cong tbind_cong_weak)
qed

lemma run_update_one: "update_contract (sample_env 5 ''x'') ''pa'' ''k1'' 1 (spec_one ''src'' [] ''2'' [announced]) sc2 = (Inr contract_one', sc3)"
proof -
  have prep: "prepare_contract_spec (sample_env 5 ''x'') (stored_peer ''pa'' ''alice'') (spec_one ''src'' [] ''2'' [announced]) = Inr (spec_one ''src'' [] ''2'' [announced])"
    by (rule prepare_one) (simp_all add: announced_def)
  have compat: "compatibility_error (sample_env 5 ''x'') (spec_one ''src'' [] ''1'' []) (spec_one ''src'' [] ''2'' [announced]) = None"
    by (simp add: compatibility_error_def spec_one_simps schema_version_declared_def announced_def)
  show ?thesis
    by (simp add: update_contract_def run_contract run_tx prep spec_one_simps sample_peers sc2_rows run_persist key_src
        owned_src paths_overlap_def compat contract_one_def contract_two_def contract_one'_def sc3_def bump_contract_def update_rows_def
        cong: continue_cong tbind_cong_weak)
qed

lemma reachable_sc: "reachable sc1" "reachable sc2" "reachable sc3"
proof -
  show 1: "reachable sc1"
    using step_create [of st2 "sample_env 3 ''k1''" "''pa''" "spec_one ''src'' [] ''1'' []"]
    by (simp add: run_create_one reachable_step [OF reachable_st2])
  show 2: "reachable sc2"
    using step_create [of sc1 "sample_env 4 ''k2''" "''pb''" "spec_one ''doc'' [pin_one] ''1'' []"]
    by (simp add: run_create_two reachable_step [OF 1])
  show "reachable sc3"
    using step_update [of sc2 "sample_env 5 ''x''" "''pa''" "''k1''" 1 "spec_one ''src'' [] ''2'' [announced]"]
    by (simp add: run_update_one reachable_step [OF 2])
qed

end
