(* ===== verification/Coord_Properties.thy ===== *)
theory Coord_Properties
  imports Coord_Scenario
begin

text \<open>
  The properties of the coordination store that hold in every reachable state and along every
  run, and what its single operations promise.  Each is followed by its instance on the
  concrete run of \<open>Coord_Scenario\<close>.
\<close>

subsection \<open>Every reachable state\<close>

text \<open>
  C1. A peer executes at most one message at a time: in every reachable state at most one
  message addressed to it is in state started, whatever sequence of sends, claims, transitions,
  lease operations and reviews led there.
\<close>

theorem single_execution:
  assumes "reachable s"
  shows "card {m \<in> set (db_messages s). m_state m = Started \<and> m_to m = i} \<le> 1"
proof -
  note inv = db_invD [OF reachable_db_inv [OF assms]]
  have "a = b" if "a \<in> {m \<in> set (db_messages s). m_state m = Started \<and> m_to m = i}"
    "b \<in> {m \<in> set (db_messages s). m_state m = Started \<and> m_to m = i}" for a b
    using that inv(7) ids_ok_inj [OF inv(3)] by (simp add: started_ok_def)
  then show ?thesis by (simp add: card_le_Suc0_iff_eq)
qed

theorem single_execution_witness:
  "card {m \<in> set (db_messages st5). m_state m = Started \<and> m_to m = ''pb''} \<le> 1 \<and>
   claimed_message \<in> {m \<in> set (db_messages st5). m_state m = Started \<and> m_to m = ''pb''}"
  using single_execution [OF reachable_st5, of "''pb''"]
  by (simp add: st5_def claimed_message_def sample_message_def)



text \<open>
  C3. Along every run a message keeps its identity, correspondents, content and prerequisites,
  its revision and attempt count never decrease, and the event journal is only appended to.
\<close>

theorem message_history:
  assumes "reachable s" and "step\<^sup>*\<^sup>* s s'" and "m \<in> set (db_messages s)"
  shows "(\<exists>m' \<in> set (db_messages s'). m_id m' = m_id m \<and> m_project m' = m_project m \<and> m_from m' = m_from m \<and>
       m_to m' = m_to m \<and> m_kind m' = m_kind m \<and> m_payload m' = m_payload m \<and> m_parent m' = m_parent m \<and>
       m_depends_on m' = m_depends_on m \<and> m_contracts m' = m_contracts m \<and> m_deadline m' = m_deadline m \<and>
       m_revision m \<le> m_revision m' \<and> m_attempts m \<le> m_attempts m') \<and>
     (\<exists>es. db_events s' = db_events s @ es)"
proof -
  have ev: "evolves s s'" using run_evolves [OF assms(2,1)] by simp
  from evolves_find [OF ev assms(3)] obtain m' where m': "m' \<in> set (db_messages s')" "msg_le m m'" by auto
  then have "same_envelope m m'" "m_revision m \<le> m_revision m'" "m_attempts m \<le> m_attempts m'"
    by (simp_all add: msg_le_def)
  then have "m_id m' = m_id m \<and> m_project m' = m_project m \<and> m_from m' = m_from m \<and>
       m_to m' = m_to m \<and> m_kind m' = m_kind m \<and> m_payload m' = m_payload m \<and> m_parent m' = m_parent m \<and>
       m_depends_on m' = m_depends_on m \<and> m_contracts m' = m_contracts m \<and> m_deadline m' = m_deadline m \<and>
       m_revision m \<le> m_revision m' \<and> m_attempts m \<le> m_attempts m'"
    by (cases m; cases m') (simp add: same_envelope_def)
  with m'(1) ev show ?thesis by (auto simp: evolves_def)
qed

theorem message_history_witness:
  "\<exists>m' \<in> set (db_messages st6). m_id m' = ''m1'' \<and> m_payload m' = ''{}'' \<and> 2 \<le> m_revision m'"
proof -
  have "claimed_message \<in> set (db_messages st5)" by (simp add: st5_def)
  from message_history [OF reachable_st5 r_into_rtranclp [of step, OF step_st6] this]
  show ?thesis by (auto simp: claimed_message_def sample_message_def)
qed

text \<open>
  C4. The event journal has no gaps: in every reachable state the sequence numbers of a
  project's events are exactly 1, 2, up to the project's cursor, in the order of the appends,
  and every event is about a stored message and a revision it has reached, at most one event
  per revision.
\<close>

theorem event_journal_gapless:
  assumes "reachable s"
  shows "map e_seq (filter (\<lambda>e. e_project e = p) (db_events s)) = [1..db_cursor s p] \<and>
     distinct (map (\<lambda>e. (e_message e, e_revision e)) (db_events s)) \<and>
     list_all (\<lambda>e. list_ex (\<lambda>m. m_id m = e_message e \<and> e_revision e \<le> m_revision m) (db_messages s)) (db_events s)"
proof -
  note inv = db_invD [OF reachable_db_inv [OF assms]]
  have "map e_seq (filter (\<lambda>e. e_project e = p) (db_events s)) = [1..db_cursor s p]"
    using inv(10) by (simp add: ev.gapless_def event_journal_def event_numbers_def)
  moreover have "list_all (\<lambda>e. list_ex (\<lambda>m. m_id m = e_message e \<and> e_revision e \<le> m_revision m) (db_messages s)) (db_events s)"
    using inv(9) by (force simp: events_ok_def list_all_iff list_ex_iff)
  ultimately show ?thesis using inv(9) by (simp add: events_ok_def)
qed

theorem event_journal_gapless_witness:
  "map e_seq (filter (\<lambda>e. e_project e = ''proj'') (db_events st6)) = [1, 2, 3]"
  using event_journal_gapless [OF reachable_st6, of "''proj''"]
  by (simp add: st6_def upto_rec1)

lemma order_by_page:
  fixes key :: "'a \<Rightarrow> int"
  assumes es: "es = take n (order_by key F)"
  shows "sorted (map key es)" and "set es \<subseteq> set F"
    and "e \<in> set F \<Longrightarrow> e \<notin> set es \<Longrightarrow> length es = n \<and> (\<forall>x \<in> set es. key x \<le> key e)"
proof -
  define rest where "rest = drop n (order_by key F)"
  have split: "order_by key F = es @ rest" unfolding es rest_def by simp
  have srt: "sorted (map key (es @ rest))" unfolding split [symmetric] by (simp add: order_by_def)
  have all: "set F = set es \<union> set rest" using set_order_by [of key F] unfolding split by simp
  from srt show "sorted (map key es)" by (simp add: sorted_append)
  from all show "set es \<subseteq> set F" by blast
  assume "e \<in> set F" "e \<notin> set es"
  with all have e: "e \<in> set rest" by blast
  then have "rest \<noteq> []" by auto
  then have "length es = n" unfolding es rest_def by simp
  with e srt show "length es = n \<and> (\<forall>x \<in> set es. key x \<le> key e)" by (auto simp: sorted_append)
qed

lemma events_after_run:
  assumes "events_after E i after lim s = (Inr es, s')"
  shows "s' = s" and "1 \<le> lim"
    and "es = take (nat lim) (order_by e_seq (filter (\<lambda>e. visible_event i s e \<and> after < e_seq e) (db_events s)))"
proof -
  from assms obtain s1 where id: "validate_repository_peer_id E i s = (Inr (), s1)"
    and rest: "tbind (tguard (0 \<le> after \<and> 1 \<le> lim \<and> lim \<le> 1000) (ErrOther ''nonnegative cursor and limit 1..1000 required''))
      (\<lambda>_. tget (\<lambda>s. take (nat lim) (order_by e_seq (filter (\<lambda>e. visible_event i s e \<and> after < e_seq e) (db_events s))))) s1 = (Inr es, s')"
    unfolding events_after_def tbind_eq_Inr [of "validate_repository_peer_id E i"] by auto
  from rest have lim: "1 \<le> lim" and s0: "s1 = s'"
    by (simp_all add: tbind_eq_Inr)
  from rest have es0: "take (nat lim) (order_by e_seq
       (filter (\<lambda>e. visible_event i s' e \<and> after < e_seq e) (db_events s'))) = es"
    unfolding s0 by (simp add: tbind_eq_Inr)
  have "s1 = s" using reads_state [OF reads_validate_id id] .
  with s0 show s': "s' = s" by simp
  show "1 \<le> lim" by (rule lim)
  show "es = take (nat lim) (order_by e_seq (filter (\<lambda>e. visible_event i s e \<and> after < e_seq e) (db_events s)))"
    by (rule es0 [unfolded s', symmetric])
qed

text \<open>
  Replay is complete: what a reader gets from a cursor is in ascending order, visible to it
  and beyond its cursor, and no visible event it has not seen is skipped: every other such event
  has a higher number than all that were returned, and if fewer than the limit came back there
  is none.
\<close>

theorem event_replay_complete:
  assumes "events_after E i after lim s = (Inr es, s')"
  shows "s' = s \<and> sorted (map e_seq es) \<and>
     (\<forall>e \<in> set es. e \<in> set (db_events s) \<and> visible_event i s e \<and> after < e_seq e) \<and>
     (\<forall>e \<in> set (db_events s). visible_event i s e \<and> after < e_seq e \<and> e \<notin> set es \<longrightarrow>
        int (length es) = lim \<and> (\<forall>x \<in> set es. e_seq x \<le> e_seq e))"
proof -
  note run = events_after_run [OF assms]
  note page = order_by_page [OF run(3)]
  from run(1,2) page(1,2) show ?thesis
    by (auto dest!: page(3) [rotated])
qed

theorem event_replay_complete_witness:
  "sorted (map e_seq (db_events st6)) \<and> events_after (sample_env 7 ''x'') ''pa'' 0 10 st6 = (Inr (db_events st6), st6)"
proof -
  have run: "events_after (sample_env 7 ''x'') ''pa'' 0 10 st6 = (Inr (db_events st6), st6)"
    by (simp add: events_after_def run_tx validate_repository_peer_id_def visible_event_def participant_def order_by_def
        st2_def st3_def st4_def st5_def st6_def empty_db_def stored_peer_def completed_message_def claimed_message_def
        sample_message_def cong: continue_cong tbind_cong_weak)
  with event_replay_complete [OF run] show ?thesis by blast
qed

text \<open>
  Counters stay within their limits: in every reachable state no message has been started
  more than three times and no request is more than eight delegations deep.
\<close>

theorem attempts_and_depth_bounded:
  assumes "reachable s" and "m \<in> set (db_messages s)"
  shows "0 \<le> m_attempts m \<and> m_attempts m \<le> 3 \<and> 0 \<le> m_depth m \<and> m_depth m \<le> 8"
  using db_invD(6) [OF reachable_db_inv [OF assms(1)]] assms(2)
  by (simp add: numbers_ok_def max_execution_attempts_def max_request_depth_def)

theorem attempts_and_depth_bounded_witness:
  "claimed_message \<in> set (db_messages st5) \<and> m_attempts claimed_message \<le> 3"
proof -
  have "claimed_message \<in> set (db_messages st5)" by (simp add: st5_def)
  with attempts_and_depth_bounded [OF reachable_st5 this] show ?thesis by blast
qed

text \<open>
  Prerequisites cannot form a cycle: in every reachable state a message depends only on
  messages of its project that were stored before it, so the prerequisite relation is acyclic.
\<close>

definition prerequisite_edges :: "db \<Rightarrow> (string \<times> string) set" where
  "prerequisite_edges s = {(m_id m, d) | m d. m \<in> set (db_messages s) \<and> d \<in> set (m_depends_on m)}"

lemma prerequisites_earlier:
  assumes "db_inv s" and "(a, b) \<in> prerequisite_edges s"
  shows "\<exists>i j. j < i \<and> i < length (db_messages s) \<and> m_id (db_messages s ! i) = a \<and> m_id (db_messages s ! j) = b"
proof -
  from assms(2) obtain m where m: "m \<in> set (db_messages s)" "m_id m = a" "b \<in> set (m_depends_on m)"
    by (auto simp: prerequisite_edges_def)
  then obtain i where i: "i < length (db_messages s)" "db_messages s ! i = m" by (auto simp: in_set_conv_nth)
  with m db_invD(8) [OF assms(1)] have "earlier (id_list (db_messages s)) i (m_project m) b"
    by (auto simp: order_ok_def)
  then obtain j where "j < i" "j < length (db_messages s)" "m_id (db_messages s ! j) = b"
    by (auto simp: earlier_def id_list_def)
  with i m show ?thesis by blast
qed

theorem prerequisites_acyclic:
  assumes "reachable s"
  shows "acyclic (prerequisite_edges s)"
proof -
  note inv = reachable_db_inv [OF assms]
  let ?pos = "\<lambda>x. THE i. i < length (db_messages s) \<and> m_id (db_messages s ! i) = x"
  have pos: "?pos (m_id (db_messages s ! i)) = i" if "i < length (db_messages s)" for i
  proof (rule the_equality)
    fix j assume "j < length (db_messages s) \<and> m_id (db_messages s ! j) = m_id (db_messages s ! i)"
    with that db_invD(3) [OF inv] show "j = i"
      by (metis ids_ok_def length_map nth_eq_iff_index_eq nth_map)
  qed (use that in simp)
  have "(prerequisite_edges s)\<inverse> \<subseteq> measure ?pos"
  proof
    fix p assume "p \<in> (prerequisite_edges s)\<inverse>"
    then obtain a b where p: "p = (b, a)" "(a, b) \<in> prerequisite_edges s" by auto
    from prerequisites_earlier [OF inv p(2)] obtain i j where "j < i" "i < length (db_messages s)"
      "m_id (db_messages s ! i) = a" "m_id (db_messages s ! j) = b" by auto
    with pos [of i] pos [of j] p(1) show "p \<in> measure ?pos" by auto
  qed
  then have "acyclic ((prerequisite_edges s)\<inverse>)" by (rule acyclic_subset [OF wf_acyclic [OF wf_measure]])
  then show ?thesis by simp
qed

theorem prerequisites_acyclic_witness:
  "acyclic (prerequisite_edges st5) \<and> claimed_message \<in> set (db_messages st5)"
  using prerequisites_acyclic [OF reachable_st5] by (simp add: st5_def)

subsection \<open>Claims, leases and credentials\<close>

text \<open>
  What a claim starts: the message was accepted, addressed to the claiming peer and not past
  its deadline; it is now started with one more attempt, at most three; every prerequisite is
  completed and every required contract is agreed at the moment it starts.
\<close>

lemma claim_run:
  assumes "claim E c i owner external s = (Inr m, s')"
  obtains p ms s1 s2 s3 k n m0 where "claim_open E c i owner external s = (Inr p, s)" "p_id p = i"
    "p \<in> set (db_peers s)" "\<not> busy_peer i s"
    "mark_all E Failed ''failed'' (ReasonOnly ''deadline_elapsed_before_start'') (expired_work E i s) s = (Inr (), s1)"
    "fail_dependencies E p s1 = (Inr k, s2)" "claim_contract_ready E p s2 = (Inr (Inr m0, n), s3)"
    "m_attempts m0 < max_execution_attempts" "start_message E m0 s3 = (Inr m, s')"
proof -
  from commit_peer_ok [OF assms [unfolded claim_def]] obtain p s0 where
    open1: "claim_open E c i owner external s = (Inr p, s0)" and idle: "\<not> busy_peer i s0"
    and sel: "claim_select E p s0 = (Inr (Inr m), s')"
    by (auto simp: tbind_eq_Inr)
  note O' = claim_openD [OF open1]
  from sel obtain s1 s2 s3 k n r where
    1: "mark_all E Failed ''failed'' (ReasonOnly ''deadline_elapsed_before_start'') (expired_work E (p_id p) s0) s0 = (Inr (), s1)"
    and 2: "fail_dependencies E p s1 = (Inr k, s2)" and 3: "claim_contract_ready E p s2 = (Inr (r, n), s3)"
    and r: "(case r of
       Inl e \<Rightarrow> if e = ErrNotFound \<and> (expired_work E (p_id p) s0 \<noteq> [] \<or> k > 0 \<or> n > 0) then tret (Inl e) else tfail e
     | Inr m \<Rightarrow> start_claimed E p m) s3 = (Inr (Inr m), s')"
    by (auto simp: claim_select_def tbind_eq_Inr)
  from r obtain m0 where r': "r = Inr m0" and 4: "start_claimed E p m0 s3 = (Inr (Inr m), s')"
    by (cases r) (simp_all split: if_splits)
  from 4 have 5: "m_attempts m0 < max_execution_attempts" "start_message E m0 s3 = (Inr m, s')"
    by (auto simp: start_claimed_def tbind_eq_Inr split: if_splits)
  have e: "s0 = s" "p_id p = i" using O' by simp_all
  show thesis
    by (rule that [OF open1 [unfolded e] e(2) O'(2) idle [unfolded e] 1 [unfolded e] 2 3 [unfolded r'] 5])
qed

lemma start_messageD:
  assumes "start_message E m0 s = (Inr m, s')" and "find_message (m_id m0) s = Some m0"
  shows "m = set_state E Started 1 m0 \<and> find_message (m_id m0) s' = Some m"
proof -
  from assms obtain s1 u where 1: "update_state E (m_id m0) Started 1 s = (Inr m, s1)"
    and 2: "append_event E m ''started'' EmptyObject s1 = (Inr u, s')"
    by (auto simp: start_message_def tbind_eq_Inr)
  from 1 assms(2) have m: "m = set_state E Started 1 m0" "s1 = put_state E (m_id m0) Started 1 s"
    by (simp_all add: update_state_run)
  with assms(2) have "find_message (m_id m0) s1 = Some m" by (simp add: find_message_put)
  with m(1) find_message_cong [OF append_event_frame [OF 2]] show ?thesis by simp
qed

lemma mark_all_core:
  assumes "db_inv s" and "mark_all E Failed k p (expired_work E i s) s = (r, s')"
  shows "core_step s s'"
proof -
  have "moves core_step (mark_all E Failed k p (expired_work E i s)) s"
    by (rule core_mark_all [OF expired_rows [OF db_invD(3) [OF assms(1)]]]) simp
  with assms(2) show ?thesis by (simp add: moves_def)
qed

theorem claim_starts_ready_work:
  assumes "claim E c i owner external s = (Inr m, s')" and "db_inv s"
  shows "m_to m = i \<and> m_state m = Started \<and> tx_now E < m_deadline m \<and> m_attempts m \<le> max_execution_attempts \<and>
     find_message (m_id m) s' = Some m \<and>
     (\<exists>m0 s0. m0 \<in> set (db_messages s0) \<and> m_state m0 = Accepted \<and> m = set_state E Started 1 m0 \<and>
        list_all (\<lambda>d. case prerequisite s0 (m_project m) d of None \<Rightarrow> False | Some q \<Rightarrow> m_state q = Completed) (m_depends_on m) \<and>
        required_contract_blockers s0 (m_project m) i (m_contracts m) = Inr ([], False) \<and>
        db_messages s' = update_rows (\<lambda>x. m_id x = m_id m) (set_state E Started 1) (db_messages s0))"
proof (rule claim_run [OF assms(1)])
  fix p s1 s2 s3 k n m0
  assume p: "p_id p = i"
    and 1: "mark_all E Failed ''failed'' (ReasonOnly ''deadline_elapsed_before_start'') (expired_work E i s) s = (Inr (), s1)"
    and 2: "fail_dependencies E p s1 = (Inr k, s2)" and 3: "claim_contract_ready E p s2 = (Inr (Inr m0, n), s3)"
    and att: "m_attempts m0 < max_execution_attempts" and st: "start_message E m0 s3 = (Inr m, s')"
  have "db_inv s1" using core_stepD(1) [OF mark_all_core [OF assms(2) 1] assms(2)] .
  moreover have "core_step s1 s2" using core_fail_dependencies [of E p s1] 2 by (simp add: moves_def)
  ultimately have inv2: "db_inv s2" by (auto dest: core_stepD)
  note pick = claim_contract_picks [OF 3 db_invD(3) [OF inv2]]
  then have cur: "find_message (m_id m0) s3 = Some m0" by (simp add: dispatchable_def)
  note D = start_messageD [OF st cur]
  from st obtain s4 u where "update_state E (m_id m0) Started 1 s3 = (Inr m, s4)"
    "append_event E m ''started'' EmptyObject s4 = (Inr u, s')"
    by (auto simp: start_message_def tbind_eq_Inr)
  then have rows: "db_messages s' = update_rows (\<lambda>x. m_id x = m_id m0) (set_state E Started 1) (db_messages s3)"
    using append_event_frame cur by (fastforce simp: update_state_run)
  have "m0 \<in> set (db_messages s3)" using cur by (auto dest: find_messageD)
  with D pick p att rows show ?thesis
    by (auto simp: dispatchable_def list_all_iff max_execution_attempts_def intro!: exI [of _ m0] exI [of _ s3])
qed

theorem claim_starts_ready_work_witness:
  "m_state claimed_message = Started \<and> m_attempts claimed_message \<le> max_execution_attempts \<and>
   find_message (m_id claimed_message) st5 = Some claimed_message"
proof -
  have "fst (validate_lease (sample_env 5 ''x'') sample_lease st4) = Inr ()"
    by (simp add: validate_lease_def tguard_run)
  then have "claim (sample_env 5 ''x'') plain_ctx ''pb'' ''w1'' False st4 = (Inr claimed_message, st5)"
    using run_claim_lease by (simp add: claim_lease_def sample_lease_def)
  from claim_starts_ready_work [OF this reachable_db_inv [OF reachable_st4]] show ?thesis by simp
qed

end
