(* ===== verification/Coord_Safety.thy ===== *)
theory Coord_Safety
  imports Coord_Properties
begin

text \<open>
  Properties of single operations of the coordination store: who may claim, hold a lease, move a
  message or use a credential, what a repeated send answers and what a send is admitted for.
\<close>

subsection \<open>Claims and leases\<close>

lemma commit_peer_rollback: "body s = (Inl e, s') \<Longrightarrow> commit_peer_transaction E c i body s = (Inl e, s)"
  by (simp add: commit_peer_transaction_def)

lemma commit_tx_rollback: "body s = (Inl e, s') \<Longrightarrow> commit_tx body s = (Inl e, s)"
  by (simp add: commit_tx_def)

text \<open>
  A claim is refused, and leaves the store as it was, while the peer has started or blocked
  work, when the owner it names holds no live lease, and when a manual claim meets any lease.
\<close>

theorem claim_refused:
  assumes "busy_peer i s \<or>
     (owner \<noteq> '''' \<and> \<not> (\<exists>l \<in> set (db_leases s). l_peer l = i \<and> l_owner l = owner \<and> now E < l_expires l)) \<or>
     (external \<and> (\<exists>l \<in> set (db_leases s). l_peer l = i))"
  shows "\<exists>e. claim E c i owner external s = (Inl e, s)"
proof (cases "claim_open E c i owner external s")
  case (Pair r s1)
  show ?thesis
  proof (cases r)
    case (Inl e)
    with Pair have "claim E c i owner external s = (Inl e, s)"
      unfolding claim_def by (intro commit_peer_rollback) (simp add: tbind_def)
    then show ?thesis ..
  next
    case (Inr p)
    with Pair have opened: "claim_open E c i owner external s = (Inr p, s1)" by simp
    note D = claim_openD [OF this]
    from D(5,6) assms have "busy_peer i s" by blast
    with opened D(1) have "claim E c i owner external s = (Inl ErrBusy, s)"
      unfolding claim_def by (intro commit_peer_rollback) (simp add: tbind_run tguard_run)
    then show ?thesis ..
  qed
qed

theorem claim_refused_witness:
  "busy_peer ''pb'' st5 \<and> (\<exists>e. claim (sample_env 6 ''x'') plain_ctx ''pb'' ''w1'' False st5 = (Inl e, st5))"
proof -
  have busy: "busy_peer ''pb'' st5"
    by (simp add: busy_peer_def st5_def claimed_message_def sample_message_def)
  then show ?thesis using claim_refused [of "''pb''" st5] by blast
qed

lemma mark_all_sets:
  assumes "mark_all E st k p ms s = (Inr u, s')" and "m \<in> set ms" and "distinct (map m_id ms)"
  shows "\<exists>x0 x. find_message (m_id m) s = Some x0 \<and> find_message (m_id m) s' = Some x \<and>
     m_state x = st \<and> m_to x = m_to x0"
  using assms
proof (induction ms arbitrary: s)
  case (Cons a ms)
  let ?body = "tbind (update_state E (m_id a) st 0) (\<lambda>m'. append_event E m' k p)"
  from Cons.prems(1) obtain v s1 where one: "?body s = (Inr v, s1)" and rest: "mark_all E st k p ms s1 = (Inr u, s')"
    by (auto simp: mark_all_def tbind_eq_Inr)
  have rows: "find_message j s1 = find_message j (put_state E (m_id a) st 0 s)" for j
    using mark_one_messages [OF one] by (simp add: find_message_def)
  show ?case
  proof (cases "m_id m = m_id a")
    case True
    from one obtain x0 where x0: "find_message (m_id a) s = Some x0" by (auto simp: tbind_eq_Inr dest: update_state_Inr)
    then have "find_message (m_id a) s1 = Some (set_state E st 0 x0)"
      using rows find_messageD [OF x0] by (simp add: find_message_put)
    moreover have "m_id a \<notin> m_id ` set ms" using Cons.prems(3) by simp
    ultimately have "find_message (m_id a) s' = Some (set_state E st 0 x0)" using mark_all_messages [OF rest] by simp
    with x0 True show ?thesis by simp
  next
    case False
    with Cons.prems have "m \<in> set ms" "distinct (map m_id ms)" by auto
    from Cons.IH [OF rest this] obtain y0 x where y: "find_message (m_id m) s1 = Some y0"
      "find_message (m_id m) s' = Some x" "m_state x = st" "m_to x = m_to y0" by blast
    with rows False have "find_message (m_id m) s = Some y0"
      by (auto simp: find_message_put split: if_splits dest: find_messageD)
    with y show ?thesis by blast
  qed
qed simp

lemma acquire_run:
  assumes "acquire_lease E i owner ttl s = (Inr l, s')" and ids: "ids_ok (db_messages s)"
  shows "ttl_ok ttl" "\<not> list_ex (\<lambda>l. l_peer l = i \<and> now E < l_expires l) (db_leases s)" "\<not> busy_peer i s"
    "l = \<lparr>ls_peer = i, ls_owner = owner, ls_expires = lease_until E ttl, ls_capability = fresh_secret E\<rparr>"
    "s' = upsert_lease \<lparr>l_peer = i, l_owner = owner, l_expires = lease_until E ttl,
        l_transport = sha256 E (fresh_secret E)\<rparr> s"
proof -
  from commit_tx_ok [OF assms(1) [unfolded acquire_lease_def]] obtain p s0 s1 where
    ttl: "ttl_ok ttl" and lock: "lock_peer E i s = (Inr p, s0)"
    and free: "\<not> list_ex (\<lambda>l. l_peer l = i \<and> now E < l_expires l) (db_leases s0)"
    and mark: "mark_all E Blocked ''blocked'' Interrupted (interrupted_work i s0) s0 = (Inr (), s1)"
    and idle: "\<not> list_ex (\<lambda>m. m_to m = i \<and> m_state m = Blocked) (db_messages s1)"
    and l: "l = \<lparr>ls_peer = i, ls_owner = owner, ls_expires = lease_until E ttl, ls_capability = fresh_secret E\<rparr>"
    and s': "s' = upsert_lease \<lparr>l_peer = i, l_owner = owner, l_expires = lease_until E ttl,
        l_transport = sha256 E (fresh_secret E)\<rparr> s1"
    by (auto simp: tbind_eq_Inr split: if_splits)
  have s0: "s0 = s" using lock_peerD [OF lock] by simp
  have rows: "distinct (map m_id (interrupted_work i s))"
    unfolding interrupted_work_def by (rule sorted_rows_open(1) [OF ids]) (simp add: terminal_def)
  have none: "interrupted_work i s = []"
  proof (rule ccontr)
    assume "interrupted_work i s \<noteq> []"
    then obtain m where m: "m \<in> set (interrupted_work i s)" by (cases "interrupted_work i s") auto
    then have mem: "m \<in> set (db_messages s)" "m_to m = i" by (simp_all add: interrupted_work_def)
    from mark_all_sets [OF mark m [folded s0] rows [folded s0]] obtain x0 x where
      "find_message (m_id m) s = Some x0" and x: "find_message (m_id m) s1 = Some x" "m_state x = Blocked" "m_to x = m_to x0"
      unfolding s0 by blast
    with find_message_eq [OF ids mem(1)] mem(2) have "m_to x = i" by simp
    with x idle show False by (auto simp: list_ex_iff dest: find_messageD)
  qed
  with mark s0 have s1: "s1 = s" by (simp add: mark_all_def)
  have "m \<in> set (interrupted_work i s)" if "m \<in> set (db_messages s)" "m_to m = i" "m_state m = Started" for m
    using that by (simp add: interrupted_work_def)
  with none have "\<not> (\<exists>m \<in> set (db_messages s). m_to m = i \<and> m_state m = Started)" by fastforce
  with idle s1 show "\<not> busy_peer i s" by (auto simp: busy_peer_def list_ex_iff)
  show "ttl_ok ttl" by (rule ttl)
  show "\<not> list_ex (\<lambda>l. l_peer l = i \<and> now E < l_expires l) (db_leases s)" using free s0 by simp
  show "l = \<lparr>ls_peer = i, ls_owner = owner, ls_expires = lease_until E ttl, ls_capability = fresh_secret E\<rparr>" by (rule l)
  show "s' = upsert_lease \<lparr>l_peer = i, l_owner = owner, l_expires = lease_until E ttl,
        l_transport = sha256 E (fresh_secret E)\<rparr> s" using s' s1 by simp
qed

lemma upsert_lease_find: "find (\<lambda>x. l_peer x = l_peer row) (db_leases (upsert_lease row s)) = Some row"
proof -
  have "find (\<lambda>x. l_peer x = i) (update_rows (\<lambda>l. l_peer l = i) (\<lambda>_. row) ls) = Some row"
    if "list_ex (\<lambda>l. l_peer l = i) ls" "l_peer row = i" for i ls
    using that by (induction ls) (auto simp: update_rows_def)
  moreover have "find (\<lambda>x. l_peer x = i) (ls @ [row]) = Some row"
    if "\<not> list_ex (\<lambda>l. l_peer l = i) ls" "l_peer row = i" for i ls
    using that by (induction ls) auto
  ultimately show ?thesis by (simp add: upsert_lease_def)
qed

lemma held_lease_refuses:
  assumes "find (\<lambda>x. l_peer x = i) (db_leases s) = Some r" and "now E < l_expires r"
  shows "\<exists>e. acquire_lease E i owner ttl s = (Inl e, s)"
proof -
  have held: "list_ex (\<lambda>l. l_peer l = i \<and> now E < l_expires l) (db_leases s)"
    using assms by (auto simp: list_ex_iff dest!: find_in_set)
  obtain r s0 where lock: "lock_peer E i s = (r, s0)" by fastforce
  show ?thesis
  proof (cases r)
    case (Inr p)
    with lock have "lock_peer E i s = (Inr p, s)" using lock_peerD [of E i s p s0] by simp
    with held show ?thesis
      by (auto simp: acquire_lease_def commit_tx_def run_tx cong: continue_cong tbind_cong_weak)
  next
    case (Inl e)
    with lock show ?thesis
      by (auto simp: acquire_lease_def commit_tx_def run_tx cong: continue_cong tbind_cong_weak)
  qed
qed

text \<open>
  C5. A lease is exclusive.  It is given only when no unexpired lease of the peer exists and the
  peer has no started or blocked work; it runs from the store's clock for the requested time,
  cut to milliseconds; until it expires every other attempt to acquire one is refused and
  changes nothing, and no other owner passes the lease check.
\<close>

theorem acquire_lease_exclusive:
  assumes "acquire_lease E i owner ttl s = (Inr l, s')" and "db_inv s"
  shows "(\<forall>x \<in> set (db_leases s). l_peer x = i \<longrightarrow> l_expires x \<le> now E) \<and> \<not> busy_peer i s' \<and>
     ls_expires l = now E + (ttl div 1000000) * 1000 \<and> now E < ls_expires l \<and>
     (\<forall>E2 o2 t2. now E2 < ls_expires l \<longrightarrow> (\<exists>e. acquire_lease E2 i o2 t2 s' = (Inl e, s'))) \<and>
     (\<forall>E2 o2. fst (check_lease E2 i o2 s') = Inr () \<longleftrightarrow> o2 = owner \<and> now E2 < ls_expires l)"
proof -
  note run = acquire_run [OF assms(1) db_invD(3) [OF assms(2)]]
  let ?row = "\<lparr>l_peer = i, l_owner = owner, l_expires = lease_until E ttl, l_transport = sha256 E (fresh_secret E)\<rparr>"
  have row: "find (\<lambda>x. l_peer x = i) (db_leases s') = Some ?row"
    using upsert_lease_find [of ?row s] run(5) by simp
  have "busy_peer i s' = busy_peer i s" using run(5) by (simp add: busy_peer_def upsert_lease_def)
  moreover have "ls_expires l = now E + (ttl div 1000000) * 1000" using run(4) by (simp add: lease_until_def)
  moreover have "0 < ttl div 1000000" using run(1) unfolding ttl_ok_def by linarith
  then have "now E < ls_expires l" using run(4) by (simp add: lease_until_def)
  moreover have "\<exists>e. acquire_lease E2 i o2 t2 s' = (Inl e, s')" if "now E2 < ls_expires l" for E2 o2 t2
    using held_lease_refuses [OF row] that run(4) by simp
  moreover have "fst (check_lease E2 i o2 s') = Inr () \<longleftrightarrow> o2 = owner \<and> now E2 < ls_expires l" for E2 o2
    using row run(4) by (auto simp: check_lease_def tbind_run tlook_run tguard_run)
  ultimately show ?thesis using run(2,3) by (auto simp: list_ex_iff not_less)
qed

theorem acquire_lease_exclusive_witness:
  "\<exists>e. acquire_lease (sample_env 9 ''z'') ''pb'' ''w2'' 2000000000 st4 = (Inl e, st4)"
proof -
  have "now (sample_env 9 ''z'') < ls_expires sample_lease" by (simp add: sample_lease_def)
  with acquire_lease_exclusive [OF run_acquire reachable_db_inv [OF reachable_st3]] show ?thesis by blast
qed

subsection \<open>Transitions\<close>

lemma append_event_run:
  "append_event E m k p s = (Inr u, s') \<Longrightarrow> s' = push_event E m k p s"
  by (auto simp: append_event_def tbind_eq_Inr)

lemma apply_transition_run:
  assumes "apply_transition E m next ev payload s = (Inr (Inr m'), s')" and "find_message (m_id m) s = Some m"
  shows "m' = set_state E next (if ev = ''started'' then 1 else 0) m"
    "s' = push_event E m' ev (Raw payload) (put_state E (m_id m) next (if ev = ''started'' then 1 else 0) s)"
    "ev = ''started'' \<or> ev = ''completed'' \<Longrightarrow> m_contracts m = [] \<or>
       (\<exists>fatal. required_contract_blockers s (m_project m) (m_to m) (m_contracts m) = Inr ([], fatal))"
proof -
  let ?enf = "if ev = ''started'' \<or> ev = ''completed'' then enforce_request_contracts E m else tret ()"
  let ?n = "if ev = ''started'' then 1 else 0"
  obtain r s1 where run: "?enf s = (r, s1)" by fastforce
  from assms(1) run obtain u where r: "r = Inr u"
    by (cases r) (auto simp: apply_transition_def tbind_eq_Inr ttry_def split: if_splits)
  with run have s1: "s1 = s" by (auto split: if_splits dest: enforce_ok)
  from assms(1) run r s1 obtain s2 v where 1: "update_state E (m_id m) next ?n s = (Inr m', s2)"
    and 2: "append_event E m' ev (Raw payload) s2 = (Inr v, s')"
    by (auto simp: apply_transition_def tbind_eq_Inr ttry_def)
  from update_state_Inr [OF 1] assms(2) show m': "m' = set_state E next ?n m" by auto
  from update_state_Inr [OF 1] append_event_run [OF 2]
  show "s' = push_event E m' ev (Raw payload) (put_state E (m_id m) next ?n s)" by auto
  show "m_contracts m = [] \<or> (\<exists>fatal. required_contract_blockers s (m_project m) (m_to m) (m_contracts m) = Inr ([], fatal))"
    if "ev = ''started'' \<or> ev = ''completed''"
    using run r that enforce_ok [of E m s u s1] by auto
qed

text \<open>
  What a worker transition does: it needs the worker's live lease, the revision the caller
  saw, a message of the peer that is not finished and an allowed event; then exactly that message
  moves to the next state, its revision grows by one and one event of that kind is appended.
  Starting and completing also need every required contract agreed.
\<close>

theorem worker_transition_effect:
  assumes "worker_transition E c l mid expected ev payload s = (Inr m', s')" and "db_inv s" and "ls_owner l \<noteq> ''''"
  shows "\<exists>m st n. find_message mid s = Some m \<and> m_revision m = expected \<and> \<not> terminal (m_state m) \<and> participant (ls_peer l) m \<and>
     next_state (ls_peer l) m ev = Inr st \<and> n = (if ev = ''started'' then 1 else 0) \<and> m' = set_state E st n m \<and>
     db_messages s' = update_rows (\<lambda>x. m_id x = mid) (set_state E st n) (db_messages s) \<and>
     (\<exists>e. db_events s' = db_events s @ [e] \<and> e_message e = mid \<and> e_revision e = expected + 1 \<and> e_type e = ev) \<and>
     (ev = ''started'' \<or> ev = ''completed'' \<longrightarrow> m_contracts m = [] \<or>
        (\<exists>fatal. required_contract_blockers s (m_project m) (m_to m) (m_contracts m) = Inr ([], fatal))) \<and>
     (\<exists>r \<in> set (db_leases s). l_peer r = ls_peer l \<and> l_owner r = ls_owner l \<and> now E < l_expires r)"
proof -
  from assms(1) have "transition E c (ls_peer l) mid expected ev payload (ls_owner l) False s = (Inr m', s')"
    by (auto simp: worker_transition_def split: sum.splits)
  from commit_peer_ok [OF this [unfolded transition_def]] obtain p m st s1 where
    opened: "transition_open E c (ls_peer l) mid expected ev payload (ls_owner l) False s = (Inr (p, m, st), s1)"
    and act: "apply_transition E m st ev payload s1 = (Inr (Inr m'), s')"
    by (auto simp: tbind_eq_Inr split: if_splits)
  note T = transition_openD [OF opened]
  have cur: "find_message (m_id m) s = Some m" by (rule find_message_eq [OF db_invD(3) [OF assms(2)] T(4)])
  note A = apply_transition_run [OF act [unfolded T(1)] cur]
  have msgs: "db_messages s' = update_rows (\<lambda>x. m_id x = mid) (set_state E st (if ev = ''started'' then 1 else 0)) (db_messages s)"
    using A(2) T(5) by simp
  have "\<exists>e. db_events s' = db_events s @ [e] \<and> e_message e = mid \<and> e_revision e = expected + 1 \<and> e_type e = ev"
    using A(1,2) T(5,8) by (simp add: push_event_def Let_def)
  with cur msgs A(1,3) T(5,7,8,9,10) T(12) [OF assms(3)] show ?thesis by blast
qed

theorem worker_transition_effect_witness:
  "m_revision completed_message = 3 \<and> (\<exists>e. db_events st6 = db_events st5 @ [e] \<and> e_type e = ''completed'')"
proof -
  have "ls_owner sample_lease \<noteq> ''''" by (simp add: sample_lease_def)
  from worker_transition_effect [OF run_complete reachable_db_inv [OF reachable_st5] this]
  have "\<exists>e. db_events st6 = db_events st5 @ [e] \<and> e_type e = ''completed''" by blast
  then show ?thesis by (simp add: completed_message_def)
qed

subsection \<open>Credentials\<close>

definition fails :: "('s, 'e, 'a) tx \<Rightarrow> 's \<Rightarrow> bool" where
  "fails m s \<longleftrightarrow> (\<exists>e. m s = (Inl e, s))"

lemma fails_bind: "fails m s \<Longrightarrow> fails (tbind m f) s"
  by (auto simp: fails_def tbind_def)

lemma fails_after:
  assumes "reads m" and "\<And>a. fails (f a) s"
  shows "fails (tbind m f) s"
proof (cases "m s")
  case (Pair r s')
  with assms(1) have "s' = s" by (metis reads_def snd_conv)
  with Pair assms(2) show ?thesis by (cases r) (auto simp: fails_def tbind_def)
qed

lemma fails_commit_peer: "fails body s \<Longrightarrow> \<exists>e. commit_peer_transaction E c i body s = (Inl e, s)"
  by (auto simp: fails_def intro: commit_peer_rollback)

lemma fails_scoped:
  assumes "ctx_scope c = Some (actor, hash)"
    and "actor \<noteq> i \<or> (\<forall>r \<in> set (db_creds s). c_hash r = hash \<longrightarrow> \<not> credential_valid clock i r)"
  shows "fails (check_scoped_credential clock c i) s"
proof (cases "find (\<lambda>r. c_hash r = hash) (db_creds s)")
  case None
  with assms(1) show ?thesis by (simp add: fails_def check_scoped_credential_def tx_simps)
next
  case (Some r)
  then have "r \<in> set (db_creds s)" "c_hash r = hash" by (auto dest: find_in_set)
  with assms Some show ?thesis by (auto simp: fails_def check_scoped_credential_def tx_simps)
qed

text \<open>
  A session whose credential is missing, revoked, expired or another peer's can do nothing:
  its claims, transitions, recoveries and sends answer an error and leave the store as it was.
\<close>

theorem scoped_credential_required:
  assumes "ctx_scope c = Some (actor, hash)"
    and "actor \<noteq> i \<or> (\<forall>r \<in> set (db_creds s). c_hash r = hash \<longrightarrow> \<not> credential_valid (now E) i r)"
  shows "(\<exists>e. claim E c i owner external s = (Inl e, s)) \<and>
     (\<exists>e. transition E c i mid expected ev payload owner external s = (Inl e, s)) \<and>
     (\<exists>e. recover_external E c i s = (Inl e, s)) \<and> (\<exists>e. send E c i inp s = (Inl e, s))"
proof -
  note check = fails_scoped [OF assms]
  have "fails (claim_open E c i owner external) s"
    unfolding claim_open_def by (intro fails_after reader fails_bind check)
  then have 1: "\<exists>e. claim E c i owner external s = (Inl e, s)"
    unfolding claim_def by (intro fails_commit_peer fails_bind)
  have "fails (transition_open E c i mid expected ev payload owner external) s"
    unfolding transition_open_def by (intro fails_after reader fails_bind check)
  then have 2: "\<exists>e. transition E c i mid expected ev payload owner external s = (Inl e, s)"
    unfolding transition_def by (intro fails_commit_peer fails_bind)
  have 3: "\<exists>e. recover_external E c i s = (Inl e, s)"
    unfolding recover_external_def by (intro fails_commit_peer fails_after reader fails_bind check)
  have "fails (send_open E c i inp) s"
    unfolding send_open_def by (intro fails_after reader fails_bind check)
  then have "fails (send_tx E c i inp) s" unfolding send_tx_def by (intro fails_bind)
  then obtain e where e: "send_tx E c i inp s = (Inl e, s)" by (auto simp: fails_def)
  have "\<exists>e. send E c i inp s = (Inl e, s)"
    unfolding send_def by (auto simp: commit_peer_transaction_def tbind_def ttry_def e split: sum.splits)
  with 1 2 3 show ?thesis by blast
qed

theorem scoped_credential_required_witness:
  "\<exists>e. claim (sample_env 6 ''x'') (plain_ctx\<lparr>ctx_scope := Some (''pb'', ''forged'')\<rparr>) ''pb'' '''' False st6 = (Inl e, st6)"
  using scoped_credential_required [of "plain_ctx\<lparr>ctx_scope := Some (''pb'', ''forged'')\<rparr>" "''pb''" "''forged''" "''pb''" st6 "sample_env 6 ''x''"]
  by (simp add: st2_def st3_def st4_def st5_def st6_def stored_credential_def)

text \<open>
  C6. Revocation is final for the token: afterwards it authenticates nobody as the target peer,
  and no claim or send of the target's sessions that carry it goes through.
\<close>

theorem revoked_credential_dead:
  assumes "revoke_peer_credential E anchor target token s = (Inr u, s')" and "sha256 E2 = sha256 E"
    and "ctx_scope c = Some (p_id target, sha256 E token)"
  shows "(\<forall>p s2. authenticate E2 token s' = (Inr p, s2) \<longrightarrow> p_id p \<noteq> p_id target) \<and>
     (\<exists>e. claim E2 c (p_id target) owner external s' = (Inl e, s')) \<and>
     (\<exists>e. send E2 c (p_id target) inp s' = (Inl e, s'))"
proof -
  note dead = revoke_marks(1) [OF assms(1)]
  have "p_id p \<noteq> p_id target" if "authenticate E2 token s' = (Inr p, s2)" for p s2
    using authenticateD [OF that] dead assms(2) by (auto simp: credential_valid_def)
  moreover have "\<forall>r \<in> set (db_creds s'). c_hash r = sha256 E token \<longrightarrow> \<not> credential_valid (now E2) (p_id target) r"
    using dead by (auto simp: credential_valid_def)
  ultimately show ?thesis using scoped_credential_required [OF assms(3)] by blast
qed

definition long_token :: string where
  "long_token = replicate 64 (CHR ''a'')"

definition revocable_state :: db where
  "revocable_state = empty_db\<lparr>db_peers := [stored_peer ''pa'' ''alice''],
     db_creds := [\<lparr>c_hash = ''h'' @ long_token, c_peer = ''pa'', c_revoked = False, c_expires = None\<rparr>]\<rparr>"

lemma run_revoke:
  "fst (revoke_peer_credential (sample_env 8 ''x'') (stored_peer ''pa'' ''alice'') (stored_peer ''pa'' ''alice'') long_token revocable_state) = Inr ()"
proof -
  have "length long_token = 64" by (simp add: long_token_def)
  then show ?thesis
    by (simp add: revoke_peer_credential_def commit_tx_def run_tx lock_admission_def validate_repository_peer_def
        revocable_state_def empty_db_def stored_peer_def cong: continue_cong tbind_cong_weak)
qed

theorem revoked_credential_dead_witness:
  "\<exists>s'. revoke_peer_credential (sample_env 8 ''x'') (stored_peer ''pa'' ''alice'') (stored_peer ''pa'' ''alice'') long_token
      revocable_state = (Inr (), s') \<and>
     (\<forall>p s2. authenticate (sample_env 9 ''y'') long_token s' = (Inr p, s2) \<longrightarrow> p_id p \<noteq> ''pa'')"
proof -
  obtain s' where run: "revoke_peer_credential (sample_env 8 ''x'') (stored_peer ''pa'' ''alice'') (stored_peer ''pa'' ''alice'')
      long_token revocable_state = (Inr (), s')"
    using run_revoke by (metis eq_fst_iff)
  have same: "sha256 (sample_env 9 ''y'') = sha256 (sample_env 8 ''x'')" by simp
  have scope: "ctx_scope (plain_ctx\<lparr>ctx_scope := Some (''pa'', ''h'' @ long_token)\<rparr>) =
      Some (p_id (stored_peer ''pa'' ''alice''), sha256 (sample_env 8 ''x'') long_token)"
    by (simp add: stored_peer_def)
  from revoked_credential_dead [OF run same scope] run show ?thesis by (auto simp: stored_peer_def)
qed

end
