(* ===== verification/Coord_Send_Props.thy ===== *)
theory Coord_Send_Props
  imports Coord_Safety
begin

text \<open>
  Properties of \<open>sendTx\<close> and the operations built on it: what a repeated send answers, what a
  new message was checked against, and what an answer does to the request it replies to.
\<close>

subsection \<open>The run of a send\<close>

lemma send_ok:
  assumes "send E c i inp s = (Inr m, s')"
  shows "send_tx E c i inp s = (Inr m, s')"
proof (cases "send_tx E c i inp s")
  case (Pair r s1)
  with commit_peer_ok [OF assms [unfolded send_def]] show ?thesis
    by (cases r) (auto simp: tbind_def ttry_def split: if_splits)
qed

text \<open>A send that stores a message passed every stage.\<close>

lemma send_fresh:
  assumes "send_tx E c i inp0 s = (Inr m, s')" and "find_receipt i (in_key inp0) s = None"
  obtains src dst inp1 reply parent depth inp s2 where
    "send_open E c i inp0 s = (Inr (src, dst), s)"
    "send_resolve E c src dst inp0 s = (Inr (inp1, reply, parent, depth), s)"
    "send_contracts E src inp1 reply parent s = (Inr inp, s)"
    "send_account E c src inp parent s = (Inr (), s2)" "same_core s s2"
    "check_admission E src dst inp parent depth reply s2 = (Inr (), s2)"
    "m = new_message E src dst inp (send_digest E c inp0) parent depth"
    "send_store E m (is_answer inp) reply s2 = (Inr m, s')"
    "in_key inp = in_key inp0" "in_kind inp = in_kind inp0" "in_reply_to inp = in_reply_to inp0"
    "in_depends_on inp = in_depends_on inp0"
proof -
  from assms(1) obtain src dst s0 where opened: "send_open E c i inp0 s = (Inr (src, dst), s0)"
    and rest: "(case find_receipt (p_id src) (in_key inp0) s0 of
       Some m \<Rightarrow> stored_receipt (send_digest E c inp0) m
     | None \<Rightarrow>
         tbind (send_resolve E c src dst inp0) (\<lambda>(inp1, reply, parent, depth).
         tbind (send_contracts E src inp1 reply parent) (\<lambda>inp.
         send_finish E c src dst inp (send_digest E c inp0) reply parent depth))) s0 = (Inr m, s')"
    by (auto simp: send_tx_def tbind_eq_Inr)
  note O' = send_openD [OF opened]
  from rest assms(2) O'(1,3) obtain inp1 reply parent depth s1 inp s1' where
    res: "send_resolve E c src dst inp0 s = (Inr (inp1, reply, parent, depth), s1)"
    and con: "send_contracts E src inp1 reply parent s1 = (Inr inp, s1')"
    and fin: "send_finish E c src dst inp (send_digest E c inp0) reply parent depth s1' = (Inr m, s')"
    by (auto simp: tbind_eq_Inr)
  have s1: "s1 = s" by (rule reads_state [OF reads_send_resolve res])
  note C = send_contractsD [OF con]
  with s1 have s1': "s1' = s" by simp
  have eqs: "in_key inp = in_key inp0" "in_kind inp = in_kind inp0" "in_reply_to inp = in_reply_to inp0"
    "in_depends_on inp = in_depends_on inp0"
    by (rule send_resolveD [OF res]; use C(2) in auto)+
  from fin s1' obtain u v s2 s3 where acc: "send_account E c src inp parent s = (Inr u, s2)"
    and adm: "check_admission E src dst inp parent depth reply s2 = (Inr v, s3)"
    and store: "(case find_receipt (p_id src) (in_key inp) s3 of Some m \<Rightarrow> stored_receipt (send_digest E c inp0) m
     | None \<Rightarrow> send_store E (new_message E src dst inp (send_digest E c inp0) parent depth) (is_answer inp) reply) s3 = (Inr m, s')"
    by (auto simp: send_finish_def tbind_eq_Inr)
  have s3: "s3 = s2" using check_admissionD [OF adm] by simp
  have core: "same_core s s2" using same_core_account [of E c src inp parent s] acc by (simp add: moves_def)
  have "find_receipt (p_id src) (in_key inp) s3 = None"
    using assms(2) O'(3) eqs(1) s3 same_coreD(1) [OF core] by (simp add: find_receipt_def)
  with store s3 have store': "send_store E (new_message E src dst inp (send_digest E c inp0) parent depth) (is_answer inp) reply s2 = (Inr m, s')"
    by simp
  then have "m = new_message E src dst inp (send_digest E c inp0) parent depth"
    by (auto simp: send_store_def tbind_eq_Inr)
  with that opened res con acc core adm store' eqs s1 s1' s3 O'(1) show thesis by simp
qed

subsection \<open>Repeated sends\<close>

lemma receiptD: "find_receipt i key s = Some m \<Longrightarrow> m \<in> set (db_messages s) \<and> m_from m = i \<and> m_key m = key"
  by (auto simp: find_receipt_def dest: find_in_set)

lemma receipt_unique:
  assumes "db_inv s" and "m \<in> set (db_messages s)" and "m_from m = i" and "m_key m = key"
  shows "find_receipt i key s = Some m"
proof -
  from assms obtain m' where m': "find_receipt i key s = Some m'"
    by (cases "find_receipt i key s") (auto simp: find_receipt_def find_None_iff)
  note D = receiptD [OF m']
  have "distinct (map (\<lambda>m. (m_from m, m_key m)) (db_messages s))"
    using db_invD(4) [OF assms(1)] by (simp add: keys_ok_def)
  with assms D have "m' = m" by (auto simp: distinct_map dest: inj_onD)
  with m' show ?thesis by simp
qed

lemma send_known:
  assumes "send_open E c i inp s = (Inr ft, s)" and "find_receipt i (in_key inp) s = Some m"
  shows "send_tx E c i inp s = ((if m_hash m = send_digest E c inp then Inr m else Inl ErrIdempotency), s)"
proof (cases ft)
  case (Pair src dst)
  with assms have "p_id src = i" by (auto dest: send_openD)
  with assms Pair show ?thesis
    by (simp add: send_tx_def tbind_run stored_receipt_def)
qed

text \<open>
  Sends are idempotent on the sender's key: when the key is known, the stored message is
  answered if the request has the same digest, and \<open>ErrIdempotency\<close> otherwise; the store does not
  change in either case.
\<close>

theorem send_idempotent:
  assumes "send_open E c i inp s = (Inr ft, s)" and "find_receipt i (in_key inp) s = Some m"
    and "fst (check_scoped_credential (commit_now E) c i s) = Inr ()"
  shows "send E c i inp s = ((if m_hash m = send_digest E c inp then Inr m else Inl ErrIdempotency), s)"
  using assms(3)
  by (simp add: send_def commit_peer_transaction_def tbind_def ttry_def send_known [OF assms(1,2)]
      budget_rejection_def split: sum.splits)

lemma sample_shape2: "send_shape (sample_env 7 ''m2'') (sample_request ''bob'' ''k1'') = None"
  using sample_json sample_names
  by (simp add: send_shape_def sample_request_def send_kinds_def validate_required_contracts_def
      validate_dependencies_def max_dependencies_def)

lemma sample_open:
  "send_open (sample_env 7 ''m2'') plain_ctx ''pa'' (sample_request ''bob'' ''k1'') st6 =
     (Inr (stored_peer ''pa'' ''alice'', stored_peer ''pb'' ''bob''), st6)"
  by (simp add: send_open_def lock_admission_def enabled_peer_def check_scoped_credential_def plain_ctx_def
      validate_repository_peer_def run_tx sample_shape2 st2_def st3_def st4_def st5_def st6_def empty_db_def
      stored_peer_def cong: continue_cong tbind_cong_weak)

theorem send_idempotent_witness:
  "send (sample_env 7 ''m2'') plain_ctx ''pa'' (sample_request ''bob'' ''k1'') st6 = (Inr completed_message, st6)"
proof -
  have "find_receipt ''pa'' (in_key (sample_request ''bob'' ''k1'')) st6 = Some completed_message"
    by (simp add: find_receipt_def st6_def completed_message_def claimed_message_def sample_message_def)
  moreover have "fst (check_scoped_credential (commit_now (sample_env 7 ''m2'')) plain_ctx ''pa'' st6) = Inr ()"
    by (simp add: check_scoped_credential_def plain_ctx_def)
  ultimately show ?thesis
    using send_idempotent [OF sample_open]
    by (simp add: send_digest_def completed_message_def claimed_message_def sample_message_def)
qed

lemma send_store_run:
  assumes "send_store E m answers reply s = (Inr m', s')"
  shows "m' = m" "find_message (m_id m) s = None"
    "db_messages s' = (case reply of None \<Rightarrow> db_messages s @ [m]
       | Some r \<Rightarrow> if answers \<and> \<not> terminal (m_state r)
           then update_rows (\<lambda>x. m_id x = m_id r) (set_state E Completed 0) (db_messages s @ [m])
           else db_messages s @ [m])"
proof -
  from assms obtain s1 where new: "find_message (m_id m) s = None" and m': "m' = m"
    and ev: "append_event E m ''accepted'' EmptyObject (s\<lparr>db_messages := db_messages s @ [m]\<rparr>) = (Inr (), s1)"
    and fin: "send_complete E m answers reply s1 = (Inr (), s')"
    by (auto simp: send_store_def tbind_eq_Inr)
  have s1: "db_messages s1 = db_messages s @ [m]" using append_event_frame [OF ev] by simp
  show "m' = m" "find_message (m_id m) s = None" by (fact m' new)+
  show "db_messages s' = (case reply of None \<Rightarrow> db_messages s @ [m]
       | Some r \<Rightarrow> if answers \<and> \<not> terminal (m_state r)
           then update_rows (\<lambda>x. m_id x = m_id r) (set_state E Completed 0) (db_messages s @ [m])
           else db_messages s @ [m])"
    using fin s1
    by (cases reply) (auto simp: send_complete_def tbind_eq_Inr dest!: update_state_Inr append_event_frame split: if_splits)
qed

lemma same_envelope_set: "same_envelope m (set_state E st n m)"
  by (simp add: same_envelope_def set_state_def)

lemma same_envelopeE:
  "same_envelope m m' \<Longrightarrow> \<exists>a b c d. m' = m\<lparr>m_state := a, m_revision := b, m_attempts := c, m_updated := d\<rparr>"
  unfolding same_envelope_def by blast

lemma same_envelope_refl [simp]: "same_envelope m m"
  by (simp add: same_envelope_def)

lemma same_envelopeD:
  "same_envelope m m' \<Longrightarrow> m_id m' = m_id m \<and> m_from m' = m_from m \<and> m_key m' = m_key m \<and> m_hash m' = m_hash m \<and>
     m_to m' = m_to m \<and> m_payload m' = m_payload m"
  by (drule same_envelopeE) (elim exE, simp)

lemma same_envelope_trans: "same_envelope a b \<Longrightarrow> same_envelope b d \<Longrightarrow> same_envelope a d"
  by (drule same_envelopeE, drule same_envelopeE, elim exE) (simp add: same_envelope_def)

text \<open>What a successful send leaves in the store.\<close>

lemma send_stores:
  assumes "send_tx E c i inp s = (Inr m, s')" and "db_inv s"
  shows "\<exists>x \<in> set (db_messages s'). same_envelope m x \<and> m_from x = i \<and> m_key x = in_key inp \<and> m_hash x = send_digest E c inp"
proof (cases "find_receipt i (in_key inp) s")
  case (Some m0)
  from assms(1) obtain ft s0 where opened: "send_open E c i inp s = (Inr ft, s0)"
    by (auto simp: send_tx_def tbind_eq_Inr)
  have "s0 = s" by (rule reads_state [OF reads_send_open opened])
  with send_known [OF _ Some] opened assms(1) have "m = m0" "s' = s" "m_hash m = send_digest E c inp"
    by (auto split: if_splits)
  with receiptD [OF Some] show ?thesis by (intro bexI [of _ m0]) (simp_all add: same_envelope_def)
next
  case None
  show ?thesis
  proof (rule send_fresh [OF assms(1) None])
    fix src dst inp1 reply parent depth inp' s2
    assume opened: "send_open E c i inp s = (Inr (src, dst), s)" and m: "m = new_message E src dst inp' (send_digest E c inp) parent depth"
      and store: "send_store E m (is_answer inp') reply s2 = (Inr m, s')" and key: "in_key inp' = in_key inp"
    have "\<exists>x \<in> set (db_messages s'). same_envelope m x"
    proof (cases "m \<in> set (db_messages s')")
      case False
      with send_store_run(3) [OF store] have "set_state E Completed 0 m \<in> set (db_messages s')"
        by (auto simp: update_rows_def split: option.splits if_splits)
      then show ?thesis using same_envelope_set by blast
    qed (auto intro: bexI [of _ m])
    then obtain x where x: "x \<in> set (db_messages s')" "same_envelope m x" by blast
    from m key send_openD(3) [OF opened] have "m_from m = i \<and> m_key m = in_key inp \<and> m_hash m = send_digest E c inp"
      by (simp add: new_message_def)
    with x same_envelopeD [OF x(2)] show ?thesis by auto
  qed
qed

text \<open>
  C7. A sender that never saw the answer may retry at any time: after any number of further
  operations the same request with the same key yields the message the first send stored, with
  its current state, and creates nothing.
\<close>

theorem send_retry:
  assumes "send E c i inp s = (Inr m, s')" and "reachable s'" and "db_inv s" and "step\<^sup>*\<^sup>* s' s2"
    and "send_open E2 c2 i inp s2 = (Inr ft, s2)" and "send_digest E2 c2 inp = send_digest E c inp"
    and "fst (check_scoped_credential (commit_now E2) c2 i s2) = Inr ()"
  shows "\<exists>m2. send E2 c2 i inp s2 = (Inr m2, s2) \<and> same_envelope m m2 \<and> m2 \<in> set (db_messages s2)"
proof -
  from send_stores [OF send_ok [OF assms(1)] assms(3)] obtain x where x: "x \<in> set (db_messages s')"
    "same_envelope m x" "m_from x = i" "m_key x = in_key inp" "m_hash x = send_digest E c inp" by blast
  from run_evolves [OF assms(4,2)] have R: "reachable s2" "evolves s' s2" by simp_all
  from evolves_find [OF R(2) x(1)] obtain y where y: "y \<in> set (db_messages s2)" "same_envelope x y"
    by (auto simp: msg_le_def)
  note E' = same_envelopeD [OF y(2)]
  with x have "find_receipt i (in_key inp) s2 = Some y"
    by (intro receipt_unique [OF reachable_db_inv [OF R(1)] y(1)]) simp_all
  from send_idempotent [OF assms(5) this assms(7)] assms(6) E' x
  have "send E2 c2 i inp s2 = (Inr y, s2)" by simp
  with y same_envelope_trans [OF x(2) y(2)] show ?thesis by blast
qed

theorem send_retry_witness:
  "\<exists>m2. send (sample_env 7 ''m2'') plain_ctx ''pa'' (sample_request ''bob'' ''k1'') st6 = (Inr m2, st6) \<and> same_envelope sample_message m2"
proof -
  have run: "step\<^sup>*\<^sup>* st3 st6"
    by (rule rtranclp.rtrancl_into_rtrancl [OF rtranclp.rtrancl_into_rtrancl
        [OF r_into_rtranclp [of step, OF step_st4] step_st5] step_st6])
  have dig: "send_digest (sample_env 7 ''m2'') plain_ctx (sample_request ''bob'' ''k1'') =
      send_digest (sample_env 3 ''m1'') plain_ctx (sample_request ''bob'' ''k1'')"
    by (simp add: send_digest_def)
  have cred: "fst (check_scoped_credential (commit_now (sample_env 7 ''m2'')) plain_ctx ''pa'' st6) = Inr ()"
    by (simp add: check_scoped_credential_def plain_ctx_def)
  show ?thesis
    using send_retry [OF run_send_request reachable_st3 reachable_db_inv [OF reachable_st2] run sample_open dig cred] by blast
qed

subsection \<open>Admission\<close>

lemma prerequisite_cong: "db_messages s' = db_messages s \<Longrightarrow> prerequisite s' = prerequisite s"
  by (intro ext) (simp add: prerequisite_def)

lemma ancestor_cong:
  assumes "db_messages s' = db_messages s" and "ancestor s project i m"
  shows "ancestor s' project i m"
  using assms(2) by induction (auto intro: ancestor.intros simp: prerequisite_cong [OF assms(1)])

text \<open>
  What a new request was admitted for: both ends are enabled peers of one project, it is at
  most eight delegations deep, its conversation and the recipient's and the project's queues had
  room, its deadline lies ahead, and its recipient is neither sender nor recipient of any request
  it descends from, so delegation cannot run in a circle.
\<close>

theorem request_admitted:
  assumes "send E c i inp s = (Inr m, s')" and "find_receipt i (in_key inp) s = None" and "in_kind inp = ''request''"
    and "db_inv s"
  shows "m_from m = i \<and> m_to m \<noteq> i \<and> m_state m = Accepted \<and> 1 \<le> m_depth m \<and> m_depth m \<le> 8 \<and> app_now E < m_deadline m \<and>
     (\<exists>src \<in> set (db_peers s). \<exists>dst \<in> set (db_peers s). p_id src = i \<and> p_id dst = m_to m \<and> p_enabled src \<and> p_enabled dst \<and>
        p_project src = m_project m \<and> p_project dst = m_project m) \<and>
     length (filter (\<lambda>x. m_project x = m_project m \<and> m_conversation x = m_conversation m \<and> m_kind x = ''request'') (db_messages s)) < max_conversation_requests \<and>
     length (filter (\<lambda>x. m_project x = m_project m \<and> active x \<and> m_to x = m_to m) (db_messages s)) < max_peer_queue \<and>
     length (filter (\<lambda>x. m_project x = m_project m \<and> active x) (db_messages s)) < max_project_queue \<and>
     (\<forall>a. ancestor s (m_project m) (m_parent m) a \<longrightarrow> m_to m \<noteq> m_from a \<and> m_to m \<noteq> m_to a)"
proof (rule send_fresh [OF send_ok [OF assms(1)] assms(2)])
  fix src dst inp1 reply parent depth inp' s2
  assume opened: "send_open E c i inp s = (Inr (src, dst), s)"
    and res: "send_resolve E c src dst inp s = (Inr (inp1, reply, parent, depth), s)"
    and acc: "send_account E c src inp' parent s = (Inr (), s2)" and core: "same_core s s2"
    and adm: "check_admission E src dst inp' parent depth reply s2 = (Inr (), s2)"
    and m: "m = new_message E src dst inp' (send_digest E c inp) parent depth"
    and kind: "in_kind inp' = in_kind inp"
  note O' = send_openD [OF opened] and rows = same_coreD(1) [OF core]
  have req: "in_kind inp' = ''request''" using kind assms(3) by simp
  then have "admission_reason src dst inp' parent depth s2 = Inr None"
    using check_admissionD [OF adm] by (simp add: open_reply_def is_answer_def)
  note R = admission_request [OF this req] and Q = admission_queue [OF this]
  have M: "m_from m = i" "m_to m = p_id dst" "m_project m = p_project src" "m_state m = Accepted" "m_depth m = depth"
    "m_parent m = parent" "m_conversation m = in_conversation inp'" "m_deadline m = (case in_deadline inp' of None \<Rightarrow> 0 | Some d \<Rightarrow> d)"
    using O' by (simp_all add: m new_message_def)
  have depth: "1 \<le> depth"
    by (rule send_resolveD [OF res], use causal_depth [OF assms(4)] assms(3) in \<open>auto split: option.splits\<close>)
  have dead: "app_now E < m_deadline m"
    using acc M(8) by (auto simp: send_account_def tbind_eq_Inr split: option.splits)
  have "m_to m \<noteq> m_from a \<and> m_to m \<noteq> m_to a" if "ancestor s (m_project m) (m_parent m) a" for a
    using ancestry_no_cycle [OF R(2) ancestor_cong [OF rows]] that M by simp
  then show ?thesis using M O' R Q depth dead unfolding rows max_request_depth_def by auto
qed

theorem request_admitted_witness:
  "m_depth sample_message \<le> 8 \<and> app_now (sample_env 3 ''m1'') < m_deadline sample_message"
proof -
  have "find_receipt ''pa'' (in_key (sample_request ''bob'' ''k1'')) st2 = None"
    by (simp add: find_receipt_def st2_def empty_db_def)
  from request_admitted [OF run_send_request this _ reachable_db_inv [OF reachable_st2]]
  show ?thesis by simp
qed

subsection \<open>Answers\<close>

text \<open>
  An answer is given once, by the recipient of the request and to its sender, and only while
  the request is not cancelled or failed and its required contracts are agreed; it completes an
  open request in the same step.
\<close>

theorem answer_completes_request:
  assumes "send E c i inp s = (Inr m, s')" and "find_receipt i (in_key inp) s = None" and "is_answer inp"
    and "in_reply_to inp \<noteq> ''''" and "db_inv s"
  shows "\<exists>r. find_message (in_reply_to inp) s = Some r \<and> m_to r = i \<and> m_from r = m_to m \<and>
     m_state r \<noteq> Cancelled \<and> m_state r \<noteq> Failed \<and>
     (\<forall>x \<in> set (db_messages s). m_in_reply_to x = m_id r \<longrightarrow> m_kind x \<noteq> ''answer'' \<and> m_kind x \<noteq> ''completion'') \<and>
     (m_state r = Completed \<or> m_contracts r = [] \<or>
        (\<exists>fatal. required_contract_blockers s (m_project r) i (m_contracts r) = Inr ([], fatal))) \<and>
     (\<exists>r'. find_message (in_reply_to inp) s' = Some r' \<and> m_state r' = Completed)"
proof (rule send_fresh [OF send_ok [OF assms(1)] assms(2)])
  fix src dst inp1 reply parent depth inp' s2
  assume opened: "send_open E c i inp s = (Inr (src, dst), s)"
    and res: "send_resolve E c src dst inp s = (Inr (inp1, reply, parent, depth), s)"
    and con: "send_contracts E src inp1 reply parent s = (Inr inp', s)" and core: "same_core s s2"
    and m: "m = new_message E src dst inp' (send_digest E c inp) parent depth"
    and store: "send_store E m (is_answer inp') reply s2 = (Inr m, s')"
    and kind: "in_kind inp' = in_kind inp"
  note O' = send_openD [OF opened] and C = send_contractsD [OF con] and S = send_store_run [OF store]
  have ans: "is_answer inp'" using assms(3) kind by (simp add: is_answer_def)
  have "reply \<noteq> None"
    using res assms(4) by (auto simp: send_resolve_def tbind_eq_Inr split: if_splits)
  then obtain r where reply: "reply = Some r" by blast
  have r: "causal s src (Some r)" "m_from r = p_id dst" "m_id r = in_reply_to inp"
    by (rule send_resolveD [OF res], simp add: reply)+
  then have mem: "m_to r = i" "find_message (in_reply_to inp) s = Some r"
    using O'(3) causal_find [OF assms(5) r(1)] by (simp_all add: causal_def)
  note enf = C(6)
  have agreed: "m_state r = Completed \<or> m_contracts r = [] \<or>
     (\<exists>fatal. required_contract_blockers s (m_project r) i (m_contracts r) = Inr ([], fatal))"
    using enf ans C(5) mem(1) enforce_ok [of E r s "()" s] by (auto simp: reply enforce_reply_def open_reply_def terminal_def split: if_splits)
  have rows: "db_messages s' = (if terminal (m_state r) then db_messages s @ [m]
     else update_rows (\<lambda>x. m_id x = m_id r) (set_state E Completed 0) (db_messages s @ [m]))"
    using S(3) ans reply same_coreD(1) [OF core] by simp
  have "\<exists>r'. find_message (in_reply_to inp) s' = Some r' \<and> m_state r' = Completed"
  proof (cases "terminal (m_state r)")
    case True
    then have "find_message (in_reply_to inp) s' = Some r"
      using rows mem(2) by (simp add: find_message_def find_append)
    moreover have "m_state r = Completed" using True C(5) ans reply by (auto simp: terminal_def)
    ultimately show ?thesis by blast
  next
    case False
    have "find_message (in_reply_to inp) (s\<lparr>db_messages := db_messages s @ [m]\<rparr>) = Some r"
      using mem(2) by (simp add: find_message_def find_append)
    then have "find_message (in_reply_to inp) s' = Some (set_state E Completed 0 r)"
      using rows False r(3) find_message_put [of "in_reply_to inp" E "m_id r" Completed 0 "s\<lparr>db_messages := db_messages s @ [m]\<rparr>"]
      by (simp add: find_message_def put_state_def)
    then show ?thesis by simp
  qed
  with mem r agreed C(5) ans reply show ?thesis by (auto simp: m new_message_def)
qed

definition sample_answer :: send_input where
  "sample_answer = \<lparr>in_contracts = [], in_depends_on = [], in_to = ''alice'', in_kind = ''answer'',
     in_conversation = '''', in_task = ''t'', in_reply_to = ''m1'', in_payload = ''{}'', in_deadline = None, in_key = ''k2''\<rparr>"

lemma sample_answer_simps [simp]:
  "in_contracts sample_answer = []" "in_depends_on sample_answer = []"
  "in_to sample_answer = ''alice''" "in_kind sample_answer = ''answer''"
  "in_conversation sample_answer = []" "in_task sample_answer = ''t''"
  "in_reply_to sample_answer = ''m1''" "in_payload sample_answer = ''{}''"
  "in_deadline sample_answer = None" "in_key sample_answer = ''k2''"
  by (simp_all add: sample_answer_def)

lemma answer_shape: "send_shape (sample_env 6 ''m2'') sample_answer = None"
  using sample_json sample_names
  by (simp add: send_shape_def send_kinds_def validate_required_contracts_def
      validate_dependencies_def max_dependencies_def)

lemma run_answer: "\<exists>m s'. send (sample_env 6 ''m2'') plain_ctx ''pb'' sample_answer st5 = (Inr m, s')"
  by (simp add: run_send run_tx answer_shape st2_def st3_def st4_def st5_def empty_db_def stored_peer_def
      claimed_message_def sample_message_def select_message_def terminal_def enforce_request_contracts_def
      update_state_def put_state_def update_rows_def set_state_def cong: continue_cong tbind_cong_weak)

theorem answer_completes_request_witness:
  "\<exists>m s' r'. send (sample_env 6 ''m2'') plain_ctx ''pb'' sample_answer st5 = (Inr m, s') \<and>
     find_message ''m1'' s' = Some r' \<and> m_state r' = Completed"
proof -
  from run_answer obtain m s' where run: "send (sample_env 6 ''m2'') plain_ctx ''pb'' sample_answer st5 = (Inr m, s')" by blast
  have "find_receipt ''pb'' (in_key sample_answer) st5 = None"
    by (simp add: find_receipt_def st5_def claimed_message_def sample_message_def)
  moreover have "is_answer sample_answer" "in_reply_to sample_answer \<noteq> ''''" by (simp_all add: is_answer_def)
  ultimately show ?thesis
    using answer_completes_request [OF run _ _ _ reachable_db_inv [OF reachable_st5]] run by fastforce
qed

end
