(* ===== verification/Coord_Contract_Props.thy ===== *)
theory Coord_Contract_Props
  imports Coord_Contract_Scenario Coord_Send_Props
begin

text \<open>
  Properties of the contract graph: its reservations and dependencies in every reachable state,
  what an update or a deletion is allowed to do, when a contract is ready, and who may write a
  path.
\<close>

subsection \<open>The graph\<close>

text \<open>
  C8. The dependency graph is acyclic in every reachable state, and both ends of every edge are
  stored contracts of one project.
\<close>

theorem contract_graph_acyclic:
  assumes "reachable s"
  shows "acyclic (dep_edges (db_deps s)) \<and>
     (\<forall>r \<in> set (db_deps s). \<exists>project. has_contract (db_contracts s) project (d_contract r) \<and>
        has_contract (db_contracts s) project (d_dependency r))"
  using reachable_contracts_inv [OF assms] by (simp add: contracts_inv_def deps_stored_def)

theorem contract_graph_acyclic_witness:
  "acyclic (dep_edges (db_deps st6))"
  using contract_graph_acyclic [OF reachable_st6] by blast

text \<open>
  Ownership is unambiguous in every reachable state: no two contracts of a project reserve
  equal paths or a path and a directory above it.
\<close>

theorem reservations_disjoint:
  assumes "reachable s" and "r \<in> set (db_paths s)" and "r' \<in> set (db_paths s)"
    and "pr_project r = pr_project r'" and "pr_contract r \<noteq> pr_contract r'"
  shows "pr_path r \<noteq> ''.'' \<and> pr_path r' \<noteq> ''.'' \<and>
     \<not> below (split_on CHR ''/'' (pr_path r)) (split_on CHR ''/'' (pr_path r')) \<and>
     \<not> below (split_on CHR ''/'' (pr_path r')) (split_on CHR ''/'' (pr_path r))"
proof -
  have free: "\<not> paths_overlap (pr_path r) (pr_path r')"
    using reachable_contracts_inv [OF assms(1)] assms(2-) by (simp add: contracts_inv_def paths_disjoint_def)
  then have "pr_path r \<noteq> ''.''" "pr_path r' \<noteq> ''.''" by (auto simp: paths_overlap_def)
  with free show ?thesis by (simp add: paths_overlap_elements)
qed

theorem reservations_disjoint_witness:
  "db_paths sc2 = [\<lparr>pr_contract = ''k1'', pr_project = ''proj'', pr_path = ''src''\<rparr>, \<lparr>pr_contract = ''k2'', pr_project = ''proj'', pr_path = ''doc''\<rparr>] \<and>
   \<not> below (split_on CHR ''/'' ''src'') (split_on CHR ''/'' ''doc'')"
  using reservations_disjoint [OF reachable_sc(2), of "\<lparr>pr_contract = ''k1'', pr_project = ''proj'', pr_path = ''src''\<rparr>"
      "\<lparr>pr_contract = ''k2'', pr_project = ''proj'', pr_path = ''doc''\<rparr>"]
  by (simp add: sc2_rows)

text \<open>
  The recursive query of the cycle check is exact: it collects precisely the contracts a
  contract depends on, directly or through others.
\<close>

theorem cycle_query_exact:
  "d \<in> set (reachable_ids rows i) \<longleftrightarrow> (i, d) \<in> (dep_edges rows)\<^sup>+"
  by (simp add: reachable_ids_trancl)

text \<open>
  An update is the owner's, names the current revision, and is announced: it raises the
  revision by one, touches no other contract, keeps the old revision in the history and adds the
  new one.  A change of schema or endpoint needs a new schema version, and a new version needs a
  compatibility entry from the old one to the new one.
\<close>

lemma find_update_rows:
  assumes "find (\<lambda>k. k_id k = i) (update_rows (\<lambda>k. k_id k = i \<and> k_revision k = n) (bump_contract E sp) ks) = Some k"
    and "old \<in> set ks" and "k_id old = i" and "k_revision old = n" and "distinct (map k_id ks)"
  shows "k = bump_contract E sp old"
proof -
  from assms(1) obtain x where x: "x \<in> set ks" "k = (if k_id x = i \<and> k_revision x = n then bump_contract E sp x else x)"
    and "k_id k = i" by (auto dest!: find_in_set simp: in_update_rows)
  then have "k_id x = i" by (auto split: if_splits)
  with x(1) assms(2,3,5) have "x = old" by (auto simp: distinct_map dest: inj_onD)
  with x(2) assms(3,4) show ?thesis by simp
qed

theorem update_contract_effect:
  assumes "update_contract E i cid expected sp0 s = (Inr k, s')" and "reachable s"
  shows "\<exists>old \<in> set (db_contracts s). k_id old = cid \<and> k_owner old = i \<and> k_revision old = expected \<and>
     k = bump_contract E (k_spec k) old \<and> k \<in> set (db_contracts s') \<and>
     (\<forall>x \<in> set (db_contracts s). k_id x \<noteq> cid \<longrightarrow> x \<in> set (db_contracts s')) \<and>
     db_revisions s' = db_revisions s @ [\<lparr>r_contract = cid, r_revision = expected + 1, r_spec = k_spec k\<rparr>] \<and>
     (\<not> schema_equal E (sp_schema (k_spec k)) (sp_schema (k_spec old)) \<or> sp_endpoint (k_spec k) \<noteq> sp_endpoint (k_spec old) \<longrightarrow>
        sp_version (k_spec k) \<noteq> sp_version (k_spec old)) \<and>
     (sp_version (k_spec k) \<noteq> sp_version (k_spec old) \<longrightarrow> schema_version_declared (k_spec old) (k_spec k))"
proof (rule update_contract_run [OF assms(1)])
  fix p old sp
  let ?ks = "update_rows (\<lambda>k. k_id k = cid \<and> k_revision k = expected) (bump_contract E sp) (db_contracts s)"
  assume old: "old \<in> set (db_contracts s)" "k_id old = cid" "k_owner old = i" "k_revision old = expected"
    and compat: "compatibility_error E (k_spec old) sp = None"
    and found: "find (\<lambda>k. k_id k = cid) ?ks = Some k"
    and s': "s' = stored_graph E k (s\<lparr>db_contracts := ?ks\<rparr>)"
  have dist: "distinct (map k_id (db_contracts s))"
    using reachable_contracts_inv [OF assms(2)] by (simp add: contracts_inv_def)
  have k: "k = bump_contract E sp old" by (rule find_update_rows [OF found old(1,2,4) dist])
  have rows: "db_contracts s' = ?ks"
    "db_revisions s' = db_revisions s @ [\<lparr>r_contract = k_id k, r_revision = k_revision k, r_spec = k_spec k\<rparr>]"
    by (simp_all add: s' stored_graph_def)
  have "k \<in> set (db_contracts s')" using found rows(1) by (auto dest: find_in_set)
  moreover have "x \<in> set (db_contracts s')" if "x \<in> set (db_contracts s)" "k_id x \<noteq> cid" for x
    using that rows(1) by (auto simp: in_update_rows intro!: bexI [of _ x])
  ultimately show ?thesis
    using old k rows(2) compat by (intro bexI [of _ old]) (auto simp: compatibility_error_def Let_def split: if_splits)
qed

theorem update_contract_effect_witness:
  "sp_version (k_spec contract_one') = ''2'' \<and> contract_two \<in> set (db_contracts sc3) \<and>
   db_revisions sc3 = db_revisions sc2 @ [\<lparr>r_contract = ''k1'', r_revision = 2, r_spec = k_spec contract_one'\<rparr>]"
proof -
  have two: "contract_two \<in> set (db_contracts sc2)" "k_id contract_two \<noteq> ''k1''"
    by (simp_all add: sc2_rows contract_two_def)
  from update_contract_effect [OF run_update_one reachable_sc(2)] two
  have "contract_two \<in> set (db_contracts sc3)"
    "db_revisions sc3 = db_revisions sc2 @ [\<lparr>r_contract = ''k1'', r_revision = 1 + 1, r_spec = k_spec contract_one'\<rparr>]"
    by blast+
  then show ?thesis by (simp add: contract_one'_def bump_contract_def spec_one_simps)
qed

end
