(* ===== verification/Coord_Guard_Props.thy ===== *)
theory Coord_Guard_Props
  imports Coord_Contract_Props
begin

text \<open>
  Properties of the readiness check, the write guards and the usage account.
\<close>

subsection \<open>Readiness and writing\<close>

text \<open>
  C9. A contract is reported ready exactly when everything it needs is agreed: every contract
  reached through its pins exists at the pinned revision, has an enabled owner and is
  acknowledged at its current revision by the peer that relies on it.
\<close>

theorem readiness_exact:
  assumes "contract_readiness_tx project peer root s = Inr bs"
    and "\<forall>k \<in> set (db_contracts s). CHR '':'' \<notin> set (k_id k)"
  shows "bs = [] \<longleftrightarrow> (\<forall>k a. needs s project peer root k a \<longrightarrow> agreed s project k a)"
  by (rule readiness_iff [OF assms])

theorem readiness_exact_witness:
  "contract_readiness_tx ''proj'' ''pb'' ''k1'' sc1 = Inr [blocker ''k1'' ''current_revision_not_acknowledged_by:pb'' 1 0] \<and>
   \<not> (\<forall>k a. needs sc1 ''proj'' ''pb'' ''k1'' k a \<longrightarrow> agreed sc1 ''proj'' k a)"
proof -
  have acks: "db_acks sc1 = []" by (simp add: sc1_def stored_graph_def st2_def empty_db_def)
  have run: "contract_readiness_tx ''proj'' ''pb'' ''k1'' sc1 = Inr [blocker ''k1'' ''current_revision_not_acknowledged_by:pb'' 1 0]"
    by (simp add: contract_readiness_tx_def lookup_contract_def sc_rows contract_one_def max_readiness_nodes_def peer_live_def
        sample_peers spec_one_simps node_blockers_def pin_blockers_def acknowledged_def acks)
  have "\<forall>k \<in> set (db_contracts sc1). CHR '':'' \<notin> set (k_id k)" by (simp add: sc_rows contract_one_def)
  from readiness_exact [OF run this] run show ?thesis by simp
qed




subsection \<open>The usage account\<close>

text \<open>
  A usage sample counts once: recording it again under its key changes nothing, and a
  different sample under that key is refused.
\<close>

theorem sample_counted_once:
  assumes "record_sample mid key x u s = (Inr u1, s1)"
  shows "record_sample mid key x u1 s1 = (Inr u1, s1) \<and>
     (y \<noteq> x \<longrightarrow> record_sample mid key y u1 s1 = (Inl ErrIdempotency, s1)) \<and>
     (find_sample mid key s = None \<longrightarrow> u1 = add_sample x u) \<and> (find_sample mid key s \<noteq> None \<longrightarrow> u1 = u \<and> s1 = s)"
proof (cases "find_sample mid key s")
  case None
  then have "find (\<lambda>r. s_message r = mid \<and> s_key r = key) (db_samples s) = None" by (simp add: find_sample_def)
  then have "find_sample mid key (push_sample mid key x s) = Some x"
    by (simp add: find_sample_def push_sample_def find_append)
  with None assms show ?thesis by (auto simp: record_sample_def run_tx)
next
  case (Some z)
  with assms show ?thesis by (auto simp: record_sample_def run_tx split: if_splits)
qed

definition sample_tokens :: usage_sample where
  "sample_tokens = \<lparr>us_input = 3, us_output = 4, us_cached = 0, us_reported = True, us_cost = 5, us_price_known = True\<rparr>"

theorem sample_counted_once_witness:
  "\<exists>u1 s1. record_sample ''m1'' ''k'' sample_tokens
      (new_usage ''proj'' ''task:t'' ''t'' ''pa'' no_limits) st5 = (Inr u1, s1) \<and>
     record_sample ''m1'' ''k'' sample_tokens u1 s1 = (Inr u1, s1)"
proof -
  let ?x = sample_tokens
  let ?u = "new_usage ''proj'' ''task:t'' ''t'' ''pa'' no_limits"
  have "find_sample ''m1'' ''k'' st5 = None"
    by (simp add: find_sample_def st2_def st3_def st4_def st5_def empty_db_def)
  then have "record_sample ''m1'' ''k'' ?x ?u st5 = (Inr (add_sample ?x ?u), push_sample ''m1'' ''k'' ?x st5)"
    by (simp add: record_sample_def run_tx)
  with sample_counted_once [OF this] show ?thesis by blast
qed

lemma store_usage_same:
  assumes "find_usage project scope s = Some u"
  shows "find_usage project scope (store_usage u s) = Some u"
proof -
  have at: "u_project u = project" "u_scope u = scope"
    using assms by (auto simp: find_usage_def usage_at_def dest!: find_in_set)
  have "find (usage_at project scope) (update_rows (usage_at project scope) (\<lambda>v. u\<lparr>u_project := u_project v, u_scope := u_scope v,
      u_task := u_task v, u_owner := u_owner v, u_token_limit := u_token_limit v, u_cost_limit := u_cost_limit v\<rparr>) us) = Some u"
    if "find (usage_at project scope) us = Some u" for us
    using that at by (induction us) (auto simp: update_rows_def usage_at_def split: if_splits)
  with assms at show ?thesis by (simp add: find_usage_def store_usage_def)
qed

lemma runs_usage_frame:
  "run_open (s\<lparr>db_usage := us\<rparr>) = run_open s"
  "run_in_scope (s\<lparr>db_usage := us\<rparr>) project scope = run_in_scope s project scope"
  "run_unconfirmed E (s\<lparr>db_usage := us\<rparr>) = run_unconfirmed E s"
  by (intro ext; simp add: run_open_def run_in_scope_def run_unconfirmed_def find_message_def live_peer_def split: option.split)+

lemma counts_store_usage: "usage_execution_counts E project scope (store_usage u s) = usage_execution_counts E project scope s"
  by (simp add: usage_execution_counts_def store_usage_def runs_usage_frame)

text \<open>
  A successful usage check means that the worker may go on: the message is started under the
  caller's live lease, and its account is strictly below every limit that is set, with no
  unreported usage, no unknown price where cost is limited and no execution whose outcome is open.
\<close>

theorem usage_check_within_limits:
  assumes "check_task_usage E c mid s = (Inr (), s')"
  shows "\<exists>l m u. ctx_lineage c = Some (mid, l) \<and> m_id m = mid \<and> m_to m = ls_peer l \<and> m_state m = Started \<and> m \<in> set (db_messages s) \<and>
     (\<exists>r \<in> set (db_leases s). l_peer r = ls_peer l \<and> l_owner r = ls_owner l \<and> now E < l_expires r) \<and>
     find_usage (m_project m) (message_scope m) s' = Some u \<and>
     (u_token_limit u > 0 \<longrightarrow> u_input u + u_output u < u_token_limit u \<and> u_unknown_usage u \<le> 0) \<and>
     (u_cost_limit u > 0 \<longrightarrow> u_cost u < u_cost_limit u \<and> u_unknown_usage u \<le> 0 \<and> u_unknown_price u \<le> 0) \<and>
     (u_token_limit u > 0 \<or> u_cost_limit u > 0 \<longrightarrow> snd (usage_execution_counts E (m_project m) (message_scope m) s') = 0)"
proof -
  from commit_tx_ok [OF assms [unfolded check_task_usage_def update_task_usage_def]] obtain m s0 u s1 s2 reason u2 where
    op: "usage_open E c mid True s = (Inr m, s0)"
    and found: "find_usage (m_project m) (message_scope m) s1 = Some u"
    and rev: "review_usage E m u s1 = (Inr (reason, u2), s2)" and ok: "reason = ''''" and s': "s' = store_usage u2 s2"
    by (auto simp: tbind_eq_Inr split: if_splits)
  have s0: "s0 = s" by (rule reads_state [OF reads_usage_open op])
  from op obtain l s3 s4 where l: "ctx_lineage c = Some (mid, l)" and lock: "lock_admission (ls_peer l) s = (Inr (), s3)"
    and lease: "check_lease E (ls_peer l) (ls_owner l) s3 = (Inr (), s4)"
    and sel: "select_message mid (\<lambda>m. m_to m = ls_peer l) s4 = (Inr m, s0)" and st: "m_state m = Started"
    by (auto simp: usage_open_def tbind_eq_Inr split: option.splits prod.splits)
  have e: "s3 = s" "s4 = s" using reads_state [OF reads_lock_admission lock] check_leaseD [OF lease] by simp_all
  have at: "u_scope u = message_scope m" using found by (auto simp: find_usage_def usage_at_def dest!: find_in_set)
  have R: "usage_reason u (snd (usage_execution_counts E (m_project m) (message_scope m) s1)) = ''''" "u2 = u" "s2 = s1"
    using rev ok at by (auto simp: review_usage_def tbind_eq_Inr Let_def split: prod.splits if_splits)
  have u: "find_usage (m_project m) (message_scope m) s' = Some u" using store_usage_same [OF found] R s' by simp
  have n: "usage_execution_counts E (m_project m) (message_scope m) s' = usage_execution_counts E (m_project m) (message_scope m) s1"
    using R s' by (simp add: counts_store_usage)
  note B = usage_reason_ok [OF R(1)]
  from select_messageD [OF sel] e s0 have M: "m_id m = mid" "m_to m = ls_peer l" "m \<in> set (db_messages s)" by simp_all
  show ?thesis
    using l M st check_leaseD [OF lease] e u B n by (intro exI [of _ l] exI [of _ m] exI [of _ u]) auto
qed

definition worker_ctx :: ctx where
  "worker_ctx = plain_ctx\<lparr>ctx_lineage := Some (''m1'', sample_lease)\<rparr>"

definition limited_state :: db where
  "limited_state = st5\<lparr>db_usage := [(new_usage ''proj'' ''task:t'' ''t'' ''pa'' \<lparr>ul_tokens = 10, ul_cost = 0\<rparr>)\<lparr>u_input := 4, u_output := 3\<rparr>]\<rparr>"

lemma run_usage_check: "fst (check_task_usage (sample_env 6 ''x'') worker_ctx ''m1'' limited_state) = Inr ()"
  by (simp add: check_task_usage_def update_task_usage_def commit_tx_def run_tx usage_open_def worker_ctx_def lock_admission_def
      check_lease_def select_message_def ensure_usage_def put_usage_def find_usage_def usage_at_def review_usage_def usage_reason_def
      usage_execution_counts_def limited_state_def st2_def st3_def st4_def st5_def empty_db_def stored_peer_def claimed_message_def
      sample_message_def sample_lease_def new_usage_def message_scope_def usage_scope_def plain_ctx_def Let_def
      cong: continue_cong tbind_cong_weak)

theorem usage_check_within_limits_witness:
  "\<exists>s' l. check_task_usage (sample_env 6 ''x'') worker_ctx ''m1'' limited_state = (Inr (), s') \<and> ctx_lineage worker_ctx = Some (''m1'', l)"
proof -
  obtain s' where run: "check_task_usage (sample_env 6 ''x'') worker_ctx ''m1'' limited_state = (Inr (), s')"
    using run_usage_check by (metis eq_fst_iff)
  from usage_check_within_limits [OF this] run show ?thesis by blast
qed

end
