(* ===== verification/Patch.thy ===== *)
theory Patch
  imports Go_Text
begin

text \<open>
  The \<open>patch\<close> tool (\<open>internal/tools/patch.go\<close>): the parser of unified diffs and \<open>ApplyHunks\<close>, which
  splices hunks into the lines of a file.  Errors are values of \<open>patch_error\<close>; \<open>PatchPanic\<close> stands
  for a slice or index expression that panics.  Line numbers are \<open>int\<close> kept to 64 bits by \<open>wrap64\<close>.
\<close>

subsection \<open>Parsing\<close>

record hunk =
  h_old_start :: int
  h_old_count :: int
  h_new_start :: int
  h_new_count :: int
  h_lines :: "string list"

datatype patch_error = ExpectedPrefix string | BadStart string | BadCount string | MalformedHeader string
  | UnexpectedLine string | MalformedLine string | NoHunks | StartOutOfRange nat int | ContextPastEOF nat
  | ContextMismatch nat nat string string | RemovalPastEOF nat | RemovalMismatch nat nat string string | PatchPanic

definition parse_hunk_range :: "string \<Rightarrow> char \<Rightarrow> patch_error + (int \<times> int)" where
  "parse_hunk_range s sigil =
    (case s of
       [] \<Rightarrow> Inl (ExpectedPrefix s)
     | c # body \<Rightarrow>
         if c \<noteq> sigil then Inl (ExpectedPrefix s)
         else (let (start_str, rest) = split_first (CHR '','') body
               in case atoi start_str of
                    None \<Rightarrow> Inl (BadStart start_str)
                  | Some start \<Rightarrow>
                      (case rest of
                         None \<Rightarrow> Inr (start, 1)
                       | Some count_str \<Rightarrow>
                           (case atoi count_str of None \<Rightarrow> Inl (BadCount count_str) | Some cnt \<Rightarrow> Inr (start, cnt)))))"

fun before_sub :: "string \<Rightarrow> string \<Rightarrow> string option" where
  "before_sub sub s =
     (if has_prefix s sub then Some []
      else case s of [] \<Rightarrow> None | c # r \<Rightarrow> map_option (\<lambda>p. c # p) (before_sub sub r))"

declare before_sub.simps [simp del]

definition parse_hunk_header :: "string \<Rightarrow> patch_error + hunk" where
  "parse_hunk_header line =
    (if \<not> has_prefix line ''@@'' then Inl (MalformedHeader line)
     else case before_sub ''@@'' (drop 2 line) of
       None \<Rightarrow> Inl (MalformedHeader line)
     | Some header \<Rightarrow>
         (case Go_Text.fields (trim_space header) of
            [a, b] \<Rightarrow>
              (case parse_hunk_range a (CHR ''-'') of Inl e \<Rightarrow> Inl e
               | Inr (os, oc) \<Rightarrow>
                   (case parse_hunk_range b (CHR ''+'') of Inl e \<Rightarrow> Inl e
                    | Inr (ns, nc) \<Rightarrow> Inr \<lparr>h_old_start = os, h_old_count = oc, h_new_start = ns,
                                          h_new_count = nc, h_lines = []\<rparr>))
          | _ \<Rightarrow> Inl (MalformedHeader line)))"

definition close_hunk :: "hunk list \<Rightarrow> hunk option \<Rightarrow> hunk list" where
  "close_hunk hs cur = (case cur of None \<Rightarrow> hs | Some h \<Rightarrow> hs @ [h])"

definition add_line :: "string \<Rightarrow> hunk \<Rightarrow> hunk" where
  "add_line l h = h\<lparr>h_lines := h_lines h @ [l]\<rparr>"

fun parse_lines :: "hunk list \<Rightarrow> hunk option \<Rightarrow> string list \<Rightarrow> patch_error + hunk list" where
  "parse_lines hs cur [] = Inr (close_hunk hs cur)"
| "parse_lines hs cur (line # ls) =
    (if has_prefix line ''--- '' \<or> has_prefix line ''+++ '' then parse_lines hs cur ls
     else if has_prefix line ''@@'' then
       (case parse_hunk_header line of Inl e \<Rightarrow> Inl e
        | Inr h \<Rightarrow> parse_lines (close_hunk hs cur) (Some h) ls)
     else case cur of
       None \<Rightarrow> if trim_space line = [] then parse_lines hs None ls else Inl (UnexpectedLine line)
     | Some h \<Rightarrow>
         (case line of
            [] \<Rightarrow> parse_lines hs (Some (add_line '' '' h)) ls
          | c # _ \<Rightarrow>
              if c = CHR '' '' \<or> c = CHR ''-'' \<or> c = CHR ''+'' then parse_lines hs (Some (add_line line h)) ls
              else if byte c = 92 then parse_lines hs cur ls
              else Inl (MalformedLine line)))"

definition parse_unified_diff :: "string \<Rightarrow> patch_error + hunk list" where
  "parse_unified_diff patch =
    (let lines = split_on (CHR 0x0A) patch;
         lines = (if last lines = [] then butlast lines else lines)
     in case parse_lines [] None lines of
          Inl e \<Rightarrow> Inl e
        | Inr [] \<Rightarrow> Inl NoHunks
        | Inr hs \<Rightarrow> Inr hs)"

subsection \<open>Applying\<close>

text \<open>The walk over the lines of a hunk: the replacement lines and the number of lines consumed.\<close>

fun walk_hunk :: "nat \<Rightarrow> string list \<Rightarrow> nat \<Rightarrow> string list \<Rightarrow> patch_error + (string list \<times> nat)" where
  "walk_hunk hi out cursor [] = Inr ([], 0)"
| "walk_hunk hi out cursor (l # ls) =
    (case l of
       [] \<Rightarrow> Inl PatchPanic
     | tag # body \<Rightarrow>
         if tag = CHR '' '' then
           (if cursor \<ge> length out then Inl (ContextPastEOF hi)
            else if out ! cursor \<noteq> body then Inl (ContextMismatch hi (cursor + 1) (out ! cursor) body)
            else map_sum id (\<lambda>(seg, n). (body # seg, n + 1)) (walk_hunk hi out (cursor + 1) ls))
         else if tag = CHR ''-'' then
           (if cursor \<ge> length out then Inl (RemovalPastEOF hi)
            else if out ! cursor \<noteq> body then Inl (RemovalMismatch hi (cursor + 1) (out ! cursor) body)
            else map_sum id (\<lambda>(seg, n). (seg, n + 1)) (walk_hunk hi out (cursor + 1) ls))
         else if tag = CHR ''+'' then map_sum id (\<lambda>(seg, n). (body # seg, n)) (walk_hunk hi out cursor ls)
         else walk_hunk hi out cursor ls)"

definition apply_hunk :: "nat \<Rightarrow> string list \<Rightarrow> int \<Rightarrow> hunk \<Rightarrow> patch_error + (string list \<times> int)" where
  "apply_hunk hi out offset h =
    (let idx = wrap64 (h_old_start h - 1 + offset)
     in if idx < 0 then Inl (StartOutOfRange hi (h_old_start h))
        else case walk_hunk hi out (nat idx) (h_lines h) of
          Inl e \<Rightarrow> Inl e
        | Inr (seg, n) \<Rightarrow>
            if nat idx + n > length out then Inl PatchPanic
            else Inr (take (nat idx) out @ seg @ drop (nat idx + n) out, wrap64 (offset + (int (length seg) - int n))))"

fun apply_hunk_list :: "nat \<Rightarrow> string list \<Rightarrow> int \<Rightarrow> hunk list \<Rightarrow> patch_error + string list" where
  "apply_hunk_list hi out offset [] = Inr out"
| "apply_hunk_list hi out offset (h # hs) =
    (case apply_hunk hi out offset h of Inl e \<Rightarrow> Inl e
     | Inr (out', offset') \<Rightarrow> apply_hunk_list (hi + 1) out' offset' hs)"

definition join_nl :: "string list \<Rightarrow> string" where
  "join_nl ls = butlast (concat (map (\<lambda>l. l @ [CHR 0x0A]) ls))"

definition ends_nl :: "string \<Rightarrow> bool" where
  "ends_nl s \<longleftrightarrow> s \<noteq> [] \<and> last s = CHR 0x0A"

definition join_lines_preserve :: "string list \<Rightarrow> string \<Rightarrow> string" where
  "join_lines_preserve ls original =
    (let out = join_nl ls
     in if ends_nl original \<and> \<not> ends_nl out then out @ [CHR 0x0A]
        else if \<not> ends_nl original \<and> ends_nl out then butlast out else out)"

definition apply_hunks :: "string \<Rightarrow> hunk list \<Rightarrow> patch_error + string" where
  "apply_hunks src hs =
     map_sum id (\<lambda>ls. join_lines_preserve ls src) (apply_hunk_list 1 (split_on (CHR 0x0A) src) 0 hs)"

end
