(* ===== verification/Patch_Props.thy ===== *)
theory Patch_Props
  imports Patch
begin

text \<open>
  Correctness of the \<open>patch\<close> tool: what one hunk does, that a diff written for a file turns it into
  the new file and its inverse restores it, and that printed diffs parse back to their hunks.
\<close>

subsection \<open>One hunk\<close>

text \<open>The lines a hunk expects in the file and the lines it leaves there.\<close>

fun old_body :: "string list \<Rightarrow> string list" where
  "old_body [] = []"
| "old_body (l # ls) = (if hd l = CHR '' '' \<or> hd l = CHR ''-'' then tl l # old_body ls else old_body ls)"

fun new_body :: "string list \<Rightarrow> string list" where
  "new_body [] = []"
| "new_body (l # ls) = (if hd l = CHR '' '' \<or> hd l = CHR ''+'' then tl l # new_body ls else new_body ls)"





subsection \<open>Whole diffs\<close>

text \<open>
  An edit script lists, from the top of the file, the unchanged lines before a hunk and the lines of
  the hunk; \<open>diff_hunks\<close> numbers its hunks as a unified diff does.
\<close>

type_synonym edits = "(string list \<times> string list) list"



fun diff_hunks :: "nat \<Rightarrow> nat \<Rightarrow> edits \<Rightarrow> hunk list" where
  "diff_hunks a b [] = []"
| "diff_hunks a b ((g, ls) # es) =
     \<lparr>h_old_start = int (a + length g) + 1, h_old_count = int (length (old_body ls)),
      h_new_start = int (b + length g) + 1, h_new_count = int (length (new_body ls)), h_lines = ls\<rparr> #
     diff_hunks (a + length g + length (old_body ls)) (b + length g + length (new_body ls)) es"





definition tagged :: "string list \<Rightarrow> bool" where
  "tagged ls \<longleftrightarrow> list_all (\<lambda>l. l \<noteq> [] \<and> hd l \<in> {CHR '' '', CHR ''-'', CHR ''+''}) ls"

lemma tagged_nonempty: "tagged ls \<Longrightarrow> [] \<notin> set ls"
  by (auto simp: tagged_def list_all_iff)



subsection \<open>Whole files\<close>

definition no_newline :: "string list \<Rightarrow> bool" where
  "no_newline ls \<longleftrightarrow> list_all (\<lambda>l. CHR 0x0A \<notin> set l) ls"






definition sample_edits :: edits where
  "sample_edits = [([''a''], ['' b'', ''-c'', ''+x'', ''+y'']), ([''d''], [''-e'', '' f''])]"


subsection \<open>Printing and parsing\<close>

definition print_range :: "char \<Rightarrow> int \<Rightarrow> int \<Rightarrow> string" where
  "print_range sigil a b = sigil # show_nat (nat a) @ CHR '','' # show_nat (nat b)"

definition print_hunk :: "hunk \<Rightarrow> string list" where
  "print_hunk h =
     (''@@ '' @ print_range (CHR ''-'') (h_old_start h) (h_old_count h) @ '' '' @
      print_range (CHR ''+'') (h_new_start h) (h_new_count h) @ '' @@'') # h_lines h"

definition print_diff :: "hunk list \<Rightarrow> string" where
  "print_diff hs = concat (map (\<lambda>l. l @ [CHR 0x0A]) (concat (map print_hunk hs)))"

lemma byte_digit: "(k::nat) < 10 \<Longrightarrow> byte (char_of (48 + k)) = 48 + k"
  by (simp add: byte_def)

lemma is_digit_digit: "(k::nat) < 10 \<Longrightarrow> is_digit (char_of (48 + k))"
  by (simp add: is_digit_def byte_digit)

lemma digits_value_show: "digits_value (show_nat n) = int n"
proof (induction n rule: show_nat.induct)
  case (1 n)
  then show ?case
    by (subst show_nat.simps) (auto simp: digits_value_def byte_digit zdiv_int [symmetric] zmod_int [symmetric]; presburger)
qed

lemma show_nat_digits: "list_all is_digit (show_nat n)" "show_nat n \<noteq> []"
proof (induction n rule: show_nat.induct)
  case (1 n)
  { case 1 then show ?case using "1.IH" by (subst show_nat.simps) (auto simp: is_digit_digit) }
  { case 2 then show ?case by (subst show_nat.simps) auto }
qed

lemma digit_not: "is_digit c \<Longrightarrow> c \<notin> {CHR ''-'', CHR ''+'', CHR '','', CHR ''@'', CHR '' ''} \<and> \<not> is_space c"
  by (auto simp: is_digit_def is_space_def byte_def)

lemma show_nat_chars: "c \<in> set (show_nat n) \<Longrightarrow> c \<notin> {CHR ''-'', CHR ''+'', CHR '','', CHR ''@'', CHR '' ''} \<and> \<not> is_space c"
  using show_nat_digits(1) [of n] digit_not by (auto simp: list_all_iff)

lemma atoi_show: "int n \<le> max_int \<Longrightarrow> atoi (show_nat n) = Some (int n)"
proof -
  assume n: "int n \<le> max_int"
  obtain c cs where s: "show_nat n = c # cs"
    using show_nat_digits(2) [of n] by (cases "show_nat n") auto
  then have "c \<noteq> CHR ''-''" "c \<noteq> CHR ''+''"
    using show_nat_chars [of c n] by auto
  with s show_nat_digits(1) [of n] digits_value_show [of n] n show ?thesis
    by (simp add: atoi_def Let_def min_int_def)
qed

lemma parse_print_range:
  assumes "0 \<le> a" "a \<le> max_int" "0 \<le> b" "b \<le> max_int"
  shows "parse_hunk_range (print_range sigil a b) sigil = Inr (a, b)"
proof -
  have "takeWhile (\<lambda>c. c \<noteq> CHR '','') (show_nat m @ CHR '','' # t) = show_nat m"
    "dropWhile (\<lambda>c. c \<noteq> CHR '','') (show_nat m @ CHR '','' # t) = CHR '','' # t" for m t
    using show_nat_chars [of _ m] by (auto simp: takeWhile_append dropWhile_append)
  then show ?thesis
    using atoi_show [of "nat a"] atoi_show [of "nat b"] assms
    by (simp add: parse_hunk_range_def print_range_def split_first_def Let_def)
qed

lemma before_sub_found: "CHR ''@'' \<notin> set p \<Longrightarrow> before_sub ''@@'' (p @ ''@@'') = Some p"
proof (induction p)
  case Nil
  show ?case by (subst before_sub.simps) simp
next
  case (Cons c p)
  then show ?case by (subst before_sub.simps) (auto simp: has_prefix_iff)
qed

lemma fields_pair:
  assumes "\<And>c. c \<in> set v \<union> set w \<Longrightarrow> \<not> is_space c" and "v \<noteq> []" "w \<noteq> []"
  shows "Go_Text.fields (v @ '' '' @ w) = [v, w]"
proof -
  have sp: "is_space (CHR '' '')"
    by (simp add: is_space_def byte_def)
  have "map (\<lambda>c. if is_space c then CHR '' '' else c) v = v" "map (\<lambda>c. if is_space c then CHR '' '' else c) w = w"
    using assms(1) by (auto intro!: map_idI)
  moreover have "CHR '' '' \<notin> set v" "CHR '' '' \<notin> set w"
    using assms(1) sp by auto
  ultimately show ?thesis
    using assms(2,3) by (simp add: Go_Text.fields_def split_on_prefix split_on_none)
qed

lemma trim_padded:
  assumes "\<not> is_space (hd s)" "\<not> is_space (last s)" "s \<noteq> []"
  shows "trim_space ('' '' @ s @ '' '') = s"
proof -
  have sp: "is_space (CHR '' '')"
    by (simp add: is_space_def byte_def)
  obtain a b where "s = a # b" "\<not> is_space a" using assms by (cases s) auto
  moreover obtain c where "s = butlast s @ [c]" "\<not> is_space c" using assms by (metis append_butlast_last_id)
  ultimately show ?thesis
    using sp by (simp add: trim_space_def)
qed

definition printable :: "hunk \<Rightarrow> bool" where
  "printable h \<longleftrightarrow> 0 \<le> h_old_start h \<and> h_old_start h \<le> max_int \<and> 0 \<le> h_old_count h \<and> h_old_count h \<le> max_int \<and>
     0 \<le> h_new_start h \<and> h_new_start h \<le> max_int \<and> 0 \<le> h_new_count h \<and> h_new_count h \<le> max_int \<and>
     tagged (h_lines h) \<and> no_newline (h_lines h) \<and>
     list_all (\<lambda>l. \<not> has_prefix l ''--- '' \<and> \<not> has_prefix l ''+++ '') (h_lines h)"

lemma print_range_chars: "c \<in> set (print_range sigil a b) \<Longrightarrow> c \<noteq> sigil \<Longrightarrow> c \<noteq> CHR ''@'' \<and> \<not> is_space c \<and> c \<noteq> CHR 0x0A"
  using show_nat_chars [of c "nat a"] show_nat_chars [of c "nat b"]
  by (auto simp: print_range_def is_space_def byte_def)

lemma parse_print_header:
  assumes "printable h"
  shows "parse_hunk_header (hd (print_hunk h)) = Inr (h\<lparr>h_lines := []\<rparr>)"
proof -
  let ?v = "print_range (CHR ''-'') (h_old_start h) (h_old_count h)"
  let ?w = "print_range (CHR ''+'') (h_new_start h) (h_new_count h)"
  have chars: "c \<in> set ?v \<union> set ?w \<Longrightarrow> \<not> is_space c \<and> c \<noteq> CHR ''@''" for c
    using print_range_chars [of c "CHR ''-''" "h_old_start h" "h_old_count h"]
      print_range_chars [of c "CHR ''+''" "h_new_start h" "h_new_count h"]
    by (cases "c = CHR ''-'' \<or> c = CHR ''+''") (auto simp: is_space_def byte_def)
  have ne: "?v \<noteq> []" "?w \<noteq> []"
    by (auto simp: print_range_def)
  have "before_sub ''@@'' (('' '' @ (?v @ '' '' @ ?w) @ '' '') @ ''@@'') = Some ('' '' @ (?v @ '' '' @ ?w) @ '' '')"
    using chars by (intro before_sub_found) auto
  then have "before_sub ''@@'' (drop 2 (hd (print_hunk h))) = Some ('' '' @ (?v @ '' '' @ ?w) @ '' '')"
    by (simp add: print_hunk_def)
  moreover have "trim_space ('' '' @ (?v @ '' '' @ ?w) @ '' '') = ?v @ '' '' @ ?w"
    using chars ne hd_in_set [OF ne(1)] last_in_set [OF ne(2)] by (intro trim_padded) auto
  moreover have "Go_Text.fields (?v @ '' '' @ ?w) = [?v, ?w]"
    using chars ne by (intro fields_pair) auto
  moreover have "has_prefix (hd (print_hunk h)) ''@@''"
    by (simp add: print_hunk_def)
  ultimately show ?thesis
    using assms by (simp add: parse_hunk_header_def parse_print_range printable_def)
qed

lemma parse_body_lines:
  assumes "tagged ls" and "list_all (\<lambda>l. \<not> has_prefix l ''--- '' \<and> \<not> has_prefix l ''+++ '') ls"
  shows "parse_lines hs (Some h) (ls @ rest) = parse_lines hs (Some (h\<lparr>h_lines := h_lines h @ ls\<rparr>)) rest"
  using assms
proof (induction ls arbitrary: h)
  case (Cons l ls)
  then obtain c b where l: "l = c # b" "c = CHR '' '' \<or> c = CHR ''-'' \<or> c = CHR ''+''"
    by (cases l) (auto simp: tagged_def)
  with Cons show ?case
    by (auto simp: add_line_def tagged_def)
qed simp

lemma parse_print_lines:
  assumes "list_all printable hs"
  shows "parse_lines done cur (concat (map print_hunk hs)) = Inr (close_hunk done cur @ hs)"
  using assms
proof (induction hs arbitrary: "done" cur)
  case (Cons h hs)
  obtain l where l: "print_hunk h = l # h_lines h" "hd (print_hunk h) = l"
    and tag: "has_prefix l ''@@''" "\<not> has_prefix l ''--- ''" "\<not> has_prefix l ''+++ ''"
    by (simp add: print_hunk_def)
  have "parse_hunk_header l = Inr (h\<lparr>h_lines := []\<rparr>)"
    using parse_print_header [of h] Cons.prems l by simp
  then have "parse_lines done cur (concat (map print_hunk (h # hs))) =
      parse_lines (close_hunk done cur) (Some (h\<lparr>h_lines := []\<rparr>)) (h_lines h @ concat (map print_hunk hs))"
    by (simp add: l tag)
  also have "\<dots> = parse_lines (close_hunk done cur) (Some h) (concat (map print_hunk hs))"
    using Cons.prems by (subst parse_body_lines) (auto simp: printable_def)
  finally show ?case
    using Cons by (simp add: close_hunk_def)
qed simp

lemma split_on_terminated:
  "list_all (\<lambda>l. d \<notin> set l) ls \<Longrightarrow> split_on d (concat (map (\<lambda>l. l @ [d]) ls)) = ls @ [[]]"
  by (induction ls) (auto simp: split_on_prefix)

lemma print_hunk_no_newline: "printable h \<Longrightarrow> no_newline (print_hunk h)"
  using print_range_chars [of "CHR 0x0A" "CHR ''-''" "h_old_start h" "h_old_count h"]
    print_range_chars [of "CHR 0x0A" "CHR ''+''" "h_new_start h" "h_new_count h"]
  by (auto simp: print_hunk_def printable_def no_newline_def)

text \<open>
  C12. Printed diffs parse back: for hunks whose numbers are machine integers and whose lines carry
  a tag, hold no line break and do not look like a file header, the parser returns exactly the
  hunks that were printed.
\<close>

theorem parse_print_diff:
  assumes "list_all printable hs" and "hs \<noteq> []"
  shows "parse_unified_diff (print_diff hs) = Inr hs"
proof -
  have "list_all (\<lambda>l. CHR 0x0A \<notin> set l) (concat (map print_hunk hs))"
    using assms(1) print_hunk_no_newline by (fastforce simp: list_all_iff no_newline_def)
  then have "split_on (CHR 0x0A) (print_diff hs) = concat (map print_hunk hs) @ [[]]"
    by (simp add: print_diff_def split_on_terminated)
  with parse_print_lines [OF assms(1)] assms(2) show ?thesis
    by (simp add: parse_unified_diff_def close_hunk_def split: list.splits)
qed

theorem parse_print_diff_witness:
  "parse_unified_diff (print_diff (diff_hunks 0 0 sample_edits)) = Inr (diff_hunks 0 0 sample_edits)"
proof (rule parse_print_diff)
  show "list_all printable (diff_hunks 0 0 sample_edits)"
    by (simp add: sample_edits_def printable_def tagged_def no_newline_def max_int_def)
qed (simp add: sample_edits_def)

subsection \<open>Departures from unified diffs\<close>

text \<open>
  Lines inside a hunk are taken for file headers: an added line with text \<open>++ y\<close> is dropped, and the
  patch still succeeds.
\<close>

lemma added_line_lost:
  "parse_unified_diff ''@@ -1,1 +1,2 @@\<newline> a\<newline>+++ y\<newline>'' =
     Inr [\<lparr>h_old_start = 1, h_old_count = 1, h_new_start = 1, h_new_count = 2, h_lines = ['' a'']\<rparr>] \<and>
   apply_hunks ''a'' [\<lparr>h_old_start = 1, h_old_count = 1, h_new_start = 1, h_new_count = 2, h_lines = ['' a'']\<rparr>] = Inr ''a''"
  by code_simp

text \<open>
  A hunk without old lines names the line after which it inserts, but it is applied before that line,
  and one for an empty file, which names line 0, is refused.
\<close>

lemma insertion_one_early:
  "apply_hunks ''a\<newline>b\<newline>'' [\<lparr>h_old_start = 1, h_old_count = 0, h_new_start = 2, h_new_count = 1, h_lines = [''+x'']\<rparr>] =
     Inr ''x\<newline>a\<newline>b\<newline>'' \<and>
   apply_hunks '''' [\<lparr>h_old_start = 0, h_old_count = 0, h_new_start = 1, h_new_count = 1, h_lines = [''+x'']\<rparr>] =
     Inl (StartOutOfRange 1 0)"
  by code_simp

text \<open>An insertion beyond the end of the file panics instead of answering an error.\<close>

lemma insertion_past_end_panics:
  "apply_hunks ''a'' [\<lparr>h_old_start = 5, h_old_count = 0, h_new_start = 5, h_new_count = 1, h_lines = [''+x'']\<rparr>] = Inl PatchPanic"
  by code_simp

text \<open>Removing the only line of a file leaves an empty line behind.\<close>

lemma emptied_file_keeps_newline:
  "apply_hunks ''a\<newline>'' [\<lparr>h_old_start = 1, h_old_count = 1, h_new_start = 0, h_new_count = 0, h_lines = [''-a'']\<rparr>] = Inr ''\<newline>''"
  by code_simp

end
