(* ===== verification/Cron_Parser.thy ===== *)
theory Cron_Parser
  imports Go_Text
begin

text \<open>
  Cron expressions (\<open>internal/cron/parser.go\<close>): the parser of the five fields and \<open>Next\<close>, which
  searches the next matching minute.  A parser result of \<open>None\<close> means that the loop of a step
  expression never ends.

  A time is a number of minutes since 1970-01-01 00:00 on the clock of the location, which has a
  constant offset \<open>off\<close> to UTC in minutes; daylight saving and earlier dates are outside the model.
\<close>

subsection \<open>Fields\<close>

type_synonym field = "int list"

record cron_expr =
  minute_f :: field
  hour_f :: field
  day_f :: field
  month_f :: field
  weekday_f :: field

datatype cron_error = FieldCount nat | InField nat cron_error | EmptyValues | InvalidValue string
  | ValueRange int int int | InvalidStep string | RangeStart string | RangeEnd string | StepBase string
  | RangeOrder int int | RangeBounds int int int int

definition field_matches :: "field \<Rightarrow> nat \<Rightarrow> bool" where
  "field_matches f v \<longleftrightarrow> int v \<in> set f"

definition add_values :: "int list \<Rightarrow> field \<Rightarrow> field" where
  "add_values vs f = fold List.insert vs f"

partial_function (option) step_loop :: "int \<Rightarrow> int \<Rightarrow> int \<Rightarrow> int \<Rightarrow> int \<Rightarrow> field \<Rightarrow> field option" where
  "step_loop lo hi step stop i f =
     (if stop < i then Some f
      else step_loop lo hi step stop (wrap64 (i + step)) (if lo \<le> i \<and> i \<le> hi then List.insert i f else f))"

declare step_loop.simps [code]

definition step_bounds :: "string \<Rightarrow> int \<Rightarrow> int \<Rightarrow> cron_error + (int \<times> int)" where
  "step_bounds base lo hi =
    (if base = ''*'' then Inr (lo, hi)
     else case split_first (CHR ''-'') base of
       (a, Some b) \<Rightarrow>
         (case atoi a of None \<Rightarrow> Inl (RangeStart a)
          | Some x \<Rightarrow> (case atoi b of None \<Rightarrow> Inl (RangeEnd b) | Some y \<Rightarrow> Inr (x, y)))
     | (_, None) \<Rightarrow> (case atoi base of None \<Rightarrow> Inl (StepBase base) | Some v \<Rightarrow> Inr (v, hi)))"

definition parse_step :: "string \<Rightarrow> int \<Rightarrow> int \<Rightarrow> field \<Rightarrow> (cron_error + field) option" where
  "parse_step s lo hi f =
    (case split_first (CHR ''/'') s of
       (_, None) \<Rightarrow> Some (Inl (InvalidStep s))
     | (base, Some step_str) \<Rightarrow>
         (case atoi step_str of None \<Rightarrow> Some (Inl (InvalidStep step_str))
          | Some step \<Rightarrow>
              if step \<le> 0 then Some (Inl (InvalidStep step_str))
              else case step_bounds base lo hi of
                Inl e \<Rightarrow> Some (Inl e)
              | Inr (a, b) \<Rightarrow> map_option Inr (step_loop lo hi step b a f)))"

definition parse_range :: "string \<Rightarrow> int \<Rightarrow> int \<Rightarrow> field \<Rightarrow> cron_error + field" where
  "parse_range s lo hi f =
    (case split_first (CHR ''-'') s of
       (_, None) \<Rightarrow> Inl (InvalidValue s)
     | (a, Some b) \<Rightarrow>
         (case atoi a of None \<Rightarrow> Inl (RangeStart a)
          | Some x \<Rightarrow>
              (case atoi b of None \<Rightarrow> Inl (RangeEnd b)
               | Some y \<Rightarrow>
                   if y < x then Inl (RangeOrder x y)
                   else if x < lo \<or> hi < y then Inl (RangeBounds x y lo hi)
                   else Inr (add_values [x..y] f))))"

definition parse_field_part :: "string \<Rightarrow> int \<Rightarrow> int \<Rightarrow> field \<Rightarrow> (cron_error + field) option" where
  "parse_field_part s lo hi f =
    (if CHR ''/'' \<in> set s then parse_step s lo hi f
     else if CHR ''-'' \<in> set s then Some (parse_range s lo hi f)
     else if s = ''*'' then Some (Inr (add_values [lo..hi] f))
     else case atoi s of
       None \<Rightarrow> Some (Inl (InvalidValue s))
     | Some v \<Rightarrow> if v < lo \<or> hi < v then Some (Inl (ValueRange v lo hi)) else Some (Inr (List.insert v f)))"

fun parse_parts :: "string list \<Rightarrow> int \<Rightarrow> int \<Rightarrow> field \<Rightarrow> (cron_error + field) option" where
  "parse_parts [] lo hi f = Some (Inr f)"
| "parse_parts (p # ps) lo hi f =
     (case parse_field_part p lo hi f of
        None \<Rightarrow> None
      | Some (Inl e) \<Rightarrow> Some (Inl e)
      | Some (Inr f') \<Rightarrow> parse_parts ps lo hi f')"

definition parse_field :: "string \<Rightarrow> int \<Rightarrow> int \<Rightarrow> (cron_error + field) option" where
  "parse_field s lo hi =
    (case parse_parts (split_on (CHR '','') s) lo hi [] of
       Some (Inr f) \<Rightarrow> Some (if f = [] then Inl EmptyValues else Inr f)
     | r \<Rightarrow> r)"

definition field_ranges :: "(int \<times> int) list" where
  "field_ranges = [(0, 59), (0, 23), (1, 31), (1, 12), (0, 6)]"

fun parse_all :: "nat \<Rightarrow> (string \<times> int \<times> int) list \<Rightarrow> (cron_error + field list) option" where
  "parse_all i [] = Some (Inr [])"
| "parse_all i ((p, lo, hi) # ps) =
     (case parse_field p lo hi of
        None \<Rightarrow> None
      | Some (Inl e) \<Rightarrow> Some (Inl (InField (i + 1) e))
      | Some (Inr f) \<Rightarrow> map_option (map_sum id ((#) f)) (parse_all (i + 1) ps))"

definition parse_cron :: "string \<Rightarrow> (cron_error + cron_expr) option" where
  "parse_cron expr =
    (let parts = Go_Text.fields expr
     in if length parts \<noteq> 5 then Some (Inl (FieldCount (length parts)))
        else case parse_all 0 (zip parts field_ranges) of
          None \<Rightarrow> None
        | Some (Inl e) \<Rightarrow> Some (Inl e)
        | Some (Inr fs) \<Rightarrow> Some (Inr \<lparr>minute_f = fs ! 0, hour_f = fs ! 1, day_f = fs ! 2,
                                     month_f = fs ! 3, weekday_f = fs ! 4\<rparr>))"

subsection \<open>The calendar\<close>

definition leap_year :: "nat \<Rightarrow> bool" where
  "leap_year y \<longleftrightarrow> (y mod 4 = 0 \<and> y mod 100 \<noteq> 0) \<or> y mod 400 = 0"

text \<open>Months are counted from January 1970.\<close>

definition month_days :: "nat \<Rightarrow> nat" where
  "month_days k =
     (if k mod 12 = 1 then (if leap_year (1970 + k div 12) then 29 else 28)
      else if k mod 12 \<in> {3, 5, 8, 10} then 30 else 31)"

primrec month_start :: "nat \<Rightarrow> nat" where
  "month_start 0 = 0"
| "month_start (Suc k) = month_start k + month_days k"

lemma month_days_bounds: "28 \<le> month_days k" "month_days k \<le> 31"
  by (auto simp: month_days_def)

function find_month :: "nat \<Rightarrow> nat \<Rightarrow> nat \<times> nat" where
  "find_month k d = (if d < month_days k then (k, d) else find_month (k + 1) (d - month_days k))"
  by pat_completeness auto
termination
proof (relation "measure snd")
  fix k d assume "\<not> d < month_days k"
  with month_days_bounds(1) [of k] show "((k + 1, d - month_days k), k, d) \<in> measure snd"
    by simp
qed simp

declare find_month.simps [simp del]

definition month_index :: "nat \<Rightarrow> nat" where
  "month_index t = fst (find_month 0 (t div 1440))"

definition t_month :: "nat \<Rightarrow> nat" where
  "t_month t = month_index t mod 12 + 1"

definition t_day :: "nat \<Rightarrow> nat" where
  "t_day t = snd (find_month 0 (t div 1440)) + 1"

definition t_weekday :: "nat \<Rightarrow> nat" where
  "t_weekday t = (t div 1440 + 4) mod 7"

definition t_hour :: "nat \<Rightarrow> nat" where
  "t_hour t = t mod 1440 div 60"

definition t_minute :: "nat \<Rightarrow> nat" where
  "t_minute t = t mod 60"

subsection \<open>The search\<close>

definition trunc_hour :: "int \<Rightarrow> nat \<Rightarrow> nat" where
  "trunc_hour off t = nat ((int t - off) div 60 * 60 + off)"

definition next_month :: "nat \<Rightarrow> nat" where
  "next_month t = month_start (month_index t + 1) * 1440"

definition next_step :: "cron_expr \<Rightarrow> int \<Rightarrow> nat \<Rightarrow> nat option" where
  "next_step c off t =
    (if \<not> field_matches (month_f c) (t_month t) then Some (next_month t)
     else if \<not> field_matches (day_f c) (t_day t) then Some (trunc_hour off (t + 1440))
     else if \<not> field_matches (weekday_f c) (t_weekday t) then Some (trunc_hour off (t + 1440))
     else if \<not> field_matches (hour_f c) (t_hour t) then Some (trunc_hour off (t + 60))
     else if \<not> field_matches (minute_f c) (t_minute t) then Some (t + 1)
     else None)"

fun next_loop :: "nat \<Rightarrow> cron_expr \<Rightarrow> int \<Rightarrow> nat \<Rightarrow> nat option" where
  "next_loop 0 c off t = None"
| "next_loop (Suc n) c off t = (case next_step c off t of None \<Rightarrow> Some t | Some t' \<Rightarrow> next_loop n c off t')"

text \<open>\<open>None\<close> is the zero time; the argument is a time in seconds.\<close>

definition next_run :: "cron_expr \<Rightarrow> int \<Rightarrow> nat \<Rightarrow> nat option" where
  "next_run c off after = next_loop (366 * 24 * 60) c off (after div 60 + 1)"

end
