(* ===== verification/Cron_Scheduler.thy ===== *)
theory Cron_Scheduler
  imports Cron_Parser "HOL-Library.Multiset"
begin

text \<open>
  The cron scheduler (\<open>internal/cron/scheduler.go\<close>) and its job table (\<open>store.go\<close>).

  Jobs are objects behind pointers: \<open>sc_heap\<close> holds them, \<open>sc_table\<close> is the map from ids to pointers,
  and a running \<open>fireJob\<close> keeps its pointer when the job is removed from the map.  Each critical
  section of the code is one function; \<open>sched_step\<close> interleaves the tick loop, the goroutines that
  fire jobs, the callers of the scheduler and the writes to the job table, which the code makes
  after it has released its lock.  Times are seconds since the epoch; \<open>None\<close> is the zero time.  The
  clock, the time zones, the generated id and the outcome of a run are parameters.
\<close>

subsection \<open>Jobs\<close>

datatype job_status = JUnset | JActive | JPaused | JCompleted | JFailed

record job =
  j_id :: string
  j_name :: string
  j_schedule :: string
  j_timezone :: string
  j_style :: string
  j_session :: string
  j_command :: string
  j_status :: job_status
  j_last_run :: "int option"
  j_next_run :: "int option"
  j_run_count :: int
  j_failures :: int
  j_max_retries :: int
  j_backoff_base :: int
  j_backoff_max :: int
  j_created :: "int option"
  j_metadata :: "(string \<times> string) list"
  j_target :: string
  j_notify :: bool

datatype sched_error = NoSchedule | NoCommand | BadSchedule cron_error | UnknownZone string | JobExists string | JobNotFound

record clock_env =
  clk_now :: int
  clk_zone :: "string \<Rightarrow> int option"
  clk_default :: int

subsection \<open>Next run and backoff\<close>

definition load_location :: "clock_env \<Rightarrow> string \<Rightarrow> int option" where
  "load_location E name = (if name = [] then Some (clk_default E) else clk_zone E name)"

text \<open>The outer \<open>None\<close> means that parsing the schedule never returns.\<close>

definition next_run_time :: "clock_env \<Rightarrow> job \<Rightarrow> (sched_error + int option) option" where
  "next_run_time E j =
    (case parse_cron (j_schedule j) of
       None \<Rightarrow> None
     | Some (Inl e) \<Rightarrow> Some (Inl (BadSchedule e))
     | Some (Inr c) \<Rightarrow>
         (case load_location E (j_timezone j) of
            None \<Rightarrow> Some (Inl (UnknownZone (j_timezone j)))
          | Some off \<Rightarrow>
              Some (Inr (map_option (\<lambda>r. int r * 60 - off * 60) (next_run c off (nat (clk_now E + off * 60)))))))"

text \<open>The loop of \<open>retryBackoff\<close> with \<open>n\<close> rounds left; delays are seconds.\<close>

fun backoff_loop :: "nat \<Rightarrow> int \<Rightarrow> int \<Rightarrow> int" where
  "backoff_loop 0 cap delay = delay"
| "backoff_loop (Suc n) cap delay =
     (let delay = wrap64 (delay * 2) in if cap < delay then cap else backoff_loop n cap delay)"

definition retry_backoff :: "job \<Rightarrow> int" where
  "retry_backoff j =
    (let base = (if j_backoff_base j \<le> 0 then 60 else j_backoff_base j);
         cap = (if j_backoff_max j \<le> 0 then 300 else j_backoff_max j)
     in backoff_loop (nat (j_failures j - 1)) cap base)"

subsection \<open>The job table\<close>

record job_row =
  row_id :: string
  row_name :: string
  row_schedule :: string
  row_timezone :: string
  row_command :: string
  row_style :: string
  row_session :: string
  row_status :: job_status
  row_last_run :: "int option"
  row_next_run :: "int option"
  row_run_count :: int
  row_failures :: int
  row_max_retries :: int
  row_metadata :: "(string \<times> string) list"
  row_created :: "int option"

definition row_of :: "job \<Rightarrow> job_row" where
  "row_of j = \<lparr>row_id = j_id j, row_name = j_name j, row_schedule = j_schedule j, row_timezone = j_timezone j,
     row_command = j_command j, row_style = j_style j, row_session = j_session j, row_status = j_status j,
     row_last_run = j_last_run j, row_next_run = j_next_run j, row_run_count = j_run_count j,
     row_failures = j_failures j, row_max_retries = j_max_retries j, row_metadata = j_metadata j,
     row_created = j_created j\<rparr>"

text \<open>\<open>INSERT ... ON CONFLICT (id) DO UPDATE\<close> replaces every column but \<open>created_at\<close>.\<close>

fun save_job :: "job \<Rightarrow> job_row list \<Rightarrow> job_row list" where
  "save_job j [] = [row_of j]"
| "save_job j (r # rs) = (if row_id r = j_id j then (row_of j)\<lparr>row_created := row_created r\<rparr> # rs else r # save_job j rs)"

definition delete_job :: "string \<Rightarrow> job_row list \<Rightarrow> job_row list" where
  "delete_job i rs = filter (\<lambda>r. row_id r \<noteq> i) rs"

definition job_of :: "job_row \<Rightarrow> job" where
  "job_of r = \<lparr>j_id = row_id r, j_name = row_name r, j_schedule = row_schedule r, j_timezone = row_timezone r,
     j_style = row_style r, j_session = row_session r, j_command = row_command r, j_status = row_status r,
     j_last_run = row_last_run r, j_next_run = row_next_run r, j_run_count = row_run_count r,
     j_failures = row_failures r, j_max_retries = row_max_retries r, j_backoff_base = 0, j_backoff_max = 0,
     j_created = row_created r, j_metadata = row_metadata r, j_target = [], j_notify = False\<rparr>"

definition created_key :: "job_row \<Rightarrow> int" where
  "created_key r = (case row_created r of None \<Rightarrow> - 62135596800 | Some t \<Rightarrow> t)"

definition load_jobs :: "job_row list \<Rightarrow> job list" where
  "load_jobs rs = map job_of (sort_key created_key rs)"

subsection \<open>The scheduler\<close>

datatype phase = Begun | Firing bool | Saving | Ending

datatype store_op = SaveOp nat | DeleteOp string

record sched =
  sc_heap :: "nat \<Rightarrow> job"
  sc_fresh :: nat
  sc_table :: "(string \<times> nat) list"
  sc_inflight :: "string list"
  sc_runs :: "(nat \<times> phase) list"
  sc_snaps :: "(nat \<times> int option) list"
  sc_pending :: "store_op list"
  sc_rows :: "job_row list"

definition upd_job :: "nat \<Rightarrow> (job \<Rightarrow> job) \<Rightarrow> sched \<Rightarrow> sched" where
  "upd_job p f s = s\<lparr>sc_heap := (sc_heap s)(p := f (sc_heap s p))\<rparr>"

text \<open>\<open>NewScheduler\<close> with a store: every stored job behind a fresh pointer.\<close>

definition start_sched :: "job_row list \<Rightarrow> sched" where
  "start_sched rs = (let js = load_jobs rs in
     \<lparr>sc_heap = (\<lambda>p. if p < length js then js ! p else undefined), sc_fresh = length js,
      sc_table = rev (zip (map j_id js) [0..<length js]), sc_inflight = [], sc_runs = [], sc_snaps = [], sc_pending = [], sc_rows = rs\<rparr>)"

definition new_job :: "clock_env \<Rightarrow> string \<Rightarrow> job \<Rightarrow> job" where
  "new_job E uuid j = j\<lparr>j_id := (if j_id j = [] then uuid else j_id j),
     j_status := (if j_status j = JUnset then JActive else j_status j),
     j_created := (case j_created j of None \<Rightarrow> Some (clk_now E) | t \<Rightarrow> t)\<rparr>"

definition add_job :: "clock_env \<Rightarrow> string \<Rightarrow> job \<Rightarrow> sched \<Rightarrow> (sched_error + sched) option" where
  "add_job E uuid j s =
    (if j_schedule j = [] then Some (Inl NoSchedule)
     else if j_command j = [] then Some (Inl NoCommand)
     else case next_run_time E (new_job E uuid j) of
       None \<Rightarrow> None
     | Some (Inl e) \<Rightarrow> Some (Inl e)
     | Some (Inr t) \<Rightarrow>
         (let j = (new_job E uuid j)\<lparr>j_next_run := t\<rparr>
          in if map_of (sc_table s) (j_id j) \<noteq> None then Some (Inl (JobExists (j_id j)))
             else Some (Inr (s\<lparr>sc_heap := (sc_heap s)(sc_fresh s := j), sc_fresh := sc_fresh s + 1,
                              sc_table := (j_id j, sc_fresh s) # sc_table s,
                              sc_pending := SaveOp (sc_fresh s) # sc_pending s\<rparr>))))"

definition remove_job :: "string \<Rightarrow> sched \<Rightarrow> sched_error + sched" where
  "remove_job i s =
    (if map_of (sc_table s) i = None then Inl JobNotFound
     else Inr (s\<lparr>sc_table := filter (\<lambda>(k, p). k \<noteq> i) (sc_table s), sc_pending := DeleteOp i # sc_pending s\<rparr>))"

definition pause_job :: "string \<Rightarrow> sched \<Rightarrow> sched_error + sched" where
  "pause_job i s =
    (case map_of (sc_table s) i of
       None \<Rightarrow> Inl JobNotFound
     | Some p \<Rightarrow> Inr ((upd_job p (\<lambda>j. j\<lparr>j_status := JPaused\<rparr>) s)\<lparr>sc_pending := SaveOp p # sc_pending s\<rparr>))"

text \<open>\<open>ResumeJob\<close> has already made the job active when the next run cannot be computed.\<close>

definition resume_job :: "clock_env \<Rightarrow> string \<Rightarrow> sched \<Rightarrow> ((sched_error + unit) \<times> sched) option" where
  "resume_job E i s =
    (case map_of (sc_table s) i of
       None \<Rightarrow> Some (Inl JobNotFound, s)
     | Some p \<Rightarrow>
         (let s1 = upd_job p (\<lambda>j. j\<lparr>j_status := JActive\<rparr>) s
          in case next_run_time E (sc_heap s1 p) of
               None \<Rightarrow> None
             | Some (Inl e) \<Rightarrow> Some (Inl e, s1)
             | Some (Inr t) \<Rightarrow>
                 Some (Inr (), (upd_job p (\<lambda>j. j\<lparr>j_next_run := t\<rparr>) s1)\<lparr>sc_pending := SaveOp p # sc_pending s\<rparr>)))"

subsection \<open>Ticks\<close>

definition snapshot :: "sched \<Rightarrow> (nat \<times> int option) list" where
  "snapshot s = map (\<lambda>(k, p). (p, j_next_run (sc_heap s p)))
     (filter (\<lambda>(k, p). j_status (sc_heap s p) = JActive) (sc_table s))"

definition tick_entry :: "int \<Rightarrow> nat \<times> int option \<Rightarrow> sched \<Rightarrow> sched" where
  "tick_entry now e s =
    (case e of (p, t) \<Rightarrow>
       (case t of
          None \<Rightarrow> s
        | Some due \<Rightarrow>
            if j_id (sc_heap s p) \<in> set (sc_inflight s) \<or> now < due then s
            else s\<lparr>sc_inflight := j_id (sc_heap s p) # sc_inflight s, sc_runs := (p, Begun) # sc_runs s\<rparr>))"

text \<open>A tick that nothing interrupts.\<close>

definition tick_jobs :: "int \<Rightarrow> sched \<Rightarrow> sched" where
  "tick_jobs now s = fold (tick_entry now) (snapshot s) s"

subsection \<open>Firing\<close>

definition fire_begin :: "clock_env \<Rightarrow> nat \<Rightarrow> sched \<Rightarrow> sched" where
  "fire_begin E p s = upd_job p (\<lambda>j. j\<lparr>j_run_count := wrap64 (j_run_count j + 1), j_last_run := Some (clk_now E)\<rparr>) s"

definition record_failure :: "clock_env \<Rightarrow> job \<Rightarrow> job" where
  "record_failure E j =
    (let j = j\<lparr>j_failures := wrap64 (j_failures j + 1)\<rparr>
     in if j_max_retries j < j_failures j then j\<lparr>j_status := JFailed\<rparr>
        else j\<lparr>j_next_run := Some (clk_now E + retry_backoff j)\<rparr>)"

definition record_success :: "clock_env \<Rightarrow> job \<Rightarrow> job option" where
  "record_success E j =
    (case next_run_time E j of
       None \<Rightarrow> None
     | Some (Inl e) \<Rightarrow> Some (j\<lparr>j_status := JFailed\<rparr>)
     | Some (Inr t) \<Rightarrow> Some (j\<lparr>j_next_run := t\<rparr>))"

definition fire_settle :: "clock_env \<Rightarrow> bool \<Rightarrow> nat \<Rightarrow> sched \<Rightarrow> sched option" where
  "fire_settle E ok p s =
    (if ok then map_option (\<lambda>j. upd_job p (\<lambda>_. j) s) (record_success E (sc_heap s p))
     else Some (upd_job p (record_failure E) s))"

definition perform :: "store_op \<Rightarrow> sched \<Rightarrow> sched" where
  "perform op s = s\<lparr>sc_rows := (case op of SaveOp p \<Rightarrow> save_job (sc_heap s p) (sc_rows s) | DeleteOp i \<Rightarrow> delete_job i (sc_rows s))\<rparr>"

definition set_run :: "nat \<times> phase \<Rightarrow> phase \<Rightarrow> sched \<Rightarrow> sched" where
  "set_run r ph s = s\<lparr>sc_runs := (fst r, ph) # remove1 r (sc_runs s)\<rparr>"

definition end_run :: "nat \<times> phase \<Rightarrow> sched \<Rightarrow> sched" where
  "end_run r s = s\<lparr>sc_runs := remove1 r (sc_runs s), sc_inflight := removeAll (j_id (sc_heap s (fst r))) (sc_inflight s)\<rparr>"

subsection \<open>Interleaving\<close>

inductive sched_step :: "sched \<Rightarrow> sched \<Rightarrow> bool" where
  add: "add_job E uuid j s = Some (Inr s') \<Longrightarrow> sched_step s s'"
| remove: "remove_job i s = Inr s' \<Longrightarrow> sched_step s s'"
| pause: "pause_job i s = Inr s' \<Longrightarrow> sched_step s s'"
| resume: "resume_job E i s = Some (r, s') \<Longrightarrow> sched_step s s'"
| tick_start: "sc_snaps s = [] \<Longrightarrow> mset ss = mset (snapshot s) \<Longrightarrow> sched_step s (s\<lparr>sc_snaps := ss\<rparr>)"
| tick_next: "sc_snaps s = e # ss \<Longrightarrow> sched_step s ((tick_entry now e s)\<lparr>sc_snaps := ss\<rparr>)"
| fire: "(p, Begun) \<in> set (sc_runs s) \<Longrightarrow> sched_step s (set_run (p, Begun) (Firing ok) (fire_begin E p s))"
| settle: "(p, Firing ok) \<in> set (sc_runs s) \<Longrightarrow> fire_settle E ok p s = Some s' \<Longrightarrow>
     sched_step s (set_run (p, Firing ok) Saving s')"
| save: "(p, Saving) \<in> set (sc_runs s) \<Longrightarrow> sched_step s (set_run (p, Saving) Ending (perform (SaveOp p) s))"
| save_lost: "(p, Saving) \<in> set (sc_runs s) \<Longrightarrow> sched_step s (set_run (p, Saving) Ending s)"
| finish: "(p, Ending) \<in> set (sc_runs s) \<Longrightarrow> sched_step s (end_run (p, Ending) s)"
| op_done: "op \<in> set (sc_pending s) \<Longrightarrow> sched_step s (perform op (s\<lparr>sc_pending := remove1 op (sc_pending s)\<rparr>))"
| op_lost: "op \<in> set (sc_pending s) \<Longrightarrow> sched_step s (s\<lparr>sc_pending := remove1 op (sc_pending s)\<rparr>)"

inductive sched_reachable :: "sched \<Rightarrow> bool" where
  start: "distinct (map row_id rs) \<Longrightarrow> sched_reachable (start_sched rs)"
| step: "sched_reachable s \<Longrightarrow> sched_step s s' \<Longrightarrow> sched_reachable s'"

end
