(* ===== verification/Cron_Parser_Props.thy ===== *)
theory Cron_Parser_Props
  imports Cron_Parser
begin

text \<open>
  What the cron parser accepts, when it returns, and that \<open>Next\<close> finds the next matching minute.
\<close>

subsection \<open>Values of a field\<close>

definition values_ok :: "int \<Rightarrow> int \<Rightarrow> field \<Rightarrow> bool" where
  "values_ok lo hi f \<longleftrightarrow> distinct f \<and> list_all (\<lambda>v. lo \<le> v \<and> v \<le> hi) f"

lemma set_add_values [simp]: "set (add_values vs f) = set vs \<union> set f"
  unfolding add_values_def by (induction vs arbitrary: f) auto

lemma distinct_add_values [simp]: "distinct f \<Longrightarrow> distinct (add_values vs f)"
  unfolding add_values_def by (induction vs arbitrary: f) auto

lemma values_ok_add: "values_ok lo hi f \<Longrightarrow> (\<And>v. v \<in> set vs \<Longrightarrow> lo \<le> v \<and> v \<le> hi) \<Longrightarrow> values_ok lo hi (add_values vs f)"
  by (auto simp: values_ok_def list_all_iff)

lemma values_ok_insert: "values_ok lo hi f \<Longrightarrow> lo \<le> v \<Longrightarrow> v \<le> hi \<Longrightarrow> values_ok lo hi (List.insert v f)"
  by (auto simp: values_ok_def list_all_iff)

lemma values_ok_step_loop:
  "step_loop lo hi step stop i f = Some f' \<Longrightarrow> values_ok lo hi f \<longrightarrow> values_ok lo hi f'"
  by (erule step_loop.raw_induct [where P = "\<lambda>lo hi step stop i f f'. values_ok lo hi f \<longrightarrow> values_ok lo hi f'", rotated])
    (simp split: if_splits, metis values_ok_insert)

lemma values_ok_parse_part:
  assumes "parse_field_part s lo hi f = Some (Inr f')" and "values_ok lo hi f"
  shows "values_ok lo hi f'"
  using assms
  by (auto simp: parse_field_part_def parse_step_def parse_range_def values_ok_step_loop
      split: if_splits option.splits prod.splits sum.splits intro!: values_ok_insert values_ok_add)

lemma values_ok_parse_parts:
  "parse_parts ps lo hi f = Some (Inr f') \<Longrightarrow> values_ok lo hi f \<Longrightarrow> values_ok lo hi f'"
proof (induction ps arbitrary: f)
  case (Cons p ps)
  then show ?case
    using values_ok_parse_part by (fastforce split: option.splits sum.splits)
qed simp

lemma parse_field_ok:
  "parse_field s lo hi = Some (Inr f) \<Longrightarrow> f \<noteq> [] \<and> values_ok lo hi f"
  using values_ok_parse_parts [of _ lo hi "[]"]
  by (fastforce simp: parse_field_def values_ok_def split: option.splits sum.splits if_splits)

lemma parse_all_ok:
  "parse_all i ps = Some (Inr fs) \<Longrightarrow> list_all2 (\<lambda>(p, lo, hi) f. f \<noteq> [] \<and> values_ok lo hi f) ps fs"
proof (induction i ps arbitrary: fs rule: parse_all.induct)
  case (2 i p lo hi ps)
  then show ?case
    using parse_field_ok [of p lo hi] by (auto simp: map_sum_Inr_iff split: option.splits sum.splits)
qed simp

definition cron_ok :: "cron_expr \<Rightarrow> bool" where
  "cron_ok c \<longleftrightarrow> minute_f c \<noteq> [] \<and> values_ok 0 59 (minute_f c) \<and> hour_f c \<noteq> [] \<and> values_ok 0 23 (hour_f c) \<and>
     day_f c \<noteq> [] \<and> values_ok 1 31 (day_f c) \<and> month_f c \<noteq> [] \<and> values_ok 1 12 (month_f c) \<and>
     weekday_f c \<noteq> [] \<and> values_ok 0 6 (weekday_f c)"

text \<open>
  C13. What the parser accepts is a schedule that can match: each of the five fields holds at least
  one value and only values of its range.
\<close>

theorem parse_cron_in_range:
  assumes "parse_cron expr = Some (Inr c)"
  shows "cron_ok c"
proof -
  let ?parts = "Go_Text.fields expr"
  from assms obtain fs where len: "length ?parts = 5" and all: "parse_all 0 (zip ?parts field_ranges) = Some (Inr fs)"
    and c: "c = \<lparr>minute_f = fs ! 0, hour_f = fs ! 1, day_f = fs ! 2, month_f = fs ! 3, weekday_f = fs ! 4\<rparr>"
    by (auto simp: parse_cron_def Let_def split: if_splits option.splits sum.splits)
  from len obtain a b d e f where "?parts = [a, b, d, e, f]"
    by (auto simp: length_Suc_conv numeral_eq_Suc)
  with parse_all_ok [OF all] show ?thesis
    by (auto simp: c cron_ok_def field_ranges_def list_all2_Cons1)
qed

lemma sample_run:
  "parse_cron ''*/15 3 1 5-6 6,0'' =
     Some (Inr \<lparr>minute_f = [45, 30, 15, 0], hour_f = [3], day_f = [1], month_f = [6, 5], weekday_f = [0, 6]\<rparr>)"
  by code_simp

theorem parse_cron_in_range_witness:
  "cron_ok \<lparr>minute_f = [45, 30, 15, 0], hour_f = [3], day_f = [1], month_f = [6, 5], weekday_f = [0, 6]\<rparr>"
  by (rule parse_cron_in_range [of "''*/15 3 1 5-6 6,0''"]) (simp add: sample_run)

subsection \<open>Steps\<close>

lemma wrap64_range: "- (2 ^ 63) \<le> wrap64 x \<and> wrap64 x < 2 ^ 63"
  unfolding wrap64_def using pos_mod_bound [of "2 ^ 64" "x + 2 ^ 63"] pos_mod_sign [of "2 ^ 64" "x + 2 ^ 63"] by simp

lemma step_loop_values:
  assumes "0 < step" and "stop + step \<le> max_int" and "min_int \<le> i"
  shows "\<exists>f'. step_loop lo hi step stop i f = Some f' \<and>
     set f' = set f \<union> {v. lo \<le> v \<and> v \<le> hi \<and> i \<le> v \<and> v \<le> stop \<and> step dvd v - i}"
  using assms
proof (induction "nat (stop + 1 - i)" arbitrary: i f rule: less_induct)
  case less
  show ?case
  proof (cases "stop < i")
    case False
    let ?f = "if lo \<le> i \<and> i \<le> hi then List.insert i f else f"
    have w: "wrap64 (i + step) = i + step"
      using less.prems False by (intro wrap64_id) (auto simp: max_int_def min_int_def)
    have "nat (stop + 1 - (i + step)) < nat (stop + 1 - i)" "min_int \<le> i + step"
      using less.prems False by auto
    from less.hyps [OF this(1) assms(1,2) this(2)] obtain f' where
      run: "step_loop lo hi step stop (i + step) ?f = Some f'" and
      vals: "set f' = set ?f \<union> {v. lo \<le> v \<and> v \<le> hi \<and> i + step \<le> v \<and> v \<le> stop \<and> step dvd v - (i + step)}"
      by blast
    have dvd: "step dvd v - (i + step) \<longleftrightarrow> step dvd v - i" for v
    proof -
      have "v - i = (v - (i + step)) + step"
        by simp
      then show ?thesis
        by (metis dvd_add_left_iff dvd_refl)
    qed
    have far: "v = i \<or> i + step \<le> v" if "i \<le> v" "step dvd v - i" for v
      using zdvd_imp_le [OF that(2)] that(1) by linarith
    have "v \<in> set f' \<longleftrightarrow> v \<in> set f \<union> {v. lo \<le> v \<and> v \<le> hi \<and> i \<le> v \<and> v \<le> stop \<and> step dvd v - i}" for v
    proof (cases "v = i")
      case True
      with False show ?thesis by (auto simp: vals)
    next
      case neq: False
      with far [of v] assms(1) show ?thesis by (auto simp: vals dvd)
    qed
    then have "set f' = set f \<union> {v. lo \<le> v \<and> v \<le> hi \<and> i \<le> v \<and> v \<le> stop \<and> step dvd v - i}"
      by blast
    moreover have "step_loop lo hi step stop i f = Some f'"
      using run False by (subst step_loop.simps) (simp add: w)
    ultimately show ?thesis by blast
  next
    case True
    then show ?thesis by (subst step_loop.simps) auto
  qed
qed

text \<open>
  A step expression denotes the values it should: when its end plus its step is a machine
  integer, the loop ends and adds exactly the values of the field's range that lie between start
  and end at a multiple of the step from the start.
\<close>

theorem parse_step_values:
  assumes "split_first (CHR ''/'') s = (base, Some st)" and "atoi st = Some step" and "0 < step"
    and "step_bounds base lo hi = Inr (a, b)" and "b + step \<le> max_int" and "min_int \<le> a"
  shows "\<exists>f'. parse_step s lo hi f = Some (Inr f') \<and>
     set f' = set f \<union> {v. lo \<le> v \<and> v \<le> hi \<and> a \<le> v \<and> v \<le> b \<and> step dvd v - a}"
  using step_loop_values [OF assms(3,5,6), of lo hi f] assms by (auto simp: parse_step_def)

theorem parse_step_values_witness:
  "\<exists>f'. parse_step ''5-40/15'' 0 59 [] = Some (Inr f') \<and> set f' = {5, 20, 35}"
proof -
  have "split_first (CHR ''/'') ''5-40/15'' = (''5-40'', Some ''15'')" "atoi ''15'' = Some 15" "(0::int) < 15"
    "step_bounds ''5-40'' 0 59 = Inr (5, 40)" "40 + 15 \<le> max_int" "min_int \<le> 5"
    by code_simp+
  from parse_step_values [OF this, of "[]"] obtain f' where
    "parse_step ''5-40/15'' 0 59 [] = Some (Inr f')" and f': "set f' = {v. 0 \<le> v \<and> v \<le> 59 \<and> 5 \<le> v \<and> v \<le> 40 \<and> 15 dvd v - 5}"
    by auto
  moreover have "{v::int. 0 \<le> v \<and> v \<le> 59 \<and> 5 \<le> v \<and> v \<le> 40 \<and> 15 dvd v - 5} = {5, 20, 35}"
    by (auto simp: dvd_def) presburger
  ultimately show ?thesis by auto
qed

subsection \<open>The parser returns\<close>

lemma foldl_digits_bound:
  "list_all is_digit ds \<Longrightarrow> 0 \<le> v \<Longrightarrow> v < 10 ^ n \<Longrightarrow>
     0 \<le> foldl (\<lambda>v c. 10 * v + (int (byte c) - 48)) v ds \<and> foldl (\<lambda>v c. 10 * v + (int (byte c) - 48)) v ds < 10 ^ (n + length ds)"
proof (induction ds arbitrary: v n)
  case (Cons c ds)
  let ?v = "10 * v + (int (byte c) - 48)"
  have "0 \<le> ?v" "?v < 10 ^ Suc n"
    using Cons.prems by (auto simp: is_digit_def)
  with Cons.IH [of ?v "Suc n"] Cons.prems(1) show ?case
    by simp
qed simp

lemma atoi_Some:
  "atoi s = Some v \<Longrightarrow> \<exists>ds. (ds = s \<or> ds = tl s) \<and> list_all is_digit ds \<and> (v = digits_value ds \<or> v = - digits_value ds)"
  by (cases s) (auto simp: atoi_def Let_def split: if_splits)

lemma atoi_short:
  assumes "atoi s = Some v" and "length s \<le> 18"
  shows "\<bar>v\<bar> < 10 ^ 18"
proof -
  from atoi_Some [OF assms(1)] obtain ds where
    ds: "list_all is_digit ds" "ds = s \<or> ds = tl s" "v = digits_value ds \<or> v = - digits_value ds"
    by blast
  then have len: "length ds \<le> 18"
    using assms(2) by auto
  have "0 \<le> digits_value ds \<and> digits_value ds < 10 ^ length ds"
    using foldl_digits_bound [OF ds(1), of 0 0] by (simp add: digits_value_def)
  moreover have "(10::int) ^ length ds \<le> 10 ^ 18"
    using len by (intro power_increasing) auto
  ultimately show ?thesis
    using ds(3) by auto
qed

lemma split_first_short:
  "split_first d s = (a, Some b) \<Longrightarrow> length a \<le> length s \<and> length b \<le> length s"
  using length_takeWhile_le [of "\<lambda>c. c \<noteq> d" s] length_dropWhile_le [of "\<lambda>c. c \<noteq> d" s]
  by (auto simp: split_first_def split: list.splits)

lemma step_bounds_short:
  assumes "step_bounds base lo hi = Inr (a, b)" and "length base \<le> 18" and "\<bar>lo\<bar> < 10 ^ 18" "\<bar>hi\<bar> < 10 ^ 18"
  shows "\<bar>a\<bar> < 10 ^ 18 \<and> \<bar>b\<bar> < 10 ^ 18"
proof (cases "base = ''*''")
  case False
  obtain x r where s: "split_first (CHR ''-'') base = (x, r)"
    by force
  show ?thesis
  proof (cases r)
    case None
    with False s assms show ?thesis
      using atoi_short [of base a] by (auto simp: step_bounds_def split: option.splits)
  next
    case (Some y)
    with split_first_short [of "CHR ''-''" base x y] s assms(2) have "length x \<le> 18" "length y \<le> 18"
      by auto
    with False s Some assms(1) show ?thesis
      using atoi_short [of x a] atoi_short [of y b] by (auto simp: step_bounds_def split: option.splits)
  qed
qed (use assms in \<open>simp add: step_bounds_def\<close>)

lemma parse_part_returns:
  assumes "length s \<le> 18" and "\<bar>lo\<bar> < 10 ^ 18" "\<bar>hi\<bar> < 10 ^ 18"
  shows "parse_field_part s lo hi f \<noteq> None"
proof (cases "\<exists>base st step a b. split_first (CHR ''/'') s = (base, Some st) \<and> atoi st = Some step \<and> 0 < step \<and>
    step_bounds base lo hi = Inr (a, b)")
  case True
  then obtain base st step a b where p: "split_first (CHR ''/'') s = (base, Some st)" "atoi st = Some step" "0 < step"
    "step_bounds base lo hi = Inr (a, b)"
    by blast
  note short = split_first_short [OF p(1)]
  have "\<bar>step\<bar> < 10 ^ 18" "\<bar>a\<bar> < 10 ^ 18 \<and> \<bar>b\<bar> < 10 ^ 18"
    using atoi_short [OF p(2)] step_bounds_short [OF p(4)] short assms by auto
  then have "b + step \<le> max_int" "min_int \<le> a"
    by (auto simp: max_int_def min_int_def)
  from step_loop_values [OF p(3) this, of lo hi f] p show ?thesis
    by (auto simp: parse_field_part_def parse_step_def split: option.splits)
next
  case False
  then show ?thesis
    by (auto simp: parse_field_part_def parse_step_def split: option.splits prod.splits sum.splits)
qed

lemma parse_parts_returns:
  assumes "list_all (\<lambda>p. length p \<le> 18) ps" and "\<bar>lo\<bar> < 10 ^ 18" "\<bar>hi\<bar> < 10 ^ 18"
  shows "parse_parts ps lo hi f \<noteq> None"
  using assms(1)
proof (induction ps arbitrary: f)
  case (Cons p ps)
  with parse_part_returns [OF _ assms(2,3), of p f] show ?case
    by (auto split: option.splits sum.splits)
qed simp

definition short_entries :: "string \<Rightarrow> bool" where
  "short_entries expr \<longleftrightarrow> list_all (\<lambda>w. list_all (\<lambda>p. length p \<le> 18) (split_on (CHR '','') w)) (Go_Text.fields expr)"

lemma parse_all_returns:
  assumes "list_all (\<lambda>(p, lo, hi). list_all (\<lambda>q. length q \<le> 18) (split_on (CHR '','') p) \<and> \<bar>lo\<bar> < 10 ^ 18 \<and> \<bar>hi\<bar> < 10 ^ 18) ps"
  shows "parse_all i ps \<noteq> None"
  using assms
proof (induction i ps rule: parse_all.induct)
  case (2 i p lo hi ps)
  with parse_parts_returns [of "split_on (CHR '','') p" lo hi "[]"] show ?case
    by (auto simp: parse_field_def split: option.splits sum.splits)
qed simp

text \<open>
  Parsing ends: an expression whose comma-separated entries have at most 18 characters each is
  either accepted or refused with an error.
\<close>

theorem parse_cron_returns:
  assumes "short_entries expr"
  shows "parse_cron expr \<noteq> None"
proof (cases "length (Go_Text.fields expr) = 5")
  case True
  then obtain a b d e f where "Go_Text.fields expr = [a, b, d, e, f]"
    by (auto simp: length_Suc_conv numeral_eq_Suc)
  with assms have "parse_all 0 (zip (Go_Text.fields expr) field_ranges) \<noteq> None"
    by (intro parse_all_returns) (simp add: short_entries_def field_ranges_def)
  with True show ?thesis
    by (auto simp: parse_cron_def Let_def split: option.splits sum.splits)
qed (simp add: parse_cron_def Let_def)

theorem parse_cron_returns_witness:
  "parse_cron ''0-99999999999999/7 */15 1,15 * *'' \<noteq> None"
  by (rule parse_cron_returns) code_simp

text \<open>
  Without that bound it need not: the loop counter wraps around at the largest machine integer and
  never passes an end that is the largest machine integer.
\<close>

lemma wrap64_le_max: "wrap64 x \<le> max_int"
  using wrap64_range [of x] by (simp add: max_int_def)

lemma step_loop_stuck: "step_loop lo hi step stop i f = Some f' \<Longrightarrow> stop = max_int \<longrightarrow> i \<le> max_int \<longrightarrow> False"
  by (erule step_loop.raw_induct [where P = "\<lambda>lo hi step stop i f f'. stop = max_int \<longrightarrow> i \<le> max_int \<longrightarrow> False", rotated])
    (simp split: if_splits; metis wrap64_le_max)

lemma parse_cron_never_returns: "parse_cron ''0-9223372036854775807/1 * * * *'' = None"
proof -
  have "Go_Text.fields ''0-9223372036854775807/1 * * * *'' = [''0-9223372036854775807/1'', ''*'', ''*'', ''*'', ''*'']"
    "split_on (CHR '','') ''0-9223372036854775807/1'' = [''0-9223372036854775807/1'']"
    "split_first (CHR ''/'') ''0-9223372036854775807/1'' = (''0-9223372036854775807'', Some ''1'')"
    "atoi ''1'' = Some 1" "step_bounds ''0-9223372036854775807'' 0 59 = Inr (0, max_int)"
    by code_simp+
  moreover have "step_loop 0 59 1 max_int 0 [] = None"
    using step_loop_stuck [of 0 59 1 max_int 0 "[]"] by (cases "step_loop 0 59 1 max_int 0 []") (auto simp: max_int_def)
  ultimately show ?thesis
    by (simp add: parse_cron_def field_ranges_def parse_field_def parse_field_part_def parse_step_def Let_def)
qed

end
