(* ===== verification/Cron_Next_Props.thy ===== *)
theory Cron_Next_Props
  imports Cron_Parser_Props
begin

text \<open>
  \<open>Next\<close>: every answer is a matching minute after the given time; when days are unrestricted and the
  location's offset is whole hours it is the first one and the search always finds it.  Two lemmas
  at the end show what goes wrong otherwise.
\<close>

subsection \<open>The calendar\<close>

lemma month_start_mono: "i \<le> j \<Longrightarrow> month_start i \<le> month_start j"
  by (induction j) (auto simp: le_Suc_eq)

lemma find_month_spec:
  "find_month k d = (k', r) \<Longrightarrow> k \<le> k' \<and> r < month_days k' \<and> month_start k' + r = month_start k + d"
proof (induction k d arbitrary: k' r rule: find_month.induct)
  case (1 k d)
  then show ?case
    by (cases "d < month_days k") (auto simp: find_month.simps [of k d])
qed

lemma month_index_bounds: "month_start (month_index t) \<le> t div 1440" "t div 1440 < month_start (month_index t + 1)"
proof -
  obtain k r where f: "find_month 0 (t div 1440) = (k, r)"
    by force
  with find_month_spec [OF f]
  show "month_start (month_index t) \<le> t div 1440" "t div 1440 < month_start (month_index t + 1)"
    by (auto simp: month_index_def)
qed

lemma month_index_eq:
  assumes "month_start k \<le> t div 1440" and "t div 1440 < month_start (k + 1)"
  shows "month_index t = k"
proof (rule ccontr)
  assume "month_index t \<noteq> k"
  then have "month_index t + 1 \<le> k \<or> k + 1 \<le> month_index t"
    by linarith
  then show False
    using month_index_bounds [of t] assms month_start_mono [of "month_index t + 1" k] month_start_mono [of "k + 1" "month_index t"]
    by linarith
qed

lemma t_day_bounds: "1 \<le> t_day t" "t_day t \<le> 31"
proof -
  obtain k r where f: "find_month 0 (t div 1440) = (k, r)"
    by force
  with find_month_spec [OF f] month_days_bounds(2) [of k] show "1 \<le> t_day t" "t_day t \<le> 31"
    by (auto simp: t_day_def)
qed

lemma month_start_add: "month_start (k + j) \<le> month_start k + 31 * j"
proof (induction j)
  case (Suc j)
  with month_days_bounds(2) [of "k + j"] show ?case by simp
qed simp

lemma next_month_greater: "t < next_month t"
  using month_index_bounds(2) [of t] by (simp add: next_month_def div_less_iff_less_mult)

lemma same_month:
  assumes "t \<le> u" and "u < next_month t"
  shows "month_index u = month_index t"
proof (rule month_index_eq)
  show "month_start (month_index t) \<le> u div 1440"
    using month_index_bounds(1) [of t] div_le_mono [OF assms(1), of 1440] by (rule order_trans)
  show "u div 1440 < month_start (month_index t + 1)"
    using assms(2) by (simp add: next_month_def less_mult_imp_div_less del: month_start.simps)
qed

subsection \<open>Truncation\<close>

lemma trunc_hour_bounds: "int t - 60 < int (trunc_hour off t)" "0 \<le> (int t - off) div 60 * 60 + off \<Longrightarrow> trunc_hour off t \<le> t"
proof -
  define q where "q = (int t - off) div 60"
  have "60 * q \<le> int t - off" "int t - off < 60 * q + 60"
    by (auto simp: q_def)
  then show "int t - 60 < int (trunc_hour off t)" "0 \<le> (int t - off) div 60 * 60 + off \<Longrightarrow> trunc_hour off t \<le> t"
    by (auto simp: trunc_hour_def q_def [symmetric])
qed

lemma trunc_hour_whole:
  assumes "off mod 60 = 0"
  shows "trunc_hour off t = t div 60 * 60"
proof -
  obtain k where "off = k * 60"
    using assms by (auto simp: mod_eq_0_iff_dvd elim: dvdE)
  then have "(int t - off) div 60 * 60 + off = int (t div 60 * 60)"
    using div_mult_self1 [of 60 "int t" "- k"] by (simp add: zdiv_int)
  then show ?thesis
    by (simp add: trunc_hour_def)
qed

subsection \<open>Every answer matches\<close>

definition schedule_matches :: "cron_expr \<Rightarrow> nat \<Rightarrow> bool" where
  "schedule_matches c t \<longleftrightarrow> field_matches (month_f c) (t_month t) \<and> field_matches (day_f c) (t_day t) \<and>
     field_matches (weekday_f c) (t_weekday t) \<and> field_matches (hour_f c) (t_hour t) \<and> field_matches (minute_f c) (t_minute t)"

lemma next_step_None: "next_step c off t = None \<longleftrightarrow> schedule_matches c t"
  by (simp add: next_step_def schedule_matches_def)

lemma next_step_later: "next_step c off t = Some t' \<Longrightarrow> t < t'"
  using next_month_greater [of t] trunc_hour_bounds(1) [of "t + 1440" off] trunc_hour_bounds(1) [of "t + 60" off]
  by (auto simp: next_step_def split: if_splits)

lemma next_loop_matches: "next_loop n c off t = Some r \<Longrightarrow> t \<le> r \<and> schedule_matches c r"
proof (induction n arbitrary: t)
  case (Suc n)
  show ?case
  proof (cases "next_step c off t")
    case None
    with Suc.prems show ?thesis by (simp add: next_step_None)
  next
    case (Some t')
    with Suc.IH [of t'] Suc.prems next_step_later [OF Some] show ?thesis by simp
  qed
qed simp

lemma after_div: "after < 60 * u \<longleftrightarrow> after div 60 + 1 \<le> (u::nat)"
  by linarith

lemma next_loop_fuel: "next_loop n c off t = Some r \<Longrightarrow> n \<le> m \<Longrightarrow> next_loop m c off t = Some r"
proof (induction n arbitrary: m t)
  case (Suc n)
  then show ?case by (cases m) (auto split: option.splits)
qed simp

text \<open>
  Whatever \<open>Next\<close> answers, in any location, is a minute strictly after the given time that
  matches all five fields.
\<close>

theorem next_run_matches:
  assumes "next_run c off after = Some r"
  shows "after < 60 * r \<and> schedule_matches c r"
  using next_loop_matches [OF assms [unfolded next_run_def]] by (simp add: after_div)

theorem next_run_matches_witness:
  "(183540::nat) < 60 * 3060 \<and> schedule_matches \<lparr>minute_f = [0], hour_f = [3], day_f = [3], month_f = [1], weekday_f = [6]\<rparr> 3060"
proof (rule next_run_matches)
  let ?c = "\<lparr>minute_f = [0], hour_f = [3], day_f = [3], month_f = [1], weekday_f = [6]\<rparr>"
  have "next_loop (Suc 0) ?c 0 3060 = Some 3060"
    by (simp add: next_step_def field_matches_def t_month_def t_day_def t_weekday_def t_hour_def t_minute_def
        month_index_def find_month.simps [of 0] month_days_def)
  from next_loop_fuel [OF this, of "366 * 24 * 60"] show "next_run ?c 0 183540 = Some 3060"
    by (simp add: next_run_def del: next_loop.simps)
qed

subsection \<open>The first match is found\<close>

definition any_day :: "cron_expr \<Rightarrow> bool" where
  "any_day c \<longleftrightarrow> {1..31} \<subseteq> set (day_f c) \<and> {0..6} \<subseteq> set (weekday_f c)"

lemma any_day_matches: "any_day c \<Longrightarrow> field_matches (day_f c) (t_day t) \<and> field_matches (weekday_f c) (t_weekday t)"
  using t_day_bounds [of t] by (auto simp: any_day_def field_matches_def t_weekday_def)

lemma next_step_skips_none:
  assumes "any_day c" and "off mod 60 = 0" and "next_step c off t = Some t'" and "t \<le> u" and "u < t'"
  shows "\<not> schedule_matches c u"
proof (cases "field_matches (month_f c) (t_month t)")
  case False
  with assms(3-5) same_month [of t u] show ?thesis
    by (simp add: next_step_def schedule_matches_def t_month_def)
next
  case True
  note day = any_day_matches [OF assms(1), of t]
  show ?thesis
  proof (cases "field_matches (hour_f c) (t_hour t)")
    case False
    with True day assms have "u < (t + 60) div 60 * 60"
      by (simp add: next_step_def trunc_hour_whole)
    moreover have "(t + 60) div 60 = t div 60 + 1"
      by simp
    ultimately have "u div 60 < t div 60 + 1"
      unfolding div_less_iff_less_mult [of 60, simplified] by simp
    with div_le_mono [OF assms(4), of 60] have "u div 60 = t div 60"
      by linarith
    moreover have "t_hour x = x div 60 mod 24" for x
      using mod_mult2_eq [of x 60 24] by (simp add: t_hour_def)
    ultimately show ?thesis
      using False by (simp add: schedule_matches_def)
  next
    case hour: True
    with True day assms have "\<not> field_matches (minute_f c) (t_minute t)" "u = t"
      by (auto simp: next_step_def split: if_splits)
    then show ?thesis
      by (simp add: schedule_matches_def)
  qed
qed

lemma next_loop_first:
  assumes "any_day c" and "off mod 60 = 0" and "schedule_matches c u" and "t \<le> u" and "u < t + n"
  shows "\<exists>r. next_loop n c off t = Some r \<and> r \<le> u \<and> (\<forall>v. t \<le> v \<and> v < r \<longrightarrow> \<not> schedule_matches c v)"
  using assms(4,5)
proof (induction n arbitrary: t)
  case (Suc n)
  show ?case
  proof (cases "next_step c off t")
    case None
    then show ?thesis using Suc.prems by auto
  next
    case (Some t')
    note skip = next_step_skips_none [OF assms(1,2) Some]
    have "t' \<le> u" "u < t' + n"
      using skip [OF Suc.prems(1)] assms(3) next_step_later [OF Some] Suc.prems by (auto simp: not_less [symmetric])
    with Suc.IH [of t'] obtain r where r: "next_loop n c off t' = Some r" "r \<le> u"
      "\<forall>v. t' \<le> v \<and> v < r \<longrightarrow> \<not> schedule_matches c v"
      by blast
    then have "\<forall>v. t \<le> v \<and> v < r \<longrightarrow> \<not> schedule_matches c v"
      using skip by (meson not_less)
    with r Some show ?thesis by simp
  qed
qed simp

text \<open>A day offers every time of day, and every month comes back within twelve months.\<close>

definition at_time :: "nat \<Rightarrow> nat \<Rightarrow> nat \<Rightarrow> nat" where
  "at_time d h mi = d * 1440 + h * 60 + mi"

lemma at_time_fields:
  assumes "h < 24" and "mi < 60"
  shows "at_time d h mi div 1440 = d" "t_hour (at_time d h mi) = h" "t_minute (at_time d h mi) = mi"
proof -
  have low: "h * 60 + mi < 1440" "at_time d h mi = (h * 60 + mi) + d * 1440"
    using assms by (auto simp: at_time_def)
  have "at_time d h mi = mi + 60 * (h + d * 24)"
    by (simp add: at_time_def)
  then have "at_time d h mi mod 60 = mi"
    using assms by (simp del: distrib_left_numeral)
  with low show "at_time d h mi div 1440 = d" "t_hour (at_time d h mi) = h" "t_minute (at_time d h mi) = mi"
    using assms by (auto simp: t_hour_def t_minute_def)
qed

lemma month_comes_back:
  assumes "1 \<le> mu" and "mu \<le> (12::nat)"
  shows "\<exists>j. 1 \<le> j \<and> j \<le> 12 \<and> (k + j) mod 12 + 1 = mu"
proof -
  define r where "r = k mod 12"
  have r: "r < 12" and mod: "(k + j) mod 12 = (r + j) mod 12" for j
    by (simp_all add: r_def mod_add_left_eq)
  show ?thesis
  proof (cases "r + 1 < mu")
    case True
    with mod [of "mu - 1 - r"] assms r have "(k + (mu - 1 - r)) mod 12 = mu - 1"
      by simp
    with True assms show ?thesis
      by (intro exI [of _ "mu - 1 - r"]) auto
  next
    case False
    with assms r have "r + (mu + 11 - r) = (mu - 1) + 12"
      by linarith
    moreover have "(mu - 1 + 12) mod 12 = mu - 1"
      using assms by (simp only: mod_add_self2) simp
    ultimately have "(k + (mu + 11 - r)) mod 12 = mu - 1"
      using mod [of "mu + 11 - r"] by simp
    with False assms r show ?thesis
      by (intro exI [of _ "mu + 11 - r"]) auto
  qed
qed

lemma match_on_day:
  assumes "any_day c" and "field_matches (hour_f c) h" "h < 24" and "field_matches (minute_f c) mi" "mi < 60"
    and "month_start k \<le> d" and "d < month_start (k + 1)" and "field_matches (month_f c) (k mod 12 + 1)"
  shows "schedule_matches c (at_time d h mi)"
  using assms any_day_matches [OF assms(1)] month_index_eq [of k "at_time d h mi"]
  by (simp add: schedule_matches_def t_month_def at_time_fields)

lemma cron_ok_values:
  assumes "cron_ok c"
  obtains h mi mu where "field_matches (hour_f c) h" "h < 24" "field_matches (minute_f c) mi" "mi < 60"
    "field_matches (month_f c) mu" "1 \<le> mu" "mu \<le> 12"
proof -
  have val: "\<exists>n. field_matches f n \<and> lo \<le> int n \<and> int n \<le> hi" if "f \<noteq> []" "values_ok lo hi f" "0 \<le> lo" for f lo hi
    using that by (intro exI [of _ "nat (hd f)"]) (cases f, auto simp: values_ok_def field_matches_def)
  from val [of "hour_f c" 0 23] val [of "minute_f c" 0 59] val [of "month_f c" 1 12] assms that show ?thesis
    by (auto simp: cron_ok_def)
qed

lemma match_exists:
  assumes "cron_ok c" and "any_day c"
  shows "\<exists>u. t \<le> u \<and> u < t + 366 * 24 * 60 \<and> schedule_matches c u"
proof -
  from assms(1) obtain h mi mu where
    h: "field_matches (hour_f c) h" "h < 24" and mi: "field_matches (minute_f c) mi" "mi < 60" and
    mu: "field_matches (month_f c) mu" "1 \<le> mu" "mu \<le> 12"
    by (rule cron_ok_values)
  note match = match_on_day [OF assms(2) h mi]
  let ?k = "month_index t" and ?d = "t div 1440"
  have t: "?d * 1440 \<le> t" "t < ?d * 1440 + 1440"
    by auto
  show ?thesis
  proof (cases "field_matches (month_f c) (?k mod 12 + 1) \<and> ?d + 1 < month_start (?k + 1)")
    case True
    with match [of ?k "?d + 1"] month_index_bounds(1) [of t] have "schedule_matches c (at_time (?d + 1) h mi)"
      by simp
    with t h(2) mi(2) show ?thesis
      by (intro exI [of _ "at_time (?d + 1) h mi"]) (simp add: at_time_def)
  next
    case False
    from month_comes_back [OF mu(2,3), of ?k] obtain j where j: "1 \<le> j" "j \<le> 12" "(?k + j) mod 12 + 1 = mu"
      by blast
    have first: "?d + 1 \<le> month_start (?k + j)"
      using month_index_bounds(2) [of t] month_start_mono [of "?k + 1" "?k + j"] j(1) by linarith
    have "month_start (?k + j) \<le> ?d + 342"
    proof (cases "field_matches (month_f c) (?k mod 12 + 1)")
      case True
      with False have "month_start (?k + 1) \<le> ?d + 1" by simp
      with month_start_add [of "?k + 1" "j - 1"] j show ?thesis by simp
    next
      case other: False
      then have "j \<noteq> 12" using j(3) mu(1) by auto
      with month_start_add [of ?k j] j month_index_bounds(1) [of t] show ?thesis by simp
    qed
    moreover have "schedule_matches c (at_time (month_start (?k + j)) h mi)"
      using match [of "?k + j" "month_start (?k + j)"] j(3) mu(1) month_days_bounds(1) [of "?k + j"] by simp
    ultimately show ?thesis
      using t h(2) mi(2) first by (intro exI [of _ "at_time (month_start (?k + j)) h mi"]) (simp add: at_time_def)
  qed
qed

text \<open>
  C14. For schedules that restrict neither the day of the month nor the weekday, in a location whose
  offset is whole hours, \<open>Next\<close> always finds a run within its 366 * 24 * 60 steps, and it is the
  first matching minute after the given time.
\<close>

theorem next_run_first:
  assumes "cron_ok c" and "any_day c" and "off mod 60 = 0"
  shows "\<exists>r. next_run c off after = Some r \<and> after < 60 * r \<and> schedule_matches c r \<and>
     (\<forall>u. after < 60 * u \<and> u < r \<longrightarrow> \<not> schedule_matches c u)"
proof -
  let ?t = "after div 60 + 1"
  from match_exists [OF assms(1,2)] obtain u where "?t \<le> u" "u < ?t + 366 * 24 * 60" "schedule_matches c u"
    by blast
  from next_loop_first [OF assms(2,3) this(3,1,2)] obtain r where
    r: "next_run c off after = Some r" "\<forall>v. ?t \<le> v \<and> v < r \<longrightarrow> \<not> schedule_matches c v"
    unfolding next_run_def by blast
  from next_loop_matches [OF r(1) [unfolded next_run_def]] r show ?thesis
    unfolding after_div by blast
qed

theorem next_run_first_witness:
  "\<exists>r. next_run \<lparr>minute_f = [30], hour_f = [3], day_f = [1..31], month_f = [2], weekday_f = [0..6]\<rparr> 120 0 = Some r \<and>
     schedule_matches \<lparr>minute_f = [30], hour_f = [3], day_f = [1..31], month_f = [2], weekday_f = [0..6]\<rparr> r"
proof -
  let ?c = "\<lparr>minute_f = [30], hour_f = [3], day_f = [1..31], month_f = [2], weekday_f = [0..6]\<rparr>"
  have "cron_ok ?c" "any_day ?c"
    by (auto simp: cron_ok_def any_day_def values_ok_def list_all_iff)
  from next_run_first [OF this, of 120 0] show ?thesis
    by auto
qed

subsection \<open>Departures\<close>

text \<open>
  When the day does not match, the search goes on a day later at the same hour, not at midnight: after
  1970-01-01 22:05 the schedule \<open>0 3 2 1 *\<close> misses the run on January 2 at 03:00.
\<close>

lemma restricted_day_skips_run:
  assumes "next_run \<lparr>minute_f = [0], hour_f = [3], day_f = [2], month_f = [1], weekday_f = [0..6]\<rparr> 0 79500 = Some r"
  shows "schedule_matches \<lparr>minute_f = [0], hour_f = [3], day_f = [2], month_f = [1], weekday_f = [0..6]\<rparr> 1620 \<and>
     79500 < 60 * (1620::nat) \<and> 1620 < r"
proof -
  let ?c = "\<lparr>minute_f = [0], hour_f = [3], day_f = [2], month_f = [1], weekday_f = [0..6]\<rparr>"
  note fields = field_matches_def t_month_def t_day_def t_weekday_def t_hour_def t_minute_def
    month_index_def find_month.simps [of 0] month_days_def
  have "next_step ?c 0 1326 = Some 2760"
    by (simp add: next_step_def fields trunc_hour_def)
  then have "next_loop (366 * 24 * 60 - 1) ?c 0 2760 = Some r"
    using assms next_loop.simps(2) [of "366 * 24 * 60 - 1" ?c 0 1326] unfolding next_run_def by simp
  from next_loop_matches [OF this] have "2760 \<le> r" ..
  moreover have "schedule_matches ?c 1620"
    by (simp add: schedule_matches_def fields)
  ultimately show ?thesis
    by simp
qed

text \<open>
  Hours are truncated on the UTC clock.  Where the offset is a half hour, a daily schedule at 03:00
  is never found: the search steps from 02:30 to 03:30.
\<close>

definition daily_three :: cron_expr where
  "daily_three = \<lparr>minute_f = [0], hour_f = [3], day_f = [1..31], month_f = [1..12], weekday_f = [0..6]\<rparr>"

lemma minute_of_fourth_hour: "180 \<le> y \<Longrightarrow> y < 240 \<Longrightarrow> y mod 60 = y - (180::nat)"
  using mod_mult_self2 [of "y - 180" 60 3] by simp

lemma half_past_outside:
  assumes "(x::nat) mod 60 = 30"
  shows "x mod 1440 < 180 \<or> 209 < x mod 1440"
proof -
  have "x mod 1440 mod 60 = 30"
    using assms by (simp add: mod_mod_cancel)
  with minute_of_fourth_hour [of "x mod 1440"] show ?thesis
    by (cases "180 \<le> x mod 1440 \<and> x mod 1440 < 240") auto
qed

lemma half_hour_zone_never_fires:
  assumes "off mod 60 = 30" and "t mod 1440 < 180 \<or> 209 < t mod 1440"
  shows "next_loop n daily_three off t = None"
  using assms(2)
proof (induction n arbitrary: t)
  case (Suc n)
  have day: "any_day daily_three" and month: "field_matches (month_f daily_three) (t_month t)" for t
    by (auto simp: any_day_def daily_three_def field_matches_def t_month_def)
  obtain k where off: "off = k * 60 + 30"
    using assms(1) by (metis div_mult_mod_eq)
  have "(int t + 60 - off) div 60 * 60 + off = int ((t + 30) div 60 * 60 + 30)"
  proof -
    have "int t + 60 - off = (int t + 30) + (- k) * 60"
      by (simp add: off)
    then have "(int t + 60 - off) div 60 = (int t + 30) div 60 - k"
      by (simp only: div_mult_self1)
    then show ?thesis by (simp add: off zdiv_int algebra_simps)
  qed
  then have hour: "trunc_hour off (t + 60) = (t + 30) div 60 * 60 + 30"
    by (simp add: trunc_hour_def add.commute)
  show ?case
  proof (cases "t_hour t = 3")
    case True
    then have m: "209 < t mod 1440" "t mod 1440 < 240"
      using Suc.prems by (auto simp: t_hour_def)
    have "t mod 60 = t mod 1440 mod 60"
      by (simp add: mod_mod_cancel)
    with m minute_of_fourth_hour [of "t mod 1440"] have "t_minute t \<noteq> 0"
      by (simp add: t_minute_def)
    with True have "next_step daily_three off t = Some (t + 1)"
      using any_day_matches [OF day, of t] month [of t] by (simp add: next_step_def daily_three_def field_matches_def)
    moreover have "(t + 1) mod 1440 = t mod 1440 + 1"
      using m by (subst mod_Suc [of t, simplified Suc_eq_plus1]) simp
    ultimately show ?thesis
      using Suc.IH [of "t + 1"] m by simp
  next
    case False
    then have "next_step daily_three off t = Some ((t + 30) div 60 * 60 + 30)"
      using any_day_matches [OF day, of t] month [of t] hour by (simp add: next_step_def daily_three_def field_matches_def)
    moreover have "((t + 30) div 60 * 60 + 30) mod 1440 < 180 \<or> 209 < ((t + 30) div 60 * 60 + 30) mod 1440"
      by (rule half_past_outside) simp
    ultimately show ?thesis
      using Suc.IH by simp
  qed
qed simp

end
