(* ===== verification/Cron_Scheduler_Props.thy ===== *)
theory Cron_Scheduler_Props
  imports Cron_Scheduler Cron_Next_Props
begin

text \<open>
  Properties of the scheduler: runs of one job never overlap, a tick fires exactly the due jobs, the
  retry delay, and what a restart finds in the job table.  Two executions at the end show races.
\<close>

subsection \<open>Runs of one job never overlap\<close>

definition run_id :: "sched \<Rightarrow> nat \<times> phase \<Rightarrow> string" where
  "run_id s r = j_id (sc_heap s (fst r))"

definition sched_inv :: "sched \<Rightarrow> bool" where
  "sched_inv s \<longleftrightarrow> distinct (map (run_id s) (sc_runs s)) \<and> set (sc_inflight s) = run_id s ` set (sc_runs s) \<and>
     (\<forall>r \<in> set (sc_runs s). fst r < sc_fresh s) \<and> (\<forall>e \<in> set (sc_snaps s). fst e < sc_fresh s) \<and>
     (\<forall>(i, p) \<in> set (sc_table s). p < sc_fresh s \<and> j_id (sc_heap s p) = i) \<and> distinct (map fst (sc_table s))"

text \<open>Operations that leave the runs alone and write only fields other than ids keep the invariant.\<close>

definition same_runs :: "sched \<Rightarrow> sched \<Rightarrow> bool" where
  "same_runs s s' \<longleftrightarrow> sc_runs s' = sc_runs s \<and> sc_inflight s' = sc_inflight s \<and> sc_snaps s' = sc_snaps s \<and>
     sc_fresh s' = sc_fresh s \<and> sc_table s' = sc_table s \<and> (\<forall>p. j_id (sc_heap s' p) = j_id (sc_heap s p))"

lemma same_runs_inv: "same_runs s s' \<Longrightarrow> sched_inv s \<Longrightarrow> sched_inv s'"
  by (simp add: same_runs_def sched_inv_def run_id_def [abs_def])

lemma same_runs_refl: "same_runs s s"
  by (simp add: same_runs_def)

lemma same_runs_upd: "(\<And>j. j_id (f j) = j_id j) \<Longrightarrow> same_runs s (upd_job p f s)"
  by (simp add: same_runs_def upd_job_def)

lemma same_runs_trans: "same_runs a b \<Longrightarrow> same_runs b c \<Longrightarrow> same_runs a c"
  by (simp add: same_runs_def)

lemma same_runs_frame: "same_runs s (s\<lparr>sc_pending := x\<rparr>)" "same_runs s (s\<lparr>sc_rows := y\<rparr>)"
  by (simp_all add: same_runs_def)

lemma same_runs_perform: "same_runs s (perform op s)"
  by (simp add: perform_def same_runs_frame)

lemma settle_same_runs: "fire_settle E ok p s = Some s' \<Longrightarrow> same_runs s s'"
  by (auto simp: fire_settle_def record_success_def record_failure_def Let_def same_runs_def upd_job_def
      split: if_splits option.splits sum.splits)

lemma begin_same_runs: "same_runs s (fire_begin E p s)"
  unfolding fire_begin_def by (rule same_runs_upd) simp

lemma resume_same_runs: "resume_job E i s = Some (r, s') \<Longrightarrow> same_runs s s'"
  by (auto simp: resume_job_def Let_def same_runs_def upd_job_def split: option.splits sum.splits)

lemma pause_same_runs: "pause_job i s = Inr s' \<Longrightarrow> same_runs s s'"
  by (auto simp: pause_job_def same_runs_def upd_job_def split: option.splits)

lemma inv_set_run:
  assumes "sched_inv s" and "r \<in> set (sc_runs s)"
  shows "sched_inv (set_run r ph s)"
proof -
  have "mset (map (run_id s) (sc_runs (set_run r ph s))) = mset (map (run_id s) (sc_runs s))"
    using assms(2) by (simp add: set_run_def run_id_def image_mset_Diff)
  from mset_eq_imp_distinct_iff [OF this] mset_eq_setD [OF this] assms(1)
  have "distinct (map (run_id s) (sc_runs (set_run r ph s)))"
    "run_id s ` set (sc_runs (set_run r ph s)) = run_id s ` set (sc_runs s)"
    by (simp_all add: sched_inv_def)
  moreover have "\<forall>x \<in> set (sc_runs (set_run r ph s)). fst x < sc_fresh s"
    using assms by (auto simp: set_run_def sched_inv_def dest: notin_set_remove1 set_remove1_subset [THEN subsetD])
  ultimately show ?thesis
    using assms(1) by (simp add: sched_inv_def set_run_def run_id_def [abs_def])
qed

lemma inv_end_run:
  assumes "sched_inv s" and "r \<in> set (sc_runs s)"
  shows "sched_inv (end_run r s)"
proof -
  have d: "distinct (map (run_id s) (sc_runs s))" "inj_on (run_id s) (set (sc_runs s))" "distinct (sc_runs s)"
    using assms(1) by (auto simp: sched_inv_def distinct_map)
  have "run_id s ` (set (sc_runs s) - {r}) = run_id s ` set (sc_runs s) - {run_id s r}"
    using d(2) assms(2) by (auto simp: inj_on_def)
  then show ?thesis
    using assms(1) d by (auto simp: sched_inv_def end_run_def run_id_def [abs_def] distinct_map inj_on_def)
qed

lemma inv_tick_entry:
  assumes "sched_inv s" and "fst e < sc_fresh s"
  shows "sched_inv (tick_entry now e s)"
  using assms by (cases e) (auto simp: tick_entry_def sched_inv_def run_id_def [abs_def] split: option.splits)

lemma inv_add_job:
  assumes "sched_inv s" and "add_job E uuid j s = Some (Inr s')"
  shows "sched_inv s'"
proof -
  from assms(2) obtain nr where "next_run_time E (new_job E uuid j) = Some (Inr nr)"
    by (auto simp: add_job_def split: if_splits option.splits sum.splits)
  define j' where "j' = (new_job E uuid j)\<lparr>j_next_run := nr\<rparr>"
  from assms(2) \<open>next_run_time _ _ = _\<close> have new: "j_id j' \<notin> fst ` set (sc_table s)"
    and s': "s' = s\<lparr>sc_heap := (sc_heap s)(sc_fresh s := j'), sc_fresh := sc_fresh s + 1,
        sc_table := (j_id j', sc_fresh s) # sc_table s, sc_pending := SaveOp (sc_fresh s) # sc_pending s\<rparr>"
    by (auto simp: add_job_def Let_def map_of_eq_None_iff j'_def split: if_splits)
  have same: "map (run_id s') (sc_runs s') = map (run_id s) (sc_runs s)"
    using assms(1) by (auto simp: s' sched_inv_def run_id_def)
  have runs: "run_id s' ` set (sc_runs s') = run_id s ` set (sc_runs s)"
    using arg_cong [OF same, of set] by simp
  have table: "\<forall>(i, p) \<in> set (sc_table s'). p < sc_fresh s' \<and> j_id (sc_heap s' p) = i"
    using assms(1) by (auto simp: s' sched_inv_def)
  have fresh: "sc_fresh s \<le> sc_fresh s'" "sc_runs s' = sc_runs s" "sc_snaps s' = sc_snaps s" "sc_inflight s' = sc_inflight s"
    "distinct (map fst (sc_table s')) = distinct (map fst (sc_table s))"
    using new by (simp_all add: s')
  show ?thesis
    using assms(1) table unfolding sched_inv_def fresh(2-5) same [unfolded fresh(2)] runs [unfolded fresh(2)]
    by (intro conjI ballI) (auto intro: order_less_le_trans [OF _ fresh(1)])
qed

lemma inv_remove_job: "sched_inv s \<Longrightarrow> remove_job i s = Inr s' \<Longrightarrow> sched_inv s'"
proof -
  assume inv: "sched_inv s" and "remove_job i s = Inr s'"
  then have s': "s' = s\<lparr>sc_table := filter (\<lambda>(k, p). k \<noteq> i) (sc_table s), sc_pending := DeleteOp i # sc_pending s\<rparr>"
    by (simp add: remove_job_def split: if_splits)
  have "distinct (map fst (filter (\<lambda>(k, p). k \<noteq> i) (sc_table s)))"
    using inv by (simp add: sched_inv_def distinct_map_filter)
  with inv show "sched_inv s'"
    by (simp add: s' sched_inv_def run_id_def [abs_def])
qed

lemma snapshot_pointers: "e \<in> set (snapshot s) \<Longrightarrow> sched_inv s \<Longrightarrow> fst e < sc_fresh s"
  by (auto simp: snapshot_def sched_inv_def)

lemma inv_step: "sched_step s s' \<Longrightarrow> sched_inv s \<Longrightarrow> sched_inv s'"
proof (induction rule: sched_step.induct)
  case (tick_start s ss)
  from mset_eq_setD [OF tick_start.hyps(2)] have "set ss = set (snapshot s)" .
  then have "\<forall>e \<in> set ss. fst e < sc_fresh s"
    using snapshot_pointers tick_start.prems by blast
  with tick_start.prems show ?case
    unfolding sched_inv_def run_id_def [abs_def] by simp
next
  case (tick_next s e ss now)
  then have "fst e < sc_fresh s" by (simp add: sched_inv_def)
  from inv_tick_entry [OF tick_next.prems this, of now] tick_next show ?case
    by (cases e) (auto simp: sched_inv_def run_id_def [abs_def] tick_entry_def split: option.splits if_splits)
next
  case (settle p ok s E s')
  then show ?case
    using inv_set_run same_runs_inv [OF settle_same_runs] settle_same_runs by (metis same_runs_def)
next
  case (fire p s ok E)
  then show ?case
    using inv_set_run same_runs_inv [OF begin_same_runs] begin_same_runs by (metis same_runs_def)
next
  case (save p s)
  then show ?case
    using inv_set_run same_runs_inv [OF same_runs_perform] same_runs_perform by (metis same_runs_def)
next
  case (op_done op s)
  then show ?case
    using same_runs_inv [OF same_runs_trans [OF same_runs_frame(1) same_runs_perform]] by blast
qed (auto intro: inv_add_job inv_remove_job inv_set_run inv_end_run same_runs_inv
    dest: pause_same_runs resume_same_runs intro!: same_runs_inv [OF same_runs_frame(1)])

lemma distinct_load: "distinct (map row_id rs) \<Longrightarrow> distinct (map j_id (load_jobs rs))"
proof -
  assume "distinct (map row_id rs)"
  moreover have "mset (map j_id (load_jobs rs)) = mset (map row_id rs)"
    by (simp add: load_jobs_def job_of_def multiset.map_comp comp_def)
  ultimately show ?thesis
    by (metis mset_eq_imp_distinct_iff)
qed

lemma inv_start: "distinct (map row_id rs) \<Longrightarrow> sched_inv (start_sched rs)"
  using distinct_load [of rs] by (auto simp: start_sched_def sched_inv_def Let_def set_zip simp flip: rev_map)

lemma reachable_inv: "sched_reachable s \<Longrightarrow> sched_inv s"
  by (induction rule: sched_reachable.induct) (auto intro: inv_start inv_step)

text \<open>
  C15. Runs of a job never overlap: in every reachable state of the scheduler, with ticks, runs,
  callers and writes interleaved in any order, no two of the running goroutines fire the same job.
\<close>

theorem one_run_per_job:
  assumes "sched_reachable s"
  shows "distinct (map (\<lambda>(p, ph). j_id (sc_heap s p)) (sc_runs s))"
  using reachable_inv [OF assms] by (simp add: sched_inv_def run_id_def [abs_def] case_prod_unfold)

subsection \<open>A sample run\<close>

definition sample_job :: job where
  "sample_job = \<lparr>j_id = ''j1'', j_name = ''n'', j_schedule = ''* * * * *'', j_timezone = [], j_style = ''main'',
     j_session = [], j_command = ''c'', j_status = JActive, j_last_run = None, j_next_run = Some 60, j_run_count = 0,
     j_failures = 0, j_max_retries = 3, j_backoff_base = 0, j_backoff_max = 0, j_created = Some 0, j_metadata = [],
     j_target = [], j_notify = False\<rparr>"

definition sample_clock :: "int \<Rightarrow> clock_env" where
  "sample_clock t = \<lparr>clk_now = t, clk_zone = (\<lambda>_. None), clk_default = 0\<rparr>"

definition sd0 :: sched where "sd0 = start_sched [row_of sample_job]"
definition sd1 :: sched where "sd1 = sd0\<lparr>sc_snaps := [(0, Some 60)]\<rparr>"
definition sd2 :: sched where "sd2 = sd0\<lparr>sc_inflight := [''j1''], sc_runs := [(0, Begun)], sc_snaps := []\<rparr>"

lemma sd0_simps:
  "sc_heap sd0 0 = sample_job" "sc_fresh sd0 = 1" "sc_table sd0 = [(''j1'', 0)]" "sc_inflight sd0 = []" "sc_runs sd0 = []"
  "sc_snaps sd0 = []" "sc_pending sd0 = []" "sc_rows sd0 = [row_of sample_job]"
  by (simp_all add: sd0_def start_sched_def Let_def load_jobs_def job_of_def row_of_def sample_job_def)

lemma reachable_sd2: "sched_reachable sd2"
proof -
  have "sched_reachable sd0"
    unfolding sd0_def by (rule sched_reachable.start) simp
  moreover have "mset [(0, Some 60)] = mset (snapshot sd0)"
    by (simp add: snapshot_def sd0_simps) (simp add: sample_job_def)
  then have "sched_step sd0 sd1"
    unfolding sd1_def by (intro sched_step.tick_start) (simp_all add: sd0_simps)
  ultimately have "sched_reachable sd1"
    by (rule sched_reachable.step)
  moreover have "sc_snaps sd1 = (0, Some 60) # []"
    by (simp add: sd1_def)
  from sched_step.tick_next [OF this, of 60] have "sched_step sd1 sd2"
    by (simp add: tick_entry_def sd1_def sd2_def sd0_simps) (simp add: sample_job_def sd0_simps)
  ultimately show ?thesis
    by (rule sched_reachable.step)
qed

theorem one_run_per_job_witness:
  "distinct (map (\<lambda>(p, ph). j_id (sc_heap sd2 p)) (sc_runs sd2)) \<and> sc_runs sd2 = [(0, Begun)]"
  using one_run_per_job [OF reachable_sd2] by (simp add: sd2_def)

subsection \<open>A tick fires what is due\<close>

lemma tick_entry_frame: "sc_heap (tick_entry now e s) = sc_heap s"
  by (simp add: tick_entry_def split: prod.splits option.splits)

lemma set_inflight_entry:
  "set (sc_inflight (tick_entry now e s)) =
     set (sc_inflight s) \<union> (if \<exists>due. snd e = Some due \<and> due \<le> now then {j_id (sc_heap s (fst e))} else {})"
  by (cases e) (auto simp: tick_entry_def split: option.splits)

lemma set_runs_entry:
  "set (sc_runs (tick_entry now e s)) = set (sc_runs s) \<union>
     (if (\<exists>due. snd e = Some due \<and> due \<le> now) \<and> j_id (sc_heap s (fst e)) \<notin> set (sc_inflight s) then {(fst e, Begun)} else {})"
  by (cases e) (auto simp: tick_entry_def split: option.splits)

lemma fold_tick:
  assumes "distinct (map (\<lambda>e. j_id (sc_heap s (fst e))) es)"
  shows "set (sc_runs (fold (tick_entry now) es s)) = set (sc_runs s) \<union>
     {(p, Begun) | p due. (p, Some due) \<in> set es \<and> due \<le> now \<and> j_id (sc_heap s p) \<notin> set (sc_inflight s)}"
  using assms
proof (induction es arbitrary: s)
  case (Cons e es)
  have "set (sc_runs (fold (tick_entry now) es (tick_entry now e s))) = set (sc_runs (tick_entry now e s)) \<union>
     {(p, Begun) | p due. (p, Some due) \<in> set es \<and> due \<le> now \<and> j_id (sc_heap s p) \<notin> set (sc_inflight (tick_entry now e s))}"
    using Cons.IH [of "tick_entry now e s"] Cons.prems by (simp add: tick_entry_frame)
  moreover have "j_id (sc_heap s p) \<notin> set (sc_inflight (tick_entry now e s)) \<longleftrightarrow> j_id (sc_heap s p) \<notin> set (sc_inflight s)"
    if "(p, x) \<in> set es" for p x
  proof -
    define S where "S = (\<lambda>e. j_id (sc_heap s (fst e))) ` set es"
    have "j_id (sc_heap s p) \<in> S"
      unfolding S_def using imageI [OF that, of "\<lambda>e. j_id (sc_heap s (fst e))"] by (simp only: fst_conv)
    moreover have "j_id (sc_heap s (fst e)) \<notin> S"
      unfolding S_def using Cons.prems by (simp only: list.map distinct.simps list.set_map not_False_eq_True)
    ultimately have "j_id (sc_heap s p) \<noteq> j_id (sc_heap s (fst e))"
      by metis
    then show ?thesis
      by (simp add: set_inflight_entry)
  qed
  ultimately show ?case
    by (cases e) (auto simp: set_runs_entry)
qed simp

text \<open>
  A tick fires what is due and nothing else: in every reachable state an uninterrupted tick
  starts exactly the active jobs whose next run is set and not after the time of the tick and that
  are not running already.
\<close>

theorem tick_fires_due:
  assumes "sched_reachable s"
  shows "set (sc_runs (tick_jobs now s)) = set (sc_runs s) \<union>
     {(p, Begun) | i p due. (i, p) \<in> set (sc_table s) \<and> j_status (sc_heap s p) = JActive \<and>
        j_next_run (sc_heap s p) = Some due \<and> due \<le> now \<and> i \<notin> set (sc_inflight s)}"
proof -
  have inv: "\<forall>(i, p) \<in> set (sc_table s). j_id (sc_heap s p) = i" "distinct (map fst (sc_table s))"
    using reachable_inv [OF assms] by (auto simp: sched_inv_def)
  have "map (\<lambda>e. j_id (sc_heap s (fst e))) (snapshot s) =
      map fst (filter (\<lambda>(k, p). j_status (sc_heap s p) = JActive) (sc_table s))"
    using inv(1) by (auto simp: snapshot_def)
  then have "distinct (map (\<lambda>e. j_id (sc_heap s (fst e))) (snapshot s))"
    using inv(2) by (simp add: distinct_map_filter)
  note fold = fold_tick [OF this, of now]
  have "(p, Some due) \<in> set (snapshot s) \<longleftrightarrow>
      (\<exists>i. (i, p) \<in> set (sc_table s) \<and> j_status (sc_heap s p) = JActive \<and> j_next_run (sc_heap s p) = Some due)" for p due
    by (auto simp: snapshot_def image_iff)
  moreover have "j_id (sc_heap s p) = i" if "(i, p) \<in> set (sc_table s)" for i p
    using inv(1) that by blast
  ultimately show ?thesis
    unfolding tick_jobs_def fold by blast
qed

theorem tick_fires_due_witness:
  "set (sc_runs (tick_jobs 60 sd2)) = {(0, Begun)}"
  using tick_fires_due [OF reachable_sd2, of 60] by (auto simp: sd2_def sd0_simps)

subsection \<open>Retry delays\<close>

lemma backoff_loop_exact:
  assumes "0 < delay" and "delay \<le> cap" and "cap < 2 ^ 62"
  shows "backoff_loop n cap delay = min cap (delay * 2 ^ n)"
  using assms
proof (induction n arbitrary: delay)
  case (Suc n)
  have w: "wrap64 (delay * 2) = delay * 2"
    using Suc.prems by (intro wrap64_id) auto
  show ?case
  proof (cases "cap < delay * 2")
    case True
    moreover have "delay * 2 * 1 \<le> delay * 2 * 2 ^ n"
      using Suc.prems by (intro mult_left_mono) auto
    ultimately show ?thesis
      by (simp add: w Let_def min_def mult.assoc)
  next
    case False
    with Suc.IH [of "delay * 2"] Suc.prems show ?thesis
      by (simp add: w Let_def mult.assoc)
  qed
qed (simp add: min_def)

text \<open>
  Retries back off exponentially up to a cap: with a base delay not above the cap, the delay
  after the n-th failure is the base times two to the power n - 1, or the cap if that is less.
\<close>

theorem retry_backoff_exact:
  assumes "0 < j_backoff_base j" and "j_backoff_base j \<le> j_backoff_max j" and "j_backoff_max j < 2 ^ 62" and "1 \<le> j_failures j"
  shows "retry_backoff j = min (j_backoff_max j) (j_backoff_base j * 2 ^ nat (j_failures j - 1))"
  using assms by (simp add: retry_backoff_def backoff_loop_exact)

theorem retry_backoff_exact_witness:
  "retry_backoff (sample_job\<lparr>j_backoff_base := 60, j_backoff_max := 300, j_failures := 3\<rparr>) = 240 \<and>
   retry_backoff (sample_job\<lparr>j_backoff_base := 60, j_backoff_max := 300, j_failures := 9\<rparr>) = 300"
  using retry_backoff_exact [of "sample_job\<lparr>j_backoff_base := 60, j_backoff_max := 300, j_failures := 3\<rparr>"]
    retry_backoff_exact [of "sample_job\<lparr>j_backoff_base := 60, j_backoff_max := 300, j_failures := 9\<rparr>"]
  by simp

text \<open>The cap does not bind the first delay.\<close>

lemma first_delay_above_cap:
  "retry_backoff (sample_job\<lparr>j_backoff_base := 600, j_backoff_max := 300, j_failures := 1\<rparr>) = 600"
  by (simp add: retry_backoff_def)

subsection \<open>Restart\<close>

text \<open>
  What the scheduler relies on of a job table: a load sees the last save of a job and no job that
  was deleted since.
\<close>

locale job_table =
  fixes save :: "job \<Rightarrow> 't \<Rightarrow> 't" and delete :: "string \<Rightarrow> 't \<Rightarrow> 't"
    and load :: "'t \<Rightarrow> string \<Rightarrow> job option" and kept :: "job \<Rightarrow> job"
  assumes load_save: "load (save j t) i = (if i = j_id j then Some (kept j) else load t i)"
    and load_delete: "load (delete k t) i = (if i = k then None else load t i)"
begin

definition apply_write :: "job + string \<Rightarrow> 't \<Rightarrow> 't" where
  "apply_write w t = (case w of Inl j \<Rightarrow> save j t | Inr k \<Rightarrow> delete k t)"

definition write_id :: "job + string \<Rightarrow> string" where
  "write_id w = (case w of Inl j \<Rightarrow> j_id j | Inr k \<Rightarrow> k)"

lemma load_apply_other: "write_id w \<noteq> i \<Longrightarrow> load (apply_write w t) i = load t i"
  by (auto simp: apply_write_def write_id_def load_save load_delete split: sum.splits)

lemma load_after_others: "list_all (\<lambda>w. write_id w \<noteq> i) ws \<Longrightarrow> load (fold apply_write ws t) i = load t i"
  by (induction ws arbitrary: t) (auto simp: load_apply_other)

lemma last_write_wins:
  assumes "list_all (\<lambda>w. write_id w \<noteq> write_id w0) ws"
  shows "load (fold apply_write (w0 # ws) t) (write_id w0) = (case w0 of Inl j \<Rightarrow> Some (kept j) | Inr k \<Rightarrow> None)"
  using load_after_others [OF assms, of "apply_write w0 t"]
  by (auto simp: apply_write_def write_id_def load_save load_delete split: sum.splits)

end

text \<open>The columns of the table; the creation time is the one of the first save.\<close>

definition stored_part :: "job \<Rightarrow> job" where
  "stored_part j = j\<lparr>j_backoff_base := 0, j_backoff_max := 0, j_target := [], j_notify := False, j_created := None\<rparr>"

definition load_job :: "job_row list \<Rightarrow> string \<Rightarrow> job option" where
  "load_job rs i = map_option stored_part (find (\<lambda>j. j_id j = i) (map job_of rs))"

lemma job_of_simps [simp]: "j_id (job_of r) = row_id r" "row_id (row_of j) = j_id j"
  by (simp_all add: job_of_def row_of_def)

lemma stored_part_row: "stored_part (job_of ((row_of j)\<lparr>row_created := c\<rparr>)) = stored_part j" "stored_part (job_of (row_of j)) = stored_part j"
  by (simp_all add: stored_part_def job_of_def row_of_def)

lemma load_job_save: "load_job (save_job j rs) i = (if i = j_id j then Some (stored_part j) else load_job rs i)"
  by (induction j rs rule: save_job.induct) (auto simp: load_job_def stored_part_row)

lemma load_job_delete: "load_job (delete_job k rs) i = (if i = k then None else load_job rs i)"
  by (induction rs) (auto simp: load_job_def delete_job_def)

interpretation rows: job_table save_job delete_job load_job stored_part
  by unfold_locales (rule load_job_save load_job_delete)+

fun write_rows :: "job + string \<Rightarrow> job_row list \<Rightarrow> job_row list" where
  "write_rows (Inl j) rs = save_job j rs"
| "write_rows (Inr k) rs = delete_job k rs"

lemma write_rows_eq: "write_rows = rows.apply_write"
  by (intro ext, case_tac x) (simp_all add: rows.apply_write_def)

lemma save_job_ids: "distinct (map row_id rs) \<Longrightarrow> distinct (map row_id (save_job j rs)) \<and> set (map row_id (save_job j rs)) = insert (j_id j) (set (map row_id rs))"
  by (induction j rs rule: save_job.induct) auto

lemma write_rows_distinct: "distinct (map row_id rs) \<Longrightarrow> distinct (map row_id (fold write_rows ws rs))"
proof (induction ws arbitrary: rs)
  case (Cons w ws)
  then show ?case
    by (cases w) (auto simp: save_job_ids delete_job_def distinct_map_filter)
qed simp

lemma load_jobs_member:
  assumes "distinct (map row_id rs)"
  shows "load_job rs i = Some j \<longleftrightarrow> (\<exists>x \<in> set (load_jobs rs). j_id x = i \<and> stored_part x = j)"
proof -
  have "load_job rs i = Some j \<longleftrightarrow> (\<exists>r \<in> set rs. row_id r = i \<and> stored_part (job_of r) = j)"
    using assms by (induction rs) (auto simp: load_job_def image_iff)
  then show ?thesis
    by (auto simp: load_jobs_def)
qed

text \<open>
  A restart sees the last write of each job: after any sequence of saves and deletions whose
  last one for a job is a save, the loaded jobs hold it, with the values of the columns it has; if
  the last one is a deletion, it is not loaded.
\<close>

theorem restart_sees_last_write:
  assumes "distinct (map row_id rs)"
    and "list_all (\<lambda>w. (case w of Inl k \<Rightarrow> j_id k | Inr k \<Rightarrow> k) \<noteq> j_id j) ws"
  shows "(\<exists>x \<in> set (load_jobs (fold write_rows (Inl j # ws) rs)). j_id x = j_id j \<and> stored_part x = stored_part j) \<and>
     \<not> (\<exists>x \<in> set (load_jobs (fold write_rows (Inr (j_id j) # ws) rs)). j_id x = j_id j)"
proof
  note distinct = write_rows_distinct [OF assms(1)]
  have others: "list_all (\<lambda>w. rows.write_id w \<noteq> j_id j) ws"
    using assms(2) by (simp add: rows.write_id_def)
  have "load_job (fold write_rows (Inl j # ws) rs) (j_id j) = Some (stored_part j)"
    using rows.last_write_wins [of "Inl j" ws rs] others unfolding write_rows_eq by (simp add: rows.write_id_def)
  with load_jobs_member [OF distinct, of "Inl j # ws"]
  show "\<exists>x \<in> set (load_jobs (fold write_rows (Inl j # ws) rs)). j_id x = j_id j \<and> stored_part x = stored_part j"
    by blast
  have "load_job (fold write_rows (Inr (j_id j) # ws) rs) (j_id j) = None"
    using rows.last_write_wins [of "Inr (j_id j)" ws rs] others unfolding write_rows_eq by (simp add: rows.write_id_def)
  with load_jobs_member [OF distinct, of "Inr (j_id j) # ws"]
  show "\<not> (\<exists>x \<in> set (load_jobs (fold write_rows (Inr (j_id j) # ws) rs)). j_id x = j_id j)"
    by (metis option.distinct(1))
qed

theorem restart_sees_last_write_witness:
  "\<exists>x \<in> set (load_jobs (fold write_rows [Inl sample_job, Inr ''j2''] [])). j_id x = ''j1'' \<and> stored_part x = stored_part sample_job"
  using restart_sees_last_write [of "[]" sample_job "[Inr ''j2'']"] by (simp add: sample_job_def)

text \<open>The retry delays and the delivery settings of a job have no column and are lost.\<close>

lemma restart_forgets_settings:
  "load_jobs (save_job (sample_job\<lparr>j_backoff_base := 5, j_target := ''slack'', j_notify := True\<rparr>) []) = [sample_job]"
  by (simp add: load_jobs_def job_of_def row_of_def sample_job_def)

subsection \<open>Two races\<close>

lemma every_minute:
  assumes "j_schedule j = ''* * * * *''" and "j_timezone j = []"
  shows "next_run_time (sample_clock 60) j = Some (Inr (Some 120))"
proof -
  have "case parse_cron ''* * * * *'' of Some (Inr c) \<Rightarrow>
      list_all (\<lambda>v. v \<in> set (month_f c)) [1..12] \<and> list_all (\<lambda>v. v \<in> set (hour_f c)) [0..23] \<and>
      list_all (\<lambda>v. v \<in> set (minute_f c)) [0..59] \<and> list_all (\<lambda>v. v \<in> set (day_f c)) [1..31] \<and>
      list_all (\<lambda>v. v \<in> set (weekday_f c)) [0..6] | _ \<Rightarrow> False"
    by code_simp
  then obtain c where c: "parse_cron ''* * * * *'' = Some (Inr c)" and all: "any_day c"
    "{1..12} \<subseteq> set (month_f c)" "{0..23} \<subseteq> set (hour_f c)" "{0..59} \<subseteq> set (minute_f c)"
    unfolding list_all_iff set_upto any_day_def by (fastforce split: option.splits sum.splits)
  have "schedule_matches c 2"
    using any_day_matches [OF all(1), of 2] all(2-4)
    by (auto simp: schedule_matches_def field_matches_def t_month_def t_hour_def t_minute_def month_index_def
        find_month.simps [of 0] month_days_def)
  then have "next_step c 0 2 = None"
    by (simp add: next_step_None)
  then have "next_loop (Suc 0) c 0 2 = Some 2"
    by simp
  from next_loop_fuel [OF this, of "366 * 24 * 60"] have "next_run c 0 60 = Some 2"
    by (simp add: next_run_def numeral_2_eq_2 del: next_loop.simps)
  with c assms show ?thesis
    by (simp add: next_run_time_def sample_clock_def load_location_def)
qed

definition fired_job :: job where
  "fired_job = sample_job\<lparr>j_run_count := 1, j_last_run := Some 60\<rparr>"

definition sd3 :: sched where
  "sd3 = sd2\<lparr>sc_heap := (sc_heap sd0)(0 := fired_job), sc_runs := [(0, Firing True)]\<rparr>"

lemma sd_simps:
  "sc_heap sd3 0 = fired_job" "sc_table sd3 = [(''j1'', 0)]" "sc_inflight sd3 = [''j1'']" "sc_runs sd3 = [(0, Firing True)]"
  "sc_snaps sd3 = []" "sc_pending sd3 = []" "sc_rows sd3 = [row_of sample_job]" "sc_fresh sd3 = 1"
  "j_id fired_job = ''j1''" "j_id sample_job = ''j1''" "j_status fired_job = JActive" "j_next_run fired_job = Some 60"
  "j_run_count fired_job = 1"
  by (simp_all add: sd3_def sd2_def sd0_simps) (simp_all add: fired_job_def sample_job_def)

lemma reachable_sd3: "sched_reachable sd3"
proof (rule sched_reachable.step [OF reachable_sd2])
  have "(0, Begun) \<in> set (sc_runs sd2)"
    by (simp add: sd2_def)
  from sched_step.fire [OF this, of True "sample_clock 60"] show "sched_step sd2 sd3"
    by (simp add: set_run_def fire_begin_def upd_job_def sd2_def sd3_def sd0_simps sample_clock_def fired_job_def)
      (simp add: sample_job_def wrap64_def)
qed

lemma settle_fired:
  "sc_heap s 0 = fired_job \<Longrightarrow> fire_settle (sample_clock 60) True 0 s = Some (upd_job 0 (\<lambda>_. fired_job\<lparr>j_next_run := Some 120\<rparr>) s)"
  using every_minute [of fired_job] by (simp add: fire_settle_def record_success_def fired_job_def sample_job_def)

lemma run_to_end:
  assumes "sched_reachable s" and "sc_runs s = [(0, Firing True)]" and "sc_heap s 0 = fired_job" and "sc_inflight s = [''j1'']"
  shows "sched_reachable (s\<lparr>sc_heap := (sc_heap s)(0 := fired_job\<lparr>j_next_run := Some 120\<rparr>),
     sc_rows := save_job (fired_job\<lparr>j_next_run := Some 120\<rparr>) (sc_rows s), sc_runs := [], sc_inflight := []\<rparr>)"
proof -
  let ?j = "fired_job\<lparr>j_next_run := Some 120\<rparr>"
  let ?a = "s\<lparr>sc_heap := (sc_heap s)(0 := ?j), sc_runs := [(0, Saving)]\<rparr>"
  let ?b = "?a\<lparr>sc_rows := save_job ?j (sc_rows s), sc_runs := [(0, Ending)]\<rparr>"
  have "sched_step s ?a"
    using sched_step.settle [of 0 True s "sample_clock 60", OF _ settle_fired] assms by (simp add: set_run_def upd_job_def)
  moreover have "sched_step ?a ?b"
    using sched_step.save [of 0 ?a] by (simp add: set_run_def perform_def)
  moreover have "sched_step ?b (?b\<lparr>sc_runs := [], sc_inflight := []\<rparr>)"
    using sched_step.finish [of 0 ?b] assms(4) by (simp add: end_run_def sd_simps)
  ultimately have "sched_reachable (?b\<lparr>sc_runs := [], sc_inflight := []\<rparr>)"
    using assms(1) sched_reachable.step by blast
  then show ?thesis
    by simp
qed

text \<open>
  A tick that took its snapshot while a run was still going acts on the old next run after that
  run has ended: the job is fired again although its next run lies ahead.
\<close>

lemma stale_snapshot_fires_again:
  "\<exists>s. sched_reachable s \<and> j_next_run (sc_heap s 0) = Some 120 \<and> j_run_count (sc_heap s 0) = 1 \<and> sc_runs s = [] \<and>
     (\<exists>ss. sc_snaps s = (0, Some 60) # ss \<and> sc_runs (tick_entry 60 (0, Some 60) s) = [(0, Begun)])"
proof -
  have "mset [(0, Some 60)] = mset (snapshot sd3)"
    by (simp add: snapshot_def sd_simps)
  then have "sched_reachable (sd3\<lparr>sc_snaps := [(0, Some 60)]\<rparr>)"
    by (intro sched_reachable.step [OF reachable_sd3] sched_step.tick_start) (simp_all add: sd_simps)
  from run_to_end [OF this] show ?thesis
    by (intro exI conjI) (assumption | simp add: sd_simps tick_entry_def)+
qed

text \<open>A job removed while it runs is written again when the run ends, and a restart brings it back.\<close>

lemma removed_job_returns:
  "\<exists>s. sched_reachable s \<and> sc_table s = [] \<and> sc_runs s = [] \<and> sc_pending s = [] \<and> map j_id (load_jobs (sc_rows s)) = [''j1'']"
proof -
  let ?s = "sd3\<lparr>sc_table := [], sc_pending := [DeleteOp ''j1'']\<rparr>"
  have "remove_job ''j1'' sd3 = Inr ?s"
    by (simp add: remove_job_def sd_simps)
  then have "sched_reachable ?s"
    by (rule sched_reachable.step [OF reachable_sd3 sched_step.remove])
  then have "sched_reachable (?s\<lparr>sc_pending := [], sc_rows := []\<rparr>)"
    by (rule sched_reachable.step)
      (use sched_step.op_done [of "DeleteOp ''j1''" ?s] in \<open>simp add: perform_def delete_job_def sd_simps row_of_def\<close>)
  from run_to_end [OF this] show ?thesis
    by (intro exI conjI) (assumption | simp add: sd_simps load_jobs_def)+
qed

end
