(* ===== verification/Security.thy ===== *)
theory Security
  imports Go_Text
begin

text \<open>
  The gate in front of commands (\<open>internal/security\<close>): permissions granted by the user
  (\<open>permission.go\<close>) and the command scanner (\<open>scanner.go\<close>) that blocks commands and spends
  permissions.  The regular expressions, the shell parser and the decoder of encoded commands are
  parameters; confidence values are percentages.
\<close>

subsection \<open>Threat levels\<close>

datatype threat_level = ThreatNone | ThreatLow | ThreatMedium | ThreatHigh | ThreatCritical

definition level_rank :: "threat_level \<Rightarrow> nat" where
  "level_rank l = (case l of ThreatNone \<Rightarrow> 0 | ThreatLow \<Rightarrow> 1 | ThreatMedium \<Rightarrow> 2 | ThreatHigh \<Rightarrow> 3 | ThreatCritical \<Rightarrow> 4)"

lemma level_rank_inj: "level_rank a = level_rank b \<Longrightarrow> a = b"
  by (cases a; cases b) (auto simp: level_rank_def)

instantiation threat_level :: linorder
begin

definition less_eq_threat_level :: "threat_level \<Rightarrow> threat_level \<Rightarrow> bool" where
  "less_eq_threat_level a b \<longleftrightarrow> level_rank a \<le> level_rank b"

definition less_threat_level :: "threat_level \<Rightarrow> threat_level \<Rightarrow> bool" where
  "less_threat_level a b \<longleftrightarrow> level_rank a < level_rank b"

instance
  by standard (auto simp: less_eq_threat_level_def less_threat_level_def level_rank_inj)

end

record finding =
  fi_type :: string
  fi_level :: threat_level
  fi_description :: string
  fi_match :: string
  fi_confidence :: int

record scan_result =
  sr_findings :: "finding list"
  sr_max_level :: threat_level
  sr_blocked :: bool
  sr_sanitized :: string

subsection \<open>Permissions\<close>

datatype permission_action = ActionDeny | ActionAllowOnce | ActionAllowProject | ActionAllowGlobal

record permission_decision =
  pd_action :: permission_action
  pd_pattern :: string
  pd_command :: string
  pd_project :: string

record permissions =
  once_allowed :: "string \<Rightarrow> bool"
  project_allowed :: "string \<Rightarrow> string \<Rightarrow> bool"
  global_allowed :: "string \<Rightarrow> bool"

definition new_permissions :: permissions where
  "new_permissions = \<lparr>once_allowed = (\<lambda>_. False), project_allowed = (\<lambda>_ _. False), global_allowed = (\<lambda>_. False)\<rparr>"

text \<open>\<open>Check\<close> has two critical sections: the first spends a one-shot grant.\<close>

definition check_once :: "string \<Rightarrow> permissions \<Rightarrow> bool \<times> permissions" where
  "check_once pattern pm =
     (if once_allowed pm pattern then (True, pm\<lparr>once_allowed := (once_allowed pm)(pattern := False)\<rparr>) else (False, pm))"

definition check_standing :: "string \<Rightarrow> string \<Rightarrow> permissions \<Rightarrow> permission_action" where
  "check_standing pattern project pm =
     (if project_allowed pm project pattern then ActionAllowProject
      else if global_allowed pm pattern then ActionAllowGlobal else ActionDeny)"

definition check :: "string \<Rightarrow> string \<Rightarrow> string \<Rightarrow> permissions \<Rightarrow> permission_decision \<times> permissions" where
  "check pattern command project pm =
     (let d = (\<lambda>a. \<lparr>pd_action = a, pd_pattern = pattern, pd_command = command, pd_project = project\<rparr>)
      in case check_once pattern pm of
           (True, pm') \<Rightarrow> (d ActionAllowOnce, pm')
         | (False, pm') \<Rightarrow> (d (check_standing pattern project pm'), pm'))"

definition allow :: "permission_decision \<Rightarrow> permissions \<Rightarrow> permissions" where
  "allow d pm =
     (case pd_action d of
        ActionAllowOnce \<Rightarrow> pm\<lparr>once_allowed := (once_allowed pm)(pd_pattern d := True)\<rparr>
      | ActionAllowProject \<Rightarrow> pm\<lparr>project_allowed := (project_allowed pm)
            (pd_project d := (project_allowed pm (pd_project d))(pd_pattern d := True))\<rparr>
      | ActionAllowGlobal \<Rightarrow> pm\<lparr>global_allowed := (global_allowed pm)(pd_pattern d := True)\<rparr>
      | ActionDeny \<Rightarrow> pm)"

definition is_allowed :: "string \<Rightarrow> string \<Rightarrow> permissions \<Rightarrow> bool" where
  "is_allowed pattern project pm \<longleftrightarrow> once_allowed pm pattern \<or> project_allowed pm project pattern \<or> global_allowed pm pattern"

definition clear_project :: "string \<Rightarrow> permissions \<Rightarrow> permissions" where
  "clear_project project pm = pm\<lparr>project_allowed := (project_allowed pm)(project := (\<lambda>_. False))\<rparr>"

definition clear_session :: "permissions \<Rightarrow> permissions" where
  "clear_session pm = pm\<lparr>once_allowed := (\<lambda>_. False)\<rparr>"

definition consume_all :: "string list \<Rightarrow> string \<Rightarrow> permissions \<Rightarrow> bool \<times> permissions" where
  "consume_all patterns project pm =
     (if list_all (\<lambda>p. once_allowed pm p \<or> project_allowed pm project p) patterns
      then (True, pm\<lparr>once_allowed := fold (\<lambda>p f. f(p := False)) patterns (once_allowed pm)\<rparr>)
      else (False, pm))"

subsection \<open>The scanner\<close>

record deny_pattern =
  dp_id :: string
  dp_find :: "string \<Rightarrow> string list"
  dp_description :: string
  dp_level :: threat_level
  dp_confidence :: int

record scanner =
  sn_patterns :: "deny_pattern list"
  sn_window :: int
  sn_max_cmds :: int
  sn_timestamps :: "int list"
  sn_permissions :: "permissions option"
  sn_project :: string
  sn_max_len :: int

record scan_env =
  se_now :: int
  se_shell :: "string \<Rightarrow> finding list option"
  se_decode :: "string \<Rightarrow> finding list"

definition check_and_record :: "int \<Rightarrow> scanner \<Rightarrow> bool \<times> scanner" where
  "check_and_record t s =
     (let valid = filter (\<lambda>x. t - sn_window s < x) (sn_timestamps s)
      in if sn_max_cmds s \<le> int (length valid) then (True, s\<lparr>sn_timestamps := valid\<rparr>)
         else (False, s\<lparr>sn_timestamps := valid @ [t]\<rparr>))"

definition shell_finding_pattern :: "finding \<Rightarrow> string" where
  "shell_finding_pattern f =
     (if fi_description f = ''recursive force delete (root/home/current dir)'' then ''rm_rf_root''
      else if fi_description f = ''raw disk write'' then ''dd_raw_disk''
      else if fi_description f = ''direct device write'' then ''direct_device_write'' else '''')"

text \<open>Every finding carries the id that can override it: \<open>None\<close> where no permission can.\<close>

definition too_long :: "scanner \<Rightarrow> string \<Rightarrow> bool" where
  "too_long s input \<longleftrightarrow> 0 < sn_max_len s \<and> sn_max_len s < int (length input)"

definition length_finding :: "scanner \<Rightarrow> string \<Rightarrow> (finding \<times> string option) list" where
  "length_finding s input =
     (if too_long s input
      then [(\<lparr>fi_type = ''command_too_long'', fi_level = ThreatHigh, fi_description = ''command length exceeds cap'',
              fi_match = '''', fi_confidence = 100\<rparr>, None)] else [])"

definition overridable :: "string \<Rightarrow> string option" where
  "overridable i = (if i = '''' then None else Some i)"

definition pattern_findings :: "scanner \<Rightarrow> string \<Rightarrow> (finding \<times> string option) list" where
  "pattern_findings s input = concat (map (\<lambda>p. map (\<lambda>x.
     (\<lparr>fi_type = ''dangerous_command'', fi_level = dp_level p, fi_description = dp_description p,
       fi_match = x, fi_confidence = dp_confidence p\<rparr>, overridable (dp_id p))) (dp_find p input)) (sn_patterns s))"

definition shell_findings :: "scan_env \<Rightarrow> string \<Rightarrow> (finding \<times> string option) list" where
  "shell_findings E input = (case se_shell E input of None \<Rightarrow> []
     | Some fs \<Rightarrow> map (\<lambda>f. (f, overridable (shell_finding_pattern f))) fs)"

definition decode_findings :: "scan_env \<Rightarrow> string \<Rightarrow> (finding \<times> string option) list" where
  "decode_findings E input = map (\<lambda>f. (f, None)) (se_decode E input)"

definition raised :: "(finding \<times> string option) list \<Rightarrow> (finding \<times> string option) list" where
  "raised fs = filter (\<lambda>(f, i). ThreatHigh \<le> fi_level f) fs"

definition required_ids :: "(finding \<times> string option) list \<Rightarrow> bool \<Rightarrow> string list" where
  "required_ids fs limited =
     sort (remdups (concat (map (\<lambda>(f, i). case i of None \<Rightarrow> [] | Some x \<Rightarrow> [x]) (raised fs)) @
       (if limited then [''rate_limit''] else [])))"

definition max_level :: "finding list \<Rightarrow> threat_level" where
  "max_level fs = fold (\<lambda>f l. if l < fi_level f then fi_level f else l) fs ThreatNone"

definition override_finding :: "string \<Rightarrow> finding" where
  "override_finding i = \<lparr>fi_type = ''permission_override'', fi_level = ThreatNone,
     fi_description = ''blocked by '' @ i @ '', but allowed by permission'', fi_match = '''', fi_confidence = 100\<rparr>"

definition rate_finding :: "string \<Rightarrow> finding" where
  "rate_finding input = \<lparr>fi_type = ''rate_limit'', fi_level = ThreatMedium,
     fi_description = ''command rate limit exceeded'', fi_match = input, fi_confidence = 100\<rparr>"

text \<open>The last part of \<open>Scan\<close>: whether the command is blocked and which ids were overridden.\<close>

definition judge :: "bool \<Rightarrow> bool \<Rightarrow> string list \<Rightarrow> scanner \<Rightarrow> bool \<times> string list \<times> scanner" where
  "judge blocked stuck ids s =
    (case sn_permissions s of
       None \<Rightarrow> (blocked, [], s)
     | Some pm \<Rightarrow>
         if blocked \<and> \<not> stuck \<and> ids \<noteq> [] then
           (case consume_all ids (sn_project s) pm of
              (True, pm') \<Rightarrow> (False, ids, s\<lparr>sn_permissions := Some pm'\<rparr>)
            | (False, _) \<Rightarrow> (True, [], s))
         else (blocked, [], s))"

definition scan :: "scan_env \<Rightarrow> string \<Rightarrow> scanner \<Rightarrow> scan_result \<times> scanner" where
  "scan E input s =
    (if input = '''' then (\<lparr>sr_findings = [], sr_max_level = ThreatNone, sr_blocked = False, sr_sanitized = input\<rparr>, s)
     else
       let fs = length_finding s input @ pattern_findings s input @ shell_findings E input @ decode_findings E input;
           (limited, s1) = check_and_record (se_now E) s;
           all = map fst fs @ (if limited then [rate_finding input] else []);
           (blocked, used, s2) = judge (ThreatHigh \<le> max_level all \<or> limited)
             (list_ex (\<lambda>(f, i). i = None) (raised fs)) (required_ids fs limited) s1
       in (\<lparr>sr_findings = all @ map override_finding used, sr_max_level = max_level all, sr_blocked = blocked,
             sr_sanitized = input\<rparr>, s2))"

end
