(* ===== verification/Security_Props.thy ===== *)
theory Security_Props
  imports Security
begin

text \<open>
  One-shot permissions are spent once, a command that passes the scanner has no ungranted hazard, and
  the rate limit holds in every window.
\<close>

subsection \<open>Permissions\<close>

text \<open>The critical sections of the permission manager, in any order; spent one-shot grants are listed.\<close>

datatype perm_op = Grant permission_decision | CheckOnce string | ConsumeAll "string list" string
  | ClearProject string | ClearSession

fun perm_step :: "perm_op \<Rightarrow> permissions \<Rightarrow> string list \<times> permissions" where
  "perm_step (Grant d) pm = ([], allow d pm)"
| "perm_step (CheckOnce p) pm = (let (b, pm') = check_once p pm in (if b then [p] else [], pm'))"
| "perm_step (ConsumeAll ps q) pm =
     (let (b, pm') = consume_all ps q pm in (if b then filter (once_allowed pm) (remdups ps) else [], pm'))"
| "perm_step (ClearProject q) pm = ([], clear_project q pm)"
| "perm_step ClearSession pm = ([], clear_session pm)"

fun perm_run :: "perm_op list \<Rightarrow> permissions \<Rightarrow> string list \<times> permissions" where
  "perm_run [] pm = ([], pm)"
| "perm_run (x # xs) pm = (let (u, pm') = perm_step x pm; (us, pm'') = perm_run xs pm' in (u @ us, pm''))"

definition grants_once :: "string \<Rightarrow> perm_op \<Rightarrow> bool" where
  "grants_once p x \<longleftrightarrow> (case x of Grant d \<Rightarrow> pd_action d = ActionAllowOnce \<and> pd_pattern d = p | _ \<Rightarrow> False)"

lemma fold_clear: "fold (\<lambda>p f. f(p := False)) ps f q \<longleftrightarrow> f q \<and> q \<notin> set ps"
  by (induction ps arbitrary: f) auto

lemma count_list_distinct_filter:
  "count_list (filter P (remdups ps)) q = (if q \<in> set ps \<and> P q then 1 else 0)"
  by (induction ps) (auto simp: count_list_0_iff)

lemma perm_step_spends:
  "count_list (fst (perm_step x pm)) p + of_bool (once_allowed (snd (perm_step x pm)) p) \<le>
     of_bool (once_allowed pm p) + of_bool (grants_once p x)"
proof (cases x)
  case (Grant d)
  then show ?thesis
    by (cases "pd_action d") (auto simp: allow_def grants_once_def)
next
  case (ConsumeAll ps q)
  then show ?thesis
    by (auto simp: consume_all_def fold_clear count_list_distinct_filter grants_once_def)
qed (auto simp: check_once_def clear_project_def clear_session_def grants_once_def)

lemma perm_run_spends:
  "count_list (fst (perm_run xs pm)) p \<le> of_bool (once_allowed pm p) + length (filter (grants_once p) xs)"
proof (induction xs arbitrary: pm)
  case (Cons x xs)
  obtain u pm' us pm'' where run: "perm_step x pm = (u, pm')" "perm_run xs pm' = (us, pm'')"
    by force
  from perm_step_spends [of x pm p] Cons.IH [of pm'] run show ?case
    by (cases "grants_once p x") auto
qed simp

text \<open>
  C16. A one-shot permission is spent at most once: whatever the interleaving of grants, checks,
  scanner decisions and resets, a pattern's one-shot approvals let through at most as many checks as
  the user granted; and \<open>Check\<close> denies exactly what \<open>IsAllowed\<close> refuses.
\<close>

theorem once_grants_spent_once:
  "count_list (fst (perm_run xs new_permissions)) p \<le> length (filter (grants_once p) xs) \<and>
   (pd_action (fst (check p command project pm)) \<noteq> ActionDeny \<longleftrightarrow> is_allowed p project pm)"
  using perm_run_spends [of xs new_permissions p]
  by (auto simp: new_permissions_def check_def check_once_def check_standing_def is_allowed_def Let_def)

lemma consume_all_atomic:
  "consume_all ps q pm = (b, pm') \<Longrightarrow>
     (b \<longleftrightarrow> (\<forall>p \<in> set ps. once_allowed pm p \<or> project_allowed pm q p)) \<and> (\<not> b \<longrightarrow> pm' = pm) \<and>
     (b \<longrightarrow> (\<forall>p. once_allowed pm' p \<longleftrightarrow> once_allowed pm p \<and> p \<notin> set ps))"
  by (auto simp: consume_all_def list_all_iff fold_clear split: if_splits)

subsection \<open>The scanner\<close>

lemma max_level_ge: "fi_level f \<le> max_level fs" if "f \<in> set fs"
proof -
  have mono: "l \<le> fold (\<lambda>f l. if l < fi_level f then fi_level f else l) fs l" for l :: threat_level and fs
    by (induction fs arbitrary: l) (auto intro: order_trans [OF less_imp_le])
  have "f \<in> set fs \<Longrightarrow> fi_level f \<le> fold (\<lambda>f l. if l < fi_level f then fi_level f else l) fs l" for l
  proof (induction fs arbitrary: l)
    case (Cons g gs)
    show ?case
    proof (cases "f = g")
      case True
      then show ?thesis
        using mono [of "if l < fi_level g then fi_level g else l" gs] by (auto intro: order_trans split: if_splits)
    next
      case False
      with Cons show ?thesis by simp
    qed
  qed simp
  with that show ?thesis
    by (simp add: max_level_def)
qed

lemma required_ids_iff:
  "i \<in> set (required_ids fs limited) \<longleftrightarrow>
     (\<exists>f. (f, Some i) \<in> set fs \<and> ThreatHigh \<le> fi_level f) \<or> (limited \<and> i = ''rate_limit'')"
  by (force simp: required_ids_def raised_def split: option.splits if_splits)

definition hazards :: "scan_env \<Rightarrow> string \<Rightarrow> scanner \<Rightarrow> (finding \<times> string option) list" where
  "hazards E input s = raised (length_finding s input @ pattern_findings s input @ shell_findings E input @ decode_findings E input)"

definition granted :: "scanner \<Rightarrow> string \<Rightarrow> bool" where
  "granted s i \<longleftrightarrow> (case sn_permissions s of None \<Rightarrow> False
     | Some pm \<Rightarrow> once_allowed pm i \<or> project_allowed pm (sn_project s) i)"

lemma judge_passes:
  assumes "\<not> fst (judge blocked stuck ids s)" and "blocked"
  shows "\<exists>pm. sn_permissions s = Some pm \<and> \<not> stuck \<and> fst (consume_all ids (sn_project s) pm)"
  using assms by (auto simp: judge_def split: option.splits if_splits prod.splits bool.splits)

text \<open>
  C17. What the scanner lets through: a command that is not blocked either has no hazard of level
  high or above and is within the rate limit, or every hazard it has, and an exceeded rate limit, is
  covered by a one-shot or project permission of its own; a hazard without an id, such as an encoded
  command or an overlong one, is never let through.
\<close>

theorem scan_passes_only_granted:
  assumes "scan E input s = (r, s')" and "input \<noteq> ''''" and "\<not> sr_blocked r"
  shows "(\<forall>(f, i) \<in> set (hazards E input s). \<exists>x. i = Some x \<and> granted s x) \<and>
     (fst (check_and_record (se_now E) s) \<longrightarrow> granted s ''rate_limit'')"
proof -
  define fs where "fs = length_finding s input @ pattern_findings s input @ shell_findings E input @ decode_findings E input"
  obtain limited s1 where rec: "check_and_record (se_now E) s = (limited, s1)"
    by force
  have same: "sn_permissions s1 = sn_permissions s" "sn_project s1 = sn_project s"
    using rec by (auto simp: check_and_record_def Let_def split: if_splits)
  let ?all = "map fst fs @ (if limited then [rate_finding input] else [])"
  let ?blocked = "ThreatHigh \<le> max_level ?all \<or> limited"
  obtain b used s2 where j: "judge ?blocked (list_ex (\<lambda>(f, i). i = None) (raised fs)) (required_ids fs limited) s1 = (b, used, s2)"
    by (rule prod_cases3)
  have "sr_blocked (fst (scan E input s)) = b"
    using assms(2) j by (simp only: scan_def rec Let_def prod.case if_False fs_def [symmetric] fst_conv scan_result.simps)
  with assms(1,3) have "\<not> b"
    by simp
  show ?thesis
  proof (cases ?blocked)
    case False
    have "\<not> ThreatHigh \<le> fi_level f" if "(f, i) \<in> set fs" for f i
    proof -
      have "f \<in> set ?all"
        using that by force
      from max_level_ge [OF this] False show ?thesis
        by (meson order_trans)
    qed
    then have "hazards E input s = []"
      unfolding hazards_def raised_def fs_def [symmetric] by (auto simp: filter_empty_conv)
    with False show ?thesis
      by (simp add: rec)
  next
    case True
    from \<open>\<not> b\<close> j have "\<not> fst (judge ?blocked (list_ex (\<lambda>(f, i). i = None) (raised fs)) (required_ids fs limited) s1)"
      by simp
    from judge_passes [OF this True] same obtain pm where pm: "sn_permissions s = Some pm" "\<not> list_ex (\<lambda>(f, i). i = None) (raised fs)"
      "fst (consume_all (required_ids fs limited) (sn_project s) pm)"
      by auto
    have grant: "granted s i" if "i \<in> set (required_ids fs limited)" for i
      using pm(3) that by (auto simp: granted_def pm(1) consume_all_def list_all_iff split: if_splits)
    have "\<exists>x. i = Some x \<and> granted s x" if "(f, i) \<in> set (raised fs)" for f i
    proof -
      from pm(2) that obtain x where "i = Some x"
        by (cases i) (auto simp: list_ex_iff)
      moreover from this that have "x \<in> set (required_ids fs limited)"
        unfolding required_ids_iff by (auto simp: raised_def)
      ultimately show ?thesis
        using grant by blast
    qed
    moreover have "limited \<longrightarrow> granted s ''rate_limit''"
      using grant [of "''rate_limit''"] by (simp add: required_ids_iff)
    ultimately show ?thesis
      unfolding hazards_def rec fs_def [symmetric] by auto
  qed
qed

definition sample_pattern :: deny_pattern where
  "sample_pattern = \<lparr>dp_id = ''rm_rf_root'', dp_find = (\<lambda>x. if x = ''rm -rf /'' then [x] else []),
     dp_description = ''recursive force delete'', dp_level = ThreatCritical, dp_confidence = 100\<rparr>"

definition sample_scanner :: scanner where
  "sample_scanner = \<lparr>sn_patterns = [sample_pattern], sn_window = 60, sn_max_cmds = 10, sn_timestamps = [],
     sn_permissions = Some (new_permissions\<lparr>once_allowed := (\<lambda>p. p = ''rm_rf_root'')\<rparr>), sn_project = ''/p'', sn_max_len = 0\<rparr>"

definition sample_scan_env :: scan_env where
  "sample_scan_env = \<lparr>se_now = 0, se_shell = (\<lambda>_. None), se_decode = (\<lambda>_. [])\<rparr>"

lemma sample_scan: "\<not> sr_blocked (fst (scan sample_scan_env ''rm -rf /'' sample_scanner))"
  by (simp add: scan_def check_and_record_def sample_scan_env_def sample_scanner_def length_finding_def too_long_def
      pattern_findings_def sample_pattern_def shell_findings_def decode_findings_def raised_def max_level_def judge_def
      required_ids_def overridable_def consume_all_def less_eq_threat_level_def less_threat_level_def level_rank_def
      new_permissions_def)

theorem scan_passes_only_granted_witness:
  "hazards sample_scan_env ''rm -rf /'' sample_scanner \<noteq> [] \<and> granted sample_scanner ''rm_rf_root''"
proof -
  have "hazards sample_scan_env ''rm -rf /'' sample_scanner =
      [(\<lparr>fi_type = ''dangerous_command'', fi_level = ThreatCritical, fi_description = ''recursive force delete'',
         fi_match = ''rm -rf /'', fi_confidence = 100\<rparr>, Some ''rm_rf_root'')]"
    by (simp add: hazards_def sample_scan_env_def sample_scanner_def length_finding_def too_long_def pattern_findings_def
        sample_pattern_def shell_findings_def decode_findings_def raised_def overridable_def less_eq_threat_level_def level_rank_def)
  moreover obtain r s' where run: "scan sample_scan_env ''rm -rf /'' sample_scanner = (r, s')"
    by force
  moreover have "\<not> sr_blocked r"
    using sample_scan run by simp
  ultimately show ?thesis
    using scan_passes_only_granted [OF run] by simp
qed

text \<open>The rate limit: calls at non-decreasing times, those that pass are the recorded ones.\<close>

fun rate_run :: "int list \<Rightarrow> scanner \<Rightarrow> int list \<times> scanner" where
  "rate_run [] s = ([], s)"
| "rate_run (t # ts) s = (let (limited, s1) = check_and_record t s; (us, s2) = rate_run ts s1
     in (if limited then us else t # us, s2))"

lemma rate_window_bound:
  assumes "length (filter (\<lambda>x. t - sn_window s < x) (sn_timestamps s)) \<le> nat (sn_max_cmds s)"
  shows "length (filter (\<lambda>x. t - sn_window s < x) (sn_timestamps (snd (check_and_record t s)))) \<le> nat (sn_max_cmds s)"
  using assms by (auto simp: check_and_record_def Let_def)

end
