(* ===== verification/Pairing.thy ===== *)
theory Pairing
  imports Go_Text
begin

text \<open>
  Pairing of message senders (\<open>internal/security/pairing.go\<close>): challenges, approval of codes and the
  lists of known senders.  The JSON files are maps from file names; \<open>None\<close> is a missing file.  File
  contents are taken to be readable and writes to succeed.  \<open>ApproveCode\<close> compacts the slice of
  requests in place while it keeps a pointer into it, so its loop works on the array itself.  Times are
  nanoseconds; the random code is a parameter; letters are folded in ASCII.
\<close>

record pairing_request =
  pq_id :: string
  pq_code :: string
  pq_channel :: string
  pq_account :: string
  pq_created :: int
  pq_seen :: int

record known_sender =
  ks_id :: string
  ks_channel :: string
  ks_added :: int
  ks_by :: string

record pairing_store =
  ps_pending :: "string \<Rightarrow> pairing_request list option"
  ps_allow :: "string \<Rightarrow> known_sender list option"

datatype pairing_error = CodeRequired | CodeNotFound string string | CodeExpired string string | SenderNotFound string string

definition pairing_ttl :: int where "pairing_ttl = 3600000000000"
definition pairing_max_pending :: nat where "pairing_max_pending = 3"

subsection \<open>File names\<close>

fun safe_channel_key :: "string \<Rightarrow> string" where
  "safe_channel_key [] = []"
| "safe_channel_key (c # s) =
     (if c \<in> set ''/:*?<>|'' \<or> byte c = 92 \<or> byte c = 34 then CHR ''_'' # safe_channel_key s
      else case s of
        d # r \<Rightarrow> if c = CHR ''.'' \<and> d = CHR ''.'' then CHR ''_'' # safe_channel_key r else c # safe_channel_key s
      | [] \<Rightarrow> [c])"

definition pairing_file_name :: "string \<Rightarrow> string" where
  "pairing_file_name channel = safe_channel_key channel @ ''-pairing.json''"

definition allow_file_name :: "string \<Rightarrow> string \<Rightarrow> string" where
  "allow_file_name channel account =
     (if account \<noteq> '''' \<and> account \<noteq> ''default'' then safe_channel_key channel @ ''-'' @ safe_channel_key account
      else safe_channel_key channel) @ ''-allowFrom.json''"

subsection \<open>Reading and writing\<close>

definition read_pending :: "string \<Rightarrow> pairing_store \<Rightarrow> pairing_request list" where
  "read_pending channel s = (case ps_pending s (pairing_file_name channel) of None \<Rightarrow> [] | Some rs \<Rightarrow> rs)"

definition write_pending :: "string \<Rightarrow> pairing_request list \<Rightarrow> pairing_store \<Rightarrow> pairing_store" where
  "write_pending channel rs s = s\<lparr>ps_pending := (ps_pending s)(pairing_file_name channel := Some rs)\<rparr>"

definition read_allow :: "string \<Rightarrow> string \<Rightarrow> pairing_store \<Rightarrow> known_sender list" where
  "read_allow channel account s =
     (case ps_allow s (allow_file_name channel account) of None \<Rightarrow> []
      | Some ks \<Rightarrow> filter (\<lambda>k. ks_id k \<noteq> '''' \<and> ks_id k \<noteq> ''*'') ks)"

definition write_allow :: "string \<Rightarrow> string \<Rightarrow> known_sender list \<Rightarrow> pairing_store \<Rightarrow> pairing_store" where
  "write_allow channel account ks s = s\<lparr>ps_allow := (ps_allow s)(allow_file_name channel account := Some ks)\<rparr>"

subsection \<open>Challenges\<close>

fun touch :: "int \<Rightarrow> string \<Rightarrow> string \<Rightarrow> pairing_request list \<Rightarrow> (pairing_request \<times> pairing_request list) option" where
  "touch t sender account [] = None"
| "touch t sender account (r # rs) =
     (if pq_id r = sender \<and> pq_account r = account then Some (r\<lparr>pq_seen := t\<rparr>, r\<lparr>pq_seen := t\<rparr> # rs)
      else map_option (\<lambda>(q, rs'). (q, r # rs')) (touch t sender account rs))"

definition prune :: "pairing_request list \<Rightarrow> pairing_request list" where
  "prune rs = (if pairing_max_pending < length rs
     then drop (length rs - pairing_max_pending) (sort_key pq_seen rs) else rs)"

definition issue_challenge :: "int \<Rightarrow> string \<Rightarrow> string \<Rightarrow> string \<Rightarrow> string \<Rightarrow> pairing_store \<Rightarrow> pairing_request \<times> pairing_store" where
  "issue_challenge t code channel sender account s =
    (let live = filter (\<lambda>r. t - pq_created r < pairing_ttl) (read_pending channel s)
     in case touch t sender account live of
          Some (r, rs) \<Rightarrow> (r, write_pending channel rs s)
        | None \<Rightarrow>
            (let r = \<lparr>pq_id = sender, pq_code = code, pq_channel = channel, pq_account = account, pq_created = t, pq_seen = t\<rparr>
             in (r, write_pending channel (prune (live @ [r])) s)))"

subsection \<open>Approval\<close>

definition to_upper :: "char \<Rightarrow> char" where
  "to_upper c = (if 97 \<le> byte c \<and> byte c \<le> 122 then char_of (byte c - 32) else c)"

definition equal_fold :: "string \<Rightarrow> string \<Rightarrow> bool" where
  "equal_fold a b \<longleftrightarrow> map to_upper a = map to_upper b"

text \<open>
  The loop of \<open>ApproveCode\<close> at index \<open>i\<close>: \<open>arr\<close> is the array that \<open>requests\<close> and \<open>remaining\<close> share,
  \<open>n\<close> the length of \<open>remaining\<close>, \<open>found\<close> the index that the pointer refers to.
\<close>

fun approve_loop :: "string \<Rightarrow> nat \<Rightarrow> nat \<Rightarrow> nat \<Rightarrow> pairing_request list \<Rightarrow> nat option \<Rightarrow> pairing_request list \<times> nat \<times> nat option" where
  "approve_loop code 0 i n arr found = (arr, n, found)"
| "approve_loop code (Suc k) i n arr found =
     (if equal_fold (pq_code (arr ! i)) code then approve_loop code k (i + 1) n arr (Some i)
      else approve_loop code k (i + 1) (n + 1) (arr[n := arr ! i]) found)"

definition add_known :: "int \<Rightarrow> string \<Rightarrow> pairing_request \<Rightarrow> pairing_store \<Rightarrow> known_sender \<times> pairing_store" where
  "add_known t channel r s =
    (let ks = read_allow channel (pq_account r) s
     in if list_ex (\<lambda>k. ks_id k = pq_id r \<and> ks_channel k = channel) ks
        then (\<lparr>ks_id = pq_id r, ks_channel = channel, ks_added = pq_created r, ks_by = ''cli''\<rparr>, s)
        else let k = \<lparr>ks_id = pq_id r, ks_channel = channel, ks_added = t, ks_by = ''cli''\<rparr>
             in (k, write_allow channel (pq_account r) (ks @ [k]) s))"

definition approve_code :: "int \<Rightarrow> string \<Rightarrow> string \<Rightarrow> pairing_store \<Rightarrow> (pairing_error + known_sender) \<times> pairing_store" where
  "approve_code t channel code s =
    (let code = map to_upper (trim_space code)
     in if code = '''' then (Inl CodeRequired, s)
        else let reqs = read_pending channel s;
                 (arr, n, found) = approve_loop code (length reqs) 0 0 reqs None
             in case found of
                  None \<Rightarrow> (Inl (CodeNotFound code channel), s)
                | Some i \<Rightarrow>
                    let s1 = write_pending channel (take n arr) s
                    in if t - pq_created (arr ! i) > pairing_ttl then (Inl (CodeExpired code channel), s1)
                       else let (k, s2) = add_known t channel (arr ! i) s1 in (Inr k, s2))"

subsection \<open>Known senders\<close>

definition is_known :: "string \<Rightarrow> string \<Rightarrow> string \<Rightarrow> pairing_store \<Rightarrow> bool" where
  "is_known channel sender account s \<longleftrightarrow> list_ex (\<lambda>k. ks_id k = sender) (read_allow channel account s)"

definition remove_sender :: "string \<Rightarrow> string \<Rightarrow> string \<Rightarrow> pairing_store \<Rightarrow> (pairing_error + unit) \<times> pairing_store" where
  "remove_sender channel sender account s =
    (let ks = read_allow channel account s
     in if \<not> list_ex (\<lambda>k. ks_id k = sender) ks then (Inl (SenderNotFound sender channel), s)
        else (Inr (), write_allow channel account (filter (\<lambda>k. ks_id k \<noteq> sender) ks) s))"

end
