(* ===== verification/Pairing_Props.thy ===== *)
theory Pairing_Props
  imports Pairing
begin

text \<open>
  Whom an approval admits, the bound on pending requests, and what file names make two channels share.
\<close>

subsection \<open>The loop of ApproveCode\<close>

lemma approve_loop_add:
  "approve_loop code (a + b) i n arr found =
     (case approve_loop code a i n arr found of (arr', n', found') \<Rightarrow> approve_loop code b (i + a) n' arr' found')"
  by (induction code a i n arr found rule: approve_loop.induct) auto

lemma approve_loop_before:
  assumes "i + k \<le> length arr" and "\<forall>j. i \<le> j \<and> j < i + k \<longrightarrow> \<not> equal_fold (pq_code (arr ! j)) code"
  shows "approve_loop code k i i arr found = (arr, i + k, found)"
  using assms by (induction k arbitrary: i) auto

lemma approve_loop_shift:
  assumes "Suc n + k \<le> length arr" and "\<forall>j. Suc n \<le> j \<and> j < Suc n + k \<longrightarrow> \<not> equal_fold (pq_code (arr ! j)) code"
  shows "approve_loop code k (Suc n) n arr found = (take n arr @ take k (drop (Suc n) arr) @ drop (n + k) arr, n + k, found)"
  using assms
proof (induction k arbitrary: n arr)
  case (Suc k)
  let ?arr = "arr[n := arr ! Suc n]"
  have "approve_loop code k (Suc (Suc n)) (Suc n) ?arr found =
      (take (Suc n) ?arr @ take k (drop (Suc (Suc n)) ?arr) @ drop (Suc n + k) ?arr, Suc n + k, found)"
    using Suc.prems by (intro Suc.IH) (auto simp: nth_list_update)
  moreover have "take (Suc n) ?arr = take n arr @ [arr ! Suc n]"
    using Suc.prems by (simp add: take_Suc_conv_app_nth)
  moreover have "arr ! Suc n # take k (drop (Suc (Suc n)) arr) = take (Suc k) (drop (Suc n) arr)"
    using Suc.prems by (simp add: Cons_nth_drop_Suc [symmetric])
  ultimately show ?case
    using Suc.prems by simp
qed simp

lemma approve_loop_result:
  assumes "equal_fold (pq_code r) code" and "\<forall>q \<in> set pre \<union> set post. \<not> equal_fold (pq_code q) code"
  shows "approve_loop code (length (pre @ r # post)) 0 0 (pre @ r # post) None =
     (pre @ post @ [last (r # post)], length pre + length post, Some (length pre))"
proof -
  let ?arr = "pre @ r # post"
  have "approve_loop code (length pre) 0 0 ?arr None = (?arr, length pre, None)"
    using approve_loop_before [of 0 "length pre" ?arr code None] assms(2) by (auto simp: nth_append)
  moreover have "approve_loop code 1 (length pre) (length pre) ?arr None = (?arr, length pre, Some (length pre))"
    using assms(1) by (simp add: nth_append)
  moreover have "approve_loop code (length post) (Suc (length pre)) (length pre) ?arr (Some (length pre)) =
      (take (length pre) ?arr @ take (length post) (drop (Suc (length pre)) ?arr) @ drop (length pre + length post) ?arr,
       length pre + length post, Some (length pre))"
    using assms(2) by (intro approve_loop_shift) (auto simp: nth_append nth_Cons' less_diff_conv2)
  moreover have "drop (length post) (r # post) = [last (r # post)]"
    by (induction post rule: rev_induct) auto
  ultimately show ?thesis
    using approve_loop_add [of code "length pre" "1 + length post" 0 0 ?arr None]
      approve_loop_add [of code 1 "length post" "length pre" "length pre" ?arr None] by simp
qed

lemma read_write_pending [simp]: "read_pending channel (write_pending channel rs s) = rs"
  by (simp add: read_pending_def write_pending_def)

lemma add_known_frame [simp]: "read_pending channel (snd (add_known t ch r s)) = read_pending channel s"
  by (simp add: add_known_def Let_def read_pending_def write_allow_def)

lemma add_known_known:
  assumes "pq_id r \<noteq> ''''" and "pq_id r \<noteq> ''*''"
  shows "ks_id (fst (add_known t channel r s)) = pq_id r \<and> is_known channel (pq_id r) (pq_account r) (snd (add_known t channel r s))"
  using assms by (auto simp: add_known_def Let_def is_known_def read_allow_def write_allow_def list_ex_iff split: option.splits)

text \<open>
  Whom an approval admits.  When exactly one pending request of the channel has the code, that
  request is removed; but the sender who becomes known is the one of the request that follows it in
  the file, because the pointer to the request found refers to the array that the loop compacts.
  Only the last request of the file admits its own sender.
\<close>

theorem approval_admits:
  assumes "read_pending channel s = pre @ r # post" and "map to_upper (trim_space code) \<noteq> ''''"
    and "equal_fold (pq_code r) (map to_upper (trim_space code))"
    and "\<forall>q \<in> set pre \<union> set post. \<not> equal_fold (pq_code q) (map to_upper (trim_space code))"
    and "q = (if post = [] then r else hd post)" and "t - pq_created q \<le> pairing_ttl"
    and "pq_id q \<noteq> ''''" and "pq_id q \<noteq> ''*''"
  shows "\<exists>k s'. approve_code t channel code s = (Inr k, s') \<and> ks_id k = pq_id q \<and>
     read_pending channel s' = pre @ post \<and> is_known channel (pq_id q) (pq_account q) s'"
proof -
  obtain arr n i where loop: "approve_loop (map to_upper (trim_space code)) (length (pre @ r # post)) 0 0 (pre @ r # post) None =
      (arr, n, Some i)" and arr: "take n arr = pre @ post" "arr ! i = q"
    using approve_loop_result [OF assms(3,4)] by (cases post) (auto simp: assms(5) nth_append)
  let ?s1 = "write_pending channel (pre @ post) s"
  have "approve_code t channel code s = (Inr (fst (add_known t channel q ?s1)), snd (add_known t channel q ?s1))"
    using assms(2,6) unfolding approve_code_def Let_def assms(1) loop by (simp add: arr split: prod.splits)
  with add_known_known [OF assms(7,8), of t channel ?s1] show ?thesis
    by simp
qed

definition sample_request :: "string \<Rightarrow> string \<Rightarrow> pairing_request" where
  "sample_request sender code = \<lparr>pq_id = sender, pq_code = code, pq_channel = ''telegram'', pq_account = '''', pq_created = 0, pq_seen = 0\<rparr>"

definition sample_pairing :: pairing_store where
  "sample_pairing = \<lparr>ps_pending = (\<lambda>f. if f = ''telegram-pairing.json''
     then Some [sample_request ''owner'' ''ABCDEFGH'', sample_request ''stranger'' ''JKLMNPQR''] else None), ps_allow = (\<lambda>_. None)\<rparr>"

theorem approval_admits_witness:
  "\<exists>k s'. approve_code 1 ''telegram'' ''abcdefgh'' sample_pairing = (Inr k, s') \<and> ks_id k = ''stranger'' \<and>
     is_known ''telegram'' ''stranger'' '''' s'"
proof -
  have name: "pairing_file_name ''telegram'' = ''telegram-pairing.json''"
    and code: "map to_upper (trim_space ''abcdefgh'') = ''ABCDEFGH''"
    and fold: "equal_fold ''ABCDEFGH'' ''ABCDEFGH''" "\<not> equal_fold ''JKLMNPQR'' ''ABCDEFGH''"
    by code_simp+
  have "read_pending ''telegram'' sample_pairing = [] @ sample_request ''owner'' ''ABCDEFGH'' # [sample_request ''stranger'' ''JKLMNPQR'']"
    by (simp add: read_pending_def name sample_pairing_def)
  from approval_admits [OF this, of "''abcdefgh''" "sample_request ''stranger'' ''JKLMNPQR''" 1] show ?thesis
    by (auto simp: code fold sample_request_def pairing_ttl_def)
qed

subsection \<open>Pending requests\<close>

lemma length_prune: "length (prune rs) \<le> pairing_max_pending"
  by (simp add: prune_def)

lemma sort_key_snoc:
  assumes "\<And>y. y \<in> set xs \<Longrightarrow> f y \<le> f x"
  shows "sort_key f (xs @ [x]) = sort_key f xs @ [x]"
proof (rule properties_for_sort_key)
  show "filter (\<lambda>y. f k = f y) (sort_key f xs @ [x]) = filter (\<lambda>y. f k = f y) (xs @ [x])" for k
    using sort_key_stable [of f "f k" xs] by (simp add: eq_commute [of "f k"])
qed (use assms in \<open>auto simp: sorted_append\<close>)

lemma challenge_is_pending:
  assumes "\<forall>r \<in> set (read_pending channel s). pq_seen r \<le> t"
    and "touch t sender account (filter (\<lambda>r. t - pq_created r < pairing_ttl) (read_pending channel s)) = None"
  shows "fst (issue_challenge t code channel sender account s) \<in>
     set (read_pending channel (snd (issue_challenge t code channel sender account s)))"
proof -
  let ?live = "filter (\<lambda>r. t - pq_created r < pairing_ttl) (read_pending channel s)"
  let ?r = "\<lparr>pq_id = sender, pq_code = code, pq_channel = channel, pq_account = account, pq_created = t, pq_seen = t\<rparr>"
  have "sort_key pq_seen (?live @ [?r]) = sort_key pq_seen ?live @ [?r]"
    using assms(1) by (intro sort_key_snoc) auto
  then have "?r \<in> set (prune (?live @ [?r]))"
    by (auto simp: prune_def pairing_max_pending_def drop_Cons')
  then show ?thesis
    using assms(2) by (simp add: issue_challenge_def Let_def)
qed

text \<open>
  The bound counts the requests of a whole channel, not of an account: a challenge for one account
  pushes out the oldest request of another.
\<close>

lemma other_account_pushed_out:
  "map pq_id (read_pending ''telegram'' (snd (issue_challenge 9 ''X'' ''telegram'' ''d'' ''other''
     (write_pending ''telegram'' [sample_request ''a'' ''A'', sample_request ''b'' ''B'', sample_request ''c'' ''C''] sample_pairing)))) =
   [''b'', ''c'', ''d'']"
  by code_simp

text \<open>Two pairs of channel and account can share one list of known senders.\<close>

lemma allow_files_collide:
  "allow_file_name ''telegram'' ''ops'' = allow_file_name ''telegram-ops'' '''' \<and>
   is_known ''telegram-ops'' ''mallory'' '''' (snd (add_known 0 ''telegram''
     ((sample_request ''mallory'' ''X'')\<lparr>pq_account := ''ops''\<rparr>) sample_pairing))"
proof -
  have "allow_file_name ''telegram'' ''ops'' = ''telegram-ops-allowFrom.json''"
    "allow_file_name ''telegram-ops'' '''' = ''telegram-ops-allowFrom.json''"
    by code_simp+
  then show ?thesis
    by (simp add: add_known_def is_known_def read_allow_def write_allow_def sample_request_def sample_pairing_def Let_def)
qed

end
