(* ===== verification/Slicer.thy ===== *)
theory Slicer
  imports Go_Text
begin

text \<open>
  The order in which the slices of a plan are worked on: \<open>TopologicalSort\<close> of
  \<open>internal/pipeline/slicer.go\<close>, Kahn's algorithm with a queue that is kept sorted.  The maps of the
  code are functions from ids; a map entry written twice keeps the last slice of an id.
\<close>

record slice =
  sl_id :: string
  sl_title :: string
  sl_description :: string
  sl_layers :: "string list"
  sl_classification :: string
  sl_dependencies :: "string list"
  sl_priority :: int

definition slice_ids :: "slice list \<Rightarrow> string list" where
  "slice_ids ss = remdups (map sl_id ss)"

definition by_id :: "slice list \<Rightarrow> string \<Rightarrow> slice option" where
  "by_id ss i = find (\<lambda>s. sl_id s = i) (rev ss)"

text \<open>The pairs of a dependency and its dependent in the order in which the code meets them.\<close>

definition dep_pairs :: "slice list \<Rightarrow> (string \<times> string) list" where
  "dep_pairs ss = concat (map (\<lambda>s. map (\<lambda>d. (d, sl_id s))
     (filter (\<lambda>d. by_id ss d \<noteq> None) (sl_dependencies s))) ss)"

definition in_degree :: "slice list \<Rightarrow> string \<Rightarrow> int" where
  "in_degree ss i = int (length (filter (\<lambda>(d, x). x = i) (dep_pairs ss)))"

definition adjacent :: "slice list \<Rightarrow> string \<Rightarrow> string list" where
  "adjacent ss i = map snd (filter (\<lambda>(d, x). d = i) (dep_pairs ss))"

fun relax :: "string list \<Rightarrow> (string \<Rightarrow> int) \<Rightarrow> string list \<Rightarrow> (string \<Rightarrow> int) \<times> string list" where
  "relax [] deg queue = (deg, queue)"
| "relax (n # ns) deg queue =
     (let deg' = deg(n := deg n - 1)
      in relax ns deg' (if deg' n = 0 then sort (queue @ [n]) else queue))"

text \<open>
  The loop takes one id from the queue per round; \<open>fuel\<close> bounds the rounds.  The ids are returned, and
  what is left in the queue.
\<close>

fun kahn_loop :: "nat \<Rightarrow> slice list \<Rightarrow> (string \<Rightarrow> int) \<Rightarrow> string list \<Rightarrow> string list \<times> string list" where
  "kahn_loop fuel ss deg [] = ([], [])"
| "kahn_loop 0 ss deg queue = ([], queue)"
| "kahn_loop (Suc fuel) ss deg (i # queue) =
     (let (deg', queue') = relax (sort (adjacent ss i)) deg queue;
          (out, left) = kahn_loop fuel ss deg' queue'
      in (i # out, left))"

definition kahn :: "slice list \<Rightarrow> string list \<times> string list" where
  "kahn ss = kahn_loop (length ss) ss (in_degree ss) (sort (filter (\<lambda>i. in_degree ss i = 0) (slice_ids ss)))"

datatype slice_error = CircularDependency

definition topological_sort :: "slice list \<Rightarrow> slice_error + slice list" where
  "topological_sort ss =
     (let out = map (\<lambda>i. the (by_id ss i)) (fst (kahn ss))
      in if length out \<noteq> length ss then Inl CircularDependency else Inr out)"

end
