(* ===== verification/Slicer_Props.thy ===== *)
theory Slicer_Props
  imports Slicer
begin

text \<open>
  The topological sort succeeds exactly on acyclic plans with distinct ids, and its result is a
  permutation of the slices in which every dependency comes first.
\<close>

definition depends :: "slice list \<Rightarrow> (string \<times> string) set" where
  "depends ss = {(d, sl_id s) | d s. s \<in> set ss \<and> d \<in> set (sl_dependencies s) \<and> d \<in> sl_id ` set ss}"

lemma by_id_None: "by_id ss i = None \<longleftrightarrow> i \<notin> sl_id ` set ss"
  by (auto simp: by_id_def find_None_iff)

lemma by_id_Some: "by_id ss i = Some s \<Longrightarrow> s \<in> set ss \<and> sl_id s = i"
  by (auto simp: by_id_def find_Some_iff) (metis nth_mem set_rev length_rev)

lemma set_dep_pairs: "set (dep_pairs ss) = depends ss"
  by (auto simp: dep_pairs_def depends_def by_id_None)

lemma dep_pairs_ids: "(d, i) \<in> set (dep_pairs ss) \<Longrightarrow> d \<in> set (slice_ids ss) \<and> i \<in> set (slice_ids ss)"
  by (auto simp: set_dep_pairs depends_def slice_ids_def)

subsection \<open>One round\<close>

definition pending :: "slice list \<Rightarrow> string list \<Rightarrow> string \<Rightarrow> int" where
  "pending ss out i = int (length (filter (\<lambda>(d, x). x = i \<and> d \<notin> set out) (dep_pairs ss)))"

lemma count_adjacent:
  "int (count_list (adjacent ss i) x) = int (length (filter (\<lambda>(d, y). y = x \<and> d = i) (dep_pairs ss)))"
  unfolding adjacent_def by (induction "dep_pairs ss" rule: list.induct)
    (auto simp: count_list_eq_length_filter filter_map comp_def case_prod_unfold intro!: arg_cong [where f = length] filter_cong)

lemma pending_step:
  assumes "i \<notin> set out"
  shows "pending ss (out @ [i]) x = pending ss out x - int (count_list (adjacent ss i) x)"
proof -
  have "length (filter (\<lambda>(d, y). y = x \<and> d \<notin> set out) ps) =
      length (filter (\<lambda>(d, y). y = x \<and> d \<notin> set (out @ [i])) ps) + length (filter (\<lambda>(d, y). y = x \<and> d = i) ps)" for ps
    using assms by (induction ps) auto
  from this [of "dep_pairs ss"] show ?thesis
    by (simp add: pending_def count_adjacent)
qed

lemma relax_result:
  assumes "\<forall>x. int (count_list ns x) \<le> deg x" and "\<forall>x \<in> set queue. deg x = 0" and "distinct queue"
    and "relax ns deg queue = (deg', queue')"
  shows "(\<forall>x. deg' x = deg x - int (count_list ns x)) \<and> distinct queue' \<and>
     set queue' = set queue \<union> {x \<in> set ns. deg x = int (count_list ns x)}"
  using assms
proof (induction ns arbitrary: deg queue)
  case (Cons n ns)
  let ?deg = "deg(n := deg n - 1)"
  let ?queue = "if ?deg n = 0 then sort (queue @ [n]) else queue"
  note le = Cons.prems(1) [rule_format]
  have n: "n \<notin> set queue"
  proof
    assume "n \<in> set queue"
    with Cons.prems(2) le [of n] show False by simp
  qed
  have run: "relax ns ?deg ?queue = (deg', queue')"
    using Cons.prems(4) by (simp add: Let_def)
  have le': "int (count_list ns x) \<le> ?deg x" for x
    using le [of x] by (cases "x = n") auto
  then have "\<forall>x. int (count_list ns x) \<le> ?deg x" ..
  moreover have "\<forall>x \<in> set ?queue. ?deg x = 0"
    using Cons.prems(2) n by auto
  moreover have "distinct ?queue"
    using Cons.prems(3) n by auto
  ultimately have IH: "(\<forall>x. deg' x = ?deg x - int (count_list ns x)) \<and> distinct queue' \<and>
     set queue' = set ?queue \<union> {x \<in> set ns. ?deg x = int (count_list ns x)}"
    using Cons.IH run by blast
  have "x \<in> set ?queue \<union> {x \<in> set ns. ?deg x = int (count_list ns x)} \<longleftrightarrow>
      x \<in> set queue \<union> {x \<in> set (n # ns). deg x = int (count_list (n # ns) x)}" for x
  proof (cases "x = n")
    case True
    with n le' [of n] show ?thesis
      by (cases "n \<in> set ns") (auto simp: count_list_0_iff)
  qed auto
  then have "set ?queue \<union> {x \<in> set ns. ?deg x = int (count_list ns x)} =
      set queue \<union> {x \<in> set (n # ns). deg x = int (count_list (n # ns) x)}"
    by blast
  with IH show ?case
    by auto
qed simp

subsection \<open>The loop\<close>

definition ordered :: "slice list \<Rightarrow> string list \<Rightarrow> bool" where
  "ordered ss out \<longleftrightarrow> (\<forall>j < length out. \<forall>d. (d, out ! j) \<in> depends ss \<longrightarrow> d \<in> set (take j out))"

definition kahn_inv :: "slice list \<Rightarrow> string list \<Rightarrow> (string \<Rightarrow> int) \<Rightarrow> string list \<Rightarrow> bool" where
  "kahn_inv ss out deg queue \<longleftrightarrow> distinct (out @ queue) \<and> set (out @ queue) \<subseteq> set (slice_ids ss) \<and> deg = pending ss out \<and>
     (\<forall>x \<in> set (slice_ids ss). pending ss out x = 0 \<longleftrightarrow> x \<in> set out \<union> set queue) \<and> ordered ss out"

lemma count_list_sort [simp]: "count_list (sort xs) x = count_list xs x"
  by (metis count_mset mset_sort)

lemma pending_zero: "pending ss out x = 0 \<Longrightarrow> (d, x) \<in> depends ss \<Longrightarrow> d \<in> set out"
  by (auto simp: pending_def set_dep_pairs [symmetric] filter_empty_conv)

lemma pending_pos: "pending ss out x \<noteq> 0 \<Longrightarrow> \<exists>d. (d, x) \<in> depends ss \<and> d \<notin> set out"
  by (auto simp: pending_def set_dep_pairs [symmetric] filter_empty_conv)

lemma pending_nonneg: "0 \<le> pending ss out x"
  by (simp add: pending_def)

lemma ordered_snoc:
  assumes "ordered ss out" and "\<And>d. (d, i) \<in> depends ss \<Longrightarrow> d \<in> set out"
  shows "ordered ss (out @ [i])"
  using assms by (auto simp: ordered_def nth_append less_Suc_eq)

lemma adjacent_ids: "x \<in> set (adjacent ss i) \<Longrightarrow> x \<in> set (slice_ids ss)"
  using dep_pairs_ids by (auto simp: adjacent_def)

lemma kahn_inv_round:
  assumes "kahn_inv ss out deg (i # queue)" and "relax (sort (adjacent ss i)) deg queue = (deg', queue')"
  shows "kahn_inv ss (out @ [i]) deg' queue'"
proof -
  note inv = assms(1) [unfolded kahn_inv_def]
  have i: "i \<notin> set out" "i \<in> set (slice_ids ss)" "i \<notin> set queue"
    using inv by auto
  note step = pending_step [OF i(1)]
  have zero: "pending ss out x = 0 \<longleftrightarrow> x \<in> set out \<or> x = i \<or> x \<in> set queue" if "x \<in> set (slice_ids ss)" for x
    using inv that by auto
  have R: "(\<forall>x. deg' x = deg x - int (count_list (adjacent ss i) x)) \<and> distinct queue' \<and>
     set queue' = set queue \<union> {x \<in> set (adjacent ss i). deg x = int (count_list (adjacent ss i) x)}"
  proof -
    have "int (count_list (sort (adjacent ss i)) x) \<le> deg x" for x
      using step [of ss x] pending_nonneg [of ss "out @ [i]" x] inv by simp
    moreover have "deg x = 0" if "x \<in> set queue" for x
      using zero [of x] that inv by auto
    moreover have "distinct queue"
      using inv by simp
    ultimately show ?thesis
      using relax_result [OF _ _ _ assms(2)] by simp
  qed
  have deg': "deg' = pending ss (out @ [i])"
    using R inv step by auto
  have new: "pending ss out x \<noteq> 0" if "x \<in> set (adjacent ss i)" "deg x = int (count_list (adjacent ss i) x)" for x
    using that inv by (simp add: count_list_0_iff)
  have "x \<in> set (slice_ids ss) \<Longrightarrow> pending ss (out @ [i]) x = 0 \<longleftrightarrow> x \<in> set (out @ [i]) \<union> set queue'" for x
  proof (cases "pending ss out x = 0")
    case True
    moreover assume x: "x \<in> set (slice_ids ss)"
    ultimately have "x \<in> set (out @ [i]) \<union> set queue'"
      using zero R by auto
    moreover have "pending ss (out @ [i]) x = 0"
      using True step [of ss x] pending_nonneg [of ss "out @ [i]" x] by linarith
    ultimately show ?thesis by simp
  next
    case False
    moreover assume x: "x \<in> set (slice_ids ss)"
    ultimately have "x \<notin> set (out @ [i]) \<union> set queue"
      using zero by auto
    moreover have "pending ss (out @ [i]) x = 0 \<longleftrightarrow> deg x = int (count_list (adjacent ss i) x)"
      using step [of ss x] inv by auto
    moreover have "deg x = int (count_list (adjacent ss i) x) \<Longrightarrow> x \<in> set (adjacent ss i)"
      using False inv by (auto simp: count_list_0_iff [symmetric])
    ultimately show ?thesis
      using R by auto
  qed
  moreover have "distinct ((out @ [i]) @ queue')"
  proof -
    have "x \<notin> set out \<and> x \<noteq> i" if "x \<in> set queue'" for x
    proof (cases "x \<in> set queue")
      case True
      with inv show ?thesis by auto
    next
      case False
      with that R have "x \<in> set (adjacent ss i)" "deg x = int (count_list (adjacent ss i) x)"
        by auto
      with new zero [OF adjacent_ids] show ?thesis by blast
    qed
    with R inv i(1) show ?thesis by auto
  qed
  moreover have "set ((out @ [i]) @ queue') \<subseteq> set (slice_ids ss)"
    using R inv i adjacent_ids by auto
  moreover have "ordered ss (out @ [i])"
    using inv zero [OF i(2)] pending_zero by (intro ordered_snoc) auto
  ultimately show ?thesis
    unfolding kahn_inv_def deg' by blast
qed

lemma distinct_subset_length: "distinct xs \<Longrightarrow> set xs \<subseteq> set ys \<Longrightarrow> distinct ys \<Longrightarrow> length xs \<le> length ys"
  by (metis card_mono distinct_card finite_set)

lemma kahn_loop_inv:
  assumes "kahn_inv ss out deg queue" and "length (slice_ids ss) \<le> length out + fuel" and "kahn_loop fuel ss deg queue = (os, left)"
  shows "left = [] \<and> (\<exists>deg'. kahn_inv ss (out @ os) deg' [])"
  using assms
proof (induction fuel arbitrary: out deg queue os)
  case 0
  have "length (out @ queue) \<le> length (slice_ids ss)"
    using 0(1) by (intro distinct_subset_length) (auto simp: kahn_inv_def slice_ids_def)
  with 0 show ?case by (cases queue) auto
next
  case (Suc fuel)
  show ?case
  proof (cases queue)
    case (Cons i q)
    obtain deg' queue' where r: "relax (sort (adjacent ss i)) deg q = (deg', queue')"
      by force
    obtain out' where rest: "kahn_loop fuel ss deg' queue' = (out', left)" "os = i # out'"
      using Suc.prems(3) Cons r by (auto split: prod.splits)
    from Suc.IH [OF kahn_inv_round [OF Suc.prems(1) [unfolded Cons] r] _ rest(1)] Suc.prems(2) show ?thesis
      by (simp add: rest(2))
  qed (use Suc.prems in auto)
qed

lemma kahn_inv_start: "kahn_inv ss [] (in_degree ss) (sort (filter (\<lambda>i. in_degree ss i = 0) (slice_ids ss)))"
  by (auto simp: kahn_inv_def pending_def in_degree_def ordered_def slice_ids_def fun_eq_iff)

lemma kahn_result:
  assumes "kahn ss = (out, left)"
  shows "left = [] \<and> distinct out \<and> set out \<subseteq> set (slice_ids ss) \<and> ordered ss out \<and>
     (\<forall>x \<in> set (slice_ids ss). pending ss out x = 0 \<longleftrightarrow> x \<in> set out)"
proof -
  have "length (slice_ids ss) \<le> length [] + length ss"
    by (simp add: slice_ids_def) (metis length_map length_remdups_leq)
  from kahn_loop_inv [OF kahn_inv_start this assms [unfolded kahn_def]] show ?thesis
    by (auto simp: kahn_inv_def)
qed

subsection \<open>Success\<close>

lemma finite_depends: "finite (depends ss)"
  by (metis List.finite_set set_dep_pairs)

lemma ordered_acyclic:
  assumes "ordered ss out" and "distinct out" and "sl_id ` set ss \<subseteq> set out"
  shows "acyclic (depends ss)"
proof -
  define pos where "pos x = (LEAST k. k < length out \<and> out ! k = x)" for x
  have pos: "pos (out ! k) = k" if "k < length out" for k
    unfolding pos_def using that assms(2) by (intro Least_equality) (auto simp: nth_eq_iff_index_eq)
  have "pos d < pos i" if "(d, i) \<in> depends ss" for d i
  proof -
    from that assms(3) have "i \<in> set out"
      by (auto simp: depends_def)
    then obtain j where j: "j < length out" "out ! j = i"
      by (auto simp: in_set_conv_nth)
    with assms(1) that have "d \<in> set (take j out)"
      by (auto simp: ordered_def)
    then obtain k where "k < j" "out ! k = d"
      using j(1) by (auto simp: in_set_conv_nth)
    with pos [of k] pos [of j] j show ?thesis by auto
  qed
  then have "depends ss \<subseteq> inv_image less_than pos"
    by auto
  with wf_acyclic [OF wf_inv_image [OF wf_less_than]] show ?thesis
    by (metis acyclic_subset)
qed

lemma acyclic_complete:
  assumes "acyclic (depends ss)" and "kahn ss = (out, left)"
  shows "set out = set (slice_ids ss)"
proof (rule ccontr)
  note K = kahn_result [OF assms(2)]
  assume "set out \<noteq> set (slice_ids ss)"
  with K obtain x0 where "x0 \<in> set (slice_ids ss) - set out"
    by blast
  then obtain x where x: "x \<in> set (slice_ids ss) - set out"
    and least: "\<And>y. (y, x) \<in> depends ss \<Longrightarrow> y \<notin> set (slice_ids ss) - set out"
    using wfE_min [OF finite_acyclic_wf [OF finite_depends assms(1)]] by metis
  from x K have "pending ss out x \<noteq> 0"
    by auto
  then obtain d where "(d, x) \<in> depends ss" "d \<notin> set out"
    using pending_pos by blast
  moreover from this(1) have "d \<in> set (slice_ids ss)"
    by (auto simp: depends_def slice_ids_def)
  ultimately show False
    using least by blast
qed

lemma by_id_distinct: "distinct (map sl_id ss) \<Longrightarrow> s \<in> set ss \<Longrightarrow> by_id ss (sl_id s) = Some s"
  by (metis by_id_None by_id_Some distinct_map image_eqI inj_onD not_None_eq)

lemma topological_sort_Inr:
  "topological_sort ss = Inr res \<longleftrightarrow>
     length (fst (kahn ss)) = length ss \<and> res = map (\<lambda>i. the (by_id ss i)) (fst (kahn ss))"
  by (auto simp: topological_sort_def Let_def)

lemma kahn_full:
  assumes "kahn ss = (out, left)"
  shows "length out = length ss \<longleftrightarrow> distinct (map sl_id ss) \<and> set out = sl_id ` set ss"
proof -
  note K = kahn_result [OF assms]
  have "length out = card (set out)" "set out \<subseteq> sl_id ` set ss"
    using K by (auto simp: distinct_card slice_ids_def)
  moreover have "card (sl_id ` set ss) \<le> length ss"
    by (metis card_length length_map list.set_map)
  moreover have "card (sl_id ` set ss) = length ss \<longleftrightarrow> distinct (map sl_id ss)"
    by (metis card_distinct distinct_card length_map list.set_map)
  ultimately show ?thesis
    by (metis List.finite_set card_mono card_subset_eq finite_imageI le_antisym)
qed

text \<open>
  C18. Slices are ordered by their dependencies: the sort succeeds exactly when all ids differ and
  the dependencies among the slices are acyclic, and then its result is a permutation of the slices
  in which every slice comes after all the slices it depends on.
\<close>

theorem topological_sort_correct:
  "((\<exists>res. topological_sort ss = Inr res) \<longleftrightarrow> distinct (map sl_id ss) \<and> acyclic (depends ss)) \<and>
   (case topological_sort ss of Inl e \<Rightarrow> True
    | Inr res \<Rightarrow> mset res = mset ss \<and>
        list_all (\<lambda>j. list_all (\<lambda>d. d \<in> sl_id ` set (take j res) \<or> d \<notin> sl_id ` set ss) (sl_dependencies (res ! j))) [0..<length res])"
proof -
  obtain out left where k: "kahn ss = (out, left)"
    by force
  note K = kahn_result [OF k] and full = kahn_full [OF k]
  have first: "(\<exists>res. topological_sort ss = Inr res) \<longleftrightarrow> distinct (map sl_id ss) \<and> acyclic (depends ss)"
  proof -
    have "(\<exists>res. topological_sort ss = Inr res) \<longleftrightarrow> length out = length ss"
      by (simp add: topological_sort_Inr k)
    moreover have "set out = sl_id ` set ss \<longleftrightarrow> acyclic (depends ss)"
    proof
      assume "set out = sl_id ` set ss"
      with K show "acyclic (depends ss)"
        by (intro ordered_acyclic [of ss out]) auto
    next
      assume "acyclic (depends ss)"
      from acyclic_complete [OF this k] show "set out = sl_id ` set ss"
        by (simp add: slice_ids_def)
    qed
    ultimately show ?thesis
      by (simp add: full)
  qed
  have second: "mset res = mset ss \<and> (\<forall>j < length res. \<forall>d \<in> set (sl_dependencies (res ! j)).
      d \<in> sl_id ` set ss \<longrightarrow> d \<in> sl_id ` set (take j res))" if "topological_sort ss = Inr res" for res
  proof -
    from that have len: "length out = length ss" and res: "res = map (\<lambda>i. the (by_id ss i)) out"
      by (auto simp: topological_sort_Inr k)
    from len full have d: "distinct (map sl_id ss)" and out: "set out = sl_id ` set ss"
      by auto
    have look: "the (by_id ss i) \<in> set ss \<and> sl_id (the (by_id ss i)) = i" if "i \<in> set out" for i
      using that out by_id_distinct [OF d] by force
    have ids: "map sl_id res = out"
      using look by (auto simp: res intro: map_idI)
    have "set res = set ss"
      using out by_id_distinct [OF d] by (force simp: res image_image)
    moreover have "distinct res"
      using K ids by (metis distinct_map)
    ultimately have "mset res = mset ss"
      using d set_eq_iff_mset_eq_distinct [of res ss] by (auto simp: distinct_map)
    moreover have "x \<in> sl_id ` set (take j res)"
      if "j < length res" "x \<in> set (sl_dependencies (res ! j))" "x \<in> sl_id ` set ss" for j x
    proof -
      have "res ! j \<in> set ss" "sl_id (res ! j) = out ! j"
        using nth_mem [OF that(1)] \<open>set res = set ss\<close> arg_cong [OF ids, of "\<lambda>l. l ! j"] that(1) by simp_all
      with that have "(x, out ! j) \<in> depends ss"
        unfolding depends_def by (intro CollectI exI [of _ x] exI [of _ "res ! j"]) auto
      with K that(1) have "x \<in> set (take j out)"
        by (auto simp: ordered_def res)
      then show ?thesis
        by (simp add: ids [symmetric] take_map)
    qed
    ultimately show ?thesis by blast
  qed
  show ?thesis
  proof (intro conjI first)
    show "case topological_sort ss of Inl e \<Rightarrow> True | Inr res \<Rightarrow> mset res = mset ss \<and>
        list_all (\<lambda>j. list_all (\<lambda>d. d \<in> sl_id ` set (take j res) \<or> d \<notin> sl_id ` set ss) (sl_dependencies (res ! j))) [0..<length res]"
    proof (cases "topological_sort ss")
      case (Inr res)
      from second [OF Inr] have perm: "mset res = mset ss" and
        before: "\<And>j d. j < length res \<Longrightarrow> d \<in> set (sl_dependencies (res ! j)) \<Longrightarrow> d \<in> sl_id ` set ss \<Longrightarrow> d \<in> sl_id ` set (take j res)"
        by blast+
      show ?thesis
        unfolding Inr sum.case list_all_iff by (intro conjI ballI perm) (use before in force)
    qed simp
  qed
qed

definition sample_slice :: "string \<Rightarrow> string list \<Rightarrow> slice" where
  "sample_slice i ds = \<lparr>sl_id = i, sl_title = i, sl_description = [], sl_layers = [], sl_classification = ''AFK'',
     sl_dependencies = ds, sl_priority = 1\<rparr>"

lemma sample_sorted:
  "topological_sort [sample_slice ''c'' [''b'', ''x''], sample_slice ''a'' [], sample_slice ''b'' [''a'']] =
     Inr [sample_slice ''a'' [], sample_slice ''b'' [''a''], sample_slice ''c'' [''b'', ''x'']]"
  by code_simp

theorem topological_sort_correct_witness:
  "acyclic (depends [sample_slice ''c'' [''b'', ''x''], sample_slice ''a'' [], sample_slice ''b'' [''a'']])"
  using topological_sort_correct [of "[sample_slice ''c'' [''b'', ''x''], sample_slice ''a'' [], sample_slice ''b'' [''a'']]"]
  by (simp add: sample_sorted)

text \<open>Two slices with one title have one id, and are reported as a circular dependency.\<close>

lemma equal_titles_circular:
  "topological_sort [sample_slice ''a'' [], sample_slice ''a'' []] = Inl CircularDependency"
  by code_simp

end
