(* ===== verification/Sop_Engine.thy ===== *)
theory Sop_Engine
  imports Prelude
begin

text \<open>
  The engine of standard operating procedures (\<open>internal/automation/sop.go\<close>, with the types of
  \<open>automation.go\<close> and the upsert of \<open>store.go\<close>).

  \<open>so_sops\<close>, \<open>so_running\<close>, \<open>so_pending\<close> and \<open>so_load_err\<close> are the fields of \<open>SOPEngine\<close>; \<open>so_rows\<close> is
  the table behind its store, which survives a crash of the process.  Every critical section of the
  code is one function; a goroutine inside \<open>Execute\<close> or \<open>Resume\<close> is a thread whose \<open>sop_phase\<close> tells
  where between two critical sections it is, and \<open>sop_step\<close> interleaves the threads, the other calls
  and crashes.  \<open>so_log\<close> is no state of the code: it records when an action starts and which outcome
  the engine learns.  \<open>cloneSOP\<close> separates pointers and is the identity on values.
\<close>

subsection \<open>Data\<close>

datatype sop_mode = ModeAuto | ModeSupervised | ModeStepByStep | ModePriority | ModeDeterministic | ModeOther int

datatype step_status = StepPending | StepRunning | StepDone | StepFailed | StepSkipped | StepWaiting | StepOther string

datatype sop_status = SopActive | SopRunning | SopPaused | SopCompleted | SopFailed | SopCancelled | SopDegraded
  | SopOther string

record sop_step_rec =
  stp_id :: string
  stp_name :: string
  stp_description :: string
  stp_action :: string
  stp_priority :: int
  stp_status :: step_status
  stp_output :: string
  stp_error :: string
  stp_approval :: bool
  stp_timeout :: int

record sop =
  sop_id :: string
  sop_name :: string
  sop_description :: string
  sop_mode_of :: sop_mode
  sop_steps :: "sop_step_rec list"
  sop_status_of :: sop_status
  sop_current :: int
  sop_created :: "int option"
  sop_updated :: "int option"
  sop_metadata :: "(string \<times> string) list"
  sop_persist_error :: string

datatype sop_error = SopPersistence string string | SopLoad string | SopUncertain string | SopNotFound string
  | SopExists string | SopInvalid string | SopNoSteps string | SopStepWaiting string | SopContext string
  | SopStepFailed string string

datatype sop_phase = Ordering | AtStep "nat list" string | Acting nat "nat list" | Leaving "sop_error list" | Panicked

datatype sop_event = ActionStarted string nat string | ActionEnded string nat bool

record sop_engine =
  so_sops :: "string \<Rightarrow> sop option"
  so_running :: "string set"
  so_pending :: "string \<Rightarrow> sop option"
  so_load_err :: "sop_error option"
  so_store :: bool
  so_rows :: "string \<Rightarrow> sop option"
  so_threads :: "nat \<Rightarrow> (string \<times> sop_phase) option"
  so_log :: "sop_event list"

subsection \<open>The store\<close>

text \<open>
  A call of \<open>SaveSOP\<close> succeeds, or fails with a text; when it fails, the row may be written all the same, because
  the connection can be lost after the commit.  The row has no persistence error; on a conflict the
  creation time stays.
\<close>

datatype save_result = Saved | Lost string | SavedButLost string

definition upsert_sop :: "sop \<Rightarrow> (string \<Rightarrow> sop option) \<Rightarrow> string \<Rightarrow> sop option" where
  "upsert_sop x rows = rows(sop_id x \<mapsto> x\<lparr>sop_persist_error := [],
     sop_created := (case rows (sop_id x) of None \<Rightarrow> sop_created x | Some old \<Rightarrow> sop_created old)\<rparr>)"

definition stamp :: "int \<Rightarrow> sop \<Rightarrow> sop" where
  "stamp now x = x\<lparr>sop_updated := Some now, sop_created := (case sop_created x of None \<Rightarrow> Some now | t \<Rightarrow> t)\<rparr>"

definition commit_locked :: "save_result \<Rightarrow> int \<Rightarrow> sop \<Rightarrow> sop_engine \<Rightarrow> sop_error option \<times> sop_engine" where
  "commit_locked w now x s =
    (if \<not> so_store s then (None, s\<lparr>so_sops := (so_sops s)(sop_id x \<mapsto> x\<lparr>sop_updated := Some now\<rparr>)\<rparr>)
     else let next = stamp now x in
       case w of
         Lost t \<Rightarrow> (Some (SopPersistence (sop_id x) t), s)
       | SavedButLost t \<Rightarrow> (Some (SopPersistence (sop_id x) t), s\<lparr>so_rows := upsert_sop next (so_rows s)\<rparr>)
       | Saved \<Rightarrow> (None, s\<lparr>so_rows := upsert_sop next (so_rows s), so_sops := (so_sops s)(sop_id x \<mapsto> next)\<rparr>))"

definition persistence_text :: "sop_error \<Rightarrow> string" where
  "persistence_text e = (case e of
     SopPersistence i t \<Rightarrow> ''automation: SOP persistence failed: SOP '' @ i @ '': '' @ t
   | _ \<Rightarrow> [])"

definition uncertain_text :: string where
  "uncertain_text = ''automation: SOP step outcome requires reconciliation''"

subsection \<open>Starting the engine\<close>

definition has_running :: "sop \<Rightarrow> bool" where
  "has_running x = list_ex (\<lambda>st. stp_status st = StepRunning) (sop_steps x)"

definition recovered :: "sop \<Rightarrow> sop" where
  "recovered x = (if has_running x then x\<lparr>sop_status_of := SopDegraded, sop_persist_error := uncertain_text\<rparr> else x)"

text \<open>
  \<open>NewSOPEngine\<close> after a crash: the memory and the threads are gone, the rows are loaded or the load
  fails with an error that every later operation reports.
\<close>

definition new_sop_engine :: "string option \<Rightarrow> sop_engine \<Rightarrow> sop_engine" where
  "new_sop_engine failure s = s\<lparr>so_running := {}, so_pending := Map.empty, so_threads := (\<lambda>_. None),
     so_sops := (if so_store s \<and> failure = None then (\<lambda>i. map_option recovered (so_rows s i)) else Map.empty),
     so_load_err := (if so_store s then map_option SopLoad failure else None)\<rparr>"

subsection \<open>Creating and running\<close>

definition create_sop :: "save_result \<Rightarrow> int \<Rightarrow> sop option \<Rightarrow> sop_engine \<Rightarrow> sop_error option \<times> sop_engine" where
  "create_sop w now arg s =
    (case so_load_err s of Some e \<Rightarrow> (Some e, s) | None \<Rightarrow>
       (case arg of None \<Rightarrow> (Some (SopInvalid []), s) | Some x \<Rightarrow>
          if so_sops s (sop_id x) \<noteq> None then (Some (SopExists (sop_id x)), s)
          else commit_locked w now (x\<lparr>sop_created := Some now, sop_status_of := SopActive, sop_current := 0,
                 sop_persist_error := [],
                 sop_steps := map (\<lambda>st. if stp_status st = StepOther [] then st\<lparr>stp_status := StepPending\<rparr> else st) (sop_steps x)\<rparr>) s))"

definition begin_locked :: "string \<Rightarrow> sop_engine \<Rightarrow> sop_error + sop_engine" where
  "begin_locked i s =
    (case so_load_err s of Some e \<Rightarrow> Inl e | None \<Rightarrow>
       (case so_sops s i of
          None \<Rightarrow> Inl (SopNotFound i)
        | Some x \<Rightarrow>
            if i \<in> so_running s \<or> sop_status_of x \<noteq> SopActive then Inl (SopInvalid i)
            else if sop_steps x = [] then Inl (SopNoSteps i)
            else if has_running x then Inl (SopUncertain i)
            else Inr (s\<lparr>so_running := insert i (so_running s)\<rparr>)))"

definition end_execution :: "string \<Rightarrow> sop_engine \<Rightarrow> sop_engine" where
  "end_execution i s = s\<lparr>so_running := so_running s - {i}\<rparr>"

definition step_order :: "sop \<Rightarrow> nat list" where
  "step_order x =
    (if sop_mode_of x = ModePriority then sort_key (\<lambda>k. stp_priority (sop_steps x ! k)) [0..<length (sop_steps x)]
     else [0..<length (sop_steps x)])"

definition set_step :: "nat \<Rightarrow> (sop_step_rec \<Rightarrow> sop_step_rec) \<Rightarrow> sop \<Rightarrow> sop" where
  "set_step k f x = x\<lparr>sop_steps := (sop_steps x)[k := f (sop_steps x ! k)]\<rparr>"

definition needs_approval :: "sop \<Rightarrow> sop_step_rec \<Rightarrow> bool" where
  "needs_approval x st =
    (if sop_mode_of x = ModeStepByStep then True
     else (sop_mode_of x = ModeSupervised \<or> sop_mode_of x = ModeStepByStep) \<and> stp_approval st)"

definition log_event :: "sop_event \<Rightarrow> sop_engine \<Rightarrow> sop_engine" where
  "log_event e s = s\<lparr>so_log := so_log s @ [e]\<rparr>"

text \<open>
  The part of one round of \<open>executeSteps\<close> before the action, which holds the lock from its first line
  on; \<open>dead\<close> says whether the context has ended.  A missing entry and an index out of range panic.
\<close>

definition run_round :: "save_result \<Rightarrow> int \<Rightarrow> bool \<Rightarrow> string \<Rightarrow> nat \<Rightarrow> nat list \<Rightarrow> string \<Rightarrow> sop_engine
    \<Rightarrow> sop_phase \<times> sop_engine" where
  "run_round w now dead i k rest prev s =
    (case so_sops s i of None \<Rightarrow> (Panicked, s) | Some x \<Rightarrow>
       if sop_status_of x = SopCancelled \<or> sop_status_of x = SopPaused then (Leaving [], s)
       else if dead then
         (case commit_locked w now (x\<lparr>sop_status_of := SopFailed\<rparr>) s of
            (e, s') \<Rightarrow> (Leaving (SopContext i # (case e of None \<Rightarrow> [] | Some err \<Rightarrow> [err])), s'))
       else if length (sop_steps x) \<le> k then (Panicked, s)
       else let st = sop_steps x ! k in
         if stp_status st = StepDone then (AtStep rest (stp_output st), s)
         else if stp_status st = StepSkipped then (AtStep rest prev, s)
         else if stp_status st = StepRunning then (Leaving [SopUncertain i], s)
         else let next = x\<lparr>sop_current := int k\<rparr> in
           if needs_approval x st then
             (case commit_locked w now (set_step k (\<lambda>st. st\<lparr>stp_status := StepWaiting\<rparr>) next) s of
                (Some err, s') \<Rightarrow> (Leaving [err], s')
              | (None, s') \<Rightarrow> (Leaving [SopStepWaiting (stp_id st)], s'))
           else
             (case commit_locked w now (set_step k (\<lambda>st. st\<lparr>stp_status := StepRunning\<rparr>) next) s of
                (Some err, s') \<Rightarrow> (Leaving [err], s')
              | (None, s') \<Rightarrow>
                  (Acting k rest, log_event (ActionStarted i k
                     (if sop_mode_of x = ModeDeterministic \<and> k > 0 \<and> prev \<noteq> [] then prev else stp_action st)) s')))"

definition degrade_locked :: "sop \<Rightarrow> sop_error \<Rightarrow> sop_engine \<Rightarrow> sop_engine" where
  "degrade_locked x e s = s\<lparr>so_pending := (so_pending s)(sop_id x \<mapsto> x),
     so_sops := (so_sops s)(sop_id x \<mapsto> x\<lparr>sop_status_of := SopDegraded, sop_persist_error := persistence_text e\<rparr>)\<rparr>"

text \<open>The part after the action, \<open>Inl\<close> being the error of the executor.\<close>

definition settled :: "nat \<Rightarrow> string + string \<Rightarrow> sop \<Rightarrow> sop" where
  "settled k res x = (case res of
     Inl err \<Rightarrow>
       (let y = set_step k (\<lambda>st. st\<lparr>stp_status := StepFailed, stp_error := err\<rparr>) x
        in if sop_status_of y = SopActive then y\<lparr>sop_status_of := SopFailed\<rparr> else y)
   | Inr output \<Rightarrow> set_step k (\<lambda>st. st\<lparr>stp_status := StepDone, stp_output := output, stp_error := []\<rparr>) x)"

definition record_outcome :: "save_result \<Rightarrow> int \<Rightarrow> string \<Rightarrow> nat \<Rightarrow> nat list \<Rightarrow> string + string \<Rightarrow> sop_engine
    \<Rightarrow> sop_phase \<times> sop_engine" where
  "record_outcome w now i k rest res s =
    (case so_sops s i of None \<Rightarrow> (Panicked, s) | Some x \<Rightarrow>
       if length (sop_steps x) \<le> k then (Panicked, s)
       else let next = settled k res x in
         (case commit_locked w now next (log_event (ActionEnded i k (\<not> isl res)) s) of
            (e, s') \<Rightarrow>
              let s'' = (case e of None \<Rightarrow> s' | Some err \<Rightarrow> degrade_locked next err s');
                  errs = (case e of None \<Rightarrow> [] | Some err \<Rightarrow> [err])
              in (case res of
                    Inl msg \<Rightarrow> (Leaving (SopStepFailed i msg # errs), s'')
                  | Inr output \<Rightarrow> (if errs = [] then AtStep rest output else Leaving errs, s''))))"

text \<open>The end of \<open>executeSteps\<close>, after the last round.\<close>

definition complete_run :: "save_result \<Rightarrow> int \<Rightarrow> string \<Rightarrow> sop_engine \<Rightarrow> sop_phase \<times> sop_engine" where
  "complete_run w now i s =
    (case so_sops s i of None \<Rightarrow> (Panicked, s) | Some x \<Rightarrow>
       if sop_status_of x = SopCancelled \<or> sop_status_of x = SopPaused then (Leaving [], s)
       else let next = x\<lparr>sop_status_of := SopCompleted\<rparr> in
         (case commit_locked w now next s of
            (None, s') \<Rightarrow> (Leaving [], s')
          | (Some err, s') \<Rightarrow> (Leaving [err], degrade_locked next err s')))"

subsection \<open>Other operations\<close>

definition retry_persistence :: "save_result \<Rightarrow> int \<Rightarrow> string \<Rightarrow> sop_engine \<Rightarrow> sop_error option \<times> sop_engine" where
  "retry_persistence w now i s =
    (case so_load_err s of Some e \<Rightarrow> (Some e, s) | None \<Rightarrow>
       if i \<in> so_running s then (Some (SopInvalid i), s)
       else (case so_pending s i of
           None \<Rightarrow> (Some (if so_sops s i = None then SopNotFound i else SopUncertain i), s)
         | Some next \<Rightarrow>
             (case commit_locked w now next s of
                (Some err, s') \<Rightarrow> (Some err, degrade_locked next err s')
              | (None, s') \<Rightarrow> (None, s'\<lparr>so_pending := (so_pending s')(i := None)\<rparr>))))"

fun first_step :: "string \<Rightarrow> sop_step_rec list \<Rightarrow> nat option" where
  "first_step i [] = None"
| "first_step i (st # sts) = (if stp_id st = i then Some 0 else map_option Suc (first_step i sts))"

definition approve_step :: "save_result \<Rightarrow> int \<Rightarrow> string \<Rightarrow> string \<Rightarrow> sop_engine \<Rightarrow> sop_error option \<times> sop_engine" where
  "approve_step w now i step_id s =
    (case so_load_err s of Some e \<Rightarrow> (Some e, s) | None \<Rightarrow>
       (case so_sops s i of None \<Rightarrow> (Some (SopNotFound i), s) | Some x \<Rightarrow>
          if sop_status_of x \<noteq> SopActive \<or> i \<in> so_running s then (Some (SopInvalid i), s)
          else (case first_step step_id (sop_steps x) of
              None \<Rightarrow> (Some (SopNotFound step_id), s)
            | Some k \<Rightarrow>
                if stp_status (sop_steps x ! k) \<noteq> StepWaiting then (Some (SopInvalid step_id), s)
                else commit_locked w now (set_step k (\<lambda>st. st\<lparr>stp_status := StepPending, stp_approval := False\<rparr>) x) s)))"

definition sop_transition :: "save_result \<Rightarrow> int \<Rightarrow> string \<Rightarrow> sop_status \<Rightarrow> bool \<Rightarrow> sop_engine
    \<Rightarrow> sop_error option \<times> sop_engine" where
  "sop_transition w now i st require_active s =
    (case so_load_err s of Some e \<Rightarrow> (Some e, s) | None \<Rightarrow>
       (case so_sops s i of None \<Rightarrow> (Some (SopNotFound i), s) | Some x \<Rightarrow>
          if sop_status_of x = SopDegraded \<or> (require_active \<and> sop_status_of x \<noteq> SopActive) then (Some (SopInvalid i), s)
          else commit_locked w now (x\<lparr>sop_status_of := st\<rparr>) s))"

definition cancel_sop :: "save_result \<Rightarrow> int \<Rightarrow> string \<Rightarrow> sop_engine \<Rightarrow> sop_error option \<times> sop_engine" where
  "cancel_sop w now i = sop_transition w now i SopCancelled False"

definition pause_sop :: "save_result \<Rightarrow> int \<Rightarrow> string \<Rightarrow> sop_engine \<Rightarrow> sop_error option \<times> sop_engine" where
  "pause_sop w now i = sop_transition w now i SopPaused True"

text \<open>\<open>Resume\<close> up to the start of the rounds; \<open>None\<close> means that the execution goes on.\<close>

definition resume_sop :: "save_result \<Rightarrow> int \<Rightarrow> string \<Rightarrow> sop_engine \<Rightarrow> sop_error option \<times> sop_engine" where
  "resume_sop w now i s =
    (case so_load_err s of Some e \<Rightarrow> (Some e, s) | None \<Rightarrow>
       (case so_sops s i of None \<Rightarrow> (Some (SopNotFound i), s) | Some x \<Rightarrow>
          if sop_status_of x \<noteq> SopPaused \<or> i \<in> so_running s then (Some (SopInvalid i), s)
          else if has_running x then (Some (SopUncertain i), s)
          else (case commit_locked w now (x\<lparr>sop_status_of := SopActive\<rparr>) s of
              (Some err, s') \<Rightarrow> (Some err, s')
            | (None, s') \<Rightarrow> (case begin_locked i s' of Inl e \<Rightarrow> (Some e, s') | Inr s'' \<Rightarrow> (None, s'')))))"

subsection \<open>Interleaving\<close>

definition set_thread :: "nat \<Rightarrow> (string \<times> sop_phase) option \<Rightarrow> sop_engine \<Rightarrow> sop_engine" where
  "set_thread t p s = s\<lparr>so_threads := (so_threads s)(t := p)\<rparr>"

inductive sop_step :: "sop_engine \<Rightarrow> sop_engine \<Rightarrow> bool" where
  create: "create_sop w now x s = (e, s') \<Longrightarrow> sop_step s s'"
| execute: "begin_locked i s = Inr s' \<Longrightarrow> so_threads s t = None \<Longrightarrow> sop_step s (set_thread t (Some (i, Ordering)) s')"
| resume: "resume_sop w now i s = (None, s') \<Longrightarrow> so_threads s t = None \<Longrightarrow> sop_step s (set_thread t (Some (i, Ordering)) s')"
| resume_fails: "resume_sop w now i s = (Some e, s') \<Longrightarrow> sop_step s s'"
| order: "so_threads s t = Some (i, Ordering) \<Longrightarrow>
    sop_step s (set_thread t (Some (i, (case so_sops s i of None \<Rightarrow> Panicked | Some x \<Rightarrow> AtStep (step_order x) []))) s)"
| round: "so_threads s t = Some (i, AtStep (k # rest) prev) \<Longrightarrow> run_round w now dead i k rest prev s = (p, s') \<Longrightarrow>
    sop_step s (set_thread t (Some (i, p)) s')"
| outcome: "so_threads s t = Some (i, Acting k rest) \<Longrightarrow> record_outcome w now i k rest res s = (p, s') \<Longrightarrow>
    sop_step s (set_thread t (Some (i, p)) s')"
| complete: "so_threads s t = Some (i, AtStep [] prev) \<Longrightarrow> complete_run w now i s = (p, s') \<Longrightarrow>
    sop_step s (set_thread t (Some (i, p)) s')"
| leave: "so_threads s t = Some (i, Leaving errs) \<Longrightarrow> sop_step s (set_thread t None (end_execution i s))"
| retry: "retry_persistence w now i s = (e, s') \<Longrightarrow> sop_step s s'"
| approve: "approve_step w now i st s = (e, s') \<Longrightarrow> sop_step s s'"
| cancel: "cancel_sop w now i s = (e, s') \<Longrightarrow> sop_step s s'"
| pause: "pause_sop w now i s = (e, s') \<Longrightarrow> sop_step s s'"
| crash: "sop_step s (new_sop_engine failure s)"

definition empty_sop_engine :: "(string \<Rightarrow> sop option) \<Rightarrow> sop_engine" where
  "empty_sop_engine rows = \<lparr>so_sops = Map.empty, so_running = {}, so_pending = Map.empty, so_load_err = None,
     so_store = True, so_rows = rows, so_threads = (\<lambda>_. None), so_log = []\<rparr>"

text \<open>The daemon gives the engine a store, whose table may hold rows of earlier runs.\<close>

inductive sop_reachable :: "sop_engine \<Rightarrow> bool" where
  start: "(\<forall>i x. rows i = Some x \<longrightarrow> sop_id x = i) \<Longrightarrow> sop_reachable (new_sop_engine failure (empty_sop_engine rows))"
| step: "sop_reachable s \<Longrightarrow> sop_step s s' \<Longrightarrow> sop_reachable s'"

end
