(* ===== verification/Sop_Engine_Inv.thy ===== *)
theory Sop_Engine_Inv
  imports Sop_Engine
begin

text \<open>
  The invariant of the engine of standard procedures: \<open>records\<close> ties the log of actions to what the
  memory and the rows say of the steps, \<open>thread_ok\<close> says what a thread in each phase may rely on.
\<close>

subsection \<open>The log\<close>

fun about :: "string \<Rightarrow> nat \<Rightarrow> sop_event \<Rightarrow> bool" where
  "about i k (ActionStarted j l a) = (i = j \<and> k = l)"
| "about i k (ActionEnded j l ok) = (i = j \<and> k = l)"

definition last_about :: "string \<Rightarrow> nat \<Rightarrow> sop_event list \<Rightarrow> sop_event option" where
  "last_about i k log = find (about i k) (rev log)"

lemma last_about_Nil [simp]: "last_about i k [] = None"
  by (simp add: last_about_def)

lemma last_about_snoc [simp]: "last_about i k (log @ [e]) = (if about i k e then Some e else last_about i k log)"
  by (simp add: last_about_def)

lemma last_about_append:
  "last_about i k (xs @ ys) = (case last_about i k ys of None \<Rightarrow> last_about i k xs | Some e \<Rightarrow> Some e)"
  by (simp add: last_about_def find_append split: option.split)

lemma last_about_Cons:
  "last_about i k (e # ys) = (case last_about i k ys of None \<Rightarrow> if about i k e then Some e else None | Some x \<Rightarrow> Some x)"
  using last_about_append [of i k "[e]" ys] last_about_snoc [of i k "[]" e] by (simp split: option.splits)

fun fits :: "sop_event \<Rightarrow> nat \<Rightarrow> sop option \<Rightarrow> bool" where
  "fits (ActionStarted i l a) k (Some x) \<longleftrightarrow> k < length (sop_steps x) \<and> stp_status (sop_steps x ! k) = StepRunning"
| "fits (ActionEnded i l True) k (Some x) \<longleftrightarrow>
     k < length (sop_steps x) \<and> stp_status (sop_steps x ! k) \<in> {StepRunning, StepDone}"
| "fits (ActionEnded i l False) k m \<longleftrightarrow> True"
| "fits e k None \<longleftrightarrow> False"

definition started_sops :: "sop_event list \<Rightarrow> string set" where
  "started_sops log = {i. \<exists>k a. ActionStarted i k a \<in> set log}"

definition records :: "sop_event list \<Rightarrow> string \<Rightarrow> sop option \<Rightarrow> bool" where
  "records log i m \<longleftrightarrow> (\<forall>k e. last_about i k log = Some e \<longrightarrow> fits e k m) \<and>
     (i \<in> started_sops log \<longrightarrow> (\<exists>x. m = Some x \<and> sop_mode_of x \<noteq> ModeStepByStep))"

definition alike :: "sop \<Rightarrow> sop \<Rightarrow> bool" where
  "alike x y \<longleftrightarrow> sop_id x = sop_id y \<and> sop_steps x = sop_steps y \<and> sop_mode_of x = sop_mode_of y \<and>
     sop_status_of x = sop_status_of y"

lemma fits_steps: "sop_steps x = sop_steps y \<Longrightarrow> fits e k (Some x) = fits e k (Some y)"
  by (cases e) (auto split: bool.splits elim!: fits.elims)

lemma records_same:
  "sop_steps x = sop_steps y \<Longrightarrow> sop_mode_of x = sop_mode_of y \<Longrightarrow> records log i (Some x) = records log i (Some y)"
  by (simp add: records_def fits_steps [of x y])

lemma records_none: "records log i None \<Longrightarrow> records log i (Some x)"
proof -
  assume r: "records log i None"
  then have "i \<notin> started_sops log" by (simp add: records_def)
  moreover have "fits e k (Some x)" if "last_about i k log = Some e" for k e
  proof -
    from that r have "fits e k None" by (simp add: records_def)
    then show ?thesis by (cases "(e, k, None :: sop option)" rule: fits.cases) auto
  qed
  ultimately show ?thesis by (simp add: records_def)
qed

lemma started_sops_snoc [simp]:
  "started_sops (log @ [ActionStarted i k a]) = insert i (started_sops log)"
  "started_sops (log @ [ActionEnded i k ok]) = started_sops log"
  by (auto simp: started_sops_def)

definition spent :: "sop_event option \<Rightarrow> bool" where
  "spent e = (case e of Some (ActionStarted i k a) \<Rightarrow> True | Some (ActionEnded i k True) \<Rightarrow> True | _ \<Rightarrow> False)"

definition trace_ok :: "sop_event list \<Rightarrow> bool" where
  "trace_ok log \<longleftrightarrow> (\<forall>xs i k a ys. log = xs @ ActionStarted i k a # ys \<longrightarrow> \<not> spent (last_about i k xs))"

lemma snoc_split:
  "log @ [e] = xs @ y # ys \<longleftrightarrow> ys = [] \<and> xs = log \<and> e = y \<or> (\<exists>zs. ys = zs @ [e] \<and> log = xs @ y # zs)"
  by (cases ys rule: rev_cases) auto

lemma trace_ok_snoc:
  "trace_ok (log @ [e]) \<longleftrightarrow> trace_ok log \<and> (\<forall>i k a. e = ActionStarted i k a \<longrightarrow> \<not> spent (last_about i k log))"
  unfolding trace_ok_def snoc_split by blast

subsection \<open>The invariant\<close>

fun thread_ok :: "sop_engine \<Rightarrow> string \<Rightarrow> sop_phase \<Rightarrow> bool" where
  "thread_ok s i Panicked \<longleftrightarrow> False"
| "thread_ok s i (Leaving errs) \<longleftrightarrow> True"
| "thread_ok s i ph \<longleftrightarrow> so_load_err s = None \<and>
     (\<exists>x. so_sops s i = Some x \<and> sop_status_of x \<noteq> SopDegraded \<and>
       (case ph of
          AtStep ks prev \<Rightarrow> \<forall>k \<in> set ks. k < length (sop_steps x)
        | Acting k ks \<Rightarrow> (\<forall>k \<in> set ks. k < length (sop_steps x)) \<and> (\<exists>a. last_about i k (so_log s) = Some (ActionStarted i k a))
        | _ \<Rightarrow> True))"

definition threads_ok :: "sop_engine \<Rightarrow> bool" where
  "threads_ok s \<longleftrightarrow>
     (\<forall>t i ph. so_threads s t = Some (i, ph) \<longrightarrow> i \<in> so_running s \<and> thread_ok s i ph) \<and>
     (\<forall>t u i ph qh. so_threads s t = Some (i, ph) \<longrightarrow> so_threads s u = Some (i, qh) \<longrightarrow> t = u)"

definition entries_ok :: "sop_engine \<Rightarrow> bool" where
  "entries_ok s \<longleftrightarrow> so_store s \<and>
     (\<forall>i x. so_sops s i = Some x \<longrightarrow> sop_id x = i) \<and> (\<forall>i x. so_rows s i = Some x \<longrightarrow> sop_id x = i) \<and>
     (\<forall>i p. so_pending s i = Some p \<longrightarrow> sop_id p = i \<and> (\<exists>x. so_sops s i = Some x \<and> sop_status_of x = SopDegraded \<and>
        sop_steps x = sop_steps p \<and> sop_mode_of x = sop_mode_of p))"

definition log_ok :: "sop_engine \<Rightarrow> bool" where
  "log_ok s \<longleftrightarrow> trace_ok (so_log s) \<and>
     (\<forall>i. records (so_log s) i (so_rows s i) \<and> (so_load_err s = None \<longrightarrow> records (so_log s) i (so_sops s i)))"

definition sop_inv :: "sop_engine \<Rightarrow> bool" where
  "sop_inv s \<longleftrightarrow> entries_ok s \<and> log_ok s \<and> threads_ok s"

subsection \<open>Writing\<close>

lemma commit_cases:
  assumes "commit_locked w now y s = (e, s')" and "so_store s"
  obtains (saved) row mem where "e = None" "alike y row" "alike y mem"
      "s' = s\<lparr>so_rows := (so_rows s)(sop_id y \<mapsto> row), so_sops := (so_sops s)(sop_id y \<mapsto> mem)\<rparr>"
  | (lost) err where "e = Some err" "s' = s"
  | (half) err row where "e = Some err" "alike y row" "s' = s\<lparr>so_rows := (so_rows s)(sop_id y \<mapsto> row)\<rparr>"
proof -
  define row where "row = the (upsert_sop (stamp now y) (so_rows s) (sop_id y))"
  have up: "upsert_sop (stamp now y) (so_rows s) = (so_rows s)(sop_id y \<mapsto> row)"
    and alike: "alike y row" "alike y (stamp now y)"
    by (simp_all add: row_def upsert_sop_def stamp_def alike_def)
  show ?thesis
  proof (cases w)
    case Saved
    with assms alike show ?thesis by (intro saved [of row "stamp now y"]) (auto simp: commit_locked_def up Let_def)
  next
    case (Lost t)
    with assms show ?thesis by (intro lost) (auto simp: commit_locked_def Let_def)
  next
    case (SavedButLost t)
    with assms alike show ?thesis by (intro half) (auto simp: commit_locked_def up Let_def)
  qed
qed

lemma records_alike: "alike y x \<Longrightarrow> records log i (Some y) \<Longrightarrow> records log i (Some x)"
  using records_same [of y x] by (simp add: alike_def)

definition quiet :: "sop_engine \<Rightarrow> string \<Rightarrow> bool" where
  "quiet s i \<longleftrightarrow> (\<forall>t ph. so_threads s t = Some (i, ph) \<longrightarrow> (\<exists>errs. ph = Leaving errs))"

definition writable :: "sop_engine \<Rightarrow> sop \<Rightarrow> bool" where
  "writable s y \<longleftrightarrow> so_load_err s = None \<and> so_pending s (sop_id y) = None \<and> records (so_log s) (sop_id y) (Some y) \<and>
     (quiet s (sop_id y) \<or> sop_status_of y \<noteq> SopDegraded \<and>
        (\<exists>x. so_sops s (sop_id y) = Some x \<and> length (sop_steps x) = length (sop_steps y)))"

lemma entries_put:
  assumes "entries_ok s" and "alike y row" "alike y mem" and "so_pending s (sop_id y) = None"
  shows "entries_ok (s\<lparr>so_rows := (so_rows s)(sop_id y \<mapsto> row)\<rparr>)"
    and "entries_ok (s\<lparr>so_rows := (so_rows s)(sop_id y \<mapsto> row), so_sops := (so_sops s)(sop_id y \<mapsto> mem)\<rparr>)"
  using assms by (auto simp: entries_ok_def alike_def)

lemma log_put:
  assumes "log_ok s" and "alike y row" "alike y mem" and "records (so_log s) (sop_id y) (Some y)"
  shows "log_ok (s\<lparr>so_rows := (so_rows s)(sop_id y \<mapsto> row)\<rparr>)"
    and "log_ok (s\<lparr>so_rows := (so_rows s)(sop_id y \<mapsto> row), so_sops := (so_sops s)(sop_id y \<mapsto> mem)\<rparr>)"
  using assms by (auto simp: log_ok_def intro: records_alike)

lemma thread_ok_frame:
  assumes "so_load_err s' = so_load_err s" and "so_log s' = so_log s"
    and "\<And>x. so_sops s i = Some x \<Longrightarrow> sop_status_of x \<noteq> SopDegraded \<Longrightarrow> \<exists>y. so_sops s' i = Some y \<and> sop_status_of y \<noteq> SopDegraded \<and>
      length (sop_steps y) = length (sop_steps x)"
    and "thread_ok s i ph"
  shows "thread_ok s' i ph"
proof (cases ph)
  case (AtStep ks prev)
  with assms(4) obtain x where "so_sops s i = Some x" "sop_status_of x \<noteq> SopDegraded" by auto
  with assms AtStep show ?thesis using assms(3) [of x] by fastforce
next
  case (Acting k ks)
  with assms(4) obtain x where "so_sops s i = Some x" "sop_status_of x \<noteq> SopDegraded" by auto
  with assms Acting show ?thesis using assms(3) [of x] by fastforce
qed (use assms in auto)

lemma threads_put:
  assumes "threads_ok s" and "writable s y" and "alike y mem"
  shows "threads_ok (s\<lparr>so_rows := rows, so_sops := (so_sops s)(sop_id y \<mapsto> mem)\<rparr>)"
proof -
  let ?s = "s\<lparr>so_rows := rows, so_sops := (so_sops s)(sop_id y \<mapsto> mem)\<rparr>"
  have "thread_ok ?s i ph" if t: "so_threads s t = Some (i, ph)" for t i ph
  proof (cases "i = sop_id y \<and> quiet s i")
    case True
    with t obtain errs where "ph = Leaving errs" by (auto simp: quiet_def)
    then show ?thesis by simp
  next
    case False
    from assms(1) t have "thread_ok s i ph" by (auto simp: threads_ok_def)
    then show ?thesis
      by (rule thread_ok_frame [rotated 3]) (use False assms(2,3) in \<open>auto simp: writable_def alike_def\<close>)
  qed
  with assms(1) show ?thesis by (auto simp: threads_ok_def)
qed

lemma thread_ok_rows [simp]: "thread_ok (s\<lparr>so_rows := rows\<rparr>) i ph = thread_ok s i ph"
  by (cases ph) auto

lemma commit_inv:
  assumes "sop_inv s" and "writable s y" and "commit_locked w now y s = (e, s')"
  shows "sop_inv s'"
proof -
  from assms(1) have "so_store s" by (simp add: sop_inv_def entries_ok_def)
  with assms(3) show ?thesis
  proof (cases rule: commit_cases)
    case (saved row mem)
    then show ?thesis
      using assms(1,2) entries_put [of s y row mem] log_put [of s y row mem] threads_put [of s y mem]
      by (simp add: sop_inv_def writable_def)
  next
    case lost
    with assms(1) show ?thesis by simp
  next
    case (half err row)
    then show ?thesis
      using assms(1,2) entries_put [of s y row row] log_put [of s y row row]
      by (simp add: sop_inv_def writable_def threads_ok_def)
  qed
qed

lemma commit_keeps:
  assumes "commit_locked w now y s = (e, s')"
  shows "so_threads s' = so_threads s" "so_log s' = so_log s" "so_running s' = so_running s" "so_pending s' = so_pending s"
    "so_load_err s' = so_load_err s" "so_store s' = so_store s" "i \<noteq> sop_id y \<Longrightarrow> so_sops s' i = so_sops s i"
    "i \<noteq> sop_id y \<Longrightarrow> so_rows s' i = so_rows s i" "e = None \<Longrightarrow> so_store s \<Longrightarrow> \<exists>z. so_sops s' (sop_id y) = Some z \<and> alike y z"
    "e = None \<Longrightarrow> so_store s \<Longrightarrow> \<exists>z. so_rows s' (sop_id y) = Some z \<and> alike y z"
    "e \<noteq> None \<Longrightarrow> so_sops s' = so_sops s"
  using assms
  by (auto simp: commit_locked_def Let_def upsert_sop_def stamp_def alike_def split: save_result.splits if_splits)

lemma set_step_simps [simp]:
  "sop_id (set_step k f x) = sop_id x" "sop_mode_of (set_step k f x) = sop_mode_of x"
  "sop_status_of (set_step k f x) = sop_status_of x" "length (sop_steps (set_step k f x)) = length (sop_steps x)"
  "sop_steps (set_step k f x) = (sop_steps x)[k := f (sop_steps x ! k)]"
  by (simp_all add: set_step_def)

lemma not_spent_fits: "\<not> spent (Some e) \<Longrightarrow> fits e k m"
  by (cases "(e, k, m)" rule: fits.cases) (auto simp: spent_def)

lemma spent_fits: "spent (Some e) \<Longrightarrow> fits e k (Some x) \<Longrightarrow> k < length (sop_steps x) \<and> stp_status (sop_steps x ! k) \<in> {StepRunning, StepDone}"
  by (cases "(e, k, Some x)" rule: fits.cases) (auto simp: spent_def)

lemma last_about_about: "last_about i k log = Some e \<Longrightarrow> about i k e"
  by (auto simp: last_about_def find_Some_iff)

lemma fits_other: "length (sop_steps x) = length (sop_steps y) \<Longrightarrow> sop_steps x ! k = sop_steps y ! k \<Longrightarrow> fits e k (Some x) = fits e k (Some y)"
  by (cases e) (auto split: bool.splits elim!: fits.elims)

lemma records_update:
  assumes "records log i (Some x)" and "\<not> spent (last_about i k log)"
    and "sop_mode_of y = sop_mode_of x" "length (sop_steps y) = length (sop_steps x)"
    and "\<And>l. l \<noteq> k \<Longrightarrow> sop_steps y ! l = sop_steps x ! l"
  shows "records log i (Some y)"
proof -
  have "fits e l (Some y)" if l: "last_about i l log = Some e" for l e
  proof (cases "l = k")
    case True
    with l assms(2) show ?thesis by (simp add: not_spent_fits)
  next
    case False
    from l assms(1) have "fits e l (Some x)" by (simp add: records_def)
    with fits_other [OF assms(4) assms(5) [OF False], of e] show ?thesis by simp
  qed
  with assms(1,3) show ?thesis by (auto simp: records_def)
qed

lemma inv_thread:
  assumes "sop_inv s" and "so_threads s t = Some (i, ph)" and "thread_ok s i qh"
  shows "sop_inv (set_thread t (Some (i, qh)) s)"
proof -
  have same: "thread_ok (set_thread t p s) j ph = thread_ok s j ph" for p j ph
    by (cases ph) (auto simp: set_thread_def)
  have rest: "entries_ok (set_thread t p s) = entries_ok s" "log_ok (set_thread t p s) = log_ok s" for p
    by (simp_all add: set_thread_def entries_ok_def log_ok_def)
  from assms show ?thesis
    unfolding sop_inv_def rest threads_ok_def same
    by (simp add: set_thread_def) metis
qed

lemma thread_ok_log_started: "thread_ok s j ph \<Longrightarrow> thread_ok (log_event (ActionStarted i k a) s) j ph"
  by (cases ph) (auto simp: log_event_def)

lemma inv_log_started:
  assumes "sop_inv s" and "\<not> spent (last_about i k (so_log s))" and "so_load_err s = None"
    and "so_sops s i = Some x" "so_rows s i = Some y"
    and "\<forall>z \<in> {x, y}. k < length (sop_steps z) \<and> stp_status (sop_steps z ! k) = StepRunning \<and> sop_mode_of z \<noteq> ModeStepByStep"
  shows "sop_inv (log_event (ActionStarted i k a) s)"
proof -
  have "records (so_log s @ [ActionStarted i k a]) j m" if "records (so_log s) j m" "j = i \<Longrightarrow> m = Some x \<or> m = Some y" for j m
    using that assms(6) by (auto simp: records_def)
  then have "log_ok (log_event (ActionStarted i k a) s)"
    using assms(1-5) by (simp add: sop_inv_def log_ok_def log_event_def trace_ok_snoc)
  moreover have "entries_ok (log_event (ActionStarted i k a) s)"
    using assms(1) by (simp add: sop_inv_def entries_ok_def log_event_def)
  moreover have "threads_ok (log_event (ActionStarted i k a) s)"
    using assms(1) thread_ok_log_started unfolding sop_inv_def threads_ok_def
    by (auto simp: log_event_def)
  ultimately show ?thesis by (simp add: sop_inv_def)
qed

lemma fits_ended: "fits (ActionStarted i k a) k m \<Longrightarrow> fits (ActionEnded i k ok) k m"
  by (cases m; cases ok) auto

lemma inv_log_ended:
  assumes "sop_inv s" and "last_about i k (so_log s) = Some (ActionStarted i k a)" and "quiet s i"
  shows "sop_inv (log_event (ActionEnded i k ok) s)"
proof -
  have "records (so_log s @ [ActionEnded i k ok]) j m" if "records (so_log s) j m" for j m
  proof -
    have "fits (ActionEnded i k ok) k m" if "i = j"
      using assms(2) \<open>records (so_log s) j m\<close> that unfolding records_def by (intro fits_ended) blast
    with that show ?thesis by (auto simp: records_def)
  qed
  then have "log_ok (log_event (ActionEnded i k ok) s)"
    using assms(1) by (simp add: sop_inv_def log_ok_def log_event_def trace_ok_snoc)
  moreover have "entries_ok (log_event (ActionEnded i k ok) s)"
    using assms(1) by (simp add: sop_inv_def entries_ok_def log_event_def)
  moreover have "thread_ok (log_event (ActionEnded i k ok) s) j ph" if "so_threads s t = Some (j, ph)" for t j ph
  proof (cases "j = i")
    case True
    with assms(3) that obtain errs where "ph = Leaving errs" by (auto simp: quiet_def)
    then show ?thesis by simp
  next
    case False
    from that assms(1) have "thread_ok s j ph" by (auto simp: sop_inv_def threads_ok_def)
    with False show ?thesis by (cases ph) (auto simp: log_event_def)
  qed
  then have "threads_ok (log_event (ActionEnded i k ok) s)"
    using assms(1) unfolding sop_inv_def threads_ok_def by (auto simp: log_event_def)
  ultimately show ?thesis by (simp add: sop_inv_def)
qed

lemma inv_degrade:
  assumes "sop_inv s" and "quiet s (sop_id y)" and "records (so_log s) (sop_id y) (Some y)"
  shows "sop_inv (degrade_locked y e s)"
proof -
  let ?z = "y\<lparr>sop_status_of := SopDegraded, sop_persist_error := persistence_text e\<rparr>"
  have "records (so_log s) (sop_id y) (Some ?z)"
    using assms(3) records_same [of y ?z] by simp
  then have "log_ok (degrade_locked y e s)"
    using assms(1) by (auto simp: sop_inv_def log_ok_def degrade_locked_def)
  moreover have "entries_ok (degrade_locked y e s)"
    using assms(1) by (auto simp: sop_inv_def entries_ok_def degrade_locked_def)
  moreover have "thread_ok (degrade_locked y e s) j ph" if "so_threads s t = Some (j, ph)" for t j ph
  proof (cases "j = sop_id y")
    case True
    with assms(2) that obtain errs where "ph = Leaving errs" by (auto simp: quiet_def)
    then show ?thesis by simp
  next
    case False
    from that assms(1) have "thread_ok s j ph" by (auto simp: sop_inv_def threads_ok_def)
    with False show ?thesis by (cases ph) (auto simp: degrade_locked_def)
  qed
  then have "threads_ok (degrade_locked y e s)"
    using assms(1) unfolding sop_inv_def threads_ok_def by (auto simp: degrade_locked_def)
  ultimately show ?thesis by (simp add: sop_inv_def)
qed

subsection \<open>Operations\<close>

lemma inv_entry: "sop_inv s \<Longrightarrow> so_sops s i = Some x \<Longrightarrow> sop_id x = i"
  by (simp add: sop_inv_def entries_ok_def)

lemma inv_records: "sop_inv s \<Longrightarrow> so_load_err s = None \<Longrightarrow> so_sops s i = Some x \<Longrightarrow> records (so_log s) i (Some x)"
  by (metis sop_inv_def log_ok_def)

lemma inv_pending_entry:
  "sop_inv s \<Longrightarrow> so_pending s i = Some p \<Longrightarrow> sop_id p = i \<and> (\<exists>x. so_sops s i = Some x \<and>
     sop_status_of x = SopDegraded \<and> sop_steps x = sop_steps p \<and> sop_mode_of x = sop_mode_of p)"
  unfolding sop_inv_def entries_ok_def by blast

lemma inv_pending:
  "sop_inv s \<Longrightarrow> (\<And>x. so_sops s i = Some x \<Longrightarrow> sop_status_of x \<noteq> SopDegraded) \<Longrightarrow> so_pending s i = None"
  using inv_pending_entry [of s i] by (cases "so_pending s i") auto

lemma inv_store: "sop_inv s \<Longrightarrow> so_store s"
  by (simp add: sop_inv_def entries_ok_def)

lemma inv_running: "sop_inv s \<Longrightarrow> so_threads s t = Some (i, ph) \<Longrightarrow> i \<in> so_running s"
  by (auto simp: sop_inv_def threads_ok_def)

lemma inv_live: "sop_inv s \<Longrightarrow> so_threads s t = Some (i, ph) \<Longrightarrow> thread_ok s i ph"
  by (auto simp: sop_inv_def threads_ok_def)

lemma inv_unique: "sop_inv s \<Longrightarrow> so_threads s t = Some (i, ph) \<Longrightarrow> so_threads s u = Some (i, qh) \<Longrightarrow> t = u"
  unfolding sop_inv_def threads_ok_def by blast

lemma quiet_idle: "sop_inv s \<Longrightarrow> i \<notin> so_running s \<Longrightarrow> quiet s i"
  using inv_running by (fastforce simp: quiet_def)

lemma quiet_absent: "sop_inv s \<Longrightarrow> so_sops s i = None \<or> so_load_err s \<noteq> None \<Longrightarrow> quiet s i"
  unfolding quiet_def
proof (intro allI impI)
  fix t ph
  assume "sop_inv s" "so_sops s i = None \<or> so_load_err s \<noteq> None" "so_threads s t = Some (i, ph)"
  then show "\<exists>errs. ph = Leaving errs"
    using inv_live [of s t i ph] by (cases ph) auto
qed

lemma writable_active:
  assumes "sop_inv s" and "so_load_err s = None" and "so_sops s i = Some x" "sop_status_of x \<noteq> SopDegraded"
    and "sop_id y = i" "records (so_log s) i (Some y)" "length (sop_steps y) = length (sop_steps x)"
      "sop_status_of y \<noteq> SopDegraded"
  shows "writable s y"
  using assms inv_pending [OF assms(1), of i] by (simp add: writable_def)

lemma inv_create:
  assumes "sop_inv s" and "create_sop w now arg s = (e, s')"
  shows "sop_inv s'"
proof (cases "\<exists>x. so_load_err s = None \<and> arg = Some x \<and> so_sops s (sop_id x) = None")
  case True
  then obtain x where x: "so_load_err s = None" "arg = Some x" "so_sops s (sop_id x) = None" by auto
  have "so_pending s (sop_id x) = None"
    using inv_pending [OF assms(1), of "sop_id x"] x(3) by simp
  moreover have "records (so_log s) (sop_id x) (Some y)" for y
    using assms(1) x by (intro records_none) (metis sop_inv_def log_ok_def)
  moreover have "quiet s (sop_id x)"
    using quiet_absent assms(1) x(3) by simp
  ultimately have "writable s y" if "sop_id y = sop_id x" for y
    using that x(1) by (simp add: writable_def)
  moreover from assms(2) x have "commit_locked w now (x\<lparr>sop_created := Some now, sop_status_of := SopActive,
      sop_current := 0, sop_persist_error := [],
      sop_steps := map (\<lambda>st. if stp_status st = StepOther [] then st\<lparr>stp_status := StepPending\<rparr> else st) (sop_steps x)\<rparr>) s = (e, s')"
    by (simp add: create_sop_def)
  ultimately show ?thesis
    by (intro commit_inv [OF assms(1)]) simp_all
next
  case False
  with assms show ?thesis by (auto simp: create_sop_def split: option.splits if_splits)
qed

lemma inv_begin:
  assumes "sop_inv s" and "begin_locked i s = Inr s'" and "so_threads s t = None"
  shows "sop_inv (set_thread t (Some (i, Ordering)) s')"
proof -
  from assms(2) obtain x where x: "so_load_err s = None" "so_sops s i = Some x" "i \<notin> so_running s"
      "sop_status_of x = SopActive" and s': "s' = s\<lparr>so_running := insert i (so_running s)\<rparr>"
    by (auto simp: begin_locked_def split: option.splits if_splits)
  let ?s = "set_thread t (Some (i, Ordering)) s'"
  have same: "thread_ok ?s j ph = thread_ok s j ph" for j ph
    by (cases ph) (auto simp: set_thread_def s')
  have none: "so_threads s u \<noteq> Some (i, ph)" for u ph
    using inv_running [OF assms(1)] x(3) by auto
  have "entries_ok ?s" "log_ok ?s"
    using assms(1) by (simp_all add: sop_inv_def entries_ok_def log_ok_def set_thread_def s')
  moreover have "threads_ok ?s"
    using assms(1) x none unfolding threads_ok_def same sop_inv_def
    by (auto simp: set_thread_def s')
  ultimately show ?thesis by (simp add: sop_inv_def)
qed

lemma inv_transition:
  assumes "sop_inv s" and "sop_transition w now i st req s = (e, s')" and "st \<noteq> SopDegraded"
  shows "sop_inv s'"
proof (cases "\<exists>x. so_load_err s = None \<and> so_sops s i = Some x \<and> sop_status_of x \<noteq> SopDegraded")
  case True
  then obtain x where x: "so_load_err s = None" "so_sops s i = Some x" "sop_status_of x \<noteq> SopDegraded" by auto
  have "writable s (x\<lparr>sop_status_of := st\<rparr>)"
    using assms(1,3) x inv_entry [OF assms(1) x(2)] inv_records [OF assms(1) x(1,2)]
      records_same [of x "x\<lparr>sop_status_of := st\<rparr>"]
    by (intro writable_active [of s i x]) simp_all
  then show ?thesis
    using assms x by (auto simp: sop_transition_def intro: commit_inv split: if_splits)
next
  case False
  with assms show ?thesis by (auto simp: sop_transition_def split: option.splits if_splits)
qed

lemma spent_not_done:
  assumes "records log i (Some x)" and "stp_status (sop_steps x ! k) \<noteq> StepDone" "stp_status (sop_steps x ! k) \<noteq> StepRunning"
  shows "\<not> spent (last_about i k log)"
proof (cases "last_about i k log")
  case None
  then show ?thesis by (simp add: spent_def)
next
  case (Some e)
  with assms(1) have "fits e k (Some x)" by (simp add: records_def)
  with spent_fits [of e k x] assms Some show ?thesis by auto
qed

lemma first_step_Some: "first_step i sts = Some k \<Longrightarrow> k < length sts \<and> stp_id (sts ! k) = i"
  by (induction sts arbitrary: k) (auto split: if_splits)

lemma inv_approve:
  assumes "sop_inv s" and "approve_step w now i st s = (e, s')"
  shows "sop_inv s'"
proof (cases "\<exists>x k. so_load_err s = None \<and> so_sops s i = Some x \<and> sop_status_of x = SopActive \<and>
    first_step st (sop_steps x) = Some k \<and> stp_status (sop_steps x ! k) = StepWaiting")
  case True
  then obtain x k where x: "so_load_err s = None" "so_sops s i = Some x" "sop_status_of x = SopActive"
    "first_step st (sop_steps x) = Some k" "stp_status (sop_steps x ! k) = StepWaiting" by auto
  let ?y = "set_step k (\<lambda>st. st\<lparr>stp_status := StepPending, stp_approval := False\<rparr>) x"
  have r: "records (so_log s) i (Some x)"
    using inv_records assms(1) x(1,2) .
  have "records (so_log s) i (Some ?y)"
    by (rule records_update [OF r spent_not_done [OF r, of k]]) (simp_all add: x(5))
  then have "writable s ?y"
    using x inv_entry [OF assms(1) x(2)] by (intro writable_active [OF assms(1) x(1,2)]) simp_all
  then show ?thesis
    using assms x by (auto simp: approve_step_def intro: commit_inv split: if_splits)
next
  case False
  with assms show ?thesis by (auto simp: approve_step_def split: option.splits if_splits)
qed

lemma resume_cases:
  assumes "resume_sop w now i s = (e, s')"
  obtains (refused) err where "s' = s" "e = Some err"
    | (commit) x err s1 where "so_load_err s = None" "so_sops s i = Some x" "sop_status_of x = SopPaused"
        "commit_locked w now (x\<lparr>sop_status_of := SopActive\<rparr>) s = (err, s1)"
        "if e = None then begin_locked i s1 = Inr s' else s' = s1"
proof (cases "so_load_err s")
  case (Some err)
  with assms have "s' = s" "e = Some err" by (simp_all add: resume_sop_def)
  then show ?thesis by (rule that(1))
next
  case None
  with assms that show ?thesis
    by (simp add: resume_sop_def split: option.splits if_splits prod.splits sum.splits) auto
qed

lemma inv_resume:
  assumes "sop_inv s" and "resume_sop w now i s = (e, s')"
  shows "sop_inv s'" and "e = None \<Longrightarrow> so_threads s t = None \<Longrightarrow> sop_inv (set_thread t (Some (i, Ordering)) s')"
proof -
  from assms(2) have "sop_inv s' \<and> (e = None \<longrightarrow> so_threads s t = None \<longrightarrow> sop_inv (set_thread t (Some (i, Ordering)) s'))"
  proof (cases rule: resume_cases)
    case (refused err)
    with assms(1) show ?thesis by simp
  next
    case 2: (commit x err s1)
    have "writable s (x\<lparr>sop_status_of := SopActive\<rparr>)"
      using 2 inv_entry [OF assms(1) 2(2)] inv_records [OF assms(1) 2(1,2)]
        records_same [of x "x\<lparr>sop_status_of := SopActive\<rparr>"]
      by (intro writable_active [OF assms(1) 2(1,2)]) simp_all
    with 2(4) assms(1) have s1: "sop_inv s1" by (auto intro: commit_inv)
    show ?thesis
    proof (cases "e = None")
      case True
      with 2(5) have b: "begin_locked i s1 = Inr s'" by simp
      then have "s' = s1\<lparr>so_running := insert i (so_running s1)\<rparr>"
        by (auto simp: begin_locked_def split: option.splits if_splits)
      moreover have "thread_ok (s1\<lparr>so_running := r\<rparr>) j ph = thread_ok s1 j ph" for r j ph
        by (cases ph) auto
      ultimately have "sop_inv s'"
        using s1 by (auto simp: sop_inv_def entries_ok_def log_ok_def threads_ok_def)
      with inv_begin [OF s1 b] show ?thesis by (simp add: commit_keeps(1) [OF 2(4)])
    next
      case False
      with 2(5) have "s' = s1" by simp
      with False s1 show ?thesis by blast
    qed
  qed
  then show "sop_inv s'" and "e = None \<Longrightarrow> so_threads s t = None \<Longrightarrow> sop_inv (set_thread t (Some (i, Ordering)) s')"
    by auto
qed

lemma step_order_below: "k \<in> set (step_order x) \<Longrightarrow> k < length (sop_steps x)"
  by (simp add: step_order_def split: if_splits)

lemma inv_order:
  assumes "sop_inv s" and "so_threads s t = Some (i, Ordering)"
  shows "sop_inv (set_thread t (Some (i, (case so_sops s i of None \<Rightarrow> Panicked | Some x \<Rightarrow> AtStep (step_order x) []))) s)"
  using inv_live [OF assms] step_order_below by (intro inv_thread [OF assms]) auto

lemma round_cases:
  assumes "run_round w now dead i k rest prev s = (p, s')" and "so_sops s i = Some x" "k < length (sop_steps x)"
  obtains (stop) "p = Leaving []" "s' = s" "sop_status_of x \<in> {SopCancelled, SopPaused}"
    | (dead) e errs where "commit_locked w now (x\<lparr>sop_status_of := SopFailed\<rparr>) s = (e, s')" "p = Leaving errs"
        "sop_status_of x \<notin> {SopCancelled, SopPaused}"
    | (skip) prev' where "p = AtStep rest prev'" "s' = s"
    | (uncertain) "p = Leaving [SopUncertain i]" "s' = s"
    | (wait) e c errs where "commit_locked w now (set_step k (\<lambda>st. st\<lparr>stp_status := StepWaiting\<rparr>) (x\<lparr>sop_current := c\<rparr>)) s = (e, s')"
        "p = Leaving errs" "stp_status (sop_steps x ! k) \<notin> {StepDone, StepRunning}" "sop_status_of x \<notin> {SopCancelled, SopPaused}"
    | (refused) e c errs where "commit_locked w now (set_step k (\<lambda>st. st\<lparr>stp_status := StepRunning\<rparr>) (x\<lparr>sop_current := c\<rparr>)) s = (e, s')"
        "p = Leaving errs" "stp_status (sop_steps x ! k) \<notin> {StepDone, StepRunning}" "sop_status_of x \<notin> {SopCancelled, SopPaused}"
    | (act) c a s1 where "commit_locked w now (set_step k (\<lambda>st. st\<lparr>stp_status := StepRunning\<rparr>) (x\<lparr>sop_current := c\<rparr>)) s = (None, s1)"
        "s' = log_event (ActionStarted i k a) s1" "p = Acting k rest" "stp_status (sop_steps x ! k) \<notin> {StepDone, StepRunning}"
        "sop_mode_of x \<noteq> ModeStepByStep" "sop_status_of x \<notin> {SopCancelled, SopPaused}"
  using assms by (auto simp: run_round_def Let_def needs_approval_def split: if_splits prod.splits option.splits)

lemma inv_round:
  assumes "sop_inv s" and "so_threads s t = Some (i, AtStep (k # rest) prev)"
    and "run_round w now dead i k rest prev s = (p, s')"
  shows "sop_inv (set_thread t (Some (i, p)) s')"
proof -
  from inv_live [OF assms(1,2)] obtain x where x: "so_load_err s = None" "so_sops s i = Some x"
    "sop_status_of x \<noteq> SopDegraded" "\<forall>l \<in> set (k # rest). l < length (sop_steps x)" by auto
  have r: "records (so_log s) i (Some x)" and i: "sop_id x = i"
    using inv_records inv_entry assms(1) x(1,2) by auto
  have w: "writable s y" if "sop_id y = i" "records (so_log s) i (Some y)" "length (sop_steps y) = length (sop_steps x)"
      "sop_status_of y \<noteq> SopDegraded" for y
    using writable_active [OF assms(1) x(1-3)] that .
  have step: "writable s (set_step k f (x\<lparr>sop_current := c\<rparr>))"
    if "stp_status (sop_steps x ! k) \<notin> {StepDone, StepRunning}" for f c
    using x(3) i that by (intro w records_update [OF r spent_not_done [OF r, of k]]) simp_all
  have leave: "sop_inv (set_thread t (Some (i, Leaving errs)) s')"
    if "writable s y" "commit_locked w now y s = (e, s')" for errs y e
    using commit_inv [OF assms(1) that] commit_keeps(1) [OF that(2)] assms(2) by (intro inv_thread) auto
  from x(4) have k: "k < length (sop_steps x)" by simp
  from assms(3) x(2) k show ?thesis
  proof (cases rule: round_cases)
    case (dead e errs)
    have "writable s (x\<lparr>sop_status_of := SopFailed\<rparr>)"
      using i r records_same [of x "x\<lparr>sop_status_of := SopFailed\<rparr>"] by (intro w) simp_all
    with leave dead show ?thesis by blast
  next
    case (act c a s1)
    let ?y = "set_step k (\<lambda>st. st\<lparr>stp_status := StepRunning\<rparr>) (x\<lparr>sop_current := c\<rparr>)"
    note keeps = commit_keeps [OF act(1)]
    have inv1: "sop_inv s1" using commit_inv [OF assms(1) step act(1)] act(4) by simp
    obtain z1 z2 where z: "so_sops s1 i = Some z1" "so_rows s1 i = Some z2" "alike ?y z1" "alike ?y z2"
      using keeps(9,10) inv_store [OF assms(1)] i by auto
    have "sop_inv (log_event (ActionStarted i k a) s1)"
      using z act(5) x(1,4) keeps(5) spent_not_done [OF r, of k] act(4)
      by (intro inv_log_started [OF inv1 _ _ z(1,2)]) (auto simp: alike_def keeps(2) dest: sym)
    then have "sop_inv s'" by (simp add: act(2))
    moreover have "thread_ok s' i (Acting k rest)"
      using z x(1,3,4) keeps(5) by (auto simp: act(2) log_event_def alike_def dest!: sym [of "_[_ := _]"])
    ultimately show ?thesis
      using assms(2) keeps(1) unfolding act(3) by (intro inv_thread [of s' t i "AtStep (k # rest) prev"]) (auto simp: act(2) log_event_def)
  next
    case (wait e c errs)
    with leave [OF step] show ?thesis by blast
  next
    case (refused e c errs)
    with leave [OF step] show ?thesis by blast
  qed (use x assms(1,2) in \<open>auto intro!: inv_thread [OF assms(1,2)]\<close>)
qed

lemma thread_free:
  "commit_locked w now y (set_thread t q s) = map_prod id (set_thread t q) (commit_locked w now y s)"
  "log_event e (set_thread t q s) = set_thread t q (log_event e s)"
  "degrade_locked y err (set_thread t q s) = set_thread t q (degrade_locked y err s)"
  "set_thread t p (set_thread t q s) = set_thread t p s"
  by (simp_all add: commit_locked_def log_event_def degrade_locked_def set_thread_def Let_def split: save_result.splits)

lemma settled_simps [simp]:
  "sop_id (settled k res x) = sop_id x" "sop_mode_of (settled k res x) = sop_mode_of x"
  "length (sop_steps (settled k res x)) = length (sop_steps x)"
  "l \<noteq> k \<Longrightarrow> sop_steps (settled k res x) ! l = sop_steps x ! l"
  "sop_status_of (settled k res x) = SopDegraded \<longleftrightarrow> sop_status_of x = SopDegraded"
  "sop_status_of (settled k res x) = SopCancelled \<longleftrightarrow> sop_status_of x = SopCancelled"
  by (simp_all add: settled_def Let_def split: sum.splits)

lemma records_settled:
  assumes "records log i (Some x)" and "k < length (sop_steps x)"
  shows "records (log @ [ActionEnded i k (\<not> isl res)]) i (Some (settled k res x))"
proof -
  have "fits (ActionEnded i k (\<not> isl res)) k (Some (settled k res x))"
    using assms(2) by (cases res) (simp_all add: settled_def)
  moreover have "fits e l (Some (settled k res x)) = fits e l (Some x)" if "l \<noteq> k" for e l
    using that by (intro fits_other) simp_all
  ultimately show ?thesis
    using assms(1) by (auto simp: records_def)
qed

lemma inv_outcome:
  assumes "sop_inv s" and "so_threads s t = Some (i, Acting k rest)"
    and "record_outcome w now i k rest res s = (p, s')"
  shows "sop_inv (set_thread t (Some (i, p)) s')"
proof -
  from inv_live [OF assms(1,2)] obtain x a where x: "so_load_err s = None" "so_sops s i = Some x"
    "sop_status_of x \<noteq> SopDegraded" "\<forall>l \<in> set rest. l < length (sop_steps x)"
    "last_about i k (so_log s) = Some (ActionStarted i k a)" by auto
  have r: "records (so_log s) i (Some x)" and i: "sop_id x = i"
    using inv_records inv_entry assms(1) x(1,2) by auto
  then have k: "k < length (sop_steps x)"
    using x(5) fits.simps(1) [of i k a k x] unfolding records_def by blast
  define y where "y = settled k res x"
  define s1 where "s1 = log_event (ActionEnded i k (\<not> isl res)) (set_thread t (Some (i, Leaving [])) s)"
  have q: "quiet s1 i"
    using inv_unique [OF assms(1,2)] by (auto simp: quiet_def s1_def set_thread_def log_event_def)
  then have inv1: "sop_inv s1"
    using x(5) unfolding s1_def
    by (intro inv_log_ended inv_thread [OF assms(1,2)]) (auto simp: set_thread_def log_event_def quiet_def)
  have y: "sop_id y = i" "records (so_log s1) i (Some y)" "sop_status_of y \<noteq> SopDegraded" "length (sop_steps y) = length (sop_steps x)"
    using records_settled [OF r k, of res] x(3) i by (simp_all add: y_def s1_def log_event_def set_thread_def)
  obtain e s2 where c: "commit_locked w now y s1 = (e, s2)" by fastforce
  have "writable s1 y"
    using y x by (intro writable_active [OF inv1, of i x]) (auto simp: s1_def log_event_def set_thread_def)
  from commit_inv [OF inv1 this c] have inv2: "sop_inv s2" .
  note keeps = commit_keeps [OF c]
  have q2: "quiet s2 i" and r2: "records (so_log s2) i (Some y)" and t2: "so_threads s2 t = Some (i, Leaving [])"
    using q y(2) keeps(1,2) by (auto simp: quiet_def s1_def set_thread_def log_event_def)
  obtain s3 where s3: "commit_locked w now y (log_event (ActionEnded i k (\<not> isl res)) s) = (e, s3)"
      and s2: "s2 = set_thread t (Some (i, Leaving [])) s3"
    using c unfolding s1_def thread_free by (auto simp: map_prod_def split: prod.splits)
  show ?thesis
  proof (cases e)
    case None
    then obtain z where z: "so_sops s2 i = Some z" "alike y z"
      using keeps(9) inv_store [OF inv1] y(1) by auto
    have "s' = s3" and p: "p = (case res of Inl msg \<Rightarrow> Leaving [SopStepFailed i msg] | Inr output \<Rightarrow> AtStep rest output)"
      using assms(3) x(2) k s3 None by (auto simp: record_outcome_def y_def Let_def split: sum.splits)
    have "thread_ok s2 i p"
      using z x(1,4) y keeps(5) by (auto simp: p alike_def s1_def log_event_def set_thread_def split: sum.split)
    from inv_thread [OF inv2 t2 this] show ?thesis
      by (simp add: s2 thread_free \<open>s' = s3\<close>)
  next
    case (Some err)
    have "s' = degrade_locked y err s3" and p: "\<exists>errs. p = Leaving errs"
      using assms(3) x(2) k s3 Some by (auto simp: record_outcome_def y_def Let_def split: sum.splits)
    have "sop_inv (degrade_locked y err s2)"
      using inv_degrade [OF inv2] q2 r2 y(1) by simp
    moreover have "so_threads (degrade_locked y err s2) t = Some (i, Leaving [])"
      by (simp add: degrade_locked_def t2)
    ultimately show ?thesis
      using p inv_thread [of "degrade_locked y err s2" t i "Leaving []"] by (auto simp: s2 thread_free \<open>s' = _\<close>)
  qed
qed

lemma inv_complete:
  assumes "sop_inv s" and "so_threads s t = Some (i, AtStep [] prev)" and "complete_run w now i s = (p, s')"
  shows "sop_inv (set_thread t (Some (i, p)) s')"
proof -
  from inv_live [OF assms(1,2)] obtain x where x: "so_load_err s = None" "so_sops s i = Some x"
    "sop_status_of x \<noteq> SopDegraded" by auto
  have r: "records (so_log s) i (Some x)" and i: "sop_id x = i"
    using inv_records inv_entry assms(1) x(1,2) by auto
  show ?thesis
  proof (cases "sop_status_of x = SopCancelled \<or> sop_status_of x = SopPaused")
    case True
    with assms(3) x(2) have "p = Leaving []" "s' = s" by (auto simp: complete_run_def)
    then show ?thesis by (auto intro: inv_thread [OF assms(1,2)])
  next
    case False
    define y where "y = x\<lparr>sop_status_of := SopCompleted\<rparr>"
    define s1 where "s1 = set_thread t (Some (i, Leaving [])) s"
    have inv1: "sop_inv s1" unfolding s1_def by (rule inv_thread [OF assms(1,2)]) simp
    have q: "quiet s1 i"
      using inv_unique [OF assms(1,2)] by (auto simp: quiet_def s1_def set_thread_def)
    have y: "sop_id y = i" "records (so_log s1) i (Some y)"
      using i r records_same [of x y] by (simp_all add: y_def s1_def set_thread_def)
    have "writable s1 y"
      using y x q inv_pending [OF assms(1), of i] by (simp add: writable_def s1_def set_thread_def)
    moreover obtain e s2 where c: "commit_locked w now y s1 = (e, s2)" by fastforce
    ultimately have inv2: "sop_inv s2" using commit_inv [OF inv1] by blast
    note keeps = commit_keeps [OF c]
    have q2: "quiet s2 i" and r2: "records (so_log s2) i (Some y)" and t2: "so_threads s2 t = Some (i, Leaving [])"
      using q y(2) keeps(1,2) by (auto simp: quiet_def s1_def set_thread_def)
    obtain s3 where s3: "commit_locked w now y s = (e, s3)" and s2: "s2 = set_thread t (Some (i, Leaving [])) s3"
      using c unfolding s1_def thread_free by (auto simp: map_prod_def split: prod.splits)
    show ?thesis
    proof (cases e)
      case None
      with assms(3) x(2) False s3 have "p = Leaving []" "s' = s3"
        by (auto simp: complete_run_def y_def Let_def)
      then show ?thesis
        using inv_thread [OF inv2 t2, of "Leaving []"] by (simp add: s2 thread_free)
    next
      case (Some err)
      with assms(3) x(2) False s3 have "p = Leaving [err]" "s' = degrade_locked y err s3"
        by (auto simp: complete_run_def y_def Let_def)
      moreover have "sop_inv (degrade_locked y err s2)"
        using inv_degrade [OF inv2] q2 r2 y(1) by simp
      moreover have "so_threads (degrade_locked y err s2) t = Some (i, Leaving [])"
        by (simp add: degrade_locked_def t2)
      ultimately show ?thesis
        using inv_thread [of "degrade_locked y err s2" t i "Leaving []"] by (auto simp: s2 thread_free)
    qed
  qed
qed

lemma retry_cases:
  assumes "retry_persistence w now i s = (e, s')"
  obtains (refused) "s' = s"
    | (saved) y s1 where "so_load_err s = None" "i \<notin> so_running s" "so_pending s i = Some y"
        "commit_locked w now y s = (None, s1)" "s' = s1\<lparr>so_pending := (so_pending s1)(i := None)\<rparr>"
    | (lost) y s1 err where "so_load_err s = None" "i \<notin> so_running s" "so_pending s i = Some y"
        "commit_locked w now y s = (Some err, s1)" "s' = degrade_locked y err s1"
  using assms by (auto simp: retry_persistence_def split: option.splits if_splits prod.splits)

lemma inv_retry:
  assumes "sop_inv s" and "retry_persistence w now i s = (e, s')"
  shows "sop_inv s'"
proof -
  have clear: "sop_inv (s\<lparr>so_pending := (so_pending s)(j := None)\<rparr>)" for j
  proof -
    have "thread_ok (s\<lparr>so_pending := q\<rparr>) i ph = thread_ok s i ph" for q i ph by (cases ph) auto
    with assms(1) show ?thesis by (auto simp: sop_inv_def entries_ok_def log_ok_def threads_ok_def)
  qed
  have swap: "commit_locked w now y (s\<lparr>so_pending := q\<rparr>) = map_prod id (\<lambda>s'. s'\<lparr>so_pending := q\<rparr>) (commit_locked w now y s)" for y q
    by (simp add: commit_locked_def Let_def split: save_result.splits)
  have main: "sop_inv (s1\<lparr>so_pending := (so_pending s1)(i := None)\<rparr>) \<and> quiet s1 i \<and> records (so_log s1) (sop_id y) (Some y) \<and> sop_id y = i"
    if p: "so_load_err s = None" "i \<notin> so_running s" "so_pending s i = Some y" "commit_locked w now y s = (err, s1)" for y err s1
  proof -
    let ?s = "s\<lparr>so_pending := (so_pending s)(i := None)\<rparr>"
    from inv_pending_entry [OF assms(1) p(3)] obtain x where x: "sop_id y = i" "so_sops s i = Some x"
      "sop_steps x = sop_steps y" "sop_mode_of x = sop_mode_of y" by auto
    from records_same [OF x(3,4)] inv_records [OF assms(1) p(1) x(2)] have r: "records (so_log s) i (Some y)" by simp
    have q: "quiet s i" using quiet_idle [OF assms(1) p(2)] .
    have "writable ?s y" using p(1) r q x(1) by (simp add: writable_def quiet_def)
    from commit_inv [OF clear this, of w now err "s1\<lparr>so_pending := (so_pending s)(i := None)\<rparr>"] p(4)
    have "sop_inv (s1\<lparr>so_pending := (so_pending s)(i := None)\<rparr>)"
      by (simp add: swap)
    with q r x(1) show ?thesis by (simp add: commit_keeps [OF p(4)] quiet_def)
  qed
  from assms(2) show ?thesis
  proof (cases rule: retry_cases)
    case refused
    with assms(1) show ?thesis by simp
  next
    case (saved y s1)
    with main [OF saved(1-4)] show ?thesis by simp
  next
    case (lost y s1 err)
    let ?s = "s1\<lparr>so_pending := (so_pending s1)(i := None)\<rparr>"
    note ml = main [OF lost(1-4)]
    then have "sop_id y = i" by simp
    with ml have m: "sop_inv ?s" "quiet ?s (sop_id y)" "records (so_log ?s) (sop_id y) (Some y)" "sop_id y = i"
      by (simp_all add: quiet_def)
    have "degrade_locked y err ?s = degrade_locked y err s1"
      by (simp add: degrade_locked_def m(4))
    with inv_degrade [OF m(1-3), of err] lost(5) show ?thesis by simp
  qed
qed

lemma inv_leave:
  assumes "sop_inv s" and "so_threads s t = Some (i, Leaving errs)"
  shows "sop_inv (set_thread t None (end_execution i s))"
proof -
  have same: "thread_ok (set_thread t None (end_execution i s)) j ph = thread_ok s j ph" for j ph
    by (cases ph) (auto simp: set_thread_def end_execution_def)
  have "threads_ok (set_thread t None (end_execution i s))"
    using assms(1) inv_unique [OF assms] unfolding threads_ok_def same sop_inv_def
    by (auto simp: set_thread_def end_execution_def split: if_splits)
  with assms(1) show ?thesis
    by (simp add: sop_inv_def entries_ok_def log_ok_def set_thread_def end_execution_def)
qed

lemma recovered_simps [simp]:
  "sop_id (recovered x) = sop_id x" "sop_steps (recovered x) = sop_steps x" "sop_mode_of (recovered x) = sop_mode_of x"
  by (simp_all add: recovered_def)

lemma inv_crash:
  assumes "sop_inv s"
  shows "sop_inv (new_sop_engine failure s)"
proof -
  let ?s = "new_sop_engine failure s"
  have r: "records (so_log s) i (map_option recovered (so_rows s i))" for i
  proof (cases "so_rows s i")
    case (Some x)
    then have "records (so_log s) i (Some x)"
      using assms by (simp add: sop_inv_def log_ok_def) metis
    with Some show ?thesis using records_same [of x "recovered x"] by simp
  qed (use assms in \<open>simp add: sop_inv_def log_ok_def, metis\<close>)
  have ids: "sop_id x = i" if "so_rows s i = Some x" for i x
    using assms that by (simp add: sop_inv_def entries_ok_def)
  have "entries_ok ?s"
    using inv_store [OF assms] by (auto simp: entries_ok_def new_sop_engine_def dest: ids split: if_splits)
  moreover have "log_ok ?s"
    using assms r by (simp add: sop_inv_def log_ok_def new_sop_engine_def entries_ok_def)
  moreover have "threads_ok ?s"
    by (simp add: threads_ok_def new_sop_engine_def)
  ultimately show ?thesis by (simp add: sop_inv_def)
qed

theorem sop_inv_step: "sop_step s s' \<Longrightarrow> sop_inv s \<Longrightarrow> sop_inv s'"
proof (induction rule: sop_step.induct)
  case (create w now x s e s') then show ?case by (blast intro: inv_create)
next
  case (execute i s s' t) then show ?case by (blast intro: inv_begin)
next
  case (resume w now i s s' t) then show ?case by (blast intro: inv_resume(2))
next
  case (resume_fails w now i s e s') then show ?case by (blast intro: inv_resume(1))
next
  case (order s t i) then show ?case by (blast intro: inv_order)
next
  case (round s t i k rest prev w now dead p s') then show ?case by (blast intro: inv_round)
next
  case (outcome s t i k rest w now res p s') then show ?case by (blast intro: inv_outcome)
next
  case (complete s t i prev w now p s') then show ?case by (blast intro: inv_complete)
next
  case (leave s t i errs) then show ?case by (blast intro: inv_leave)
next
  case (retry w now i s e s') then show ?case by (blast intro: inv_retry)
next
  case (approve w now i st s e s') then show ?case by (blast intro: inv_approve)
next
  case (cancel w now i s e s') then show ?case unfolding cancel_sop_def by (blast intro: inv_transition)
next
  case (pause w now i s e s') then show ?case unfolding pause_sop_def by (blast intro: inv_transition)
next
  case (crash s failure) then show ?case by (rule inv_crash)
qed

theorem sop_inv_reachable: "sop_reachable s \<Longrightarrow> sop_inv s"
proof (induction rule: sop_reachable.induct)
  case (start rows failure)
  have "sop_inv (empty_sop_engine rows)"
    using start by (auto simp: sop_inv_def entries_ok_def log_ok_def threads_ok_def empty_sop_engine_def records_def
        trace_ok_def started_sops_def)
  then show ?case by (rule inv_crash)
qed (rule sop_inv_step)

end
