(* ===== verification/Sop_Engine_Props.thy ===== *)
theory Sop_Engine_Props
  imports Sop_Engine_Inv
begin

text \<open>
  Properties of the engine of standard procedures: an action is repeated only after its failure has
  been observed, whatever is lost in crashes and failed writes, and a cancelled procedure starts nothing more.
\<close>

text \<open>
  C19. In every reachable state of the engine, with any interleaving of calls, crashes, lost writes
  and writes that succeed although they report an error: between two starts of one step of a
  procedure, the last thing the engine has seen of that step is that its action failed.  So an
  action whose outcome is unknown, or known to be a success, is never started again.
\<close>

theorem sop_no_replay:
  assumes "sop_reachable s" and "so_log s = xs @ ActionStarted i k a # ys @ ActionStarted i k b # zs"
  shows "last_about i k ys = Some (ActionEnded i k False)"
proof -
  have "trace_ok (so_log s)"
    using sop_inv_reachable [OF assms(1)] by (simp add: sop_inv_def log_ok_def)
  then have "\<not> spent (last_about i k (xs @ ActionStarted i k a # ys))"
    unfolding trace_ok_def assms(2) by (metis append.assoc append_Cons)
  then show ?thesis
    by (auto simp: last_about_append last_about_Cons spent_def split: option.splits sop_event.splits bool.splits
        dest: last_about_about)
qed

subsection \<open>Cancelled procedures\<close>

definition dead_sop :: "string \<Rightarrow> sop_engine \<Rightarrow> bool" where
  "dead_sop i s \<longleftrightarrow> (\<exists>row. so_rows s i = Some row \<and> sop_status_of row = SopCancelled) \<and>
     (so_load_err s = None \<longrightarrow> (\<exists>x. so_sops s i = Some x \<and> sop_status_of x \<in> {SopCancelled, SopDegraded})) \<and>
     (\<forall>p. so_pending s i = Some p \<longrightarrow> sop_status_of p = SopCancelled)"

definition leaves_dead :: "string \<Rightarrow> sop_engine \<Rightarrow> sop_engine \<Rightarrow> bool" where
  "leaves_dead i s s' \<longleftrightarrow> dead_sop i s' \<and> (\<exists>l. so_log s' = so_log s @ l \<and> i \<notin> started_sops l)"

lemma started_sops_Nil [simp]: "started_sops [] = {}"
  by (simp add: started_sops_def)

lemma started_sops_append [simp]: "started_sops (xs @ ys) = started_sops xs \<union> started_sops ys"
  by (auto simp: started_sops_def)

lemma leaves_dead_refl: "dead_sop i s \<Longrightarrow> leaves_dead i s s"
  by (simp add: leaves_dead_def)

lemma leaves_dead_trans: "leaves_dead i s u \<Longrightarrow> leaves_dead i u v \<Longrightarrow> leaves_dead i s v"
  by (auto simp: leaves_dead_def)

lemma dead_commit:
  assumes "dead_sop i s" and "so_store s" and "commit_locked w now y s = (e, s')"
    and "sop_id y = i \<Longrightarrow> sop_status_of y = SopCancelled"
  shows "leaves_dead i s s'"
  using assms(3,2)
proof (cases rule: commit_cases)
  case (saved row mem)
  with assms(1,4) show ?thesis by (auto simp: leaves_dead_def dead_sop_def alike_def)
next
  case (half err row)
  with assms(1,4) show ?thesis by (auto simp: leaves_dead_def dead_sop_def alike_def)
qed (use assms(1) in \<open>simp add: leaves_dead_refl\<close>)

lemma dead_degrade:
  "leaves_dead i u s \<Longrightarrow> (sop_id y = i \<Longrightarrow> sop_status_of y = SopCancelled) \<Longrightarrow> leaves_dead i u (degrade_locked y err s)"
  by (auto simp: leaves_dead_def dead_sop_def degrade_locked_def)

lemma dead_frame [simp]:
  "dead_sop i (set_thread t p s) = dead_sop i s" "dead_sop i (log_event e s) = dead_sop i s"
  "dead_sop i (end_execution j s) = dead_sop i s" "dead_sop i (s\<lparr>so_running := r\<rparr>) = dead_sop i s"
  by (simp_all add: dead_sop_def set_thread_def log_event_def end_execution_def)

lemma leaves_dead_frame:
  "leaves_dead i s s' \<Longrightarrow> leaves_dead i s (set_thread t p s')"
  "leaves_dead i s s' \<Longrightarrow> leaves_dead i s (end_execution j s')"
  "leaves_dead i s s' \<Longrightarrow> leaves_dead i s (s'\<lparr>so_running := r\<rparr>)"
  "leaves_dead i s s' \<Longrightarrow> leaves_dead i s (log_event (ActionEnded j k ok) s')"
  "leaves_dead i s s' \<Longrightarrow> j \<noteq> i \<Longrightarrow> leaves_dead i s (log_event (ActionStarted j k a) s')"
  "leaves_dead i s s' \<Longrightarrow> leaves_dead i s (s'\<lparr>so_pending := (so_pending s')(j := None)\<rparr>)"
  by (auto simp: leaves_dead_def dead_sop_def set_thread_def end_execution_def log_event_def started_sops_def)

lemma dead_not_active:
  "dead_sop i s \<Longrightarrow> so_load_err s = None \<Longrightarrow> so_sops s j = Some x \<Longrightarrow> sop_status_of x \<notin> {SopCancelled, SopDegraded} \<Longrightarrow> j \<noteq> i"
  by (auto simp: dead_sop_def)

lemma dead_begin: "dead_sop i s \<Longrightarrow> begin_locked j s = Inr s' \<Longrightarrow> leaves_dead i s s'"
  by (auto simp: begin_locked_def intro: leaves_dead_frame leaves_dead_refl split: option.splits if_splits)

lemma dead_create:
  assumes "sop_inv s" and "dead_sop i s" and "create_sop w now arg s = (e, s')"
  shows "leaves_dead i s s'"
proof (cases "\<exists>x. so_load_err s = None \<and> arg = Some x \<and> so_sops s (sop_id x) = None")
  case True
  then obtain x where x: "so_load_err s = None" "arg = Some x" "so_sops s (sop_id x) = None" by auto
  then have "sop_id x \<noteq> i" using assms(2) by (auto simp: dead_sop_def)
  with assms(3) x show ?thesis
    by (auto simp: create_sop_def intro: dead_commit [OF assms(2) inv_store [OF assms(1)]])
next
  case False
  with assms(3) have "s' = s" by (auto simp: create_sop_def split: option.splits if_splits)
  with assms(2) show ?thesis by (simp add: leaves_dead_refl)
qed

lemma dead_resume:
  assumes "sop_inv s" and "dead_sop i s" and "resume_sop w now j s = (e, s')"
  shows "leaves_dead i s s'"
  using assms(3)
proof (cases rule: resume_cases)
  case (refused err)
  with assms(2) show ?thesis by (simp add: leaves_dead_refl)
next
  case (commit x err s1)
  have "sop_id x = j" "j \<noteq> i"
    using inv_entry [OF assms(1) commit(2)] dead_not_active [OF assms(2) commit(1,2)] commit(3) by simp_all
  then have "leaves_dead i s s1"
    by (intro dead_commit [OF assms(2) inv_store [OF assms(1)] commit(4)]) simp
  with commit(5) show ?thesis
    by (auto split: if_splits dest!: dead_begin [of i s1 j s'] intro: leaves_dead_trans simp: leaves_dead_def)
qed

lemma dead_live:
  assumes "sop_inv s" and "dead_sop i s" and "so_threads s t = Some (i, ph)" and "ph \<notin> range Leaving"
  obtains x where "so_sops s i = Some x" "sop_status_of x = SopCancelled" "sop_id x = i"
proof -
  from inv_live [OF assms(1,3)] assms(4) obtain x where "so_load_err s = None" "so_sops s i = Some x"
      "sop_status_of x \<noteq> SopDegraded"
    by (cases ph) auto
  with assms(2) inv_entry [OF assms(1)] that show ?thesis by (auto simp: dead_sop_def)
qed

lemma dead_round:
  assumes "sop_inv s" and "dead_sop i s" and "so_threads s t = Some (j, AtStep (k # rest) prev)"
    and "run_round w now dead j k rest prev s = (p, s')"
  shows "leaves_dead i s s'"
proof (cases "j = i")
  case True
  with assms obtain x where "so_sops s i = Some x" "sop_status_of x = SopCancelled"
    by (auto elim!: dead_live [of s i t])
  with assms(2,4) True show ?thesis by (auto simp: run_round_def leaves_dead_refl)
next
  case False
  from inv_live [OF assms(1,3)] obtain x where x: "so_sops s j = Some x" "k < length (sop_steps x)" by auto
  with False inv_entry [OF assms(1)] have "sop_id x \<noteq> i" by auto
  note c = dead_commit [OF assms(2) inv_store [OF assms(1)]]
  from assms(4) x show ?thesis
  proof (cases rule: round_cases)
    case (act c a s1)
    then have "leaves_dead i s s1" using \<open>sop_id x \<noteq> i\<close> by (auto intro: c)
    with act(2) False show ?thesis by (simp add: leaves_dead_frame)
  qed (use \<open>sop_id x \<noteq> i\<close> assms(2) in \<open>auto simp: leaves_dead_refl intro: c\<close>)
qed

lemma dead_outcome:
  assumes "sop_inv s" and "dead_sop i s" and "so_threads s t = Some (j, Acting k rest)"
    and "record_outcome w now j k rest res s = (p, s')"
  shows "leaves_dead i s s'"
proof -
  from inv_live [OF assms(1,3)] obtain x where x: "so_sops s j = Some x" by auto
  define s1 where "s1 = log_event (ActionEnded j k (\<not> isl res)) s"
  have st: "sop_id x = i \<Longrightarrow> sop_status_of x = SopCancelled"
    using assms(1-3) x inv_entry [OF assms(1) x] by (auto elim!: dead_live [of s i t])
  obtain e s2 where c: "commit_locked w now (settled k res x) s1 = (e, s2)" by fastforce
  have "leaves_dead i s1 s2"
    using assms(2) st inv_store [OF assms(1)] by (intro dead_commit [OF _ _ c]) (simp_all add: s1_def log_event_def dead_sop_def)
  moreover have "leaves_dead i s s1"
    unfolding s1_def using assms(2) by (simp add: leaves_dead_frame leaves_dead_refl)
  ultimately have s2: "leaves_dead i s s2" by (rule leaves_dead_trans [rotated])
  then have "leaves_dead i s (degrade_locked (settled k res x) err s2)" for err
    using st by (intro dead_degrade) simp_all
  with assms(4) x c s2 leaves_dead_refl [OF assms(2)] show ?thesis
    by (auto simp: record_outcome_def Let_def s1_def split: if_splits option.splits sum.splits)
qed

lemma dead_complete:
  assumes "sop_inv s" and "dead_sop i s" and "so_threads s t = Some (j, AtStep [] prev)"
    and "complete_run w now j s = (p, s')"
  shows "leaves_dead i s s'"
proof (cases "j = i")
  case True
  with assms obtain x where "so_sops s i = Some x" "sop_status_of x = SopCancelled"
    by (auto elim!: dead_live [of s i t])
  with assms(2,4) True show ?thesis by (auto simp: complete_run_def leaves_dead_refl)
next
  case False
  from inv_live [OF assms(1,3)] obtain x where x: "so_sops s j = Some x" by auto
  with False inv_entry [OF assms(1)] have id: "sop_id x \<noteq> i" by auto
  obtain e s1 where c: "commit_locked w now (x\<lparr>sop_status_of := SopCompleted\<rparr>) s = (e, s1)" by fastforce
  have s1: "leaves_dead i s s1"
    using id by (intro dead_commit [OF assms(2) inv_store [OF assms(1)] c]) simp
  then have "leaves_dead i s (degrade_locked (x\<lparr>sop_status_of := SopCompleted\<rparr>) err s1)" for err
    using id by (intro dead_degrade) simp_all
  with assms(4) x c s1 leaves_dead_refl [OF assms(2)] show ?thesis
    by (auto simp: complete_run_def Let_def split: if_splits option.splits)
qed

lemma dead_retry:
  assumes "sop_inv s" and "dead_sop i s" and "retry_persistence w now j s = (e, s')"
  shows "leaves_dead i s s'"
proof -
  have st: "sop_status_of y = SopCancelled" if "so_pending s j = Some y" "sop_id y = i" for y
    using that assms(2) inv_pending_entry [OF assms(1) that(1)] by (auto simp: dead_sop_def)
  note c = dead_commit [OF assms(2) inv_store [OF assms(1)]]
  from assms(3) show ?thesis
  proof (cases rule: retry_cases)
    case refused
    with assms(2) show ?thesis by (simp add: leaves_dead_refl)
  next
    case (saved y s1)
    then have "leaves_dead i s s1" using st by (intro c) auto
    with saved(5) show ?thesis by (simp add: leaves_dead_frame)
  next
    case (lost y s1 err)
    then have "leaves_dead i s s1" using st by (intro c) auto
    with lost(3,5) st show ?thesis by (auto intro: dead_degrade)
  qed
qed

lemma dead_approve:
  assumes "sop_inv s" and "dead_sop i s" and "approve_step w now j st s = (e, s')"
  shows "leaves_dead i s s'"
proof (cases "\<exists>x. so_load_err s = None \<and> so_sops s j = Some x \<and> sop_status_of x = SopActive")
  case True
  then obtain x where x: "so_load_err s = None" "so_sops s j = Some x" "sop_status_of x = SopActive" by auto
  have "sop_id x \<noteq> i"
    using inv_entry [OF assms(1) x(2)] dead_not_active [OF assms(2) x(1,2)] x(3) by simp
  with assms(3) x leaves_dead_refl [OF assms(2)] show ?thesis
    by (auto simp: approve_step_def split: if_splits option.splits
        intro: dead_commit [OF assms(2) inv_store [OF assms(1)]])
next
  case False
  with assms(3) have "s' = s" by (auto simp: approve_step_def split: option.splits if_splits)
  with assms(2) show ?thesis by (simp add: leaves_dead_refl)
qed

lemma dead_transition:
  assumes "sop_inv s" and "dead_sop i s" and "sop_transition w now j st req s = (e, s')"
    and "st = SopCancelled \<or> req"
  shows "leaves_dead i s s'"
proof (cases "\<exists>x. so_load_err s = None \<and> so_sops s j = Some x")
  case True
  then obtain x where x: "so_load_err s = None" "so_sops s j = Some x" by auto
  have "st = SopCancelled" if "sop_id x = i" "sop_status_of x = SopActive \<or> \<not> req"
    using inv_entry [OF assms(1) x(2)] dead_not_active [OF assms(2) x(1,2)] assms(4) that by auto
  with assms(3) x leaves_dead_refl [OF assms(2)] show ?thesis
    by (auto simp: sop_transition_def split: if_splits
        intro!: dead_commit [OF assms(2) inv_store [OF assms(1)]])
next
  case False
  with assms(3) have "s' = s" by (auto simp: sop_transition_def split: option.splits if_splits)
  with assms(2) show ?thesis by (simp add: leaves_dead_refl)
qed

lemma dead_crash:
  assumes "sop_inv s" and "dead_sop i s"
  shows "leaves_dead i s (new_sop_engine failure s)"
proof -
  from assms(2) obtain row where row: "so_rows s i = Some row" "sop_status_of row = SopCancelled"
    by (auto simp: dead_sop_def)
  then have "sop_status_of (recovered row) \<in> {SopCancelled, SopDegraded}"
    by (simp add: recovered_def)
  with row show ?thesis
    by (simp add: leaves_dead_def dead_sop_def new_sop_engine_def inv_store [OF assms(1)])
qed

lemma dead_step: "sop_step s s' \<Longrightarrow> sop_inv s \<Longrightarrow> dead_sop i s \<Longrightarrow> leaves_dead i s s'"
proof (induction rule: sop_step.induct)
  case (execute j s s' t) then show ?case by (blast intro: leaves_dead_frame dead_begin)
next
  case (resume w now j s s' t) then show ?case by (blast intro: leaves_dead_frame dead_resume)
next
  case (order s t j) then show ?case by (blast intro: leaves_dead_frame leaves_dead_refl)
next
  case (round s t j k rest prev w now dead p s') then show ?case by (blast intro: leaves_dead_frame dead_round)
next
  case (outcome s t j k rest w now res p s') then show ?case by (blast intro: leaves_dead_frame dead_outcome)
next
  case (complete s t j prev w now p s') then show ?case by (blast intro: leaves_dead_frame dead_complete)
next
  case (leave s t j errs) then show ?case by (blast intro: leaves_dead_frame leaves_dead_refl)
next
  case (cancel w now j s e s') then show ?case unfolding cancel_sop_def by (blast intro: dead_transition)
next
  case (pause w now j s e s') then show ?case unfolding pause_sop_def by (blast intro: dead_transition)
qed (blast intro: dead_create dead_resume dead_retry dead_approve dead_crash)+

lemma dead_steps: "sop_step\<^sup>*\<^sup>* s t \<Longrightarrow> sop_inv s \<Longrightarrow> dead_sop i s \<Longrightarrow> sop_inv t \<and> leaves_dead i s t"
proof (induction rule: rtranclp_induct)
  case base
  then show ?case by (simp add: leaves_dead_refl)
next
  case (step u v)
  then have "sop_inv u" "leaves_dead i s u" by auto
  moreover from this dead_step [OF step(2)] have "leaves_dead i u v" by (simp add: leaves_dead_def)
  ultimately show ?case using sop_inv_step [OF step(2)] leaves_dead_trans by blast
qed

lemma cancel_dead:
  assumes "sop_inv s" and "cancel_sop w now i s = (None, s')"
  shows "dead_sop i s' \<and> so_log s' = so_log s"
proof -
  from assms(2) obtain x where x: "so_load_err s = None" "so_sops s i = Some x" "sop_status_of x \<noteq> SopDegraded"
    and c: "commit_locked w now (x\<lparr>sop_status_of := SopCancelled\<rparr>) s = (None, s')"
    by (auto simp: cancel_sop_def sop_transition_def split: option.splits if_splits)
  from inv_pending [OF assms(1), of i] x have "so_pending s i = None" by auto
  with commit_keeps [OF c] inv_store [OF assms(1)] inv_entry [OF assms(1) x(2)] show ?thesis
    by (auto simp: dead_sop_def alike_def)
qed

text \<open>
  C20. Once \<open>Cancel\<close> has returned without an error, no step of the procedure is started again, in any
  continuation, with crashes, restarts and lost writes; an action already under way may still end.
\<close>

theorem cancelled_starts_nothing:
  assumes "sop_reachable s" and "cancel_sop w now i s = (None, s')" and "sop_step\<^sup>*\<^sup>* s' t"
  shows "\<exists>l. so_log t = so_log s @ l \<and> (\<forall>k a. ActionStarted i k a \<notin> set l)"
proof -
  note inv = sop_inv_reachable [OF assms(1)]
  from inv assms(2) have "sop_inv s'" by (auto simp: cancel_sop_def intro: inv_transition)
  with dead_steps [OF assms(3)] cancel_dead [OF inv assms(2)] show ?thesis
    by (auto simp: leaves_dead_def started_sops_def)
qed

subsection \<open>Step by step\<close>

text \<open>A procedure in the step-by-step mode never starts an action, however often its steps are approved.\<close>

theorem step_by_step_never_starts:
  assumes "sop_reachable s" and "so_rows s i = Some row" and "sop_mode_of row = ModeStepByStep"
  shows "ActionStarted i k a \<notin> set (so_log s)"
proof -
  have "records (so_log s) i (Some row)"
    using sop_inv_reachable [OF assms(1)] assms(2) by (simp add: sop_inv_def log_ok_def) metis
  with assms(3) show ?thesis by (auto simp: records_def started_sops_def)
qed

subsection \<open>An execution\<close>

definition demo_sop :: sop where
  "demo_sop = \<lparr>sop_id = ''p'', sop_name = ''demo'', sop_description = [], sop_mode_of = ModeAuto,
     sop_steps = [\<lparr>stp_id = ''a'', stp_name = [], stp_description = [], stp_action = ''make'', stp_priority = 0,
        stp_status = StepOther [], stp_output = [], stp_error = [], stp_approval = False, stp_timeout = 0\<rparr>],
     sop_status_of = SopPaused, sop_current = 0, sop_created = None, sop_updated = None, sop_metadata = [],
     sop_persist_error = []\<rparr>"

definition go_on :: "sop_phase \<times> sop_engine \<Rightarrow> sop_engine" where
  "go_on r = set_thread 0 (Some (''p'', fst r)) (snd r)"

definition w0 :: sop_engine where
  "w0 = new_sop_engine None (empty_sop_engine Map.empty)"
definition w1 :: sop_engine where
  "w1 = snd (create_sop Saved 1 (Some demo_sop) w0)"
definition w2 :: sop_engine where
  "w2 = set_thread 0 (Some (''p'', Ordering)) (projr (begin_locked ''p'' w1))"
definition w3 :: sop_engine where
  "w3 = set_thread 0 (Some (''p'', (case so_sops w2 ''p'' of None \<Rightarrow> Panicked | Some x \<Rightarrow> AtStep (step_order x) []))) w2"
definition w4 :: sop_engine where
  "w4 = go_on (run_round Saved 2 False ''p'' 0 [] [] w3)"
definition w5 :: sop_engine where
  "w5 = snd (pause_sop Saved 3 ''p'' w4)"
definition w6 :: sop_engine where
  "w6 = go_on (record_outcome (SavedButLost ''down'') 4 ''p'' 0 [] (Inl ''no'') w5)"
definition w7 :: sop_engine where
  "w7 = set_thread 0 None (end_execution ''p'' w6)"
definition w8 :: sop_engine where
  "w8 = snd (retry_persistence Saved 5 ''p'' w7)"
definition w9 :: sop_engine where
  "w9 = set_thread 0 (Some (''p'', Ordering)) (snd (resume_sop Saved 6 ''p'' w8))"
definition w10 :: sop_engine where
  "w10 = set_thread 0 (Some (''p'', (case so_sops w9 ''p'' of None \<Rightarrow> Panicked | Some x \<Rightarrow> AtStep (step_order x) []))) w9"
definition w11 :: sop_engine where
  "w11 = go_on (run_round Saved 7 False ''p'' 0 [] [] w10)"

lemmas w_defs = w0_def w1_def w2_def w3_def w4_def w5_def w6_def w7_def w8_def w9_def w10_def w11_def

lemma w_begin: "begin_locked ''p'' w1 = Inr (projr (begin_locked ''p'' w1))" "so_threads w1 0 = None"
proof -
  have "\<not> isl (begin_locked ''p'' w1)" by code_simp
  then show "begin_locked ''p'' w1 = Inr (projr (begin_locked ''p'' w1))" by simp
  show "so_threads w1 0 = None" by code_simp
qed

lemma w_threads:
  "so_threads w2 0 = Some (''p'', Ordering)" "so_threads w3 0 = Some (''p'', AtStep [0] [])"
  "so_threads w4 0 = Some (''p'', Acting 0 [])" "so_threads w5 0 = Some (''p'', Acting 0 [])"
  "so_threads w6 0 = Some (''p'', Leaving [SopStepFailed ''p'' ''no'', SopPersistence ''p'' ''down''])"
  "so_threads w8 0 = None" "so_threads w9 0 = Some (''p'', Ordering)" "so_threads w10 0 = Some (''p'', AtStep [0] [])"
  by code_simp+

lemma w_resumed: "fst (resume_sop Saved 6 ''p'' w8) = None"
  by code_simp

lemma sop_next: "sop_reachable s \<Longrightarrow> sop_step s s' \<Longrightarrow> s'' = s' \<Longrightarrow> sop_reachable s''"
  by (simp add: sop_reachable.step)

lemma w_reach4: "sop_reachable w4"
proof -
  have 0: "sop_reachable w0"
    unfolding w0_def by (rule sop_reachable.start) simp
  have 1: "sop_reachable w1"
    by (rule sop_next [OF 0 sop_step.create [of Saved 1 "Some demo_sop" w0]]) (simp_all add: w1_def prod_eq_iff)
  have 2: "sop_reachable w2"
    by (rule sop_next [OF 1 sop_step.execute [OF w_begin]]) (simp add: w2_def)
  have 3: "sop_reachable w3"
    by (rule sop_next [OF 2 sop_step.order [OF w_threads(1)]]) (simp add: w3_def)
  show ?thesis
    by (rule sop_next [OF 3 sop_step.round [OF w_threads(2) surjective_pairing]]) (simp add: w4_def go_on_def)
qed

lemma w_reach11: "sop_reachable w11"
proof -
  have 5: "sop_reachable w5"
    by (rule sop_next [OF w_reach4 sop_step.pause [OF surjective_pairing]]) (simp add: w5_def)
  have 6: "sop_reachable w6"
    by (rule sop_next [OF 5 sop_step.outcome [OF w_threads(4) surjective_pairing]]) (simp add: w6_def go_on_def)
  have 7: "sop_reachable w7"
    by (rule sop_next [OF 6 sop_step.leave [OF w_threads(5)]]) (simp add: w7_def)
  have 8: "sop_reachable w8"
    by (rule sop_next [OF 7 sop_step.retry [OF surjective_pairing]]) (simp add: w8_def)
  have 9: "sop_reachable w9"
    by (rule sop_next [OF 8 sop_step.resume [of Saved 6 "''p''" w8 _ 0]])
      (simp_all add: w9_def w_threads prod_eq_iff w_resumed)
  have 10: "sop_reachable w10"
    by (rule sop_next [OF 9 sop_step.order [OF w_threads(7)]]) (simp add: w10_def)
  show ?thesis
    by (rule sop_next [OF 10 sop_step.round [OF w_threads(8) surjective_pairing]]) (simp add: w11_def go_on_def)
qed

lemma w11_log: "so_log w11 = [] @ ActionStarted ''p'' 0 ''make'' # [ActionEnded ''p'' 0 False] @ ActionStarted ''p'' 0 ''make'' # []"
  by code_simp

theorem sop_no_replay_witness: "last_about ''p'' 0 [ActionEnded ''p'' 0 False] = Some (ActionEnded ''p'' 0 False)"
  by (rule sop_no_replay [OF w_reach11 w11_log])

definition c1 :: sop_engine where
  "c1 = snd (cancel_sop Saved 8 ''p'' w4)"
definition c2 :: sop_engine where
  "c2 = new_sop_engine None (go_on (record_outcome Saved 9 ''p'' 0 [] (Inr ''made'') c1))"

lemma c_steps:
  "cancel_sop Saved 8 ''p'' w4 = (None, c1)" "sop_step\<^sup>*\<^sup>* c1 c2"
proof -
  have "fst (cancel_sop Saved 8 ''p'' w4) = None" by code_simp
  then show "cancel_sop Saved 8 ''p'' w4 = (None, c1)" by (simp add: c1_def prod_eq_iff)
  have "so_threads c1 0 = Some (''p'', Acting 0 [])" by code_simp
  note act = sop_step.outcome [OF this surjective_pairing, of Saved 9 "Inr ''made''"]
  have "sop_step\<^sup>*\<^sup>* c1 (go_on (record_outcome Saved 9 ''p'' 0 [] (Inr ''made'') c1))"
    using act unfolding go_on_def by (rule r_into_rtranclp)
  moreover have "sop_step (go_on (record_outcome Saved 9 ''p'' 0 [] (Inr ''made'') c1)) c2"
    unfolding c2_def by (rule sop_step.crash)
  ultimately show "sop_step\<^sup>*\<^sup>* c1 c2" by (rule rtranclp.rtrancl_into_rtrancl)
qed

theorem cancelled_starts_nothing_witness:
  "\<exists>l. so_log c2 = so_log w4 @ l \<and> (\<forall>k a. ActionStarted ''p'' k a \<notin> set l)"
  by (rule cancelled_starts_nothing [OF w_reach4 c_steps])

end
