(* ===== verification/Seahorse.thy ===== *)
theory Seahorse
  imports Go_Text
begin

text \<open>
  The durable summary DAG behind history compaction (\<open>internal/compaction/seahorse\<close>: \<open>history.go\<close>,
  \<open>store.go\<close>, \<open>postgres.go\<close>, \<open>retrieval.go\<close>, the types of \<open>seahorse.go\<close>, \<open>scope.go\<close>).

  A session has raw messages (\<open>sd_sources\<close>), immutable nodes (\<open>sd_nodes\<close>) and a snapshot that names the head
  of the DAG; ids are hashes of contents.  \<open>compact_plan\<close> is \<open>Compact\<close> from the loaded snapshot up to the
  commit, \<open>commit_session\<close> is the transaction, \<open>finish_compact\<close> what \<open>Compact\<close> does with its outcome; between
  the two other callers may commit.  SHA-256 and the JSON texts of \<open>encoding/json\<close> are parameters; a
  summarising call of the model, with the checks around it, consumes one \<open>reply\<close>.  The rows hold values
  where the code holds their JSON.
\<close>

subsection \<open>Data\<close>

record tool_call =
  tc_id :: string
  tc_name :: string
  tc_arguments :: string

record attachment =
  at_kind :: string
  at_media :: string
  at_data :: string

record chat_message =
  cm_role :: string
  cm_content :: string
  cm_calls :: "tool_call list"
  cm_call_id :: string
  cm_attachments :: "attachment list"

datatype summary_kind = KindLeaf | KindCondensed | KindOther string

record summary =
  sm_id :: string
  sm_kind :: summary_kind
  sm_depth :: int
  sm_content :: string
  sm_tokens :: int
  sm_desc_count :: int
  sm_desc_tokens :: int
  sm_source_tokens :: int
  sm_model :: string
  sm_earliest :: int
  sm_latest :: int
  sm_parents :: "string list"

record dag_node =
  nd_summary :: summary
  nd_sources :: "string list"
  nd_hash :: string

record sea_source =
  so_id :: string
  so_message :: chat_message

record sea_snapshot =
  sn_revision :: int
  sn_head :: string
  sn_input :: string
  sn_output :: "chat_message list"

record prompt_entry =
  pe_role :: string
  pe_content :: string
  pe_calls :: "tool_call list"
  pe_call_id :: string
  pe_attachments :: "string list"

datatype sea_error = SeaError string | SeaConflict | SeaNotFound | SeaModel string | SeaContext

record sea_env =
  sha256 :: "string \<Rightarrow> string"
  js_message :: "chat_message \<Rightarrow> string"
  js_history :: "chat_message list \<Rightarrow> string"
  js_node :: "dag_node \<Rightarrow> string"
  js_summaries :: "summary list \<Rightarrow> string"
  js_entries :: "prompt_entry list \<Rightarrow> string"
  js_source :: "sea_source \<Rightarrow> string"
  js_snapshot :: "sea_snapshot \<Rightarrow> string"
  js_strings :: "string list \<Rightarrow> string"

subsection \<open>Hashes and token estimates\<close>

definition estimate :: "string \<Rightarrow> int" where
  "estimate s = (int (length s) + 3) div 4"

definition message_tokens :: "sea_env \<Rightarrow> chat_message list \<Rightarrow> int" where
  "message_tokens E ms = sum_list (map (\<lambda>m. estimate (js_message E m) + 4) ms)"

definition source_for :: "sea_env \<Rightarrow> chat_message \<Rightarrow> sea_source" where
  "source_for E m = \<lparr>so_id = sha256 E (js_message E m), so_message = m\<rparr>"

definition blank_node :: "dag_node \<Rightarrow> dag_node" where
  "blank_node n = n\<lparr>nd_hash := [], nd_summary := (nd_summary n)\<lparr>sm_id := []\<rparr>\<rparr>"

definition seal_node :: "sea_env \<Rightarrow> dag_node \<Rightarrow> dag_node" where
  "seal_node E n = (let h = sha256 E (js_node E (blank_node n))
     in n\<lparr>nd_hash := h, nd_summary := (nd_summary n)\<lparr>sm_id := h\<rparr>\<rparr>)"

definition validate_node :: "sea_env \<Rightarrow> dag_node \<Rightarrow> sea_error option" where
  "validate_node E n = (let s = nd_summary n in
     if 64 < sm_depth s \<or> sm_depth s < 0 then Some (SeaError ''node depth exceeds safety bound'')
     else if nd_hash n = [] \<or> nd_hash (seal_node E n) \<noteq> nd_hash n \<or> sm_id s \<noteq> nd_hash n then Some (SeaError ''corrupt node hash'')
     else if sm_kind s = KindLeaf \<and> (nd_sources n = [] \<or> sm_parents s \<noteq> [] \<or> sm_depth s \<noteq> 0) then Some (SeaError ''invalid leaf lineage'')
     else if sm_kind s = KindCondensed \<and> (nd_sources n \<noteq> [] \<or> length (sm_parents s) < 2 \<or> sm_depth s < 1)
       then Some (SeaError ''invalid condensed lineage'')
     else if sm_kind s \<noteq> KindLeaf \<and> sm_kind s \<noteq> KindCondensed then Some (SeaError ''invalid node kind'')
     else None)"

definition marker_prefix :: string where
  "marker_prefix = ''[seahorse summary ''"

definition summary_message :: "dag_node \<Rightarrow> chat_message" where
  "summary_message n = \<lparr>cm_role = ''assistant'',
     cm_content = marker_prefix @ nd_hash n @ '' depth='' @ show_int (sm_depth (nd_summary n)) @ '']'' @ [CHR 0x0A] @
       sm_content (nd_summary n) @ [CHR 0x0A] @
       ''[Compressed memory is fallible. Inspect the stored node and raw source before asserting exact details.]'',
     cm_calls = [], cm_call_id = [], cm_attachments = []\<rparr>"

definition valid_output :: "chat_message list \<Rightarrow> dag_node \<Rightarrow> bool" where
  "valid_output out n = (case out of [] \<Rightarrow> False
     | m # _ \<Rightarrow> cm_role m = ''assistant'' \<and> cm_content m = cm_content (summary_message n))"

definition scoped_session :: "sea_env \<Rightarrow> string \<Rightarrow> string \<Rightarrow> string" where
  "scoped_session E scope base = (if scope = [] then base else ''execution-view-'' @ sha256 E (js_strings E [base, scope]))"

subsection \<open>Tool batches\<close>

text \<open>\<open>pending\<close> is the set of the ids of calls that have no result yet.\<close>

fun add_calls :: "tool_call list \<Rightarrow> string list \<Rightarrow> string list option" where
  "add_calls [] pending = Some pending"
| "add_calls (c # cs) pending = (if tc_id c = [] \<or> tc_id c \<in> set pending then None else add_calls cs (tc_id c # pending))"

fun tool_groups :: "string list \<Rightarrow> chat_message list \<Rightarrow> sea_error option" where
  "tool_groups pending [] = (if pending = [] then None else Some (SeaError ''incomplete tool-call batch''))"
| "tool_groups pending (m # ms) =
     (if cm_role m = ''tool'' then
        (if cm_call_id m = [] \<or> cm_call_id m \<notin> set pending then Some (SeaError ''orphan/duplicate tool result'')
         else tool_groups (remove1 (cm_call_id m) pending) ms)
      else if pending \<noteq> [] then Some (SeaError ''incomplete tool-call batch'')
      else if cm_calls m \<noteq> [] \<and> cm_role m \<noteq> ''assistant'' then Some (SeaError ''tool calls require assistant role'')
      else (case add_calls (cm_calls m) [] of None \<Rightarrow> Some (SeaError ''invalid/duplicate tool-call ID'')
            | Some p \<Rightarrow> tool_groups p ms))"

definition validate_tool_groups :: "chat_message list \<Rightarrow> sea_error option" where
  "validate_tool_groups ms = tool_groups [] ms"

text \<open>The loop that moves the split point to the start of a batch.\<close>

fun move_split :: "chat_message list \<Rightarrow> nat \<Rightarrow> nat" where
  "move_split ms 0 = 0"
| "move_split ms (Suc k) =
     (if Suc k < length ms \<and> cm_role (ms ! Suc k) = ''tool'' then move_split ms k else Suc k)"

subsection \<open>Options and the compactor\<close>

record history_options =
  ho_fresh_tail :: int
  ho_leaf_target :: int
  ho_condensed_target :: int
  ho_max_input_tokens :: int
  ho_max_input_bytes :: int
  ho_max_messages :: int
  ho_fan_in :: int
  ho_model :: string

definition default_options :: history_options where
  "default_options = \<lparr>ho_fresh_tail = 20, ho_leaf_target = 1200, ho_condensed_target = 2000, ho_max_input_tokens = 12000,
     ho_max_input_bytes = 4194304, ho_max_messages = 4096, ho_fan_in = 4, ho_model = []\<rparr>"

definition fill_options :: "history_options \<Rightarrow> history_options" where
  "fill_options o0 = (let d = default_options; pick = (\<lambda>f. if f o0 \<le> 0 then f d else f o0)
     in o0\<lparr>ho_fresh_tail := pick ho_fresh_tail, ho_leaf_target := pick ho_leaf_target,
        ho_condensed_target := pick ho_condensed_target, ho_max_input_tokens := pick ho_max_input_tokens,
        ho_max_input_bytes := pick ho_max_input_bytes, ho_max_messages := pick ho_max_messages,
        ho_fan_in := (if ho_fan_in o0 < 2 then ho_fan_in d else ho_fan_in o0)\<rparr>)"

definition new_history_compactor :: "string \<Rightarrow> history_options \<Rightarrow> sea_error + history_options" where
  "new_history_compactor session o0 =
    (if trim_space session = [] \<or> 256 < length session then Inl (SeaError ''provider, store and session are required'')
     else let opts = fill_options o0 in
       if ho_max_input_bytes opts > 16 * 1024 * 1024 \<or> ho_max_messages opts > 4096 \<or> ho_fan_in opts > 16 \<or>
          ho_max_input_tokens opts > 100000 \<or> ho_fresh_tail opts > 4096 \<or> ho_leaf_target opts > 32000 \<or>
          ho_condensed_target opts > 32000
       then Inl (SeaError ''options exceed safety bounds'') else Inr opts)"



subsection \<open>Rows of a session\<close>

record session_data =
  sd_snapshot :: sea_snapshot
  sd_sources :: "(string \<times> sea_source) list"
  sd_nodes :: "(string \<times> dag_node) list"

definition empty_session :: session_data where
  "empty_session = \<lparr>sd_snapshot = \<lparr>sn_revision = 0, sn_head = [], sn_input = [], sn_output = []\<rparr>,
     sd_sources = [], sd_nodes = []\<rparr>"

definition load_node :: "sea_env \<Rightarrow> session_data \<Rightarrow> string \<Rightarrow> sea_error + dag_node" where
  "load_node E sd i = (case map_of (sd_nodes sd) i of
     None \<Rightarrow> Inl SeaNotFound
   | Some n \<Rightarrow> if nd_hash n \<noteq> i then Inl (SeaError ''node identity mismatch'')
       else (case validate_node E n of Some e \<Rightarrow> Inl e | None \<Rightarrow> Inr n))"

definition load_source :: "sea_env \<Rightarrow> session_data \<Rightarrow> string \<Rightarrow> sea_error + sea_source" where
  "load_source E sd i = (case map_of (sd_sources sd) i of
     None \<Rightarrow> Inl SeaNotFound
   | Some s \<Rightarrow> if so_id s \<noteq> i \<or> so_id (source_for E (so_message s)) \<noteq> i then Inl (SeaError ''corrupt source hash'') else Inr s)"

subsection \<open>Summarising\<close>

datatype reply = Refused string | Failed string | Interrupted | Answer string bool string int

definition prompt_messages :: "sea_env \<Rightarrow> chat_message list \<Rightarrow> string" where
  "prompt_messages E ms = js_entries E (map (\<lambda>m. \<lparr>pe_role = cm_role m, pe_content = cm_content m, pe_calls = cm_calls m,
     pe_call_id = cm_call_id m,
     pe_attachments = map (\<lambda>a. ''kind='' @ at_kind a @ '' mime='' @ at_media a @ '' bytes='' @ show_int (int (length (at_data a))) @
       '' sha256='' @ sha256 E (at_data a)) (cm_attachments m)\<rparr>) ms)"

text \<open>
  \<open>summarize\<close> with the next reply: \<open>Refused\<close> is an error of the usage accounting before or after the
  call, \<open>Answer text calls model now\<close> a response, with whether it has tool calls.  A supply of replies
  that has run out counts as a failing provider.
\<close>

definition summarize :: "string \<Rightarrow> string \<Rightarrow> int \<Rightarrow> int \<Rightarrow> int \<Rightarrow> reply list
    \<Rightarrow> (sea_error + string \<times> string \<times> int) \<times> reply list" where
  "summarize data model target input_limit budget replies =
    (if input_limit < estimate data then (Inl (SeaError ''indivisible summary input exceeds model budget''), replies)
     else let target = min target (budget - estimate data - 256) in
       if target < 32 then (Inl (SeaError ''insufficient summary output budget''), replies)
       else (case replies of
           [] \<Rightarrow> (Inl (SeaModel []), [])
         | Refused e # rs \<Rightarrow> (Inl (SeaModel e), rs)
         | Failed e # rs \<Rightarrow> (Inl (SeaModel (''seahorse: summary provider: '' @ e)), rs)
         | Interrupted # rs \<Rightarrow> (Inl SeaContext, rs)
         | Answer raw calls actual now # rs \<Rightarrow>
             (let text = trim_space raw in
              if text = [] \<or> calls \<or> target < estimate text
              then (Inl (SeaError ''empty, tool-producing or over-budget summary''), rs)
              else (Inr (text, if actual = [] then model else actual, now), rs))))"

record limits =
  lm_model :: string
  lm_target :: int
  lm_condensed :: int
  lm_input :: int
  lm_context :: int

subsection \<open>Leaves\<close>

text \<open>\<open>chunks\<close>: \<open>cur\<close> are the messages from \<open>start\<close> to \<open>i\<close>.\<close>

function chunk_loop :: "sea_env \<Rightarrow> int \<Rightarrow> chat_message list \<Rightarrow> int \<Rightarrow> chat_message list
    \<Rightarrow> sea_error + chat_message list list" where
  "chunk_loop E limit cur used [] = Inr (if cur = [] then [] else [cur])"
| "chunk_loop E limit cur used (m # ms) =
     (let unit = m # (if cm_calls m \<noteq> [] then takeWhile (\<lambda>x. cm_role x = ''tool'') ms else []);
          rest = drop (length unit - 1) ms;
          cost = estimate (prompt_messages E unit)
      in if limit < cost then Inl (SeaError ''indivisible tool/message unit exceeds summary input budget'')
         else if limit < used + cost \<and> cur \<noteq> [] then map_sum id (Cons cur) (chunk_loop E limit unit cost rest)
         else chunk_loop E limit (cur @ unit) (used + cost) rest)"
  by pat_completeness auto
termination
  by (relation "measure (\<lambda>(E, limit, cur, used, ms). length ms)") auto

definition chunks :: "sea_env \<Rightarrow> int \<Rightarrow> chat_message list \<Rightarrow> sea_error + chat_message list list" where
  "chunks E limit ms = chunk_loop E limit [] 0 ms"

definition leaf_node :: "sea_env \<Rightarrow> chat_message list \<Rightarrow> string \<times> string \<times> int \<Rightarrow> dag_node" where
  "leaf_node E chunk ans = (case ans of (text, model, now) \<Rightarrow> seal_node E
     \<lparr>nd_summary = \<lparr>sm_id = [], sm_kind = KindLeaf, sm_depth = 0, sm_content = text, sm_tokens = estimate text,
        sm_desc_count = int (length chunk), sm_desc_tokens = message_tokens E chunk, sm_source_tokens = message_tokens E chunk,
        sm_model = model, sm_earliest = now, sm_latest = now, sm_parents = []\<rparr>,
      nd_sources = map (\<lambda>m. so_id (source_for E m)) chunk, nd_hash = []\<rparr>)"

fun leaf_nodes :: "sea_env \<Rightarrow> limits \<Rightarrow> chat_message list list \<Rightarrow> dag_node list \<Rightarrow> reply list
    \<Rightarrow> (sea_error + dag_node list) \<times> reply list" where
  "leaf_nodes E lim [] nodes rs = (Inr nodes, rs)"
| "leaf_nodes E lim (c # cs) nodes rs =
     (if 128 \<le> length nodes then (Inl (SeaError ''summary node work bound exceeded''), rs)
      else (case summarize (prompt_messages E c) (lm_model lim) (lm_target lim) (lm_input lim) (lm_context lim) rs of
          (Inl e, rs) \<Rightarrow> (Inl e, rs)
        | (Inr ans, rs) \<Rightarrow> leaf_nodes E lim cs (nodes @ [leaf_node E c ans]) rs))"

subsection \<open>Condensation\<close>

text \<open>The loop that reduces the fan-in of a group.\<close>

function shrink_group :: "sea_env \<Rightarrow> int \<Rightarrow> dag_node list \<Rightarrow> dag_node list" where
  "shrink_group E limit g =
     (if length g > 2 \<and> \<not> estimate (js_summaries E (map nd_summary g)) \<le> limit then shrink_group E limit (butlast g) else g)"
  by pat_completeness auto
termination
  by (relation "measure (\<lambda>(E, limit, g). length g)") auto

declare shrink_group.simps [simp del]

definition max_list :: "int \<Rightarrow> int list \<Rightarrow> int" where
  "max_list a xs = fold max xs a"

definition condensed_node :: "dag_node list \<Rightarrow> string \<times> string \<times> int \<Rightarrow> dag_node" where
  "condensed_node g ans = (case ans of (text, model, now) \<Rightarrow>
     \<lparr>nd_summary = \<lparr>sm_id = [], sm_kind = KindCondensed, sm_depth = max_list 0 (map (\<lambda>n. sm_depth (nd_summary n) + 1) g),
        sm_content = text, sm_tokens = estimate text,
        sm_desc_count = sum_list (map (\<lambda>n. sm_desc_count (nd_summary n)) g),
        sm_desc_tokens = sum_list (map (\<lambda>n. sm_desc_tokens (nd_summary n)) g),
        sm_source_tokens = sum_list (map (\<lambda>n. sm_source_tokens (nd_summary n)) g),
        sm_model = model, sm_earliest = sm_earliest (nd_summary (hd g)), sm_latest = sm_latest (nd_summary (last g)),
        sm_parents = map nd_hash g\<rparr>,
      nd_sources = [], nd_hash = []\<rparr>)"

text \<open>One round over the parents; a group is never empty.\<close>

function condense_round :: "sea_env \<Rightarrow> limits \<Rightarrow> nat \<Rightarrow> dag_node list \<Rightarrow> dag_node list \<Rightarrow> dag_node list \<Rightarrow> reply list
    \<Rightarrow> (sea_error + dag_node list \<times> dag_node list) \<times> reply list" where
  "condense_round E lim fan [] nxt nodes rs = (Inr (nxt, nodes), rs)"
| "condense_round E lim fan (p # ps) nxt nodes rs =
     (let g = shrink_group E (lm_input lim) (take fan (p # ps)); rest = drop (length g - 1) ps in
      if length g \<le> 1 then condense_round E lim fan rest (nxt @ [p]) nodes rs
      else if 256 \<le> length nodes then (Inl (SeaError ''condensation work bound exceeded''), rs)
      else (case summarize (js_summaries E (map nd_summary g)) (lm_model lim) (lm_condensed lim) (lm_input lim) (lm_context lim) rs of
          (Inl e, rs) \<Rightarrow> (Inl e, rs)
        | (Inr ans, rs) \<Rightarrow>
            (let n = condensed_node g ans in
             if 64 < sm_depth (nd_summary n) then (Inl (SeaError ''retained DAG depth exceeds safety bound''), rs)
             else condense_round E lim fan rest (nxt @ [seal_node E n]) (nodes @ [seal_node E n]) rs)))"
  by pat_completeness auto
termination
  by (relation "measure (\<lambda>(E, lim, fan, ps, nxt, nodes, rs). length ps)") auto

text \<open>The rounds until one parent is left; \<open>None\<close> means that they never end.\<close>

partial_function (option) condense :: "sea_env \<Rightarrow> limits \<Rightarrow> nat \<Rightarrow> dag_node list \<Rightarrow> dag_node list \<Rightarrow> reply list
    \<Rightarrow> ((sea_error + dag_node list \<times> dag_node list) \<times> reply list) option" where
  "condense E lim fan ps nodes rs =
    (if length ps \<le> 1 then Some (Inr (ps, nodes), rs)
     else (case condense_round E lim fan ps [] nodes rs of
         (Inl e, rs) \<Rightarrow> Some (Inl e, rs)
       | (Inr (nxt, nodes), rs) \<Rightarrow> condense E lim fan nxt nodes rs))"

subsection \<open>Planning a compaction\<close>

record compact_call =
  cl_alive :: bool
  cl_messages :: "chat_message list"
  cl_model :: string
  cl_max_tokens :: int
  cl_models :: "(string \<times> int \<times> int) list"
  cl_replies :: "reply list"

record plan =
  pl_revision :: int
  pl_sources :: "sea_source list"
  pl_nodes :: "dag_node list"
  pl_next :: sea_snapshot
  pl_head :: dag_node

datatype outcome = Replayed "chat_message list" string | Planned plan

definition is_marker :: "chat_message \<Rightarrow> bool" where
  "is_marker m = (cm_role m = ''assistant'' \<and> has_prefix (cm_content m) marker_prefix)"

text \<open>The limits of the summarising model, after \<open>available\<close> tokens are left beside the tail.\<close>

definition call_limits :: "history_options \<Rightarrow> compact_call \<Rightarrow> int \<Rightarrow> limits" where
  "call_limits opts cl available =
    (let mdl = (if ho_model opts = [] then cl_model cl else ho_model opts);
         target = min (ho_leaf_target opts) available;
         condensed = min (ho_condensed_target opts) available;
         (ctx, target, condensed) =
           (case map_of (cl_models cl) mdl of
              None \<Rightarrow> (cl_max_tokens cl, target, condensed)
            | Some (window, max_out) \<Rightarrow>
                (if window > 0 then min (cl_max_tokens cl) window else cl_max_tokens cl,
                 if max_out > 0 then min target max_out else target,
                 if max_out > 0 then min condensed max_out else condensed))
     in \<lparr>lm_model = mdl, lm_target = target, lm_condensed = condensed,
         lm_input = min (ho_max_input_tokens opts) (ctx - 288), lm_context = ctx\<rparr>)"

definition leaf_limit :: "limits \<Rightarrow> int" where
  "leaf_limit lim = min (lm_input lim) (lm_context lim - lm_target lim - 256)"

text \<open>The parent that a marker at the start of the prefix stands for.\<close>

definition old_head :: "sea_env \<Rightarrow> session_data \<Rightarrow> chat_message list \<Rightarrow> sea_error + dag_node list \<times> chat_message list" where
  "old_head E sd prefix =
    (let head = sn_head (sd_snapshot sd) in
     case prefix of
       m # rest \<Rightarrow>
         if is_marker m then
           (if head = [] then Inl (SeaError ''summary marker has no session head'')
            else case load_node E sd head of
                Inl e \<Rightarrow> Inl e
              | Inr old \<Rightarrow> if cm_content m \<noteq> cm_content (summary_message old)
                  then Inl (SeaError ''stale or forged session summary'') else Inr ([old], rest))
         else if head \<noteq> [] then Inl (SeaError ''history does not reference persisted session head'') else Inr ([], prefix)
     | [] \<Rightarrow> if head \<noteq> [] then Inl (SeaError ''history does not reference persisted session head'') else Inr ([], []))"

definition build_plan :: "sea_env \<Rightarrow> history_options \<Rightarrow> session_data \<Rightarrow> compact_call \<Rightarrow> limits \<Rightarrow> dag_node list
    \<Rightarrow> chat_message list \<Rightarrow> chat_message list \<Rightarrow> (sea_error + outcome) option" where
  "build_plan E opts sd cl lim parents prefix tail =
    (case chunks E (leaf_limit lim) prefix of Inl e \<Rightarrow> Some (Inl e) | Inr cs \<Rightarrow>
       (case leaf_nodes E lim cs [] (cl_replies cl) of (Inl e, rs) \<Rightarrow> Some (Inl e) | (Inr leaves, rs) \<Rightarrow>
          if parents @ leaves = [] then Some (Inl (SeaError ''no source messages''))
          else map_option (\<lambda>r. case r of
              (Inl e, rs) \<Rightarrow> Inl e
            | (Inr (ps, nodes), rs) \<Rightarrow>
                (let head = hd ps; out = summary_message head # tail in
                 if cl_max_tokens cl < message_tokens E out then Inl (SeaError ''assembled context exceeds budget'')
                 else Inr (Planned \<lparr>pl_revision = sn_revision (sd_snapshot sd),
                        pl_sources = map (source_for E) (prefix @ tail), pl_nodes = nodes,
                        pl_next = \<lparr>sn_revision = 0, sn_head = nd_hash head,
                          sn_input = sha256 E (js_history E (cl_messages cl)), sn_output = out\<rparr>,
                        pl_head = head\<rparr>)))
            (condense E lim (nat (ho_fan_in opts)) (parents @ leaves) leaves rs)))"

definition replay :: "sea_env \<Rightarrow> session_data \<Rightarrow> int \<Rightarrow> sea_error + outcome" where
  "replay E sd max_tokens = (let state = sd_snapshot sd in
     case load_node E sd (sn_head state) of Inl e \<Rightarrow> Inl e | Inr n \<Rightarrow>
       if \<not> valid_output (sn_output state) n \<or> max_tokens < message_tokens E (sn_output state)
       then Inl (SeaError ''invalid or over-budget persisted output'')
       else Inr (Replayed (sn_output state) (sm_content (nd_summary n))))"

definition split_point :: "history_options \<Rightarrow> chat_message list \<Rightarrow> nat" where
  "split_point opts ms = move_split ms (nat (max 0 (int (length ms) - ho_fresh_tail opts)))"

definition compact_plan :: "sea_env \<Rightarrow> history_options \<Rightarrow> session_data \<Rightarrow> compact_call \<Rightarrow> (sea_error + outcome) option" where
  "compact_plan E opts sd cl =
    (let ms = cl_messages cl; state = sd_snapshot sd; split = split_point opts ms;
         tail = drop split ms;
         available = cl_max_tokens cl - message_tokens E tail - 160;
         lim = call_limits opts cl available
     in if \<not> cl_alive cl then Some (Inl SeaContext)
        else if ms = [] \<or> ho_max_messages opts < int (length ms) \<or> cl_max_tokens cl \<le> 0
          then Some (Inl (SeaError ''invalid history/budget''))
        else if ho_max_input_bytes opts < int (length (js_history E ms)) then Some (Inl (SeaError ''history exceeds byte bound''))
        else if sn_input state = sha256 E (js_history E ms) \<and> sn_head state \<noteq> [] then Some (replay E sd (cl_max_tokens cl))
        else case validate_tool_groups ms of Some e \<Rightarrow> Some (Inl e) | None \<Rightarrow>
          if split = 0 then Some (Inl (SeaError ''no compactable prefix without splitting protected tail''))
          else if available < 32 then Some (Inl (SeaError ''protected raw tail exceeds available context budget''))
          else if lm_model lim = [] then Some (Inl (SeaError ''summary model is required''))
          else if leaf_limit lim < 32 then Some (Inl (SeaError ''summary model has insufficient input budget''))
          else (case old_head E sd (take split ms) of Inl e \<Rightarrow> Some (Inl e)
            | Inr (parents, prefix) \<Rightarrow> build_plan E opts sd cl lim parents prefix tail))"

subsection \<open>Committing\<close>

record store_limits =
  sl_sources :: int
  sl_nodes :: int
  sl_bytes :: int

definition default_store_limits :: store_limits where
  "default_store_limits = \<lparr>sl_sources = 100000, sl_nodes = 20000, sl_bytes = 512 * 1024 * 1024\<rparr>"

fun put_sources :: "sea_env \<Rightarrow> sea_source list \<Rightarrow> session_data \<Rightarrow> sea_error + session_data" where
  "put_sources E [] sd = Inr sd"
| "put_sources E (s # ss) sd =
     (if so_id (source_for E (so_message s)) \<noteq> so_id s then Inl (SeaError ''invalid source hash'')
      else if 4 * 1024 * 1024 < int (length (js_source E s)) then Inl (SeaError ''source exceeds bound'')
      else case map_of (sd_sources sd) (so_id s) of
          None \<Rightarrow> put_sources E ss (sd\<lparr>sd_sources := sd_sources sd @ [(so_id s, s)]\<rparr>)
        | Some old \<Rightarrow> if so_id old \<noteq> so_id s \<or> so_id (source_for E (so_message old)) \<noteq> so_id s
            then Inl (SeaError ''existing source hash mismatch'') else put_sources E ss sd)"

fun parents_depth :: "sea_env \<Rightarrow> session_data \<Rightarrow> string list \<Rightarrow> int \<Rightarrow> sea_error + int" where
  "parents_depth E sd [] d = Inr d"
| "parents_depth E sd (i # is) d =
     (case map_of (sd_nodes sd) i of
        None \<Rightarrow> Inl (SeaError ''missing parent'')
      | Some p \<Rightarrow> (case validate_node E p of Some e \<Rightarrow> Inl e | None \<Rightarrow>
          if nd_hash p \<noteq> i then Inl (SeaError ''parent identity mismatch'')
          else parents_depth E sd is (max d (sm_depth (nd_summary p)))))"

definition check_node :: "sea_env \<Rightarrow> session_data \<Rightarrow> dag_node \<Rightarrow> sea_error option" where
  "check_node E sd n =
    (case validate_node E n of Some e \<Rightarrow> Some e | None \<Rightarrow>
       (case parents_depth E sd (sm_parents (nd_summary n)) (- 1) of Inl e \<Rightarrow> Some e | Inr d \<Rightarrow>
          if sm_kind (nd_summary n) = KindCondensed \<and> sm_depth (nd_summary n) \<noteq> d + 1 then Some (SeaError ''invalid node depth'')
          else if \<not> list_all (\<lambda>i. map_of (sd_sources sd) i \<noteq> None) (nd_sources n) then Some (SeaError ''missing raw source'')
          else if 1024 * 1024 < int (length (js_node E n)) then Some (SeaError ''node exceeds bound'')
          else None))"

fun put_nodes :: "sea_env \<Rightarrow> dag_node list \<Rightarrow> session_data \<Rightarrow> sea_error + session_data" where
  "put_nodes E [] sd = Inr sd"
| "put_nodes E (n # ns) sd =
     (case check_node E sd n of Some e \<Rightarrow> Inl e | None \<Rightarrow>
        (case map_of (sd_nodes sd) (nd_hash n) of
           None \<Rightarrow> put_nodes E ns (sd\<lparr>sd_nodes := sd_nodes sd @ [(nd_hash n, n)]\<rparr>)
         | Some old \<Rightarrow> (case validate_node E old of Some e \<Rightarrow> Inl e | None \<Rightarrow>
             if nd_hash old \<noteq> nd_hash n then Inl (SeaError ''existing node identity mismatch'') else put_nodes E ns sd)))"

definition dataset_fits :: "sea_env \<Rightarrow> store_limits \<Rightarrow> session_data \<Rightarrow> bool" where
  "dataset_fits E lim sd = (int (length (sd_sources sd)) \<le> sl_sources lim \<and> int (length (sd_nodes sd)) \<le> sl_nodes lim \<and>
     int (sum_list (map (\<lambda>(i, s). length (js_source E s)) (sd_sources sd)) +
          sum_list (map (\<lambda>(i, n). length (js_node E n)) (sd_nodes sd))) \<le> sl_bytes lim)"

definition publish :: "sea_env \<Rightarrow> sea_snapshot \<Rightarrow> int \<Rightarrow> session_data \<Rightarrow> sea_error + session_data" where
  "publish E next current sd =
    (case map_of (sd_nodes sd) (sn_head next) of None \<Rightarrow> Inl (SeaError ''missing head'') | Some head \<Rightarrow>
       (case validate_node E head of Some e \<Rightarrow> Inl e | None \<Rightarrow>
          if nd_hash head \<noteq> sn_head next \<or> \<not> valid_output (sn_output next) head \<or> length (sn_input next) \<noteq> 64
          then Inl (SeaError ''invalid snapshot publication'')
          else (case validate_tool_groups (sn_output next) of Some e \<Rightarrow> Inl e | None \<Rightarrow>
            let next = next\<lparr>sn_revision := current + 1\<rparr> in
            if 4 * 1024 * 1024 < int (length (js_snapshot E next)) then Inl (SeaError ''snapshot exceeds bound'')
            else Inr (sd\<lparr>sd_snapshot := next\<rparr>))))"

definition commit_session :: "sea_env \<Rightarrow> store_limits \<Rightarrow> string \<Rightarrow> plan \<Rightarrow> session_data \<Rightarrow> sea_error + session_data" where
  "commit_session E lim session pl sd =
    (if session = [] \<or> 256 < int (length session) \<or> 4096 < int (length (pl_sources pl)) \<or> 256 < int (length (pl_nodes pl))
     then Inl (SeaError ''invalid commit bounds'')
     else if sn_revision (sd_snapshot sd) \<noteq> pl_revision pl then Inl SeaConflict
     else (case put_sources E (pl_sources pl) sd of Inl e \<Rightarrow> Inl e | Inr sd1 \<Rightarrow>
       (case put_nodes E (pl_nodes pl) sd1 of Inl e \<Rightarrow> Inl e | Inr sd2 \<Rightarrow>
          if \<not> dataset_fits E lim sd2 then Inl (SeaError ''retained session dataset exceeds safety bound'')
          else publish E (pl_next pl) (sn_revision (sd_snapshot sd)) sd2)))"

text \<open>The end of \<open>Compact\<close>: after a conflict the output of a winner with the same input is taken.\<close>

definition finish_compact :: "sea_env \<Rightarrow> store_limits \<Rightarrow> string \<Rightarrow> compact_call \<Rightarrow> plan \<Rightarrow> session_data
    \<Rightarrow> (sea_error + chat_message list \<times> string) \<times> session_data" where
  "finish_compact E lim session cl pl sd =
    (case commit_session E lim session pl sd of
       Inr sd' \<Rightarrow> (Inr (sn_output (pl_next pl), sm_content (nd_summary (pl_head pl))), sd')
     | Inl e \<Rightarrow>
         (let state = sd_snapshot sd in
          if e = SeaConflict \<and> sn_input state = sn_input (pl_next pl) \<and> sn_head state \<noteq> []
          then (case replay E sd (cl_max_tokens cl) of
              Inr (Replayed out text) \<Rightarrow> (Inr (out, text), sd)
            | _ \<Rightarrow> (Inl e, sd))
          else (Inl e, sd)))"

subsection \<open>Expanding a node\<close>

record walk_state =
  wk_visits :: int
  wk_bytes :: int
  wk_nodes :: "string list"
  wk_messages :: "chat_message list"

fun take_sources :: "sea_env \<Rightarrow> session_data \<Rightarrow> int \<Rightarrow> int \<Rightarrow> string list \<Rightarrow> walk_state \<Rightarrow> sea_error + walk_state" where
  "take_sources E sd max_messages max_bytes [] st = Inr st"
| "take_sources E sd max_messages max_bytes (i # is) st =
     (if max_messages \<le> int (length (wk_messages st)) then Inl (SeaError ''expansion message bound exceeded'')
      else (case load_source E sd i of Inl e \<Rightarrow> Inl e | Inr s \<Rightarrow>
        let bytes = wk_bytes st + int (length (js_message E (so_message s))) in
        if max_bytes < bytes then Inl (SeaError ''expansion byte bound exceeded'')
        else take_sources E sd max_messages max_bytes is
          (st\<lparr>wk_bytes := bytes, wk_messages := wk_messages st @ [so_message s]\<rparr>)))"

text \<open>The first argument is 65 minus the depth, so that a depth above 64 is 0.\<close>

fun walk :: "nat \<Rightarrow> sea_env \<Rightarrow> session_data \<Rightarrow> int \<Rightarrow> int \<Rightarrow> string list \<Rightarrow> string \<Rightarrow> walk_state \<Rightarrow> sea_error + walk_state"
  and walk_all :: "nat \<Rightarrow> sea_env \<Rightarrow> session_data \<Rightarrow> int \<Rightarrow> int \<Rightarrow> string list \<Rightarrow> string list \<Rightarrow> walk_state \<Rightarrow> sea_error + walk_state"
where
  "walk 0 E sd mm mb anc i st = Inl (SeaError ''expansion node/depth/cycle bound exceeded'')"
| "walk (Suc k) E sd mm mb anc i st =
     (if 1024 < wk_visits st + 1 \<or> i \<in> set anc then Inl (SeaError ''expansion node/depth/cycle bound exceeded'')
      else (case load_node E sd i of Inl e \<Rightarrow> Inl e | Inr n \<Rightarrow>
        (case walk_all k E sd mm mb (i # anc) (sm_parents (nd_summary n))
            (st\<lparr>wk_visits := wk_visits st + 1, wk_nodes := wk_nodes st @ [i]\<rparr>) of
           Inl e \<Rightarrow> Inl e
         | Inr st \<Rightarrow> take_sources E sd mm mb (nd_sources n) st)))"
| "walk_all k E sd mm mb anc [] st = Inr st"
| "walk_all k E sd mm mb anc (i # is) st =
     (case walk k E sd mm mb anc i st of Inl e \<Rightarrow> Inl e | Inr st \<Rightarrow> walk_all k E sd mm mb anc is st)"

definition expand :: "sea_env \<Rightarrow> session_data \<Rightarrow> string \<Rightarrow> string \<Rightarrow> int \<Rightarrow> int
    \<Rightarrow> sea_error + string list \<times> chat_message list" where
  "expand E sd session i max_messages max_bytes =
    (if session = [] \<or> i = [] \<or> max_messages < 1 \<or> 4096 < max_messages \<or> max_bytes < 1 \<or> 4 * 1024 * 1024 < max_bytes
     then Inl (SeaError ''invalid expansion bounds'')
     else map_sum id (\<lambda>st. (wk_nodes st, wk_messages st))
       (walk 65 E sd max_messages max_bytes [] i \<lparr>wk_visits = 0, wk_bytes = 0, wk_nodes = [], wk_messages = []\<rparr>))"

subsection \<open>Agents that share the store\<close>

text \<open>
  \<open>ag_full\<close> is no state of the code: it holds every message the agent has ever appended.  An agent that
  is inside \<open>Compact\<close> has a plan that is not yet committed.
\<close>

record agent =
  ag_session :: string
  ag_messages :: "chat_message list"
  ag_full :: "chat_message list"
  ag_plan :: "(compact_call \<times> plan) option"

record sea_state =
  ss_store :: "string \<Rightarrow> session_data"
  ss_agents :: "nat \<Rightarrow> agent"

definition set_agent :: "nat \<Rightarrow> agent \<Rightarrow> sea_state \<Rightarrow> sea_state" where
  "set_agent a g s = s\<lparr>ss_agents := (ss_agents s)(a := g)\<rparr>"

inductive sea_step :: "sea_env \<Rightarrow> store_limits \<Rightarrow> sea_state \<Rightarrow> sea_state \<Rightarrow> bool" for E lim where
  append: "ss_agents s a = g \<Longrightarrow> ag_plan g = None \<Longrightarrow> ag_messages g \<noteq> [] \<or> \<not> is_marker m \<Longrightarrow>
    sea_step E lim s (set_agent a (g\<lparr>ag_messages := ag_messages g @ [m], ag_full := ag_full g @ [m]\<rparr>) s)"
| plan: "ss_agents s a = g \<Longrightarrow> ag_plan g = None \<Longrightarrow> cl_messages cl = ag_messages g \<Longrightarrow>
    compact_plan E opts (ss_store s (ag_session g)) cl = Some (Inr (Planned pl)) \<Longrightarrow>
    sea_step E lim s (set_agent a (g\<lparr>ag_plan := Some (cl, pl)\<rparr>) s)"
| replayed: "ss_agents s a = g \<Longrightarrow> ag_plan g = None \<Longrightarrow> cl_messages cl = ag_messages g \<Longrightarrow>
    compact_plan E opts (ss_store s (ag_session g)) cl = Some (Inr (Replayed out text)) \<Longrightarrow>
    sea_step E lim s (set_agent a (g\<lparr>ag_messages := out\<rparr>) s)"
| finish: "ss_agents s a = g \<Longrightarrow> ag_plan g = Some (cl, pl) \<Longrightarrow>
    finish_compact E lim (ag_session g) cl pl (ss_store s (ag_session g)) = (r, sd) \<Longrightarrow>
    sea_step E lim s (set_agent a (g\<lparr>ag_plan := None,
        ag_messages := (case r of Inl e \<Rightarrow> ag_messages g | Inr (out, text) \<Rightarrow> out)\<rparr>)
      (s\<lparr>ss_store := (ss_store s)(ag_session g := sd)\<rparr>))"
| fail: "ss_agents s a = g \<Longrightarrow> sea_step E lim s (set_agent a (g\<lparr>ag_plan := None\<rparr>) s)"

definition sea_start :: "(nat \<Rightarrow> string) \<Rightarrow> sea_state" where
  "sea_start sessions = \<lparr>ss_store = (\<lambda>_. empty_session),
     ss_agents = (\<lambda>a. \<lparr>ag_session = sessions a, ag_messages = [], ag_full = [], ag_plan = None\<rparr>)\<rparr>"

inductive sea_reachable :: "sea_env \<Rightarrow> store_limits \<Rightarrow> sea_state \<Rightarrow> bool" for E lim where
  start: "sea_reachable E lim (sea_start sessions)"
| step: "sea_reachable E lim s \<Longrightarrow> sea_step E lim s s' \<Longrightarrow> sea_reachable E lim s'"

end
