(* ===== verification/Seahorse_Inv.thy ===== *)
theory Seahorse_Inv
  imports Seahorse
begin

text \<open>
  The invariant of the durable DAG.  \<open>expands sd i ms\<close>: the node \<open>i\<close> stands for the raw messages \<open>ms\<close>;
  \<open>represents sd ms full\<close>: the context \<open>ms\<close>, which may begin with the summary of a node, stands for the
  whole conversation \<open>full\<close>.  Rows are only added, so both survive every commit.
\<close>

subsection \<open>Rows that are only added\<close>

locale append_only =
  fixes get :: "'s \<Rightarrow> string \<Rightarrow> 'v option"
    and put_all :: "'v list \<Rightarrow> 's \<Rightarrow> 'e + 's"
    and key :: "'v \<Rightarrow> string"
    and same :: "'v \<Rightarrow> 'v \<Rightarrow> bool"
  assumes put_nil: "put_all [] s = Inr s"
    and put_cons: "put_all (x # xs) s = Inr s' \<Longrightarrow> \<exists>s1. put_all [x] s = Inr s1 \<and> put_all xs s1 = Inr s'"
    and put_keep: "put_all [x] s = Inr s1 \<Longrightarrow> get s k = Some v \<Longrightarrow> get s1 k = Some v"
    and put_get: "put_all [x] s = Inr s1 \<Longrightarrow> \<exists>v. get s1 (key x) = Some v \<and> same v x"
begin

lemma all_keep: "put_all xs s = Inr s' \<Longrightarrow> get s k = Some v \<Longrightarrow> get s' k = Some v"
proof (induction xs arbitrary: s)
  case Nil
  then show ?case by (simp add: put_nil)
next
  case (Cons x xs)
  then show ?case using put_cons [OF Cons.prems(1)] put_keep by blast
qed

lemma all_get: "put_all xs s = Inr s' \<Longrightarrow> x \<in> set xs \<Longrightarrow> \<exists>v. get s' (key x) = Some v \<and> same v x"
proof (induction xs arbitrary: s)
  case Nil
  then show ?case by simp
next
  case (Cons y xs)
  then show ?case using put_cons [OF Cons.prems(1)] put_get all_keep by (metis set_ConsD)
qed

end

lemma put_sources_cons:
  "put_sources E (x # xs) s = Inr s' \<Longrightarrow> \<exists>s1. put_sources E [x] s = Inr s1 \<and> put_sources E xs s1 = Inr s'"
  by (auto split: if_splits option.splits)

lemma put_nodes_cons:
  "put_nodes E (x # xs) s = Inr s' \<Longrightarrow> \<exists>s1. put_nodes E [x] s = Inr s1 \<and> put_nodes E xs s1 = Inr s'"
  by (auto split: if_splits option.splits)

definition same_source :: "sea_env \<Rightarrow> sea_source \<Rightarrow> sea_source \<Rightarrow> bool" where
  "same_source E s t \<longleftrightarrow> so_id s = so_id t \<and> source_for E (so_message s) = s \<and> source_for E (so_message t) = t"

definition same_node :: "sea_env \<Rightarrow> dag_node \<Rightarrow> dag_node \<Rightarrow> bool" where
  "same_node E m n \<longleftrightarrow> nd_hash m = nd_hash n \<and> validate_node E m = None \<and> validate_node E n = None"

lemma source_for_iff: "source_for E (so_message s) = s \<longleftrightarrow> so_id (source_for E (so_message s)) = so_id s"
  by (cases s) (auto simp: source_for_def)

interpretation sources: append_only "\<lambda>sd. map_of (sd_sources sd)" "put_sources E" so_id "same_source E" for E
proof
  show "put_sources E (x # xs) s = Inr s' \<Longrightarrow> \<exists>s1. put_sources E [x] s = Inr s1 \<and> put_sources E xs s1 = Inr s'" for x xs s s'
    by (rule put_sources_cons)
qed (auto simp: same_source_def source_for_iff map_add_def split: if_splits option.splits)

lemma check_node_valid: "check_node E sd n = None \<Longrightarrow> validate_node E n = None"
  by (simp add: check_node_def split: option.splits)

interpretation nodes: append_only "\<lambda>sd. map_of (sd_nodes sd)" "put_nodes E" nd_hash "same_node E" for E
proof
  show "put_nodes E (x # xs) s = Inr s' \<Longrightarrow> \<exists>s1. put_nodes E [x] s = Inr s1 \<and> put_nodes E xs s1 = Inr s'" for x xs s s'
    by (rule put_nodes_cons)
qed (auto simp: same_node_def map_add_def check_node_valid split: if_splits option.splits)

definition grows :: "session_data \<Rightarrow> session_data \<Rightarrow> bool" where
  "grows sd sd' \<longleftrightarrow> (\<forall>k v. map_of (sd_sources sd) k = Some v \<longrightarrow> map_of (sd_sources sd') k = Some v) \<and>
     (\<forall>k v. map_of (sd_nodes sd) k = Some v \<longrightarrow> map_of (sd_nodes sd') k = Some v)"

lemma grows_refl: "grows sd sd"
  by (simp add: grows_def)

lemma grows_trans: "grows a b \<Longrightarrow> grows b c \<Longrightarrow> grows a c"
  by (simp add: grows_def)

lemma put_sources_nodes: "put_sources E ss sd = Inr sd' \<Longrightarrow> sd_nodes sd' = sd_nodes sd \<and> sd_snapshot sd' = sd_snapshot sd"
  by (induction ss arbitrary: sd) (auto split: if_splits option.splits)

lemma put_nodes_sources: "put_nodes E ns sd = Inr sd' \<Longrightarrow> sd_sources sd' = sd_sources sd \<and> sd_snapshot sd' = sd_snapshot sd"
  by (induction ns arbitrary: sd) (auto split: if_splits option.splits)

subsection \<open>What a node stands for\<close>

inductive expands :: "session_data \<Rightarrow> string \<Rightarrow> chat_message list \<Rightarrow> bool" for sd where
  node: "map_of (sd_nodes sd) i = Some n \<Longrightarrow> list_all2 (expands sd) (sm_parents (nd_summary n)) mss \<Longrightarrow>
    list_all2 (\<lambda>k m. \<exists>s. map_of (sd_sources sd) k = Some s \<and> so_message s = m) (nd_sources n) raw \<Longrightarrow>
    expands sd i (concat mss @ raw)"
  monos list_all2_mono

lemma expands_grows: "expands sd i ms \<Longrightarrow> grows sd sd' \<Longrightarrow> expands sd' i ms"
proof (induction rule: expands.induct)
  case (node i n mss raw)
  have "list_all2 (expands sd') (sm_parents (nd_summary n)) mss"
    using node.IH node.prems by (auto elim: list_all2_mono)
  moreover have "list_all2 (\<lambda>k m. \<exists>s. map_of (sd_sources sd') k = Some s \<and> so_message s = m) (nd_sources n) raw"
    using node.hyps(2) by (rule list_all2_mono) (use node.prems in \<open>auto simp: grows_def\<close>)
  ultimately show ?case
    using node.hyps(1) node.prems by (intro expands.node) (auto simp: grows_def)
qed

lemma list_all2_determ: "list_all2 (\<lambda>x y. \<forall>z. P x z \<longrightarrow> y = z) xs ys \<Longrightarrow> list_all2 P xs zs \<Longrightarrow> ys = zs"
  by (induction xs ys arbitrary: zs rule: list_all2_induct) (auto simp: list_all2_Cons1)

lemma expands_determ: "expands sd i ms \<Longrightarrow> expands sd i ms' \<Longrightarrow> ms = ms'"
proof (induction arbitrary: ms' rule: expands.induct)
  case (node i n mss raw)
  from node.prems obtain mss' raw' where ms': "ms' = concat mss' @ raw'"
    and p: "list_all2 (expands sd) (sm_parents (nd_summary n)) mss'"
    and r: "list_all2 (\<lambda>k m. \<exists>s. map_of (sd_sources sd) k = Some s \<and> so_message s = m) (nd_sources n) raw'"
    using node.hyps(1) by (auto elim: expands.cases)
  have "mss = mss'"
    by (rule list_all2_determ [OF _ p], rule list_all2_mono [OF node.IH]) auto
  moreover have "raw = raw'"
    by (rule list_all2_determ [OF _ r], rule list_all2_mono [OF node.hyps(2)]) auto
  ultimately show ?case by (simp add: ms')
qed

definition represents :: "session_data \<Rightarrow> chat_message list \<Rightarrow> chat_message list \<Rightarrow> bool" where
  "represents sd ms full \<longleftrightarrow> (case ms of [] \<Rightarrow> full = []
     | m # rest \<Rightarrow> if is_marker m then \<exists>n old. map_of (sd_nodes sd) (nd_hash n) = Some n \<and>
           cm_content m = cm_content (summary_message n) \<and> expands sd (nd_hash n) old \<and> full = old @ rest
         else full = ms)"

lemma represents_grows: "represents sd ms full \<Longrightarrow> grows sd sd' \<Longrightarrow> represents sd' ms full"
proof (cases ms)
  case (Cons m rest)
  assume "represents sd ms full" "grows sd sd'"
  then show ?thesis
    using expands_grows [of sd _ _ sd'] unfolding represents_def Cons grows_def by (simp split: if_splits) metis
qed (simp add: represents_def)

lemma represents_append: "represents sd ms full \<Longrightarrow> ms \<noteq> [] \<or> \<not> is_marker m \<Longrightarrow> represents sd (ms @ [m]) (full @ [m])"
  by (cases ms) (auto simp: represents_def split: if_splits)

lemma summary_is_marker: "is_marker (summary_message n)"
  by (simp add: is_marker_def summary_message_def has_prefix_iff)

subsection \<open>Hashes\<close>

text \<open>
  What the code relies on: SHA-256 prints hexadecimal digits, and no two texts that it hashes have the same
  hash; \<open>encoding/json\<close> prints different values differently.
\<close>

definition good_hashes :: "sea_env \<Rightarrow> bool" where
  "good_hashes E \<longleftrightarrow> inj (sha256 E) \<and> (\<forall>t. CHR '' '' \<notin> set (sha256 E t)) \<and> inj (js_message E) \<and> inj (js_node E) \<and> inj (js_history E)"

lemma valid_hash: "validate_node E n = None \<Longrightarrow> nd_hash n = sha256 E (js_node E (blank_node n)) \<and> sm_id (nd_summary n) = nd_hash n"
  by (auto simp: validate_node_def seal_node_def Let_def split: if_splits)

lemma summary_update_eq: "x\<lparr>sm_id := a\<rparr> = y\<lparr>sm_id := a\<rparr> \<Longrightarrow> sm_id x = sm_id y \<Longrightarrow> (x :: summary) = y"
  by (cases x; cases y) simp

lemma same_node_eq: "good_hashes E \<Longrightarrow> same_node E m n \<Longrightarrow> m = n"
proof -
  assume "good_hashes E" "same_node E m n"
  then have eq: "nd_hash m = nd_hash n" "sm_id (nd_summary m) = nd_hash m" "sm_id (nd_summary n) = nd_hash n"
    and "sha256 E (js_node E (blank_node m)) = sha256 E (js_node E (blank_node n))"
    using valid_hash [of E m] valid_hash [of E n] by (auto simp: same_node_def)
  then have "blank_node m = blank_node n"
    using \<open>good_hashes E\<close> by (auto simp: good_hashes_def dest!: injD)
  with eq show "m = n"
    by (cases m; cases n) (auto simp: blank_node_def intro: summary_update_eq)
qed

lemma same_source_eq: "good_hashes E \<Longrightarrow> same_source E s t \<Longrightarrow> s = t"
proof -
  assume g: "good_hashes E" and "same_source E s t"
  then have "sha256 E (js_message E (so_message s)) = sha256 E (js_message E (so_message t))"
    by (cases s; cases t) (auto simp: same_source_def source_for_def)
  with g have "so_message s = so_message t" by (auto simp: good_hashes_def dest!: injD)
  with \<open>same_source E s t\<close> show "s = t" by (cases s; cases t) (auto simp: same_source_def)
qed

lemma append_marker_eq: "d \<notin> set xs \<Longrightarrow> d \<notin> set ys \<Longrightarrow> xs @ d # us = ys @ d # vs \<Longrightarrow> xs = ys"
  by (induction xs arbitrary: ys) (auto simp: Cons_eq_append_conv append_eq_Cons_conv)

lemma summary_content_hash:
  assumes "good_hashes E" and "validate_node E m = None" "validate_node E n = None"
    and "cm_content (summary_message m) = cm_content (summary_message n)"
  shows "nd_hash m = nd_hash n"
proof -
  have "CHR '' '' \<notin> set (nd_hash m)" "CHR '' '' \<notin> set (nd_hash n)"
    using assms(1) valid_hash [OF assms(2)] valid_hash [OF assms(3)] by (auto simp: good_hashes_def)
  from append_marker_eq [OF this] assms(4) show ?thesis by (simp add: summary_message_def)
qed

subsection \<open>Leaves and condensation\<close>

lemma chunk_loop_concat: "chunk_loop E limit cur used ms = Inr cs \<Longrightarrow> concat cs = cur @ ms \<and> [] \<notin> set cs"
proof (induction E limit cur used ms arbitrary: cs rule: chunk_loop.induct)
  case (1 E limit cur used)
  then show ?case by (auto split: if_splits)
next
  case (2 E limit cur used m ms)
  define unit where "unit = m # (if cm_calls m \<noteq> [] then takeWhile (\<lambda>x. cm_role x = ''tool'') ms else [])"
  define rest where "rest = drop (length unit - 1) ms"
  define cost where "cost = estimate (prompt_messages E unit)"
  have split: "m # ms = unit @ rest"
    by (simp add: unit_def rest_def dropWhile_eq_drop [symmetric])
  have eq: "chunk_loop E limit cur used (m # ms) =
      (if limit < cost then Inl (SeaError ''indivisible tool/message unit exceeds summary input budget'')
       else if limit < used + cost \<and> cur \<noteq> [] then map_sum id (Cons cur) (chunk_loop E limit unit cost rest)
       else chunk_loop E limit (cur @ unit) (used + cost) rest)"
    by (simp only: chunk_loop.simps Let_def unit_def [symmetric] rest_def [symmetric] cost_def [symmetric])
  note IH = "2.IH" [OF unit_def rest_def cost_def]
  show ?case
  proof (cases "limit < used + cost \<and> cur \<noteq> []")
    case True
    with "2.prems" [unfolded eq] obtain cs' where "chunk_loop E limit unit cost rest = Inr cs'" "cs = cur # cs'" "\<not> limit < cost"
      by (auto simp: map_sum_Inr_iff split: if_splits)
    with IH(1) [of cs'] True show ?thesis by (auto simp: split)
  next
    case False
    with "2.prems" [unfolded eq] have "chunk_loop E limit (cur @ unit) (used + cost) rest = Inr cs" "\<not> limit < cost"
      by (auto split: if_splits)
    with IH(2) False show ?thesis by (simp add: split)
  qed
qed

lemma leaf_nodes_new:
  "leaf_nodes E lim cs nodes rs = (Inr nodes', rs') \<Longrightarrow>
     \<exists>new. nodes' = nodes @ new \<and> list_all2 (\<lambda>c n. \<exists>ans. n = leaf_node E c ans) cs new"
proof (induction E lim cs nodes rs rule: leaf_nodes.induct)
  case (2 E lim c cs nodes rs)
  then obtain ans rs1 where "summarize (prompt_messages E c) (lm_model lim) (lm_target lim) (lm_input lim) (lm_context lim) rs = (Inr ans, rs1)"
    and "leaf_nodes E lim cs (nodes @ [leaf_node E c ans]) rs1 = (Inr nodes', rs')"
    and "\<not> 128 \<le> length nodes"
    by (auto split: if_splits prod.splits sum.splits)
  note this(2) and "2.IH" [OF this(3) this(1) [symmetric] refl this(2)]
  then obtain new where "nodes' = (nodes @ [leaf_node E c ans]) @ new" "list_all2 (\<lambda>c n. \<exists>ans. n = leaf_node E c ans) cs new" by auto
  then show ?case by (intro exI [of _ "leaf_node E c ans # new"]) (auto simp del: split_paired_Ex)
qed simp

definition in_store :: "sea_env \<Rightarrow> session_data \<Rightarrow> chat_message list \<Rightarrow> dag_node list \<Rightarrow> bool" where
  "in_store E sd ms ns \<longleftrightarrow> (\<forall>m \<in> set ms. map_of (sd_sources sd) (so_id (source_for E m)) = Some (source_for E m)) \<and>
     (\<forall>n \<in> set ns. map_of (sd_nodes sd) (nd_hash n) = Some n)"

lemma leaf_expands:
  assumes "in_store E sd c [leaf_node E c ans]"
  shows "expands sd (nd_hash (leaf_node E c ans)) c"
proof -
  have "list_all2 (\<lambda>k m. \<exists>s. map_of (sd_sources sd) k = Some s \<and> so_message s = m) (map (\<lambda>m. so_id (source_for E m)) c) c"
    using assms by (auto simp: list_all2_map1 list.rel_map in_store_def source_for_def intro!: list.rel_refl_strong)
  moreover have "nd_sources (leaf_node E c ans) = map (\<lambda>m. so_id (source_for E m)) c" "sm_parents (nd_summary (leaf_node E c ans)) = []"
    by (simp_all add: leaf_node_def seal_node_def Let_def split: prod.splits)
  ultimately show ?thesis
    using assms expands.node [of sd "nd_hash (leaf_node E c ans)" "leaf_node E c ans" "[]" c] by (simp add: in_store_def)
qed

lemma shrink_prefix: "\<exists>k. shrink_group E limit g = take k g"
proof (induction E limit g rule: shrink_group.induct)
  case (1 E limit g)
  show ?case
  proof (cases "length g > 2 \<and> \<not> estimate (js_summaries E (map nd_summary g)) \<le> limit")
    case True
    with 1 obtain k where "shrink_group E limit (butlast g) = take k (butlast g)" by blast
    with True show ?thesis by (subst shrink_group.simps) (auto simp: butlast_conv_take)
  next
    case False
    then show ?thesis by (subst shrink_group.simps) (metis order_refl take_all)
  qed
qed

definition covers :: "session_data \<Rightarrow> dag_node \<Rightarrow> chat_message list \<Rightarrow> bool" where
  "covers sd n ms \<longleftrightarrow> map_of (sd_nodes sd) (nd_hash n) = Some n \<and> expands sd (nd_hash n) ms"

lemma covers_grows: "covers sd n ms \<Longrightarrow> grows sd sd' \<Longrightarrow> covers sd' n ms"
  using expands_grows by (auto simp: covers_def grows_def)

lemma seal_simps [simp]: "sm_parents (nd_summary (seal_node E n)) = sm_parents (nd_summary n)" "nd_sources (seal_node E n) = nd_sources n"
  "sm_depth (nd_summary (seal_node E n)) = sm_depth (nd_summary n)"
  by (simp_all add: seal_node_def Let_def)

lemma condensed_covers:
  assumes "list_all2 (covers sd) g mss" and "map_of (sd_nodes sd) (nd_hash (seal_node E (condensed_node g ans))) = Some (seal_node E (condensed_node g ans))"
  shows "covers sd (seal_node E (condensed_node g ans)) (concat mss)"
proof -
  have "sm_parents (nd_summary (condensed_node g ans)) = map nd_hash g" "nd_sources (condensed_node g ans) = []"
    by (simp_all add: condensed_node_def split: prod.splits)
  moreover from assms(1) have "list_all2 (expands sd) (map nd_hash g) mss"
    by (auto simp: list_all2_map1 covers_def elim: list_all2_mono)
  ultimately show ?thesis
    using expands.node [OF assms(2), of mss "[]"] assms(2) by (simp add: covers_def)
qed

lemma condense_round_covers:
  assumes "condense_round E lim fan ps nxt nodes rs = (Inr (nxt', nodes'), rs')"
  shows "(\<exists>new. nodes' = nodes @ new) \<and> (nxt @ ps \<noteq> [] \<longrightarrow> nxt' \<noteq> []) \<and>
    (in_store E sd [] nodes' \<longrightarrow> list_all2 (covers sd) (nxt @ ps) mss \<longrightarrow>
      (\<exists>mss'. list_all2 (covers sd) nxt' mss' \<and> concat mss' = concat mss))"
  using assms
proof (induction E lim fan ps nxt nodes rs arbitrary: mss rule: condense_round.induct)
  case (1 E lim fan nxt nodes rs)
  then show ?case by auto
next
  case (2 E lim fan p ps nxt nodes rs)
  define g where "g = shrink_group E (lm_input lim) (take fan (p # ps))"
  define rest where "rest = drop (length g - 1) ps"
  obtain k where k: "g = take k (p # ps)"
    using shrink_prefix [of E "lm_input lim" "take fan (p # ps)"] by (auto simp: g_def min_def)
  show ?case
  proof (cases "length g \<le> 1")
    case True
    then have "rest = ps" by (simp add: rest_def)
    with True "2.prems" "2.IH"(1) [OF g_def rest_def True] show ?thesis
      by (simp add: g_def [symmetric] rest_def [symmetric] Let_def)
  next
    case False
    then have split: "p # ps = g @ rest"
      by (cases k) (auto simp: k rest_def min_def)
    from "2.prems" False obtain ans rs1 where
      s: "summarize (js_summaries E (map nd_summary g)) (lm_model lim) (lm_condensed lim) (lm_input lim) (lm_context lim) rs = (Inr ans, rs1)"
      and small: "\<not> 256 \<le> length nodes" "\<not> 64 < sm_depth (nd_summary (condensed_node g ans))"
      by (auto simp: g_def [symmetric] rest_def [symmetric] Let_def split: if_splits prod.splits sum.splits)
    let ?n = "seal_node E (condensed_node g ans)"
    have rec: "condense_round E lim fan rest (nxt @ [?n]) (nodes @ [?n]) rs1 = (Inr (nxt', nodes'), rs')"
      using "2.prems" False s small unfolding condense_round.simps Let_def g_def [symmetric] rest_def [symmetric] by simp
    note IH = "2.IH"(2) [OF g_def rest_def False small(1) s [symmetric] refl refl small(2) rec]
    have "\<exists>mss'. list_all2 (covers sd) nxt' mss' \<and> concat mss' = concat mss"
      if store: "in_store E sd [] nodes'" and all: "list_all2 (covers sd) (nxt @ p # ps) mss"
    proof -
      from all obtain m1 m2 m3 where m: "mss = m1 @ m2 @ m3" "list_all2 (covers sd) nxt m1" "list_all2 (covers sd) g m2"
          "list_all2 (covers sd) rest m3"
        unfolding split by (auto simp: list_all2_append1)
      from IH [of mss] have "?n \<in> set nodes'" by auto
      with store have "covers sd ?n (concat m2)" using condensed_covers [OF m(3)] by (simp add: in_store_def)
      with m have "list_all2 (covers sd) ((nxt @ [?n]) @ rest) (m1 @ [concat m2] @ m3)"
        by (simp add: list_all2_appendI)
      with IH store show ?thesis by (fastforce simp: m(1))
    qed
    with IH show ?thesis by auto
  qed
qed

definition same_cover :: "session_data \<Rightarrow> sea_env \<Rightarrow> dag_node list \<Rightarrow> dag_node list \<Rightarrow> dag_node list \<Rightarrow> dag_node list \<Rightarrow> bool" where
  "same_cover sd E ps nodes ps' nodes' \<longleftrightarrow> length ps' \<le> 1 \<and> (ps \<noteq> [] \<longrightarrow> ps' \<noteq> []) \<and> (\<exists>new. nodes' = nodes @ new) \<and>
    (\<forall>mss. in_store E sd [] nodes' \<longrightarrow> list_all2 (covers sd) ps mss \<longrightarrow>
      (\<exists>mss'. list_all2 (covers sd) ps' mss' \<and> concat mss' = concat mss))"

lemma condense_covers:
  assumes "condense E lim fan ps nodes rs = Some (Inr (ps', nodes'), rs')"
  shows "same_cover sd E ps nodes ps' nodes'"
proof -
  have "\<forall>ps' nodes'. fst r = Inr (ps', nodes') \<longrightarrow> same_cover sd E ps nodes ps' nodes'"
    if "condense E lim fan ps nodes rs = Some r" for r
  proof (rule condense.raw_induct [where P = "\<lambda>E lim fan ps nodes rs r. \<forall>ps' nodes'. fst r = Inr (ps', nodes') \<longrightarrow>
      same_cover sd E ps nodes ps' nodes'", OF _ that])
    fix condense E lim fan ps nodes rs r
    assume IH: "\<And>E lim fan ps nodes rs r. condense E lim fan ps nodes rs = Some r \<Longrightarrow>
        \<forall>ps' nodes'. fst r = Inr (ps', nodes') \<longrightarrow> same_cover sd E ps nodes ps' nodes'"
      and run: "(if length ps \<le> 1 then Some (Inr (ps, nodes), rs)
        else case condense_round E lim fan ps [] nodes rs of
          (Inl e, rs) \<Rightarrow> Some (Inl e, rs)
        | (Inr (nxt, nodes), rs) \<Rightarrow> condense E lim fan nxt nodes rs) = Some r"
    show "\<forall>ps' nodes'. fst r = Inr (ps', nodes') \<longrightarrow> same_cover sd E ps nodes ps' nodes'"
    proof (cases "length ps \<le> 1")
      case True
      with run show ?thesis by (auto simp: same_cover_def)
    next
      case False
      show ?thesis
      proof (intro allI impI)
        fix ps' nodes'
        assume r: "fst r = Inr (ps', nodes')"
        obtain q rs1 where q: "condense_round E lim fan ps [] nodes rs = (q, rs1)" by fastforce
        with run False r obtain nxt nodes1 where "q = Inr (nxt, nodes1)"
          by (cases q) auto
        with q have round: "condense_round E lim fan ps [] nodes rs = (Inr (nxt, nodes1), rs1)" by simp
        with run False have rec: "condense E lim fan nxt nodes1 rs1 = Some r" by simp
        from IH [OF rec] r have later: "same_cover sd E nxt nodes1 ps' nodes'" by simp
        note first = condense_round_covers [OF round, of sd]
        have "\<exists>mss'. list_all2 (covers sd) ps' mss' \<and> concat mss' = concat mss"
          if "in_store E sd [] nodes'" "list_all2 (covers sd) ps mss" for mss
        proof -
          from later that(1) have "in_store E sd [] nodes1" by (auto simp: same_cover_def in_store_def)
          with first [of mss] that obtain m1 where m1: "list_all2 (covers sd) nxt m1" "concat m1 = concat mss" by auto
          with later that(1) show ?thesis unfolding same_cover_def by metis
        qed
        moreover from first [of "[]"] obtain n1 where "nodes1 = nodes @ n1" by blast
        moreover from later obtain n2 where "nodes' = nodes1 @ n2" unfolding same_cover_def by blast
        moreover have "ps \<noteq> [] \<longrightarrow> ps' \<noteq> []" "length ps' \<le> 1"
          using first [of "[]"] later by (auto simp only: same_cover_def append_Nil)
        ultimately show "same_cover sd E ps nodes ps' nodes'"
          by (simp add: same_cover_def)
      qed
    qed
  qed
  from this [OF assms] show ?thesis by simp
qed

subsection \<open>Plans\<close>

lemma planned_cases:
  assumes "compact_plan E opts sd cl = Some (Inr (Planned pl))"
  obtains k lim parents prefix cs leaves rs1 ps nodes rs2 where
    "k = split_point opts (cl_messages cl)" "cl_messages cl \<noteq> []" "0 < k" "validate_tool_groups (cl_messages cl) = None" "cl_alive cl"
    "old_head E sd (take k (cl_messages cl)) = Inr (parents, prefix)"
    "chunks E (leaf_limit lim) prefix = Inr cs" "leaf_nodes E lim cs [] (cl_replies cl) = (Inr leaves, rs1)" "parents @ leaves \<noteq> []"
    "condense E lim (nat (ho_fan_in opts)) (parents @ leaves) leaves rs1 = Some (Inr (ps, nodes), rs2)"
    "pl = \<lparr>pl_revision = sn_revision (sd_snapshot sd), pl_sources = map (source_for E) (prefix @ drop k (cl_messages cl)),
       pl_nodes = nodes, pl_next = \<lparr>sn_revision = 0, sn_head = nd_hash (hd ps),
         sn_input = sha256 E (js_history E (cl_messages cl)), sn_output = summary_message (hd ps) # drop k (cl_messages cl)\<rparr>,
       pl_head = hd ps\<rparr>"
    "message_tokens E (summary_message (hd ps) # drop k (cl_messages cl)) \<le> cl_max_tokens cl"
proof -
  define k where "k = split_point opts (cl_messages cl)"
  define lim where "lim = call_limits opts cl (cl_max_tokens cl - message_tokens E (drop k (cl_messages cl)) - 160)"
  have not_replay: "replay E sd n \<noteq> Inr (Planned pl)" for n
    by (auto simp: replay_def Let_def split: sum.splits)
  have "\<exists>parents prefix. cl_messages cl \<noteq> [] \<and> 0 < k \<and> validate_tool_groups (cl_messages cl) = None \<and> cl_alive cl \<and>
      old_head E sd (take k (cl_messages cl)) = Inr (parents, prefix) \<and>
      build_plan E opts sd cl lim parents prefix (drop k (cl_messages cl)) = Some (Inr (Planned pl))"
    using assms not_replay [of "cl_max_tokens cl"] unfolding compact_plan_def Let_def k_def [symmetric] lim_def [symmetric]
    by (simp split: if_splits option.splits sum.splits prod.splits)
  then obtain parents prefix where
    pre: "cl_messages cl \<noteq> []" "0 < k" "validate_tool_groups (cl_messages cl) = None" "cl_alive cl"
      "old_head E sd (take k (cl_messages cl)) = Inr (parents, prefix)"
    and build: "build_plan E opts sd cl lim parents prefix (drop k (cl_messages cl)) = Some (Inr (Planned pl))"
    by blast
  obtain cs where cs: "chunks E (leaf_limit lim) prefix = Inr cs"
    using build by (cases "chunks E (leaf_limit lim) prefix") (simp_all add: build_plan_def)
  obtain q rs1 where q: "leaf_nodes E lim cs [] (cl_replies cl) = (q, rs1)" by fastforce
  with build cs obtain leaves where leaves: "q = Inr leaves" "parents @ leaves \<noteq> []"
    by (cases q) (simp_all add: build_plan_def split: if_splits)
  from build cs q leaves obtain r where r: "condense E lim (nat (ho_fan_in opts)) (parents @ leaves) leaves rs1 = Some r"
    by (cases "condense E lim (nat (ho_fan_in opts)) (parents @ leaves) leaves rs1") (auto simp: build_plan_def split: if_splits)
  obtain q2 rs2 where r2: "r = (q2, rs2)" by fastforce
  obtain ps nodes where fin: "q2 = Inr (ps, nodes)"
    using build cs q leaves r r2 by (cases q2) (auto simp: build_plan_def)
  show ?thesis
    using build cs q leaves r r2 fin
    by (intro that [OF k_def pre cs _ leaves(2), of rs1 ps nodes rs2]) (simp_all add: build_plan_def Let_def split: if_splits)
qed

definition rows_ok :: "sea_env \<Rightarrow> session_data \<Rightarrow> bool" where
  "rows_ok E sd \<longleftrightarrow> (\<forall>k s. map_of (sd_sources sd) k = Some s \<longrightarrow> so_id s = k \<and> source_for E (so_message s) = s) \<and>
     (\<forall>k n. map_of (sd_nodes sd) k = Some n \<longrightarrow> nd_hash n = k \<and> validate_node E n = None)"

lemma load_node_row: "load_node E sd i = Inr n \<Longrightarrow> map_of (sd_nodes sd) i = Some n \<and> nd_hash n = i \<and> validate_node E n = None"
  by (auto simp: load_node_def split: option.splits if_splits)

lemma old_head_represents:
  assumes "good_hashes E" and "rows_ok E sd" and "old_head E sd prefix0 = Inr (parents, prefix)" and "prefix0 \<noteq> []"
    and "represents sd (prefix0 @ tail) full"
  obtains old where "list_all2 (covers sd) parents old" "full = concat old @ prefix @ tail" "length parents \<le> 1"
proof -
  obtain m rest where m: "prefix0 = m # rest" using assms(4) by (cases prefix0) auto
  show ?thesis
  proof (cases "is_marker m")
    case True
    with assms(3) obtain n0 where n0: "load_node E sd (sn_head (sd_snapshot sd)) = Inr n0"
        "cm_content m = cm_content (summary_message n0)" "parents = [n0]" "prefix = rest"
      by (auto simp: old_head_def m Let_def split: if_splits sum.splits)
    from assms(5) True obtain n old where n: "map_of (sd_nodes sd) (nd_hash n) = Some n"
        "cm_content m = cm_content (summary_message n)" "expands sd (nd_hash n) old" "full = old @ rest @ tail"
      by (auto simp: represents_def m)
    note row = load_node_row [OF n0(1)]
    have "validate_node E n = None" using n(1) assms(2) by (simp add: rows_ok_def)
    with row have "nd_hash n0 = nd_hash n"
      using n(2) n0(2) by (intro summary_content_hash [OF assms(1)]) simp_all
    with n n0 row show ?thesis by (intro that [of "[old]"]) (simp_all add: covers_def)
  next
    case False
    with assms(3,5) show ?thesis
      by (intro that [of "[]"]) (auto simp: old_head_def represents_def m Let_def split: if_splits)
  qed
qed

theorem plan_represents:
  assumes "good_hashes E" and "rows_ok E sd" and "compact_plan E opts sd cl = Some (Inr (Planned pl))"
    and "represents sd (cl_messages cl) full" and "grows sd sd'"
    and "in_store E sd' (map so_message (pl_sources pl)) (pl_nodes pl)"
  shows "represents sd' (sn_output (pl_next pl)) full"
  using assms(3)
proof (rule planned_cases)
  fix k lim parents prefix cs leaves rs1 ps nodes rs2
  assume ms: "cl_messages cl \<noteq> []" and k: "0 < k"
    and head: "old_head E sd (take k (cl_messages cl)) = Inr (parents, prefix)"
    and cs: "chunks E (leaf_limit lim) prefix = Inr cs"
    and leaves: "leaf_nodes E lim cs [] (cl_replies cl) = (Inr leaves, rs1)" "parents @ leaves \<noteq> []"
    and cond: "condense E lim (nat (ho_fan_in opts)) (parents @ leaves) leaves rs1 = Some (Inr (ps, nodes), rs2)"
    and pl: "pl = \<lparr>pl_revision = sn_revision (sd_snapshot sd), pl_sources = map (source_for E) (prefix @ drop k (cl_messages cl)),
       pl_nodes = nodes, pl_next = \<lparr>sn_revision = 0, sn_head = nd_hash (hd ps),
         sn_input = sha256 E (js_history E (cl_messages cl)), sn_output = summary_message (hd ps) # drop k (cl_messages cl)\<rparr>,
       pl_head = hd ps\<rparr>"
  let ?tail = "drop k (cl_messages cl)"
  have ne: "take k (cl_messages cl) \<noteq> []" using ms k by simp
  from old_head_represents [OF assms(1,2) head ne, of ?tail full] assms(4)
  obtain old where old: "list_all2 (covers sd) parents old" "full = concat old @ prefix @ ?tail" by auto
  have concat: "concat cs = prefix" using chunk_loop_concat [of E _ "[]" 0 prefix cs] cs by (simp add: chunks_def)
  have store: "in_store E sd' (prefix @ ?tail) nodes"
    using assms(6) by (simp add: pl source_for_def comp_def)
  have shape: "list_all2 (\<lambda>c n. \<exists>ans. n = leaf_node E c ans) cs leaves"
    using leaf_nodes_new [OF leaves(1)] by simp
  have cover: "same_cover sd' E (parents @ leaves) leaves ps nodes"
    using condense_covers [OF cond] .
  have "covers sd' n c" if "(c, n) \<in> set (zip cs leaves)" for c n
  proof -
    from shape that obtain ans where n: "n = leaf_node E c ans" by (auto simp: list_all2_iff)
    have "set c \<subseteq> set prefix" "n \<in> set nodes"
      using that cover by (auto simp: concat [symmetric] same_cover_def dest: set_zip_leftD set_zip_rightD)
    with store have "in_store E sd' c [n]" by (auto simp: in_store_def)
    with n leaf_expands show ?thesis by (simp add: covers_def in_store_def)
  qed
  then have "list_all2 (\<lambda>c n. covers sd' n c) cs leaves"
    using list_all2_lengthD [OF shape] by (auto simp: list_all2_iff)
  then have "list_all2 (covers sd') leaves cs"
    by (simp add: list_all2_conv_all_nth)
  moreover have "list_all2 (covers sd') parents old"
    using old(1) by (rule list_all2_mono) (rule covers_grows [OF _ assms(5)])
  ultimately have "list_all2 (covers sd') (parents @ leaves) (old @ cs)"
    by (simp add: list_all2_appendI)
  with cover store obtain mss' where mss': "list_all2 (covers sd') ps mss'" "concat mss' = concat (old @ cs)"
    by (fastforce simp: same_cover_def in_store_def)
  from cover leaves(2) obtain h where h: "ps = [h]" by (cases ps) (auto simp: same_cover_def)
  with mss' obtain m where m: "covers sd' h m" "m = concat old @ prefix" by (auto simp: list_all2_Cons1 concat)
  with old(2) show ?thesis
    by (auto simp: represents_def pl h summary_is_marker covers_def)
qed

subsection \<open>Commits\<close>

lemma put_sources_rows: "put_sources E ss sd = Inr sd' \<Longrightarrow> rows_ok E sd \<Longrightarrow> rows_ok E sd'"
proof (induction ss arbitrary: sd)
  case (Cons s ss)
  have "source_for E (so_message s) = s" if "so_id (source_for E (so_message s)) = so_id s"
    using that by (simp add: source_for_iff)
  then have "rows_ok E (sd\<lparr>sd_sources := sd_sources sd @ [(so_id s, s)]\<rparr>)" if "so_id (source_for E (so_message s)) = so_id s"
    using Cons.prems(2) that by (auto simp: rows_ok_def map_add_def split: option.splits if_splits)
  with Cons show ?case by (auto split: if_splits option.splits)
qed simp

lemma put_nodes_rows: "put_nodes E ns sd = Inr sd' \<Longrightarrow> rows_ok E sd \<Longrightarrow> rows_ok E sd'"
proof (induction ns arbitrary: sd)
  case (Cons n ns)
  have "rows_ok E (sd\<lparr>sd_nodes := sd_nodes sd @ [(nd_hash n, n)]\<rparr>)" if "check_node E sd n = None"
    using Cons.prems(2) check_node_valid [OF that] by (auto simp: rows_ok_def map_add_def split: option.splits if_splits)
  with Cons show ?case by (auto split: if_splits option.splits)
qed simp

lemma commit_effect:
  assumes "good_hashes E" and "rows_ok E sd" and "commit_session E lim session pl sd = Inr sd'"
  shows "rows_ok E sd'" "grows sd sd'" "in_store E sd' (map so_message (pl_sources pl)) (pl_nodes pl)"
    "sd_snapshot sd' = (pl_next pl)\<lparr>sn_revision := sn_revision (sd_snapshot sd) + 1\<rparr>"
    "sn_revision (sd_snapshot sd) = pl_revision pl"
proof -
  from assms(3) obtain sd1 sd2 where p: "put_sources E (pl_sources pl) sd = Inr sd1" "put_nodes E (pl_nodes pl) sd1 = Inr sd2"
    and pub: "publish E (pl_next pl) (sn_revision (sd_snapshot sd)) sd2 = Inr sd'"
    and rev: "sn_revision (sd_snapshot sd) = pl_revision pl"
    by (auto simp: commit_session_def split: if_splits sum.splits)
  have sd': "sd' = sd2\<lparr>sd_snapshot := (pl_next pl)\<lparr>sn_revision := sn_revision (sd_snapshot sd) + 1\<rparr>\<rparr>"
    using pub by (auto simp: publish_def Let_def split: if_splits option.splits)
  have rows: "rows_ok E sd2" using put_sources_rows [OF p(1) assms(2)] put_nodes_rows [OF p(2)] by simp
  then show "rows_ok E sd'" by (simp add: sd' rows_ok_def)
  note eqs = put_sources_nodes [OF p(1)] put_nodes_sources [OF p(2)]
  show "grows sd sd'"
    using sources.all_keep [OF p(1)] nodes.all_keep [OF p(2)] eqs by (simp add: grows_def sd')
  have "map_of (sd_nodes sd') (nd_hash n) = Some n" if "n \<in> set (pl_nodes pl)" for n
    using nodes.all_get [OF p(2) that] same_node_eq [OF assms(1)] by (auto simp: sd')
  moreover have "map_of (sd_sources sd') (so_id (source_for E (so_message s))) = Some (source_for E (so_message s))"
    if "s \<in> set (pl_sources pl)" for s
  proof -
    from sources.all_get [OF p(1) that] obtain v where v: "map_of (sd_sources sd1) (so_id s) = Some v" "same_source E v s" by auto
    with same_source_eq [OF assms(1)] have "v = s" by blast
    with v eqs show ?thesis by (simp add: sd' same_source_def)
  qed
  ultimately show "in_store E sd' (map so_message (pl_sources pl)) (pl_nodes pl)"
    by (auto simp: in_store_def)
  show "sd_snapshot sd' = (pl_next pl)\<lparr>sn_revision := sn_revision (sd_snapshot sd) + 1\<rparr>" by (simp add: sd')
  show "sn_revision (sd_snapshot sd) = pl_revision pl" by (rule rev)
qed

subsection \<open>The invariant\<close>

definition snap_ok :: "sea_env \<Rightarrow> session_data \<Rightarrow> bool" where
  "snap_ok E sd \<longleftrightarrow> (sn_head (sd_snapshot sd) \<noteq> [] \<longrightarrow> (\<exists>inp full. sn_input (sd_snapshot sd) = sha256 E (js_history E inp) \<and>
     represents sd inp full \<and> represents sd (sn_output (sd_snapshot sd)) full))"

definition agent_ok :: "sea_env \<Rightarrow> session_data \<Rightarrow> agent \<Rightarrow> bool" where
  "agent_ok E sd g \<longleftrightarrow> represents sd (ag_messages g) (ag_full g) \<and>
     (\<forall>cl pl. ag_plan g = Some (cl, pl) \<longrightarrow> cl_messages cl = ag_messages g \<and>
        (\<exists>opts sd0. grows sd0 sd \<and> rows_ok E sd0 \<and> represents sd0 (ag_messages g) (ag_full g) \<and>
           compact_plan E opts sd0 cl = Some (Inr (Planned pl))))"

definition sea_inv :: "sea_env \<Rightarrow> sea_state \<Rightarrow> bool" where
  "sea_inv E s \<longleftrightarrow> (\<forall>x. rows_ok E (ss_store s x) \<and> snap_ok E (ss_store s x)) \<and>
     (\<forall>a. agent_ok E (ss_store s (ag_session (ss_agents s a))) (ss_agents s a))"

lemma agent_ok_grows: "agent_ok E sd g \<Longrightarrow> grows sd sd' \<Longrightarrow> agent_ok E sd' g"
  unfolding agent_ok_def by (meson grows_trans represents_grows)

lemma represents_unique:
  assumes "good_hashes E" and "rows_ok E sd" and "represents sd ms full" and "represents sd ms full'"
  shows "full = full'"
proof (cases ms)
  case (Cons m rest)
  show ?thesis
  proof (cases "is_marker m")
    case True
    with assms(3,4) obtain n n' old old' where
      n: "map_of (sd_nodes sd) (nd_hash n) = Some n" "cm_content m = cm_content (summary_message n)"
        "expands sd (nd_hash n) old" "full = old @ rest"
      and n': "map_of (sd_nodes sd) (nd_hash n') = Some n'" "cm_content m = cm_content (summary_message n')"
        "expands sd (nd_hash n') old'" "full' = old' @ rest"
      by (auto simp: represents_def Cons)
    have "validate_node E n = None" "validate_node E n' = None"
      using n(1) n'(1) assms(2) by (simp_all add: rows_ok_def)
    with n(2) n'(2) have "nd_hash n = nd_hash n'" by (intro summary_content_hash [OF assms(1)]) simp_all
    with n'(3) have "expands sd (nd_hash n) old'" by simp
    with n(3) have "old = old'" by (rule expands_determ)
    with n(4) n'(4) show ?thesis by simp
  next
    case False
    with assms(3,4) show ?thesis by (simp add: represents_def Cons)
  qed
qed (use assms in \<open>simp add: represents_def\<close>)

lemma replay_output: "replay E sd k = Inr (Replayed out text) \<Longrightarrow> out = sn_output (sd_snapshot sd)"
  by (auto simp: replay_def Let_def split: sum.splits if_splits)

lemma replay_represents:
  assumes "good_hashes E" and "rows_ok E sd" "snap_ok E sd" and "sn_head (sd_snapshot sd) \<noteq> []"
    and "sn_input (sd_snapshot sd) = sha256 E (js_history E ms)" and "represents sd ms full"
  shows "represents sd (sn_output (sd_snapshot sd)) full"
proof -
  from assms(3,4) obtain inp full' where i: "sn_input (sd_snapshot sd) = sha256 E (js_history E inp)"
    "represents sd inp full'" "represents sd (sn_output (sd_snapshot sd)) full'" by (auto simp: snap_ok_def)
  with assms(1,5) have "inp = ms" by (auto simp: good_hashes_def dest!: injD)
  with i(2) assms(6) represents_unique [OF assms(1,2)] have "full' = full" by blast
  with i(3) show ?thesis by simp
qed

lemma build_not_replayed: "build_plan E opts sd cl lim parents prefix tail \<noteq> Some (Inr (Replayed out text))"
proof -
  have "map_option (\<lambda>r. case r of (Inl e, rs) \<Rightarrow> Inl e | (Inr (ps, nodes), rs) \<Rightarrow>
      if P ps then Inl e0 else Inr (Planned (f ps nodes))) q \<noteq> Some (Inr (Replayed out text))"
    for P f e0 and q :: "((sea_error + dag_node list \<times> dag_node list) \<times> reply list) option"
    by (auto split: prod.splits sum.splits if_splits)
  then show ?thesis
    unfolding build_plan_def Let_def by (simp split: sum.splits prod.splits)
qed

lemma replayed_head: "compact_plan E opts sd cl = Some (Inr (Replayed out text)) \<Longrightarrow>
    replay E sd (cl_max_tokens cl) = Inr (Replayed out text) \<and> sn_head (sd_snapshot sd) \<noteq> [] \<and>
    sn_input (sd_snapshot sd) = sha256 E (js_history E (cl_messages cl))"
  using build_not_replayed by (auto simp: compact_plan_def Let_def split: if_splits option.splits sum.splits prod.splits)

lemma planned_input: "compact_plan E opts sd cl = Some (Inr (Planned pl)) \<Longrightarrow>
    sn_input (pl_next pl) = sha256 E (js_history E (cl_messages cl))"
  by (erule planned_cases) simp

lemma finish_cases:
  assumes "finish_compact E lim session cl pl sd = (r, sd')"
  obtains (committed) answer where "commit_session E lim session pl sd = Inr sd'" "r = Inr (sn_output (pl_next pl), answer)"
    | (failed) e where "sd' = sd" "r = Inl e"
    | (winner) answer where "sd' = sd" "r = Inr (sn_output (sd_snapshot sd), answer)"
        "sn_input (sd_snapshot sd) = sn_input (pl_next pl)" "sn_head (sd_snapshot sd) \<noteq> []"
proof (cases "commit_session E lim session pl sd")
  case (Inr sd2)
  with assms show ?thesis by (intro committed) (auto simp: finish_compact_def)
next
  case (Inl e)
  show ?thesis
  proof (cases "\<exists>out answer. e = SeaConflict \<and> sn_input (sd_snapshot sd) = sn_input (pl_next pl) \<and> sn_head (sd_snapshot sd) \<noteq> [] \<and>
      replay E sd (cl_max_tokens cl) = Inr (Replayed out answer)")
    case True
    then obtain out answer where w: "e = SeaConflict" "sn_input (sd_snapshot sd) = sn_input (pl_next pl)" "sn_head (sd_snapshot sd) \<noteq> []"
      "replay E sd (cl_max_tokens cl) = Inr (Replayed out answer)" by blast
    with assms Inl replay_output [OF w(4)] show ?thesis by (intro winner [of answer]) (auto simp: finish_compact_def)
  next
    case False
    with assms Inl show ?thesis
      by (intro failed [of e]) (auto simp: finish_compact_def Let_def split: if_splits sum.splits outcome.splits)
  qed
qed

lemma sea_inv_set_agent:
  "sea_inv E s \<Longrightarrow> agent_ok E (ss_store s (ag_session g)) g \<Longrightarrow> sea_inv E (set_agent a g s)"
  by (simp add: sea_inv_def set_agent_def)

lemma sea_inv_set_store:
  assumes "sea_inv E s" and "rows_ok E sd" "snap_ok E sd" and "grows (ss_store s x) sd"
  shows "sea_inv E (s\<lparr>ss_store := (ss_store s)(x := sd)\<rparr>)"
  using assms by (auto simp: sea_inv_def intro: agent_ok_grows)

lemma sea_inv_session: "sea_inv E s \<Longrightarrow> rows_ok E (ss_store s x) \<and> snap_ok E (ss_store s x)"
  by (simp add: sea_inv_def)

lemma sea_inv_agent: "sea_inv E s \<Longrightarrow> ss_agents s a = g \<Longrightarrow> agent_ok E (ss_store s (ag_session g)) g"
  by (auto simp: sea_inv_def)

lemma sea_inv_finish:
  assumes "good_hashes E" and "sea_inv E s" and g: "ss_agents s a = g" "ag_plan g = Some (cl, pl)"
    and "finish_compact E lim (ag_session g) cl pl (ss_store s (ag_session g)) = (r, sd)"
  shows "sea_inv E (set_agent a (g\<lparr>ag_plan := None, ag_messages := (case r of Inl e \<Rightarrow> ag_messages g | Inr (out, answer) \<Rightarrow> out)\<rparr>)
    (s\<lparr>ss_store := (ss_store s)(ag_session g := sd)\<rparr>))"
proof -
  let ?sd = "ss_store s (ag_session g)"
  from sea_inv_agent [OF assms(2) g(1)] g(2) obtain opts sd0 where
    rep: "represents ?sd (ag_messages g) (ag_full g)" "cl_messages cl = ag_messages g" and sd0: "grows sd0 ?sd" "rows_ok E sd0"
      "represents sd0 (ag_messages g) (ag_full g)" "compact_plan E opts sd0 cl = Some (Inr (Planned pl))"
    by (auto simp: agent_ok_def)
  from sea_inv_session [OF assms(2)] have sess: "rows_ok E ?sd" "snap_ok E ?sd" by auto
  have goal: ?thesis if "rows_ok E sd" "snap_ok E sd" "grows ?sd sd"
    "represents sd (case r of Inl e \<Rightarrow> ag_messages g | Inr (out, answer) \<Rightarrow> out) (ag_full g)"
    using sea_inv_set_store [OF assms(2) that(1-3)] that(4) by (intro sea_inv_set_agent) (auto simp: agent_ok_def)
  from assms(5) show ?thesis
  proof (cases rule: finish_cases)
    case (committed answer)
    note c = commit_effect [OF assms(1) sess(1) committed(1)]
    have out: "represents sd (sn_output (pl_next pl)) (ag_full g)"
      using plan_represents [OF assms(1) sd0(2,4) _ grows_trans [OF sd0(1) c(2)] c(3)] rep(2) sd0(3) by simp
    moreover have "represents sd (ag_messages g) (ag_full g)"
      using represents_grows [OF rep(1) c(2)] .
    ultimately have "snap_ok E sd"
      using planned_input [OF sd0(4)] rep(2) by (auto simp: snap_ok_def c(4))
    with c(1,2) out committed(2) show ?thesis by (intro goal) simp_all
  next
    case (failed e)
    with sess rep(1) show ?thesis by (intro goal) (simp_all add: grows_refl)
  next
    case (winner answer)
    have "sn_input (sd_snapshot ?sd) = sha256 E (js_history E (ag_messages g))"
      using winner(3) planned_input [OF sd0(4)] rep(2) by simp
    from replay_represents [OF assms(1) sess winner(4) this rep(1)] winner(1,2) sess show ?thesis
      by (intro goal) (simp_all add: grows_refl)
  qed
qed

theorem sea_inv_step: "sea_step E lim s s' \<Longrightarrow> good_hashes E \<Longrightarrow> sea_inv E s \<Longrightarrow> sea_inv E s'"
proof (induction rule: sea_step.induct)
  case (append s a g m)
  from sea_inv_agent [OF append.prems(2) append.hyps(1)] append.hyps(2,3) append.prems(2) show ?case
    by (intro sea_inv_set_agent) (simp_all add: agent_ok_def represents_append)
next
  case (plan s a g cl opts pl)
  from sea_inv_agent [OF plan.prems(2) plan.hyps(1)] have "represents (ss_store s (ag_session g)) (ag_messages g) (ag_full g)"
    by (simp add: agent_ok_def)
  with plan sea_inv_session [OF plan.prems(2)] grows_refl show ?case
    by (intro sea_inv_set_agent) (auto simp: agent_ok_def)
next
  case (replayed s a g cl opts out answer)
  let ?sd = "ss_store s (ag_session g)"
  from sea_inv_agent [OF replayed.prems(2) replayed.hyps(1)] have "represents ?sd (ag_messages g) (ag_full g)"
    by (simp add: agent_ok_def)
  moreover note h = replayed_head [OF replayed.hyps(4)]
  ultimately have "represents ?sd (sn_output (sd_snapshot ?sd)) (ag_full g)"
    using sea_inv_session [OF replayed.prems(2)] replayed.hyps(3)
    by (intro replay_represents [OF replayed.prems(1)]) auto
  with replayed replay_output h show ?case
    by (intro sea_inv_set_agent) (auto simp: agent_ok_def)
next
  case (finish s a g cl pl r sd)
  then show ?case by (blast intro: sea_inv_finish)
next
  case (fail s a g)
  from sea_inv_agent [OF fail.prems(2) fail.hyps] fail.prems show ?case
    by (intro sea_inv_set_agent) (simp_all add: agent_ok_def)
qed

lemma sea_inv_start: "sea_inv E (sea_start sessions)"
  by (simp add: sea_inv_def sea_start_def rows_ok_def snap_ok_def agent_ok_def represents_def empty_session_def)

theorem sea_inv_reachable: "sea_reachable E lim s \<Longrightarrow> good_hashes E \<Longrightarrow> sea_inv E s"
  by (induction rule: sea_reachable.induct) (auto intro: sea_inv_start sea_inv_step)

end
