(* ===== verification/Seahorse_Scenario.thy ===== *)
theory Seahorse_Scenario
  imports Seahorse_Inv
begin

text \<open>
  A run of history compaction on concrete data: texts that can be read back stand for JSON, an escaping
  of blanks for SHA-256.  An agent says two things, compacts its context, and its context is then the
  summary of the first and the second.
\<close>

subsection \<open>Texts that can be read back\<close>

definition prefix_free :: "('a \<Rightarrow> string) \<Rightarrow> bool" where
  "prefix_free f \<longleftrightarrow> (\<forall>x y u v. f x @ u = f y @ v \<longrightarrow> x = y \<and> u = v)"

lemma prefix_freeD: "prefix_free f \<Longrightarrow> f x @ u = f y @ v \<longleftrightarrow> x = y \<and> u = v"
  by (auto simp: prefix_free_def)

lemma prefix_free_inj: "prefix_free f \<Longrightarrow> inj (\<lambda>x. f x @ g x)"
  by (auto simp: prefix_freeD intro!: injI)

fun w_list :: "('a \<Rightarrow> string) \<Rightarrow> 'a list \<Rightarrow> string" where
  "w_list f [] = ''.''"
| "w_list f (x # xs) = ''x'' @ f x @ w_list f xs"

lemma prefix_free_list: "prefix_free f \<Longrightarrow> prefix_free (w_list f)"
proof -
  assume f: "prefix_free f"
  have "w_list f xs @ u = w_list f ys @ v \<Longrightarrow> xs = ys \<and> u = v" for xs ys u v
  proof (induction xs arbitrary: ys)
    case Nil
    then show ?case by (cases ys) auto
  next
    case (Cons x xs)
    then show ?case by (cases ys) (auto simp: prefix_freeD [OF f])
  qed
  then show ?thesis by (auto simp: prefix_free_def)
qed

definition w_str :: "string \<Rightarrow> string" where
  "w_str = w_list (\<lambda>c. [c])"

definition w_int :: "int \<Rightarrow> string" where
  "w_int z = (if z < 0 then ''-'' else ''+'') @ w_list (\<lambda>_ :: unit. []) (replicate (nat \<bar>z\<bar>) ())"

lemma w_str_free: "prefix_free w_str"
  unfolding w_str_def by (rule prefix_free_list) (simp add: prefix_free_def)

lemma w_int_free: "prefix_free w_int"
proof -
  have "prefix_free (w_list (\<lambda>_ :: unit. []))"
    by (rule prefix_free_list) (simp add: prefix_free_def)
  from prefix_freeD [OF this] show ?thesis
    by (auto simp: prefix_free_def w_int_def replicate_eq_replicate split: if_splits)
qed

lemmas w_free = prefix_freeD [OF w_str_free] prefix_freeD [OF w_int_free]
  prefix_freeD [OF prefix_free_list [OF w_str_free]]

definition w_call :: "tool_call \<Rightarrow> string" where
  "w_call c = w_str (tc_id c) @ w_str (tc_name c) @ w_str (tc_arguments c)"

definition w_attachment :: "attachment \<Rightarrow> string" where
  "w_attachment a = w_str (at_kind a) @ w_str (at_media a) @ w_str (at_data a)"

definition w_message :: "chat_message \<Rightarrow> string" where
  "w_message m = w_str (cm_role m) @ w_str (cm_content m) @ w_list w_call (cm_calls m) @ w_str (cm_call_id m) @
     w_list w_attachment (cm_attachments m)"

definition w_kind :: "summary_kind \<Rightarrow> string" where
  "w_kind k = (case k of KindLeaf \<Rightarrow> ''l'' | KindCondensed \<Rightarrow> ''c'' | KindOther s \<Rightarrow> ''o'' @ w_str s)"

definition w_summary :: "summary \<Rightarrow> string" where
  "w_summary s = w_str (sm_id s) @ w_kind (sm_kind s) @ w_int (sm_depth s) @ w_str (sm_content s) @ w_int (sm_tokens s) @
     w_int (sm_desc_count s) @ w_int (sm_desc_tokens s) @ w_int (sm_source_tokens s) @ w_str (sm_model s) @
     w_int (sm_earliest s) @ w_int (sm_latest s) @ w_list w_str (sm_parents s)"

definition w_node :: "dag_node \<Rightarrow> string" where
  "w_node n = w_summary (nd_summary n) @ w_list w_str (nd_sources n) @ w_str (nd_hash n)"

lemma w_call_free: "prefix_free w_call"
  unfolding prefix_free_def w_call_def append_assoc w_free by auto

lemma w_attachment_free: "prefix_free w_attachment"
  unfolding prefix_free_def w_attachment_def append_assoc w_free by auto

lemma w_message_free: "prefix_free w_message"
  unfolding prefix_free_def w_message_def append_assoc w_free prefix_freeD [OF prefix_free_list [OF w_call_free]]
    prefix_freeD [OF prefix_free_list [OF w_attachment_free]] by auto

lemma w_kind_free: "prefix_free w_kind"
  by (auto simp: prefix_free_def w_kind_def w_free split: summary_kind.splits)

lemma w_summary_free: "prefix_free w_summary"
  unfolding prefix_free_def w_summary_def append_assoc w_free prefix_freeD [OF w_kind_free] by auto

lemma w_node_free: "prefix_free w_node"
  unfolding prefix_free_def w_node_def append_assoc w_free prefix_freeD [OF w_summary_free] by auto

definition w_hash :: "string \<Rightarrow> string" where
  "w_hash t = concat (map (\<lambda>c. if c = CHR '' '' then ''_b'' else if c = CHR ''_'' then ''_u'' else [c]) t)"

lemma w_hash_inj: "w_hash s = w_hash t \<Longrightarrow> s = t"
proof (induction s arbitrary: t)
  case Nil
  then show ?case by (cases t) (auto simp: w_hash_def split: if_splits)
next
  case (Cons c s)
  then show ?case by (cases t) (auto simp: w_hash_def split: if_splits)
qed

definition w_env :: sea_env where
  "w_env = \<lparr>sha256 = w_hash, js_message = w_message,
     js_history = (\<lambda>ms. let t = w_list w_message ms in t @ replicate (64 - length t) CHR ''p''),
     js_node = w_node, js_summaries = (\<lambda>_. []), js_entries = (\<lambda>_. []), js_source = (\<lambda>s. w_message (so_message s)),
     js_snapshot = (\<lambda>_. []), js_strings = w_list w_str\<rparr>"

lemma w_env_good: "good_hashes w_env"
proof -
  have "\<forall>t. CHR '' '' \<notin> set (w_hash t)" by (auto simp: w_hash_def)
  moreover have "inj w_hash" using w_hash_inj by (auto intro: injI)
  moreover have "inj w_message" "inj w_node"
    using prefix_free_inj [OF w_message_free, of "\<lambda>_. []"] prefix_free_inj [OF w_node_free, of "\<lambda>_. []"] by simp_all
  moreover have "inj (js_history w_env)"
    using prefix_free_inj [OF prefix_free_list [OF w_message_free]] by (simp add: w_env_def Let_def)
  ultimately show ?thesis by (simp add: good_hashes_def) (simp add: w_env_def)
qed

subsection \<open>The run\<close>

declare condense.simps [code]

definition w_user :: "string \<Rightarrow> chat_message" where
  "w_user t = \<lparr>cm_role = ''user'', cm_content = t, cm_calls = [], cm_call_id = [], cm_attachments = []\<rparr>"

definition w_opts :: history_options where
  "w_opts = default_options\<lparr>ho_fresh_tail := 1\<rparr>"

definition w_call_of :: "chat_message list \<Rightarrow> compact_call" where
  "w_call_of ms = \<lparr>cl_alive = True, cl_messages = ms, cl_model = ''m'', cl_max_tokens = 2000, cl_models = [],
     cl_replies = [Answer ''s'' False '''' 0]\<rparr>"

definition w_agent :: "chat_message list \<Rightarrow> agent" where
  "w_agent ms = \<lparr>ag_session = ''s'', ag_messages = ms, ag_full = ms, ag_plan = None\<rparr>"

definition w_said :: "chat_message list" where
  "w_said = [w_user ''a'', w_user ''b'']"

definition w_id :: string where
  "w_id = ''.l+.xs.+x.+x.+xxxxxxxx.+xxxxxxxx.xm.+.+..xxxxuxxxsxxxexxxrx.xxxax.x.x.x....''"

definition w_leaf :: dag_node where
  "w_leaf = \<lparr>nd_summary = \<lparr>sm_id = w_id, sm_kind = KindLeaf, sm_depth = 0, sm_content = ''s'', sm_tokens = 1,
       sm_desc_count = 1, sm_desc_tokens = 8, sm_source_tokens = 8, sm_model = ''m'', sm_earliest = 0, sm_latest = 0,
       sm_parents = []\<rparr>,
     nd_sources = [''xuxsxexr.xa....''], nd_hash = w_id\<rparr>"

definition w_out :: "chat_message list" where
  "w_out = [summary_message w_leaf, w_user ''b'']"

definition w_sources :: "sea_source list" where
  "w_sources = [\<lparr>so_id = ''xuxsxexr.xa....'', so_message = w_user ''a''\<rparr>, \<lparr>so_id = ''xuxsxexr.xb....'', so_message = w_user ''b''\<rparr>]"

definition w_next :: sea_snapshot where
  "w_next = \<lparr>sn_revision = 0, sn_head = w_id, sn_input = w_hash (js_history w_env w_said), sn_output = w_out\<rparr>"

definition w_plan :: plan where
  "w_plan = \<lparr>pl_revision = 0, pl_sources = w_sources, pl_nodes = [w_leaf], pl_next = w_next, pl_head = w_leaf\<rparr>"

definition w_stored :: session_data where
  "w_stored = \<lparr>sd_snapshot = w_next\<lparr>sn_revision := 1\<rparr>, sd_sources = map (\<lambda>s. (so_id s, s)) w_sources, sd_nodes = [(w_id, w_leaf)]\<rparr>"

lemma w_planned: "compact_plan w_env w_opts empty_session (w_call_of w_said) = Some (Inr (Planned w_plan))"
  by code_simp

lemma w_finished:
  "finish_compact w_env default_store_limits ''s'' (w_call_of w_said) w_plan empty_session = (Inr (w_out, ''s''), w_stored)"
  by code_simp

lemma w_expanded: "expand w_env w_stored ''s'' w_id 10 1000 = Inr ([w_id], [w_user ''a''])"
  by code_simp

lemma w_loaded: "load_node w_env w_stored w_id = Inr w_leaf"
  by code_simp

definition w_state :: "agent \<Rightarrow> session_data \<Rightarrow> sea_state" where
  "w_state g sd = \<lparr>ss_store = (\<lambda>_. empty_session)(''s'' := sd),
     ss_agents = (\<lambda>a. \<lparr>ag_session = ''s'', ag_messages = [], ag_full = [], ag_plan = None\<rparr>)(0 := g)\<rparr>"

lemma w_run: "sea_reachable w_env default_store_limits (w_state ((w_agent w_said)\<lparr>ag_messages := w_out\<rparr>) w_stored)"
proof -
  let ?E = w_env and ?L = default_store_limits
  let ?s = "\<lambda>g. w_state g empty_session"
  have "sea_start (\<lambda>_. ''s'') = ?s (w_agent [])"
    by (simp add: sea_start_def w_state_def w_agent_def fun_eq_iff)
  then have "sea_reachable ?E ?L (?s (w_agent []))" by (metis sea_reachable.start)
  then have "sea_reachable ?E ?L (?s (w_agent [w_user ''a'']))"
    by (rule sea_reachable.step)
      (use sea_step.append [of "?s (w_agent [])" 0 "w_agent []" "w_user ''a''" ?E ?L] in
        \<open>simp add: w_state_def w_agent_def set_agent_def is_marker_def w_user_def\<close>)
  then have "sea_reachable ?E ?L (?s (w_agent w_said))"
    by (rule sea_reachable.step)
      (use sea_step.append [of "?s (w_agent [w_user ''a''])" 0 "w_agent [w_user ''a'']" "w_user ''b''" ?E ?L] in
        \<open>simp add: w_state_def w_agent_def set_agent_def w_said_def\<close>)
  then have "sea_reachable ?E ?L (?s ((w_agent w_said)\<lparr>ag_plan := Some (w_call_of w_said, w_plan)\<rparr>))"
    by (rule sea_reachable.step)
      (use sea_step.plan [of "?s (w_agent w_said)" 0 "w_agent w_said" "w_call_of w_said" ?E w_opts w_plan ?L] w_planned in
        \<open>simp add: w_state_def w_agent_def set_agent_def w_call_of_def\<close>)
  then show ?thesis
    by (rule sea_reachable.step)
      (use sea_step.finish [of "?s ((w_agent w_said)\<lparr>ag_plan := Some (w_call_of w_said, w_plan)\<rparr>)" 0
          "(w_agent w_said)\<lparr>ag_plan := Some (w_call_of w_said, w_plan)\<rparr>" "w_call_of w_said" w_plan ?E ?L] w_finished in
        \<open>simp add: w_state_def w_agent_def set_agent_def\<close>)
qed

end
