(* ===== verification/Seahorse_Props.thy ===== *)
theory Seahorse_Props
  imports Seahorse_Scenario
begin

text \<open>
  Properties of history compaction: nothing an agent has said is lost, expansion is exact or fails, a
  planned context is well-formed and within its budget, and planning returns.
\<close>

subsection \<open>Expansion\<close>

lemma load_source_row: "load_source E sd i = Inr s \<Longrightarrow> map_of (sd_sources sd) i = Some s"
  by (auto simp: load_source_def split: option.splits if_splits)

definition bytes_of :: "sea_env \<Rightarrow> chat_message list \<Rightarrow> int" where
  "bytes_of E ms = sum_list (map (\<lambda>m. int (length (js_message E m))) ms)"

lemma bytes_of_append [simp]: "bytes_of E (xs @ ys) = bytes_of E xs + bytes_of E ys"
  by (simp add: bytes_of_def)

lemma bytes_of_simps [simp]: "bytes_of E [] = 0" "bytes_of E (m # ms) = int (length (js_message E m)) + bytes_of E ms"
  by (simp_all add: bytes_of_def)

definition added :: "sea_env \<Rightarrow> int \<Rightarrow> int \<Rightarrow> walk_state \<Rightarrow> walk_state \<Rightarrow> chat_message list \<Rightarrow> bool" where
  "added E mm mb st st' ms \<longleftrightarrow> wk_messages st' = wk_messages st @ ms \<and> wk_bytes st' = wk_bytes st + bytes_of E ms \<and>
     (int (length (wk_messages st)) \<le> mm \<and> wk_bytes st \<le> mb \<longrightarrow> int (length (wk_messages st')) \<le> mm \<and> wk_bytes st' \<le> mb)"

lemma take_sources_added:
  "take_sources E sd mm mb is st = Inr st' \<Longrightarrow>
     \<exists>ms. added E mm mb st st' ms \<and> list_all2 (\<lambda>k m. \<exists>s. map_of (sd_sources sd) k = Some s \<and> so_message s = m) is ms"
proof (induction "is" arbitrary: st)
  case Nil
  then show ?case by (auto simp: added_def)
next
  case (Cons i "is")
  then obtain s where s: "load_source E sd i = Inr s" "\<not> mm \<le> int (length (wk_messages st))"
      "\<not> mb < wk_bytes st + int (length (js_message E (so_message s)))"
    and rest: "take_sources E sd mm mb is (st\<lparr>wk_bytes := wk_bytes st + int (length (js_message E (so_message s))),
        wk_messages := wk_messages st @ [so_message s]\<rparr>) = Inr st'"
    by (auto simp: Let_def split: if_splits sum.splits)
  from Cons.IH [OF rest] obtain ms where ms: "list_all2 (\<lambda>k m. \<exists>s. map_of (sd_sources sd) k = Some s \<and> so_message s = m) is ms"
    and a: "added E mm mb (st\<lparr>wk_bytes := wk_bytes st + int (length (js_message E (so_message s))),
        wk_messages := wk_messages st @ [so_message s]\<rparr>) st' ms" by blast
  from a s(2,3) have "added E mm mb st st' (so_message s # ms)" by (auto simp: added_def)
  with ms load_source_row [OF s(1)] show ?case by (intro exI [of _ "so_message s # ms"]) auto
qed

lemma added_trans: "added E mm mb a b xs \<Longrightarrow> added E mm mb b c ys \<Longrightarrow> added E mm mb a c (xs @ ys)"
  by (auto simp: added_def)

lemma walk_added:
  "walk k E sd mm mb anc i st = Inr st' \<Longrightarrow> \<exists>ms. added E mm mb st st' ms \<and> expands sd i ms"
  "walk_all k E sd mm mb anc is st = Inr st' \<Longrightarrow> \<exists>mss. added E mm mb st st' (concat mss) \<and> list_all2 (expands sd) is mss"
proof (induction k E sd mm mb anc i st and k E sd mm mb anc "is" st arbitrary: st' and st' rule: walk_walk_all.induct)
  case (2 k E sd mm mb anc i st)
  then obtain n st1 where n: "load_node E sd i = Inr n" and ok: "\<not> (1024 < wk_visits st + 1 \<or> i \<in> set anc)"
    and w: "walk_all k E sd mm mb (i # anc) (sm_parents (nd_summary n))
        (st\<lparr>wk_visits := wk_visits st + 1, wk_nodes := wk_nodes st @ [i]\<rparr>) = Inr st1"
    and t: "take_sources E sd mm mb (nd_sources n) st1 = Inr st'"
    by (auto split: if_splits sum.splits)
  from "2.IH" [OF ok n w] obtain mss where mss: "list_all2 (expands sd) (sm_parents (nd_summary n)) mss"
    and a: "added E mm mb (st\<lparr>wk_visits := wk_visits st + 1, wk_nodes := wk_nodes st @ [i]\<rparr>) st1 (concat mss)" by blast
  from take_sources_added [OF t] obtain ms where ms: "added E mm mb st1 st' ms"
    "list_all2 (\<lambda>k m. \<exists>s. map_of (sd_sources sd) k = Some s \<and> so_message s = m) (nd_sources n) ms" by blast
  from a have "added E mm mb st st1 (concat mss)" by (auto simp: added_def)
  from added_trans [OF this ms(1)] expands.node [OF _ mss ms(2)] load_node_row [OF n] show ?case by blast
next
  case (3 k E sd mm mb anc st)
  then show ?case by (intro exI [of _ "[]"]) (auto simp: added_def)
next
  case (4 k E sd mm mb anc i "is" st)
  then obtain st1 where w: "walk k E sd mm mb anc i st = Inr st1" and r: "walk_all k E sd mm mb anc is st1 = Inr st'"
    by (auto split: sum.splits)
  from "4.IH"(1) [OF w] obtain ms where ms: "added E mm mb st st1 ms" "expands sd i ms" by blast
  from "4.IH"(2) [OF w r] obtain mss where mss: "added E mm mb st1 st' (concat mss)" "list_all2 (expands sd) is mss" by blast
  from ms mss added_trans [OF ms(1) mss(1)] show ?case by (intro exI [of _ "ms # mss"]) auto
qed auto

lemma expand_expands:
  assumes "expand E sd session i mm mb = Inr (ns, ms)"
  shows "expands sd i ms \<and> int (length ms) \<le> mm \<and> bytes_of E ms \<le> mb"
proof -
  from assms obtain st where ok: "1 \<le> mm" "1 \<le> mb"
    and w: "walk 65 E sd mm mb [] i \<lparr>wk_visits = 0, wk_bytes = 0, wk_nodes = [], wk_messages = []\<rparr> = Inr st" "ms = wk_messages st"
    by (auto simp: expand_def map_sum_Inr_iff split: if_splits)
  from walk_added(1) [OF w(1)] ok w(2) show ?thesis by (auto simp: added_def)
qed

subsection \<open>Nothing is lost\<close>

text \<open>
  C21. The durable memory is lossless.  Any number of agents append messages and compact their
  contexts, on their own or on shared sessions, with any replies of the model, any interleaving of
  their commits, conflicts and failures.  Whenever an agent's context begins with the summary of a
  stored node and \<open>Expand\<close> of that node succeeds, the expanded messages followed by the rest of the
  context are exactly the messages the agent has ever appended, in order.
\<close>

theorem lossless_memory:
  assumes "good_hashes E" and "sea_reachable E lim s" and "g = ss_agents s a" and "sd = ss_store s (ag_session g)"
    and "ag_messages g = m # rest" and "is_marker m"
    and "load_node E sd i = Inr n" and "cm_content m = cm_content (summary_message n)"
    and "expand E sd session i max_messages max_bytes = Inr (visited, ms)"
  shows "ag_full g = ms @ rest"
proof -
  have inv: "sea_inv E s" using sea_inv_reachable assms(1,2) by blast
  have "rows_ok E sd" using sea_inv_session [OF inv] assms(4) by simp
  have "represents sd (m # rest) (ag_full g)"
    using sea_inv_agent [OF inv, of a g] assms(3-5) by (simp add: agent_ok_def)
  moreover have "represents sd (m # rest) (ms @ rest)"
    using expand_expands [OF assms(9)] load_node_row [OF assms(7)] assms(6,8) by (auto simp: represents_def)
  ultimately show ?thesis
    using represents_unique [OF assms(1) \<open>rows_ok E sd\<close>] by blast
qed

lemma lossless_memory_witness:
  "\<exists>s visited ms. sea_reachable w_env default_store_limits s \<and> ag_messages (ss_agents s 0) = w_out \<and> is_marker (hd w_out) \<and>
     expand w_env (ss_store s ''s'') ''s'' w_id 10 1000 = Inr (visited, ms) \<and> ms = [w_user ''a''] \<and>
     ag_full (ss_agents s 0) = ms @ tl w_out"
proof -
  let ?g = "(w_agent w_said)\<lparr>ag_messages := w_out\<rparr>" and ?s = "w_state ((w_agent w_said)\<lparr>ag_messages := w_out\<rparr>) w_stored"
  have g: "ss_agents ?s 0 = ?g" "ss_store ?s ''s'' = w_stored" by (simp_all add: w_state_def)
  have "ag_full ?g = [w_user ''a''] @ [w_user ''b'']"
    by (rule lossless_memory [OF w_env_good w_run g(1) [symmetric] _ _ summary_is_marker w_loaded refl w_expanded])
      (simp_all add: w_agent_def w_out_def w_state_def)
  with w_run g w_expanded show ?thesis
    by (intro exI [of _ ?s]) (simp add: w_out_def summary_is_marker)
qed

subsection \<open>Planned contexts\<close>

lemma tool_groups_split:
  "tool_groups p (xs @ ys) = None \<Longrightarrow> ys = [] \<or> cm_role (hd ys) \<noteq> ''tool'' \<Longrightarrow>
     tool_groups p xs = None \<and> tool_groups [] ys = None"
proof (induction p xs rule: tool_groups.induct)
  case (1 p)
  then show ?case by (cases ys) (auto split: if_splits)
next
  case (2 p m ms)
  then show ?case by (auto split: if_splits option.splits)
qed

lemma move_split_le: "move_split ms k \<le> k"
  by (induction ms k rule: move_split.induct) (auto intro: le_SucI)

lemma move_split_role: "0 < move_split ms k \<Longrightarrow> move_split ms k < length ms \<Longrightarrow> cm_role (ms ! move_split ms k) \<noteq> ''tool''"
  by (induction ms k rule: move_split.induct) (auto split: if_splits)

lemma summary_groups: "tool_groups [] (summary_message n # ms) = tool_groups [] ms"
  by (simp add: summary_message_def)

text \<open>
  C22. Whatever the model answers, the context a compaction plans is a summary followed by an unchanged
  suffix of the history that contains its last messages, as many as the options ask for; it fits the
  budget, and no batch of tool calls is separated from its results.
\<close>

theorem planned_context:
  assumes "compact_plan E opts sd cl = Some (Inr (Planned pl))"
  shows "\<exists>k. sn_output (pl_next pl) = summary_message (pl_head pl) # drop k (cl_messages cl) \<and>
      int k \<le> max 0 (int (length (cl_messages cl)) - ho_fresh_tail opts) \<and>
      validate_tool_groups (take k (cl_messages cl)) = None \<and> validate_tool_groups (sn_output (pl_next pl)) = None \<and>
      message_tokens E (sn_output (pl_next pl)) \<le> cl_max_tokens cl"
  using assms
proof (rule planned_cases)
  fix k ps nodes lim parents prefix cs leaves rs1 rs2
  assume k: "k = split_point opts (cl_messages cl)" "0 < k" and valid: "validate_tool_groups (cl_messages cl) = None"
    and pl: "pl = \<lparr>pl_revision = sn_revision (sd_snapshot sd), pl_sources = map (source_for E) (prefix @ drop k (cl_messages cl)),
       pl_nodes = nodes, pl_next = \<lparr>sn_revision = 0, sn_head = nd_hash (hd ps),
         sn_input = sha256 E (js_history E (cl_messages cl)), sn_output = summary_message (hd ps) # drop k (cl_messages cl)\<rparr>,
       pl_head = hd ps\<rparr>"
    and fits: "message_tokens E (summary_message (hd ps) # drop k (cl_messages cl)) \<le> cl_max_tokens cl"
  let ?ms = "cl_messages cl"
  have "int k \<le> max 0 (int (length ?ms) - ho_fresh_tail opts)"
    using move_split_le [of ?ms "nat (max 0 (int (length ?ms) - ho_fresh_tail opts))"] k(1) by (simp add: split_point_def le_nat_iff)
  moreover have "drop k ?ms = [] \<or> cm_role (hd (drop k ?ms)) \<noteq> ''tool''"
  proof (cases "k < length ?ms")
    case True
    with k move_split_role show ?thesis by (simp add: split_point_def hd_drop_conv_nth)
  qed simp
  then have "tool_groups [] (take k ?ms) = None \<and> tool_groups [] (drop k ?ms) = None"
    using tool_groups_split [of "[]" "take k ?ms" "drop k ?ms"] valid by (simp add: validate_tool_groups_def)
  ultimately show ?thesis
    using fits unfolding validate_tool_groups_def pl
    by (intro exI [of _ k]) (simp add: summary_groups del: tool_groups.simps)
qed

lemma planned_context_witness:
  "validate_tool_groups (sn_output (pl_next w_plan)) = None \<and> message_tokens w_env (sn_output (pl_next w_plan)) \<le> 2000"
  using planned_context [OF w_planned] by (auto simp: w_call_of_def)

subsection \<open>Planning returns\<close>

lemma shrink_length: "min 2 (length g) \<le> length (shrink_group E limit g)"
proof (induction E limit g rule: shrink_group.induct)
  case (1 E limit g)
  then show ?case by (subst shrink_group.simps) auto
qed

lemma condense_round_shrinks:
  "condense_round E lim fan ps nxt nodes rs = (Inr (nxt', nodes'), rs') \<Longrightarrow> 2 \<le> fan \<Longrightarrow>
     length nxt' \<le> length nxt + (length ps + 1) div 2"
proof (induction E lim fan ps nxt nodes rs rule: condense_round.induct)
  case (2 E lim fan p ps nxt nodes rs)
  define g where "g = shrink_group E (lm_input lim) (take fan (p # ps))"
  define rest where "rest = drop (length g - 1) ps"
  have len: "min 2 (length (take fan (p # ps))) \<le> length g"
    unfolding g_def by (rule shrink_length)
  show ?case
  proof (cases "length g \<le> 1")
    case True
    with len "2.prems"(2) have "ps = []" by (cases ps) auto
    from "2.prems"(1) True have "condense_round E lim fan rest (nxt @ [p]) nodes rs = (Inr (nxt', nodes'), rs')"
      unfolding condense_round.simps Let_def g_def [symmetric] rest_def [symmetric] by simp
    with \<open>ps = []\<close> show ?thesis by (auto simp: rest_def)
  next
    case False
    from "2.prems" False obtain ans rs1 where
      s: "summarize (js_summaries E (map nd_summary g)) (lm_model lim) (lm_condensed lim) (lm_input lim) (lm_context lim) rs = (Inr ans, rs1)"
      and small: "\<not> 256 \<le> length nodes" "\<not> 64 < sm_depth (nd_summary (condensed_node g ans))"
      by (auto simp: g_def [symmetric] rest_def [symmetric] Let_def split: if_splits prod.splits sum.splits)
    let ?n = "seal_node E (condensed_node g ans)"
    have rec: "condense_round E lim fan rest (nxt @ [?n]) (nodes @ [?n]) rs1 = (Inr (nxt', nodes'), rs')"
      using "2.prems" False s small unfolding condense_round.simps Let_def g_def [symmetric] rest_def [symmetric] by simp
    have "length nxt' \<le> length (nxt @ [?n]) + (length rest + 1) div 2"
      using "2.IH"(2) [OF g_def rest_def False small(1) s [symmetric] refl refl small(2) rec "2.prems"(2)] .
    also have "\<dots> \<le> length nxt + (length (p # ps) + 1) div 2"
    proof -
      have "length rest + 2 \<le> length (p # ps)" if "ps \<noteq> []"
        using False that by (cases ps) (auto simp: rest_def)
      moreover have "ps \<noteq> []"
        using False shrink_prefix [of E "lm_input lim" "take fan (p # ps)"] by (auto simp: g_def [symmetric])
      ultimately show ?thesis by simp
    qed
    finally show ?thesis .
  qed
qed simp

lemma condense_returns: "2 \<le> fan \<Longrightarrow> condense E lim fan ps nodes rs \<noteq> None"
proof (induction "length ps" arbitrary: ps nodes rs rule: less_induct)
  case less
  show ?case
  proof (cases "length ps \<le> 1")
    case True
    then show ?thesis by (subst condense.simps) simp
  next
    case False
    obtain q rs1 where q: "condense_round E lim fan ps [] nodes rs = (q, rs1)" by fastforce
    show ?thesis
    proof (cases q)
      case (Inl e)
      with False q show ?thesis by (subst condense.simps) simp
    next
      case (Inr r)
      obtain nxt nodes1 where r: "r = (nxt, nodes1)" by fastforce
      have "length nxt < length ps"
        using condense_round_shrinks [OF q [unfolded Inr r] less.prems] False by simp
      from less.hyps [OF this less.prems] False q Inr r show ?thesis by (subst condense.simps) simp
    qed
  qed
qed

lemma valid_fan_in: "new_history_compactor session o0 = Inr opts \<Longrightarrow> 2 \<le> nat (ho_fan_in opts)"
  by (auto simp: new_history_compactor_def fill_options_def default_options_def Let_def split: if_splits)

text \<open>
  C23. Planning a compaction always returns: with the options of a compactor that was constructed, the
  rounds of condensation end, for any history, any store and any replies.
\<close>

theorem compact_returns:
  assumes "new_history_compactor session o0 = Inr opts"
  shows "\<exists>r. compact_plan E opts sd cl = Some r"
proof -
  have "build_plan E opts sd cl lim parents prefix tail \<noteq> None" for lim parents prefix tail
    using condense_returns [OF valid_fan_in [OF assms]] unfolding build_plan_def Let_def
    by (auto split: sum.splits prod.splits)
  then have "compact_plan E opts sd cl \<noteq> None"
    unfolding compact_plan_def Let_def by (auto split: option.splits sum.splits prod.splits)
  then show ?thesis by simp
qed

lemma compact_returns_witness:
  "new_history_compactor ''s'' default_options = Inr default_options \<and>
     (\<exists>r. compact_plan w_env default_options empty_session (w_call_of w_said) = Some r)"
proof -
  have "new_history_compactor ''s'' default_options = Inr default_options" by code_simp
  with compact_returns [OF this] show ?thesis by blast
qed

subsection \<open>Depth\<close>

abbreviation depth_of :: "dag_node \<Rightarrow> int" where
  "depth_of n \<equiv> sm_depth (nd_summary n)"

lemma max_list_ge: "a \<le> max_list a xs" "x \<in> set xs \<Longrightarrow> x \<le> max_list a xs"
proof (induction xs arbitrary: a)
  case (Cons y ys)
  { case 1 then show ?case using Cons.IH(1) [of "max y a"] by (simp add: max_list_def) }
  { case 2 then show ?case using Cons.IH [of "max y a"] by (auto simp: max_list_def) }
qed (simp_all add: max_list_def)

lemma condensed_depth: "p \<in> set g \<Longrightarrow> depth_of p < depth_of (condensed_node g ans)"
  using max_list_ge(2) [of "depth_of p + 1" "map (\<lambda>n. depth_of n + 1) g" 0]
  by (force simp: condensed_node_def split: prod.splits)

lemma condense_round_depth:
  assumes "condense_round E lim fan ps nxt nodes rs = (Inr (nxt', nodes'), rs')"
  shows "(\<forall>p \<in> set (nxt @ ps). \<exists>q \<in> set nxt'. depth_of p \<le> depth_of q) \<and>
    length nxt + (if ps = [] then 0 else 1) \<le> length nxt' \<and>
    (nxt = [] \<longrightarrow> 2 \<le> length ps \<longrightarrow> length nxt' = 1 \<longrightarrow> (\<forall>p \<in> set ps. depth_of p < depth_of (hd nxt')))"
  using assms
proof (induction E lim fan ps nxt nodes rs rule: condense_round.induct)
  case (2 E lim fan p ps nxt nodes rs)
  define g where "g = shrink_group E (lm_input lim) (take fan (p # ps))"
  define rest where "rest = drop (length g - 1) ps"
  obtain k where k: "g = take k (p # ps)"
    using shrink_prefix [of E "lm_input lim" "take fan (p # ps)"] by (auto simp: g_def min_def)
  show ?case
  proof (cases "length g \<le> 1")
    case True
    then have "rest = ps" by (simp add: rest_def)
    from "2.prems" True have rec: "condense_round E lim fan ps (nxt @ [p]) nodes rs = (Inr (nxt', nodes'), rs')"
      unfolding condense_round.simps Let_def g_def [symmetric] rest_def [symmetric] \<open>rest = ps\<close> by simp
    from "2.IH"(1) [OF g_def rest_def True] rec \<open>rest = ps\<close> show ?thesis by (auto split: if_splits)
  next
    case False
    then have split: "p # ps = g @ rest"
      by (cases k) (auto simp: k rest_def min_def)
    from "2.prems" False obtain ans rs1 where
      s: "summarize (js_summaries E (map nd_summary g)) (lm_model lim) (lm_condensed lim) (lm_input lim) (lm_context lim) rs = (Inr ans, rs1)"
      and small: "\<not> 256 \<le> length nodes" "\<not> 64 < sm_depth (nd_summary (condensed_node g ans))"
      by (auto simp: g_def [symmetric] rest_def [symmetric] Let_def split: if_splits prod.splits sum.splits)
    let ?n = "seal_node E (condensed_node g ans)"
    have rec: "condense_round E lim fan rest (nxt @ [?n]) (nodes @ [?n]) rs1 = (Inr (nxt', nodes'), rs')"
      using "2.prems" False s small unfolding condense_round.simps Let_def g_def [symmetric] rest_def [symmetric] by simp
    note IH = "2.IH"(2) [OF g_def rest_def False small(1) s [symmetric] refl refl small(2) rec]
    have up: "depth_of q < depth_of ?n" if "q \<in> set g" for q
      using condensed_depth [OF that] by simp
    from IH obtain q0 where q0: "q0 \<in> set nxt'" "depth_of ?n \<le> depth_of q0" by auto
    have "\<exists>q \<in> set nxt'. depth_of x \<le> depth_of q" if "x \<in> set (nxt @ p # ps)" for x
    proof (cases "x \<in> set g")
      case True
      from up [OF True] q0 show ?thesis by (intro bexI [of _ q0]) auto
    next
      case False
      with that split have "x \<in> set ((nxt @ [?n]) @ rest)" by auto
      with IH show ?thesis by blast
    qed
    moreover have "\<forall>x \<in> set (p # ps). depth_of x < depth_of (hd nxt')" if "nxt = []" "length nxt' = 1"
    proof -
      from IH that have "rest = []" by (auto split: if_splits)
      moreover from q0(1) that(2) have "hd nxt' = q0" by (cases nxt') auto
      ultimately show ?thesis using up q0(2) split by fastforce
    qed
    ultimately show ?thesis using IH by (auto split: if_splits)
  qed
qed auto

lemma condense_depth:
  assumes "condense E lim fan ps nodes rs = Some (Inr (ps', nodes'), rs')" and "p \<in> set ps"
  shows "\<exists>h \<in> set ps'. depth_of p \<le> depth_of h \<and> (2 \<le> length ps \<longrightarrow> depth_of p < depth_of h)"
proof -
  have "\<forall>ps' nodes'. fst r = Inr (ps', nodes') \<longrightarrow> (\<forall>p \<in> set ps. \<exists>h \<in> set ps'. depth_of p \<le> depth_of h \<and>
      (2 \<le> length ps \<longrightarrow> depth_of p < depth_of h))"
    if "condense E lim fan ps nodes rs = Some r" for r
  proof (rule condense.raw_induct [where P = "\<lambda>E lim fan ps nodes rs r. \<forall>ps' nodes'. fst r = Inr (ps', nodes') \<longrightarrow>
      (\<forall>p \<in> set ps. \<exists>h \<in> set ps'. depth_of p \<le> depth_of h \<and> (2 \<le> length ps \<longrightarrow> depth_of p < depth_of h))", OF _ that])
    fix condense E lim fan ps nodes rs r
    assume IH: "\<And>E lim fan ps nodes rs r. condense E lim fan ps nodes rs = Some r \<Longrightarrow>
        \<forall>ps' nodes'. fst r = Inr (ps', nodes') \<longrightarrow> (\<forall>p \<in> set ps. \<exists>h \<in> set ps'. depth_of p \<le> depth_of h \<and>
          (2 \<le> length ps \<longrightarrow> depth_of p < depth_of h))"
      and run: "(if length ps \<le> 1 then Some (Inr (ps, nodes), rs)
        else case condense_round E lim fan ps [] nodes rs of
          (Inl e, rs) \<Rightarrow> Some (Inl e, rs)
        | (Inr (nxt, nodes), rs) \<Rightarrow> condense E lim fan nxt nodes rs) = Some r"
    show "\<forall>ps' nodes'. fst r = Inr (ps', nodes') \<longrightarrow> (\<forall>p \<in> set ps. \<exists>h \<in> set ps'. depth_of p \<le> depth_of h \<and>
        (2 \<le> length ps \<longrightarrow> depth_of p < depth_of h))"
    proof (cases "length ps \<le> 1")
      case True
      with run show ?thesis by auto
    next
      case False
      show ?thesis
      proof (intro allI impI ballI)
        fix ps' nodes' p
        assume r: "fst r = Inr (ps', nodes')" and p: "p \<in> set ps"
        obtain q rs1 where q: "condense_round E lim fan ps [] nodes rs = (q, rs1)" by fastforce
        with run False r obtain nxt nodes1 where "q = Inr (nxt, nodes1)"
          by (cases q) auto
        with q have round: "condense_round E lim fan ps [] nodes rs = (Inr (nxt, nodes1), rs1)" by simp
        with run False have rec: "condense E lim fan nxt nodes1 rs1 = Some r" by simp
        note first = condense_round_depth [OF round]
        from first p obtain u where u: "u \<in> set nxt" "depth_of p \<le> depth_of u" by auto
        from IH [OF rec] r u(1) obtain h where h: "h \<in> set ps'" "depth_of u \<le> depth_of h"
          "2 \<le> length nxt \<longrightarrow> depth_of u < depth_of h" by blast
        have "depth_of p < depth_of h"
        proof (cases "2 \<le> length nxt")
          case True
          with u(2) h(3) show ?thesis by simp
        next
          case False
          moreover have "length nxt \<noteq> 0" using u(1) by auto
          ultimately have "length nxt = 1" by linarith
          with u(1) have "hd nxt = u" by (auto simp: length_Suc_conv)
          have "2 \<le> length ps" using \<open>\<not> length ps \<le> 1\<close> by simp
          with first \<open>length nxt = 1\<close> have "\<forall>p \<in> set ps. depth_of p < depth_of (hd nxt)" by blast
          with p \<open>hd nxt = u\<close> have "depth_of p < depth_of u" by blast
          with h(2) show ?thesis by simp
        qed
        with h(1) show "\<exists>h \<in> set ps'. depth_of p \<le> depth_of h \<and> (2 \<le> length ps \<longrightarrow> depth_of p < depth_of h)"
          by (intro bexI [of _ h]) simp_all
      qed
    qed
  qed
  from this [OF assms(1)] assms(2) show ?thesis by simp
qed

text \<open>
  Each compaction that summarises anything beyond the old summary makes the head deeper.
\<close>

lemma compaction_deepens:
  assumes "compact_plan E opts sd cl = Some (Inr (Planned pl))" and "load_node E sd (sn_head (sd_snapshot sd)) = Inr old"
    and "is_marker (hd (cl_messages cl))" and "1 < split_point opts (cl_messages cl)"
    and "0 \<le> ho_fresh_tail opts"
  shows "depth_of old < depth_of (pl_head pl)"
  using assms(1)
proof (rule planned_cases)
  fix k ps nodes lim parents prefix cs leaves rs1 rs2
  assume ms: "cl_messages cl \<noteq> []" and k: "k = split_point opts (cl_messages cl)" "0 < k"
    and head: "old_head E sd (take k (cl_messages cl)) = Inr (parents, prefix)"
    and cs: "chunks E (leaf_limit lim) prefix = Inr cs"
    and leaves: "leaf_nodes E lim cs [] (cl_replies cl) = (Inr leaves, rs1)"
    and cond: "condense E lim (nat (ho_fan_in opts)) (parents @ leaves) leaves rs1 = Some (Inr (ps, nodes), rs2)"
    and pl: "pl = \<lparr>pl_revision = sn_revision (sd_snapshot sd), pl_sources = map (source_for E) (prefix @ drop k (cl_messages cl)),
       pl_nodes = nodes, pl_next = \<lparr>sn_revision = 0, sn_head = nd_hash (hd ps),
         sn_input = sha256 E (js_history E (cl_messages cl)), sn_output = summary_message (hd ps) # drop k (cl_messages cl)\<rparr>,
       pl_head = hd ps\<rparr>"
  obtain m rest where m: "cl_messages cl = m # rest" using ms by (cases "cl_messages cl") auto
  have "parents = [old]" "prefix = take (k - 1) rest"
    using head k(2) assms(2,3) by (auto simp: old_head_def Let_def m take_Cons' split: if_splits)
  moreover have "split_point opts (cl_messages cl) \<le> length (cl_messages cl)"
    using move_split_le [of "cl_messages cl" "nat (max 0 (int (length (cl_messages cl)) - ho_fresh_tail opts))"] assms(5)
    by (simp add: split_point_def)
  moreover from calculation assms(4) k have "prefix \<noteq> []" by (auto simp: m)
  then have "cs \<noteq> []" using chunk_loop_concat [of E _ "[]" 0 prefix cs] cs by (auto simp: chunks_def)
  then have "leaves \<noteq> []" using leaf_nodes_new [OF leaves] by auto
  ultimately have two: "2 \<le> length (parents @ leaves)" "old \<in> set (parents @ leaves)" by (cases leaves; simp)+
  from condense_depth [OF cond two(2)] two(1) obtain h where h: "h \<in> set ps" "depth_of old < depth_of h" by blast
  have "length ps \<le> 1" using condense_covers [OF cond] by (simp add: same_cover_def)
  with h(1) have "ps = [h]" by (cases ps) auto
  with h(2) show ?thesis by (simp add: pl)
qed

lemma condense_round_bound:
  "condense_round E lim fan ps nxt nodes rs = (Inr (nxt', nodes'), rs') \<Longrightarrow>
     \<forall>p \<in> set (nxt @ ps). depth_of p \<le> 64 \<Longrightarrow> \<forall>p \<in> set nxt'. depth_of p \<le> 64"
proof (induction E lim fan ps nxt nodes rs rule: condense_round.induct)
  case (2 E lim fan p ps nxt nodes rs)
  define g where "g = shrink_group E (lm_input lim) (take fan (p # ps))"
  define rest where "rest = drop (length g - 1) ps"
  have sub: "set rest \<subseteq> set ps" by (auto simp: rest_def dest: in_set_dropD)
  show ?case
  proof (cases "length g \<le> 1")
    case True
    from "2.prems"(1) True have rec: "condense_round E lim fan rest (nxt @ [p]) nodes rs = (Inr (nxt', nodes'), rs')"
      unfolding condense_round.simps Let_def g_def [symmetric] rest_def [symmetric] by simp
    show ?thesis by (rule "2.IH"(1) [OF g_def rest_def True rec]) (use "2.prems"(2) sub in auto)
  next
    case False
    from "2.prems" False obtain ans rs1 where
      s: "summarize (js_summaries E (map nd_summary g)) (lm_model lim) (lm_condensed lim) (lm_input lim) (lm_context lim) rs = (Inr ans, rs1)"
      and small: "\<not> 256 \<le> length nodes" "\<not> 64 < sm_depth (nd_summary (condensed_node g ans))"
      by (auto simp: g_def [symmetric] rest_def [symmetric] Let_def split: if_splits prod.splits sum.splits)
    let ?n = "seal_node E (condensed_node g ans)"
    have rec: "condense_round E lim fan rest (nxt @ [?n]) (nodes @ [?n]) rs1 = (Inr (nxt', nodes'), rs')"
      using "2.prems" False s small unfolding condense_round.simps Let_def g_def [symmetric] rest_def [symmetric] by simp
    show ?thesis
      by (rule "2.IH"(2) [OF g_def rest_def False small(1) s [symmetric] refl refl small(2) rec])
        (use "2.prems"(2) sub small(2) in auto)
  qed
qed auto

lemma condense_bound:
  assumes "condense E lim fan ps nodes rs = Some (Inr (ps', nodes'), rs')" and "\<forall>p \<in> set ps. depth_of p \<le> 64"
  shows "\<forall>p \<in> set ps'. depth_of p \<le> 64"
proof -
  let ?P = "\<lambda>E lim fan ps nodes rs r. \<forall>ps' nodes'. fst r = Inr (ps', nodes') \<longrightarrow>
      (\<forall>p \<in> set ps. depth_of p \<le> 64) \<longrightarrow> (\<forall>p \<in> set ps'. depth_of p \<le> 64)"
  have "?P E lim fan ps nodes rs r" if "condense E lim fan ps nodes rs = Some r" for r
  proof (rule condense.raw_induct [where P = ?P, OF _ that])
    fix condense E lim fan ps nodes rs r
    assume IH: "\<And>E lim fan ps nodes rs r. condense E lim fan ps nodes rs = Some r \<Longrightarrow> ?P E lim fan ps nodes rs r"
      and run: "(if length ps \<le> 1 then Some (Inr (ps, nodes), rs)
        else case condense_round E lim fan ps [] nodes rs of
          (Inl e, rs) \<Rightarrow> Some (Inl e, rs)
        | (Inr (nxt, nodes), rs) \<Rightarrow> condense E lim fan nxt nodes rs) = Some r"
    show "?P E lim fan ps nodes rs r"
    proof (cases "length ps \<le> 1")
      case True
      with run show ?thesis by auto
    next
      case False
      obtain q rs1 where q: "condense_round E lim fan ps [] nodes rs = (q, rs1)" by fastforce
      show ?thesis
      proof (cases q)
        case (Inl e)
        with run False q show ?thesis by auto
      next
        case (Inr x)
        obtain nxt nodes1 where "x = (nxt, nodes1)" by fastforce
        with q Inr have round: "condense_round E lim fan ps [] nodes rs = (Inr (nxt, nodes1), rs1)" by simp
        with run False have "condense E lim fan nxt nodes1 rs1 = Some r" by simp
        from IH [OF this] condense_round_bound [OF round] show ?thesis by simp
      qed
    qed
  qed
  from this [OF assms(1)] assms(2) show ?thesis by simp
qed

lemma leaf_nodes_depth:
  "leaf_nodes E lim cs nodes rs = (Inr nodes', rs') \<Longrightarrow> \<forall>n \<in> set nodes. depth_of n = 0 \<Longrightarrow> \<forall>n \<in> set nodes'. depth_of n = 0"
proof (induction E lim cs nodes rs rule: leaf_nodes.induct)
  case (2 E lim c cs nodes rs)
  have "depth_of (leaf_node E c ans) = 0" for ans
    by (simp add: leaf_node_def split: prod.splits)
  with 2 show ?case by (auto split: if_splits prod.splits sum.splits)
qed auto

lemma planned_depth:
  assumes "compact_plan E opts sd cl = Some (Inr (Planned pl))"
  shows "depth_of (pl_head pl) \<le> 64"
  using assms
proof (rule planned_cases)
  fix k ps nodes lim parents prefix cs leaves rs1 rs2
  assume head: "old_head E sd (take k (cl_messages cl)) = Inr (parents, prefix)"
    and leaves: "leaf_nodes E lim cs [] (cl_replies cl) = (Inr leaves, rs1)" and some: "parents @ leaves \<noteq> []"
    and cond: "condense E lim (nat (ho_fan_in opts)) (parents @ leaves) leaves rs1 = Some (Inr (ps, nodes), rs2)"
    and pl: "pl = \<lparr>pl_revision = sn_revision (sd_snapshot sd), pl_sources = map (source_for E) (prefix @ drop k (cl_messages cl)),
       pl_nodes = nodes, pl_next = \<lparr>sn_revision = 0, sn_head = nd_hash (hd ps),
         sn_input = sha256 E (js_history E (cl_messages cl)), sn_output = summary_message (hd ps) # drop k (cl_messages cl)\<rparr>,
       pl_head = hd ps\<rparr>"
  have "depth_of p \<le> 64" if "p \<in> set parents" for p
    using head that load_node_row [of E sd "sn_head (sd_snapshot sd)"]
    by (auto simp: old_head_def Let_def validate_node_def split: list.splits if_splits sum.splits)
  with leaf_nodes_depth [OF leaves] have "\<forall>p \<in> set (parents @ leaves). depth_of p \<le> 64" by auto
  with condense_bound [OF cond] have all: "\<forall>p \<in> set ps. depth_of p \<le> 64" by blast
  have "ps \<noteq> []"
    using some condense_depth [OF cond, of "hd (parents @ leaves)"] hd_in_set [OF some] by auto
  with all show ?thesis by (simp add: pl)
qed

text \<open>
  So a session whose head has depth 64 can only replay its last output: no attempt to compact messages
  that came after its summary can succeed, for any replies.
\<close>

theorem deep_head_stuck:
  assumes "load_node E sd (sn_head (sd_snapshot sd)) = Inr old" and "depth_of old = 64"
    and "is_marker (hd (cl_messages cl))" and "1 < split_point opts (cl_messages cl)" and "0 \<le> ho_fresh_tail opts"
  shows "compact_plan E opts sd cl \<noteq> Some (Inr (Planned pl))"
  using compaction_deepens [OF _ assms(1,3-5)] planned_depth assms(2) by fastforce

end
