(* ===== verification/Seahorse_Assembler.thy ===== *)
theory Seahorse_Assembler
  imports Seahorse "HOL-Library.Sublist"
begin

text \<open>
  The budget-aware assembler (\<open>Assembler\<close> of \<open>internal/compaction/seahorse/seahorse.go\<close>) and the texts of
  that file.  The format of a time is a parameter.  A tail count is meant to be at least 0: with a negative
  one the code reads beyond its slice.
\<close>

subsection \<open>Data and options\<close>

record context_item =
  ci_ordinal :: int
  ci_type :: string
  ci_summary :: string
  ci_message :: int
  ci_tokens :: int

record assembly_result =
  ar_items :: "context_item list"
  ar_warning :: string
  ar_total :: int
  ar_evicted :: int
  ar_fresh :: int

record compact_options =
  co_fresh_tail :: int
  co_chunk_messages :: int
  co_chunk_tokens :: int
  co_condensed_count :: int
  co_leaf_target :: int
  co_condensed_target :: int
  co_budget :: int
  co_depth_warning :: int

definition default_compact_options :: compact_options where
  "default_compact_options = \<lparr>co_fresh_tail = 32, co_chunk_messages = 8, co_chunk_tokens = 20480, co_condensed_count = 4,
     co_leaf_target = 1200, co_condensed_target = 2000, co_budget = 200000, co_depth_warning = 2\<rparr>"

definition new_assembler :: "compact_options \<Rightarrow> compact_options" where
  "new_assembler o0 = (if co_fresh_tail o0 = 0 then o0\<lparr>co_fresh_tail := 32\<rparr> else o0)"

definition sum_tokens :: "context_item list \<Rightarrow> int" where
  "sum_tokens items = sum_list (map ci_tokens items)"

subsection \<open>Trimming the fresh tail\<close>

text \<open>The loop from the newest item: the kept items newest first, the tokens used and the items below.\<close>

fun keep_newest :: "int \<Rightarrow> context_item list \<Rightarrow> context_item list \<Rightarrow> int \<Rightarrow> context_item list \<times> context_item list" where
  "keep_newest budget [] kept used = (kept, [])"
| "keep_newest budget (i # older) kept used =
     (if used + ci_tokens i \<le> budget then keep_newest budget older (kept @ [i]) (used + ci_tokens i) else (kept, i # older))"

definition trim_fresh_tail :: "context_item list \<Rightarrow> int \<Rightarrow> context_item list" where
  "trim_fresh_tail tail budget =
    (let (kept, dropped) = keep_newest budget (rev tail) [] 0;
         kept = (case dropped of
             older # _ \<Rightarrow> if kept \<noteq> [] \<and> ci_type older = ''message'' \<and> ci_type (last kept) = ''message'' \<and>
                 ci_message (last kept) = ci_message older + 1
               then kept @ [older] else kept
           | [] \<Rightarrow> kept)
     in rev kept)"

subsection \<open>Assembling\<close>

text \<open>The loop over the evictable items from the newest; an item that does not fit is skipped.\<close>

fun fit_newest :: "context_item list \<Rightarrow> context_item list \<Rightarrow> int \<Rightarrow> context_item list" where
  "fit_newest [] kept remaining = kept"
| "fit_newest (i # older) kept remaining =
     (if ci_tokens i \<le> remaining then fit_newest older (kept @ [i]) (remaining - ci_tokens i)
      else fit_newest older kept remaining)"

definition depth_warning :: "compact_options \<Rightarrow> summary list \<Rightarrow> context_item list \<Rightarrow> string" where
  "depth_warning opts sums result =
    (let max_depth = fold (\<lambda>s d. max d (sm_depth s)) sums 0;
         depths = map_of (rev (map (\<lambda>s. (sm_id s, sm_depth s)) sums));
         condensed = int (length (filter (\<lambda>i. ci_type i = ''summary'' \<and>
           (case depths (ci_summary i) of None \<Rightarrow> False | Some d \<Rightarrow> 0 < d)) result))
     in if co_depth_warning opts \<le> max_depth \<and> (2 \<le> max_depth \<or> 2 \<le> condensed)
        then ''Your context has been heavily compressed through '' @ show_int max_depth @ ''-level summarization ('' @
          show_int condensed @ '' condensed summaries). Do NOT assert specific facts from summaries without expanding. '' @
          ''Tool escalation: grep '' @ [char_of (226 :: nat), char_of (134 :: nat), char_of (146 :: nat)] @ '' describe '' @
          [char_of (226 :: nat), char_of (134 :: nat), char_of (146 :: nat)] @ '' expand.''
        else [])"

definition assemble :: "compact_options \<Rightarrow> context_item list \<Rightarrow> summary list \<Rightarrow> assembly_result" where
  "assemble opts items sums =
    (let budget = (if co_budget opts \<le> 0 then 200000 else co_budget opts);
         split = nat (max 0 (int (length items) - co_fresh_tail opts));
         evictable = take split items;
         fresh = drop split items;
         fresh_tokens = sum_tokens fresh
     in if budget < fresh_tokens then
          (let trimmed = trim_fresh_tail fresh budget in
           \<lparr>ar_items = trimmed, ar_warning = [], ar_total = sum_tokens trimmed,
            ar_evicted = int (length items) - int (length trimmed), ar_fresh = int (length trimmed)\<rparr>)
        else
          (let kept = rev (fit_newest (rev evictable) [] (budget - fresh_tokens)); result = kept @ fresh in
           \<lparr>ar_items = result, ar_warning = depth_warning opts sums result, ar_total = sum_tokens result,
            ar_evicted = int (length evictable) - int (length kept), ar_fresh = int (length fresh)\<rparr>))"

definition summary_xml :: "(int \<Rightarrow> string) \<Rightarrow> summary \<Rightarrow> string" where
  "summary_xml format s =
    (let q = [CHR 0x22]; nl = [CHR 0x0A];
         kind = (case sm_kind s of KindLeaf \<Rightarrow> ''leaf'' | KindCondensed \<Rightarrow> ''condensed'' | KindOther k \<Rightarrow> k)
     in ''<summary id='' @ q @ sm_id s @ q @ '' kind='' @ q @ kind @ q @ '' depth='' @ q @ show_int (sm_depth s) @ q @
        '' descendant_count='' @ q @ show_int (sm_desc_count s) @ q @ '' earliest_at='' @ q @ format (sm_earliest s) @ q @
        '' latest_at='' @ q @ format (sm_latest s) @ q @ ''>'' @
        nl @ ''  <content>'' @ sm_content s @ ''</content>'' @
        (if sm_parents s = [] then []
         else nl @ ''  <parents>'' @ concat (map (\<lambda>p. nl @ ''    <summary_ref id='' @ q @ p @ q @ '' />'') (sm_parents s)) @
           nl @ ''  </parents>'') @
        nl @ ''</summary>'')"

subsection \<open>Lemmas\<close>

lemma sum_tokens_simps [simp]: "sum_tokens [] = 0" "sum_tokens (i # is) = ci_tokens i + sum_tokens is"
  "sum_tokens (xs @ ys) = sum_tokens xs + sum_tokens ys" "sum_tokens (rev xs) = sum_tokens xs"
  by (simp_all add: sum_tokens_def rev_map [symmetric])

lemma keep_newest_split:
  "keep_newest budget xs kept used = (kept', dropped) \<Longrightarrow> used \<le> budget \<Longrightarrow>
     \<exists>k. kept' = kept @ take k xs \<and> dropped = drop k xs \<and> used + sum_tokens (take k xs) \<le> budget"
proof (induction budget xs kept used rule: keep_newest.induct)
  case (2 budget i older kept used)
  show ?case
  proof (cases "used + ci_tokens i \<le> budget")
    case True
    with "2.IH" "2.prems"(1) obtain k where "kept' = (kept @ [i]) @ take k older" "dropped = drop k older"
        "(used + ci_tokens i) + sum_tokens (take k older) \<le> budget" by auto
    then show ?thesis by (intro exI [of _ "Suc k"]) simp
  next
    case False
    with "2.prems" show ?thesis by (intro exI [of _ 0]) auto
  qed
qed simp

lemma fit_newest_fits:
  "sum_tokens (fit_newest xs kept remaining) \<le> sum_tokens kept + max 0 remaining \<and>
   (\<exists>ys. subseq ys xs \<and> fit_newest xs kept remaining = kept @ ys)"
  if "0 \<le> remaining"
  using that
proof (induction xs kept remaining rule: fit_newest.induct)
  case (2 i older kept remaining)
  show ?case
  proof (cases "ci_tokens i \<le> remaining")
    case True
    with 2 obtain ys where ys: "subseq ys older" "fit_newest older (kept @ [i]) (remaining - ci_tokens i) = kept @ i # ys"
      by auto
    from ys(1) have "subseq (i # ys) (i # older)" by simp
    moreover have "sum_tokens (fit_newest older (kept @ [i]) (remaining - ci_tokens i)) \<le>
        sum_tokens (kept @ [i]) + max 0 (remaining - ci_tokens i)"
      using "2.IH"(1) True by simp
    ultimately show ?thesis using ys(2) True by auto
  next
    case False
    with 2 obtain ys where "subseq ys older" "fit_newest older kept remaining = kept @ ys" by auto
    with False 2 show ?thesis by auto
  qed
qed auto

lemma subseq_rev: "subseq xs ys \<Longrightarrow> subseq (rev xs) (rev ys)"
  by (induction rule: list_emb.induct) (auto intro: list_emb_append_mono subseq_order.order_trans)

lemma trim_subseq: "subseq (trim_fresh_tail tail budget) tail" if "0 \<le> budget"
proof -
  obtain kept dropped where k: "keep_newest budget (rev tail) [] 0 = (kept, dropped)" by fastforce
  from keep_newest_split [OF this that] obtain n where n: "kept = take n (rev tail)" "dropped = drop n (rev tail)" by auto
  have "rev (trim_fresh_tail tail budget) = kept \<or> (\<exists>d ds. dropped = d # ds \<and> rev (trim_fresh_tail tail budget) = kept @ [d])"
    by (auto simp: trim_fresh_tail_def k split: list.splits)
  moreover have "rev tail = kept @ dropped" by (simp add: n)
  ultimately have "prefix (rev (trim_fresh_tail tail budget)) (rev tail)" by auto
  from subseq_rev [OF prefix_imp_subseq [OF this]] show ?thesis by simp
qed

text \<open>
  The assembled items are a part of the given ones in their order, the counts are theirs, and when the
  protected tail fits the budget, it is kept whole and the budget is respected.
\<close>

theorem assemble_fits:
  assumes "0 \<le> co_fresh_tail opts" and "r = assemble opts items sums"
    and "budget = (if co_budget opts \<le> 0 then 200000 else co_budget opts)"
  shows "subseq (ar_items r) items \<and> ar_total r = sum_tokens (ar_items r) \<and>
    ar_evicted r = int (length items) - int (length (ar_items r)) \<and>
    (sum_tokens (drop (nat (max 0 (int (length items) - co_fresh_tail opts))) items) \<le> budget \<longrightarrow>
       ar_total r \<le> budget \<and>
       suffix (drop (nat (max 0 (int (length items) - co_fresh_tail opts))) items) (ar_items r))"
proof -
  define split where "split = nat (max 0 (int (length items) - co_fresh_tail opts))"
  have le: "split \<le> length items" using assms(1) by (simp add: split_def)
  show ?thesis
  proof (cases "budget < sum_tokens (drop split items)")
    case True
    then have r: "r = (let trimmed = trim_fresh_tail (drop split items) budget in
           \<lparr>ar_items = trimmed, ar_warning = [], ar_total = sum_tokens trimmed,
            ar_evicted = int (length items) - int (length trimmed), ar_fresh = int (length trimmed)\<rparr>)"
      by (simp add: assms(2,3) assemble_def Let_def split_def [symmetric])
    have "0 \<le> budget" by (simp add: assms(3))
    from subseq_order.order_trans [OF trim_subseq [OF this] suffix_imp_subseq [OF suffix_drop]]
    show ?thesis using True r by (simp add: Let_def split_def [symmetric])
  next
    case False
    define kept where "kept = rev (fit_newest (rev (take split items)) [] (budget - sum_tokens (drop split items)))"
    have r: "r = \<lparr>ar_items = kept @ drop split items, ar_warning = depth_warning opts sums (kept @ drop split items),
        ar_total = sum_tokens (kept @ drop split items), ar_evicted = int (length (take split items)) - int (length kept),
        ar_fresh = int (length (drop split items))\<rparr>"
      using False by (simp add: assms(2,3) assemble_def Let_def split_def [symmetric] kept_def)
    from fit_newest_fits [of "budget - sum_tokens (drop split items)" "rev (take split items)" "[]"] False
    have sum: "sum_tokens kept \<le> budget - sum_tokens (drop split items)" and "subseq (rev kept) (rev (take split items))"
      by (auto simp: kept_def)
    from subseq_rev [OF this(2)] have "subseq kept (take split items)" by simp
    then have "subseq (kept @ drop split items) (take split items @ drop split items)"
      by (rule list_emb_append_mono) simp
    then show ?thesis using sum le r by (simp add: split_def [symmetric] suffix_def)
  qed
qed

lemma trim_exceeds_budget:
  "\<exists>items. ar_total (assemble (default_compact_options\<lparr>co_budget := 150\<rparr>) items []) = 200"
proof -
  define it where "it n = \<lparr>ci_ordinal = n, ci_type = ''message'', ci_summary = [], ci_message = n, ci_tokens = 100\<rparr>" for n
  have "ar_total (assemble (default_compact_options\<lparr>co_budget := 150\<rparr>) [it 1, it 2] []) = 200"
    by (simp add: assemble_def default_compact_options_def it_def sum_tokens_def trim_fresh_tail_def)
  then show ?thesis by blast
qed

end
