(* ===== verification/Go_Glob.thy ===== *)
theory Go_Glob
  imports Go_Text
begin

text \<open>
  \<open>filepath.Match\<close> on Unix, \<open>strings.Contains\<close>, and the parts of \<open>encoding/json\<close> that decide which
  value a field gets.  \<open>path_match\<close> is true if the pattern matches the whole name; a malformed pattern
  never does, and the callers ignore or test the error only together with the match.
\<close>

subsection \<open>Runes and substrings\<close>

text \<open>The bytes of the first rune; a byte that begins no rune counts as U+FFFD, in one byte.\<close>

definition rune_width :: "string \<Rightarrow> nat" where
  "rune_width s = (if s = [] then 0 else
     (case filter (\<lambda>n. n \<le> length s \<and> utf8_valid (take n s)) [1, 2, 3, 4] of n # _ \<Rightarrow> n | [] \<Rightarrow> 1))"

definition first_rune :: "string \<Rightarrow> string" where
  "first_rune s = (let r = take (rune_width s) s in
     if utf8_valid r then r else [char_of (239 :: nat), char_of (191 :: nat), char_of (189 :: nat)])"

definition bad_rune :: "string \<Rightarrow> bool" where
  "bad_rune s \<longleftrightarrow> \<not> utf8_valid (take (rune_width s) s)"

fun str_contains :: "string \<Rightarrow> string \<Rightarrow> bool" where
  "str_contains [] t = (t = [])"
| "str_contains (c # s) t = (has_prefix (c # s) t \<or> str_contains s t)"

subsection \<open>filepath.Match\<close>

text \<open>\<open>getEsc\<close>: a possibly escaped rune of a class, with what follows it.\<close>

definition get_esc :: "string \<Rightarrow> (string \<times> string) option" where
  "get_esc p =
    (case p of [] \<Rightarrow> None
     | c # cs \<Rightarrow>
        if c = CHR ''-'' \<or> c = CHR '']'' then None
        else let q = (if byte c = 92 then cs else p) in
          if q = [] \<or> bad_rune q \<or> drop (rune_width q) q = [] then None
          else Some (first_rune q, drop (rune_width q) q))"

fun rune_le :: "string \<Rightarrow> string \<Rightarrow> bool" where
  "rune_le [] t = True"
| "rune_le (c # s) [] = False"
| "rune_le (c # s) (d # t) = (byte c < byte d \<or> c = d \<and> rune_le s t)"

text \<open>The ranges of a class up to its bracket: whether the rune is in one, and the rest of the pattern.\<close>

fun class_ranges :: "nat \<Rightarrow> string \<Rightarrow> string \<Rightarrow> bool \<Rightarrow> bool \<Rightarrow> (bool \<times> string) option" where
  "class_ranges 0 r p some hit = None"
| "class_ranges (Suc k) r p some hit =
     (if p \<noteq> [] \<and> hd p = CHR '']'' \<and> some then Some (hit, tl p)
      else case get_esc p of None \<Rightarrow> None
        | Some (lo, p) \<Rightarrow>
            if hd p = CHR ''-'' then
              (case get_esc (tl p) of None \<Rightarrow> None
               | Some (hi, p) \<Rightarrow> class_ranges k r p True (hit \<or> rune_le lo r \<and> rune_le r hi))
            else class_ranges k r p True (hit \<or> r = lo))"

definition match_class :: "string \<Rightarrow> string \<Rightarrow> (bool \<times> string) option" where
  "match_class r p =
    (let neg = (p \<noteq> [] \<and> hd p = CHR ''^''); p = (if neg then tl p else p)
     in map_option (\<lambda>(hit, rest). (hit \<noteq> neg, rest)) (class_ranges (length p + 1) r p False False))"

text \<open>The first argument is fuel, more than the lengths of the pattern and the name together.\<close>

fun match_loop :: "nat \<Rightarrow> string \<Rightarrow> string \<Rightarrow> bool" where
  "match_loop 0 p s = False"
| "match_loop (Suc k) [] s = (s = [])"
| "match_loop (Suc k) (c # p) s =
     (if c = CHR ''*'' then
        match_loop k p s \<or> (case s of [] \<Rightarrow> False | d # t \<Rightarrow> d \<noteq> CHR ''/'' \<and> match_loop k (c # p) t)
      else if s = [] then False
      else if c = CHR ''?'' then hd s \<noteq> CHR ''/'' \<and> match_loop k p (drop (rune_width s) s)
      else if c = CHR ''['' then
        (case match_class (first_rune s) p of Some (True, rest) \<Rightarrow> match_loop k rest (drop (rune_width s) s) | _ \<Rightarrow> False)
      else if byte c = 92 then p \<noteq> [] \<and> hd p = hd s \<and> match_loop k (tl p) (tl s)
      else c = hd s \<and> match_loop k p (tl s))"

definition path_match :: "string \<Rightarrow> string \<Rightarrow> bool" where
  "path_match p s = match_loop (length p + length s + 1) p s"

subsection \<open>Decoded JSON\<close>

text \<open>
  A JSON text is given by its syntax tree, an object by its members in order, duplicates included.
  A map keeps the last member of a key; a struct field takes every member whose key is equal to its
  name but for case, so the last of these wins, and a member of another type is an error.
\<close>

datatype json = JNull | JBool bool | JNumber string | JString string | JArray "json list" | JObject "(string \<times> json) list"

definition lower_ascii :: "string \<Rightarrow> string" where
  "lower_ascii s = map (\<lambda>c. if 65 \<le> byte c \<and> byte c \<le> 90 then char_of (byte c + 32) else c) s"

definition map_string :: "json option \<Rightarrow> string \<Rightarrow> string" where
  "map_string v k = (case v of
     Some (JObject ms) \<Rightarrow> (case map_of (rev ms) k of Some (JString s) \<Rightarrow> s | _ \<Rightarrow> [])
   | _ \<Rightarrow> [])"

fun field_members :: "string \<Rightarrow> (string \<times> json) list \<Rightarrow> bool \<Rightarrow> string \<Rightarrow> bool \<times> string" where
  "field_members k [] bad acc = (bad, acc)"
| "field_members k ((n, v) # ms) bad acc =
     (if lower_ascii n = lower_ascii k then
        (case v of JString s \<Rightarrow> field_members k ms bad s | JNull \<Rightarrow> field_members k ms bad acc
         | _ \<Rightarrow> field_members k ms True acc)
      else field_members k ms bad acc)"

text \<open>\<open>None\<close> is an error of \<open>Unmarshal\<close>.\<close>

definition struct_string :: "json option \<Rightarrow> string \<Rightarrow> string option" where
  "struct_string v k = (case v of
     Some (JObject ms) \<Rightarrow> (case field_members k ms False [] of (bad, s) \<Rightarrow> if bad then None else Some s)
   | Some JNull \<Rightarrow> Some []
   | _ \<Rightarrow> None)"

subsection \<open>Lemmas\<close>

lemma str_contains_iff: "str_contains s t \<longleftrightarrow> (\<exists>us vs. s = us @ t @ vs)"
proof (induction s)
  case (Cons c s)
  show ?case
  proof
    assume "str_contains (c # s) t"
    then consider "has_prefix (c # s) t" | "str_contains s t" by auto
    then show "\<exists>us vs. c # s = us @ t @ vs"
    proof cases
      case 1
      then obtain vs where "c # s = [] @ t @ vs" by (auto simp: has_prefix_iff)
      then show ?thesis by blast
    next
      case 2
      with Cons.IH obtain us vs where "c # s = (c # us) @ t @ vs" by auto
      then show ?thesis by blast
    qed
  next
    assume "\<exists>us vs. c # s = us @ t @ vs"
    then obtain us vs where s: "c # s = us @ t @ vs" by blast
    show "str_contains (c # s) t"
    proof (cases us)
      case Nil
      with s have "has_prefix (c # s) t" by (simp add: has_prefix_iff)
      then show ?thesis by simp
    next
      case (Cons u us')
      with s have "s = us' @ t @ vs" by simp
      with Cons.IH show ?thesis by auto
    qed
  qed
qed auto

lemma match_loop_literal:
  "list_all (\<lambda>c. c \<notin> set ''*?['' \<and> byte c \<noteq> 92) p \<Longrightarrow> length p < k \<Longrightarrow> match_loop k p s \<longleftrightarrow> s = p"
proof (induction k p s rule: match_loop.induct)
  case (3 k c p s)
  then show ?case by (cases s) auto
qed auto

lemma path_match_literal: "list_all (\<lambda>c. c \<notin> set ''*?['' \<and> byte c \<noteq> 92) p \<Longrightarrow> path_match p s \<longleftrightarrow> s = p"
  unfolding path_match_def by (rule match_loop_literal) simp_all

end
