(* ===== verification/Subagent_Contract.thy ===== *)
theory Subagent_Contract
  imports Go_Glob
begin

text \<open>
  The contracts between a parent agent and its child (\<open>internal/subagent/contract.go\<close>) and the gate in front
  of the child's tools (\<open>enforcer.go\<close>).  A formatted message is a value of \<open>why\<close>, one constructor per
  format.  What runs a shell command, the regular expression for shell verbs, and a tool's own idea of its
  path are parameters.
\<close>

subsection \<open>Data\<close>

datatype why = NoReason | Said string
  | NoContract | NoGoal | NoId | NoOutputs | EmptySpec nat | BadKind nat string | ScopeOverlap string string
  | Unverifiable nat string | BadContextFull string | NegativeBudget
  | MatchesOutOfScope string string | OutsideScope string
  | RunnerError why | ExitMismatch int int | StdoutMissing string
  | EmptyCommand | ShellMetachar string | ScannerError string | ScannerBlocked string
  | NoDeterminablePath

datatype output_kind = OutFile | OutSymbol | OutBehavior | OutTest | OutOther string

record expected_output =
  eo_kind :: output_kind
  eo_spec :: string

record acceptance_check =
  ac_name :: string
  ac_cmd :: string
  ac_exit :: int
  ac_stdout :: string
  ac_timeout :: int

record acceptance_result =
  av_name :: string
  av_passed :: bool
  av_exit :: int
  av_stdout :: string
  av_stderr :: string
  av_reason :: why

record contract_budget =
  bu_tokens :: int
  bu_steps :: int
  bu_wall :: int

datatype on_context_full = FullDefault | FullCompact | FullHandoff | FullFail | FullOther string

record task_contract =
  tk_id :: string
  tk_parent :: string
  tk_goal :: string
  tk_scope :: "string list"
  tk_out_of_scope :: "string list"
  tk_outputs :: "expected_output list"
  tk_acceptance :: "acceptance_check list"
  tk_budget :: contract_budget
  tk_full :: on_context_full

record contract_violation =
  vi_criterion :: string
  vi_reason :: why
  vi_evidence :: "string list"

subsection \<open>Validation\<close>

fun check_outputs :: "nat \<Rightarrow> expected_output list \<Rightarrow> why option" where
  "check_outputs i [] = None"
| "check_outputs i (o1 # os) =
     (if trim_space (eo_spec o1) = [] then Some (EmptySpec i)
      else (case eo_kind o1 of OutOther k \<Rightarrow> Some (BadKind i k) | _ \<Rightarrow> check_outputs (i + 1) os))"

definition scope_overlap :: "task_contract \<Rightarrow> why option" where
  "scope_overlap c = map_option (\<lambda>(s, x). ScopeOverlap s x)
     (find (\<lambda>(s, x). path_match x s) (concat (map (\<lambda>s. map (Pair s) (tk_out_of_scope c)) (tk_scope c))))"

definition has_named_acceptance :: "acceptance_check list \<Rightarrow> string \<Rightarrow> bool" where
  "has_named_acceptance checks name = list_ex (\<lambda>k. ac_name k = name) checks"

fun check_verifiable :: "acceptance_check list \<Rightarrow> nat \<Rightarrow> expected_output list \<Rightarrow> why option" where
  "check_verifiable checks i [] = None"
| "check_verifiable checks i (o1 # os) =
     (if eo_kind o1 = OutFile \<or> has_named_acceptance checks (eo_spec o1) then check_verifiable checks (i + 1) os
      else if checks = [] then Some (Unverifiable i (eo_spec o1))
      else check_verifiable checks (i + 1) os)"

definition validate_contract :: "task_contract option \<Rightarrow> why option" where
  "validate_contract c0 =
    (case c0 of None \<Rightarrow> Some NoContract | Some c \<Rightarrow>
      if trim_space (tk_goal c) = [] then Some NoGoal
      else if tk_id c = [] then Some NoId
      else if tk_outputs c = [] then Some NoOutputs
      else case check_outputs 0 (tk_outputs c) of Some e \<Rightarrow> Some e | None \<Rightarrow>
        (case scope_overlap c of Some e \<Rightarrow> Some e | None \<Rightarrow>
          (case check_verifiable (tk_acceptance c) 0 (tk_outputs c) of Some e \<Rightarrow> Some e | None \<Rightarrow>
            (case tk_full c of FullOther a \<Rightarrow> Some (BadContextFull a) | _ \<Rightarrow>
              if bu_steps (tk_budget c) < 0 \<or> bu_tokens (tk_budget c) < 0 \<or> bu_wall (tk_budget c) < 0
              then Some NegativeBudget else None))))"

subsection \<open>Scope\<close>

definition match_path_or_glob :: "string \<Rightarrow> string \<Rightarrow> bool" where
  "match_path_or_glob pattern path =
    (if pattern = [] then False
     else if path_match pattern path then True
     else let base = take (length pattern - 3) pattern in
       if has_prefix (rev pattern) (rev ''/**'') \<and> (path = base \<or> has_prefix path (base @ ''/'')) then True
       else path = pattern \<or> has_prefix path (pattern @ ''/''))"

definition check_scope :: "task_contract option \<Rightarrow> string \<Rightarrow> bool \<times> why" where
  "check_scope c0 path =
    (case c0 of None \<Rightarrow> (True, NoReason) | Some c \<Rightarrow>
      let clean = path_clean path in
      case find (\<lambda>p. match_path_or_glob p clean) (tk_out_of_scope c) of
        Some p \<Rightarrow> (False, MatchesOutOfScope clean p)
      | None \<Rightarrow>
          if tk_scope c = [] \<or> list_ex (\<lambda>p. match_path_or_glob p clean) (tk_scope c) then (True, NoReason)
          else (False, OutsideScope clean))"

subsection \<open>Acceptance\<close>

text \<open>A runner of commands answers an exit code, the two outputs and an error, for the i-th check.\<close>

type_synonym acceptance_runner = "nat \<Rightarrow> string \<Rightarrow> int \<Rightarrow> int \<times> string \<times> string \<times> why option"

definition contains_shell_metachar :: "string \<Rightarrow> bool" where
  "contains_shell_metachar cmd = list_ex (\<lambda>c. c \<in> set ''&|;$<>'' \<or> byte c = 96 \<or> byte c = 10 \<or> byte c = 13) cmd"

definition default_acceptance_runner :: "acceptance_runner \<Rightarrow> acceptance_runner" where
  "default_acceptance_runner sh i cmd timeout =
    (if cmd = [] then (- 1, [], [], Some EmptyCommand)
     else if contains_shell_metachar cmd then (- 1, [], [], Some (ShellMetachar cmd))
     else sh i cmd (if timeout \<le> 0 then 30 * 10 ^ 9 else timeout))"

definition scanned_acceptance_runner :: "(nat \<Rightarrow> string \<Rightarrow> bool \<times> string option) option \<Rightarrow> acceptance_runner \<Rightarrow> acceptance_runner" where
  "scanned_acceptance_runner scanner sh =
    (case scanner of None \<Rightarrow> default_acceptance_runner sh
     | Some scan \<Rightarrow> (\<lambda>i cmd timeout.
         case scan i cmd of
           (blocked, Some e) \<Rightarrow> (- 1, [], [], Some (ScannerError e))
         | (blocked, None) \<Rightarrow>
             if blocked then (- 1, [], [], Some (ScannerBlocked cmd)) else default_acceptance_runner sh i cmd timeout))"

definition judge_check :: "acceptance_runner \<Rightarrow> nat \<Rightarrow> acceptance_check \<Rightarrow> acceptance_result" where
  "judge_check runner i ck =
    (case runner i (ac_cmd ck) (wrap64 (ac_timeout ck * 10 ^ 9)) of (exit, so, se, err) \<Rightarrow>
      let r = \<lparr>av_name = ac_name ck, av_passed = False, av_exit = exit, av_stdout = so, av_stderr = se, av_reason = NoReason\<rparr> in
      case err of Some e \<Rightarrow> r\<lparr>av_reason := RunnerError e\<rparr> | None \<Rightarrow>
        if exit \<noteq> ac_exit ck then r\<lparr>av_reason := ExitMismatch exit (ac_exit ck)\<rparr>
        else if ac_stdout ck \<noteq> [] \<and> \<not> str_contains so (ac_stdout ck) then r\<lparr>av_reason := StdoutMissing (ac_stdout ck)\<rparr>
        else r\<lparr>av_passed := True\<rparr>)"

definition run_acceptance :: "task_contract \<Rightarrow> acceptance_runner \<Rightarrow> acceptance_result list" where
  "run_acceptance c runner = map (\<lambda>(i, ck). judge_check runner i ck) (enumerate 0 (tk_acceptance c))"

subsection \<open>The gate in front of the tools\<close>

definition write_like_tools :: "string list" where
  "write_like_tools = [''acp_send'', ''acp_submit'', ''acp_cancel'', ''fs_write'', ''patch'', ''worktree_add'', ''worktree_remove'']"

definition is_write_like_call :: "(string \<Rightarrow> bool) \<Rightarrow> string \<Rightarrow> json option \<Rightarrow> bool" where
  "is_write_like_call shell_write name input =
    (if name \<in> set write_like_tools then True
     else if name = ''canvas'' then struct_string input ''action'' \<noteq> Some ''state''
     else if name = ''shell'' \<or> name = ''pty_shell'' then
       (case struct_string input ''command'' of None \<Rightarrow> False | Some cmd \<Rightarrow> shell_write cmd)
     else if name = ''fs'' then
       (case struct_string input ''action'' of None \<Rightarrow> False
        | Some a \<Rightarrow> lower_ascii a \<in> set [''write'', ''create'', ''delete'', ''remove'', ''mkdir''])
     else False)"

definition path_keys :: "string list" where
  "path_keys = [''path'', ''file'', ''target'', ''dst'', ''destination'', ''filename'']"

definition extract_path :: "string \<Rightarrow> (json option \<Rightarrow> string) option \<Rightarrow> json option \<Rightarrow> string" where
  "extract_path name intended input =
    (if name = ''canvas'' then []
     else case intended of
         Some f \<Rightarrow> if f input \<noteq> [] then f input else (case find (\<lambda>k. map_string input k \<noteq> []) path_keys of None \<Rightarrow> [] | Some k \<Rightarrow> map_string input k)
       | None \<Rightarrow> (case find (\<lambda>k. map_string input k \<noteq> []) path_keys of None \<Rightarrow> [] | Some k \<Rightarrow> map_string input k))"

record audit_entry =
  ae_tool :: string
  ae_path :: string
  ae_allowed :: bool
  ae_reason :: why

text \<open>A child's gate: its contract, and the log, the violations sent and the calls that reached the tools.\<close>

record gate =
  ga_contract :: task_contract
  ga_log :: "audit_entry list"
  ga_violations :: "contract_violation list"
  ga_calls :: "(string \<times> json option) list"

definition write_audit :: "string \<Rightarrow> string \<Rightarrow> bool \<Rightarrow> why \<Rightarrow> gate \<Rightarrow> gate" where
  "write_audit tool path allowed reason g =
     g\<lparr>ga_log := ga_log g @ [\<lparr>ae_tool = tool, ae_path = path, ae_allowed = allowed, ae_reason = reason\<rparr>]\<rparr>"

text \<open>\<open>Inl\<close> is the violation with which the call is denied; \<open>Inr\<close> passes it on.\<close>

definition execute_enforced :: "(string \<Rightarrow> bool) \<Rightarrow> string \<Rightarrow> (json option \<Rightarrow> string) option \<Rightarrow> json option \<Rightarrow> gate
    \<Rightarrow> (contract_violation + unit) \<times> gate" where
  "execute_enforced shell_write name intended input g =
    (let path = extract_path name intended input; c = ga_contract g;
         deny = (\<lambda>why evidence. let v = \<lparr>vi_criterion = ''scope'', vi_reason = why, vi_evidence = evidence\<rparr> in
           (Inl v, (write_audit name path False why g)\<lparr>ga_violations := ga_violations g @ [v]\<rparr>));
         pass = (Inr (), (write_audit name path True NoReason g)\<lparr>ga_calls := ga_calls g @ [(name, input)]\<rparr>)
     in if \<not> is_write_like_call shell_write name input then pass
        else if path = [] then
          (if tk_scope c \<noteq> [] \<or> tk_out_of_scope c \<noteq> [] then deny NoDeterminablePath [name] else pass)
        else (case check_scope (Some c) path of (ok, why) \<Rightarrow> if ok then pass else deny why [name, path]))"

end
