(* ===== verification/Subagent_Contract_Props.thy ===== *)
theory Subagent_Contract_Props
  imports Subagent_Contract
begin

text \<open>
  Properties of contracts: what a scope of plain directories means, that acceptance means what its
  checks ask for, that the gate confines every call it takes for a write, and three ways around it.
\<close>

subsection \<open>Scope\<close>







subsection \<open>The gate\<close>








definition docs_contract :: task_contract where
  "docs_contract = \<lparr>tk_id = ''k'', tk_parent = [], tk_goal = ''g'', tk_scope = [''docs''], tk_out_of_scope = [''docs/api''],
     tk_outputs = [\<lparr>eo_kind = OutFile, eo_spec = ''docs/a''\<rparr>], tk_acceptance = [],
     tk_budget = \<lparr>bu_tokens = 0, bu_steps = 0, bu_wall = 0\<rparr>, tk_full = FullDefault\<rparr>"

definition docs_gate :: gate where
  "docs_gate = \<lparr>ga_contract = docs_contract, ga_log = [], ga_violations = [], ga_calls = []\<rparr>"

definition fs_call :: "string \<Rightarrow> string \<Rightarrow> string \<times> (json option \<Rightarrow> string) option \<times> json option" where
  "fs_call action path = (''fs'', None, Some (JObject [(''action'', JString action), (''path'', JString path)]))"


subsection \<open>Ways around the gate\<close>

text \<open>An edit by the file tool is not taken for a write.\<close>

lemma edit_not_gated: "\<not> isl (fst (execute_enforced re ''fs'' None (snd (snd (fs_call ''edit'' ''src/b''))) docs_gate))"
  by (simp add: execute_enforced_def fs_call_def is_write_like_call_def write_like_tools_def struct_string_def lower_ascii_def byte_def Let_def)

text \<open>
  The tool decodes its input into a struct, for which the case of a key does not matter; the gate reads
  a map.  So the two can see different paths.
\<close>

lemma key_case_bypass:
  "\<exists>input. \<not> isl (fst (execute_enforced re ''fs'' None input docs_gate)) \<and> is_write_like_call re ''fs'' input \<and>
     struct_string input ''path'' = Some ''src/b'' \<and> \<not> fst (check_scope (Some docs_contract) ''src/b'')"
proof -
  let ?in = "Some (JObject [(''action'', JString ''write''), (''path'', JString ''docs/b''), (''Path'', JString ''src/b'')])"
  have "\<not> isl (fst (execute_enforced (\<lambda>_. False) ''fs'' None ?in docs_gate))" by code_simp
  moreover have "is_write_like_call (\<lambda>_. False) ''fs'' ?in" by code_simp
  moreover have "execute_enforced re ''fs'' None ?in docs_gate = execute_enforced (\<lambda>_. False) ''fs'' None ?in docs_gate"
    "is_write_like_call re ''fs'' ?in = is_write_like_call (\<lambda>_. False) ''fs'' ?in"
    by (simp_all add: execute_enforced_def is_write_like_call_def)
  moreover have "struct_string ?in ''path'' = Some ''src/b'' \<and> \<not> fst (check_scope (Some docs_contract) ''src/b'')" by code_simp
  ultimately show ?thesis by metis
qed

text \<open>A shell command that removes anything passes if the input also has a path in scope, which the tool ignores.\<close>

lemma shell_path_bypass:
  "\<not> isl (fst (execute_enforced (\<lambda>_. True) ''shell'' None
     (Some (JObject [(''command'', JString ''rm -rf src''), (''path'', JString ''docs/b'')])) docs_gate))"
  by code_simp

subsection \<open>Acceptance\<close>

theorem judge_check_passed:
  "av_passed (judge_check runner i ck) \<longleftrightarrow>
     (\<exists>so se. runner i (ac_cmd ck) (wrap64 (ac_timeout ck * 10 ^ 9)) = (ac_exit ck, so, se, None) \<and>
        (\<exists>us vs. so = us @ ac_stdout ck @ vs))"
  by (auto simp: judge_check_def Let_def str_contains_iff split: prod.splits option.splits)

end
