(* ===== verification/Subagent_Runner.thy ===== *)
theory Subagent_Runner
  imports Subagent_Contract
begin

text \<open>
  The loop that drives a child against its contract (\<open>internal/subagent/autonomous.go\<close>).  What one turn of
  the loop reads (the cancel flag, the context, the clock, the answers of the driver and of the
  acceptance commands) is a \<open>round\<close>, and the environment gives one for each turn; \<open>Inl\<close> is a panic of
  the call.  The loop may run for ever, so it is a partial function.
\<close>

subsection \<open>Data\<close>

record budget_snapshot =
  bs_current :: int
  bs_max :: int

datatype step_error = StepCancelled string | StepViolation contract_violation | StepFailed string

record step_result =
  st_done :: bool
  st_output :: string
  st_err :: "step_error option"

datatype report_status = Completed | Violated | Exhausted | HandedOff | Failed

datatype report_reason = NoReasonGiven | CancelledByParent | ContextCancelled string | WallExceeded
  | TokensExhausted int int | FullFailing budget_snapshot | FullHandingOff budget_snapshot
  | CompactionFailed string | StillFull budget_snapshot | StepsExhausted int | StepEnded string
  | ViolationText contract_violation | NotAllOutputs | ChecksFailed | RunnerPanicked string

record output_result =
  or_spec :: string
  or_kind :: output_kind
  or_satisfied :: bool

record final_report =
  fr_contract :: string
  fr_status :: report_status
  fr_outputs :: "output_result list"
  fr_acceptance :: "acceptance_result list"
  fr_violations :: "contract_violation list"
  fr_tokens :: int
  fr_steps :: int
  fr_reason :: report_reason
  fr_output :: string

datatype next_action = Continue | Abort | AskUser

record status_report =
  sr_contract :: string
  sr_done :: "string list"
  sr_pending :: "string list"
  sr_violations :: "contract_violation list"
  sr_tokens :: int
  sr_steps :: int
  sr_next :: next_action

record runner_state =
  rs_started :: int
  rs_steps :: int
  rs_tokens :: int
  rs_done :: "string list"
  rs_violations :: "contract_violation list"
  rs_output :: string
  rs_report :: "final_report option"
  rs_handoffs :: "status_report list"

record round =
  rd_cancelled :: bool
  rd_context :: "string option"
  rd_now :: int
  rd_budget :: "string + budget_snapshot"
  rd_compact :: "string + string + budget_snapshot"
  rd_step :: "string + step_result"
  rd_check :: "string + string list"
  rd_accept :: "string + acceptance_runner"

subsection \<open>Helpers\<close>

text \<open>The counters are 32-bit integers.\<close>

definition wrap32 :: "int \<Rightarrow> int" where
  "wrap32 x = (x + 2 ^ 31) mod 2 ^ 32 - 2 ^ 31"

text \<open>\<open>Utilization() >= 0.80\<close>; the floating point quotient decides this exactly below 2 ^ 50 tokens.\<close>

definition nearly_full :: "budget_snapshot \<Rightarrow> bool" where
  "nearly_full b \<longleftrightarrow> 0 < bs_max b \<and> 4 * bs_max b \<le> 5 * bs_current b"

definition pending_specs :: "task_contract \<Rightarrow> runner_state \<Rightarrow> string list" where
  "pending_specs c s = filter (\<lambda>x. x \<notin> set (rs_done s)) (map eo_spec (tk_outputs c))"

definition snapshot_status :: "task_contract \<Rightarrow> runner_state \<Rightarrow> status_report" where
  "snapshot_status c s = \<lparr>sr_contract = tk_id c, sr_done = rs_done s, sr_pending = pending_specs c s,
     sr_violations = rs_violations s, sr_tokens = rs_tokens s, sr_steps = rs_steps s,
     sr_next = (if rs_violations s \<noteq> [] then Abort else if pending_specs c s = [] then AskUser else Continue)\<rparr>"

definition build_report :: "task_contract \<Rightarrow> runner_state \<Rightarrow> report_status \<Rightarrow> report_reason \<Rightarrow> final_report" where
  "build_report c s status reason = \<lparr>fr_contract = tk_id c, fr_status = status,
     fr_outputs = map (\<lambda>x. \<lparr>or_spec = eo_spec x, or_kind = eo_kind x, or_satisfied = (eo_spec x \<in> set (rs_done s))\<rparr>) (tk_outputs c),
     fr_acceptance = [], fr_violations = rs_violations s, fr_tokens = rs_tokens s, fr_steps = rs_steps s,
     fr_reason = reason, fr_output = rs_output s\<rparr>"

text \<open>\<open>has_channel\<close>: the runner has a handoff channel, which is taken to have room.\<close>

definition finalize_run :: "bool \<Rightarrow> task_contract \<Rightarrow> runner_state \<Rightarrow> report_status \<Rightarrow> report_reason \<Rightarrow> final_report \<times> runner_state" where
  "finalize_run has_channel c s status reason =
    (let rep = build_report c s status reason; s = s\<lparr>rs_report := Some rep\<rparr>
     in (rep, if has_channel then s\<lparr>rs_handoffs := rs_handoffs s @ [snapshot_status c s]\<rparr> else s))"

definition refresh_done :: "string list \<Rightarrow> runner_state \<Rightarrow> runner_state" where
  "refresh_done got s = s\<lparr>rs_done := fold (\<lambda>g acc. if g \<in> set acc then acc else acc @ [g]) got (rs_done s)\<rparr>"

definition complete_contract :: "task_contract \<Rightarrow> acceptance_runner \<Rightarrow> runner_state \<Rightarrow> final_report \<times> runner_state" where
  "complete_contract c runner s =
    (let acc = run_acceptance c runner;
         failed = filter (\<lambda>a. \<not> av_passed a) acc;
         s = (if failed = [] then s else s\<lparr>rs_violations := rs_violations s @
           map (\<lambda>a. \<lparr>vi_criterion = ''acceptance:'' @ av_name a, vi_reason = av_reason a, vi_evidence = []\<rparr>) failed\<rparr>);
         rep = (build_report c s (if failed = [] then Completed else Violated)
           (if failed = [] then NoReasonGiven else ChecksFailed))\<lparr>fr_acceptance := acc\<rparr>
     in (rep, s\<lparr>rs_report := Some rep\<rparr>))"

definition add_violation :: "contract_violation \<Rightarrow> runner_state \<Rightarrow> runner_state" where
  "add_violation v s = s\<lparr>rs_violations := rs_violations s @ [v]\<rparr>"

subsection \<open>One turn\<close>

text \<open>What is done about a context that is nearly full: a reason to end the run, with the status.\<close>

definition context_full :: "task_contract \<Rightarrow> round \<Rightarrow> budget_snapshot \<Rightarrow> (report_status \<times> report_reason) option" where
  "context_full c r b =
    (if \<not> nearly_full b then None
     else if tk_full c = FullFail then Some (Exhausted, FullFailing b)
     else if tk_full c = FullHandoff then Some (HandedOff, FullHandingOff b)
     else case rd_compact r of
         Inl p \<Rightarrow> Some (Failed, RunnerPanicked p)
       | Inr (Inl e) \<Rightarrow> Some (HandedOff, CompactionFailed e)
       | Inr (Inr nb) \<Rightarrow> if 0 < bs_max nb \<and> nearly_full nb then Some (HandedOff, StillFull nb) else None)"

text \<open>The checks before a step: a reason to end the run, and the state.\<close>

definition before_step :: "task_contract \<Rightarrow> round \<Rightarrow> runner_state \<Rightarrow> (report_status \<times> report_reason) option \<times> runner_state" where
  "before_step c r s =
    (let wall = bu_wall (tk_budget c); steps = bu_steps (tk_budget c) in
     if rd_cancelled r then (Some (HandedOff, CancelledByParent), s)
     else if rd_context r \<noteq> None then (Some (HandedOff, ContextCancelled (the (rd_context r))), s)
     else if 0 < wall \<and> rs_started s + wall < rd_now r then (Some (Exhausted, WallExceeded), s)
     else case rd_budget r of Inl p \<Rightarrow> (Some (Failed, RunnerPanicked p), s)
     | Inr b \<Rightarrow>
         (let s = s\<lparr>rs_tokens := wrap32 (bs_current b)\<rparr> in
          if 0 < bs_max b \<and> bs_max b \<le> bs_current b then (Some (Exhausted, TokensExhausted (bs_current b) (bs_max b)), s)
          else case context_full c r b of Some e \<Rightarrow> (Some e, s) | None \<Rightarrow>
            if 0 < steps \<and> steps \<le> rs_steps s then (Some (Exhausted, StepsExhausted steps), s) else (None, s)))"

text \<open>After a step without an error: the end of the run, or the state of the next turn.\<close>

definition after_check :: "bool \<Rightarrow> task_contract \<Rightarrow> round \<Rightarrow> bool \<Rightarrow> runner_state \<Rightarrow> (final_report \<times> runner_state) + runner_state" where
  "after_check ch c r finished s =
    (if pending_specs c s = [] then
       (case rd_accept r of Inl p \<Rightarrow> Inl (finalize_run ch c s Failed (RunnerPanicked p))
        | Inr runner \<Rightarrow> Inl (complete_contract c runner s))
     else if finished then
       Inl (finalize_run ch c (add_violation \<lparr>vi_criterion = ''expected_outputs'',
           vi_reason = Said ''driver completed without satisfying all expected outputs'',
           vi_evidence = pending_specs c s\<rparr> s) Violated NotAllOutputs)
     else Inr s)"

text \<open>The step is counted and its output remembered, also if it failed.\<close>

definition stepped :: "step_result \<Rightarrow> runner_state \<Rightarrow> runner_state" where
  "stepped sr s = (let s = s\<lparr>rs_steps := wrap32 (rs_steps s + 1)\<rparr> in
     if st_output sr \<noteq> [] then s\<lparr>rs_output := st_output sr\<rparr> else s)"

definition after_step :: "bool \<Rightarrow> task_contract \<Rightarrow> round \<Rightarrow> runner_state \<Rightarrow> (final_report \<times> runner_state) + runner_state" where
  "after_step ch c r s =
    (case rd_step r of Inl p \<Rightarrow> Inl (finalize_run ch c s Failed (RunnerPanicked p))
     | Inr sr \<Rightarrow>
        (let s = stepped sr s in
         case st_err sr of
            Some (StepCancelled e) \<Rightarrow> Inl (finalize_run ch c s HandedOff (StepEnded e))
          | Some (StepViolation v) \<Rightarrow> Inl (finalize_run ch c (add_violation v s) Violated (ViolationText v))
          | Some (StepFailed e) \<Rightarrow> Inl (finalize_run ch c s Failed (StepEnded e))
          | None \<Rightarrow>
             (case rd_check r of Inl p \<Rightarrow> Inl (finalize_run ch c s Failed (RunnerPanicked p))
              | Inr got \<Rightarrow> after_check ch c r (st_done sr) (refresh_done got s))))"

definition turn :: "bool \<Rightarrow> task_contract \<Rightarrow> round \<Rightarrow> runner_state \<Rightarrow> (final_report \<times> runner_state) + runner_state" where
  "turn ch c r s = (case before_step c r s of
     (Some (status, reason), s) \<Rightarrow> Inl (finalize_run ch c s status reason)
   | (None, s) \<Rightarrow> after_step ch c r s)"

subsection \<open>The run\<close>

partial_function (option) run_loop :: "bool \<Rightarrow> task_contract \<Rightarrow> (nat \<Rightarrow> round) \<Rightarrow> nat \<Rightarrow> runner_state
    \<Rightarrow> (final_report \<times> runner_state) option" where
  "run_loop ch c env i s = (case turn ch c (env i) s of Inl r \<Rightarrow> Some r | Inr s \<Rightarrow> run_loop ch c env (i + 1) s)"

definition new_runner :: runner_state where
  "new_runner = \<lparr>rs_started = 0, rs_steps = 0, rs_tokens = 0, rs_done = [], rs_violations = [], rs_output = [],
     rs_report = None, rs_handoffs = []\<rparr>"

definition run_contract :: "bool \<Rightarrow> task_contract \<Rightarrow> int \<Rightarrow> (nat \<Rightarrow> round) \<Rightarrow> (final_report \<times> runner_state) option" where
  "run_contract ch c started env = run_loop ch c env 0 (new_runner\<lparr>rs_started := started\<rparr>)"

end
