(* ===== verification/Subagent_Runner_Props.thy ===== *)
theory Subagent_Runner_Props
  imports Subagent_Runner
begin

text \<open>
  Properties of the loop that drives a child: what each kind of report means, how many steps it takes,
  and that it ends when the contract has a step budget.
\<close>

subsection \<open>The parts of a turn\<close>

definition reported :: "(nat \<Rightarrow> round) \<Rightarrow> nat \<Rightarrow> string set" where
  "reported env n = {x. \<exists>k got. k < n \<and> rd_check (env k) = Inr got \<and> x \<in> set got}"

definition step_limit :: "task_contract \<Rightarrow> bool" where
  "step_limit c \<longleftrightarrow> 0 < bu_steps (tk_budget c) \<and> bu_steps (tk_budget c) < 2 ^ 31"

lemma finalize_fields:
  "finalize_run ch c s status reason = (rep, s') \<Longrightarrow>
     fr_status rep = status \<and> fr_violations rep = rs_violations s \<and> fr_steps rep = rs_steps s \<and> rs_report s' = Some rep"
  by (auto simp: finalize_run_def build_report_def Let_def split: if_splits)

lemma refresh_done_set: "set (rs_done (refresh_done got s)) = set (rs_done s) \<union> set got"
proof -
  have "set (fold (\<lambda>g acc. if g \<in> set acc then acc else acc @ [g]) got acc) = set acc \<union> set got" for acc
    by (induction got arbitrary: acc) auto
  then show ?thesis by (simp add: refresh_done_def)
qed

lemma refresh_done_other:
  "rs_violations (refresh_done got s) = rs_violations s" "rs_steps (refresh_done got s) = rs_steps s"
  by (simp_all add: refresh_done_def)

lemma wrap32_id: "- (2 ^ 31) \<le> x \<Longrightarrow> x < 2 ^ 31 \<Longrightarrow> wrap32 x = x"
  unfolding wrap32_def by (subst mod_pos_pos_trivial) auto

lemma context_full_status: "context_full c r b = Some (status, reason) \<Longrightarrow> status \<notin> {Completed, Violated}"
  by (auto simp: context_full_def split: if_splits sum.splits)

lemma before_step_state:
  "before_step c r s = (e, s') \<Longrightarrow> rs_violations s' = rs_violations s \<and> rs_done s' = rs_done s \<and> rs_steps s' = rs_steps s"
  unfolding before_step_def Let_def by (auto split: if_splits sum.splits option.splits)

lemma before_step_continues:
  "before_step c r s = (None, s') \<Longrightarrow> 0 < bu_steps (tk_budget c) \<Longrightarrow> rs_steps s < bu_steps (tk_budget c)"
  unfolding before_step_def Let_def by (auto split: if_splits sum.splits option.splits)

lemma before_step_ends: "before_step c r s = (Some (status, reason), s') \<Longrightarrow> status \<notin> {Completed, Violated}"
  unfolding before_step_def Let_def
  by (auto split: if_splits sum.splits option.splits dest: context_full_status)

lemma after_check_continues: "after_check ch c r fin s = Inr s' \<Longrightarrow> s' = s"
  by (auto simp: after_check_def split: if_splits sum.splits)

lemma complete_fields:
  assumes "complete_contract c runner s = (rep, s')"
  shows "(if list_all av_passed (run_acceptance c runner) then fr_status rep = Completed \<and> fr_violations rep = rs_violations s
      else fr_status rep = Violated \<and> fr_violations rep \<noteq> []) \<and>
    fr_acceptance rep = run_acceptance c runner \<and> fr_steps rep = rs_steps s \<and> rs_report s' = Some rep \<and>
    fr_outputs rep = map (\<lambda>x. \<lparr>or_spec = eo_spec x, or_kind = eo_kind x, or_satisfied = (eo_spec x \<in> set (rs_done s))\<rparr>) (tk_outputs c)"
proof -
  have "filter (\<lambda>a. \<not> av_passed a) (run_acceptance c runner) = [] \<longleftrightarrow> list_all av_passed (run_acceptance c runner)"
    by (auto simp: filter_empty_conv list_all_iff)
  with assms show ?thesis
    by (auto simp: complete_contract_def build_report_def Let_def split: if_splits)
qed

definition good_report :: "task_contract \<Rightarrow> round \<Rightarrow> runner_state \<Rightarrow> final_report \<Rightarrow> runner_state \<Rightarrow> bool" where
  "good_report c r s rep s' \<longleftrightarrow>
     (fr_status rep = Completed \<longrightarrow> (\<exists>runner. rd_accept r = Inr runner \<and> fr_acceptance rep = run_acceptance c runner \<and>
        list_all av_passed (run_acceptance c runner)) \<and>
        list_all or_satisfied (fr_outputs rep) \<and> map or_spec (fr_outputs rep) = map eo_spec (tk_outputs c) \<and>
        set (map eo_spec (tk_outputs c)) \<subseteq> set (rs_done s)) \<and>
     (fr_status rep = Violated \<longleftrightarrow> fr_violations rep \<noteq> []) \<and> rs_report s' = Some rep \<and> fr_steps rep = rs_steps s"

lemma pending_none: "pending_specs c s = [] \<longleftrightarrow> set (map eo_spec (tk_outputs c)) \<subseteq> set (rs_done s)"
  by (auto simp: pending_specs_def filter_empty_conv)

lemma finalize_good:
  "finalize_run ch c s status reason = (rep, s') \<Longrightarrow> status \<noteq> Completed \<Longrightarrow> status = Violated \<longleftrightarrow> rs_violations s \<noteq> [] \<Longrightarrow>
     rs_steps s = rs_steps t \<Longrightarrow> good_report c r t rep s'"
  using finalize_fields [of ch c s status reason rep s'] by (simp add: good_report_def)

lemma after_check_ends:
  assumes "after_check ch c r fin s = Inl (rep, s')" and "rs_violations s = []"
  shows "good_report c r s rep s'"
proof (cases "pending_specs c s = []")
  case True
  note all = True [unfolded pending_none]
  show ?thesis
  proof (cases "rd_accept r")
    case (Inl p)
    with assms True have "finalize_run ch c s Failed (RunnerPanicked p) = (rep, s')" by (simp add: after_check_def)
    from finalize_good [OF this] assms(2) show ?thesis by simp
  next
    case (Inr runner)
    with assms True have "complete_contract c runner s = (rep, s')" by (simp add: after_check_def)
    from complete_fields [OF this] all Inr assms(2) show ?thesis
      by (auto simp: good_report_def list_all_iff comp_def split: if_splits)
  qed
next
  case False
  with assms have fin: "fin" by (cases fin) (simp_all add: after_check_def)
  let ?v = "\<lparr>vi_criterion = ''expected_outputs'', vi_reason = Said ''driver completed without satisfying all expected outputs'',
     vi_evidence = pending_specs c s\<rparr>"
  from False fin assms have "finalize_run ch c (add_violation ?v s) Violated NotAllOutputs = (rep, s')"
    by (simp add: after_check_def)
  from finalize_good [OF this] show ?thesis by (simp add: add_violation_def)
qed

subsection \<open>The invariant of the loop\<close>

definition run_inv :: "task_contract \<Rightarrow> (nat \<Rightarrow> round) \<Rightarrow> nat \<Rightarrow> runner_state \<Rightarrow> bool" where
  "run_inv c env i s \<longleftrightarrow> rs_violations s = [] \<and> set (rs_done s) \<subseteq> reported env i \<and>
     (step_limit c \<longrightarrow> 0 \<le> rs_steps s \<and> rs_steps s \<le> bu_steps (tk_budget c))"

lemma stepped_fields [simp]:
  "rs_violations (stepped sr s) = rs_violations s" "rs_done (stepped sr s) = rs_done s"
  "rs_steps (stepped sr s) = wrap32 (rs_steps s + 1)"
  by (simp_all add: stepped_def Let_def)

lemma after_step_stepped:
  "rd_step r = Inr sr \<Longrightarrow> after_step ch c r s = (case st_err sr of
      Some (StepCancelled e) \<Rightarrow> Inl (finalize_run ch c (stepped sr s) HandedOff (StepEnded e))
    | Some (StepViolation v) \<Rightarrow> Inl (finalize_run ch c (add_violation v (stepped sr s)) Violated (ViolationText v))
    | Some (StepFailed e) \<Rightarrow> Inl (finalize_run ch c (stepped sr s) Failed (StepEnded e))
    | None \<Rightarrow> (case rd_check r of Inl p \<Rightarrow> Inl (finalize_run ch c (stepped sr s) Failed (RunnerPanicked p))
        | Inr got \<Rightarrow> after_check ch c r (st_done sr) (refresh_done got (stepped sr s))))"
  by (simp add: after_step_def Let_def)

lemma after_step_continues:
  assumes "after_step ch c r s = Inr s'"
  obtains sr got where "rd_step r = Inr sr" "rd_check r = Inr got" "s' = refresh_done got (stepped sr s)"
proof -
  obtain sr where sr: "rd_step r = Inr sr" using assms by (cases "rd_step r") (auto simp: after_step_def)
  with assms obtain got where "rd_check r = Inr got" "after_check ch c r (st_done sr) (refresh_done got (stepped sr s)) = Inr s'"
    unfolding after_step_stepped [OF sr] by (auto split: option.splits step_error.splits sum.splits)
  with after_check_continues that sr show ?thesis by blast
qed

lemma after_step_ends:
  assumes "after_step ch c r s = Inl (rep, s')" and "rs_violations s = []"
  shows "\<exists>t. good_report c r t rep s' \<and> rs_steps t \<in> {rs_steps s, wrap32 (rs_steps s + 1)} \<and>
    set (rs_done t) \<subseteq> set (rs_done s) \<union> {x. \<exists>got. rd_check r = Inr got \<and> x \<in> set got}"
proof (cases "rd_step r")
  case (Inl p)
  with assms have "finalize_run ch c s Failed (RunnerPanicked p) = (rep, s')" by (simp add: after_step_def)
  from finalize_good [OF this] assms(2) show ?thesis by (intro exI [of _ s]) simp
next
  case (Inr sr)
  note step = assms(1) [unfolded after_step_stepped [OF Inr]]
  let ?s = "stepped sr s"
  have stop: ?thesis if "finalize_run ch c u status reason = (rep, s')" "status \<noteq> Completed"
      "status = Violated \<longleftrightarrow> rs_violations u \<noteq> []" "rs_steps u = rs_steps ?s" for u status reason
    using finalize_good [OF that] by (intro exI [of _ ?s]) simp
  show ?thesis
  proof (cases "st_err sr")
    case (Some e)
    then show ?thesis
      using step stop [of ?s HandedOff] stop [of ?s Failed] stop [of "add_violation v ?s" Violated for v] assms(2)
      by (cases e) (auto simp: add_violation_def)
  next
    case None
    show ?thesis
    proof (cases "rd_check r")
      case (Inl p)
      with None step stop [of ?s Failed] assms(2) show ?thesis by simp
    next
      case (Inr got)
      with None step have "after_check ch c r (st_done sr) (refresh_done got ?s) = Inl (rep, s')" by simp
      from after_check_ends [OF this] assms(2) Inr show ?thesis
        by (intro exI [of _ "refresh_done got ?s"]) (auto simp: refresh_done_set refresh_done_other)
    qed
  qed
qed

lemma reported_Suc: "reported env i \<union> {x. \<exists>got. rd_check (env i) = Inr got \<and> x \<in> set got} = reported env (Suc i)"
  by (auto simp: reported_def less_Suc_eq)

lemma turn_continues:
  assumes "turn ch c (env i) s = Inr s'" and "run_inv c env i s"
  shows "run_inv c env (Suc i) s' \<and> (step_limit c \<longrightarrow> rs_steps s' = rs_steps s + 1)"
proof -
  obtain e s1 where b: "before_step c (env i) s = (e, s1)" by fastforce
  with assms(1) have e: "e = None" and a: "after_step ch c (env i) s1 = Inr s'"
    by (auto simp: turn_def split: option.splits)
  from after_step_continues [OF a] obtain sr got where
    got: "rd_check (env i) = Inr got" "s' = refresh_done got (stepped sr s1)" by blast
  have steps: "rs_steps s < bu_steps (tk_budget c)" if "step_limit c"
    using before_step_continues [of c "env i" s s1] b e that by (simp add: step_limit_def)
  have "rs_steps s' = wrap32 (rs_steps s + 1)"
    using before_step_state [OF b] got(2) by (simp add: refresh_done_other)
  with steps assms(2) have n: "step_limit c \<longrightarrow> rs_steps s' = rs_steps s + 1"
    by (auto simp: run_inv_def step_limit_def intro!: wrap32_id)
  have "set (rs_done s') \<subseteq> reported env (Suc i)"
    using assms(2) before_step_state [OF b] got unfolding reported_Suc [symmetric]
    by (auto simp: run_inv_def refresh_done_set)
  with n steps assms(2) before_step_state [OF b] got(2) show ?thesis
    by (auto simp: run_inv_def refresh_done_other)
qed

lemma turn_ends:
  assumes "turn ch c (env i) s = Inl (rep, s')" and "run_inv c env i s"
  shows "\<exists>t. good_report c (env i) t rep s' \<and> set (rs_done t) \<subseteq> reported env (Suc i) \<and>
    (step_limit c \<longrightarrow> rs_steps t \<le> bu_steps (tk_budget c))"
proof -
  obtain e s1 where b: "before_step c (env i) s = (e, s1)" by fastforce
  note st = before_step_state [OF b]
  show ?thesis
  proof (cases e)
    case (Some x)
    obtain status reason where x: "x = (status, reason)" by fastforce
    from b Some x have "status \<notin> {Completed, Violated}" using before_step_ends by blast
    moreover from assms(1) b Some x have "finalize_run ch c s1 status reason = (rep, s')" by (simp add: turn_def)
    ultimately have "good_report c (env i) s1 rep s'"
      using finalize_good assms(2) st by (auto simp: run_inv_def)
    then show ?thesis using assms(2) st reported_Suc [of env i] by (intro exI [of _ s1]) (auto simp: run_inv_def)
  next
    case None
    with assms(1) b have a: "after_step ch c (env i) s1 = Inl (rep, s')" by (simp add: turn_def)
    from after_step_ends [OF a] assms(2) st obtain t where
      t: "good_report c (env i) t rep s'" "rs_steps t \<in> {rs_steps s, wrap32 (rs_steps s + 1)}"
        "set (rs_done t) \<subseteq> set (rs_done s1) \<union> {x. \<exists>got. rd_check (env i) = Inr got \<and> x \<in> set got}"
      by (auto simp: run_inv_def)
    have "rs_steps t \<le> bu_steps (tk_budget c)" if l: "step_limit c"
    proof -
      have "rs_steps s < bu_steps (tk_budget c)"
        using before_step_continues [of c "env i" s s1] b None l by (simp add: step_limit_def)
      moreover from this assms(2) l have "wrap32 (rs_steps s + 1) = rs_steps s + 1"
        by (auto simp: run_inv_def step_limit_def intro!: wrap32_id)
      ultimately show ?thesis using t(2) by auto
    qed
    moreover have "set (rs_done t) \<subseteq> reported env (Suc i)"
      using t(3) assms(2) st unfolding reported_Suc [symmetric] by (auto simp: run_inv_def)
    ultimately show ?thesis using t(1) by blast
  qed
qed

lemma run_loop_ends:
  "run_loop ch c env i s = Some (rep, s') \<Longrightarrow> run_inv c env i s \<Longrightarrow>
     \<exists>j t. good_report c (env j) t rep s' \<and> set (rs_done t) \<subseteq> reported env (Suc j) \<and>
       (step_limit c \<longrightarrow> rs_steps t \<le> bu_steps (tk_budget c))"
proof -
  let ?G = "\<lambda>c env r. \<exists>j t. good_report c (env j) t (fst r) (snd r) \<and> set (rs_done t) \<subseteq> reported env (Suc j) \<and>
       (step_limit c \<longrightarrow> rs_steps t \<le> bu_steps (tk_budget c))"
  have "run_inv c env i s \<longrightarrow> ?G c env r" if "run_loop ch c env i s = Some r" for r
  proof (rule run_loop.raw_induct [where P = "\<lambda>ch c env i s r. run_inv c env i s \<longrightarrow> ?G c env r", OF _ that])
    fix run_loop ch c env i s r
    assume IH: "\<And>ch c env i s r. run_loop ch c env i s = Some r \<Longrightarrow> run_inv c env i s \<longrightarrow> ?G c env r"
      and run: "(case turn ch c (env i) s of Inl r \<Rightarrow> Some r | Inr s \<Rightarrow> run_loop ch c env (i + 1) s) = Some r"
    show "run_inv c env i s \<longrightarrow> ?G c env r"
    proof
      assume inv: "run_inv c env i s"
      show "?G c env r"
      proof (cases "turn ch c (env i) s")
        case (Inl x)
        with run have "turn ch c (env i) s = Inl (fst r, snd r)" by simp
        from turn_ends [OF this inv] show ?thesis by blast
      next
        case (Inr s1)
        with run have "run_loop ch c env (i + 1) s1 = Some r" by simp
        from IH [OF this] turn_continues [OF Inr inv] show ?thesis by simp
      qed
    qed
  qed
  then show "run_loop ch c env i s = Some (rep, s') \<Longrightarrow> run_inv c env i s \<Longrightarrow> ?thesis" by fastforce
qed

lemma run_inv_start: "0 \<le> bu_steps (tk_budget c) \<Longrightarrow> run_inv c env 0 (new_runner\<lparr>rs_started := t\<rparr>)"
  by (simp add: run_inv_def new_runner_def)

text \<open>
  C25. A report tells the truth.  A run that ends as completed has had every expected output reported by
  its driver, and every acceptance check of the contract has passed; a run ends as violated exactly if
  it reports violations; the report is the one the runner keeps; and no run with a step budget takes
  more steps than that.
\<close>

theorem run_report:
  assumes "run_contract ch c started env = Some (rep, s')" and "0 \<le> bu_steps (tk_budget c)"
  shows "(fr_status rep = Completed \<longrightarrow> (\<exists>i runner. rd_accept (env i) = Inr runner \<and> fr_acceptance rep = run_acceptance c runner \<and>
        (\<forall>a \<in> set (fr_acceptance rep). av_passed a) \<and> (\<forall>x \<in> set (tk_outputs c). eo_spec x \<in> reported env (Suc i)) \<and>
        (\<forall>x \<in> set (fr_outputs rep). or_satisfied x) \<and> map or_spec (fr_outputs rep) = map eo_spec (tk_outputs c))) \<and>
    (fr_status rep = Violated \<longleftrightarrow> fr_violations rep \<noteq> []) \<and> rs_report s' = Some rep \<and>
    (step_limit c \<longrightarrow> fr_steps rep \<le> bu_steps (tk_budget c))"
proof -
  from run_loop_ends [OF assms(1) [unfolded run_contract_def] run_inv_start [OF assms(2)]] obtain j t where
    good: "good_report c (env j) t rep s'" and all: "set (rs_done t) \<subseteq> reported env (Suc j)"
    and steps: "step_limit c \<longrightarrow> rs_steps t \<le> bu_steps (tk_budget c)" by blast
  have "\<forall>x \<in> set (tk_outputs c). eo_spec x \<in> reported env (Suc j)" if "fr_status rep = Completed"
    using good all that by (auto simp: good_report_def)
  with good steps show ?thesis unfolding good_report_def list_all_iff by metis
qed

subsection \<open>The run ends\<close>

lemma run_loop_returns: "step_limit c \<Longrightarrow> run_inv c env i s \<Longrightarrow> run_loop ch c env i s \<noteq> None"
proof (induction "nat (bu_steps (tk_budget c) - rs_steps s)" arbitrary: i s rule: less_induct)
  case less
  show ?case
  proof (cases "turn ch c (env i) s")
    case (Inl r)
    then show ?thesis by (subst run_loop.simps) simp
  next
    case (Inr s1)
    from turn_continues [OF Inr less.prems(2)] less.prems(1) have inv: "run_inv c env (Suc i) s1" and n: "rs_steps s1 = rs_steps s + 1"
      by simp_all
    from inv less.prems(1) n have "nat (bu_steps (tk_budget c) - rs_steps s1) < nat (bu_steps (tk_budget c) - rs_steps s)"
      by (auto simp: run_inv_def)
    from less.hyps [OF this less.prems(1) inv] Inr show ?thesis by (subst run_loop.simps) simp
  qed
qed

text \<open>
  C26. A child with a step budget always comes back: whatever its driver, the clock and the commands do,
  the run ends with a report.
\<close>

theorem run_returns:
  assumes "0 < bu_steps (tk_budget c)" and "bu_steps (tk_budget c) < 2 ^ 31"
  shows "\<exists>rep s'. run_contract ch c started env = Some (rep, s')"
proof -
  have "run_loop ch c env 0 (new_runner\<lparr>rs_started := started\<rparr>) \<noteq> None"
    using assms by (intro run_loop_returns run_inv_start) (simp_all add: step_limit_def)
  then show ?thesis unfolding run_contract_def by fast
qed

subsection \<open>Runs\<close>

definition fix_contract :: task_contract where
  "fix_contract = \<lparr>tk_id = ''k'', tk_parent = [], tk_goal = ''fix it'', tk_scope = [], tk_out_of_scope = [],
     tk_outputs = [\<lparr>eo_kind = OutTest, eo_spec = ''tests''\<rparr>],
     tk_acceptance = [\<lparr>ac_name = ''tests'', ac_cmd = ''go test'', ac_exit = 0, ac_stdout = ''ok'', ac_timeout = 60\<rparr>],
     tk_budget = \<lparr>bu_tokens = 0, bu_steps = 5, bu_wall = 0\<rparr>, tk_full = FullDefault\<rparr>"

definition idle_round :: round where
  "idle_round = \<lparr>rd_cancelled = False, rd_context = None, rd_now = 0, rd_budget = Inr \<lparr>bs_current = 10, bs_max = 100\<rparr>,
     rd_compact = Inr (Inl ''no''), rd_step = Inr \<lparr>st_done = False, st_output = [], st_err = None\<rparr>, rd_check = Inr [],
     rd_accept = Inr (\<lambda>_ _ _. (0, ''ok'', [], None))\<rparr>"

definition busy_env :: "nat \<Rightarrow> round" where
  "busy_env i = (if i = 0 then idle_round else idle_round\<lparr>rd_check := Inr [''tests'']\<rparr>)"

definition end_status :: "(final_report \<times> runner_state) option \<Rightarrow> (report_status \<times> int) option" where
  "end_status r = map_option (\<lambda>(rep, s). (fr_status rep, fr_steps rep)) r"

declare run_loop.simps [code]

lemma busy_run: "end_status (run_contract False fix_contract 0 busy_env) = Some (Completed, 2)"
  by code_simp

lemma run_report_witness:
  "\<exists>rep s' i runner. run_contract False fix_contract 0 busy_env = Some (rep, s') \<and> fr_status rep = Completed \<and> fr_steps rep \<le> 5 \<and>
     rd_accept (busy_env i) = Inr runner \<and> fr_acceptance rep = run_acceptance fix_contract runner \<and>
     (\<forall>a \<in> set (fr_acceptance rep). av_passed a) \<and> ''tests'' \<in> reported busy_env (Suc i)"
proof -
  obtain rep s' where r: "run_contract False fix_contract 0 busy_env = Some (rep, s')" "fr_status rep = Completed"
    using busy_run by (auto simp: end_status_def)
  have c: "bu_steps (tk_budget fix_contract) = 5" "tk_outputs fix_contract = [\<lparr>eo_kind = OutTest, eo_spec = ''tests''\<rparr>]"
    by (simp_all add: fix_contract_def)
  from run_report [OF r(1)] c r show ?thesis by (auto simp: step_limit_def)
qed

lemma run_returns_witness: "\<exists>rep s'. run_contract False fix_contract 0 (\<lambda>_. idle_round) = Some (rep, s')"
  by (rule run_returns) (simp_all add: fix_contract_def)

text \<open>Without a step budget, a deadline or a limit of tokens a run may never end.\<close>

lemma idle_turn:
  assumes "bu_steps (tk_budget c) = 0" "bu_wall (tk_budget c) = 0" "tk_outputs c = [\<lparr>eo_kind = OutTest, eo_spec = ''tests''\<rparr>]" "rs_done s = []"
  shows "\<exists>s'. turn ch c idle_round s = Inr s' \<and> rs_done s' = []"
  using assms
  by (simp add: turn_def before_step_def after_step_def after_check_def idle_round_def context_full_def nearly_full_def
      refresh_done_def stepped_def pending_specs_def Let_def)

lemma endless_run: "run_contract ch (fix_contract\<lparr>tk_budget := \<lparr>bu_tokens = 0, bu_steps = 0, bu_wall = 0\<rparr>\<rparr>) 0 (\<lambda>_. idle_round) = None"
proof -
  let ?c = "fix_contract\<lparr>tk_budget := \<lparr>bu_tokens = 0, bu_steps = 0, bu_wall = 0\<rparr>\<rparr>"
  have turn: "\<exists>s'. turn ch ?c idle_round s = Inr s' \<and> rs_done s' = []" if "rs_done s = []" for s ch
    using idle_turn [of ?c s ch] that by (simp add: fix_contract_def)
  have "run_loop ch ?c (\<lambda>_. idle_round) i s = None" if "rs_done s = []" for i s
  proof (rule ccontr)
    assume "run_loop ch ?c (\<lambda>_. idle_round) i s \<noteq> None"
    then obtain r where r: "run_loop ch ?c (\<lambda>_. idle_round) i s = Some r" by blast
    have "\<not> (c = ?c \<and> env = (\<lambda>_. idle_round) \<and> rs_done s = [])" if "run_loop ch c env i s = Some r" for ch c env i s r
    proof (rule run_loop.raw_induct [where P = "\<lambda>ch c env i s r. \<not> (c = ?c \<and> env = (\<lambda>_. idle_round) \<and> rs_done s = [])", OF _ that])
      fix run_loop ch c env i s r
      assume IH: "\<And>ch c env i s r. run_loop ch c env i s = Some r \<Longrightarrow> \<not> (c = ?c \<and> env = (\<lambda>_. idle_round) \<and> rs_done s = [])"
        and run: "(case turn ch c (env i) s of Inl r \<Rightarrow> Some r | Inr s \<Rightarrow> run_loop ch c env (i + 1) s) = Some (r :: final_report \<times> runner_state)"
      show "\<not> (c = ?c \<and> env = (\<lambda>_. idle_round) \<and> rs_done s = [])"
      proof
        assume a: "c = ?c \<and> env = (\<lambda>_. idle_round) \<and> rs_done s = []"
        then obtain s' where "turn ch c (env i) s = Inr s'" "rs_done s' = []" using turn by blast
        with run IH [of ch c env "i + 1" s' r] a show False by simp
      qed
    qed
    with r that show False by blast
  qed
  then show ?thesis by (simp add: run_contract_def new_runner_def)
qed

end
