(* ===== verification/Subagent_Manager.thy ===== *)
theory Subagent_Manager
  imports Subagent_Runner
begin

text \<open>
  The manager of child agents (\<open>internal/subagent/manager.go\<close>, with \<open>task.go\<close>, \<open>cost.go\<close>, \<open>decompose.go\<close>).
  Each critical section under the manager's lock is a function, and \<open>manager_step\<close> interleaves them.
  What a worker does is a value of \<open>child_env\<close>; UUIDs, JSON texts and the clock are parameters.  A
  formatted error is a value of \<open>child_error\<close>.  Costs in floating point are not modelled.
\<close>

subsection \<open>Errors and results\<close>

datatype child_error = ContextErr string | WorkerPanicked string | NoResult | EndedWith string string
  | UnsupportedTools "string list" | Unsupported string | InitFailed string | NoRunner | WorkerSaid string
  | DepthLimit int int | TooMany int int int | NilTask nat | InvalidTask nat string
  | AlreadyRegistered string | NoContractGiven | BadContract why | TooManyContracts int int
  | TaskFailed nat child_error | Joined "child_error list" | BatchFailed int int child_error

text \<open>\<open>errors.Is\<close> is asked for three errors.\<close>

record go_err =
  ge_text :: child_error
  ge_deadline :: bool
  ge_cancelled :: bool
  ge_unsupported :: bool

definition plain_err :: "child_error \<Rightarrow> go_err" where
  "plain_err e = \<lparr>ge_text = e, ge_deadline = False, ge_cancelled = False, ge_unsupported = False\<rparr>"

datatype summary_text = Summary string | Failure child_error

record child_result =
  re_index :: int
  re_status :: string
  re_summary :: summary_text
  re_error :: "child_error option"
  re_in :: int
  re_out :: int
  re_duration :: int
  re_exit :: string

definition blank_result :: child_result where
  "blank_result = \<lparr>re_index = 0, re_status = [], re_summary = Summary [], re_error = None, re_in = 0, re_out = 0,
     re_duration = 0, re_exit = []\<rparr>"

subsection \<open>Tasks\<close>

record task_spec =
  ts_goal :: string
  ts_context :: string
  ts_toolset :: "string list"
  ts_model :: string
  ts_steps :: int
  ts_invalid :: "string option"

datatype 'm child_task =
    CompactionTask "'m list" int string
  | SessionNameTask string int
  | PersonalityTask "'m list" string
  | VisualDebugTask string string
  | GenericTask string string "string list" string int

definition task_spec_of :: "('m list \<Rightarrow> string) \<Rightarrow> ('m list \<Rightarrow> string \<Rightarrow> string) \<Rightarrow> 'm child_task \<Rightarrow> task_spec" where
  "task_spec_of js_messages js_update t =
    (case t of
       CompactionTask ms target model \<Rightarrow>
         \<lparr>ts_goal = ''Summarize the following conversation history into a concise summary preserving all decisions, code patterns, and important context. Target approximately '' @ show_int target @ '' tokens.'',
          ts_context = js_messages ms, ts_toolset = [], ts_model = model, ts_steps = 15,
          ts_invalid = (if ms = [] then Some ''compaction task: messages must not be empty''
            else if target < 100 then Some ''compaction task: target tokens must be at least 100'' else None)\<rparr>
     | SessionNameTask first max_tokens \<Rightarrow>
         \<lparr>ts_goal = ''Generate a concise session title (max 10 words) that captures the main topic of this conversation.'',
          ts_context = first, ts_toolset = [], ts_model = [], ts_steps = 5,
          ts_invalid = (if first = [] then Some ''session name task: first message must not be empty'' else None)\<rparr>
     | PersonalityTask ms name \<Rightarrow>
         \<lparr>ts_goal = ''Analyze this conversation for relationship milestones, emotional beats, and interaction patterns. Return JSON: {beats: [], mood: string, suggestions: []}'',
          ts_context = js_update ms name, ts_toolset = [], ts_model = [], ts_steps = 10,
          ts_invalid = (if ms = [] then Some ''personality update task: session messages must not be empty'' else None)\<rparr>
     | VisualDebugTask shot expected \<Rightarrow>
         \<lparr>ts_goal = ''Compare two screenshots and report visual differences.'',
          ts_context = ''screenshot: '' @ shot @ '', expected: '' @ expected, ts_toolset = [''fs''], ts_model = [], ts_steps = 5,
          ts_invalid = (if shot = [] then Some ''visual debug task: screenshot path must not be empty'' else None)\<rparr>
     | GenericTask goal ctx tools model steps \<Rightarrow>
         \<lparr>ts_goal = goal, ts_context = ctx, ts_toolset = tools, ts_model = model, ts_steps = steps,
          ts_invalid = (if goal = [] then Some ''goal is required'' else None)\<rparr>)"

text \<open>A nil task is \<open>None\<close>.\<close>

fun validate_tasks_from :: "nat \<Rightarrow> task_spec option list \<Rightarrow> child_error option" where
  "validate_tasks_from i [] = None"
| "validate_tasks_from i (None # ts) = Some (NilTask i)"
| "validate_tasks_from i (Some t # ts) =
     (case ts_invalid t of Some e \<Rightarrow> Some (InvalidTask i e) | None \<Rightarrow> validate_tasks_from (i + 1) ts)"

definition validate_tasks :: "task_spec option list \<Rightarrow> child_error option" where
  "validate_tasks ts = validate_tasks_from 0 ts"

subsection \<open>The manager\<close>

record manager_config =
  mc_max_depth :: int
  mc_max_children :: int
  mc_timeout :: int
  mc_depth :: int
  mc_max_tasks :: int

record child_ref =
  cr_goal :: string
  cr_model :: string
  cr_depth :: int

record auto_entry =
  en_id :: nat
  en_contract :: task_contract
  en_done :: bool
  en_report :: "final_report option"
  en_error :: "child_error option"
  en_cancelled :: bool

record rollup =
  ru_count :: int
  ru_in :: int
  ru_out :: int

record manager =
  mg_cfg :: manager_config
  mg_children :: "(string \<times> child_ref) list"
  mg_auto :: "(string \<times> auto_entry) list"
  mg_costs :: rollup
  mg_next :: nat

definition new_manager :: "manager_config \<Rightarrow> manager" where
  "new_manager cfg =
    \<lparr>mg_cfg = cfg\<lparr>mc_max_depth := (if mc_max_depth cfg \<le> 0 then 2 else mc_max_depth cfg),
       mc_max_children := (if mc_max_children cfg \<le> 0 then 3 else mc_max_children cfg),
       mc_timeout := (if mc_timeout cfg \<le> 0 then 120 * 10 ^ 9 else mc_timeout cfg)\<rparr>,
     mg_children = [], mg_auto = [], mg_costs = \<lparr>ru_count = 0, ru_in = 0, ru_out = 0\<rparr>, mg_next = 0\<rparr>"

text \<open>Assignment to a key of a Go map, and \<open>delete\<close>.\<close>

definition put_key :: "'k \<Rightarrow> 'v \<Rightarrow> ('k \<times> 'v) list \<Rightarrow> ('k \<times> 'v) list" where
  "put_key k v m = filter (\<lambda>p. fst p \<noteq> k) m @ [(k, v)]"

definition drop_key :: "'k \<Rightarrow> ('k \<times> 'v) list \<Rightarrow> ('k \<times> 'v) list" where
  "drop_key k m = filter (\<lambda>p. fst p \<noteq> k) m"

definition running_autonomous_count :: "manager \<Rightarrow> nat" where
  "running_autonomous_count m = length (filter (\<lambda>(i, e). \<not> en_done e) (mg_auto m))"

definition active_count :: "manager \<Rightarrow> int" where
  "active_count m = int (length (mg_children m)) + int (running_autonomous_count m)"

definition add_child :: "child_result \<Rightarrow> rollup \<Rightarrow> rollup" where
  "add_child r c = \<lparr>ru_count = ru_count c + 1, ru_in = wrap64 (ru_in c + re_in r), ru_out = wrap64 (ru_out c + re_out r)\<rparr>"

text \<open>\<open>ids\<close> are the new child ids.\<close>

definition reserve_children :: "child_error option \<Rightarrow> string list \<Rightarrow> task_spec list \<Rightarrow> manager
    \<Rightarrow> (child_error + string list) \<times> manager" where
  "reserve_children ctx ids tasks m =
    (case ctx of Some e \<Rightarrow> (Inl e, m) | None \<Rightarrow>
      let c = mg_cfg m in
      if mc_max_depth c \<le> mc_depth c then (Inl (DepthLimit (mc_depth c) (mc_max_depth c)), m)
      else if mc_max_children c < active_count m + int (length tasks)
        then (Inl (TooMany (active_count m) (int (length tasks)) (mc_max_children c)), m)
      else (Inr ids, m\<lparr>mg_children := fold (\<lambda>(i, t). put_key i
          \<lparr>cr_goal = ts_goal t, cr_model = ts_model t, cr_depth = mc_depth c + 1\<rparr>) (zip ids tasks) (mg_children m)\<rparr>))"

definition release_child :: "string \<Rightarrow> child_result \<Rightarrow> manager \<Rightarrow> manager" where
  "release_child i r m = m\<lparr>mg_children := drop_key i (mg_children m), mg_costs := add_child r (mg_costs m)\<rparr>"

subsection \<open>Running a child\<close>

datatype run_outcome = Panics string | Returns "child_result option" "go_err option"

datatype built = BuildFailed go_err | BuiltNothing | BuiltRunner run_outcome

text \<open>
  What one child meets: its context at the start and the end, whether a factory is set, the answer of
  the factory or of \<open>NewRealWorker\<close> for the model and provider, and the route.
\<close>

record child_env =
  ce_before :: "go_err option"
  ce_factory :: bool
  ce_route :: "(string \<times> string) option"
  ce_build :: "string \<Rightarrow> string \<Rightarrow> built"
  ce_after :: "go_err option"
  ce_duration :: int

text \<open>The body of \<open>runChild\<close>: the outcome and the reason with which a failure is reported.\<close>

definition run_body :: "child_env \<Rightarrow> task_spec \<Rightarrow> run_outcome \<times> string" where
  "run_body e t =
    (case ce_before e of Some err \<Rightarrow> (Returns None (Some err), ''worker_error'') | None \<Rightarrow>
      if \<not> ce_factory e \<and> ts_toolset t \<noteq> []
      then (Returns None (Some \<lparr>ge_text = UnsupportedTools (ts_toolset t), ge_deadline = False, ge_cancelled = False, ge_unsupported = True\<rparr>),
        ''unsupported_capability'')
      else let (model, provider) = (if ts_model t = [] then (case ce_route e of Some r \<Rightarrow> r | None \<Rightarrow> (ts_model t, [])) else (ts_model t, []))
      in case ce_build e model provider of
          BuildFailed err \<Rightarrow>
            if ge_unsupported err then (Returns None (Some err), ''unsupported_capability'')
            else (Returns None (Some (err\<lparr>ge_text := (case ge_text err of WorkerSaid s \<Rightarrow> InitFailed s | x \<Rightarrow> x)\<rparr>)), ''worker_unavailable'')
        | BuiltNothing \<Rightarrow> (Returns None (Some (plain_err NoRunner)), ''worker_unavailable'')
        | BuiltRunner out \<Rightarrow> (out, ''worker_error''))"

text \<open>The deferred function of \<open>runChild\<close>.\<close>

definition settle_result :: "child_env \<Rightarrow> int \<Rightarrow> string \<Rightarrow> run_outcome \<Rightarrow> child_result \<times> go_err option" where
  "settle_result e index reason out =
    (let (result, err) = (case out of Panics p \<Rightarrow> (None, Some (plain_err (WorkerPanicked p))) | Returns r x \<Rightarrow> (r, x));
         err = (if result = None \<and> err = None then Some (plain_err NoResult) else err);
         result = (case result of None \<Rightarrow> blank_result | Some r \<Rightarrow> r);
         err = (if err = None then ce_after e else err);
         err = (if err = None \<and> re_status result \<noteq> ''completed''
           then Some (plain_err (EndedWith (re_status result) (case re_error result of Some (WorkerSaid s) \<Rightarrow> s | _ \<Rightarrow> []))) else err);
         result = (case err of None \<Rightarrow> result
           | Some x \<Rightarrow> result\<lparr>
               re_status := (if ge_cancelled x then ''interrupted'' else if ge_deadline x then ''timeout'' else ''error''),
               re_exit := (if ge_cancelled x then ''interrupted'' else if ge_deadline x then ''timeout'' else reason),
               re_error := Some (ge_text x), re_summary := Failure (ge_text x)\<rparr>)
     in (result\<lparr>re_index := index, re_duration := ce_duration e\<rparr>, err))"

definition run_child :: "child_env \<Rightarrow> int \<Rightarrow> task_spec \<Rightarrow> child_result \<times> go_err option" where
  "run_child e index t = (case run_body e t of (out, reason) \<Rightarrow> settle_result e index reason out)"

subsection \<open>Batches\<close>

text \<open>
  A batch with the state of the manager at its reservation: the results, the joined error, and the
  state with the children registered and then released, each with its result.
\<close>

definition join_failures :: "go_err option list \<Rightarrow> child_error option" where
  "join_failures errs = (let fs = concat (map (\<lambda>(i, e). case e of None \<Rightarrow> [] | Some x \<Rightarrow> [TaskFailed i (ge_text x)]) (enumerate 0 errs))
     in if fs = [] then None else Some (Joined fs))"

definition spawn_batch :: "child_error option \<Rightarrow> string list \<Rightarrow> (nat \<Rightarrow> child_env) \<Rightarrow> task_spec option list \<Rightarrow> manager
    \<Rightarrow> child_result list \<times> child_error option \<times> manager" where
  "spawn_batch ctx ids env tasks m =
    (case validate_tasks tasks of Some e \<Rightarrow> ([], Some e, m) | None \<Rightarrow>
      if tasks = [] then ([], None, m)
      else let specs = map the tasks in
        (case reserve_children ctx ids specs m of
           (Inl e, m) \<Rightarrow> ([], Some e, m)
         | (Inr ids, m) \<Rightarrow>
             let outs = map (\<lambda>(i, t). run_child (env i) (int i) t) (enumerate 0 specs) in
             (map fst outs, join_failures (map snd outs), fold (\<lambda>(i, r). release_child i r) (zip ids (map fst outs)) m)))"

definition spawn :: "child_error option \<Rightarrow> string \<Rightarrow> child_env \<Rightarrow> task_spec option \<Rightarrow> manager
    \<Rightarrow> child_result option \<times> child_error option \<times> manager" where
  "spawn ctx i e t m = (case spawn_batch ctx [i] (\<lambda>_. e) [t] m of
     ([], err, m) \<Rightarrow> (None, err, m) | (r # rs, err, m) \<Rightarrow> (Some r, err, m))"

definition batch_size :: "manager \<Rightarrow> int" where
  "batch_size m = (let c = mg_cfg m in if 0 < mc_max_tasks c then min (mc_max_tasks c) (mc_max_children c) else mc_max_children c)"

text \<open>
  What a batch meets when it starts at the n-th task: the manager's state and context at that time, the ids
  and the children.
\<close>

record batch_env =
  be_manager :: manager
  be_context :: "child_error option"
  be_ids :: "string list"
  be_children :: "nat \<Rightarrow> child_env"

function split_batches :: "nat \<Rightarrow> (nat \<Rightarrow> batch_env) \<Rightarrow> nat \<Rightarrow> task_spec option list \<Rightarrow> child_result list \<times> child_error option" where
  "split_batches bs env start tasks =
    (if tasks = [] \<or> bs = 0 then ([], None)
     else case spawn_batch (be_context (env start)) (be_ids (env start)) (be_children (env start)) (take bs tasks) (be_manager (env start)) of
       (rs, err, m) \<Rightarrow>
         let rs = map (\<lambda>(i, r). r\<lparr>re_index := int (start + i)\<rparr>) (enumerate 0 rs) in
         case err of
           Some e \<Rightarrow> (rs, Some (BatchFailed (int start + 1) (int (start + min bs (length tasks))) e))
         | None \<Rightarrow> (case split_batches bs env (start + bs) (drop bs tasks) of (rs', err') \<Rightarrow> (rs @ rs', err')))"
  by pat_completeness auto
termination
  by (relation "measure (\<lambda>(bs, env, start, tasks). length tasks)") auto

declare split_batches.simps [simp del]

definition spawn_batch_auto_split :: "(nat \<Rightarrow> batch_env) \<Rightarrow> task_spec option list \<Rightarrow> child_result list \<times> child_error option" where
  "spawn_batch_auto_split env tasks =
    (case validate_tasks tasks of Some e \<Rightarrow> ([], Some e) | None \<Rightarrow>
      let bs = nat (batch_size (be_manager (env 0))) in
      if length tasks \<le> bs
      then (case spawn_batch (be_context (env 0)) (be_ids (env 0)) (be_children (env 0)) tasks (be_manager (env 0)) of
          (rs, err, m) \<Rightarrow> (rs, err))
      else split_batches bs env 0 tasks)"

end
