(* ===== verification/Subagent_Pool.thy ===== *)
theory Subagent_Pool
  imports Subagent_Manager
begin

text \<open>
  Contract-driven children, the interleaving of everything the manager runs, and the decomposition of a
  goal (\<open>internal/subagent/manager.go\<close>, \<open>decompose.go\<close>).  A child's goroutine ends with its release; a
  contract's goroutine stores its report, closes the channel that counts it as done, and adds its cost;
  a timer evicts the entry.
\<close>

subsection \<open>Contracts\<close>

text \<open>\<open>driver\<close>: whether the caller passes a driver.\<close>

definition spawn_contract :: "child_error option \<Rightarrow> task_contract option \<Rightarrow> bool \<Rightarrow> manager \<Rightarrow> (child_error + string) \<times> manager" where
  "spawn_contract ctx c0 driver m =
    (case c0 of None \<Rightarrow> (Inl NoContractGiven, m) | Some k \<Rightarrow>
      case validate_contract c0 of Some e \<Rightarrow> (Inl (BadContract e), m) | None \<Rightarrow>
      let c = mg_cfg m in
      if tk_id k \<in> set (map fst (mg_auto m)) then (Inl (AlreadyRegistered (tk_id k)), m)
      else case ctx of Some e \<Rightarrow> (Inl e, m) | None \<Rightarrow>
        if mc_max_depth c \<le> mc_depth c then (Inl (DepthLimit (mc_depth c) (mc_max_depth c)), m)
        else if mc_max_children c \<le> active_count m then (Inl (TooManyContracts (active_count m) (mc_max_children c)), m)
        else if \<not> driver then (Inl NoRunner, m)
        else (Inr (tk_id k), m\<lparr>mg_auto := put_key (tk_id k)
            \<lparr>en_id = mg_next m, en_contract = k, en_done = False, en_report = None, en_error = None, en_cancelled = False\<rparr> (mg_auto m),
          mg_next := mg_next m + 1\<rparr>))"

definition spawn_from_factory :: "child_error option \<Rightarrow> (task_contract \<Rightarrow> child_error option) option \<Rightarrow> task_contract \<Rightarrow> manager
    \<Rightarrow> (child_error + string) \<times> manager" where
  "spawn_from_factory ctx factory k m =
    (case factory of None \<Rightarrow> (Inl NoRunner, m)
     | Some f \<Rightarrow> (case f k of Some e \<Rightarrow> (Inl e, m) | None \<Rightarrow> spawn_contract ctx (Some k) True m))"

definition on_entry :: "nat \<Rightarrow> (auto_entry \<Rightarrow> auto_entry) \<Rightarrow> manager \<Rightarrow> manager" where
  "on_entry p f m = m\<lparr>mg_auto := map (\<lambda>(i, e). (i, if en_id e = p then f e else e)) (mg_auto m)\<rparr>"

definition store_report :: "nat \<Rightarrow> final_report option \<Rightarrow> child_error option \<Rightarrow> manager \<Rightarrow> manager" where
  "store_report p rep err = on_entry p (\<lambda>e. e\<lparr>en_report := rep, en_error := err\<rparr>)"

definition close_entry :: "nat \<Rightarrow> manager \<Rightarrow> manager" where
  "close_entry p = on_entry p (\<lambda>e. e\<lparr>en_done := True\<rparr>)"

definition half :: "int \<Rightarrow> int" where
  "half n = (if 0 \<le> n then n div 2 else - ((- n) div 2))"

definition add_contract_cost :: "final_report option \<Rightarrow> manager \<Rightarrow> manager" where
  "add_contract_cost rep m = (case rep of None \<Rightarrow> m | Some r \<Rightarrow>
     if 0 < fr_tokens r then m\<lparr>mg_costs := add_child (blank_result\<lparr>re_in := half (fr_tokens r), re_out := half (fr_tokens r)\<rparr>) (mg_costs m)\<rparr>
     else m)"

definition evict_entry :: "string \<Rightarrow> nat \<Rightarrow> manager \<Rightarrow> manager" where
  "evict_entry i p m = m\<lparr>mg_auto := filter (\<lambda>(k, e). \<not> (k = i \<and> en_id e = p)) (mg_auto m)\<rparr>"

definition autonomous_cancel :: "string \<Rightarrow> manager \<Rightarrow> bool \<times> manager" where
  "autonomous_cancel i m = (case map_of (mg_auto m) i of None \<Rightarrow> (False, m)
     | Some e \<Rightarrow> (True, on_entry (en_id e) (\<lambda>x. x\<lparr>en_cancelled := True\<rparr>) m))"

text \<open>The report, whether the child is still running, and the error.\<close>

definition autonomous_report :: "string \<Rightarrow> manager \<Rightarrow> (final_report option \<times> bool \<times> child_error option) option" where
  "autonomous_report i m = map_option (\<lambda>e. if en_done e then (en_report e, False, en_error e) else (None, True, None))
     (map_of (mg_auto m) i)"

subsection \<open>Interleaving\<close>

text \<open>
  \<open>po_running\<close>: the children whose goroutine has not yet released them; \<open>po_ending\<close>: the contracts whose
  goroutine has stored its report but not closed its channel; \<open>po_closed\<close>: those whose timer is set.
\<close>

record pool =
  po_manager :: manager
  po_running :: "string list"
  po_ending :: "nat list"
  po_closed :: "(string \<times> nat) list"

inductive manager_step :: "pool \<Rightarrow> pool \<Rightarrow> bool" where
  reserve: "reserve_children ctx ids tasks (po_manager s) = (Inr ids', m) \<Longrightarrow> length ids = length tasks \<Longrightarrow>
    distinct ids \<Longrightarrow> set ids \<inter> (set (po_running s) \<union> set (map fst (mg_children (po_manager s)))) = {} \<Longrightarrow>
    manager_step s (s\<lparr>po_manager := m, po_running := po_running s @ ids\<rparr>)"
| release: "i \<in> set (po_running s) \<Longrightarrow>
    manager_step s (s\<lparr>po_manager := release_child i r (po_manager s), po_running := remove1 i (po_running s)\<rparr>)"
| contract: "spawn_contract ctx k driver (po_manager s) = (Inr i, m) \<Longrightarrow> manager_step s (s\<lparr>po_manager := m\<rparr>)"
| report: "(i, e) \<in> set (mg_auto (po_manager s)) \<Longrightarrow> \<not> en_done e \<Longrightarrow> en_id e \<notin> set (po_ending s) \<Longrightarrow>
    manager_step s (s\<lparr>po_manager := store_report (en_id e) rep err (po_manager s), po_ending := po_ending s @ [en_id e]\<rparr>)"
| close: "p \<in> set (po_ending s) \<Longrightarrow> (i, e) \<in> set (mg_auto (po_manager s)) \<Longrightarrow> en_id e = p \<Longrightarrow>
    manager_step s (s\<lparr>po_manager := add_contract_cost rep (close_entry p (po_manager s)),
      po_ending := remove1 p (po_ending s), po_closed := po_closed s @ [(i, p)]\<rparr>)"
| evict: "(i, p) \<in> set (po_closed s) \<Longrightarrow>
    manager_step s (s\<lparr>po_manager := evict_entry i p (po_manager s), po_closed := remove1 (i, p) (po_closed s)\<rparr>)"
| cancel: "manager_step s (s\<lparr>po_manager := snd (autonomous_cancel i (po_manager s))\<rparr>)"

inductive manager_reachable :: "manager_config \<Rightarrow> pool \<Rightarrow> bool" for cfg where
  start: "manager_reachable cfg \<lparr>po_manager = new_manager cfg, po_running = [], po_ending = [], po_closed = []\<rparr>"
| step: "manager_reachable cfg s \<Longrightarrow> manager_step s s' \<Longrightarrow> manager_reachable cfg s'"

subsection \<open>Decomposition of a goal\<close>

text \<open>\<open>strings.Split\<close> by a separator that is not empty: the parts, \<open>cur\<close> being the current one.\<close>

function split_by :: "string \<Rightarrow> string \<Rightarrow> string \<Rightarrow> string list" where
  "split_by sep cur s =
     (if sep = [] then [cur @ s]
      else case s of [] \<Rightarrow> [cur]
        | c # t \<Rightarrow> if has_prefix s sep then cur # split_by sep [] (drop (length sep) s) else split_by sep (cur @ [c]) t)"
  by pat_completeness auto
termination
  by (relation "measure (\<lambda>(sep, cur, s). length s)") auto

declare split_by.simps [simp del]

fun crlf_to_lf :: "string \<Rightarrow> string" where
  "crlf_to_lf [] = []"
| "crlf_to_lf [c] = [c]"
| "crlf_to_lf (c # d # s) = (if byte c = 13 \<and> byte d = 10 then d # crlf_to_lf s else c # crlf_to_lf (d # s))"

definition separators :: "string list" where
  "separators = (let nl = [CHR 0x0A] in
     [nl @ ''- '', nl @ [char_of (226 :: nat), char_of (128 :: nat), char_of (162 :: nat)] @ '' '', nl @ ''* '',
      nl @ ''1. '', nl @ ''2. '', nl @ ''3. '', nl @ ''4. '', nl @ ''5. '',
      nl @ ''and '', nl @ ''then '', nl @ ''also '', nl @ ''plus '',
      ''. also '', ''. then '', ''. next '', ''. plus '', ''; also '', ''; then '', ''; next ''])"

definition items_of :: "string \<Rightarrow> string \<Rightarrow> string list" where
  "items_of prefixed sep = (let parts = split_by sep [] prefixed in
     if length parts < 2 then [] else filter (\<lambda>p. 10 \<le> length p) (map trim_space parts))"

definition decompose :: "string \<Rightarrow> string list" where
  "decompose input =
    (let prefixed = [CHR 0x0A] @ crlf_to_lf input;
         best = fold (\<lambda>sep best. let items = items_of prefixed sep in if length best < length items then items else best) separators []
     in if length best < 2 then [] else take 10 best)"

definition decomposed_tasks :: "string \<Rightarrow> string \<Rightarrow> task_spec option list" where
  "decomposed_tasks goal ctx =
    (let items = decompose goal; items = (if length items < 2 then [goal] else items)
     in map (\<lambda>g. Some (task_spec_of (\<lambda>_. []) (\<lambda>_ _. []) (GenericTask g ctx [''fs'', ''patch''] [] 0 :: unit child_task))) items)"

definition spawn_decomposed :: "(nat \<Rightarrow> batch_env) \<Rightarrow> string \<Rightarrow> string \<Rightarrow> child_result list \<times> child_error option" where
  "spawn_decomposed env goal ctx =
    (let tasks = decomposed_tasks goal ctx in
     if length (decompose goal) < 2
     then (case spawn (be_context (env 0)) (hd (be_ids (env 0))) (be_children (env 0) 0) (hd tasks) (be_manager (env 0)) of
         (None, err, m) \<Rightarrow> ([], err) | (Some r, err, m) \<Rightarrow> ([r], err))
     else spawn_batch_auto_split env tasks)"

end
