(* ===== verification/Subagent_Props.thy ===== *)
theory Subagent_Props
  imports Subagent_Pool
begin

text \<open>
  Properties of the manager of child agents: its capacity is respected in every interleaving, a batch
  answers for every task in order and truthfully, and splitting into batches keeps both.
\<close>

subsection \<open>Capacity\<close>

lemma put_key_fresh: "k \<notin> set (map fst m) \<Longrightarrow> put_key k v m = m @ [(k, v)]"
  unfolding put_key_def by (auto simp: filter_id_conv)

lemma fold_put_keys:
  "distinct (map fst xs) \<Longrightarrow> set (map fst xs) \<inter> set (map fst m) = {} \<Longrightarrow> fold (\<lambda>(k, v). put_key k v) xs m = m @ xs"
  by (induction xs arbitrary: m) (auto simp: put_key_fresh)

lemma reserve_children_effect:
  assumes "reserve_children ctx ids tasks m = (Inr ids', m')" and "length ids = length tasks" and "distinct ids"
    and "set ids \<inter> set (map fst (mg_children m)) = {}"
  shows "ids' = ids \<and> (\<exists>rs. map fst rs = ids \<and> m' = m\<lparr>mg_children := mg_children m @ rs\<rparr>) \<and>
    active_count m + int (length ids) \<le> mc_max_children (mg_cfg m) \<and> mc_depth (mg_cfg m) < mc_max_depth (mg_cfg m)"
proof -
  let ?f = "\<lambda>t. \<lparr>cr_goal = ts_goal t, cr_model = ts_model t, cr_depth = mc_depth (mg_cfg m) + 1\<rparr>"
  have eq: "fold (\<lambda>(i, t). put_key i (?f t)) xs acc = fold (\<lambda>(k, v). put_key k v) (map (\<lambda>(i, t). (i, ?f t)) xs) acc" for xs acc
    by (induction xs arbitrary: acc) auto
  have keys: "map fst (map (\<lambda>(i, t). (i, ?f t)) (zip ids tasks)) = ids"
    using assms(2) by (simp add: map_fst_zip case_prod_unfold comp_def)
  define xs where "xs = map (\<lambda>(i, t). (i, ?f t)) (zip ids tasks)"
  have keys: "map fst xs = ids" using keys by (simp only: xs_def)
  have fold: "fold (\<lambda>(i, t). put_key i (?f t)) (zip ids tasks) (mg_children m) = mg_children m @ xs"
    unfolding eq xs_def [symmetric] by (rule fold_put_keys) (simp_all only: keys assms(3,4))
  from assms(1) have "ids' = ids" "m' = m\<lparr>mg_children := fold (\<lambda>(i, t). put_key i (?f t)) (zip ids tasks) (mg_children m)\<rparr>"
    "active_count m + int (length tasks) \<le> mc_max_children (mg_cfg m)" "mc_depth (mg_cfg m) < mc_max_depth (mg_cfg m)"
    by (auto simp: reserve_children_def Let_def split: option.splits if_splits)
  with fold keys assms(2) show ?thesis by fastforce
qed

definition pool_inv :: "manager_config \<Rightarrow> pool \<Rightarrow> bool" where
  "pool_inv cfg s \<longleftrightarrow> (let m = po_manager s in
     mg_cfg m = mg_cfg (new_manager cfg) \<and> distinct (po_running s) \<and> distinct (map fst (mg_children m)) \<and>
     set (map fst (mg_children m)) = set (po_running s) \<and> active_count m \<le> mc_max_children (mg_cfg (new_manager cfg)))"

lemma pool_inv_start: "pool_inv cfg \<lparr>po_manager = new_manager cfg, po_running = [], po_ending = [], po_closed = []\<rparr>"
  by (simp add: pool_inv_def active_count_def running_autonomous_count_def new_manager_def)

text \<open>What leaves the children and the configuration alone and makes no contract run.\<close>

lemma pool_inv_quiet:
  assumes "pool_inv cfg s" and "mg_children m = mg_children (po_manager s)" and "mg_cfg m = mg_cfg (po_manager s)"
    and "running_autonomous_count m \<le> running_autonomous_count (po_manager s)" and "po_running s' = po_running s" and "po_manager s' = m"
  shows "pool_inv cfg s'"
proof -
  have "active_count m \<le> active_count (po_manager s)" using assms(2,4) by (simp add: active_count_def)
  also have "\<dots> \<le> mc_max_children (mg_cfg (new_manager cfg))" using assms(1,3) by (simp add: pool_inv_def Let_def)
  finally show ?thesis using assms by (simp add: pool_inv_def Let_def)
qed

lemma filter_count: "(\<And>x. x \<in> set xs \<Longrightarrow> Q x \<Longrightarrow> P x) \<Longrightarrow> length (filter Q xs) \<le> length (filter P xs)"
  by (induction xs) auto

lemma on_entry_quiet:
  assumes "\<And>e. en_done e \<Longrightarrow> en_done (f e)"
  shows "mg_children (on_entry p f m) = mg_children m \<and> mg_cfg (on_entry p f m) = mg_cfg m \<and>
    running_autonomous_count (on_entry p f m) \<le> running_autonomous_count m"
  unfolding on_entry_def running_autonomous_count_def using assms
  by (auto intro!: filter_count split: if_splits)

lemma add_contract_cost_quiet:
  "mg_children (add_contract_cost rep m) = mg_children m \<and> mg_cfg (add_contract_cost rep m) = mg_cfg m \<and>
     running_autonomous_count (add_contract_cost rep m) = running_autonomous_count m"
  by (auto simp: add_contract_cost_def running_autonomous_count_def split: option.splits)

lemma length_filter_filter: "length (filter P (filter Q xs)) \<le> length (filter P xs)"
  by (induction xs) auto

lemma drop_key_length: "distinct (map fst m) \<Longrightarrow> k \<in> set (map fst m) \<Longrightarrow> length (drop_key k m) + 1 = length m"
proof (induction m)
  case (Cons x m)
  show ?case
  proof (cases "fst x = k")
    case True
    with Cons.prems have "k \<notin> set (map fst m)" by auto
    then have "drop_key k m = m" by (auto simp: drop_key_def filter_id_conv)
    with True show ?thesis by (simp add: drop_key_def)
  next
    case False
    with Cons show ?thesis by (simp add: drop_key_def)
  qed
qed simp

lemma spawn_contract_effect:
  assumes "spawn_contract ctx k driver m = (Inr i, m')"
  shows "mg_children m' = mg_children m \<and> mg_cfg m' = mg_cfg m \<and> active_count m' \<le> mc_max_children (mg_cfg m)"
proof -
  obtain c where c: "k = Some c" "tk_id c \<notin> set (map fst (mg_auto m))" "\<not> mc_max_children (mg_cfg m) \<le> active_count m"
    and m': "m' = m\<lparr>mg_auto := put_key (tk_id c)
            \<lparr>en_id = mg_next m, en_contract = c, en_done = False, en_report = None, en_error = None, en_cancelled = False\<rparr> (mg_auto m),
          mg_next := mg_next m + 1\<rparr>"
    using assms by (auto simp: spawn_contract_def Let_def split: option.splits if_splits)
  have "active_count m' = active_count m + 1"
    by (simp add: m' put_key_fresh [OF c(2)] active_count_def running_autonomous_count_def)
  with c(3) show ?thesis by (simp add: m')
qed

lemma pool_inv_step: "manager_step s s' \<Longrightarrow> pool_inv cfg s \<Longrightarrow> pool_inv cfg s'"
proof (induction rule: manager_step.induct)
  case (reserve ctx ids tasks s ids' m)
  then have fresh: "set ids \<inter> set (map fst (mg_children (po_manager s))) = {}" "set ids \<inter> set (po_running s) = {}" by auto
  from reserve_children_effect [OF reserve(1-3) fresh(1)] obtain rs where
    rs: "map fst rs = ids" "m = (po_manager s)\<lparr>mg_children := mg_children (po_manager s) @ rs\<rparr>"
      "active_count (po_manager s) + int (length ids) \<le> mc_max_children (mg_cfg (po_manager s))" by blast
  let ?m = "po_manager s"
  from reserve(5) have inv: "mg_cfg ?m = mg_cfg (new_manager cfg)" "distinct (po_running s)" "distinct (map fst (mg_children ?m))"
    "set (map fst (mg_children ?m)) = set (po_running s)" by (simp_all add: pool_inv_def Let_def)
  have "length rs = length ids" using rs(1) by (metis length_map)
  then have "active_count m = active_count ?m + int (length ids)"
    by (simp add: rs(2) active_count_def running_autonomous_count_def)
  moreover have "distinct (map fst (mg_children m))" "set (map fst (mg_children m)) = set (po_running s @ ids)"
    using inv fresh reserve(3) rs(1) by (simp_all add: rs(2) inf_commute)
  moreover have "distinct (po_running s @ ids)" using inv(2) fresh(2) reserve(3) by (simp add: inf_commute)
  ultimately show ?case using rs(3) inv(1) by (simp add: pool_inv_def Let_def) (simp add: rs(2))
next
  case (release i s r)
  let ?m = "po_manager s"
  from release have inv: "distinct (po_running s)" "distinct (map fst (mg_children ?m))" "set (map fst (mg_children ?m)) = set (po_running s)"
    "active_count ?m \<le> mc_max_children (mg_cfg (new_manager cfg))" "mg_cfg ?m = mg_cfg (new_manager cfg)"
    by (simp_all add: pool_inv_def Let_def)
  from drop_key_length [OF inv(2)] inv(3) release(1) have len: "length (drop_key i (mg_children ?m)) + 1 = length (mg_children ?m)" by blast
  have d: "distinct (map fst (drop_key i (mg_children ?m)))"
    using inv(2) by (simp add: drop_key_def distinct_map_filter)
  have k: "set (map fst (drop_key i (mg_children ?m))) = set (remove1 i (po_running s))"
    using inv by (auto simp: drop_key_def)
  let ?m' = "release_child i r ?m"
  have r: "mg_children ?m' = drop_key i (mg_children ?m)" "mg_cfg ?m' = mg_cfg ?m" "mg_auto ?m' = mg_auto ?m"
    by (simp_all add: release_child_def)
  have "active_count ?m' + 1 = active_count ?m" using len by (simp add: active_count_def running_autonomous_count_def r)
  with inv d k show ?case by (simp add: pool_inv_def Let_def r)
next
  case (contract ctx k driver s i m)
  from spawn_contract_effect [OF contract(1)] contract(2) show ?case
    by (simp add: pool_inv_def Let_def)
next
  case (report i e s rep err)
  have "mg_children (store_report (en_id e) rep err (po_manager s)) = mg_children (po_manager s) \<and>
      mg_cfg (store_report (en_id e) rep err (po_manager s)) = mg_cfg (po_manager s) \<and>
      running_autonomous_count (store_report (en_id e) rep err (po_manager s)) \<le> running_autonomous_count (po_manager s)"
    unfolding store_report_def by (rule on_entry_quiet) simp
  then show ?case by (intro pool_inv_quiet [OF report(4), OF _ _ _ _ refl]) simp_all
next
  case (close p s i e rep)
  have "mg_children (close_entry p (po_manager s)) = mg_children (po_manager s) \<and> mg_cfg (close_entry p (po_manager s)) = mg_cfg (po_manager s) \<and>
      running_autonomous_count (close_entry p (po_manager s)) \<le> running_autonomous_count (po_manager s)"
    unfolding close_entry_def by (rule on_entry_quiet) simp
  with add_contract_cost_quiet [of rep "close_entry p (po_manager s)"] show ?case
    by (intro pool_inv_quiet [OF close(4), OF _ _ _ _ refl]) simp_all
next
  case (evict i p s)
  have "running_autonomous_count (evict_entry i p (po_manager s)) \<le> running_autonomous_count (po_manager s)"
    unfolding running_autonomous_count_def evict_entry_def by (simp add: length_filter_filter del: filter_filter)
  then show ?case by (intro pool_inv_quiet [OF evict(2), OF _ _ _ _ refl]) (simp_all add: evict_entry_def)
next
  case (cancel s i)
  have "mg_children (snd (autonomous_cancel i (po_manager s))) = mg_children (po_manager s) \<and>
      mg_cfg (snd (autonomous_cancel i (po_manager s))) = mg_cfg (po_manager s) \<and>
      running_autonomous_count (snd (autonomous_cancel i (po_manager s))) \<le> running_autonomous_count (po_manager s)"
    using on_entry_quiet [of "\<lambda>x. x\<lparr>en_cancelled := True\<rparr>"] by (simp add: autonomous_cancel_def split: option.splits)
  then show ?case by (intro pool_inv_quiet [OF cancel, OF _ _ _ _ refl]) simp_all
qed

lemma pool_inv_reachable: "manager_reachable cfg s \<Longrightarrow> pool_inv cfg s"
  by (induction rule: manager_reachable.induct) (auto intro: pool_inv_start pool_inv_step)

text \<open>
  C27. The capacity is respected.  In every interleaving of batches, contracts, their ends, evictions and
  cancellations, the children that still run and the contracts that are not done are together at most
  as many as the manager was configured for, and the manager knows exactly the children that run.
\<close>

theorem capacity_respected:
  assumes "manager_reachable cfg s"
  shows "int (length (po_running s)) + int (running_autonomous_count (po_manager s)) \<le> mc_max_children (mg_cfg (new_manager cfg)) \<and>
    set (map fst (mg_children (po_manager s))) = set (po_running s) \<and> distinct (po_running s)"
proof -
  from pool_inv_reachable [OF assms] have inv: "distinct (po_running s)" "distinct (map fst (mg_children (po_manager s)))"
    "set (map fst (mg_children (po_manager s))) = set (po_running s)"
    "active_count (po_manager s) \<le> mc_max_children (mg_cfg (new_manager cfg))"
    by (simp_all add: pool_inv_def Let_def)
  from inv(1-3) have "length (po_running s) = length (mg_children (po_manager s))"
    by (metis distinct_card length_map)
  with inv show ?thesis by (simp add: active_count_def)
qed

subsection \<open>Batches\<close>

lemma settle_truth:
  "re_index (fst (settle_result e index reason out)) = index \<and>
   (snd (settle_result e index reason out) = None \<longleftrightarrow> re_status (fst (settle_result e index reason out)) = ''completed'')"
  unfolding settle_result_def Let_def
  by (auto split: run_outcome.splits option.splits if_splits)

lemma run_child_truth:
  "re_index (fst (run_child e index t)) = index \<and> (snd (run_child e index t) = None \<longleftrightarrow> re_status (fst (run_child e index t)) = ''completed'')"
  using settle_truth by (simp add: run_child_def split: prod.splits)

lemma join_failures_none: "join_failures errs = None \<longleftrightarrow> (\<forall>e \<in> set errs. e = None)"
proof -
  have "concat (map (\<lambda>(i, e). case e of None \<Rightarrow> [] | Some x \<Rightarrow> [TaskFailed i (ge_text x)]) (enumerate n errs)) = [] \<longleftrightarrow>
      (\<forall>e \<in> set errs. e = None)" for n
    by (induction errs arbitrary: n) (auto split: option.splits)
  then show ?thesis by (simp add: join_failures_def Let_def)
qed

lemma fold_release:
  "mg_children (fold (\<lambda>(i, r). release_child i r) xs m) = filter (\<lambda>p. fst p \<notin> set (map fst xs)) (mg_children m) \<and>
   ru_count (mg_costs (fold (\<lambda>(i, r). release_child i r) xs m)) = ru_count (mg_costs m) + int (length xs)"
proof (induction xs arbitrary: m)
  case (Cons x xs)
  obtain i r where x: "x = (i, r)" by fastforce
  show ?case using Cons.IH [of "release_child i r m"]
    by (simp add: x release_child_def drop_key_def add_child_def)
qed simp

lemma run_children_results:
  assumes "outs = map (\<lambda>(i, t). run_child (env i) (int i) t) (enumerate n specs)"
  shows "map re_index (map fst outs) = map int [n..<n + length specs] \<and>
    (join_failures (map snd outs) = None \<longleftrightarrow> (\<forall>r \<in> set (map fst outs). re_status r = ''completed''))"
proof -
  have "map re_index (map fst outs) = map (\<lambda>p. int (fst p)) (enumerate n specs)"
    unfolding assms by (simp add: run_child_truth case_prod_unfold)
  also have "\<dots> = map int (map fst (enumerate n specs))" by (simp only: map_map comp_def)
  also have "\<dots> = map int [n..<n + length specs]" by (simp only: map_fst_enumerate)
  finally have "map re_index (map fst outs) = map int [n..<n + length specs]" .
  moreover have "join_failures (map snd outs) = None \<longleftrightarrow> (\<forall>x \<in> set outs. snd x = None)"
    by (simp add: join_failures_none)
  moreover have "\<forall>x \<in> set outs. snd x = None \<longleftrightarrow> re_status (fst x) = ''completed''"
    unfolding assms using run_child_truth by auto
  ultimately show ?thesis by auto
qed

text \<open>
  A batch answers for every task.  Either nothing is started, and that is an error unless there was
  nothing to do, or there is one result for each task, in the order of the tasks and with its index;
  the batch reports no error exactly if every result is completed; the children are gone afterwards
  and each was counted once in the costs.
\<close>

theorem batch_results:
  assumes "spawn_batch ctx ids env tasks m = (rs, err, m')" and "length ids = length tasks" and "distinct ids"
    and "set ids \<inter> set (map fst (mg_children m)) = {}"
  shows "(rs = [] \<and> m' = m \<and> (err = None \<longleftrightarrow> tasks = [])) \<or>
    (map re_index rs = map int [0..<length tasks] \<and> (err = None \<longleftrightarrow> (\<forall>r \<in> set rs. re_status r = ''completed'')) \<and>
     mg_children m' = mg_children m \<and> ru_count (mg_costs m') = ru_count (mg_costs m) + int (length tasks))"
proof (cases "validate_tasks tasks = None \<and> tasks \<noteq> [] \<and> (\<exists>i m1. reserve_children ctx ids (map the tasks) m = (Inr i, m1))")
  case False
  have "m1 = m" if "reserve_children ctx ids (map the tasks) m = (Inl e, m1)" for e m1
    using that by (auto simp: reserve_children_def Let_def split: option.splits if_splits)
  moreover have "validate_tasks [] = None" by (simp add: validate_tasks_def)
  ultimately show ?thesis
    using False assms(1) by (auto simp: spawn_batch_def Let_def split: option.splits if_splits prod.splits sum.splits)
next
  case True
  then obtain ids' m1 where ok: "validate_tasks tasks = None" "tasks \<noteq> []" "reserve_children ctx ids (map the tasks) m = (Inr ids', m1)"
    by blast
  from reserve_children_effect [OF ok(3) _ assms(3,4)] assms(2) obtain cs where
    cs: "ids' = ids" "map fst cs = ids" "m1 = m\<lparr>mg_children := mg_children m @ cs\<rparr>" by auto
  define outs where "outs = map (\<lambda>(i, t). run_child (env i) (int i) t) (enumerate 0 (map the tasks))"
  have eq: "rs = map fst outs" "err = join_failures (map snd outs)" "m' = fold (\<lambda>(i, r). release_child i r) (zip ids rs) m1"
    using assms(1) ok cs(1) unfolding spawn_batch_def outs_def Let_def by auto
  from run_children_results [OF outs_def] eq(1,2) have res: "map re_index rs = map int [0..<length tasks]"
    "err = None \<longleftrightarrow> (\<forall>r \<in> set rs. re_status r = ''completed'')" by simp_all
  have "length rs = length tasks" by (simp add: eq(1) outs_def)
  then have "map fst (zip ids rs) = ids" "length (zip ids rs) = length tasks" using assms(2) by simp_all
  moreover have "filter (\<lambda>p. fst p \<notin> set ids) (mg_children m @ cs) = mg_children m"
    using assms(4) cs(2) by (force simp: filter_id_conv filter_empty_conv)
  ultimately show ?thesis
    using fold_release [of "zip ids rs" m1] res eq(3) cs(3) by simp
qed

subsection \<open>Splitting into batches\<close>

lemma batch_shape:
  assumes "spawn_batch ctx ids env tasks m = (rs, err, m')"
  shows "(rs = [] \<and> (err = None \<longleftrightarrow> tasks = [])) \<or>
    (map re_index rs = map int [0..<length tasks] \<and> (err = None \<longleftrightarrow> (\<forall>r \<in> set rs. re_status r = ''completed'')))"
proof (cases "validate_tasks tasks = None \<and> tasks \<noteq> [] \<and> (\<exists>i m1. reserve_children ctx ids (map the tasks) m = (Inr i, m1))")
  case False
  have "validate_tasks [] = None" by (simp add: validate_tasks_def)
  with False assms show ?thesis
    by (auto simp: spawn_batch_def Let_def split: option.splits if_splits prod.splits sum.splits)
next
  case True
  then obtain ids' m1 where ok: "validate_tasks tasks = None" "tasks \<noteq> []" "reserve_children ctx ids (map the tasks) m = (Inr ids', m1)"
    by blast
  define outs where "outs = map (\<lambda>(i, t). run_child (env i) (int i) t) (enumerate 0 (map the tasks))"
  have "rs = map fst outs" "err = join_failures (map snd outs)"
    using assms ok unfolding spawn_batch_def outs_def Let_def by auto
  with run_children_results [OF outs_def] show ?thesis by simp
qed

definition answers :: "nat \<Rightarrow> task_spec option list \<Rightarrow> child_result list \<Rightarrow> child_error option \<Rightarrow> bool" where
  "answers start tasks rs err \<longleftrightarrow> length rs \<le> length tasks \<and> map re_index rs = map int [start..<start + length rs] \<and>
     (err = None \<longleftrightarrow> length rs = length tasks \<and> (\<forall>r \<in> set rs. re_status r = ''completed''))"

lemma batch_answers: "spawn_batch ctx ids env tasks m = (rs, err, m') \<Longrightarrow> answers 0 tasks rs err"
proof -
  assume "spawn_batch ctx ids env tasks m = (rs, err, m')"
  from batch_shape [OF this] consider "rs = []" "err = None \<longleftrightarrow> tasks = []"
    | "map re_index rs = map int [0..<length tasks]" "err = None \<longleftrightarrow> (\<forall>r \<in> set rs. re_status r = ''completed'')" by blast
  then show ?thesis
  proof cases
    case 2
    then have "length rs = length tasks" by (metis diff_zero length_map length_upt)
    with 2 show ?thesis by (simp add: answers_def)
  qed (auto simp: answers_def)
qed

lemma renumber_answers:
  assumes "answers 0 tasks rs err"
  shows "answers start tasks (map (\<lambda>(i, r). r\<lparr>re_index := int (start + i)\<rparr>) (enumerate 0 rs)) err"
proof -
  let ?rs = "map (\<lambda>(i, r). r\<lparr>re_index := int (start + i)\<rparr>) (enumerate 0 rs)"
  have "map re_index ?rs = map (\<lambda>p. int (start + fst p)) (enumerate 0 rs)" by (simp add: case_prod_unfold)
  also have "\<dots> = map (\<lambda>i. int (start + i)) (map fst (enumerate 0 rs))" by (simp only: map_map comp_def)
  also have "\<dots> = map int (map (\<lambda>i. i + start) [0..<length rs])" by (simp only: map_fst_enumerate map_map comp_def) (simp add: add.commute)
  also have "\<dots> = map int [start..<start + length rs]" by (simp only: map_add_upt) (simp add: add.commute)
  finally have "map re_index ?rs = map int [start..<start + length rs]" .
  moreover have "(\<forall>r \<in> set ?rs. re_status r = ''completed'') \<longleftrightarrow> (\<forall>r \<in> set rs. re_status r = ''completed'')"
  proof -
    have "map re_status ?rs = map (\<lambda>p. re_status (snd p)) (enumerate 0 rs)" by (simp add: case_prod_unfold)
    also have "\<dots> = map re_status (map snd (enumerate 0 rs))" by (simp only: map_map comp_def)
    finally have "set (map re_status ?rs) = set (map re_status rs)" by (simp only: map_snd_enumerate)
    then have same: "re_status ` set ?rs = re_status ` set rs" by (simp only: list.set_map)
    have "(\<forall>r \<in> X. re_status r = ''completed'') \<longleftrightarrow> re_status ` X \<subseteq> {''completed''}" for X by auto
    from this [of "set ?rs"] this [of "set rs"] same show ?thesis by (simp only: same)
  qed
  ultimately show ?thesis using assms by (simp add: answers_def)
qed

lemma split_batches_answers:
  "split_batches bs env start tasks = (rs, err) \<Longrightarrow> 0 < bs \<Longrightarrow> answers start tasks rs err"
proof (induction bs env start tasks arbitrary: rs err rule: split_batches.induct)
  case (1 bs env start tasks)
  show ?case
  proof (cases "tasks = []")
    case True
    with "1.prems" have "rs = []" "err = None" by (simp_all add: split_batches.simps)
    with True show ?thesis by (simp add: answers_def)
  next
    case False
    obtain rs0 err0 m where b: "spawn_batch (be_context (env start)) (be_ids (env start)) (be_children (env start)) (take bs tasks)
        (be_manager (env start)) = (rs0, err0, m)" by (metis prod_cases3)
    define rs1 where "rs1 = map (\<lambda>(i, r). r\<lparr>re_index := int (start + i)\<rparr>) (enumerate 0 rs0)"
    from renumber_answers [OF batch_answers [OF b]] have one: "answers start (take bs tasks) rs1 err0" by (simp add: rs1_def)
    show ?thesis
    proof (cases err0)
      case (Some e)
      with "1.prems" False b have "rs = rs1" "err \<noteq> None"
        by (auto simp: split_batches.simps [of bs env start tasks] rs1_def)
      moreover from one Some have "length rs1 < length tasks \<or> (\<exists>r \<in> set rs1. re_status r \<noteq> ''completed'')"
        by (auto simp: answers_def min_def split: if_splits)
      ultimately show ?thesis using one by (auto simp: answers_def)
    next
      case None
      obtain rs2 err2 where rest: "split_batches bs env (start + bs) (drop bs tasks) = (rs2, err2)" by fastforce
      from "1.prems" False b None rest have eq: "rs = rs1 @ rs2" "err = err2"
        by (auto simp: split_batches.simps [of bs env start tasks] rs1_def)
      have two: "answers (start + bs) (drop bs tasks) rs2 err2"
        by (rule "1.IH" [OF _ b [symmetric] refl rs1_def None rest "1.prems"(2)]) (use False "1.prems"(2) in auto)
      from one None have len: "length rs1 = min bs (length tasks)" "\<forall>r \<in> set rs1. re_status r = ''completed''"
        by (auto simp: answers_def)
      show ?thesis
      proof (cases "bs \<le> length tasks")
        case True
        with len(1) have l: "length rs1 = bs" by simp
        have "map re_index rs = map int ([start..<start + bs] @ [start + bs..<start + bs + length rs2])"
          using one two by (simp add: eq answers_def l)
        also have "[start..<start + bs] @ [start + bs..<start + bs + length rs2] = [start..<start + (bs + length rs2)]"
          by (metis add.assoc le_add1 upt_add_eq_append)
        finally show ?thesis using two len True l by (auto simp: answers_def eq)
      next
        case f: False
        with two have "rs2 = []" "err2 = None" by (auto simp: answers_def)
        with one f None eq show ?thesis by (auto simp: answers_def)
      qed
    qed
  qed
qed

text \<open>
  Splitting loses and reorders nothing.  Whatever happens to the manager between the batches, the
  results are those of the first tasks in order, each with its position in the whole list, and no error
  is reported exactly if every task has a completed result.
\<close>

theorem auto_split_results:
  assumes "spawn_batch_auto_split env tasks = (rs, err)" and "0 < batch_size (be_manager (env 0))"
  shows "length rs \<le> length tasks \<and> map re_index rs = map int [0..<length rs] \<and>
    (err = None \<longleftrightarrow> length rs = length tasks \<and> (\<forall>r \<in> set rs. re_status r = ''completed''))"
proof (cases "validate_tasks tasks")
  case (Some e)
  then have "tasks \<noteq> []" by (auto simp: validate_tasks_def)
  moreover from Some assms(1) have "rs = []" "err = Some e" by (simp_all add: spawn_batch_auto_split_def)
  ultimately show ?thesis by simp
next
  case None
  let ?bs = "nat (batch_size (be_manager (env 0)))"
  show ?thesis
  proof (cases "length tasks \<le> ?bs")
    case True
    obtain rs0 err0 m where b: "spawn_batch (be_context (env 0)) (be_ids (env 0)) (be_children (env 0)) tasks
        (be_manager (env 0)) = (rs0, err0, m)" by (metis prod_cases3)
    with None True assms(1) have "rs = rs0" "err = err0" by (auto simp: spawn_batch_auto_split_def)
    with batch_answers [OF b] show ?thesis by (simp add: answers_def)
  next
    case False
    with None assms(1) have "split_batches ?bs env 0 tasks = (rs, err)" by (simp add: spawn_batch_auto_split_def Let_def)
    from split_batches_answers [OF this] assms(2) show ?thesis by (simp add: answers_def)
  qed
qed

subsection \<open>Runs\<close>

definition zero_config :: manager_config where
  "zero_config = \<lparr>mc_max_depth = 0, mc_max_children = 0, mc_timeout = 0, mc_depth = 0, mc_max_tasks = 2\<rparr>"

definition done_child :: child_env where
  "done_child = \<lparr>ce_before = None, ce_factory = True, ce_route = None,
     ce_build = (\<lambda>_ _. BuiltRunner (Returns (Some (blank_result\<lparr>re_status := ''completed''\<rparr>)) None)), ce_after = None, ce_duration = 1\<rparr>"

definition a_task :: task_spec where
  "a_task = \<lparr>ts_goal = ''g'', ts_context = [], ts_toolset = [''fs''], ts_model = ''m'', ts_steps = 0, ts_invalid = None\<rparr>"

definition two_env :: "nat \<Rightarrow> batch_env" where
  "two_env n = \<lparr>be_manager = new_manager zero_config, be_context = None, be_ids = [''a'', ''b''], be_children = (\<lambda>_. done_child)\<rparr>"

lemma capacity_respected_witness:
  "\<exists>s. manager_reachable zero_config s \<and> po_running s = [''a'', ''b''] \<and>
     int (length (po_running s)) + int (running_autonomous_count (po_manager s)) \<le> 3"
proof -
  let ?s0 = "\<lparr>po_manager = new_manager zero_config, po_running = [], po_ending = [], po_closed = []\<rparr>"
  obtain r m where "reserve_children None [''a'', ''b''] [a_task, a_task] (new_manager zero_config) = (r, m)" by fastforce
  moreover have "fst (reserve_children None [''a'', ''b''] [a_task, a_task] (new_manager zero_config)) = Inr [''a'', ''b'']" by code_simp
  ultimately have "reserve_children None [''a'', ''b''] [a_task, a_task] (po_manager ?s0) = (Inr [''a'', ''b''], m)" by simp
  from manager_step.reserve [OF this] have "manager_step ?s0 (?s0\<lparr>po_manager := m, po_running := [''a'', ''b'']\<rparr>)"
    by (simp add: new_manager_def)
  from manager_reachable.step [OF manager_reachable.start this]
  have r: "manager_reachable zero_config (?s0\<lparr>po_manager := m, po_running := [''a'', ''b'']\<rparr>)" .
  have "mc_max_children (mg_cfg (new_manager zero_config)) = 3" by (simp add: new_manager_def zero_config_def)
  with capacity_respected [OF r] r show ?thesis by (intro exI [of _ "?s0\<lparr>po_manager := m, po_running := [''a'', ''b'']\<rparr>"]) simp
qed

lemma batch_results_witness:
  "\<exists>rs m'. spawn_batch None [''a'', ''b''] (\<lambda>_. done_child) [Some a_task, Some a_task] (new_manager zero_config) = (rs, None, m') \<and>
     length rs = 2 \<and> (\<forall>r \<in> set rs. re_status r = ''completed'') \<and> mg_children m' = []"
proof -
  obtain rs err m' where b: "spawn_batch None [''a'', ''b''] (\<lambda>_. done_child) [Some a_task, Some a_task] (new_manager zero_config) = (rs, err, m')"
    by (metis prod_cases3)
  have "fst (snd (spawn_batch None [''a'', ''b''] (\<lambda>_. done_child) [Some a_task, Some a_task] (new_manager zero_config))) = None" by code_simp
  with b have "err = None" by simp
  moreover have "mg_children (new_manager zero_config) = []" by (simp add: new_manager_def)
  ultimately have "map re_index rs = map int [0..<2] \<and> (\<forall>r \<in> set rs. re_status r = ''completed'') \<and> mg_children m' = []"
    using batch_results [OF b] by (simp add: numeral_2_eq_2)
  with b \<open>err = None\<close> show ?thesis by (metis diff_zero length_map length_upt)
qed

lemma auto_split_results_witness:
  "\<exists>rs. spawn_batch_auto_split two_env [Some a_task, Some a_task, Some a_task] = (rs, None) \<and> map re_index rs = [0, 1, 2]"
proof -
  obtain rs err where b: "spawn_batch_auto_split two_env [Some a_task, Some a_task, Some a_task] = (rs, err)" by fastforce
  have "snd (spawn_batch_auto_split two_env [Some a_task, Some a_task, Some a_task]) = None" by code_simp
  with b have "err = None" by simp
  have "0 < batch_size (be_manager (two_env 0))" by code_simp
  from auto_split_results [OF b this] \<open>err = None\<close> have "length rs = 3" and n: "map re_index rs = map int [0..<length rs]" by auto
  have "map re_index rs = map int [0..<3]" using n unfolding \<open>length rs = 3\<close> .
  also have "map int [0..<3] = [0, 1, 2]" by code_simp
  finally have "map re_index rs = [0, 1, 2]" .
  with b [unfolded \<open>err = None\<close>] show ?thesis by (intro exI [of _ rs] conjI)
qed

subsection \<open>Decomposed goals\<close>

text \<open>
  The tasks of a decomposed goal ask for tools, and the worker used without a factory refuses every task
  that does: in production such a goal never completes.
\<close>

lemma tools_without_factory:
  assumes "\<not> ce_factory e" and "ts_toolset t \<noteq> []"
  shows "snd (run_child e index t) \<noteq> None"
proof -
  obtain x reason where "run_body e t = (Returns None (Some x), reason)"
    using assms by (cases "ce_before e") (auto simp: run_body_def)
  then show ?thesis by (simp add: run_child_def settle_result_def Let_def)
qed

lemma batch_without_factory:
  assumes "spawn_batch ctx ids env tasks m = (rs, err, m')" and "tasks \<noteq> []"
    and "\<forall>i. \<not> ce_factory (env i)" and "\<forall>t \<in> set tasks. ts_toolset (the t) \<noteq> []"
  shows "err \<noteq> None"
proof (cases "validate_tasks tasks = None \<and> (\<exists>i m1. reserve_children ctx ids (map the tasks) m = (Inr i, m1))")
  case False
  show ?thesis
  proof (cases "validate_tasks tasks")
    case (Some e)
    with assms(1) have "err = Some e" by (simp add: spawn_batch_def)
    then show ?thesis by simp
  next
    case None
    with assms(1,2) False show ?thesis
      by (auto simp: spawn_batch_def Let_def split: prod.splits sum.splits)
  qed
next
  case True
  define outs where "outs = map (\<lambda>(i, t). run_child (env i) (int i) t) (enumerate 0 (map the tasks))"
  have "err = join_failures (map snd outs)"
    using assms(1,2) True unfolding spawn_batch_def outs_def Let_def by auto
  moreover have "run_child (env 0) 0 (the (hd tasks)) \<in> set outs"
    using assms(2) by (cases tasks) (auto simp: outs_def)
  moreover have "snd (run_child (env 0) 0 (the (hd tasks))) \<noteq> None"
    using assms(2-4) by (intro tools_without_factory) auto
  ultimately show ?thesis by (auto simp: join_failures_none)
qed

lemma decomposed_task_tools: "t \<in> set (decomposed_tasks goal ctx) \<Longrightarrow> ts_toolset (the t) \<noteq> []"
  by (auto simp: decomposed_tasks_def Let_def task_spec_of_def)

lemma decomposed_never_completes:
  assumes "\<forall>n i. \<not> ce_factory (be_children (env n) i)" and "0 < batch_size (be_manager (env 0))"
  shows "snd (spawn_decomposed env goal ctx) \<noteq> None"
proof -
  let ?ts = "decomposed_tasks goal ctx"
  have some: "?ts \<noteq> []" by (auto simp: decomposed_tasks_def Let_def)
  show ?thesis
  proof (cases "length (decompose goal) < 2")
    case True
    obtain rs err m where b: "spawn_batch (be_context (env 0)) [hd (be_ids (env 0))] (\<lambda>_. be_children (env 0) 0) [hd ?ts]
        (be_manager (env 0)) = (rs, err, m)" by (metis prod_cases3)
    have "err \<noteq> None"
      by (rule batch_without_factory [OF b]) (use assms(1) decomposed_task_tools hd_in_set [OF some] in auto)
    with b True show ?thesis by (cases rs) (auto simp: spawn_decomposed_def spawn_def)
  next
    case False
    obtain rs err where r: "spawn_batch_auto_split env ?ts = (rs, err)" by fastforce
    have "err \<noteq> None"
    proof (cases "validate_tasks ?ts")
      case (Some e)
      with r have "err = Some e" by (simp add: spawn_batch_auto_split_def)
      then show ?thesis by simp
    next
      case None
      let ?bs = "nat (batch_size (be_manager (env 0)))"
      obtain rs0 err0 m where b: "spawn_batch (be_context (env 0)) (be_ids (env 0)) (be_children (env 0)) (take ?bs ?ts)
          (be_manager (env 0)) = (rs0, err0, m)" by (metis prod_cases3)
      have "err0 \<noteq> None"
        by (rule batch_without_factory [OF b]) (use assms decomposed_task_tools some in \<open>auto dest: in_set_takeD\<close>)
      with b r None some assms(2) show ?thesis
        by (auto simp: spawn_batch_auto_split_def Let_def split_batches.simps [of ?bs env 0 ?ts] split: if_splits)
    qed
    with r False show ?thesis by (simp add: spawn_decomposed_def)
  qed
qed

end
