(* ===== verification/Ledger.thy ===== *)
theory Ledger
  imports Go_Text
begin

text \<open>
  The ledger of background tasks and its sweeper (\<open>internal/automation/ledger.go\<close>, \<open>sweeper.go\<close>).  The
  ledger's operations run under its lock; a sweep copies the ledger and then marks tasks one at a time,
  so \<open>ledger_step\<close> interleaves a sweep with every other operation.  UUIDs and the clock are parameters;
  rows with equal times are ordered as they stand.  \<open>Update\<close> is reached through the five ends only, which is
  why a step sets a terminal state.
\<close>

subsection \<open>Data\<close>

datatype task_state = TaskQueued | TaskRunning | TaskCompleted | TaskFailed | TaskCancelled | TaskTimedOut | TaskLost

definition terminal_state :: "task_state \<Rightarrow> bool" where
  "terminal_state s \<longleftrightarrow> s \<in> {TaskCompleted, TaskFailed, TaskCancelled, TaskTimedOut, TaskLost}"

lemma terminal_state_code [code]:
  "terminal_state s = (case s of TaskQueued \<Rightarrow> False | TaskRunning \<Rightarrow> False | _ \<Rightarrow> True)"
  by (cases s) (simp_all add: terminal_state_def)

text \<open>The reason of a lost task: how long there was no heartbeat, and the owner that was not alive.\<close>

datatype task_error = NoError | TaskError string | NoHeartbeat int int

record ledger_task =
  lt_id :: string
  lt_source :: string
  lt_name :: string
  lt_state :: task_state
  lt_started :: int
  lt_updated :: int
  lt_ended :: int
  lt_result :: string
  lt_error :: task_error
  lt_owner :: int

text \<open>\<open>lg_fired\<close> is the list of the tasks the sink was called with.\<close>

record ledger =
  lg_tasks :: "ledger_task list"
  lg_max :: nat
  lg_sink :: bool
  lg_fired :: "ledger_task list"

definition new_ledger :: "int \<Rightarrow> ledger" where
  "new_ledger n = \<lparr>lg_tasks = [], lg_max = (if n \<le> 0 then 200 else nat n), lg_sink = False, lg_fired = []\<rparr>"

definition set_terminal_sink :: "bool \<Rightarrow> ledger \<Rightarrow> ledger" where
  "set_terminal_sink on l = l\<lparr>lg_sink := on\<rparr>"

definition find_task :: "ledger \<Rightarrow> string \<Rightarrow> ledger_task option" where
  "find_task l i = find (\<lambda>t. lt_id t = i) (lg_tasks l)"

subsection \<open>Operations\<close>

text \<open>The loop of \<open>evictLocked\<close>, over the terminal rows from the oldest end.\<close>

fun evict_rows :: "nat \<Rightarrow> ledger_task list \<Rightarrow> ledger_task list \<Rightarrow> ledger_task list" where
  "evict_rows n [] ts = ts"
| "evict_rows n (r # rs) ts =
     (if n < length ts then evict_rows n rs (filter (\<lambda>t. lt_id t \<noteq> lt_id r) ts) else ts)"

definition evict_locked :: "ledger \<Rightarrow> ledger" where
  "evict_locked l =
    (if length (lg_tasks l) \<le> lg_max l then l
     else l\<lparr>lg_tasks := evict_rows (lg_max l) (sort_key lt_ended (filter (\<lambda>t. terminal_state (lt_state t)) (lg_tasks l))) (lg_tasks l)\<rparr>)"

definition begin_owned :: "string \<Rightarrow> string \<Rightarrow> string \<Rightarrow> int \<Rightarrow> int \<Rightarrow> ledger \<Rightarrow> ledger" where
  "begin_owned i source name owner now l =
    (let t = \<lparr>lt_id = i, lt_source = source, lt_name = name, lt_state = TaskRunning, lt_started = now, lt_updated = now,
         lt_ended = 0, lt_result = [], lt_error = NoError, lt_owner = owner\<rparr>
     in evict_locked (l\<lparr>lg_tasks := filter (\<lambda>x. lt_id x \<noteq> i) (lg_tasks l) @ [t]\<rparr>))"

definition begin_task :: "string \<Rightarrow> string \<Rightarrow> string \<Rightarrow> int \<Rightarrow> ledger \<Rightarrow> ledger" where
  "begin_task i source name now l = begin_owned i source name 0 now l"

definition heartbeat_at :: "string \<Rightarrow> int \<Rightarrow> ledger \<Rightarrow> ledger" where
  "heartbeat_at i at l = l\<lparr>lg_tasks := map (\<lambda>t. if lt_id t = i \<and> \<not> terminal_state (lt_state t) then t\<lparr>lt_updated := at\<rparr> else t) (lg_tasks l)\<rparr>"

definition updated_task :: "task_state \<Rightarrow> string \<Rightarrow> task_error \<Rightarrow> int \<Rightarrow> ledger_task \<Rightarrow> ledger_task" where
  "updated_task st result err now t =
    (let t = t\<lparr>lt_state := st, lt_result := result, lt_error := (if err = NoError then lt_error t else err), lt_updated := now\<rparr>
     in if terminal_state st then t\<lparr>lt_ended := now\<rparr> else t)"

definition update_task :: "string \<Rightarrow> task_state \<Rightarrow> string \<Rightarrow> task_error \<Rightarrow> int \<Rightarrow> ledger \<Rightarrow> ledger" where
  "update_task i st result err now l =
    (case find_task l i of None \<Rightarrow> l
     | Some t \<Rightarrow>
        (let t' = updated_task st result err now t;
             l' = l\<lparr>lg_tasks := map (\<lambda>x. if lt_id x = i then t' else x) (lg_tasks l)\<rparr>
         in if terminal_state st \<and> \<not> terminal_state (lt_state t) \<and> lg_sink l
            then l'\<lparr>lg_fired := lg_fired l @ [t']\<rparr> else l'))"

definition timed_out :: "string \<Rightarrow> string \<Rightarrow> int \<Rightarrow> ledger \<Rightarrow> ledger" where
  "timed_out i reason now = update_task i TaskTimedOut reason NoError now"

definition mark_lost :: "string \<Rightarrow> task_error \<Rightarrow> int \<Rightarrow> ledger \<Rightarrow> ledger" where
  "mark_lost i reason now = update_task i TaskLost [] reason now"

definition complete_task :: "string \<Rightarrow> string \<Rightarrow> int \<Rightarrow> ledger \<Rightarrow> ledger" where
  "complete_task i result now = update_task i TaskCompleted result NoError now"

definition fail_task :: "string \<Rightarrow> task_error \<Rightarrow> int \<Rightarrow> ledger \<Rightarrow> ledger" where
  "fail_task i err now = update_task i TaskFailed [] err now"

definition cancel_task :: "string \<Rightarrow> int \<Rightarrow> ledger \<Rightarrow> ledger" where
  "cancel_task i now = update_task i TaskCancelled [] NoError now"

definition ledger_list :: "ledger \<Rightarrow> ledger_task list" where
  "ledger_list l = sort_key (\<lambda>t. - lt_started t) (lg_tasks l)"

definition active_tasks :: "ledger \<Rightarrow> ledger_task list" where
  "active_tasks l = filter (\<lambda>t. lt_state t = TaskQueued \<or> lt_state t = TaskRunning) (ledger_list l)"

subsection \<open>The sweeper\<close>

record sweeper_config =
  sw_interval :: int
  sw_grace :: int

definition new_sweeper :: "sweeper_config \<Rightarrow> sweeper_config" where
  "new_sweeper c = \<lparr>sw_interval = (if sw_interval c \<le> 0 then 60 * 10 ^ 9 else sw_interval c),
     sw_grace = (if sw_grace c \<le> 0 then 5 * 60 * 10 ^ 9 else sw_grace c)\<rparr>"

text \<open>The test of one row of the copy at the sweep's time \<open>now\<close>; \<open>alive\<close> is the probe of the process.\<close>

definition sweep_candidate :: "sweeper_config \<Rightarrow> (int \<Rightarrow> bool) \<Rightarrow> int \<Rightarrow> ledger_task \<Rightarrow> bool" where
  "sweep_candidate c alive now t \<longleftrightarrow> (lt_state t = TaskRunning \<or> lt_state t = TaskQueued) \<and>
     lt_updated t < now - sw_grace c \<and> \<not> (0 < lt_owner t \<and> alive (lt_owner t))"

definition sweep_row :: "sweeper_config \<Rightarrow> (int \<Rightarrow> bool) \<Rightarrow> int \<Rightarrow> int \<Rightarrow> ledger_task \<Rightarrow> ledger \<Rightarrow> ledger" where
  "sweep_row c alive now at t l =
    (if sweep_candidate c alive now t then mark_lost (lt_id t) (NoHeartbeat (now - lt_updated t) (lt_owner t)) at l else l)"

definition sweep_once :: "sweeper_config \<Rightarrow> (int \<Rightarrow> bool) \<Rightarrow> int \<Rightarrow> ledger \<Rightarrow> nat \<times> ledger" where
  "sweep_once c alive now l =
    (length (filter (sweep_candidate c alive now) (ledger_list l)), fold (sweep_row c alive now now) (ledger_list l) l)"

subsection \<open>Interleaving\<close>

text \<open>
  \<open>ls_sweep\<close> is the time of a sweep that is under way and the rows it has yet to look at; \<open>ls_used\<close> are
  the ids given so far.
\<close>

record ledger_system =
  ls_ledger :: ledger
  ls_used :: "string set"
  ls_sweep :: "(int \<times> ledger_task list) option"

inductive ledger_step :: "sweeper_config \<Rightarrow> ledger_system \<Rightarrow> ledger_system \<Rightarrow> bool" for c where
  begin_new: "i \<notin> ls_used s \<Longrightarrow>
    ledger_step c s (s\<lparr>ls_ledger := begin_owned i source name owner now (ls_ledger s), ls_used := insert i (ls_used s)\<rparr>)"
| heartbeat: "ledger_step c s (s\<lparr>ls_ledger := heartbeat_at i at (ls_ledger s)\<rparr>)"
| finish: "terminal_state st \<Longrightarrow> ledger_step c s (s\<lparr>ls_ledger := update_task i st result err now (ls_ledger s)\<rparr>)"
| sink: "ledger_step c s (s\<lparr>ls_ledger := set_terminal_sink on (ls_ledger s)\<rparr>)"
| sweep_start: "ls_sweep s = None \<Longrightarrow> ledger_step c s (s\<lparr>ls_sweep := Some (now, ledger_list (ls_ledger s))\<rparr>)"
| sweep_next: "ls_sweep s = Some (now, t # ts) \<Longrightarrow>
    ledger_step c s (s\<lparr>ls_ledger := sweep_row c alive now at t (ls_ledger s), ls_sweep := Some (now, ts)\<rparr>)"
| sweep_end: "ls_sweep s = Some (now, []) \<Longrightarrow> ledger_step c s (s\<lparr>ls_sweep := None\<rparr>)"

inductive ledger_reachable :: "sweeper_config \<Rightarrow> int \<Rightarrow> ledger_system \<Rightarrow> bool" for c n where
  start: "ledger_reachable c n \<lparr>ls_ledger = new_ledger n, ls_used = {}, ls_sweep = None\<rparr>"
| step: "ledger_reachable c n s \<Longrightarrow> ledger_step c s s' \<Longrightarrow> ledger_reachable c n s'"

end
