(* ===== verification/Ledger_Props.thy ===== *)
theory Ledger_Props
  imports Ledger
begin

text \<open>
  Properties of the ledger: eviction keeps every active task and drops the oldest ended ones, the sink is
  called once per task in every interleaving, and a completed task can still become lost.
\<close>

subsection \<open>Eviction\<close>

lemma length_remove_one:
  assumes "distinct (map lt_id ts)" and "r \<in> set ts"
  shows "length (filter (\<lambda>t. lt_id t \<noteq> lt_id r) ts) + 1 = length ts"
  using assms
proof (induction ts)
  case (Cons x ts)
  show ?case
  proof (cases "lt_id x = lt_id r")
    case True
    with Cons.prems have "filter (\<lambda>t. lt_id t \<noteq> lt_id r) ts = ts" by (auto simp: filter_id_conv) (metis image_eqI)
    with True show ?thesis by simp
  next
    case False
    with Cons show ?thesis by auto
  qed
qed simp

lemma evict_rows_take:
  assumes "distinct (map lt_id ts)" and "set rs \<subseteq> set ts" and "distinct (map lt_id rs)"
  shows "evict_rows n rs ts = filter (\<lambda>t. lt_id t \<notin> lt_id ` set (take (length ts - n) rs)) ts \<and>
    length (evict_rows n rs ts) = length ts - min (length rs) (length ts - n)"
  using assms
proof (induction n rs ts rule: evict_rows.induct)
  case (2 n r rs ts)
  show ?case
  proof (cases "n < length ts")
    case True
    let ?ts = "filter (\<lambda>t. lt_id t \<noteq> lt_id r) ts"
    have len: "length ?ts + 1 = length ts" using length_remove_one [OF "2.prems"(1)] "2.prems"(2) by auto
    have sub: "set rs \<subseteq> set ?ts" using "2.prems" by auto (metis image_eqI)
    have d: "distinct (map lt_id ?ts)" "distinct (map lt_id rs)" using "2.prems"(1,3) by (simp_all add: distinct_map_filter)
    note IH = "2.IH" [OF True d(1) sub d(2)]
    have k: "length ts - n = Suc (length ?ts - n)" using len True by linarith
    have m: "length ts - Suc z = length ?ts - z" for z using len by linarith
    show ?thesis using True IH m unfolding k by (auto intro!: filter_cong)
  qed simp
qed simp

lemma in_filter_count: "length (filter P xs) + length (filter (\<lambda>x. \<not> P x) xs) = length xs"
  by (induction xs) auto

text \<open>
  What an eviction does: every active task stays, the ledger is then no longer than its bound unless
  the active tasks alone are more, and what goes ended no later than any ended task that stays.
\<close>

theorem eviction_keeps_active:
  assumes "distinct (map lt_id (lg_tasks l))"
  shows "(\<forall>t \<in> set (lg_tasks l). \<not> terminal_state (lt_state t) \<longrightarrow> t \<in> set (lg_tasks (evict_locked l))) \<and>
    length (lg_tasks (evict_locked l)) \<le> max (lg_max l) (length (filter (\<lambda>t. \<not> terminal_state (lt_state t)) (lg_tasks l))) \<and>
    set (lg_tasks (evict_locked l)) \<subseteq> set (lg_tasks l) \<and>
    (\<forall>x \<in> set (lg_tasks l) - set (lg_tasks (evict_locked l)). \<forall>y \<in> set (lg_tasks (evict_locked l)).
       terminal_state (lt_state y) \<longrightarrow> lt_ended x \<le> lt_ended y)"
proof (cases "length (lg_tasks l) \<le> lg_max l")
  case True
  then show ?thesis by (simp add: evict_locked_def)
next
  case False
  define ts where "ts = lg_tasks l"
  define rs where "rs = sort_key lt_ended (filter (\<lambda>t. terminal_state (lt_state t)) ts)"
  have set_rs: "set rs = {t \<in> set ts. terminal_state (lt_state t)}" by (auto simp: rs_def)
  have inj: "inj_on lt_id (set ts)" and dts: "distinct ts" using assms by (simp_all add: ts_def distinct_map)
  have "distinct rs" using dts by (simp add: rs_def)
  then have d: "distinct (map lt_id rs)" using inj set_rs by (auto simp: distinct_map intro: inj_on_subset)
  let ?out = "take (length ts - lg_max l) rs"
  have e: "lg_tasks (evict_locked l) = evict_rows (lg_max l) rs ts"
    using False by (simp add: evict_locked_def ts_def [symmetric] rs_def [symmetric])
  have ev: "lg_tasks (evict_locked l) = filter (\<lambda>t. lt_id t \<notin> lt_id ` set ?out) ts"
    "length (lg_tasks (evict_locked l)) = length ts - min (length rs) (length ts - lg_max l)"
    using evict_rows_take [of ts rs "lg_max l"] assms d set_rs unfolding e ts_def [symmetric] by blast+
  have out: "set ?out \<subseteq> set rs" by (rule set_take_subset)
  have mem: "t \<in> set (lg_tasks (evict_locked l)) \<longleftrightarrow> t \<in> set ts \<and> t \<notin> set ?out" for t
    using ev(1) inj out set_rs by (auto dest: inj_onD)
  have "length rs + length (filter (\<lambda>t. \<not> terminal_state (lt_state t)) ts) = length ts"
    using in_filter_count [of "\<lambda>t. terminal_state (lt_state t)" ts] by (simp add: rs_def)
  then have "length (lg_tasks (evict_locked l)) \<le> max (lg_max l) (length (filter (\<lambda>t. \<not> terminal_state (lt_state t)) ts))"
    using ev(2) False by (simp add: ts_def)
  moreover have "lt_ended x \<le> lt_ended y" if "x \<in> set ?out" "y \<in> set rs" "y \<notin> set ?out" for x y
  proof -
    have "sorted (map lt_ended rs)" by (simp add: rs_def)
    then have "sorted (map lt_ended (?out @ drop (length ts - lg_max l) rs))" by simp
    moreover have "y \<in> set (drop (length ts - lg_max l) rs)"
      using that(2,3) set_append [of ?out "drop (length ts - lg_max l) rs"] by auto
    ultimately show ?thesis using that(1) by (simp only: map_append sorted_append) auto
  qed
  ultimately show ?thesis
    using mem set_rs out unfolding ts_def [symmetric] by blast
qed

subsection \<open>The sink\<close>

definition good_rows :: "string set \<Rightarrow> ledger_task list \<Rightarrow> ledger_task list \<Rightarrow> bool" where
  "good_rows used ts fired \<longleftrightarrow> distinct (map lt_id ts) \<and> lt_id ` set ts \<subseteq> used \<and>
     distinct (map lt_id fired) \<and> lt_id ` set fired \<subseteq> used \<and>
     (\<forall>t \<in> set ts. lt_id t \<in> lt_id ` set fired \<longrightarrow> terminal_state (lt_state t)) \<and> (\<forall>f \<in> set fired. terminal_state (lt_state f))"

abbreviation ledger_inv :: "string set \<Rightarrow> ledger \<Rightarrow> bool" where
  "ledger_inv used l \<equiv> good_rows used (lg_tasks l) (lg_fired l)"

lemma good_rows_map:
  assumes "good_rows used ts fired" and "\<And>x. lt_id (f x) = lt_id x"
    and "\<And>x. terminal_state (lt_state x) \<Longrightarrow> terminal_state (lt_state (f x))"
  shows "good_rows used (map f ts) fired"
proof -
  have "map lt_id (map f ts) = map lt_id ts" by (simp add: assms(2))
  moreover from this have "lt_id ` set (map f ts) = lt_id ` set ts" by (metis list.set_map)
  moreover have "\<forall>t \<in> set (map f ts). lt_id t \<in> lt_id ` set fired \<longrightarrow> terminal_state (lt_state t)"
    using assms by (auto simp: good_rows_def)
  ultimately show ?thesis using assms(1) unfolding good_rows_def by metis
qed

lemma good_rows_fire:
  assumes "good_rows used ts fired" and "\<forall>t \<in> set ts. lt_id t = lt_id f \<longrightarrow> terminal_state (lt_state t)"
    and "terminal_state (lt_state f)" and "lt_id f \<notin> lt_id ` set fired" and "lt_id f \<in> used"
  shows "good_rows used ts (fired @ [f])"
  using assms by (auto simp: good_rows_def)

lemma ledger_sublist_inv:
  assumes "ledger_inv used l" and "lg_tasks l' = filter P (lg_tasks l)" and "lg_fired l' = lg_fired l"
  shows "ledger_inv used l'"
  using assms by (auto simp: good_rows_def distinct_map_filter)

lemma evict_rows_filter: "\<exists>P. evict_rows n rs ts = filter P ts"
proof (induction n rs ts rule: evict_rows.induct)
  case (1 n ts)
  have "ts = filter (\<lambda>_. True) ts" by simp
  then show ?case by (metis evict_rows.simps(1))
next
  case (2 n r rs ts)
  show ?case
  proof (cases "n < length ts")
    case True
    from "2.IH" [OF this] obtain P where "evict_rows n rs (filter (\<lambda>t. lt_id t \<noteq> lt_id r) ts) = filter P (filter (\<lambda>t. lt_id t \<noteq> lt_id r) ts)" by blast
    with True have "evict_rows n (r # rs) ts = filter (\<lambda>x. P x \<and> lt_id x \<noteq> lt_id r) ts" by (simp add: conj_commute)
    then show ?thesis by blast
  next
    case False
    have "ts = filter (\<lambda>_. True) ts" by simp
    with False show ?thesis by (metis evict_rows.simps(2))
  qed
qed

lemma ledger_evict_inv: "ledger_inv used l \<Longrightarrow> ledger_inv used (evict_locked l)"
proof -
  assume inv: "ledger_inv used l"
  show ?thesis
  proof (cases "length (lg_tasks l) \<le> lg_max l")
    case False
    obtain P where P: "evict_rows (lg_max l) (sort_key lt_ended (filter (\<lambda>t. terminal_state (lt_state t)) (lg_tasks l))) (lg_tasks l) = filter P (lg_tasks l)"
      using evict_rows_filter by blast
    show ?thesis by (rule ledger_sublist_inv [OF inv, of _ P]) (use False P in \<open>simp_all add: evict_locked_def\<close>)
  qed (simp add: evict_locked_def inv)
qed

lemma ledger_begin_inv:
  assumes "ledger_inv used l" and "i \<notin> used"
  shows "ledger_inv (insert i used) (begin_owned i source name owner now l)"
proof -
  define t where "t = \<lparr>lt_id = i, lt_source = source, lt_name = name, lt_state = TaskRunning, lt_started = now, lt_updated = now,
         lt_ended = 0, lt_result = [], lt_error = NoError, lt_owner = owner\<rparr>"
  have "filter (\<lambda>x. lt_id x \<noteq> i) (lg_tasks l) = lg_tasks l"
    using assms by (auto simp: good_rows_def filter_id_conv)
  moreover have "ledger_inv (insert i used) (l\<lparr>lg_tasks := lg_tasks l @ [t]\<rparr>)"
    using assms by (auto simp: good_rows_def t_def)
  ultimately show ?thesis by (simp add: begin_owned_def t_def [symmetric] ledger_evict_inv)
qed

lemma updated_fields [simp]: "lt_id (updated_task st result err now t) = lt_id t" "lt_state (updated_task st result err now t) = st"
  by (simp_all add: updated_task_def Let_def)

lemma ledger_update_inv:
  assumes "ledger_inv used l" and "terminal_state st"
  shows "ledger_inv used (update_task i st result err now l)"
proof (cases "find_task l i")
  case None
  with assms show ?thesis by (simp add: update_task_def)
next
  case (Some t)
  then have t: "t \<in> set (lg_tasks l)" "lt_id t = i" by (auto simp: find_task_def find_Some_iff)
  let ?f = "\<lambda>x. if lt_id x = i then updated_task st result err now t else x"
  have base: "good_rows used (map ?f (lg_tasks l)) (lg_fired l)"
    by (rule good_rows_map [OF assms(1)]) (use t(2) assms(2) in auto)
  show ?thesis
  proof (cases "\<not> terminal_state (lt_state t) \<and> lg_sink l")
    case False
    with base Some show ?thesis by (auto simp: update_task_def Let_def)
  next
    case True
    have "lt_id t \<notin> lt_id ` set (lg_fired l)" "lt_id t \<in> used" using assms(1) t True by (auto simp: good_rows_def)
    then have "good_rows used (map ?f (lg_tasks l)) (lg_fired l @ [updated_task st result err now t])"
      using assms(2) t(2) by (intro good_rows_fire [OF base]) auto
    with Some True assms(2) show ?thesis by (simp add: update_task_def Let_def)
  qed
qed

lemma ledger_sweep_inv: "ledger_inv used l \<Longrightarrow> ledger_inv used (sweep_row c alive now at t l)"
  by (simp add: sweep_row_def mark_lost_def ledger_update_inv terminal_state_def)

lemma ledger_step_inv: "ledger_step c s s' \<Longrightarrow> ledger_inv (ls_used s) (ls_ledger s) \<Longrightarrow> ledger_inv (ls_used s') (ls_ledger s')"
proof (induction rule: ledger_step.induct)
  case (heartbeat s i at)
  have "good_rows (ls_used s) (map (\<lambda>t. if lt_id t = i \<and> \<not> terminal_state (lt_state t) then t\<lparr>lt_updated := at\<rparr> else t) (lg_tasks (ls_ledger s)))
      (lg_fired (ls_ledger s))"
    by (rule good_rows_map [OF heartbeat]) auto
  then show ?case by (simp add: heartbeat_at_def)
qed (auto simp: ledger_begin_inv ledger_update_inv ledger_sweep_inv set_terminal_sink_def)

lemma ledger_reachable_inv: "ledger_reachable c n s \<Longrightarrow> ledger_inv (ls_used s) (ls_ledger s)"
proof (induction rule: ledger_reachable.induct)
  case start
  show ?case by (simp add: new_ledger_def good_rows_def)
next
  case (step s s')
  show ?case by (rule ledger_step_inv [OF step(2,3)])
qed

text \<open>
  C28. The sink is called once per task.  In every interleaving of new tasks, heartbeats, ends, evictions,
  changes of the sink and sweeps, no task is reported to the sink twice, and each was terminal when it
  was reported.
\<close>

theorem sink_once:
  assumes "ledger_reachable c n s"
  shows "distinct (map lt_id (lg_fired (ls_ledger s))) \<and> (\<forall>f \<in> set (lg_fired (ls_ledger s)). terminal_state (lt_state f))"
  using ledger_reachable_inv [OF assms] by (simp add: good_rows_def)

subsection \<open>A completed task that is lost\<close>

definition quick :: sweeper_config where
  "quick = \<lparr>sw_interval = 1, sw_grace = 10\<rparr>"

text \<open>The ledger after a task began and completed, and after the sweep that had copied it before.\<close>

definition one_ledger :: ledger where
  "one_ledger = begin_owned ''t'' ''cron'' ''job'' 0 0 (set_terminal_sink True (new_ledger 0))"

definition ended_ledger :: ledger where
  "ended_ledger = complete_task ''t'' ''done'' 99 one_ledger"

lemma swept_run:
  "ledger_reachable quick 0 \<lparr>ls_ledger = sweep_row quick (\<lambda>_. True) 98 100 (hd (lg_tasks one_ledger)) ended_ledger, ls_used = {''t''},
     ls_sweep = Some (98, [])\<rparr>"
proof -
  let ?s0 = "\<lparr>ls_ledger = new_ledger 0, ls_used = {}, ls_sweep = None\<rparr>"
  let ?s1 = "\<lparr>ls_ledger = set_terminal_sink True (new_ledger 0), ls_used = {}, ls_sweep = None\<rparr>"
  have one: "ledger_list one_ledger = [hd (lg_tasks one_ledger)]"
    by (simp add: one_ledger_def begin_owned_def evict_locked_def new_ledger_def set_terminal_sink_def ledger_list_def)
  have "ledger_reachable quick 0 ?s1"
    using ledger_reachable.step [OF ledger_reachable.start ledger_step.sink [of quick ?s0 True]] by simp
  from ledger_reachable.step [OF this ledger_step.begin_new [of "''t''" _ quick "''cron''" "''job''" 0 0]]
  have "ledger_reachable quick 0 \<lparr>ls_ledger = one_ledger, ls_used = {''t''}, ls_sweep = None\<rparr>"
    by (simp add: one_ledger_def)
  from ledger_reachable.step [OF this ledger_step.sweep_start [of _ quick 98]]
  have "ledger_reachable quick 0 \<lparr>ls_ledger = one_ledger, ls_used = {''t''}, ls_sweep = Some (98, [hd (lg_tasks one_ledger)])\<rparr>"
    by (simp add: one)
  from ledger_reachable.step [OF this ledger_step.finish [of TaskCompleted quick _ "''t''" "''done''" NoError 99]]
  have "ledger_reachable quick 0 \<lparr>ls_ledger = ended_ledger, ls_used = {''t''}, ls_sweep = Some (98, [hd (lg_tasks one_ledger)])\<rparr>"
    by (simp add: ended_ledger_def complete_task_def terminal_state_def)
  from ledger_reachable.step [OF this ledger_step.sweep_next [of _ 98 "hd (lg_tasks one_ledger)" "[]" quick "\<lambda>_. True" 100]]
  show ?thesis by simp
qed

lemma sink_once_witness:
  "\<exists>s. ledger_reachable quick 0 s \<and> map lt_state (lg_fired (ls_ledger s)) = [TaskCompleted] \<and> distinct (map lt_id (lg_fired (ls_ledger s)))"
proof -
  have "map lt_state (lg_fired (sweep_row quick (\<lambda>_. True) 98 100 (hd (lg_tasks one_ledger)) ended_ledger)) = [TaskCompleted]"
    by code_simp
  with swept_run sink_once [OF swept_run] show ?thesis by (intro exI conjI) (rule swept_run, simp_all)
qed

text \<open>
  The sweep marks the task it copied while it was running, although it has completed since: its state is
  lost and its result is gone, while the sink was told that it completed.
\<close>

lemma completed_becomes_lost:
  "map (\<lambda>t. (lt_state t, lt_result t)) (lg_tasks ended_ledger) = [(TaskCompleted, ''done'')] \<and>
   map (\<lambda>t. (lt_state t, lt_result t)) (lg_tasks (sweep_row quick (\<lambda>_. True) 98 100 (hd (lg_tasks one_ledger)) ended_ledger)) = [(TaskLost, [])]"
  by code_simp

end
