(* ===== verification/Providers.thy ===== *)
theory Providers
  imports Go_Text
begin

text \<open>
  What stands between the agents and the language-model providers (\<open>internal/providers\<close>): the classifier
  of errors (\<open>classifier.go\<close>, \<open>errors.go\<close>), retries (\<open>retry.go\<close>), token limits (\<open>token_limits.go\<close>) and
  the failover chain (\<open>failover.go\<close>).  The providers themselves, the clock and the jitter are parameters.
  Durations are in nanoseconds.
\<close>

subsection \<open>Patterns\<close>

text \<open>
  The patterns of the classifier are sequences of pieces: a literal, in lower case since all patterns ignore
  the case (of ASCII letters here: the two other characters that fold to one, the long s and the Kelvin sign, are not
  taken for letters), a word boundary, white space, one of several words, or anything on a line.
\<close>

datatype piece = Lit string | Boundary | Spaces | OneOf "string list" | Anything

definition lower_byte :: "char \<Rightarrow> char" where
  "lower_byte c = (if 65 \<le> byte c \<and> byte c \<le> 90 then char_of (byte c + 32) else c)"

definition word_char :: "char option \<Rightarrow> bool" where
  "word_char c = (case c of None \<Rightarrow> False | Some c \<Rightarrow> is_digit c \<or> is_lower (lower_byte c) \<or> c = CHR ''_'')"

definition blank_char :: "char \<Rightarrow> bool" where
  "blank_char c \<longleftrightarrow> byte c \<in> {9, 10, 12, 13, 32}"

text \<open>
  The fuel of the match is the length of the pieces and of the text; \<open>before\<close> is the character in front
  of the text.
\<close>

fun match_pieces :: "nat \<Rightarrow> piece list \<Rightarrow> char option \<Rightarrow> string \<Rightarrow> bool" where
  "match_pieces 0 ps before s = (ps = [])"
| "match_pieces (Suc k) [] before s = True"
| "match_pieces (Suc k) (p # ps) before s =
     (case p of
        Lit w \<Rightarrow> has_prefix (map lower_byte s) w \<and> match_pieces k ps (if w = [] then before else Some (last w)) (drop (length w) s)
      | Boundary \<Rightarrow> word_char before \<noteq> word_char (case s of [] \<Rightarrow> None | c # _ \<Rightarrow> Some c) \<and> match_pieces k ps before s
      | Spaces \<Rightarrow> (case s of [] \<Rightarrow> False | c # t \<Rightarrow> blank_char c \<and> (match_pieces k ps (Some c) t \<or> match_pieces k (p # ps) (Some c) t))
      | OneOf ws \<Rightarrow> list_ex (\<lambda>w. has_prefix (map lower_byte s) w \<and>
          match_pieces k ps (if w = [] then before else Some (last w)) (drop (length w) s)) ws
      | Anything \<Rightarrow> match_pieces k ps before s \<or>
          (case s of [] \<Rightarrow> False | c # t \<Rightarrow> byte c \<noteq> 10 \<and> match_pieces k (p # ps) (Some c) t))"

fun find_pieces :: "piece list \<Rightarrow> char option \<Rightarrow> string \<Rightarrow> bool" where
  "find_pieces ps before [] = match_pieces (length ps + 1) ps before []"
| "find_pieces ps before (c # s) = (match_pieces (length ps + length s + 2) ps before (c # s) \<or> find_pieces ps (Some c) s)"

definition match_string :: "piece list \<Rightarrow> string \<Rightarrow> bool" where
  "match_string ps s = find_pieces ps None s"

subsection \<open>Classification\<close>

datatype failover_reason = ReasonAuth | ReasonRateLimit | ReasonBilling | ReasonNetwork | ReasonTimeout | ReasonFormat
  | ReasonContextOverflow | ReasonOverloaded | ReasonModelNotFound | ReasonUnknown

definition second :: int where
  "second = 1000000000"

definition classifier_patterns :: "(piece list \<times> failover_reason \<times> bool \<times> int) list" where
  "classifier_patterns = [
     ([Boundary, Lit ''401'', Boundary], ReasonAuth, False, 0),
     ([Boundary, Lit ''403'', Boundary], ReasonAuth, False, 0),
     ([Lit ''invalid'', Spaces, Lit ''api'', Spaces, Lit ''key''], ReasonAuth, False, 0),
     ([Boundary, Lit ''authentication'', Boundary], ReasonAuth, False, 0),
     ([Boundary, Lit ''unauthorized'', Boundary], ReasonAuth, False, 0),
     ([Boundary, Lit ''forbidden'', Boundary], ReasonAuth, False, 0),
     ([Lit ''access'', Spaces, Lit ''denied''], ReasonAuth, False, 0),
     ([Boundary, Lit ''429'', Boundary], ReasonRateLimit, True, 60 * second),
     ([Lit ''rate'', Spaces, Lit ''limit''], ReasonRateLimit, True, 60 * second),
     ([Lit ''too'', Spaces, Lit ''many'', Spaces, Lit ''requests''], ReasonRateLimit, True, 60 * second),
     ([Lit ''quota'', Spaces, Lit ''exceeded''], ReasonRateLimit, True, 60 * second),
     ([Lit ''request'', OneOf [''s'', ''''], Spaces, Lit ''per'', Spaces, OneOf [''minute'', ''second'']], ReasonRateLimit, True, 60 * second),
     ([Boundary, Lit ''402'', Boundary], ReasonBilling, False, 24 * 3600 * second),
     ([Boundary, Lit ''billing'', Boundary], ReasonBilling, False, 24 * 3600 * second),
     ([Boundary, Lit ''payment'', Boundary], ReasonBilling, False, 24 * 3600 * second),
     ([Lit ''insufficient'', Spaces, Lit ''funds''], ReasonBilling, False, 24 * 3600 * second),
     ([Boundary, Lit ''credit''], ReasonBilling, False, 24 * 3600 * second),
     ([Boundary, Lit ''subscription'', Boundary], ReasonBilling, False, 24 * 3600 * second),
     ([Lit ''plan'', Spaces, Lit ''limit''], ReasonBilling, False, 24 * 3600 * second),
     ([Lit ''connection'', Spaces, Lit ''refused''], ReasonNetwork, True, 10 * second),
     ([Boundary, Lit ''dns'', Boundary], ReasonNetwork, True, 10 * second),
     ([Lit ''no'', Spaces, Lit ''such'', Spaces, Lit ''host''], ReasonNetwork, True, 10 * second),
     ([Boundary, Lit ''network'', Boundary], ReasonNetwork, True, 10 * second),
     ([Lit ''econnrefused''], ReasonNetwork, True, 10 * second),
     ([Lit ''econnreset''], ReasonNetwork, True, 10 * second),
     ([Lit ''epipe'', Boundary], ReasonNetwork, True, 10 * second),
     ([Lit ''connection'', Spaces, Lit ''reset''], ReasonNetwork, True, 10 * second),
     ([Lit ''context'', Spaces, Lit ''deadline''], ReasonTimeout, True, 30 * second),
     ([Lit ''context'', Spaces, Lit ''canceled''], ReasonTimeout, True, 30 * second),
     ([Lit ''i/o'', Spaces, Lit ''timeout''], ReasonTimeout, True, 30 * second),
     ([Lit ''read'', Spaces, Lit ''timeout''], ReasonTimeout, True, 30 * second),
     ([Lit ''deadline'', Spaces, Lit ''exceeded''], ReasonTimeout, True, 30 * second),
     ([Boundary, Lit ''json'', Boundary], ReasonFormat, False, 0),
     ([Boundary, Lit ''unmarshal'', Boundary], ReasonFormat, False, 0),
     ([Lit ''invalid'', Spaces, Lit ''response''], ReasonFormat, False, 0),
     ([Lit ''unexpected'', Spaces, Lit ''end''], ReasonFormat, False, 0),
     ([Boundary, Lit ''decode'', Boundary], ReasonFormat, False, 0),
     ([Lit ''syntax'', Spaces, Lit ''error''], ReasonFormat, False, 0),
     ([Lit ''context'', Spaces, Lit ''length''], ReasonContextOverflow, False, 0),
     ([Lit ''maximum'', Spaces, Lit ''context''], ReasonContextOverflow, False, 0),
     ([Lit ''too'', Spaces, Lit ''many'', Spaces, Lit ''tokens''], ReasonContextOverflow, False, 0),
     ([Lit ''token'', Spaces, Lit ''limit''], ReasonContextOverflow, False, 0),
     ([Lit ''input'', Spaces, Lit ''is'', Spaces, Lit ''too'', Spaces, Lit ''long''], ReasonContextOverflow, False, 0),
     ([Lit ''max_tokens''], ReasonContextOverflow, False, 0),
     ([Boundary, Lit ''500'', Boundary], ReasonOverloaded, True, 30 * second),
     ([Boundary, Lit ''502'', Boundary], ReasonOverloaded, True, 30 * second),
     ([Boundary, Lit ''503'', Boundary], ReasonOverloaded, True, 30 * second),
     ([Boundary, Lit ''529'', Boundary], ReasonOverloaded, True, 30 * second),
     ([Boundary, Lit ''overloaded'', Boundary], ReasonOverloaded, True, 30 * second),
     ([Lit ''internal'', Spaces, Lit ''server'', Spaces, Lit ''error''], ReasonOverloaded, True, 30 * second),
     ([Lit ''bad'', Spaces, Lit ''gateway''], ReasonOverloaded, True, 30 * second),
     ([Lit ''service'', Spaces, Lit ''unavailable''], ReasonOverloaded, True, 30 * second),
     ([Lit ''model'', Spaces, Lit ''not'', Spaces, Lit ''found''], ReasonModelNotFound, False, 0),
     ([Lit ''model'', Spaces, Lit ''not'', Spaces, Lit ''available''], ReasonModelNotFound, False, 0),
     ([Lit ''does'', Spaces, Lit ''not'', Spaces, Lit ''exist''], ReasonModelNotFound, False, 0),
     ([Lit ''model'', Spaces, Anything, Boundary, Lit ''not'', Boundary], ReasonModelNotFound, False, 0),
     ([Lit ''fork/exec''], ReasonUnknown, True, 5 * second),
     ([Lit ''signal:'', Spaces, Lit ''killed''], ReasonUnknown, True, 5 * second),
     ([Lit ''signal:'', Spaces, Lit ''aborted''], ReasonUnknown, True, 5 * second)]"

text \<open>An error of a provider: the HTTP error it is or wraps, its text, and what \<open>errors.Is\<close> and \<open>RetryAfter\<close> say.\<close>

record provider_error =
  pe_http :: "int option"
  pe_text :: string
  pe_cancelled :: bool
  pe_retry_after :: "int option"

definition http_error :: "int \<Rightarrow> string \<Rightarrow> provider_error" where
  "http_error code body = \<lparr>pe_http = Some code,
     pe_text = ''provider: HTTP '' @ show_int code @ '': '' @ (if 200 < length body then take 200 body @ ''...'' else body),
     pe_cancelled = False, pe_retry_after = None\<rparr>"

definition http_retryable :: "int \<Rightarrow> bool" where
  "http_retryable code \<longleftrightarrow> code \<in> {429, 500, 502, 503, 529}"

definition classify_http_status :: "int \<Rightarrow> failover_reason \<times> bool \<times> int" where
  "classify_http_status code =
    (if code = 401 \<or> code = 403 then (ReasonAuth, False, 0)
     else if code = 402 then (ReasonBilling, False, 24 * 3600 * second)
     else if code = 429 then (ReasonRateLimit, True, 60 * second)
     else if code = 500 \<or> code = 502 \<or> code = 503 \<or> code = 529 then (ReasonOverloaded, True, 30 * second)
     else if code = 408 then (ReasonTimeout, True, 30 * second)
     else if code = 413 then (ReasonContextOverflow, False, 0)
     else if code = 404 then (ReasonModelNotFound, False, 0)
     else (ReasonUnknown, False, 0))"

definition classify_text :: "string \<Rightarrow> failover_reason \<times> bool \<times> int" where
  "classify_text msg = (case find (\<lambda>(ps, r). match_string ps msg) classifier_patterns of
     Some (ps, r) \<Rightarrow> r | None \<Rightarrow> (ReasonUnknown, True, 5 * second))"

definition classify :: "provider_error option \<Rightarrow> failover_reason \<times> bool \<times> int" where
  "classify err =
    (case err of None \<Rightarrow> (ReasonUnknown, False, 0) | Some e \<Rightarrow>
      (case pe_http e of
         None \<Rightarrow> classify_text (pe_text e)
       | Some code \<Rightarrow> (let r = classify_http_status code in if fst r \<noteq> ReasonUnknown then r else classify_text (pe_text e))))"

definition is_retryable :: "provider_error option \<Rightarrow> bool" where
  "is_retryable e = fst (snd (classify e))"

definition cooldown_of :: "provider_error option \<Rightarrow> int" where
  "cooldown_of e = snd (snd (classify e))"

subsection \<open>Retries\<close>

definition max_retries :: nat where
  "max_retries = 8"

definition base_delay :: int where
  "base_delay = 2 * second"

text \<open>\<open>jitter\<close> is the truncated product of the random number, 0.2 and the delay.\<close>

definition calculate_delay :: "(int \<Rightarrow> int) \<Rightarrow> nat \<Rightarrow> int \<Rightarrow> int" where
  "calculate_delay jitter attempt base = (let d = min (base * 2 ^ attempt) (30 * second) in d + jitter d)"

definition retry_delay :: "(int \<Rightarrow> int) \<Rightarrow> nat \<Rightarrow> int \<Rightarrow> provider_error \<Rightarrow> int" where
  "retry_delay jitter attempt base e = (let d = calculate_delay jitter attempt base in
     case pe_retry_after e of None \<Rightarrow> d | Some a \<Rightarrow> if 0 < a \<and> d < a then a else d)"

datatype 'a retry_result = Got 'a | GaveUp "provider_error option" | Cancelled

text \<open>
  \<open>withRetry\<close> from an attempt on: the answers of the function, whether the context ends during the wait after
  an attempt, and the delays waited for so far.
\<close>

function with_retry :: "(nat \<Rightarrow> provider_error + 'a) \<Rightarrow> (nat \<Rightarrow> bool) \<Rightarrow> (nat \<Rightarrow> int \<Rightarrow> int) \<Rightarrow> int \<Rightarrow> nat
    \<Rightarrow> provider_error option \<Rightarrow> int list \<Rightarrow> 'a retry_result \<times> int list" where
  "with_retry f stops jitter base attempt prev delays =
    (if max_retries \<le> attempt then (GaveUp prev, delays)
     else case f attempt of Inr r \<Rightarrow> (Got r, delays)
       | Inl e \<Rightarrow>
           if \<not> is_retryable (Some e) then (GaveUp (Some e), delays)
           else let delays = delays @ [retry_delay (jitter attempt) attempt base e] in
             if stops attempt then (Cancelled, delays)
             else with_retry f stops jitter base (attempt + 1) (Some e) delays)"
  by pat_completeness auto
termination
  by (relation "measure (\<lambda>(f, stops, jitter, base, attempt, prev, delays). max_retries - attempt)") auto

declare with_retry.simps [simp del]

subsection \<open>Token limits\<close>

record model_info =
  mi_id :: string
  mi_context :: int
  mi_max :: int
  mi_default_max :: int
  mi_max_output :: int

datatype limit_error = NegativeLimits string | OutputAboveContext string int int | NegativeOverride string
  | OverrideAboveContext string int int | OverrideAboveOutput string int int

definition model_limits :: "model_info \<Rightarrow> limit_error + int \<times> int" where
  "model_limits m =
    (if mi_context m < 0 \<or> mi_max m < 0 \<or> mi_default_max m < 0 \<or> mi_max_output m < 0 then Inl (NegativeLimits (mi_id m))
     else let ctx = (if 0 < mi_context m then mi_context m else if 0 < mi_max m then mi_max m else 32768) in
       if ctx \<le> mi_max_output m then Inl (OutputAboveContext (mi_id m) (mi_max_output m) ctx)
       else let out = (if 0 < mi_default_max m \<and> mi_default_max m < ctx then mi_default_max m else 0)
         in Inr (ctx, if 0 < mi_max_output m then mi_max_output m else out))"

definition resolve_token_limits :: "model_info list \<Rightarrow> string \<Rightarrow> int \<Rightarrow> limit_error + int \<times> int" where
  "resolve_token_limits models i override =
    (case (case find (\<lambda>m. mi_id m = i) models of None \<Rightarrow> Inr (32768, 0) | Some m \<Rightarrow> model_limits m) of
       Inl e \<Rightarrow> Inl e
     | Inr (ctx, out) \<Rightarrow>
         if override < 0 then Inl (NegativeOverride i)
         else if ctx \<le> override then Inl (OverrideAboveContext i override ctx)
         else if 0 < override then
           (if 0 < out \<and> out < override then Inl (OverrideAboveOutput i override out) else Inr (ctx, override))
         else Inr (ctx, out))"

subsection \<open>The failover chain\<close>

record chain =
  fc_providers :: "string list"
  fc_cooldowns :: "string \<Rightarrow> int option"

definition mark_failed :: "string \<Rightarrow> int \<Rightarrow> int \<Rightarrow> chain \<Rightarrow> chain" where
  "mark_failed name cooldown now c =
     c\<lparr>fc_cooldowns := (fc_cooldowns c)(name \<mapsto> now + (if cooldown \<le> 0 then 60 * second else cooldown))\<rparr>"

definition reset_cooldown :: "string \<Rightarrow> chain \<Rightarrow> chain" where
  "reset_cooldown name c = c\<lparr>fc_cooldowns := (fc_cooldowns c)(name := None)\<rparr>"

definition cooling :: "int \<Rightarrow> chain \<Rightarrow> string \<Rightarrow> bool" where
  "cooling now c p = (case fc_cooldowns c p of None \<Rightarrow> False | Some expiry \<Rightarrow> now \<le> expiry)"

definition available_providers :: "int \<Rightarrow> chain \<Rightarrow> string list" where
  "available_providers now c = filter (\<lambda>p. \<not> cooling now c p) (fc_providers c)"

fun least_recent :: "(string \<Rightarrow> int option) \<Rightarrow> string list \<Rightarrow> (string \<times> int) option \<Rightarrow> (string \<times> int) option" where
  "least_recent cd [] picked = picked"
| "least_recent cd (p # ps) picked =
     (case cd p of None \<Rightarrow> least_recent cd ps picked
      | Some expiry \<Rightarrow> least_recent cd ps
          (case picked of None \<Rightarrow> Some (p, expiry) | Some (q, oldest) \<Rightarrow> if expiry < oldest then Some (p, expiry) else picked))"

definition least_recently_failed :: "chain \<Rightarrow> string list" where
  "least_recently_failed c = (case least_recent (fc_cooldowns c) (fc_providers c) None of None \<Rightarrow> [] | Some (p, e) \<Rightarrow> [p])"

text \<open>\<open>False\<close> means that the caller gave up; \<open>ended\<close>: its context is done.\<close>

definition record_failure :: "bool \<Rightarrow> string \<Rightarrow> provider_error \<Rightarrow> int \<Rightarrow> chain \<Rightarrow> bool \<times> chain" where
  "record_failure ended name e now c =
    (if ended \<or> pe_cancelled e then (False, c)
     else case classify (Some e) of (reason, retryable, cooldown) \<Rightarrow>
       (True,
        if reason = ReasonContextOverflow \<or> reason = ReasonModelNotFound then c
        else if reason = ReasonFormat then mark_failed name (5 * second) now c
        else if reason = ReasonAuth then mark_failed name (60 * second) now c
        else if 0 < cooldown then mark_failed name cooldown now c else c))"

datatype 'a call_result = Answered string 'a | CallerGone provider_error | AllFailed provider_error | Unavailable | NotStarted

text \<open>What a call meets at a provider: its answer, whether the context is done then, and the clock. \<open>env k p\<close>
  is what the \<open>k\<close>-th call of the loop meets at the provider \<open>p\<close>.\<close>

record 'a attempt =
  am_answer :: "provider_error + 'a"
  am_ended :: bool
  am_now :: int

fun try_providers :: "(nat \<Rightarrow> string \<Rightarrow> 'a attempt) \<Rightarrow> nat \<Rightarrow> string list \<Rightarrow> provider_error option \<Rightarrow> chain
    \<Rightarrow> 'a call_result \<times> string list \<times> chain" where
  "try_providers env k [] prev c = ((case prev of None \<Rightarrow> Unavailable | Some e \<Rightarrow> AllFailed e), [], c)"
| "try_providers env k (p # ps) prev c =
     (case am_answer (env k p) of
        Inr r \<Rightarrow> (Answered p r, [p], reset_cooldown p c)
      | Inl e \<Rightarrow>
          (case record_failure (am_ended (env k p)) p e (am_now (env k p)) c of
             (False, c) \<Rightarrow> (CallerGone e, [p], c)
           | (True, c) \<Rightarrow> (case try_providers env (k + 1) ps (Some e) c of (r, tried, c) \<Rightarrow> (r, p # tried, c))))"

text \<open>\<open>Complete\<close>: the result, the providers that were called, in order, and the chain.\<close>

definition complete_call :: "bool \<Rightarrow> int \<Rightarrow> (nat \<Rightarrow> string \<Rightarrow> 'a attempt) \<Rightarrow> chain \<Rightarrow> 'a call_result \<times> string list \<times> chain" where
  "complete_call ended now env c =
    (if ended then (NotStarted, [], c)
     else let ps = available_providers now c; ps = (if ps = [] then least_recently_failed c else ps)
       in try_providers env 0 ps None c)"

text \<open>\<open>Stream\<close> differs in that a stream that is nil is a failure, and the cooldown is reset by \<open>observeStream\<close>.\<close>

fun try_streams :: "(nat \<Rightarrow> string \<Rightarrow> 'a option attempt) \<Rightarrow> nat \<Rightarrow> string list \<Rightarrow> provider_error option \<Rightarrow> chain
    \<Rightarrow> 'a call_result \<times> string list \<times> chain" where
  "try_streams env k [] prev c = ((case prev of None \<Rightarrow> Unavailable | Some e \<Rightarrow> AllFailed e), [], c)"
| "try_streams env k (p # ps) prev c =
     (case (case am_answer (env k p) of
         Inr None \<Rightarrow> Inl \<lparr>pe_http = None, pe_text = ''provider returned a nil stream'', pe_cancelled = False, pe_retry_after = None\<rparr>
       | Inr (Some ch) \<Rightarrow> Inr ch | Inl e \<Rightarrow> Inl e) of
        Inr ch \<Rightarrow> (Answered p ch, [p], c)
      | Inl e \<Rightarrow>
          (case record_failure (am_ended (env k p)) p e (am_now (env k p)) c of
             (False, c) \<Rightarrow> (CallerGone e, [p], c)
           | (True, c) \<Rightarrow> (case try_streams env (k + 1) ps (Some e) c of (r, tried, c) \<Rightarrow> (r, p # tried, c))))"

definition stream_call :: "bool \<Rightarrow> int \<Rightarrow> (nat \<Rightarrow> string \<Rightarrow> 'a option attempt) \<Rightarrow> chain \<Rightarrow> 'a call_result \<times> string list \<times> chain" where
  "stream_call ended now env c =
    (if ended then (NotStarted, [], c)
     else let ps = available_providers now c; ps = (if ps = [] then least_recently_failed c else ps)
       in try_streams env 0 ps None c)"

subsection \<open>Observing a stream\<close>

text \<open>What the goroutine meets: the end of the context, a chunk, or a closed channel; a send may fail.\<close>

datatype chunk = Content string | ChunkError provider_error | ChunkDone

datatype stream_event = ContextDone | Closed bool int | Received chunk bool int bool

text \<open>
  \<open>Closed ended now\<close>: the input closed while the context was done or not.  \<open>Received chunk ended now sent\<close>:
  a chunk, whether the context is done at that time, and whether the send of it succeeds.
\<close>

fun observe_stream :: "string \<Rightarrow> stream_event list \<Rightarrow> chain \<Rightarrow> chunk list \<Rightarrow> chunk list \<times> chain" where
  "observe_stream name [] c out = (out, c)"
| "observe_stream name (ContextDone # es) c out = (out, c)"
| "observe_stream name (Closed ended now # es) c out =
     (if ended then (out, c)
      else (out @ [ChunkError \<lparr>pe_http = None, pe_text = ''provider stream closed without completion: unexpected EOF'',
          pe_cancelled = False, pe_retry_after = None\<rparr>], mark_failed name (5 * second) now c))"
| "observe_stream name (Received ch ended now sent # es) c out =
     (let out' = (if sent then out @ [ch] else out) in
      case ch of
        ChunkError e \<Rightarrow> (out', snd (record_failure ended name e now c))
      | ChunkDone \<Rightarrow> (out', reset_cooldown name c)
      | Content t \<Rightarrow> if sent then observe_stream name es c out' else (out', c))"

end
