(* ===== verification/Providers_Props.thy ===== *)
theory Providers_Props
  imports Providers
begin

text \<open>
  Properties of the providers' layer: what a series of retries does and waits, which providers a call
  of the failover chain reaches and which it marks, and which token limits are handed out.
\<close>

subsection \<open>Retries\<close>











text \<open>The eighth failure is waited for like the others, although no call follows.\<close>

lemma eighth_failure_waits:
  "with_retry (\<lambda>_. Inl (http_error 503 []) :: provider_error + string) (\<lambda>_. False) (\<lambda>_ _. 0) base_delay 0 None [] =
    (GaveUp (Some (http_error 503 [])), map (\<lambda>s. s * second) [2, 4, 8, 16, 30, 30, 30, 30])"
  by code_simp

subsection \<open>Token limits\<close>

lemma model_limits_ok:
  assumes "model_limits m = Inr (ctx, out)"
  shows "0 < ctx \<and> 0 \<le> out \<and> out < ctx \<and> (0 < mi_max_output m \<longrightarrow> out = mi_max_output m) \<and> (0 < mi_context m \<longrightarrow> ctx = mi_context m)"
  using assms by (auto simp: model_limits_def Let_def split: if_splits)

text \<open>
  The limits that are handed out: the context is positive, the output is not negative and is below it, an
  override is used as it is and never exceeds a model's own output limit, and a model's context is taken from it.
\<close>

theorem token_limits_ok:
  assumes "resolve_token_limits models i override = Inr (ctx, out)"
  shows "0 < ctx \<and> 0 \<le> out \<and> out < ctx \<and> 0 \<le> override \<and> (0 < override \<longrightarrow> out = override) \<and>
    (\<forall>m. find (\<lambda>m. mi_id m = i) models = Some m \<longrightarrow>
       (0 < mi_context m \<longrightarrow> ctx = mi_context m) \<and> (0 < mi_max_output m \<longrightarrow> out \<le> mi_max_output m))"
proof (cases "find (\<lambda>m. mi_id m = i) models")
  case None
  with assms show ?thesis by (auto simp: resolve_token_limits_def split: if_splits)
next
  case (Some m)
  with assms obtain o' where m: "model_limits m = Inr (ctx, o')"
    and o: "if 0 < override then (o' \<le> 0 \<or> override \<le> o') \<and> out = override else out = o'" "0 \<le> override" "override < ctx"
    by (auto simp: resolve_token_limits_def not_less not_le split: sum.splits if_splits)
  from model_limits_ok [OF m] o Some show ?thesis by (auto split: if_splits)
qed

subsection \<open>The failover chain\<close>

lemma record_failure_fields:
  "fc_providers (snd (record_failure b p e now c)) = fc_providers c"
  "q \<noteq> p \<Longrightarrow> fc_cooldowns (snd (record_failure b p e now c)) q = fc_cooldowns c q"
  "fst (record_failure b p e now c) \<longleftrightarrow> \<not> b \<and> \<not> pe_cancelled e"
  by (auto simp: record_failure_def mark_failed_def split: prod.splits)

text \<open>The failure is the provider's: the caller is still there, and the request is not what was refused.\<close>

definition blames :: "'a attempt \<Rightarrow> bool" where
  "blames a = (case am_answer a of Inr r \<Rightarrow> False
     | Inl e \<Rightarrow> \<not> am_ended a \<and> \<not> pe_cancelled e \<and> fst (classify (Some e)) \<noteq> ReasonContextOverflow \<and> fst (classify (Some e)) \<noteq> ReasonModelNotFound)"

definition moves_on :: "'a attempt \<Rightarrow> bool" where
  "moves_on a = (case am_answer a of Inr r \<Rightarrow> False | Inl e \<Rightarrow> \<not> am_ended a \<and> \<not> pe_cancelled e)"

lemma record_failure_blames:
  assumes "am_answer a = Inl e" and "fc_cooldowns (snd (record_failure (am_ended a) p e now c)) q \<noteq> fc_cooldowns c q"
  shows "q = p \<and> blames a"
proof -
  have "q = p" using assms(2) record_failure_fields(2) by metis
  moreover have "blames a" using assms by (auto simp: record_failure_def blames_def split: prod.splits if_splits)
  ultimately show ?thesis by simp
qed

definition call_shape :: "(nat \<Rightarrow> string \<Rightarrow> 'a attempt) \<Rightarrow> nat \<Rightarrow> string list \<Rightarrow> string list \<Rightarrow> 'a call_result \<Rightarrow> bool" where
  "call_shape env k tried rest r = (case r of
     Answered p x \<Rightarrow> tried \<noteq> [] \<and> p = last tried \<and> am_answer (env (k + length tried - 1) p) = Inr x
   | CallerGone e \<Rightarrow> tried \<noteq> [] \<and> am_answer (env (k + length tried - 1) (last tried)) = Inl e \<and>
       \<not> moves_on (env (k + length tried - 1) (last tried))
   | AllFailed e \<Rightarrow> tried \<noteq> [] \<and> rest = [] \<and> am_answer (env (k + length tried - 1) (last tried)) = Inl e \<and>
       moves_on (env (k + length tried - 1) (last tried))
   | _ \<Rightarrow> False)"

lemma try_cons:
  "try_providers env k (p # ps) prev c =
    (case am_answer (env k p) of
       Inr r \<Rightarrow> (Answered p r, [p], reset_cooldown p c)
     | Inl e \<Rightarrow>
        (let c' = snd (record_failure (am_ended (env k p)) p e (am_now (env k p)) c) in
         if moves_on (env k p) then
           (fst (try_providers env (k + 1) ps (Some e) c'), p # fst (snd (try_providers env (k + 1) ps (Some e) c')),
            snd (snd (try_providers env (k + 1) ps (Some e) c')))
         else (CallerGone e, [p], c)))"
  by (auto simp: moves_on_def record_failure_def Let_def split: sum.splits prod.splits)

declare try_providers.simps(2) [simp del]

lemma try_shape:
  assumes "ps \<noteq> []"
  shows "\<exists>rest. ps = fst (snd (try_providers env k ps prev c)) @ rest \<and>
    call_shape env k (fst (snd (try_providers env k ps prev c))) rest (fst (try_providers env k ps prev c)) \<and>
    (\<forall>i. i + 1 < length (fst (snd (try_providers env k ps prev c))) \<longrightarrow>
       moves_on (env (k + i) (fst (snd (try_providers env k ps prev c)) ! i)))"
  using assms
proof (induction ps arbitrary: k prev c)
  case (Cons p ps)
  show ?case
  proof (cases "am_answer (env k p)")
    case (Inr r)
    then show ?thesis by (simp add: try_cons call_shape_def)
  next
    case (Inl e)
    define c' where "c' = snd (record_failure (am_ended (env k p)) p e (am_now (env k p)) c)"
    show ?thesis
    proof (cases "moves_on (env k p)")
      case False
      with Inl show ?thesis by (simp add: try_cons call_shape_def)
    next
      case True
      define res where "res = try_providers env (k + 1) ps (Some e) c'"
      have eq: "try_providers env k (p # ps) prev c = (fst res, p # fst (snd res), snd (snd res))"
        using Inl True by (simp add: try_cons c'_def [symmetric] res_def)
      show ?thesis
      proof (cases "ps = []")
        case True
        then have "res = (AllFailed e, [], c')" by (simp add: res_def)
        with True Inl \<open>moves_on (env k p)\<close> show ?thesis unfolding eq by (simp add: call_shape_def)
      next
        case False
        from Cons.IH [OF this, of "k + 1" "Some e" c'] obtain rest where rest: "ps = fst (snd res) @ rest"
          "call_shape env (k + 1) (fst (snd res)) rest (fst res)"
          "\<forall>i. i + 1 < length (fst (snd res)) \<longrightarrow> moves_on (env (k + 1 + i) (fst (snd res) ! i))"
          unfolding res_def by blast
        have "call_shape env k (p # fst (snd res)) rest (fst res)"
          using rest(2) by (auto simp: call_shape_def split: call_result.splits)
        moreover have "moves_on (env (k + i) ((p # fst (snd res)) ! i))" if "i + 1 < length (p # fst (snd res))" for i
          using True rest(3) that by (cases i) auto
        ultimately show ?thesis using rest(1) unfolding eq by auto
      qed
    qed
  qed
qed simp

lemma try_blame:
  "fc_cooldowns (snd (snd (try_providers env k ps prev c))) q \<noteq> fc_cooldowns c q \<Longrightarrow>
   \<exists>i < length (fst (snd (try_providers env k ps prev c))). fst (snd (try_providers env k ps prev c)) ! i = q \<and>
     (blames (env (k + i) q) \<or> (\<exists>x. am_answer (env (k + i) q) = Inr x))"
proof (induction ps arbitrary: k prev c)
  case (Cons p ps)
  show ?case
  proof (cases "am_answer (env k p)")
    case (Inr r)
    with Cons.prems show ?thesis by (auto simp: try_cons reset_cooldown_def split: if_splits)
  next
    case (Inl e)
    define c' where "c' = snd (record_failure (am_ended (env k p)) p e (am_now (env k p)) c)"
    show ?thesis
    proof (cases "moves_on (env k p)")
      case False
      with Inl Cons.prems show ?thesis by (simp add: try_cons)
    next
      case True
      define res where "res = try_providers env (k + 1) ps (Some e) c'"
      have eq: "try_providers env k (p # ps) prev c = (fst res, p # fst (snd res), snd (snd res))"
        using Inl True by (simp add: try_cons c'_def [symmetric] res_def)
      show ?thesis
      proof (cases "fc_cooldowns c' q = fc_cooldowns c q")
        case False
        with record_failure_blames [OF Inl] have "q = p \<and> blames (env k p)" unfolding c'_def by blast
        then show ?thesis unfolding eq by (intro exI [of _ 0]) simp
      next
        case same: True
        with Cons.prems have "fc_cooldowns (snd (snd res)) q \<noteq> fc_cooldowns c' q" unfolding eq by simp
        from Cons.IH [OF this [unfolded res_def]] obtain i where "i < length (fst (snd res))" "fst (snd res) ! i = q"
          "blames (env (k + 1 + i) q) \<or> (\<exists>x. am_answer (env (k + 1 + i) q) = Inr x)"
          unfolding res_def by blast
        then show ?thesis unfolding eq by (intro exI [of _ "i + 1"]) simp
      qed
    qed
  qed
qed simp

lemma least_recent_min:
  "least_recent cd ps picked = Some (p, e) \<Longrightarrow> (p \<in> set ps \<and> cd p = Some e \<or> picked = Some (p, e)) \<and>
    (\<forall>q \<in> set ps. \<forall>x. cd q = Some x \<longrightarrow> e \<le> x) \<and> (\<forall>q x. picked = Some (q, x) \<longrightarrow> e \<le> x)"
proof (induction ps arbitrary: picked)
  case (Cons r ps)
  show ?case
  proof (cases "cd r")
    case None
    with Cons show ?thesis by auto
  next
    case (Some y)
    define picked' where "picked' = (case picked of None \<Rightarrow> Some (r, y) | Some (q, oldest) \<Rightarrow> if y < oldest then Some (r, y) else picked)"
    have "least_recent cd ps picked' = Some (p, e)" using Cons.prems Some by (simp add: picked'_def)
    from Cons.IH [OF this] Some show ?thesis
      by (cases picked) (auto simp: picked'_def split: if_splits prod.splits)
  qed
qed simp

lemma least_recently_failed_one:
  "least_recently_failed c = [] \<or> (\<exists>p e. least_recently_failed c = [p] \<and> p \<in> set (fc_providers c) \<and> fc_cooldowns c p = Some e \<and>
    (\<forall>q \<in> set (fc_providers c). \<forall>x. fc_cooldowns c q = Some x \<longrightarrow> e \<le> x))"
  using least_recent_min [of "fc_cooldowns c" "fc_providers c" None]
  by (cases "least_recent (fc_cooldowns c) (fc_providers c) None") (auto simp: least_recently_failed_def)

lemma least_recent_some: "least_recent cd ps (Some z) \<noteq> None"
proof (induction ps arbitrary: z)
  case (Cons p ps)
  then show ?case by (cases "cd p"; cases z) auto
qed simp

lemma least_recent_none: "least_recent cd ps None = None \<Longrightarrow> p \<in> set ps \<Longrightarrow> cd p = None"
proof (induction ps)
  case (Cons q ps)
  then show ?case by (cases "cd q") (auto simp: least_recent_some)
qed simp

lemma nobody_left:
  assumes "available_providers now c = []" and "least_recently_failed c = []"
  shows "fc_providers c = []"
proof (rule ccontr)
  assume "fc_providers c \<noteq> []"
  then obtain p where p: "p \<in> set (fc_providers c)" by (cases "fc_providers c") auto
  have "least_recent (fc_cooldowns c) (fc_providers c) None = None"
    using assms(2) by (cases "least_recent (fc_cooldowns c) (fc_providers c) None") (auto simp: least_recently_failed_def)
  from least_recent_none [OF this p] have "\<not> cooling now c p" by (simp add: cooling_def)
  with p assms(1) show False by (simp add: available_providers_def filter_empty_conv)
qed

text \<open>
  C30. What one call of the failover chain does.  It is unavailable only when the chain is empty.  Otherwise
  the providers it calls are, in order, the first of those that are not cooling down, or the one whose
  cooldown ends first when all are; every call but the last failed with the caller still there; the last
  one gave the answer, or found that the caller is gone, or was the last provider of all.  A cooldown changes only
  for a provider that was called and either answered or failed in a way that is neither the caller's doing nor
  about the request.
\<close>

theorem failover_call:
  assumes "complete_call False now env c = (r, tried, c')"
  shows "r = Unavailable \<and> tried = [] \<and> fc_providers c = [] \<and> c' = c \<or>
    (\<exists>rest. call_shape env 0 tried rest r \<and> (\<forall>i. i + 1 < length tried \<longrightarrow> moves_on (env i (tried ! i))) \<and>
      (available_providers now c = tried @ rest \<or>
        rest = [] \<and> available_providers now c = [] \<and>
        (\<exists>p e. tried = [p] \<and> p \<in> set (fc_providers c) \<and> fc_cooldowns c p = Some e \<and>
          (\<forall>q \<in> set (fc_providers c). \<forall>x. fc_cooldowns c q = Some x \<longrightarrow> e \<le> x))) \<and>
      (\<forall>q. fc_cooldowns c' q \<noteq> fc_cooldowns c q \<longrightarrow>
        (\<exists>i < length tried. tried ! i = q \<and> (blames (env i q) \<or> (\<exists>x. am_answer (env i q) = Inr x)))))"
proof -
  define ps where "ps = (if available_providers now c = [] then least_recently_failed c else available_providers now c)"
  have run: "try_providers env 0 ps None c = (r, tried, c')" using assms by (simp add: complete_call_def ps_def Let_def)
  show ?thesis
  proof (cases "ps = []")
    case True
    then have "fc_providers c = []" using nobody_left [of now c] by (simp add: ps_def split: if_splits)
    with run True show ?thesis by simp
  next
    case False
    from try_shape [OF this, of env 0 None c] obtain rest where rest: "ps = tried @ rest" "call_shape env 0 tried rest r"
      "\<forall>i. i + 1 < length tried \<longrightarrow> moves_on (env i (tried ! i))"
      unfolding run by auto
    have tried: "tried \<noteq> []" using rest(2) by (auto simp: call_shape_def split: call_result.splits)
    have pick: "available_providers now c = tried @ rest \<or> rest = [] \<and> available_providers now c = [] \<and>
        (\<exists>p e. tried = [p] \<and> p \<in> set (fc_providers c) \<and> fc_cooldowns c p = Some e \<and>
          (\<forall>q \<in> set (fc_providers c). \<forall>x. fc_cooldowns c q = Some x \<longrightarrow> e \<le> x))"
    proof (cases "available_providers now c = []")
      case True
      then have "least_recently_failed c = tried @ rest" using rest(1) by (simp add: ps_def)
      with tried least_recently_failed_one [of c] True show ?thesis by (auto simp: Cons_eq_append_conv append_eq_Cons_conv)
    next
      case False
      with rest(1) show ?thesis by (simp add: ps_def)
    qed
    have blame: "\<forall>q. fc_cooldowns c' q \<noteq> fc_cooldowns c q \<longrightarrow>
        (\<exists>i < length tried. tried ! i = q \<and> (blames (env i q) \<or> (\<exists>x. am_answer (env i q) = Inr x)))"
      using try_blame [of env 0 ps None c] unfolding run by simp
    show ?thesis
      by (rule disjI2, rule exI [of _ rest], rule conjI [OF rest(2)], rule conjI [OF rest(3)], rule conjI [OF pick blame])
  qed
qed

definition two_chain :: chain where
  "two_chain = \<lparr>fc_providers = [''a'', ''b''], fc_cooldowns = (\<lambda>_. None)\<rparr>"

definition two_env :: "nat \<Rightarrow> string \<Rightarrow> string attempt" where
  "two_env k p = \<lparr>am_answer = (if p = ''a'' then Inl (http_error 429 []) else Inr ''hello''), am_ended = False, am_now = 5\<rparr>"

lemma failover_call_witness:
  "\<exists>c'. complete_call False 0 two_env two_chain = (Answered ''b'' ''hello'', [''a'', ''b''], c') \<and>
    fc_cooldowns c' ''a'' = Some 60000000005 \<and> fc_cooldowns c' ''b'' = None \<and> blames (two_env 0 ''a'')"
proof -
  let ?r = "complete_call False 0 two_env two_chain"
  have r: "fst ?r = Answered ''b'' ''hello''" "fst (snd ?r) = [''a'', ''b'']" "fc_cooldowns (snd (snd ?r)) ''a'' = Some 60000000005"
    "fc_cooldowns (snd (snd ?r)) ''b'' = None"
    by code_simp+
  have eq: "?r = (Answered ''b'' ''hello'', [''a'', ''b''], snd (snd ?r))" using r(1,2) by (simp add: prod_eq_iff)
  from failover_call [OF eq] have "blames (two_env 0 ''a'')"
    using r(3) by (force simp: two_chain_def two_env_def less_Suc_eq)
  with eq r show ?thesis by blast
qed

lemma token_limits_ok_witness:
  "\<exists>ctx out. resolve_token_limits [\<lparr>mi_id = ''m'', mi_context = 1000, mi_max = 0, mi_default_max = 0, mi_max_output = 100\<rparr>] ''m'' 50 = Inr (ctx, out) \<and>
    out = 50 \<and> out < ctx"
proof -
  have r: "resolve_token_limits [\<lparr>mi_id = ''m'', mi_context = 1000, mi_max = 0, mi_default_max = 0, mi_max_output = 100\<rparr>] ''m'' 50 = Inr (1000, 50)"
    by code_simp
  from token_limits_ok [OF r] r show ?thesis by auto
qed

end
