(* ===== verification/Flow_Checkpoint.thy ===== *)
theory Flow_Checkpoint
  imports Seahorse Complex_Main "HOL-Library.Word"
begin

text \<open>
  Checkpoints of the agent loop (\<open>internal/agent/flow.go\<close>, \<open>flow_plan_continuation.go\<close>, the checkpoint of
  \<open>sequential_runtime.go\<close> and the types of \<open>auto_mode.go\<close> and \<open>sequential.go\<close> they use).  A checkpoint holds
  the transcript, the plan and the queue of work items of an interrupted task.  Times are in nanoseconds,
  confidences are rational numbers, and the sizes of JSON texts are parameters.
\<close>

unbundle bit_operations_syntax

subsection \<open>Data\<close>

datatype phase_status = PhasePending | PhaseRunning | PhaseDone | PhaseFailed | PhaseSkipped | PhaseDeferred

record plan_phase =
  ph_index :: int
  ph_title :: string
  ph_description :: string
  ph_status :: phase_status

record phase_plan =
  pl_title :: string
  pl_phases :: "plan_phase list"
  pl_source :: string

record loaded_flow_plan =
  lp_require_evaluation :: bool
  lp_min_confidence :: rat
  lp_max_iterations :: int
  lp_max_revision_depth :: int
  lp_plan :: phase_plan
  lp_current :: int
  lp_started :: bool

datatype work_item_status = ItemPending | ItemActive | ItemDone | ItemFailed | ItemSkipped

record work_item =
  wi_index :: int
  wi_description :: string
  wi_status :: work_item_status
  wi_result :: string
  wi_error :: string
  wi_started :: int
  wi_completed :: int

record sequential_checkpoint =
  sq_input :: string
  sq_items :: "work_item list"
  sq_current :: int
  sq_scope :: string
  sq_started :: bool
  sq_completed_history :: "chat_message list"
  sq_raw_history :: "chat_message list"
  sq_active_history :: "chat_message list"

datatype job_status = JobQueued | JobRunning | JobPaused | JobManualReview | JobExhausted | JobCompleted | JobCancelled | JobFailed

record flow_state =
  fs_sequential :: "sequential_checkpoint option"
  fs_loaded_plan :: "loaded_flow_plan option"
  fs_resume_status :: "job_status option"
  fs_cancel_epoch :: int
  fs_workspace :: string
  fs_read_only :: bool
  fs_id :: string
  fs_session :: string
  fs_user_input :: string
  fs_model :: string
  fs_provider :: string
  fs_history :: "chat_message list"
  fs_step :: int
  fs_reason :: string
  fs_created :: int
  fs_resumed_at :: "int list"
  fs_resumes :: int

datatype flow_error = InvalidSession | SequentialInvalid string | PlanInvalid string | StateTooLarge | SessionMissing | SessionInactive
  | WorkspaceChanged | EpochMissing | SupersededByStop | OtherSession | OwnerMismatch | FlowCorrupt | FlowExhausted | FlowNotFound
  | SessionMismatch | InvalidFinalStatus | NotQueued | JobMissing | StoreMissing | FlowIdRequired

definition max_resumes :: int where
  "max_resumes = 3"

text \<open>What the code takes from outside: sizes of JSON texts, and \<open>filepath.EvalSymlinks\<close> with \<open>Clean\<close>.\<close>

record flow_env =
  fe_checkpoint_size :: "sequential_checkpoint \<Rightarrow> int"
  fe_state_size :: "flow_state \<Rightarrow> int"
  fe_stored_size :: "flow_state \<Rightarrow> int"
  fe_canonical :: "string \<Rightarrow> string option"

subsection \<open>Identity of a flow\<close>

text \<open>The loop of the FNV-1a hash, on 64-bit words.\<close>

definition fnv_step :: "64 word \<Rightarrow> char \<Rightarrow> 64 word" where
  "fnv_step h c = (h XOR of_nat (byte c)) * 1099511628211"

definition flow_hash :: "string \<Rightarrow> string \<Rightarrow> 64 word" where
  "flow_hash session input = fold (\<lambda>c h. fnv_step h c) (session @ [CHR ''|''] @ input) 14695981039346656037"

definition hex_digit :: "nat \<Rightarrow> char" where
  "hex_digit n = (if n < 10 then char_of (48 + n) else char_of (87 + n))"

definition hex16 :: "nat \<Rightarrow> string" where
  "hex16 n = map (\<lambda>i. hex_digit (n div 16 ^ i mod 16)) (rev [0..<16])"

definition flow_id_for :: "string \<Rightarrow> string \<Rightarrow> string" where
  "flow_id_for session input = ''flow-'' @ hex16 (unat (flow_hash session input))"

definition resume_prefix :: string where
  "resume_prefix = ''overkill:flow:resume:''"

definition format_resume_prompt :: "string \<Rightarrow> string" where
  "format_resume_prompt i = resume_prefix @ i"

definition extract_flow_id :: "string \<Rightarrow> string" where
  "extract_flow_id prompt = (let p = trim_space prompt in
     if has_prefix p resume_prefix then trim_space (drop (length resume_prefix) p) else [])"

subsection \<open>Complete transcripts\<close>

text \<open>
  The ASCII part of \<open>strings.ToLower\<close>, with the two other characters that become ASCII letters; enough to
  look for ASCII text in the result.
\<close>

fun lower_text :: "string \<Rightarrow> string" where
  "lower_text [] = []"
| "lower_text (c # s) =
     (if 65 \<le> byte c \<and> byte c \<le> 90 then char_of (byte c + 32) # lower_text s
      else if byte c = 196 \<and> take 1 (map byte s) = [176] then CHR ''i'' # lower_text (drop 1 s)
      else if byte c = 226 \<and> take 2 (map byte s) = [132, 170] then CHR ''k'' # lower_text (drop 2 s)
      else c # lower_text s)"

fun contains_text :: "string \<Rightarrow> string \<Rightarrow> bool" where
  "contains_text [] p = (p = [])"
| "contains_text (c # s) p = (has_prefix (c # s) p \<or> contains_text s p)"

fun add_pending :: "tool_call list \<Rightarrow> string list \<Rightarrow> string list option" where
  "add_pending [] pending = Some pending"
| "add_pending (c # cs) pending =
     (if tc_id c = [] \<or> tc_id c \<in> set pending then None else add_pending cs (tc_id c # pending))"

definition interrupted :: "string \<Rightarrow> bool" where
  "interrupted content = (let l = lower_text content in contains_text l ''context canceled'' \<or> contains_text l ''deadline exceeded'')"

fun complete_from :: "string list \<Rightarrow> chat_message list \<Rightarrow> bool" where
  "complete_from pending [] = (pending = [])"
| "complete_from pending (m # ms) =
     (case (if cm_role m = ''assistant'' then add_pending (cm_calls m) pending else Some pending) of
        None \<Rightarrow> False
      | Some pending \<Rightarrow>
          if cm_role m = ''tool'' then
            cm_call_id m \<noteq> [] \<and> cm_call_id m \<in> set pending \<and> \<not> interrupted (cm_content m) \<and>
            complete_from (removeAll (cm_call_id m) pending) ms
          else complete_from pending ms)"

definition flow_history_complete :: "chat_message list \<Rightarrow> bool" where
  "flow_history_complete ms = complete_from [] ms"

subsection \<open>Checkpoints of plans and of queues\<close>

definition policy_ok :: "loaded_flow_plan \<Rightarrow> bool" where
  "policy_ok p \<longleftrightarrow> 0 \<le> lp_min_confidence p \<and> lp_min_confidence p \<le> 1 \<and> 1 \<le> lp_max_iterations p \<and> lp_max_iterations p \<le> 100 \<and>
     0 \<le> lp_max_revision_depth p \<and> lp_max_revision_depth p \<le> 100"

fun check_phases :: "int \<Rightarrow> int \<Rightarrow> plan_phase list \<Rightarrow> flow_error option" where
  "check_phases i current [] = None"
| "check_phases i current (p # ps) =
     (if ph_index p \<noteq> i then Some (PlanInvalid ''phase index'')
      else if i < current \<and> ph_status p \<noteq> PhaseDone \<and> ph_status p \<noteq> PhaseSkipped then Some (PlanInvalid ''previous phase'')
      else if current < i \<and> ph_status p \<noteq> PhasePending then Some (PlanInvalid ''future phase'')
      else check_phases (i + 1) current ps)"

definition validate_loaded_flow_plan :: "flow_state \<Rightarrow> flow_error option" where
  "validate_loaded_flow_plan s =
    (case fs_loaded_plan s of None \<Rightarrow> None | Some p \<Rightarrow>
      let phases = pl_phases (lp_plan p); n = int (length phases) in
      if n < 1 \<or> 100 < n \<or> lp_current p < 0 \<or> n \<le> lp_current p then Some (PlanInvalid ''checkpoint'')
      else (case check_phases 0 (lp_current p) phases of Some e \<Rightarrow> Some e | None \<Rightarrow>
        let active = ph_status (phases ! nat (lp_current p)) in
        if lp_started p \<and> active \<noteq> PhaseRunning \<and> \<not> (active = PhaseFailed \<and> fs_reason s = ''deadline_exceeded'')
        then Some (PlanInvalid ''active phase'')
        else if \<not> lp_started p \<and> active \<noteq> PhaseDeferred then Some (PlanInvalid ''pending phase'')
        else if lp_require_evaluation p \<and> \<not> policy_ok p then Some (PlanInvalid ''policy'') else None))"

definition valid_scope :: "string \<Rightarrow> bool" where
  "valid_scope s \<longleftrightarrow> length s = 32 \<and> list_all (\<lambda>c. is_digit c \<or> (97 \<le> byte c \<and> byte c \<le> 102)) s"

fun check_items :: "int \<Rightarrow> int \<Rightarrow> work_item list \<Rightarrow> flow_error option" where
  "check_items i current [] = None"
| "check_items i current (w # ws) =
     (if wi_index w \<noteq> i + 1 \<or> 16 * 1024 < int (length (wi_description w)) then Some (SequentialInvalid ''item'')
      else if i < current \<and> wi_status w \<noteq> ItemDone \<and> wi_status w \<noteq> ItemFailed \<and> wi_status w \<noteq> ItemSkipped
        then Some (SequentialInvalid ''completed cursor'')
      else if i = current \<and> wi_status w \<noteq> ItemActive then Some (SequentialInvalid ''active cursor'')
      else if current < i \<and> wi_status w \<noteq> ItemPending then Some (SequentialInvalid ''future cursor'')
      else check_items (i + 1) current ws)"

definition validate_sequential_checkpoint :: "flow_env \<Rightarrow> sequential_checkpoint option \<Rightarrow> flow_error option" where
  "validate_sequential_checkpoint E c =
    (case c of None \<Rightarrow> None | Some q \<Rightarrow>
      let n = int (length (sq_items q)) in
      if 64 * 1024 < int (length (sq_input q)) \<or> n < 2 \<or> 10 < n \<or> sq_current q < 0 \<or> n \<le> sq_current q then Some (SequentialInvalid ''bounds'')
      else if sq_started q \<and> sq_active_history q = [] \<or> \<not> sq_started q \<and> (sq_active_history q \<noteq> [] \<or> sq_raw_history q \<noteq> [])
        then Some (SequentialInvalid ''start state'')
      else if \<not> valid_scope (sq_scope q) then Some (SequentialInvalid ''scope'')
      else (case check_items 0 (sq_current q) (sq_items q) of Some e \<Rightarrow> Some e | None \<Rightarrow>
        if \<not> flow_history_complete (sq_active_history q) \<or> \<not> flow_history_complete (sq_raw_history q) \<or>
           \<not> flow_history_complete (sq_completed_history q) then Some (SequentialInvalid ''unresolved tool execution'')
        else if 8 * 1024 * 1024 < fe_checkpoint_size E q then Some (SequentialInvalid ''bound'') else None))"

end
