(* ===== verification/Flow_Queue.thy ===== *)
theory Flow_Queue
  imports Flow_Checkpoint
begin

text \<open>
  The durable queue of interrupted tasks (\<open>internal/agent/flow_queue.go\<close>, \<open>flow_store_postgres.go\<close>, the
  checkpointing of \<open>flow.go\<close>).  A transaction is a function from the tables to a result or error and the
  tables it leaves; row locks and the session's lock make it atomic.  The advisory lock of a claim is
  \<open>fq_leases\<close>: the lease that holds the key.  Flags and bound stores belong to a process and vanish with it.
  Session rows are never deleted, and \<open>now\<close>, the UUID of an owner and the delay are arguments.
\<close>

subsection \<open>Tables\<close>

record session_row =
  se_id :: string
  se_folder :: string
  se_active :: bool
  se_messages :: "chat_message list"
  se_model :: string
  se_provider :: string

text \<open>\<open>sr_state\<close> is \<open>None\<close> for a text that does not decode.\<close>

record state_row =
  sr_id :: string
  sr_session :: string
  sr_state :: "flow_state option"
  sr_updated :: int

record flow_job =
  fj_id :: string
  fj_session :: string
  fj_workspace :: string
  fj_generation :: int
  fj_status :: job_status
  fj_due :: int
  fj_owner :: string
  fj_detail :: string
  fj_updated :: int

record flow_db =
  fd_sessions :: "session_row list"
  fd_states :: "state_row list"
  fd_jobs :: "flow_job list"
  fd_epochs :: "(string \<times> int) list"

definition row_of :: "('r \<Rightarrow> 'k) \<Rightarrow> 'k \<Rightarrow> 'r list \<Rightarrow> 'r option" where
  "row_of key k rows = find (\<lambda>r. key r = k) rows"

definition put_row :: "('r \<Rightarrow> 'k) \<Rightarrow> 'r \<Rightarrow> 'r list \<Rightarrow> 'r list" where
  "put_row key r rows = (if list_ex (\<lambda>x. key x = key r) rows then map (\<lambda>x. if key x = key r then r else x) rows else rows @ [r])"

abbreviation session_of :: "flow_db \<Rightarrow> string \<Rightarrow> session_row option" where
  "session_of db i \<equiv> row_of se_id i (fd_sessions db)"

abbreviation state_of :: "flow_db \<Rightarrow> string \<Rightarrow> state_row option" where
  "state_of db i \<equiv> row_of sr_id i (fd_states db)"

abbreviation job_of :: "flow_db \<Rightarrow> string \<Rightarrow> flow_job option" where
  "job_of db i \<equiv> row_of fj_id i (fd_jobs db)"

abbreviation epoch_of :: "flow_db \<Rightarrow> string \<Rightarrow> (string \<times> int) option" where
  "epoch_of db i \<equiv> row_of fst i (fd_epochs db)"

text \<open>An \<open>UPDATE ... WHERE\<close> on the jobs.\<close>

definition update_jobs :: "(flow_job \<Rightarrow> bool) \<Rightarrow> (flow_job \<Rightarrow> flow_job) \<Rightarrow> flow_db \<Rightarrow> flow_db" where
  "update_jobs P f db = db\<lparr>fd_jobs := update_rows P f (fd_jobs db)\<rparr>"

subsection \<open>Saving a checkpoint\<close>

record session_flow_store =
  ss_session :: string
  ss_workspace :: string
  ss_model :: string
  ss_provider :: string
  ss_epoch :: int

definition bind_store :: "string \<Rightarrow> string \<Rightarrow> string \<Rightarrow> string \<Rightarrow> session_flow_store" where
  "bind_store session workspace model provider =
     \<lparr>ss_session = session, ss_workspace = workspace, ss_model = model, ss_provider = provider, ss_epoch = 0\<rparr>"

text \<open>
  The status of the job a checkpoint leaves.  \<open>halted\<close>: the process is stopped or the session is paused in
  it.  \<open>ends_turn\<close> is the loop from the end of the transcript.
\<close>

definition ends_turn :: "chat_message list \<Rightarrow> bool" where
  "ends_turn ms = (case find (\<lambda>m. cm_role m \<noteq> ''system'') (rev ms) of None \<Rightarrow> False
     | Some m \<Rightarrow> cm_role m = ''assistant'' \<and> cm_calls m = [])"

definition schedulers_started :: "flow_state \<Rightarrow> bool" where
  "schedulers_started s = ((case fs_loaded_plan s of None \<Rightarrow> True | Some p \<Rightarrow> lp_started p) \<and>
     (case fs_sequential s of None \<Rightarrow> True | Some q \<Rightarrow> sq_started q))"

definition resume_status :: "bool \<Rightarrow> flow_state \<Rightarrow> job_status" where
  "resume_status halted s =
    (let st = (if has_prefix (fs_reason s) ''exceeded max steps'' \<or> fs_reason s = ''deadline_exceeded'' then JobQueued else JobPaused);
         st = (if halted then JobPaused else st);
         st = (if \<not> flow_history_complete (fs_history s) then JobManualReview else st);
         st = (if st = JobQueued \<and> ends_turn (fs_history s) \<and> schedulers_started s then JobManualReview else st)
     in if max_resumes \<le> fs_resumes s \<and> st = JobQueued then JobExhausted else st)"

definition bound_state :: "session_flow_store \<Rightarrow> bool \<Rightarrow> flow_state \<Rightarrow> flow_state" where
  "bound_state st halted s =
    (let c = s\<lparr>fs_cancel_epoch := ss_epoch st, fs_workspace := ss_workspace st,
        fs_model := (if fs_model s = [] then ss_model st else fs_model s), fs_provider := ss_provider st\<rparr>
     in c\<lparr>fs_resume_status := Some (resume_status halted c)\<rparr>)"

definition upsert_job :: "string \<Rightarrow> string \<Rightarrow> string \<Rightarrow> job_status \<Rightarrow> int \<Rightarrow> int \<Rightarrow> flow_db \<Rightarrow> flow_db option" where
  "upsert_job i session workspace status now delay db =
    (case job_of db i of
       None \<Rightarrow> Some (db\<lparr>fd_jobs := fd_jobs db @ [\<lparr>fj_id = i, fj_session = session, fj_workspace = workspace, fj_generation = 1,
         fj_status = status, fj_due = now + delay, fj_owner = [], fj_detail = [], fj_updated = now\<rparr>]\<rparr>)
     | Some j \<Rightarrow>
         if fj_session j = session \<and> fj_workspace j = workspace
         then Some (update_jobs (\<lambda>x. fj_id x = i \<and> fj_session x = session \<and> fj_workspace x = workspace) (\<lambda>x. x\<lparr>fj_generation := fj_generation x + 1, fj_status := status, fj_due := now + delay,
             fj_owner := [], fj_detail := [], fj_updated := now\<rparr>) db)
         else None)"

text \<open>\<open>Save\<close> of a bound store: the caller's state as it is then, and the tables.\<close>

definition save_flow :: "flow_env \<Rightarrow> session_flow_store \<Rightarrow> bool \<Rightarrow> flow_state \<Rightarrow> int \<Rightarrow> int \<Rightarrow> flow_db \<Rightarrow> (flow_error + flow_state) \<times> flow_db" where
  "save_flow E st halted s now delay db =
    (if fs_id s = [] \<or> fs_session s \<noteq> ss_session st then (Inl InvalidSession, db)
     else let c = bound_state st halted s in
     (case validate_sequential_checkpoint E (fs_sequential c) of Some e \<Rightarrow> (Inl e, db) | None \<Rightarrow>
     (case validate_loaded_flow_plan c of Some e \<Rightarrow> (Inl e, db) | None \<Rightarrow>
      if 16 * 1024 * 1024 < fe_state_size E c then (Inl StateTooLarge, db)
      else (case session_of db (ss_session st) of None \<Rightarrow> (Inl SessionMissing, db) | Some se \<Rightarrow>
        if \<not> se_active se then (Inl SessionInactive, db)
        else if fe_canonical E (se_folder se) \<noteq> Some (ss_workspace st) then (Inl WorkspaceChanged, db)
        else (case epoch_of db (ss_session st) of None \<Rightarrow> (Inl EpochMissing, db) | Some (_, e) \<Rightarrow>
          if e \<noteq> fs_cancel_epoch c then (Inl SupersededByStop, db)
          else if (case state_of db (fs_id c) of None \<Rightarrow> False | Some r \<Rightarrow> sr_session r \<noteq> ss_session st) then (Inl OtherSession, db)
          else
            let db1 = db\<lparr>fd_states := put_row sr_id \<lparr>sr_id = fs_id c, sr_session = ss_session st, sr_state = Some c, sr_updated = now\<rparr> (fd_states db),
                  fd_sessions := update_rows (\<lambda>x. se_id x = ss_session st)
                    (\<lambda>x. x\<lparr>se_messages := fs_history c, se_model := fs_model c, se_provider := fs_provider c\<rparr>) (fd_sessions db)\<rparr> in
            (case upsert_job (fs_id c) (ss_session st) (ss_workspace st) (resume_status halted c) now delay db1 of
               None \<Rightarrow> (Inl OwnerMismatch, db)
             | Some db2 \<Rightarrow> (Inr c, db2)))))))"

text \<open>
  \<open>Load\<close>: \<open>None\<close> for no row.  \<open>CheckpointFlow\<close> carries the resumes and the times of an earlier checkpoint over;
  a failing load (\<open>\<not> readable\<close>, a corrupt row, another session's row) counts as no earlier checkpoint.
\<close>

definition load_state :: "flow_db \<Rightarrow> string \<Rightarrow> flow_error + flow_state option" where
  "load_state db i = (case state_of db i of None \<Rightarrow> Inr None | Some r \<Rightarrow>
     (case sr_state r of None \<Rightarrow> Inl FlowCorrupt | Some s \<Rightarrow> Inr (Some s)))"

definition load_flow :: "session_flow_store \<Rightarrow> flow_db \<Rightarrow> string \<Rightarrow> flow_error + flow_state option" where
  "load_flow st db i = (case load_state db i of Inl e \<Rightarrow> Inl e | Inr None \<Rightarrow> Inr None
     | Inr (Some s) \<Rightarrow> if fs_session s \<noteq> ss_session st then Inl SessionMismatch else Inr (Some s))"

definition prior_flow :: "session_flow_store \<Rightarrow> flow_db \<Rightarrow> string \<Rightarrow> flow_state option" where
  "prior_flow st db i = (case load_flow st db i of Inl e \<Rightarrow> None | Inr q \<Rightarrow> q)"

definition checkpoint_flow :: "flow_env \<Rightarrow> session_flow_store \<Rightarrow> bool \<Rightarrow> bool \<Rightarrow> flow_state \<Rightarrow> int \<Rightarrow> int \<Rightarrow> flow_db
    \<Rightarrow> (flow_error + flow_state) \<times> flow_db" where
  "checkpoint_flow E st readable halted s now delay db =
    (if fs_id s = [] then (Inl FlowIdRequired, db)
     else let s = (case (if readable then prior_flow st db (fs_id s) else None) of
         None \<Rightarrow> s\<lparr>fs_resumes := 0, fs_resumed_at := [], fs_created := now\<rparr>
       | Some p \<Rightarrow> s\<lparr>fs_resumes := fs_resumes p, fs_resumed_at := fs_resumed_at p, fs_created := (if fs_created p \<noteq> 0 then fs_created p else now)\<rparr>)
     in save_flow E st halted s now delay db)"

definition mark_resumed :: "flow_env \<Rightarrow> session_flow_store \<Rightarrow> bool \<Rightarrow> string \<Rightarrow> int \<Rightarrow> int \<Rightarrow> flow_db \<Rightarrow> (flow_error + flow_state) \<times> flow_db" where
  "mark_resumed E st halted i now delay db =
    (case load_flow st db i of Inl e \<Rightarrow> (Inl e, db) | Inr None \<Rightarrow> (Inl FlowNotFound, db)
     | Inr (Some s) \<Rightarrow>
         if max_resumes \<le> fs_resumes s then (Inl FlowExhausted, db)
         else save_flow E st halted (s\<lparr>fs_resumes := fs_resumes s + 1, fs_resumed_at := fs_resumed_at s @ [now]\<rparr>) now delay db)"

definition delete_flow :: "session_flow_store \<Rightarrow> string \<Rightarrow> flow_db \<Rightarrow> flow_error option \<times> flow_db" where
  "delete_flow st i db = (case load_flow st db i of Inl e \<Rightarrow> (Some e, db) | Inr None \<Rightarrow> (None, db)
     | Inr (Some s) \<Rightarrow> (None, db\<lparr>fd_states := delete_rows (\<lambda>r. sr_id r = i \<and> sr_session r = ss_session st) (fd_states db)\<rparr>))"

definition list_flows :: "session_flow_store \<Rightarrow> flow_db \<Rightarrow> flow_state list" where
  "list_flows st db = filter (\<lambda>s. fs_session s = ss_session st) (List.map_filter sr_state (order_by (\<lambda>r. - sr_updated r) (fd_states db)))"

subsection \<open>The queue\<close>

definition due_flows :: "bool \<Rightarrow> int \<Rightarrow> flow_db \<Rightarrow> string list" where
  "due_flows stopped now db = (if stopped then [] else
     map fj_id (take 32 (order_by (\<lambda>j. (if fj_status j = JobQueued then 0 else 1 :: nat, fj_due j, fj_id j))
       (filter (\<lambda>j. fj_status j = JobQueued \<and> fj_due j \<le> now \<or> fj_status j = JobRunning) (fd_jobs db)))))"

record flow_lease =
  fl_key :: string
  fl_owner :: string
  fl_generation :: int
  fl_state :: flow_state

definition usable :: "flow_env \<Rightarrow> string \<Rightarrow> flow_state \<Rightarrow> bool" where
  "usable E i s \<longleftrightarrow> fe_stored_size E s \<le> 16 * 1024 * 1024 \<and> validate_loaded_flow_plan s = None \<and> fs_id s = i \<and> fs_session s \<noteq> [] \<and>
     fs_workspace s \<noteq> [] \<and> flow_history_complete (fs_history s)"

definition review_job :: "string \<Rightarrow> string \<Rightarrow> int \<Rightarrow> flow_db \<Rightarrow> flow_db" where
  "review_job i detail now = update_jobs (\<lambda>j. fj_id j = i)
     (\<lambda>j. j\<lparr>fj_status := JobManualReview, fj_owner := [], fj_detail := detail, fj_updated := now\<rparr>)"

text \<open>The transaction of \<open>Claim\<close>, from the point where the advisory lock is held.\<close>

definition claim_tx :: "flow_env \<Rightarrow> string \<Rightarrow> string \<Rightarrow> int \<Rightarrow> flow_db \<Rightarrow> (flow_error + flow_lease option) \<times> flow_db" where
  "claim_tx E i owner now db =
    (case (job_of db i, state_of db i) of
       (Some j, Some r) \<Rightarrow>
         if sr_session r \<noteq> fj_session j then
           (Inr None, update_jobs (\<lambda>j. fj_id j = i \<and> (fj_status j = JobQueued \<or> fj_status j = JobRunning))
             (\<lambda>j. j\<lparr>fj_status := JobManualReview, fj_owner := [], fj_detail := ''durable checkpoint is missing'', fj_updated := now\<rparr>) db)
         else if fj_status j = JobRunning then
           (Inr None, review_job i ''previous owner stopped during execution; inspect tool effects before retry'' now db)
         else if fj_status j \<noteq> JobQueued \<or> now < fj_due j then (Inr None, db)
         else (case sr_state r of
             None \<Rightarrow> (Inl FlowCorrupt, review_job i ''checkpoint is corrupt or contains unresolved tool execution'' now db)
           | Some s \<Rightarrow>
               if \<not> usable E i s then (Inl FlowCorrupt, review_job i ''checkpoint is corrupt or contains unresolved tool execution'' now db)
               else if max_resumes \<le> fs_resumes s then
                 (Inr None, update_jobs (\<lambda>j. fj_id j = i) (\<lambda>j. j\<lparr>fj_status := JobExhausted, fj_updated := now\<rparr>) db)
               else let s' = s\<lparr>fs_resumes := fs_resumes s + 1, fs_resumed_at := fs_resumed_at s @ [now]\<rparr> in
                 (Inr (Some \<lparr>fl_key = i, fl_owner = owner, fl_generation = fj_generation j, fl_state = s'\<rparr>),
                  update_jobs (\<lambda>j. fj_id j = i) (\<lambda>j. j\<lparr>fj_status := JobRunning, fj_owner := owner, fj_updated := now\<rparr>)
                    (db\<lparr>fd_states := update_rows (\<lambda>r. sr_id r = i) (\<lambda>r. r\<lparr>sr_state := Some s', sr_updated := now\<rparr>) (fd_states db)\<rparr>)))
     | _ \<Rightarrow> (Inr None, update_jobs (\<lambda>j. fj_id j = i \<and> (fj_status j = JobQueued \<or> fj_status j = JobRunning))
             (\<lambda>j. j\<lparr>fj_status := JobManualReview, fj_owner := [], fj_detail := ''durable checkpoint is missing'', fj_updated := now\<rparr>) db))"

text \<open>\<open>Finish\<close>: the error, and whether the checkpoint was deleted.\<close>

definition finish_lease :: "flow_lease \<Rightarrow> job_status \<Rightarrow> string \<Rightarrow> int \<Rightarrow> flow_db \<Rightarrow> flow_error option \<times> flow_db" where
  "finish_lease l status detail now db =
    (if status \<notin> {JobCompleted, JobCancelled, JobManualReview, JobFailed} then (Some InvalidFinalStatus, db)
     else if state_of db (fl_key l) = None then (None, db)
     else
       let held = (\<lambda>j. fj_id j = fl_key l \<and> fj_generation j = fl_generation l \<and> fj_owner j = fl_owner l \<and> fj_status j = JobRunning);
           db1 = update_jobs held (\<lambda>j. j\<lparr>fj_status := status, fj_detail := detail, fj_owner := [], fj_updated := now\<rparr>) db
       in (None, if list_ex held (fd_jobs db) \<and> status = JobCompleted
             then db1\<lparr>fd_states := delete_rows (\<lambda>r. sr_id r = fl_key l \<and> sr_session r = fs_session (fl_state l)) (fd_states db1)\<rparr>
             else db1))"

definition begin_turn :: "string \<Rightarrow> flow_db \<Rightarrow> int \<times> flow_db" where
  "begin_turn session db = (case epoch_of db session of Some (_, e) \<Rightarrow> (e, db)
     | None \<Rightarrow> (0, db\<lparr>fd_epochs := fd_epochs db @ [(session, 0)]\<rparr>))"

definition pause_tx :: "string \<Rightarrow> int \<Rightarrow> flow_db \<Rightarrow> flow_error option \<times> flow_db" where
  "pause_tx session now db =
    (case session_of db session of None \<Rightarrow> (Some SessionMissing, db) | Some _ \<Rightarrow>
      (None, update_jobs (\<lambda>j. fj_session j = session \<and> (fj_status j = JobQueued \<or> fj_status j = JobRunning))
         (\<lambda>j. j\<lparr>fj_status := JobPaused, fj_generation := fj_generation j + 1, fj_owner := [], fj_detail := ''explicitly stopped'', fj_updated := now\<rparr>)
         (db\<lparr>fd_epochs := put_row fst (session, case epoch_of db session of None \<Rightarrow> 1 | Some (_, e) \<Rightarrow> e + 1) (fd_epochs db)\<rparr>)))"

text \<open>\<open>PauseAll\<close> after the process is stopped: the sessions, and the pauses up to the first that fails.\<close>

definition pause_targets :: "flow_db \<Rightarrow> string list" where
  "pause_targets db = remdups (map fst (fd_epochs db) @
     map fj_session (filter (\<lambda>j. fj_status j = JobQueued \<or> fj_status j = JobRunning) (fd_jobs db)))"

fun pause_each :: "int \<Rightarrow> string list \<Rightarrow> flow_db \<Rightarrow> flow_error option \<times> flow_db" where
  "pause_each now [] db = (None, db)"
| "pause_each now (s # ss) db = (case pause_tx s now db of (Some e, db) \<Rightarrow> (Some e, db) | (None, db) \<Rightarrow> pause_each now ss db)"

definition wake :: "string \<Rightarrow> int \<Rightarrow> flow_db \<Rightarrow> flow_error option \<times> flow_db" where
  "wake i now db =
    (if list_ex (\<lambda>j. fj_id j = i \<and> fj_status j = JobQueued) (fd_jobs db)
     then (None, update_jobs (\<lambda>j. fj_id j = i \<and> fj_status j = JobQueued) (\<lambda>j. j\<lparr>fj_due := now, fj_updated := now\<rparr>) db)
     else (Some NotQueued, db))"

definition defer_busy :: "string \<Rightarrow> int \<Rightarrow> flow_db \<Rightarrow> flow_db" where
  "defer_busy i now = update_jobs (\<lambda>j. fj_id j = i \<and> fj_status j = JobQueued) (\<lambda>j. j\<lparr>fj_due := now + 1000000000\<rparr>)"

definition job_status_list :: "string \<Rightarrow> flow_db \<Rightarrow> flow_job list" where
  "job_status_list session db = take 100 (order_by (\<lambda>j. - fj_updated j) (filter (\<lambda>j. fj_session j = session) (fd_jobs db)))"

text \<open>\<open>Claim\<close>: the flags of the process, the session of the job, the advisory lock, the transaction.\<close>

definition claim_flow :: "flow_env \<Rightarrow> bool \<Rightarrow> (string \<Rightarrow> bool) \<Rightarrow> bool \<Rightarrow> string \<Rightarrow> string \<Rightarrow> int \<Rightarrow> flow_db
    \<Rightarrow> (flow_error + flow_lease option) \<times> flow_db" where
  "claim_flow E stopped paused locked i owner now db =
    (if stopped then (Inr None, db)
     else (case job_of db i of None \<Rightarrow> (Inl JobMissing, db) | Some j \<Rightarrow>
       if paused (fj_session j) \<or> locked then (Inr None, db) else claim_tx E i owner now db))"

subsection \<open>The system\<close>

text \<open>
  \<open>fq_leases\<close> are the advisory locks with the leases that hold them; a lock goes with \<open>Close\<close> or with its
  process.  The log, newest first, says what happened to the flows.  The flags of processes are read before the
  transactions, so a step takes any value for them.
\<close>

datatype flow_event = Claimed string string string | Saved string string job_status int | Fresh string | Stopped string | Turned string

record flow_system =
  fq_db :: flow_db
  fq_stores :: "nat \<Rightarrow> session_flow_store option"
  fq_leases :: "string \<Rightarrow> flow_lease option"
  fq_log :: "flow_event list"

definition checkpoint_step :: "flow_env \<Rightarrow> session_flow_store \<Rightarrow> bool \<Rightarrow> bool \<Rightarrow> flow_state \<Rightarrow> int \<Rightarrow> int \<Rightarrow> flow_system \<Rightarrow> flow_system" where
  "checkpoint_step E st readable halted s now delay q =
    (case checkpoint_flow E st readable halted s now delay (fq_db q) of
       (Inl e, db) \<Rightarrow> q\<lparr>fq_db := db\<rparr>
     | (Inr c, db) \<Rightarrow> q\<lparr>fq_db := db, fq_log := Saved (fs_id c) (ss_session st) (the (fs_resume_status c)) (fs_cancel_epoch c) #
         (if readable \<and> prior_flow st (fq_db q) (fs_id s) \<noteq> None then fq_log q else Fresh (fs_id c) # fq_log q)\<rparr>)"

definition resumed_step :: "flow_env \<Rightarrow> session_flow_store \<Rightarrow> bool \<Rightarrow> string \<Rightarrow> int \<Rightarrow> int \<Rightarrow> flow_system \<Rightarrow> flow_system" where
  "resumed_step E st halted i now delay q =
    (case mark_resumed E st halted i now delay (fq_db q) of
       (Inl e, db) \<Rightarrow> q\<lparr>fq_db := db\<rparr>
     | (Inr c, db) \<Rightarrow> q\<lparr>fq_db := db, fq_log := Saved (fs_id c) (ss_session st) (the (fs_resume_status c)) (fs_cancel_epoch c) # fq_log q\<rparr>)"

definition claim_step :: "flow_env \<Rightarrow> bool \<Rightarrow> (string \<Rightarrow> bool) \<Rightarrow> bool \<Rightarrow> string \<Rightarrow> string \<Rightarrow> int \<Rightarrow> flow_system \<Rightarrow> flow_system" where
  "claim_step E stopped paused lost i owner now q =
    (case claim_flow E stopped paused (fq_leases q i \<noteq> None) i owner now (fq_db q) of
       (Inr (Some l), db) \<Rightarrow> if lost then q\<lparr>fq_db := db\<rparr>
          else q\<lparr>fq_db := db, fq_leases := (fq_leases q)(i \<mapsto> l), fq_log := Claimed i (case job_of (fq_db q) i of None \<Rightarrow> [] | Some j \<Rightarrow> fj_session j) owner # fq_log q\<rparr>
     | (_, db) \<Rightarrow> q\<lparr>fq_db := db\<rparr>)"

definition turn_step :: "nat \<Rightarrow> session_flow_store \<Rightarrow> flow_system \<Rightarrow> flow_system" where
  "turn_step h st q = (case begin_turn (ss_session st) (fq_db q) of (e, db) \<Rightarrow>
     q\<lparr>fq_db := db, fq_stores := (fq_stores q)(h \<mapsto> st\<lparr>ss_epoch := e\<rparr>), fq_log := Turned (ss_session st) # fq_log q\<rparr>)"

definition pause_step :: "string \<Rightarrow> int \<Rightarrow> flow_system \<Rightarrow> flow_system" where
  "pause_step session now q = (case pause_tx session now (fq_db q) of
     (Some e, db) \<Rightarrow> q\<lparr>fq_db := db\<rparr> | (None, db) \<Rightarrow> q\<lparr>fq_db := db, fq_log := Stopped session # fq_log q\<rparr>)"

text \<open>
  \<open>lost\<close> in a claim: it committed, and the process did not learn that.  \<open>continue_turn\<close> sets the epoch to that
  of a checkpoint of the session.  \<open>spoil\<close> makes a checkpoint undecodable, and \<open>edit_session\<close> is what the rest of
  the program does to session rows.
\<close>

inductive flow_step :: "flow_env \<Rightarrow> flow_system \<Rightarrow> flow_system \<Rightarrow> bool" for E where
  bind: "fq_stores q h = None \<Longrightarrow> flow_step E q (q\<lparr>fq_stores := (fq_stores q)(h \<mapsto> bind_store session workspace model provider)\<rparr>)"
| checkpoint: "fq_stores q h = Some st \<Longrightarrow> flow_step E q (checkpoint_step E st readable halted s now delay q)"
| resumed: "fq_stores q h = Some st \<Longrightarrow> flow_step E q (resumed_step E st halted i now delay q)"
| forget: "fq_stores q h = Some st \<Longrightarrow> flow_step E q (q\<lparr>fq_db := snd (delete_flow st i (fq_db q))\<rparr>)"
| begin_turn: "fq_stores q h = Some st \<Longrightarrow> flow_step E q (turn_step h st q)"
| continue_turn: "fq_stores q h = Some st \<Longrightarrow> Saved i (ss_session st) status e \<in> set (fq_log q) \<Longrightarrow>
    flow_step E q (q\<lparr>fq_stores := (fq_stores q)(h \<mapsto> st\<lparr>ss_epoch := e\<rparr>)\<rparr>)"
| claim: "flow_step E q (claim_step E stopped paused lost i owner now q)"
| finish: "fq_leases q i = Some l \<Longrightarrow> flow_step E q (q\<lparr>fq_db := snd (finish_lease l status detail now (fq_db q))\<rparr>)"
| close: "flow_step E q (q\<lparr>fq_leases := (fq_leases q)(i := None)\<rparr>)"
| pause: "flow_step E q (pause_step session now q)"
| wake: "flow_step E q (q\<lparr>fq_db := snd (wake i now (fq_db q))\<rparr>)"
| postpone: "flow_step E q (q\<lparr>fq_db := defer_busy i now (fq_db q)\<rparr>)"
| spoil: "flow_step E q (q\<lparr>fq_db := (fq_db q)\<lparr>fd_states := update_rows (\<lambda>r. sr_id r = i) (\<lambda>r. r\<lparr>sr_state := None\<rparr>) (fd_states (fq_db q))\<rparr>\<rparr>)"
| edit_session: "flow_step E q (q\<lparr>fq_db := (fq_db q)\<lparr>fd_sessions := rows\<rparr>\<rparr>)"

definition flow_start :: flow_system where
  "flow_start = \<lparr>fq_db = \<lparr>fd_sessions = [], fd_states = [], fd_jobs = [], fd_epochs = []\<rparr>, fq_stores = (\<lambda>_. None),
     fq_leases = (\<lambda>_. None), fq_log = []\<rparr>"

inductive flow_reachable :: "flow_env \<Rightarrow> flow_system \<Rightarrow> bool" for E where
  start: "flow_reachable E flow_start"
| step: "flow_reachable E q \<Longrightarrow> flow_step E q q' \<Longrightarrow> flow_reachable E q'"

end
