(* ===== verification/Flow_Queue_Props.thy ===== *)
theory Flow_Queue_Props
  imports Flow_Queue
begin

text \<open>
  Properties of the queue of interrupted tasks, in every interleaving of processes: a continuation is
  never started twice without a checkpoint between, a stop of the user holds until a new turn, and
  the number of resumes is bounded.
\<close>

subsection \<open>Rows\<close>

lemma row_of_in: "row_of key k rows = Some r \<Longrightarrow> r \<in> set rows \<and> key r = k"
  using find_in_set [of "\<lambda>r. key r = k" rows r] by (simp add: row_of_def)

lemma put_row_in: "x \<in> set (put_row key r rows) \<Longrightarrow> x = r \<or> x \<in> set rows \<and> key x \<noteq> key r"
  by (auto simp: put_row_def list_ex_iff split: if_splits)

lemma row_of_put [simp]: "row_of key k (put_row key r rows) = (if k = key r then Some r else row_of key k rows)"
proof -
  have "find (\<lambda>x. key x = k) (map (\<lambda>x. if key x = key r then r else x) rows) =
      (if k = key r then if list_ex (\<lambda>x. key x = key r) rows then Some r else None else find (\<lambda>x. key x = k) rows)"
    by (induction rows) auto
  moreover have "\<not> list_ex (\<lambda>x. key x = key r) rows \<Longrightarrow> find (\<lambda>x. key x = key r) rows = None"
    by (auto simp: find_None_iff list_ex_iff)
  ultimately show ?thesis by (auto simp: row_of_def put_row_def find_append split: option.splits)
qed

lemma ball_update_rows:
  "(\<forall>y \<in> set (update_rows P f rows). Q y) \<longleftrightarrow> (\<forall>x \<in> set rows. (P x \<longrightarrow> Q (f x)) \<and> (\<not> P x \<longrightarrow> Q x))"
  by (auto simp: update_rows_def)

subsection \<open>What an operation does to the jobs\<close>

text \<open>No job becomes queued, and none that was neither queued nor running becomes running.\<close>

definition tame :: "flow_db \<Rightarrow> flow_db \<Rightarrow> bool" where
  "tame db db' \<longleftrightarrow> map fj_id (fd_jobs db') = map fj_id (fd_jobs db) \<and> (\<forall>j' \<in> set (fd_jobs db'). \<exists>j \<in> set (fd_jobs db). fj_id j' = fj_id j \<and> fj_session j' = fj_session j \<and>
     (fj_status j' = JobQueued \<longrightarrow> fj_status j = JobQueued) \<and>
     (fj_status j' = JobRunning \<longrightarrow> fj_status j = JobQueued \<or> fj_status j = JobRunning))"

lemma tame_same [simp]: "fd_jobs db' = fd_jobs db \<Longrightarrow> tame db db'"
  by (auto simp: tame_def)

lemma tame_update:
  assumes "\<And>j. fj_id (f j) = fj_id j \<and> fj_session (f j) = fj_session j" and "\<And>j. P j \<Longrightarrow> fj_status (f j) = JobQueued \<Longrightarrow> fj_status j = JobQueued"
    and "\<And>j. P j \<Longrightarrow> j \<in> set (fd_jobs db) \<Longrightarrow> fj_status (f j) = JobRunning \<Longrightarrow> fj_status j = JobQueued \<or> fj_status j = JobRunning"
  shows "tame db (update_jobs P f db)"
  unfolding tame_def
proof
  show "map fj_id (fd_jobs (update_jobs P f db)) = map fj_id (fd_jobs db)" using assms(1) by (simp add: update_jobs_def map_update_rows)
  show "\<forall>j' \<in> set (fd_jobs (update_jobs P f db)). \<exists>j \<in> set (fd_jobs db). fj_id j' = fj_id j \<and> fj_session j' = fj_session j \<and>
     (fj_status j' = JobQueued \<longrightarrow> fj_status j = JobQueued) \<and>
     (fj_status j' = JobRunning \<longrightarrow> fj_status j = JobQueued \<or> fj_status j = JobRunning)"
  proof
  fix j'
  assume "j' \<in> set (fd_jobs (update_jobs P f db))"
  then obtain j where "j \<in> set (fd_jobs db)" "j' = (if P j then f j else j)" by (auto simp: update_jobs_def in_update_rows)
  with assms show "\<exists>j \<in> set (fd_jobs db). fj_id j' = fj_id j \<and> fj_session j' = fj_session j \<and>
     (fj_status j' = JobQueued \<longrightarrow> fj_status j = JobQueued) \<and>
     (fj_status j' = JobRunning \<longrightarrow> fj_status j = JobQueued \<or> fj_status j = JobRunning)"
    by (intro bexI [of _ j]) auto
  qed
qed

lemma tame_jobs_only: "fd_jobs db1 = fd_jobs db2 \<Longrightarrow> tame db db1 \<Longrightarrow> tame db db2"
  by (simp add: tame_def)

lemma update_jobs_fields [simp]:
  "fd_states (update_jobs P f db) = fd_states db" "fd_epochs (update_jobs P f db) = fd_epochs db" "fd_sessions (update_jobs P f db) = fd_sessions db"
  "fd_jobs (update_jobs P f db) = update_rows P f (fd_jobs db)"
  by (simp_all add: update_jobs_def)

text \<open>Every operation but the two that save is tame, keeps the epochs unless it is a pause, and invents no state.\<close>

definition states_kept :: "flow_db \<Rightarrow> flow_db \<Rightarrow> bool" where
  "states_kept db db' \<longleftrightarrow> (\<forall>r \<in> set (fd_states db'). r \<in> set (fd_states db) \<or> sr_state r = None)"

lemma quiet_wake: "tame db (snd (wake i now db))" "fd_states (snd (wake i now db)) = fd_states db" "fd_epochs (snd (wake i now db)) = fd_epochs db"
  by (auto simp: wake_def intro!: tame_update)

lemma quiet_defer: "tame db (defer_busy i now db)" "fd_states (defer_busy i now db) = fd_states db" "fd_epochs (defer_busy i now db) = fd_epochs db"
  by (auto simp: defer_busy_def intro!: tame_update)

lemma quiet_delete: "tame db (snd (delete_flow st i db))" "states_kept db (snd (delete_flow st i db))" "fd_epochs (snd (delete_flow st i db)) = fd_epochs db"
  by (auto simp: delete_flow_def states_kept_def delete_rows_def split: sum.splits option.splits)

lemma quiet_finish:
  "tame db (snd (finish_lease l status detail now db))" "states_kept db (snd (finish_lease l status detail now db))"
  "fd_epochs (snd (finish_lease l status detail now db)) = fd_epochs db"
proof -
  let ?held = "\<lambda>j. fj_id j = fl_key l \<and> fj_generation j = fl_generation l \<and> fj_owner j = fl_owner l \<and> fj_status j = JobRunning"
  have "tame db (update_jobs ?held (\<lambda>j. j\<lparr>fj_status := status, fj_detail := detail, fj_owner := [], fj_updated := now\<rparr>) db)"
    if "status \<in> {JobCompleted, JobCancelled, JobManualReview, JobFailed}"
    using that by (intro tame_update) auto
  from tame_jobs_only [OF _ this] this show "tame db (snd (finish_lease l status detail now db))"
    by (simp add: finish_lease_def Let_def)
  show "states_kept db (snd (finish_lease l status detail now db))" "fd_epochs (snd (finish_lease l status detail now db)) = fd_epochs db"
    by (auto simp: finish_lease_def Let_def states_kept_def delete_rows_def)
qed

lemma quiet_pause: "tame db (snd (pause_tx s now db))" "fd_states (snd (pause_tx s now db)) = fd_states db"
proof -
  have "tame db (update_jobs (\<lambda>j. fj_session j = s \<and> (fj_status j = JobQueued \<or> fj_status j = JobRunning))
      (\<lambda>j. j\<lparr>fj_status := JobPaused, fj_generation := fj_generation j + 1, fj_owner := [], fj_detail := ''explicitly stopped'', fj_updated := now\<rparr>) db)"
    by (intro tame_update) auto
  then show "tame db (snd (pause_tx s now db))"
    by (auto simp: pause_tx_def tame_def split: option.splits)
qed (auto simp: pause_tx_def split: option.splits)

lemma quiet_review: "tame db (review_job i detail now db)" "fd_states (review_job i detail now db) = fd_states db" "fd_epochs (review_job i detail now db) = fd_epochs db"
  by (auto simp: review_job_def intro!: tame_update)

lemma quiet_missing:
  "tame db (update_jobs (\<lambda>j. fj_id j = i \<and> (fj_status j = JobQueued \<or> fj_status j = JobRunning))
     (\<lambda>j. j\<lparr>fj_status := JobManualReview, fj_owner := [], fj_detail := d, fj_updated := now\<rparr>) db)"
  by (intro tame_update) auto

lemma quiet_exhausted: "tame db (update_jobs (\<lambda>j. fj_id j = i) (\<lambda>j. j\<lparr>fj_status := JobExhausted, fj_updated := now\<rparr>) db)"
  by (intro tame_update) auto

text \<open>What a claim does: it hands out no lease and changes no state, or it starts a queued job.\<close>

lemma claim_tx_cases:
  assumes "claim_tx E i owner now db = (res, db')"
  shows "(\<forall>l. res \<noteq> Inr (Some l)) \<and> tame db db' \<and> fd_states db' = fd_states db \<and> fd_epochs db' = fd_epochs db \<or>
    (\<exists>l j r s. res = Inr (Some l) \<and> job_of db i = Some j \<and> state_of db i = Some r \<and> sr_state r = Some s \<and> sr_session r = fj_session j \<and>
       fj_status j = JobQueued \<and> fs_resumes s < max_resumes \<and> usable E i s \<and> now \<ge> fj_due j \<and>
       l = \<lparr>fl_key = i, fl_owner = owner, fl_generation = fj_generation j,
         fl_state = s\<lparr>fs_resumes := fs_resumes s + 1, fs_resumed_at := fs_resumed_at s @ [now]\<rparr>\<rparr> \<and>
       db' = update_jobs (\<lambda>j. fj_id j = i) (\<lambda>j. j\<lparr>fj_status := JobRunning, fj_owner := owner, fj_updated := now\<rparr>)
         (db\<lparr>fd_states := update_rows (\<lambda>r. sr_id r = i) (\<lambda>r. r\<lparr>sr_state := Some (fl_state l), sr_updated := now\<rparr>) (fd_states db)\<rparr>))"
proof (cases "job_of db i")
  case None
  with assms quiet_missing [where db = db and i = i] show ?thesis by (cases "state_of db i") (auto simp: claim_tx_def)
next
  case j: (Some j)
  show ?thesis
  proof (cases "state_of db i")
    case None
    with assms j quiet_missing [where db = db and i = i] show ?thesis by (auto simp: claim_tx_def)
  next
    case r: (Some r)
    consider "sr_session r \<noteq> fj_session j" | "sr_session r = fj_session j" "fj_status j = JobRunning"
      | "sr_session r = fj_session j" "fj_status j \<noteq> JobRunning" "fj_status j \<noteq> JobQueued \<or> now < fj_due j"
      | "sr_session r = fj_session j" "fj_status j = JobQueued" "fj_due j \<le> now" by fastforce
    then show ?thesis
    proof cases
      case 1
      with assms j r quiet_missing [where db = db and i = i] show ?thesis by (auto simp: claim_tx_def)
    next
      case 2
      with assms j r quiet_review [where db = db and i = i] show ?thesis by (auto simp: claim_tx_def)
    next
      case 3
      with assms j r show ?thesis by (auto simp: claim_tx_def)
    next
      case 4
      show ?thesis
      proof (cases "sr_state r")
        case None
        with 4 assms j r quiet_review [where db = db and i = i] show ?thesis by (auto simp: claim_tx_def)
      next
        case s: (Some s)
        consider "\<not> usable E i s" | "usable E i s" "max_resumes \<le> fs_resumes s" | "usable E i s" "fs_resumes s < max_resumes" by fastforce
        then show ?thesis
        proof cases
          case 1
          with 4 assms j r s quiet_review [where db = db and i = i] show ?thesis by (auto simp: claim_tx_def)
        next
          case 2
          with 4 assms j r s quiet_exhausted [where db = db and i = i] show ?thesis by (auto simp: claim_tx_def)
        next
          case c: 3
          with 4 j r s assms show ?thesis by (auto simp: claim_tx_def Let_def)
        qed
      qed
    qed
  qed
qed

text \<open>What a save does.\<close>

lemma resume_status_irrelevant [simp]: "resume_status halted (s\<lparr>fs_resume_status := x\<rparr>) = resume_status halted s"
  by (simp add: resume_status_def schedulers_started_def)

lemma bound_state_fields [simp]:
  "fs_id (bound_state st halted s) = fs_id s" "fs_session (bound_state st halted s) = fs_session s"
  "fs_resumes (bound_state st halted s) = fs_resumes s" "fs_cancel_epoch (bound_state st halted s) = ss_epoch st"
  "fs_resume_status (bound_state st halted s) = Some (resume_status halted (bound_state st halted s))"
  "fs_history (bound_state st halted s) = fs_history s"
  by (simp_all add: bound_state_def Let_def)

definition saved_row :: "session_flow_store \<Rightarrow> flow_state \<Rightarrow> int \<Rightarrow> state_row" where
  "saved_row st c now = \<lparr>sr_id = fs_id c, sr_session = ss_session st, sr_state = Some c, sr_updated = now\<rparr>"

lemma upsert_job_jobs:
  assumes "upsert_job i session workspace status now delay db = Some db'"
  shows "fd_states db' = fd_states db" "fd_epochs db' = fd_epochs db"
    "\<forall>j' \<in> set (fd_jobs db'). j' \<in> set (fd_jobs db) \<or> fj_id j' = i \<and> fj_session j' = session \<and> fj_status j' = status"
    "distinct (map fj_id (fd_jobs db)) \<Longrightarrow> distinct (map fj_id (fd_jobs db'))"
  using assms by (auto simp: upsert_job_def in_update_rows map_update_rows row_of_def find_None_iff split: option.splits if_splits)

lemma save_flow_cases:
  assumes "save_flow E st halted s now delay db = (res, db')"
  shows "(\<exists>e. res = Inl e) \<and> db' = db \<or>
    (\<exists>c k. res = Inr c \<and> c = bound_state st halted s \<and> fs_session s = ss_session st \<and> epoch_of db (ss_session st) = Some (k, ss_epoch st) \<and>
       fd_epochs db' = fd_epochs db \<and>
       (\<forall>r \<in> set (fd_states db'). r \<in> set (fd_states db) \<and> sr_id r \<noteq> fs_id s \<or> r = saved_row st c now) \<and>
       (\<forall>j' \<in> set (fd_jobs db'). j' \<in> set (fd_jobs db) \<or>
          fj_id j' = fs_id s \<and> fj_session j' = ss_session st \<and> fj_status j' = resume_status halted c) \<and>
       (distinct (map fj_id (fd_jobs db)) \<longrightarrow> distinct (map fj_id (fd_jobs db'))))"
proof -
  define c where "c = bound_state st halted s"
  define db1 where "db1 = db\<lparr>fd_states := put_row sr_id (saved_row st c now) (fd_states db),
                  fd_sessions := update_rows (\<lambda>x. se_id x = ss_session st)
                    (\<lambda>x. x\<lparr>se_messages := fs_history c, se_model := fs_model c, se_provider := fs_provider c\<rparr>) (fd_sessions db)\<rparr>"
  have eq: "save_flow E st halted s now delay db =
    (if fs_id s = [] \<or> fs_session s \<noteq> ss_session st then (Inl InvalidSession, db) else
     (case validate_sequential_checkpoint E (fs_sequential c) of Some e \<Rightarrow> (Inl e, db) | None \<Rightarrow>
     (case validate_loaded_flow_plan c of Some e \<Rightarrow> (Inl e, db) | None \<Rightarrow>
      if 16 * 1024 * 1024 < fe_state_size E c then (Inl StateTooLarge, db)
      else (case session_of db (ss_session st) of None \<Rightarrow> (Inl SessionMissing, db) | Some se \<Rightarrow>
        if \<not> se_active se then (Inl SessionInactive, db)
        else if fe_canonical E (se_folder se) \<noteq> Some (ss_workspace st) then (Inl WorkspaceChanged, db)
        else (case epoch_of db (ss_session st) of None \<Rightarrow> (Inl EpochMissing, db) | Some (_, e) \<Rightarrow>
          if e \<noteq> fs_cancel_epoch c then (Inl SupersededByStop, db)
          else if (case state_of db (fs_id c) of None \<Rightarrow> False | Some r \<Rightarrow> sr_session r \<noteq> ss_session st) then (Inl OtherSession, db)
          else (case upsert_job (fs_id c) (ss_session st) (ss_workspace st) (resume_status halted c) now delay db1 of
               None \<Rightarrow> (Inl OwnerMismatch, db) | Some db2 \<Rightarrow> (Inr c, db2)))))))"
    unfolding save_flow_def Let_def c_def [symmetric] db1_def saved_row_def by (rule refl)
  show ?thesis
  proof (cases res)
    case (Inl e)
    with assms show ?thesis unfolding eq by (auto split: if_splits option.splits)
  next
    case (Inr c')
    with assms obtain k where up: "upsert_job (fs_id c) (ss_session st) (ss_workspace st) (resume_status halted c) now delay db1 = Some db'"
      and c': "c' = c" and s: "fs_session s = ss_session st" and ep: "epoch_of db (ss_session st) = Some (k, ss_epoch st)"
      unfolding eq by (auto split: if_splits option.splits simp: c_def)
    note u = upsert_job_jobs [OF up]
    have "r \<in> set (fd_states db) \<and> sr_id r \<noteq> fs_id s \<or> r = saved_row st c now" if "r \<in> set (fd_states db')" for r
      using that u(1) put_row_in [of r sr_id "saved_row st c now" "fd_states db"] by (auto simp: db1_def saved_row_def c_def)
    moreover have "\<forall>j' \<in> set (fd_jobs db'). j' \<in> set (fd_jobs db) \<or>
        fj_id j' = fs_id s \<and> fj_session j' = ss_session st \<and> fj_status j' = resume_status halted c"
      using u(3) by (simp add: db1_def c_def)
    moreover have "fd_epochs db' = fd_epochs db" "distinct (map fj_id (fd_jobs db)) \<longrightarrow> distinct (map fj_id (fd_jobs db'))"
      using u(2,4) by (simp_all add: db1_def)
    ultimately show ?thesis using Inr c' s ep unfolding c_def [symmetric]
      by (intro disjI2 exI [of _ c] exI [of _ k]) simp
  qed
qed

subsection \<open>The invariant\<close>

text \<open>
  What the log, newest first, says: \<open>saved_since\<close> that the last save that queued the flow came after its last
  claim, \<open>turned_since\<close> that the last turn of a session began after its last stop, and \<open>claims_since\<close> how
  often the flow was claimed since a checkpoint that found no earlier one.
\<close>

fun saved_since :: "flow_event list \<Rightarrow> string \<Rightarrow> bool" where
  "saved_since [] i = False"
| "saved_since (e # es) i = (case e of
     Saved i' s st k \<Rightarrow> i' = i \<and> st = JobQueued \<or> saved_since es i
   | Claimed i' s ow \<Rightarrow> i' \<noteq> i \<and> saved_since es i
   | _ \<Rightarrow> saved_since es i)"

fun turned_since :: "flow_event list \<Rightarrow> string \<Rightarrow> bool" where
  "turned_since [] s = False"
| "turned_since (e # es) s = (case e of
     Turned s' \<Rightarrow> s' = s \<or> turned_since es s
   | Stopped s' \<Rightarrow> s' \<noteq> s \<and> turned_since es s
   | _ \<Rightarrow> turned_since es s)"

fun claims_since :: "flow_event list \<Rightarrow> string \<Rightarrow> int" where
  "claims_since [] i = 0"
| "claims_since (e # es) i = (case e of
     Claimed i' s ow \<Rightarrow> claims_since es i + (if i' = i then 1 else 0)
   | Fresh i' \<Rightarrow> if i' = i then 0 else claims_since es i
   | _ \<Rightarrow> claims_since es i)"

definition jobs_inv :: "flow_db \<Rightarrow> flow_event list \<Rightarrow> bool" where
  "jobs_inv db evs \<longleftrightarrow> distinct (map fj_id (fd_jobs db)) \<and> (\<forall>j \<in> set (fd_jobs db). (fj_status j = JobQueued \<longrightarrow> saved_since evs (fj_id j)) \<and>
     (fj_status j = JobQueued \<or> fj_status j = JobRunning \<longrightarrow> turned_since evs (fj_session j)))"

definition states_inv :: "flow_db \<Rightarrow> flow_event list \<Rightarrow> bool" where
  "states_inv db evs \<longleftrightarrow> (\<forall>r \<in> set (fd_states db). \<forall>s. sr_state r = Some s \<longrightarrow> fs_id s = sr_id r \<and>
     claims_since evs (sr_id r) \<le> fs_resumes s \<and> fs_resumes s \<le> max_resumes)"

definition epoch_fine :: "flow_db \<Rightarrow> flow_event list \<Rightarrow> string \<Rightarrow> int \<Rightarrow> bool" where
  "epoch_fine db evs s e = (case epoch_of db s of None \<Rightarrow> e = 0 | Some (_, k) \<Rightarrow> e \<le> k \<and> (e = k \<longrightarrow> turned_since evs s))"

text \<open>The epochs anyone may use: zero, those of the stores, and those of saved checkpoints.\<close>

definition known_epoch :: "flow_system \<Rightarrow> string \<Rightarrow> int \<Rightarrow> bool" where
  "known_epoch q s e \<longleftrightarrow> e = 0 \<or> (\<exists>h st. fq_stores q h = Some st \<and> ss_session st = s \<and> ss_epoch st = e) \<or>
     (\<exists>i status. Saved i s status e \<in> set (fq_log q))"

definition flow_inv :: "flow_system \<Rightarrow> bool" where
  "flow_inv q \<longleftrightarrow> jobs_inv (fq_db q) (fq_log q) \<and> states_inv (fq_db q) (fq_log q) \<and> (\<forall>i. claims_since (fq_log q) i \<le> max_resumes) \<and>
     (\<forall>s e. known_epoch q s e \<longrightarrow> epoch_fine (fq_db q) (fq_log q) s e)"

lemma jobs_inv_tame: "tame db db' \<Longrightarrow> jobs_inv db evs \<Longrightarrow> jobs_inv db' evs"
  unfolding tame_def jobs_inv_def by (metis (no_types, opaque_lifting))

lemma states_inv_kept: "states_kept db db' \<Longrightarrow> states_inv db evs \<Longrightarrow> states_inv db' evs"
  unfolding states_kept_def states_inv_def by fastforce

lemma flow_inv_quiet:
  assumes "flow_inv q" and "tame (fq_db q) db" and "states_kept (fq_db q) db" and "fd_epochs db = fd_epochs (fq_db q)"
  shows "flow_inv (q\<lparr>fq_db := db\<rparr>)"
proof -
  have "known_epoch (q\<lparr>fq_db := db\<rparr>) = known_epoch q" by (simp add: known_epoch_def fun_eq_iff)
  moreover have "epoch_fine db = epoch_fine (fq_db q)" using assms(4) by (simp add: epoch_fine_def fun_eq_iff)
  ultimately show ?thesis using assms jobs_inv_tame states_inv_kept by (simp add: flow_inv_def)
qed

lemma states_kept_same [simp]: "fd_states db' = fd_states db \<Longrightarrow> states_kept db db'"
  by (simp add: states_kept_def)

lemma load_flow_row:
  assumes "load_flow st db i = Inr (Some s)"
  obtains r where "r \<in> set (fd_states db)" and "sr_id r = i" and "sr_state r = Some s" and "fs_session s = ss_session st"
  using assms row_of_in [of sr_id i "fd_states db"]
  by (auto simp: load_flow_def load_state_def split: sum.splits option.splits if_splits)

text \<open>A successful save: \<open>extra\<close> is what the log got before it.\<close>

lemma flow_inv_save:
  assumes inv: "flow_inv q" and st: "fq_stores q h = Some st"
    and save: "save_flow E st halted s now delay (fq_db q) = (Inr c, db)"
    and evs: "evs = fq_log q \<and> claims_since (fq_log q) (fs_id s) \<le> fs_resumes s \<or> evs = Fresh (fs_id s) # fq_log q \<and> 0 \<le> fs_resumes s"
    and max: "fs_resumes s \<le> max_resumes"
  shows "flow_inv (q\<lparr>fq_db := db, fq_log := Saved (fs_id c) (ss_session st) (the (fs_resume_status c)) (fs_cancel_epoch c) # evs\<rparr>)"
proof -
  let ?evs = "Saved (fs_id c) (ss_session st) (the (fs_resume_status c)) (fs_cancel_epoch c) # evs"
  from save_flow_cases [OF save] obtain k where c: "c = bound_state st halted s" and own: "fs_session s = ss_session st"
    and ep: "epoch_of (fq_db q) (ss_session st) = Some (k, ss_epoch st)" and eps: "fd_epochs db = fd_epochs (fq_db q)"
    and rows: "\<forall>r \<in> set (fd_states db). r \<in> set (fd_states (fq_db q)) \<and> sr_id r \<noteq> fs_id s \<or> r = saved_row st c now"
    and jobs: "\<forall>j' \<in> set (fd_jobs db). j' \<in> set (fd_jobs (fq_db q)) \<or>
          fj_id j' = fs_id s \<and> fj_session j' = ss_session st \<and> fj_status j' = resume_status halted c"
    and dist: "distinct (map fj_id (fd_jobs (fq_db q))) \<longrightarrow> distinct (map fj_id (fd_jobs db))"
    by auto
  have cf: "fs_id c = fs_id s" "fs_cancel_epoch c = ss_epoch st" "fs_resume_status c = Some (resume_status halted c)"
    "fs_resumes c = fs_resumes s" "fs_session c = fs_session s" by (simp_all add: c)
  have ss: "saved_since (fq_log q) i \<Longrightarrow> saved_since ?evs i" and ts: "turned_since ?evs x = turned_since (fq_log q) x" for i x
    using evs by auto
  have "known_epoch q (ss_session st) (ss_epoch st)" using st by (auto simp: known_epoch_def)
  with inv have "epoch_fine (fq_db q) (fq_log q) (ss_session st) (ss_epoch st)" by (simp add: flow_inv_def)
  with ep have turned: "turned_since (fq_log q) (ss_session st)" by (simp add: epoch_fine_def)
  have old: "jobs_inv (fq_db q) (fq_log q)" "states_inv (fq_db q) (fq_log q)" "\<forall>i. claims_since (fq_log q) i \<le> max_resumes"
    using inv by (simp_all add: flow_inv_def)
  have "jobs_inv db ?evs"
    unfolding jobs_inv_def
  proof (intro conjI ballI)
    show "distinct (map fj_id (fd_jobs db))" using old(1) dist by (simp add: jobs_inv_def)
    fix j
    assume j: "j \<in> set (fd_jobs db)"
    have "(fj_status j = JobQueued \<longrightarrow> saved_since ?evs (fj_id j)) \<and>
       (fj_status j = JobQueued \<or> fj_status j = JobRunning \<longrightarrow> turned_since ?evs (fj_session j))"
    proof (cases "j \<in> set (fd_jobs (fq_db q))")
      case True
      with old(1) ss show ?thesis unfolding ts jobs_inv_def by blast
    next
      case False
      with jobs j turned cf show ?thesis unfolding ts by auto
    qed
    then show "fj_status j = JobQueued \<longrightarrow> saved_since ?evs (fj_id j)"
      "fj_status j = JobQueued \<or> fj_status j = JobRunning \<longrightarrow> turned_since ?evs (fj_session j)" by blast+
  qed
  moreover have "states_inv db ?evs"
    unfolding states_inv_def
  proof (intro ballI allI impI)
    fix r x
    assume r: "r \<in> set (fd_states db)" "sr_state r = Some x"
    show "fs_id x = sr_id r \<and> claims_since ?evs (sr_id r) \<le> fs_resumes x \<and> fs_resumes x \<le> max_resumes"
    proof (cases "r = saved_row st c now")
      case True
      with r(2) evs max own cf show ?thesis by (auto simp: saved_row_def)
    next
      case False
      with rows r(1) have "r \<in> set (fd_states (fq_db q))" "sr_id r \<noteq> fs_id s" by auto
      with old(2) r(2) evs show ?thesis unfolding states_inv_def by auto
    qed
  qed
  moreover have "claims_since ?evs i \<le> max_resumes" for i using old(3) evs by (auto simp: max_resumes_def)
  moreover have "epoch_fine db ?evs x e" if "known_epoch (q\<lparr>fq_db := db, fq_log := ?evs\<rparr>) x e" for x e
  proof -
    have "known_epoch q x e" using that evs st cf(2) by (auto simp: known_epoch_def)
    with inv have "epoch_fine (fq_db q) (fq_log q) x e" by (simp add: flow_inv_def)
    then show ?thesis unfolding epoch_fine_def eps ts .
  qed
  ultimately show ?thesis by (simp add: flow_inv_def)
qed

lemma flow_inv_checkpoint:
  assumes inv: "flow_inv q" and st: "fq_stores q h = Some st"
  shows "flow_inv (checkpoint_step E st readable halted s now delay q)"
proof (cases "checkpoint_flow E st readable halted s now delay (fq_db q)")
  case (Pair res db)
  define p where "p = (if readable then prior_flow st (fq_db q) (fs_id s) else None)"
  define s' where "s' = (case p of None \<Rightarrow> s\<lparr>fs_resumes := 0, fs_resumed_at := [], fs_created := now\<rparr>
     | Some p \<Rightarrow> s\<lparr>fs_resumes := fs_resumes p, fs_resumed_at := fs_resumed_at p, fs_created := (if fs_created p \<noteq> 0 then fs_created p else now)\<rparr>)"
  have id: "fs_id s' = fs_id s" by (simp add: s'_def split: option.splits)
  show ?thesis
  proof (cases "fs_id s = []")
    case True
    with Pair have "db = fq_db q" "\<exists>e. res = Inl e" by (auto simp: checkpoint_flow_def)
    with Pair inv show ?thesis by (auto simp: checkpoint_step_def)
  next
    case False
    with Pair have save: "save_flow E st halted s' now delay (fq_db q) = (res, db)"
      by (simp add: checkpoint_flow_def p_def [symmetric] s'_def [symmetric])
    show ?thesis
    proof (cases res)
      case (Inl e)
      with save_flow_cases [OF save] have "db = fq_db q" by auto
      with Pair inv Inl show ?thesis by (simp add: checkpoint_step_def)
    next
      case (Inr c)
      have idc: "fs_id c = fs_id s" using save_flow_cases [OF save] Inr id by auto
      define evs where "evs = (if p \<noteq> None then fq_log q else Fresh (fs_id c) # fq_log q)"
      have "(evs = fq_log q \<and> claims_since (fq_log q) (fs_id s') \<le> fs_resumes s' \<or> evs = Fresh (fs_id s') # fq_log q \<and> 0 \<le> fs_resumes s') \<and>
          fs_resumes s' \<le> max_resumes"
      proof (cases p)
        case None
        then show ?thesis by (simp add: evs_def s'_def id idc max_resumes_def)
      next
        case (Some x)
        then have "load_flow st (fq_db q) (fs_id s) = Inr (Some x)"
          by (auto simp: p_def prior_flow_def split: if_splits sum.splits)
        from load_flow_row [OF this] obtain r where "r \<in> set (fd_states (fq_db q))" "sr_id r = fs_id s" "sr_state r = Some x" .
        with inv have "claims_since (fq_log q) (fs_id s) \<le> fs_resumes x" "fs_resumes x \<le> max_resumes"
          by (auto simp: flow_inv_def states_inv_def)
        with Some show ?thesis by (simp add: evs_def s'_def)
      qed
      then have g: "evs = fq_log q \<and> claims_since (fq_log q) (fs_id s') \<le> fs_resumes s' \<or> evs = Fresh (fs_id s') # fq_log q \<and> 0 \<le> fs_resumes s'"
        "fs_resumes s' \<le> max_resumes" by blast+
      have "(readable \<and> prior_flow st (fq_db q) (fs_id s) \<noteq> None) = (p \<noteq> None)" by (simp add: p_def)
      with Pair Inr flow_inv_save [OF inv st save [unfolded Inr] g] show ?thesis
        by (simp add: checkpoint_step_def evs_def)
    qed
  qed
qed

lemma flow_inv_resumed:
  assumes inv: "flow_inv q" and st: "fq_stores q h = Some st"
  shows "flow_inv (resumed_step E st halted i now delay q)"
proof (cases "load_flow st (fq_db q) i")
  case (Inl e)
  with inv show ?thesis by (simp add: resumed_step_def mark_resumed_def)
next
  case (Inr o')
  show ?thesis
  proof (cases o')
    case None
    with Inr inv show ?thesis by (simp add: resumed_step_def mark_resumed_def)
  next
    case (Some s)
    show ?thesis
    proof (cases "max_resumes \<le> fs_resumes s")
      case True
      with Inr Some inv show ?thesis by (simp add: resumed_step_def mark_resumed_def)
    next
      case False
      define s' where "s' = s\<lparr>fs_resumes := fs_resumes s + 1, fs_resumed_at := fs_resumed_at s @ [now]\<rparr>"
      obtain res db where save: "save_flow E st halted s' now delay (fq_db q) = (res, db)" by fastforce
      from Inr Some have "load_flow st (fq_db q) i = Inr (Some s)" by simp
      from load_flow_row [OF this] obtain r where r: "r \<in> set (fd_states (fq_db q))" "sr_id r = i" "sr_state r = Some s" .
      with inv have "claims_since (fq_log q) (fs_id s') \<le> fs_resumes s'" "fs_resumes s' \<le> max_resumes"
        using False by (auto simp: flow_inv_def states_inv_def s'_def max_resumes_def)
      then have g: "fq_log q = fq_log q \<and> claims_since (fq_log q) (fs_id s') \<le> fs_resumes s' \<or> fq_log q = Fresh (fs_id s') # fq_log q \<and> 0 \<le> fs_resumes s'"
        "fs_resumes s' \<le> max_resumes" by blast+
      show ?thesis
      proof (cases res)
        case (Inl e)
        with save_flow_cases [OF save] have "db = fq_db q" by auto
        with save Inl Inr Some False inv show ?thesis
          by (simp add: resumed_step_def mark_resumed_def s'_def [symmetric])
      next
        case c: (Inr c)
        with flow_inv_save [OF inv st save [unfolded c] g] save Inr Some False show ?thesis
          by (simp add: resumed_step_def mark_resumed_def s'_def [symmetric])
      qed
    qed
  qed
qed

text \<open>A claim that hands out a lease needs a save since the last one, and a turn since the last stop.\<close>

lemma claim_flow_lease:
  assumes inv: "flow_inv q" and claim: "claim_flow E stopped paused locked i owner now (fq_db q) = (Inr (Some l), db)"
  obtains j where "job_of (fq_db q) i = Some j" and "saved_since (fq_log q) i" and "turned_since (fq_log q) (fj_session j)"
    and "claims_since (fq_log q) i < max_resumes" and "tame (fq_db q) db" and "fd_epochs db = fd_epochs (fq_db q)"
    and "\<forall>j \<in> set (fd_jobs db). fj_id j = i \<longrightarrow> fj_status j = JobRunning" and "\<not> locked"
    and "\<forall>r \<in> set (fd_states db). r \<in> set (fd_states (fq_db q)) \<and> sr_id r \<noteq> i \<or>
       sr_id r = i \<and> sr_state r = Some (fl_state l) \<and> fs_id (fl_state l) = i \<and>
       fs_resumes (fl_state l) \<le> max_resumes \<and> claims_since (fq_log q) i + 1 \<le> fs_resumes (fl_state l)"
proof -
  from claim have tx: "claim_tx E i owner now (fq_db q) = (Inr (Some l), db)" and free: "\<not> locked"
    by (auto simp: claim_flow_def split: if_splits option.splits)
  from claim_tx_cases [OF tx] obtain j r s where j: "job_of (fq_db q) i = Some j" and r: "state_of (fq_db q) i = Some r" "sr_state r = Some s"
    and q: "fj_status j = JobQueued" "fs_resumes s < max_resumes" "usable E i s"
    and l: "fl_state l = s\<lparr>fs_resumes := fs_resumes s + 1, fs_resumed_at := fs_resumed_at s @ [now]\<rparr>"
    and db: "db = update_jobs (\<lambda>j. fj_id j = i) (\<lambda>j. j\<lparr>fj_status := JobRunning, fj_owner := owner, fj_updated := now\<rparr>)
         ((fq_db q)\<lparr>fd_states := update_rows (\<lambda>r. sr_id r = i) (\<lambda>r. r\<lparr>sr_state := Some (fl_state l), sr_updated := now\<rparr>) (fd_states (fq_db q))\<rparr>)"
    by auto
  have jm: "j \<in> set (fd_jobs (fq_db q))" "fj_id j = i" and rm: "r \<in> set (fd_states (fq_db q))" "sr_id r = i"
    using row_of_in [OF j] row_of_in [OF r(1)] by simp_all
  have old: "jobs_inv (fq_db q) (fq_log q)" "states_inv (fq_db q) (fq_log q)" using inv by (simp_all add: flow_inv_def)
  have "saved_since (fq_log q) i" "turned_since (fq_log q) (fj_session j)" using old(1) jm q(1) by (auto simp: jobs_inv_def)
  moreover have cl: "claims_since (fq_log q) i \<le> fs_resumes s" using old(2) rm r(2) by (auto simp: states_inv_def)
  moreover have "tame (fq_db q) db"
  proof -
    have "tame (fq_db q) (update_jobs (\<lambda>j. fj_id j = i) (\<lambda>j. j\<lparr>fj_status := JobRunning, fj_owner := owner, fj_updated := now\<rparr>) (fq_db q))"
    proof (intro tame_update)
      fix j'
      assume "fj_id j' = i" "j' \<in> set (fd_jobs (fq_db q))"
      with jm have "j' = j" using old(1) distinct_map_inj_on [of fj_id "fd_jobs (fq_db q)" j' j] by (simp add: jobs_inv_def)
      with q(1) show "fj_status j' = JobQueued \<or> fj_status j' = JobRunning" by simp
    qed auto
    then show ?thesis unfolding db tame_def by simp
  qed
  moreover have "fd_epochs db = fd_epochs (fq_db q)" by (simp add: db)
  moreover have "\<forall>j \<in> set (fd_jobs db). fj_id j = i \<longrightarrow> fj_status j = JobRunning"
    by (simp add: db ball_update_rows)
  moreover have "\<forall>r \<in> set (fd_states db). r \<in> set (fd_states (fq_db q)) \<and> sr_id r \<noteq> i \<or>
       sr_id r = i \<and> sr_state r = Some (fl_state l) \<and> fs_id (fl_state l) = i \<and>
       fs_resumes (fl_state l) \<le> max_resumes \<and> claims_since (fq_log q) i + 1 \<le> fs_resumes (fl_state l)"
  proof
    fix x
    assume "x \<in> set (fd_states db)"
    then obtain y where y: "y \<in> set (fd_states (fq_db q))"
      "x = (if sr_id y = i then y\<lparr>sr_state := Some (fl_state l), sr_updated := now\<rparr> else y)"
      unfolding db by (auto simp: in_update_rows simp del: if_split_asm)
    show "x \<in> set (fd_states (fq_db q)) \<and> sr_id x \<noteq> i \<or>
       sr_id x = i \<and> sr_state x = Some (fl_state l) \<and> fs_id (fl_state l) = i \<and>
       fs_resumes (fl_state l) \<le> max_resumes \<and> claims_since (fq_log q) i + 1 \<le> fs_resumes (fl_state l)"
      using y q(2,3) cl by (cases "sr_id y = i") (simp_all add: l usable_def)
  qed
  moreover have "claims_since (fq_log q) i < max_resumes" using cl q(2) by simp
  ultimately show ?thesis using that [OF j] free by blast
qed

lemma claim_flow_quiet:
  assumes "claim_flow E stopped paused locked i owner now db = (res, db')" and "\<forall>l. res \<noteq> Inr (Some l)"
  shows "tame db db'" and "states_kept db db'" and "fd_epochs db' = fd_epochs db"
proof -
  have "db' = db \<or> claim_tx E i owner now db = (res, db')"
    using assms(1) by (auto simp: claim_flow_def split: if_splits option.splits)
  then show "tame db db'" "states_kept db db'" "fd_epochs db' = fd_epochs db"
    using claim_tx_cases [of E i owner now db res db'] assms(2) by auto
qed

lemma flow_inv_claim:
  assumes inv: "flow_inv q"
  shows "flow_inv (claim_step E stopped paused lost i owner now q)"
proof (cases "claim_flow E stopped paused (fq_leases q i \<noteq> None) i owner now (fq_db q)")
  case (Pair res db)
  show ?thesis
  proof (cases "\<forall>l. res \<noteq> Inr (Some l)")
    case True
    have "claim_step E stopped paused lost i owner now q = q\<lparr>fq_db := db\<rparr>"
      using Pair True by (auto simp: claim_step_def split: sum.splits option.splits)
    with flow_inv_quiet [OF inv claim_flow_quiet [OF Pair True]] show ?thesis by simp
  next
    case False
    then obtain l where l: "res = Inr (Some l)" by blast
    from claim_flow_lease [OF inv Pair [unfolded l]] obtain j where j: "job_of (fq_db q) i = Some j"
      and s: "saved_since (fq_log q) i" "turned_since (fq_log q) (fj_session j)" "claims_since (fq_log q) i < max_resumes"
      and db: "tame (fq_db q) db" "fd_epochs db = fd_epochs (fq_db q)"
        "\<forall>j \<in> set (fd_jobs db). fj_id j = i \<longrightarrow> fj_status j = JobRunning"
      and rows: "\<forall>r \<in> set (fd_states db). r \<in> set (fd_states (fq_db q)) \<and> sr_id r \<noteq> i \<or>
       sr_id r = i \<and> sr_state r = Some (fl_state l) \<and> fs_id (fl_state l) = i \<and>
       fs_resumes (fl_state l) \<le> max_resumes \<and> claims_since (fq_log q) i + 1 \<le> fs_resumes (fl_state l)" .
    have old: "jobs_inv (fq_db q) (fq_log q)" "states_inv (fq_db q) (fq_log q)" "\<forall>i. claims_since (fq_log q) i \<le> max_resumes"
      using inv by (simp_all add: flow_inv_def)
    let ?evs = "Claimed i (fj_session j) owner # fq_log q"
    have new: "jobs_inv db (fq_log q)" by (rule jobs_inv_tame [OF db(1) old(1)])
    have "jobs_inv db ?evs" using new db(3) by (auto simp: jobs_inv_def)
    moreover have "states_inv db ?evs" using rows old(2) by (auto simp: states_inv_def)
    moreover have "\<forall>x. claims_since ?evs x \<le> max_resumes" using old(3) s(3) by auto
    moreover have "epoch_fine db ?evs x e" if "epoch_fine (fq_db q) (fq_log q) x e" for x e
      using that db(2) by (auto simp: epoch_fine_def split: option.splits)
    moreover have "states_inv db (fq_log q)"
      unfolding states_inv_def
    proof (intro ballI allI impI)
      fix r s
      assume "r \<in> set (fd_states db)" "sr_state r = Some s"
      with rows old(2) show "fs_id s = sr_id r \<and> claims_since (fq_log q) (sr_id r) \<le> fs_resumes s \<and> fs_resumes s \<le> max_resumes"
        unfolding states_inv_def by fastforce
    qed
    moreover have "epoch_fine db (fq_log q) x e" if "epoch_fine (fq_db q) (fq_log q) x e" for x e
      using that db(2) by (auto simp: epoch_fine_def split: option.splits)
    ultimately show ?thesis using Pair l j inv new by (auto simp: claim_step_def flow_inv_def known_epoch_def)
  qed
qed

lemma flow_inv_turn:
  assumes inv: "flow_inv q" and st: "fq_stores q h = Some st"
  shows "flow_inv (turn_step h st q)"
proof (cases "begin_turn (ss_session st) (fq_db q)")
  case (Pair e db)
  let ?evs = "Turned (ss_session st) # fq_log q"
  have b: "fd_jobs db = fd_jobs (fq_db q)" "fd_states db = fd_states (fq_db q)"
    "\<exists>x. epoch_of db (ss_session st) = Some (x, e)" "s \<noteq> ss_session st \<Longrightarrow> epoch_of db s = epoch_of (fq_db q) s"
    "epoch_of (fq_db q) (ss_session st) = None \<Longrightarrow> e = 0" "epoch_of (fq_db q) (ss_session st) = Some (x, k) \<Longrightarrow> k = e" for s x k
    using Pair by (auto simp: begin_turn_def row_of_def find_append split: option.splits)
  have "jobs_inv db ?evs" "states_inv db ?evs" "\<forall>i. claims_since ?evs i \<le> max_resumes"
    using inv b(1,2) by (auto simp: flow_inv_def jobs_inv_def states_inv_def)
  moreover have "epoch_fine db ?evs s n" if "known_epoch (turn_step h st q) s n" for s n
  proof -
    have k: "known_epoch q s n \<or> s = ss_session st \<and> n = e"
      using that Pair by (auto simp: turn_step_def known_epoch_def split: if_splits)
    show ?thesis
    proof (cases "s = ss_session st")
      case True
      have "n \<le> e"
      proof (cases "n = e")
        case False
        with k inv have "epoch_fine (fq_db q) (fq_log q) s n" by (simp add: flow_inv_def)
        with b(5,6) True show ?thesis by (cases "epoch_of (fq_db q) (ss_session st)") (auto simp: epoch_fine_def)
      qed simp
      with b(3) True show ?thesis by (auto simp: epoch_fine_def)
    next
      case False
      with k inv have "epoch_fine (fq_db q) (fq_log q) s n" by (simp add: flow_inv_def)
      with b(4) [OF False] False show ?thesis by (auto simp: epoch_fine_def split: option.splits)
    qed
  qed
  ultimately show ?thesis using Pair by (simp add: flow_inv_def turn_step_def)
qed

lemma flow_inv_pause:
  assumes inv: "flow_inv q"
  shows "flow_inv (pause_step session now q)"
proof (cases "session_of (fq_db q) session")
  case None
  with inv show ?thesis by (simp add: pause_step_def pause_tx_def)
next
  case (Some se)
  define db where "db = snd (pause_tx session now (fq_db q))"
  have step: "pause_step session now q = q\<lparr>fq_db := db, fq_log := Stopped session # fq_log q\<rparr>"
    using Some by (simp add: pause_step_def pause_tx_def db_def)
  let ?evs = "Stopped session # fq_log q"
  note t = quiet_pause [where db = "fq_db q" and s = session and now = now, folded db_def]
  have "jobs_inv db (fq_log q)" using jobs_inv_tame [OF t(1)] inv by (simp add: flow_inv_def)
  moreover have "\<forall>j \<in> set (fd_jobs db). fj_session j = session \<longrightarrow> fj_status j \<noteq> JobQueued \<and> fj_status j \<noteq> JobRunning"
    using Some by (simp add: db_def pause_tx_def ball_update_rows)
  ultimately have "jobs_inv db ?evs" by (auto simp: jobs_inv_def)
  moreover have "states_inv db ?evs" "\<forall>i. claims_since ?evs i \<le> max_resumes"
    using inv t(2) by (auto simp: flow_inv_def states_inv_def)
  moreover have "epoch_fine db ?evs s n" if "known_epoch (q\<lparr>fq_db := db, fq_log := ?evs\<rparr>) s n" for s n
  proof -
    have "known_epoch q s n" using that by (auto simp: known_epoch_def)
    with inv have old: "epoch_fine (fq_db q) (fq_log q) s n" by (simp add: flow_inv_def)
    have "epoch_of db s = (if s = session then Some (session, case epoch_of (fq_db q) session of None \<Rightarrow> 1 | Some (_, e) \<Rightarrow> e + 1)
        else epoch_of (fq_db q) s)"
      using Some by (simp add: db_def pause_tx_def)
    with old show ?thesis by (auto simp: epoch_fine_def split: option.splits)
  qed
  ultimately show ?thesis unfolding step by (simp add: flow_inv_def)
qed

lemma flow_inv_store:
  assumes "flow_inv q" and "known_epoch q (ss_session st) (ss_epoch st)"
  shows "flow_inv (q\<lparr>fq_stores := (fq_stores q)(h \<mapsto> st)\<rparr>)"
proof -
  have "known_epoch q s e" if "known_epoch (q\<lparr>fq_stores := (fq_stores q)(h \<mapsto> st)\<rparr>) s e" for s e
    using that assms(2) by (auto simp: known_epoch_def split: if_splits)
  with assms(1) show ?thesis by (auto simp: flow_inv_def)
qed

lemma flow_inv_leases [simp]: "flow_inv (q\<lparr>fq_leases := x\<rparr>) = flow_inv q"
  by (simp add: flow_inv_def known_epoch_def)

lemma flow_inv_step: "flow_step E q q' \<Longrightarrow> flow_inv q \<Longrightarrow> flow_inv q'"
proof (induction rule: flow_step.induct)
  case (bind q h session workspace model provider)
  show ?case by (rule flow_inv_store [OF bind(2)]) (simp add: bind_store_def known_epoch_def)
next
  case (continue_turn q h st i status e)
  show ?case by (rule flow_inv_store [OF continue_turn(3)]) (use continue_turn(2) in \<open>auto simp: known_epoch_def\<close>)
next
  case (forget q h st i)
  show ?case by (rule flow_inv_quiet [OF forget(2) quiet_delete])
next
  case (finish q i l status detail now)
  show ?case by (rule flow_inv_quiet [OF finish(2) quiet_finish])
next
  case (wake q i now)
  show ?case by (rule flow_inv_quiet [OF wake]) (simp_all add: quiet_wake)
next
  case (postpone q i now)
  show ?case by (rule flow_inv_quiet [OF postpone]) (simp_all add: quiet_defer)
next
  case (spoil q i)
  show ?case by (rule flow_inv_quiet [OF spoil]) (auto simp: states_kept_def in_update_rows)
next
  case (edit_session q rows)
  show ?case by (rule flow_inv_quiet [OF edit_session]) simp_all
qed (simp_all add: flow_inv_checkpoint flow_inv_resumed flow_inv_claim flow_inv_turn flow_inv_pause)

lemma flow_inv_reachable: "flow_reachable E q \<Longrightarrow> flow_inv q"
proof (induction rule: flow_reachable.induct)
  case start
  show ?case by (auto simp: flow_inv_def flow_start_def jobs_inv_def states_inv_def max_resumes_def known_epoch_def epoch_fine_def row_of_def)
next
  case (step q q')
  show ?case by (rule flow_inv_step [OF step(2,3)])
qed

subsection \<open>What the log shows\<close>

lemma save_needs_turn:
  assumes "flow_inv q" and "fq_stores q h = Some st" and "save_flow E st halted s now delay (fq_db q) = (Inr c, db)"
  shows "turned_since (fq_log q) (ss_session st)"
proof -
  from save_flow_cases [OF assms(3)] obtain k where "epoch_of (fq_db q) (ss_session st) = Some (k, ss_epoch st)" by auto
  moreover have "known_epoch q (ss_session st) (ss_epoch st)" using assms(2) by (auto simp: known_epoch_def)
  with assms(1) have "epoch_fine (fq_db q) (fq_log q) (ss_session st) (ss_epoch st)" by (simp add: flow_inv_def)
  ultimately show ?thesis by (simp add: epoch_fine_def)
qed

text \<open>Every claim and every save of the log was due.\<close>

fun admitted :: "flow_event list \<Rightarrow> bool" where
  "admitted [] = True"
| "admitted (e # es) = ((case e of
     Claimed i s ow \<Rightarrow> saved_since es i \<and> turned_since es s
   | Saved i s status k \<Rightarrow> turned_since es s
   | _ \<Rightarrow> True) \<and> admitted es)"

lemma admitted_step: "flow_step E q q' \<Longrightarrow> flow_inv q \<Longrightarrow> admitted (fq_log q) \<Longrightarrow> admitted (fq_log q')"
proof (induction rule: flow_step.induct)
  case (checkpoint q h st readable halted s now delay)
  show ?case
  proof (cases "checkpoint_flow E st readable halted s now delay (fq_db q)")
    case (Pair res db)
    then show ?thesis
    proof (cases res)
      case (Inr c)
      with Pair obtain s' where "save_flow E st halted s' now delay (fq_db q) = (Inr c, db)"
        by (auto simp: checkpoint_flow_def Let_def split: if_splits)
      from save_needs_turn [OF checkpoint(2,1) this] Pair Inr checkpoint(3) show ?thesis
        by (simp add: checkpoint_step_def)
    qed (use checkpoint(3) in \<open>simp add: checkpoint_step_def\<close>)
  qed
next
  case (resumed q h st halted i now delay)
  show ?case
  proof (cases "mark_resumed E st halted i now delay (fq_db q)")
    case (Pair res db)
    then show ?thesis
    proof (cases res)
      case (Inr c)
      with Pair obtain s' where "save_flow E st halted s' now delay (fq_db q) = (Inr c, db)"
        by (auto simp: mark_resumed_def split: sum.splits option.splits if_splits)
      from save_needs_turn [OF resumed(2,1) this] Pair Inr resumed(3) show ?thesis
        by (simp add: resumed_step_def)
    qed (use resumed(3) in \<open>simp add: resumed_step_def\<close>)
  qed
next
  case (claim q stopped paused lost i owner now)
  show ?case
  proof (cases "claim_flow E stopped paused (fq_leases q i \<noteq> None) i owner now (fq_db q)")
    case (Pair res db)
    show ?thesis
    proof (cases "\<exists>l. res = Inr (Some l)")
      case True
      then obtain l where l: "res = Inr (Some l)" ..
      from claim_flow_lease [OF claim(1) Pair [unfolded l]] obtain j where "job_of (fq_db q) i = Some j"
        "saved_since (fq_log q) i" "turned_since (fq_log q) (fj_session j)" .
      with Pair l claim(2) show ?thesis by (simp add: claim_step_def)
    next
      case False
      with Pair claim(2) show ?thesis by (auto simp: claim_step_def split: sum.splits option.splits)
    qed
  qed
qed (auto simp: turn_step_def pause_step_def split: prod.splits option.splits)

lemma admitted_reachable: "flow_reachable E q \<Longrightarrow> admitted (fq_log q)"
proof (induction rule: flow_reachable.induct)
  case (step q q')
  show ?case by (rule admitted_step [OF step(2) flow_inv_reachable [OF step(1)] step(3)])
qed (simp add: flow_start_def)

lemma admitted_append: "admitted (l1 @ l2) \<Longrightarrow> admitted l2"
  by (induction l1) auto

lemma saved_since_split: "saved_since (l2 @ Claimed i s ow # l3) i \<Longrightarrow> \<exists>s' k. Saved i s' JobQueued k \<in> set l2"
proof (induction l2)
  case (Cons e l2)
  then show ?case by (cases e) auto
qed simp


lemma claims_since_count:
  "Fresh i \<notin> set l1 \<Longrightarrow> int (length (filter (\<lambda>e. case e of Claimed j s ow \<Rightarrow> j = i | _ \<Rightarrow> False) l1)) \<le> claims_since (l1 @ l2) i"
proof (induction l1)
  case Nil
  have "0 \<le> claims_since l2 i" by (induction l2) (auto split: flow_event.splits)
  then show ?case by simp
next
  case (Cons e l1)
  then show ?case by (cases e) auto
qed

text \<open>
  C31. No blind replay.  Between two claims of a flow, whoever made them, a checkpoint of that flow was
  committed that put it back into the queue: a continuation that was lost while it ran is never started
  again by the queue, so that its tool effects are not repeated.
\<close>

theorem no_blind_replay:
  assumes "flow_reachable E q" and "fq_log q = l1 @ Claimed i s ow # l2 @ Claimed i s' ow' # l3"
  shows "\<exists>s'' k. Saved i s'' JobQueued k \<in> set l2"
proof -
  have "admitted (Claimed i s ow # l2 @ Claimed i s' ow' # l3)"
    using admitted_reachable [OF assms(1)] admitted_append unfolding assms(2) by blast
  then have "saved_since (l2 @ Claimed i s' ow' # l3) i" by simp
  then show ?thesis by (rule saved_since_split)
qed


text \<open>
  C33. Resumes are bounded.  As long as no checkpoint of a flow was taken as its first, the queue claims the
  flow at most three times.
\<close>

theorem resumes_bounded:
  assumes "flow_reachable E q" and "fq_log q = l1 @ l2" and "Fresh i \<notin> set l1"
  shows "length (filter (\<lambda>e. case e of Claimed j s ow \<Rightarrow> j = i | _ \<Rightarrow> False) l1) \<le> nat max_resumes"
proof -
  have "claims_since (l1 @ l2) i \<le> max_resumes" using flow_inv_reachable [OF assms(1)] by (simp add: flow_inv_def assms(2))
  with claims_since_count [OF assms(3), of l2] show ?thesis by linarith
qed

subsection \<open>A run\<close>

definition run_env :: flow_env where
  "run_env = \<lparr>fe_checkpoint_size = (\<lambda>_. 0), fe_state_size = (\<lambda>_. 0), fe_stored_size = (\<lambda>_. 0), fe_canonical = Some\<rparr>"

definition run_store :: session_flow_store where
  "run_store = bind_store ''s'' ''/w'' ''m'' ''p''"

definition run_state :: flow_state where
  "run_state = \<lparr>fs_sequential = None, fs_loaded_plan = None, fs_resume_status = None, fs_cancel_epoch = 0, fs_workspace = [],
     fs_read_only = False, fs_id = ''f'', fs_session = ''s'', fs_user_input = ''do it'', fs_model = [], fs_provider = [],
     fs_history = [\<lparr>cm_role = ''user'', cm_content = ''do it'', cm_calls = [], cm_call_id = [], cm_attachments = []\<rparr>],
     fs_step = 50, fs_reason = ''exceeded max steps (50)'', fs_created = 0, fs_resumed_at = [], fs_resumes = 0\<rparr>"

text \<open>A turn, a checkpoint, a claim, the checkpoint of the continuation, a second claim, a stop, a new turn and its checkpoint.\<close>

definition run1 :: flow_system where
  "run1 = checkpoint_step run_env run_store True False run_state 1 5 (turn_step 0 run_store
     (flow_start\<lparr>fq_db := (fq_db flow_start)\<lparr>fd_sessions := [\<lparr>se_id = ''s'', se_folder = ''/w'', se_active = True, se_messages = [],
        se_model = [], se_provider = []\<rparr>]\<rparr>, fq_stores := (fq_stores flow_start)(0 \<mapsto> run_store)\<rparr>))"

definition run2 :: flow_system where
  "run2 = claim_step run_env False (\<lambda>_. False) False ''f'' ''o1'' 10 run1"

definition run3 :: flow_system where
  "run3 = (let q = checkpoint_step run_env run_store True False run_state 20 5 run2 in q\<lparr>fq_leases := (fq_leases q)(''f'' := None)\<rparr>)"

definition run4 :: flow_system where
  "run4 = claim_step run_env False (\<lambda>_. False) False ''f'' ''o2'' 30 run3"

definition run5 :: flow_system where
  "run5 = turn_step 0 run_store (pause_step ''s'' 40 run4)"

definition run6 :: flow_system where
  "run6 = checkpoint_step run_env (run_store\<lparr>ss_epoch := 1\<rparr>) True False run_state 50 5 run5"

lemma run1_reachable: "flow_reachable run_env run1"
proof -
  let ?q1 = "flow_start\<lparr>fq_db := (fq_db flow_start)\<lparr>fd_sessions := [\<lparr>se_id = ''s'', se_folder = ''/w'', se_active = True, se_messages = [],
        se_model = [], se_provider = []\<rparr>]\<rparr>\<rparr>"
  let ?q2 = "?q1\<lparr>fq_stores := (fq_stores ?q1)(0 \<mapsto> run_store)\<rparr>"
  have "flow_reachable run_env ?q1" by (rule flow_reachable.step [OF flow_reachable.start flow_step.edit_session])
  from flow_reachable.step [OF this flow_step.bind [where h = 0 and session = "''s''" and workspace = "''/w''" and model = "''m''" and provider = "''p''"]]
  have "flow_reachable run_env ?q2" by (simp add: flow_start_def run_store_def)
  from flow_reachable.step [OF this flow_step.begin_turn [where h = 0 and st = run_store]]
  have t: "flow_reachable run_env (turn_step 0 run_store ?q2)" by simp
  have "fq_stores (turn_step 0 run_store ?q2) 0 = Some run_store"
    by (simp add: turn_step_def begin_turn_def flow_start_def row_of_def run_store_def bind_store_def)
  from flow_reachable.step [OF t flow_step.checkpoint [OF this, where readable = True and halted = False and s = run_state and now = 1 and delay = 5]]
  show ?thesis by (simp add: run1_def)
qed

lemma checkpoint_step_stores [simp]: "fq_stores (checkpoint_step E st readable halted s now delay q) = fq_stores q"
  by (simp add: checkpoint_step_def split: prod.splits sum.splits)

lemma claim_step_stores [simp]: "fq_stores (claim_step E stopped paused lost i owner now q) = fq_stores q"
  by (simp add: claim_step_def split: prod.splits sum.splits option.splits)

lemma run_stores: "fq_stores run2 0 = Some run_store" "fq_stores run4 0 = Some run_store" "fq_stores run5 0 = Some (run_store\<lparr>ss_epoch := 1\<rparr>)"
proof -
  have "fq_stores run1 0 = Some run_store"
    by (simp add: run1_def turn_step_def begin_turn_def flow_start_def row_of_def run_store_def bind_store_def)
  then show r: "fq_stores run2 0 = Some run_store" by (simp add: run2_def)
  then show "fq_stores run4 0 = Some run_store" by (simp add: run4_def run3_def Let_def)
  have "fst (begin_turn ''s'' (fq_db (pause_step ''s'' 40 run4))) = 1" by code_simp
  then show "fq_stores run5 0 = Some (run_store\<lparr>ss_epoch := 1\<rparr>)"
    by (cases "begin_turn ''s'' (fq_db (pause_step ''s'' 40 run4))") (simp add: run5_def turn_step_def run_store_def bind_store_def)
qed

lemma run_reachable: "flow_reachable run_env run4" "flow_reachable run_env run6"
proof -
  have r2: "flow_reachable run_env run2"
    unfolding run2_def by (rule flow_reachable.step [OF run1_reachable flow_step.claim])
  have "flow_reachable run_env run3"
    unfolding run3_def Let_def
    by (rule flow_reachable.step [OF flow_reachable.step [OF r2 flow_step.checkpoint [OF run_stores(1)]] flow_step.close])
  from flow_reachable.step [OF this flow_step.claim] show r4: "flow_reachable run_env run4" unfolding run4_def .
  have p: "flow_reachable run_env (pause_step ''s'' 40 run4)" by (rule flow_reachable.step [OF r4 flow_step.pause])
  have "fq_stores (pause_step ''s'' 40 run4) 0 = Some run_store"
    by (simp add: pause_step_def run_stores split: prod.splits option.splits)
  from flow_reachable.step [OF p flow_step.begin_turn [OF this]] have r5: "flow_reachable run_env run5" unfolding run5_def .
  from flow_reachable.step [OF r5 flow_step.checkpoint [OF run_stores(3)]] show "flow_reachable run_env run6" unfolding run6_def .
qed

lemma run_logs:
  "fq_log run4 = [Claimed ''f'' ''s'' ''o2'', Saved ''f'' ''s'' JobQueued 0, Claimed ''f'' ''s'' ''o1'', Saved ''f'' ''s'' JobQueued 0, Fresh ''f'', Turned ''s'']"
  "fq_log run6 = [Saved ''f'' ''s'' JobQueued 1, Turned ''s'', Stopped ''s'', Claimed ''f'' ''s'' ''o2'', Saved ''f'' ''s'' JobQueued 0,
     Claimed ''f'' ''s'' ''o1'', Saved ''f'' ''s'' JobQueued 0, Fresh ''f'', Turned ''s'']"
  by code_simp+

lemma no_blind_replay_witness: "\<exists>s'' k. Saved ''f'' s'' JobQueued k \<in> set [Saved ''f'' ''s'' JobQueued 0] \<and> flow_reachable run_env run4"
  using no_blind_replay [OF run_reachable(1), of "[]" "''f''" "''s''" "''o2''" "[Saved ''f'' ''s'' JobQueued 0]" "''s''" "''o1''"]
  by (simp add: run_logs run_reachable)


lemma resumes_bounded_witness:
  "flow_reachable run_env run4 \<and> length (filter (\<lambda>e. case e of Claimed j s ow \<Rightarrow> j = ''f'' | _ \<Rightarrow> False) (take 4 (fq_log run4))) = 2 \<and> 2 \<le> nat max_resumes"
  using resumes_bounded [OF run_reachable(1), of "take 4 (fq_log run4)" "drop 4 (fq_log run4)" "''f''"]
  by (simp add: run_logs run_reachable)

subsection \<open>Two weaknesses\<close>

text \<open>
  \<open>CheckpointFlow\<close> takes any failure to load the earlier checkpoint for there being none, and then stores
  the flow with no resumes: the bound on them starts anew.
\<close>

lemma failed_load_resets_resumes:
  assumes "checkpoint_flow E st False halted s now delay db = (Inr c, db')"
  shows "fs_resumes c = 0"
  using assms save_flow_cases [of E st halted "s\<lparr>fs_resumes := 0, fs_resumed_at := [], fs_created := now\<rparr>" now delay db "Inr c" db']
  by (auto simp: checkpoint_flow_def split: if_splits)

text \<open>
  The dispatcher lists running flows too and defers one whose session is busy; when that flow has just
  queued its next checkpoint, five minutes become one second.
\<close>

lemma defer_shortens_delay:
  "map fj_due (fd_jobs (fq_db run1)) = [6] \<and>
   map fj_due (fd_jobs (fq_db (checkpoint_step run_env run_store True False run_state 1 300000000000 run2))) = [300000000001] \<and>
   map fj_due (fd_jobs (defer_busy ''f'' 2 (fq_db (checkpoint_step run_env run_store True False run_state 1 300000000000 run2)))) = [1000000002]"
  by (intro conjI; code_simp)

end
