(* ===== verification/Canvas.thy ===== *)
theory Canvas
  imports Go_Text
begin

text \<open>
  The canvas document of a session (\<open>internal/web/canvas_model.go\<close>, \<open>canvas_validation.go\<close>,
  \<open>canvas_store.go\<close>): surfaces of components that are drawn from a root, updated by one action at a time.
  JSON texts are read by a parameter into trees that keep repeated member names; a second parameter is the
  length of the text of a tree and a third the normal form of a number.  The iteration order of Go's maps
  is an argument.
\<close>

subsection \<open>JSON\<close>

datatype json = JNull | JBool bool | JNum string | JStr string | JArr "json list" | JObj "(string \<times> json) list"

record canvas_env =
  ce_parse :: "string \<Rightarrow> json option"
  ce_size :: "json \<Rightarrow> int"
  ce_number :: "string \<Rightarrow> string option"
  ce_order :: "string list \<Rightarrow> string list"

lemma size_member: "(k, v) \<in> set ms \<Longrightarrow> size v < size (JObj ms)"
  by (induction ms) auto

text \<open>\<open>walkCanvasJSONDepth\<close>: no member twice, and at most 64 levels of nesting.\<close>

function (sequential) walk_json :: "nat \<Rightarrow> json \<Rightarrow> bool" where
  "walk_json d (JArr xs) = (d \<le> 64 \<and> list_all (walk_json (d + 1)) xs)"
| "walk_json d (JObj ms) = (d \<le> 64 \<and> distinct (map fst ms) \<and> list_all (walk_json (d + 1)) (map snd ms))"
| "walk_json d v = (d \<le> 64)"
  by pat_completeness auto

termination walk_json
  by (relation "measure (\<lambda>(d, v). size v)") (auto simp: less_Suc_eq_le size_list_estimation' dest: size_member)

definition canvas_object :: "canvas_env \<Rightarrow> string \<Rightarrow> (string \<times> json) list option" where
  "canvas_object E text = (case ce_parse E (trim_space text) of
     Some (JObj ms) \<Rightarrow> if walk_json 0 (JObj ms) then Some ms else None
   | _ \<Rightarrow> None)"

subsection \<open>Components and the document\<close>

record canvas_component =
  cc_id :: string
  cc_type :: string
  cc_text :: "string option"
  cc_path :: string
  cc_children :: "string list"

record canvas_surface =
  cs_id :: string
  cs_catalog :: string
  cs_root :: string
  cs_components :: "canvas_component list"
  cs_data :: "(string \<times> json) list"
  cs_rendering :: bool

record canvas_state =
  cv_session :: string
  cv_revision :: int
  cv_surfaces :: "canvas_surface list"

datatype canvas_action = CreateSurface string | SurfaceUpdate "canvas_component list" | BeginRendering string
  | DataModelUpdate "(string \<times> json) list" | DeleteSurface

type_synonym canvas_mutation = "canvas_action \<times> string"

datatype canvas_error = Invalid string | SessionNotFound | Unreadable

definition max_revision :: int where "max_revision = 9007199254740991"
definition catalog_v1 :: string where "catalog_v1 = ''overkill.canvas.v1''"
definition max_components :: nat where "max_components = 128"
definition max_depth :: nat where "max_depth = 16"
definition max_text :: int where "max_text = 16 * 1024"
definition max_data :: int where "max_data = 64 * 1024"
definition max_state :: int where "max_state = 256 * 1024"
definition max_surfaces :: nat where "max_surfaces = 16"
definition max_rendered :: nat where "max_rendered = 2048"

subsection \<open>The graph of components\<close>

type_synonym nodes = "string \<Rightarrow> canvas_component option"

definition nodes_of :: "canvas_component list \<Rightarrow> nodes" where
  "nodes_of cs i = find (\<lambda>c. cc_id c = i) cs"

datatype graph_error = MissingComponent string | ComponentCycle | TooDeep | NoFuel

text \<open>
  \<open>visit\<close>: \<open>grey\<close> are the components under way (colour 1), \<open>hs\<close> the heights of the finished ones (colour 2).
  An error ends the whole walk, which is why the colours after it do not matter.
\<close>

fun visit :: "nat \<Rightarrow> nodes \<Rightarrow> string list \<Rightarrow> (string \<times> nat) list \<Rightarrow> string \<Rightarrow> graph_error + nat \<times> (string \<times> nat) list"
  and visit_children :: "nat \<Rightarrow> nodes \<Rightarrow> string list \<Rightarrow> (string \<times> nat) list \<Rightarrow> nat \<Rightarrow> string list \<Rightarrow> graph_error + nat \<times> (string \<times> nat) list"
where
  "visit 0 g grey hs i = Inl NoFuel"
| "visit (Suc k) g grey hs i =
     (case g i of None \<Rightarrow> Inl (MissingComponent i) | Some c \<Rightarrow>
       if i \<in> set grey then Inl ComponentCycle
       else (case map_of hs i of Some h \<Rightarrow> Inr (h, hs) | None \<Rightarrow>
         (case visit_children k g (i # grey) hs 1 (cc_children c) of Inl e \<Rightarrow> Inl e | Inr (h, hs) \<Rightarrow>
            if max_depth < h then Inl TooDeep else Inr (h, (i, h) # hs))))"
| "visit_children k g grey hs h [] = Inr (h, hs)"
| "visit_children k g grey hs h (i # is) =
     (case visit k g grey hs i of Inl e \<Rightarrow> Inl e | Inr (n, hs) \<Rightarrow> visit_children k g grey hs (if h < n + 1 then n + 1 else h) is)"

text \<open>The loop over all components.\<close>

fun visit_all :: "nat \<Rightarrow> nodes \<Rightarrow> (string \<times> nat) list \<Rightarrow> string list \<Rightarrow> graph_error + (string \<times> nat) list" where
  "visit_all k g hs [] = Inr hs"
| "visit_all k g hs (i # is) = (case visit k g [] hs i of Inl e \<Rightarrow> Inl e | Inr (n, hs) \<Rightarrow> visit_all k g hs is)"

text \<open>\<open>count\<close>, with its table of counts; the loop over the children ends once the limit is passed.\<close>

fun count_nodes :: "nat \<Rightarrow> nodes \<Rightarrow> (string \<times> nat) list \<Rightarrow> string \<Rightarrow> nat \<times> (string \<times> nat) list"
  and count_children :: "nat \<Rightarrow> nodes \<Rightarrow> (string \<times> nat) list \<Rightarrow> nat \<Rightarrow> string list \<Rightarrow> nat \<times> (string \<times> nat) list"
where
  "count_nodes 0 g cs i = (0, cs)"
| "count_nodes (Suc k) g cs i =
     (case map_of cs i of Some n \<Rightarrow> (n, cs) | None \<Rightarrow>
       (case count_children k g cs 1 (case g i of None \<Rightarrow> [] | Some c \<Rightarrow> cc_children c) of (n, cs) \<Rightarrow> (n, (i, n) # cs)))"
| "count_children k g cs n [] = (n, cs)"
| "count_children k g cs n (i # is) =
     (case count_nodes k g cs i of (m, cs) \<Rightarrow>
        if max_rendered < n + m then (max_rendered + 1, cs) else count_children k g cs (n + m) is)"

definition validate_canvas_graph :: "(string list \<Rightarrow> string list) \<Rightarrow> canvas_component list \<Rightarrow> string \<Rightarrow> canvas_error option" where
  "validate_canvas_graph order cs root =
    (let g = nodes_of cs; fuel = length cs + 1 in
     if max_components < length cs then Some (Invalid ''too many components'')
     else if \<not> distinct (map cc_id cs) then Some (Invalid ''duplicate component id'')
     else if root \<noteq> [] \<and> g root = None then Some (Invalid ''rendering root does not exist'')
     else (case visit_all fuel g [] (order (map cc_id cs)) of
         Inl e \<Rightarrow> Some (Invalid ''component graph'')
       | Inr hs \<Rightarrow> if root \<noteq> [] \<and> max_rendered < fst (count_nodes fuel g [] root) then Some (Invalid ''rendered nodes'') else None))"

subsection \<open>Reading an action\<close>

definition member :: "string \<Rightarrow> (string \<times> json) list \<Rightarrow> json option" where
  "member key ms = map_of ms key"

definition canvas_identifier :: "string \<Rightarrow> bool" where
  "canvas_identifier s \<longleftrightarrow> s \<noteq> [] \<and> length s \<le> 256 \<and> trim_space s = s \<and> list_all (\<lambda>c. 32 \<le> byte c \<and> byte c \<noteq> 127) s"

text \<open>\<open>canvasFields\<close> and \<open>canvasString\<close>.\<close>

definition canvas_fields :: "json option \<Rightarrow> string list \<Rightarrow> canvas_error + (string \<times> json) list" where
  "canvas_fields v allowed = (case v of
     Some (JObj ms) \<Rightarrow>
       if \<not> walk_json 0 (JObj ms) then Inl (Invalid ''JSON'')
       else if list_all (\<lambda>m. fst m \<in> set allowed) ms then Inr ms else Inl (Invalid ''unknown field'')
   | _ \<Rightarrow> Inl (Invalid ''JSON object required''))"

definition canvas_string :: "(string \<times> json) list \<Rightarrow> string \<Rightarrow> canvas_error + string" where
  "canvas_string ms key = (case member key ms of Some (JStr s) \<Rightarrow> Inr s | _ \<Rightarrow> Inl (Invalid ''must be a string''))"

definition action_names :: "string list" where
  "action_names = [''surfaceUpdate'', ''dataModelUpdate'', ''beginRendering'', ''createSurface'', ''deleteSurface'']"

definition validate_canvas_event :: "(string \<times> json) list \<Rightarrow> string \<Rightarrow> string \<Rightarrow> canvas_error + string \<times> string" where
  "validate_canvas_event event session surface =
    (case event of
       [(action, v)] \<Rightarrow>
         if action \<notin> set action_names then Inl (Invalid ''unknown A2UI action'')
         else (case v of
             JObj ms \<Rightarrow>
               (case member ''surfaceId'' ms of
                  Some (JStr target) \<Rightarrow>
                    if \<not> canvas_identifier target then Inl (Invalid ''valid surfaceId'')
                    else if surface \<noteq> [] \<and> surface \<noteq> target then Inl (Invalid ''surfaceId disagrees'')
                    else (case member ''sessionId'' ms of None \<Rightarrow> Inr (action, target)
                      | Some s \<Rightarrow> if s = JStr session then Inr (action, target) else Inl (Invalid ''sessionId disagrees''))
                | _ \<Rightarrow> Inl (Invalid ''valid surfaceId''))
           | _ \<Rightarrow> Inl (Invalid ''action payload must be an object''))
     | _ \<Rightarrow> Inl (Invalid ''exactly one A2UI action''))"

fun pointer_ok :: "string \<Rightarrow> bool" where
  "pointer_ok [] = True"
| "pointer_ok [c] = (c \<noteq> CHR ''~'')"
| "pointer_ok (c # d # s) = (if c = CHR ''~'' then (d = CHR ''0'' \<or> d = CHR ''1'') \<and> pointer_ok s else pointer_ok (d # s))"

definition valid_canvas_pointer :: "string \<Rightarrow> bool" where
  "valid_canvas_pointer p \<longleftrightarrow> has_prefix p ''/'' \<and> length p \<le> 256 \<and> pointer_ok p"

fun strings_of :: "json list \<Rightarrow> string list option" where
  "strings_of [] = Some []"
| "strings_of (JStr s # vs) = map_option (Cons s) (strings_of vs)"
| "strings_of (JNull # vs) = map_option (Cons []) (strings_of vs)"
| "strings_of (v # vs) = None"

definition parse_canvas_component :: "json \<Rightarrow> canvas_error + canvas_component" where
  "parse_canvas_component v =
    (case canvas_fields (Some v) [''id'', ''type'', ''text'', ''textPath'', ''children''] of Inl e \<Rightarrow> Inl e | Inr ms \<Rightarrow>
    (case canvas_string ms ''id'' of Inl e \<Rightarrow> Inl (Invalid ''valid component id required'') | Inr i \<Rightarrow>
     if \<not> canvas_identifier i then Inl (Invalid ''valid component id required'') else
    (case canvas_string ms ''type'' of Inl e \<Rightarrow> Inl e | Inr ty \<Rightarrow>
     let c = \<lparr>cc_id = i, cc_type = ty, cc_text = None, cc_path = [], cc_children = []\<rparr>;
         t = member ''text'' ms \<noteq> None; p = member ''textPath'' ms \<noteq> None; ch = member ''children'' ms \<noteq> None in
     if ty = ''Text'' \<or> ty = ''Heading'' then
       if t = p \<or> ch then Inl (Invalid ''requires exactly text or textPath'')
       else if t then (case canvas_string ms ''text'' of Inl e \<Rightarrow> Inl e | Inr s \<Rightarrow>
         if max_text < int (length s) then Inl (Invalid ''text exceeds'') else Inr (c\<lparr>cc_text := Some s\<rparr>))
       else (case canvas_string ms ''textPath'' of Inl e \<Rightarrow> Inl e | Inr s \<Rightarrow>
         if valid_canvas_pointer s then Inr (c\<lparr>cc_path := s\<rparr>) else Inl (Invalid ''textPath must be a JSON pointer''))
     else if ty = ''Column'' \<or> ty = ''Row'' then
       if t \<or> p \<or> \<not> ch then Inl (Invalid ''requires children only'')
       else (case member ''children'' ms of
           Some (JArr vs) \<Rightarrow> (case strings_of vs of None \<Rightarrow> Inl (Invalid ''children'') | Some is \<Rightarrow>
             if max_components < length is then Inl (Invalid ''too many children'')
             else if list_all canvas_identifier is then Inr (c\<lparr>cc_children := is\<rparr>) else Inl (Invalid ''valid child id required''))
         | _ \<Rightarrow> Inl (Invalid ''children must be an array''))
     else if ty = ''Divider'' then (if t \<or> p \<or> ch then Inl (Invalid ''Divider has no properties'') else Inr c)
     else Inl (Invalid ''unsupported component type''))))"

fun parse_components :: "json list \<Rightarrow> canvas_error + canvas_component list" where
  "parse_components [] = Inr []"
| "parse_components (v # vs) = (case parse_canvas_component v of Inl e \<Rightarrow> Inl e | Inr c \<Rightarrow>
     (case parse_components vs of Inl e \<Rightarrow> Inl e | Inr cs \<Rightarrow> Inr (c # cs)))"

text \<open>\<open>normalizeCanvasNumbers\<close>: \<open>None\<close> for a number outside the range.\<close>

function (sequential) normalize :: "(string \<Rightarrow> string option) \<Rightarrow> json \<Rightarrow> json option" where
  "normalize f (JNum n) = map_option JNum (f n)"
| "normalize f (JArr xs) = map_option JArr (those (map (normalize f) xs))"
| "normalize f (JObj ms) = map_option (\<lambda>vs. JObj (zip (map fst ms) vs)) (those (map (normalize f) (map snd ms)))"
| "normalize f v = Some v"
  by pat_completeness auto

termination normalize
  by (relation "measure (\<lambda>(f, v). size v)") (auto simp: less_Suc_eq_le size_list_estimation' dest: size_member)

definition parse_canvas_mutation :: "canvas_env \<Rightarrow> string \<Rightarrow> string \<Rightarrow> canvas_error + canvas_mutation" where
  "parse_canvas_mutation E session line =
    (if \<not> canvas_identifier session then Inl (Invalid ''valid sessionId required'')
     else if max_state < int (length line) then Inl (Invalid ''event exceeds'')
     else (case canvas_object E line of None \<Rightarrow> Inl (Invalid ''JSON'') | Some event \<Rightarrow>
     (case validate_canvas_event event session [] of Inl e \<Rightarrow> Inl e | Inr (action, target) \<Rightarrow>
      let own = (if action = ''createSurface'' then [''catalog''] else if action = ''surfaceUpdate'' then [''components'']
        else if action = ''beginRendering'' then [''root''] else if action = ''dataModelUpdate'' then [''contents''] else []) in
     (case canvas_fields (member action event) ([''surfaceId'', ''sessionId''] @ own) of Inl e \<Rightarrow> Inl e | Inr ms \<Rightarrow>
      if action = ''createSurface'' then
        (case canvas_string ms ''catalog'' of Inl e \<Rightarrow> Inl e | Inr c \<Rightarrow>
          if c = catalog_v1 then Inr (CreateSurface c, target) else Inl (Invalid ''unsupported catalog''))
      else if action = ''beginRendering'' then
        (case canvas_string ms ''root'' of Inl e \<Rightarrow> Inl e | Inr r \<Rightarrow>
          if canvas_identifier r then Inr (BeginRendering r, target) else Inl (Invalid ''valid root required''))
      else if action = ''surfaceUpdate'' then
        (case member ''components'' ms of
           Some (JArr vs) \<Rightarrow>
             if max_components < length vs then Inl (Invalid ''too many components'')
             else (case parse_components vs of Inl e \<Rightarrow> Inl e | Inr cs \<Rightarrow>
               (case validate_canvas_graph (ce_order E) cs [] of Some e \<Rightarrow> Inl e | None \<Rightarrow> Inr (SurfaceUpdate cs, target)))
         | _ \<Rightarrow> Inl (Invalid ''components must be an array''))
      else if action = ''dataModelUpdate'' then
        (case member ''contents'' ms of
           Some (JObj d) \<Rightarrow>
             if \<not> walk_json 0 (JObj d) then Inl (Invalid ''JSON'')
             else (case normalize (ce_number E) (JObj d) of
                 Some (JObj d') \<Rightarrow> if max_data < ce_size E (JObj d') then Inl (Invalid ''contents exceeds'') else Inr (DataModelUpdate d', target)
               | _ \<Rightarrow> Inl (Invalid ''data number outside finite browser-safe range''))
         | _ \<Rightarrow> Inl (Invalid ''JSON object required''))
      else Inr (DeleteSurface, target)))))"

subsection \<open>Applying an action\<close>

text \<open>The segments of a pointer with their escapes undone, and the value they lead to.\<close>

fun replace_escape :: "char \<Rightarrow> char \<Rightarrow> string \<Rightarrow> string" where
  "replace_escape d r [] = []"
| "replace_escape d r [c] = [c]"
| "replace_escape d r (c # e # s) = (if c = CHR ''~'' \<and> e = d then r # replace_escape d r s else c # replace_escape d r (e # s))"

definition unescape :: "string \<Rightarrow> string" where
  "unescape s = replace_escape CHR ''0'' CHR ''~'' (replace_escape CHR ''1'' CHR ''/'' s)"

definition json_child :: "json option \<Rightarrow> string \<Rightarrow> json option" where
  "json_child v key = (case v of
     Some (JObj ms) \<Rightarrow> member key ms
   | Some (JArr xs) \<Rightarrow> (case atoi key of
       Some n \<Rightarrow> if 0 \<le> n \<and> n < int (length xs) \<and> show_int n = key then Some (xs ! nat n) else None
     | None \<Rightarrow> None)
   | _ \<Rightarrow> None)"

definition bound_value :: "(string \<times> json) list \<Rightarrow> string \<Rightarrow> json option" where
  "bound_value data path = fold (\<lambda>key v. json_child v key) (map unescape (split_on CHR ''/'' (drop 1 path))) (Some (JObj data))"

definition bound_text :: "(string \<times> json) list \<Rightarrow> string \<Rightarrow> string" where
  "bound_text data path = (case bound_value data path of Some (JStr s) \<Rightarrow> s | Some (JNum s) \<Rightarrow> s | _ \<Rightarrow> [])"

definition validate_canvas_bound_text :: "canvas_surface \<Rightarrow> bool" where
  "validate_canvas_bound_text s = list_all (\<lambda>c. cc_path c = [] \<or> int (length (bound_text (cs_data s) (cc_path c))) \<le> max_text) (cs_components s)"

text \<open>The document as JSON.\<close>

definition component_json :: "canvas_component \<Rightarrow> json" where
  "component_json c = JObj ([(''id'', JStr (cc_id c)), (''type'', JStr (cc_type c))] @
     (case cc_text c of None \<Rightarrow> [] | Some s \<Rightarrow> [(''text'', JStr s)]) @
     (if cc_path c = [] then [] else [(''textPath'', JStr (cc_path c))]) @
     (if cc_children c = [] then [] else [(''children'', JArr (map JStr (cc_children c)))]))"

definition surface_json :: "canvas_surface \<Rightarrow> json" where
  "surface_json s = JObj [(''surfaceId'', JStr (cs_id s)), (''catalog'', JStr (cs_catalog s)), (''root'', JStr (cs_root s)),
     (''components'', JArr (map component_json (cs_components s))), (''data'', JObj (cs_data s)), (''rendering'', JBool (cs_rendering s))]"

definition canvas_json :: "canvas_state \<Rightarrow> json" where
  "canvas_json s = JObj [(''sessionId'', JStr (cv_session s)), (''revision'', JNum (show_int (cv_revision s))),
     (''surfaces'', JArr (map surface_json (cv_surfaces s)))]"

definition surface_root :: "canvas_surface \<Rightarrow> string" where
  "surface_root s = (if cs_rendering s then cs_root s else [])"

text \<open>What becomes of the first surface with an id.\<close>

fun change_surface :: "string \<Rightarrow> (canvas_surface \<Rightarrow> canvas_surface list) \<Rightarrow> canvas_surface list \<Rightarrow> canvas_surface list" where
  "change_surface i f [] = []"
| "change_surface i f (s # ss) = (if cs_id s = i then f s @ ss else s # change_surface i f ss)"

definition changed_surfaces :: "canvas_env \<Rightarrow> canvas_mutation \<Rightarrow> canvas_surface list \<Rightarrow> canvas_error + canvas_surface list" where
  "changed_surfaces E m ss =
    (case (m, find (\<lambda>s. cs_id s = snd m) ss) of
       ((CreateSurface cat, i), Some s) \<Rightarrow> Inl (Invalid ''surface already exists'')
     | ((CreateSurface cat, i), None) \<Rightarrow>
         if max_surfaces \<le> length ss then Inl (Invalid ''too many surfaces'')
         else Inr (ss @ [\<lparr>cs_id = i, cs_catalog = cat, cs_root = [], cs_components = [], cs_data = [], cs_rendering = False\<rparr>])
     | (_, None) \<Rightarrow> Inl (Invalid ''surface does not exist'')
     | ((SurfaceUpdate cs, i), Some s) \<Rightarrow>
         (case validate_canvas_graph (ce_order E) cs (surface_root s) of Some e \<Rightarrow> Inl e
          | None \<Rightarrow> Inr (change_surface i (\<lambda>s. [s\<lparr>cs_components := cs\<rparr>]) ss))
     | ((DataModelUpdate d, i), Some s) \<Rightarrow> Inr (change_surface i (\<lambda>s. [s\<lparr>cs_data := d\<rparr>]) ss)
     | ((BeginRendering r, i), Some s) \<Rightarrow>
         (case validate_canvas_graph (ce_order E) (cs_components s) r of Some e \<Rightarrow> Inl e
          | None \<Rightarrow> Inr (change_surface i (\<lambda>s. [s\<lparr>cs_root := r, cs_rendering := True\<rparr>]) ss))
     | ((DeleteSurface, i), Some s) \<Rightarrow> Inr (change_surface i (\<lambda>s. []) ss))"

definition apply_canvas_mutation :: "canvas_env \<Rightarrow> canvas_mutation \<Rightarrow> canvas_state \<Rightarrow> canvas_error + canvas_state" where
  "apply_canvas_mutation E m s =
    (if cv_revision s < 0 \<or> max_revision \<le> cv_revision s then Inl (Invalid ''canvas revision exhausted or invalid'')
     else (case changed_surfaces E m (cv_surfaces s) of Inl e \<Rightarrow> Inl e | Inr ss \<Rightarrow>
       if \<not> list_all validate_canvas_bound_text ss then Inl (Invalid ''bound text exceeds'')
       else let s' = s\<lparr>cv_surfaces := ss, cv_revision := cv_revision s + 1\<rparr> in
         if max_state < ce_size E (canvas_json s') then Inl (Invalid ''state exceeds'') else Inr s'))"

subsection \<open>The store\<close>

text \<open>The sessions that exist, and the stored rows: the revision column and the document, \<open>None\<close> if it does not decode.\<close>

record canvas_db =
  cd_sessions :: "string list"
  cd_rows :: "string \<Rightarrow> (int \<times> canvas_state option) option"

definition empty_canvas :: "string \<Rightarrow> canvas_state" where
  "empty_canvas session = \<lparr>cv_session = session, cv_revision = 0, cv_surfaces = []\<rparr>"

definition stored_canvas :: "canvas_db \<Rightarrow> string \<Rightarrow> canvas_error + canvas_state" where
  "stored_canvas db session =
    (case cd_rows db session of None \<Rightarrow> Inr (empty_canvas session)
     | Some (rv, None) \<Rightarrow> Inl Unreadable
     | Some (rv, Some s) \<Rightarrow>
         if \<not> walk_json 0 (canvas_json s) \<or> cv_session s \<noteq> session \<or> cv_revision s \<noteq> rv \<or> cv_revision s < 0 \<or> max_revision < cv_revision s
         then Inl Unreadable else Inr s)"

definition get_canvas :: "canvas_db \<Rightarrow> string \<Rightarrow> canvas_error + canvas_state" where
  "get_canvas db session =
    (if \<not> canvas_identifier session then Inl (Invalid ''valid sessionId required'')
     else if session \<notin> set (cd_sessions db) then Inl SessionNotFound else stored_canvas db session)"

text \<open>\<open>mutate\<close>: no mutation is a reset.\<close>

definition mutate :: "canvas_env \<Rightarrow> string \<Rightarrow> canvas_mutation option \<Rightarrow> canvas_db \<Rightarrow> (canvas_error + canvas_state) \<times> canvas_db" where
  "mutate E session m db =
    (if \<not> canvas_identifier session then (Inl (Invalid ''valid sessionId required''), db)
     else if session \<notin> set (cd_sessions db) then (Inl SessionNotFound, db)
     else (case stored_canvas db session of Inl e \<Rightarrow> (Inl e, db) | Inr s \<Rightarrow>
       if max_revision \<le> cv_revision s then (Inl (Invalid ''canvas revision exhausted''), db)
       else (case (case m of None \<Rightarrow> Inr (s\<lparr>cv_surfaces := [], cv_revision := cv_revision s + 1\<rparr>) | Some m \<Rightarrow> apply_canvas_mutation E m s) of
           Inl e \<Rightarrow> (Inl e, db)
         | Inr s' \<Rightarrow>
             if max_state < ce_size E (canvas_json s') then (Inl (Invalid ''state exceeds''), db)
             else if \<not> walk_json 0 (canvas_json s') then (Inl (Invalid ''final state''), db)
             else (Inr s', db\<lparr>cd_rows := (cd_rows db)(session \<mapsto> (cv_revision s', Some s'))\<rparr>))))"

definition apply_canvas :: "canvas_env \<Rightarrow> string \<Rightarrow> string \<Rightarrow> canvas_db \<Rightarrow> (canvas_error + canvas_state) \<times> canvas_db" where
  "apply_canvas E session line db =
    (case parse_canvas_mutation E session line of Inl e \<Rightarrow> (Inl e, db) | Inr m \<Rightarrow> mutate E session (Some m) db)"

definition reset_canvas :: "canvas_env \<Rightarrow> string \<Rightarrow> canvas_db \<Rightarrow> (canvas_error + canvas_state) \<times> canvas_db" where
  "reset_canvas E session db = mutate E session None db"

end
