(* ===== verification/Canvas_Props.thy ===== *)
theory Canvas_Props
  imports Canvas
begin

text \<open>
  Properties of the canvas: the check of the component graph accepts exactly the graphs whose chains of
  nested components and whose drawing are small enough, stored documents stay well formed and readable,
  and revisions count the committed changes.
\<close>

subsection \<open>Chains of nested components\<close>

fun is_chain :: "nodes \<Rightarrow> string list \<Rightarrow> bool" where
  "is_chain g [] = True"
| "is_chain g [x] = (g x \<noteq> None)"
| "is_chain g (x # y # p) = ((case g x of None \<Rightarrow> False | Some c \<Rightarrow> y \<in> set (cc_children c)) \<and> is_chain g (y # p))"

lemma is_chain_append: "is_chain g (p @ [x]) \<Longrightarrow> is_chain g (x # q) \<Longrightarrow> is_chain g (p @ x # q)"
  by (induction g p rule: is_chain.induct) (auto split: option.splits)

lemma is_chain_suffix: "is_chain g (p @ q) \<Longrightarrow> is_chain g q"
proof (induction p)
  case (Cons x p)
  then show ?case by (cases "p @ q") (auto split: option.splits)
qed simp

lemma is_chain_prefix: "is_chain g (p @ q) \<Longrightarrow> is_chain g p"
proof (induction g p rule: is_chain.induct)
  case (2 g x)
  then show ?case by (cases q) (auto split: option.splits)
qed (auto split: option.splits)

lemma is_chain_nodes: "is_chain g p \<Longrightarrow> x \<in> set p \<Longrightarrow> g x \<noteq> None"
  by (induction g p rule: is_chain.induct) (auto split: option.splits)

lemma is_chain_snoc:
  "is_chain g (p @ [x]) \<Longrightarrow> g x = Some c \<Longrightarrow> y \<in> set (cc_children c) \<Longrightarrow> g y \<noteq> None \<Longrightarrow> is_chain g (p @ [x, y])"
  using is_chain_append [of g p x "[y]"] by simp

definition short_chains :: "nodes \<Rightarrow> bool" where
  "short_chains g \<longleftrightarrow> (\<forall>p. is_chain g p \<longrightarrow> length p \<le> max_depth)"

text \<open>A chain that comes back to a component can be repeated.\<close>

lemma pump:
  assumes "is_chain g (x # b @ [x])"
  shows "\<exists>p. is_chain g (x # p) \<and> n \<le> length p"
proof (induction n)
  case 0
  have "is_chain g [x]" using is_chain_suffix [of g "x # b" "[x]"] assms by simp
  then show ?case by blast
next
  case (Suc n)
  then obtain p where "is_chain g (x # p)" "n \<le> length p" by blast
  with is_chain_append [of g "x # b" x p] assms have "is_chain g (x # (b @ x # p))" "Suc n \<le> length (b @ x # p)" by simp_all
  then show ?case by blast
qed

lemma short_chain_distinct:
  assumes "short_chains g" and "is_chain g p"
  shows "distinct p"
proof (rule ccontr)
  assume "\<not> distinct p"
  then obtain a x b c where "p = a @ [x] @ b @ [x] @ c" using not_distinct_decomp by blast
  with assms(2) have "is_chain g (a @ (x # b @ [x]) @ c)" by simp
  then have "is_chain g (x # b @ [x])" using is_chain_suffix is_chain_prefix by blast
  from pump [OF this, of max_depth] obtain q where "is_chain g (x # q)" "max_depth \<le> length q" by blast
  with assms(1) show False by (fastforce simp: short_chains_def)
qed

subsection \<open>Heights\<close>

definition good_heights :: "nodes \<Rightarrow> (string \<times> nat) list \<Rightarrow> bool" where
  "good_heights g hs \<longleftrightarrow> (\<forall>x h. map_of hs x = Some h \<longrightarrow> (\<exists>c. g x = Some c \<and> 1 \<le> h \<and> h \<le> max_depth \<and>
     (\<forall>y \<in> set (cc_children c). \<exists>k. map_of hs y = Some k \<and> k < h) \<and> (h = 1 \<or> (\<exists>y \<in> set (cc_children c). map_of hs y = Some (h - 1)))))"

lemma good_heights_at:
  assumes "good_heights g hs" and "map_of hs x = Some h"
  obtains c where "g x = Some c" and "1 \<le> h" and "h \<le> max_depth" and "\<forall>y \<in> set (cc_children c). \<exists>k. map_of hs y = Some k \<and> k < h"
    and "h = 1 \<or> (\<exists>y \<in> set (cc_children c). map_of hs y = Some (h - 1))"
  using assms(1)[unfolded good_heights_def, rule_format, OF assms(2)] by blast

definition extends :: "(string \<times> nat) list \<Rightarrow> (string \<times> nat) list \<Rightarrow> bool" where
  "extends hs hs' \<longleftrightarrow> (\<forall>x h. map_of hs x = Some h \<longrightarrow> map_of hs' x = Some h)"

lemma extends_refl [simp]: "extends hs hs"
  by (simp add: extends_def)

lemma extends_trans: "extends a b \<Longrightarrow> extends b c \<Longrightarrow> extends a c"
  by (simp add: extends_def)

lemma good_heights_add:
  assumes "good_heights g hs" and "map_of hs i = None" and "g i = Some c" and "1 \<le> h" and "h \<le> max_depth"
    and "\<forall>y \<in> set (cc_children c). \<exists>k. map_of hs y = Some k \<and> k < h" and "h = 1 \<or> (\<exists>y \<in> set (cc_children c). map_of hs y = Some (h - 1))"
  shows "good_heights g ((i, h) # hs)"
proof -
  have keep: "map_of hs y = Some k \<Longrightarrow> map_of ((i, h) # hs) y = Some k" for y k using assms(2) by auto
  show ?thesis
    unfolding good_heights_def
  proof (intro allI impI)
    fix x n
    assume x: "map_of ((i, h) # hs) x = Some n"
    show "\<exists>c. g x = Some c \<and> 1 \<le> n \<and> n \<le> max_depth \<and> (\<forall>y \<in> set (cc_children c). \<exists>k. map_of ((i, h) # hs) y = Some k \<and> k < n) \<and>
       (n = 1 \<or> (\<exists>y \<in> set (cc_children c). map_of ((i, h) # hs) y = Some (n - 1)))"
    proof (cases "x = i")
      case True
      with x have "n = h" by simp
      have "\<forall>y \<in> set (cc_children c). \<exists>k. map_of ((i, h) # hs) y = Some k \<and> k < h" using assms(6) keep by blast
      moreover have "h = 1 \<or> (\<exists>y \<in> set (cc_children c). map_of ((i, h) # hs) y = Some (h - 1))" using assms(7) keep by blast
      ultimately show ?thesis using True \<open>n = h\<close> assms(3-5) by blast
    next
      case False
      with x have "map_of hs x = Some n" by simp
      with assms(1) obtain d where d: "g x = Some d" "1 \<le> n" "n \<le> max_depth" "\<forall>y \<in> set (cc_children d). \<exists>k. map_of hs y = Some k \<and> k < n"
        "n = 1 \<or> (\<exists>y \<in> set (cc_children d). map_of hs y = Some (n - 1))"
        unfolding good_heights_def by blast
      have "\<forall>y \<in> set (cc_children d). \<exists>k. map_of ((i, h) # hs) y = Some k \<and> k < n" using d(4) keep by blast
      moreover have "n = 1 \<or> (\<exists>y \<in> set (cc_children d). map_of ((i, h) # hs) y = Some (n - 1))" using d(5) keep by blast
      ultimately show ?thesis using d(1-3) by blast
    qed
  qed
qed

lemma visit_sound:
  "\<And>h hs'. visit k g grey hs i = Inr (h, hs') \<Longrightarrow> good_heights g hs \<Longrightarrow>
     good_heights g hs' \<and> extends hs hs' \<and> map_of hs' i = Some h \<and> (\<forall>x \<in> set grey. map_of hs' x = map_of hs x)"
  "\<And>h' hs'. visit_children k g grey hs h is = Inr (h', hs') \<Longrightarrow> good_heights g hs \<Longrightarrow>
     good_heights g hs' \<and> extends hs hs' \<and> h \<le> h' \<and> (\<forall>y \<in> set is. \<exists>n. map_of hs' y = Some n \<and> n < h') \<and>
     (h' = h \<or> (\<exists>y \<in> set is. map_of hs' y = Some (h' - 1))) \<and> (\<forall>x \<in> set grey. map_of hs' x = map_of hs x)"
proof (induction k g grey hs i and k g grey hs h "is" rule: visit_visit_children.induct)
  case (1 g grey hs i)
  then show ?case by simp
next
  case (2 k g grey hs i)
  from 2(2) obtain c where c: "g i = Some c" "i \<notin> set grey" by (auto split: option.splits if_splits)
  show ?case
  proof (cases "map_of hs i")
    case (Some n)
    with 2(2,3) c show ?thesis by auto
  next
    case None
    with 2(2) c obtain n hs1 where vc: "visit_children k g (i # grey) hs 1 (cc_children c) = Inr (n, hs1)"
      and n: "n \<le> max_depth" "h = n" "hs' = (i, n) # hs1"
      by (auto split: sum.splits if_splits)
    from 2(1) [OF c(1) c(2) None vc 2(3)] have ih: "good_heights g hs1" "extends hs hs1" "1 \<le> n"
      "\<forall>y \<in> set (cc_children c). \<exists>m. map_of hs1 y = Some m \<and> m < n"
      "n = 1 \<or> (\<exists>y \<in> set (cc_children c). map_of hs1 y = Some (n - 1))" "\<forall>x \<in> set (i # grey). map_of hs1 x = map_of hs x" by auto
    have new: "map_of hs1 i = None" using ih(6) None by simp
    have "good_heights g hs'" unfolding n(3) by (rule good_heights_add [OF ih(1) new c(1) ih(3) n(1) ih(4,5)])
    moreover have "extends hs hs'" using ih(2) new None unfolding n(3) extends_def by auto
    moreover have "\<forall>x \<in> set grey. map_of hs' x = map_of hs x" using ih(6) c(2) unfolding n(3) by auto
    ultimately show ?thesis using n by simp
  qed
next
  case (3 k g grey hs h)
  then show ?case by auto
next
  case (4 k g grey hs h i "is")
  from 4(3) obtain n hs1 where v: "visit k g grey hs i = Inr (n, hs1)"
    and vc: "visit_children k g grey hs1 (if h < n + 1 then n + 1 else h) is = Inr (h', hs')"
    by (auto split: sum.splits)
  from 4(1) [OF v 4(4)] have a: "good_heights g hs1" "extends hs hs1" "map_of hs1 i = Some n" "\<forall>x \<in> set grey. map_of hs1 x = map_of hs x" by auto
  from 4(2) [OF v refl vc a(1)] have b: "good_heights g hs'" "extends hs1 hs'" "(if h < n + 1 then n + 1 else h) \<le> h'"
    "\<forall>y \<in> set is. \<exists>n. map_of hs' y = Some n \<and> n < h'"
    "h' = (if h < n + 1 then n + 1 else h) \<or> (\<exists>y \<in> set is. map_of hs' y = Some (h' - 1))"
    "\<forall>x \<in> set grey. map_of hs' x = map_of hs1 x" by blast+
  have i: "map_of hs' i = Some n" using a(3) b(2) by (simp add: extends_def)
  have "h \<le> h'" "n < h'" using b(3) by (auto split: if_splits)
  moreover have "h' = h \<or> (\<exists>y \<in> set (i # is). map_of hs' y = Some (h' - 1))" using b(5) i by (auto split: if_splits)
  moreover have "extends hs hs'" by (rule extends_trans [OF a(2) b(2)])
  moreover have "\<forall>y \<in> set (i # is). \<exists>n. map_of hs' y = Some n \<and> n < h'" using b(4) i \<open>n < h'\<close> by auto
  ultimately show ?case using b(1,6) a(4) by auto
qed

lemma chain_height:
  "good_heights g hs \<Longrightarrow> map_of hs x = Some h \<Longrightarrow> is_chain g (x # p) \<Longrightarrow> length (x # p) \<le> h"
proof (induction p arbitrary: x h)
  case Nil
  then show ?case by (auto simp: good_heights_def)
next
  case (Cons y p)
  from Cons.prems(3) obtain c where c: "g x = Some c" "y \<in> set (cc_children c)" "is_chain g (y # p)" by (auto split: option.splits)
  from Cons.prems(1,2) c obtain k where "map_of hs y = Some k" "k < h" unfolding good_heights_def by (metis option.inject)
  with Cons.IH [OF Cons.prems(1) _ c(3)] show ?case by fastforce
qed

lemma height_chain:
  "good_heights g hs \<Longrightarrow> map_of hs x = Some h \<Longrightarrow> \<exists>p. is_chain g (x # p) \<and> length (x # p) = h"
proof (induction h arbitrary: x rule: less_induct)
  case (less h)
  obtain c where c: "g x = Some c" "1 \<le> h" "h = 1 \<or> (\<exists>y \<in> set (cc_children c). map_of hs y = Some (h - 1))"
    by (rule good_heights_at [OF less.prems])
  show ?case
  proof (cases "h = 1")
    case True
    with c show ?thesis by (intro exI [of _ "[]"]) simp
  next
    case False
    with c obtain y where y: "y \<in> set (cc_children c)" "map_of hs y = Some (h - 1)" by blast
    from less.IH [OF _ less.prems(1) y(2)] c(2) obtain p where "is_chain g (y # p)" "length (y # p) = h - 1" by auto
    with c y show ?thesis by (intro exI [of _ "y # p"]) auto
  qed
qed

subsection \<open>The walk succeeds on every graph with short chains\<close>

definition closed_graph :: "nodes \<Rightarrow> bool" where
  "closed_graph g \<longleftrightarrow> (\<forall>x c. g x = Some c \<longrightarrow> (\<forall>y \<in> set (cc_children c). g y \<noteq> None))"

lemma too_high:
  assumes "short_chains g" and "good_heights g hs" and "g i = Some c" and "y \<in> set (cc_children c)" and "map_of hs y = Some m"
  shows "m + 1 \<le> max_depth"
proof -
  from height_chain [OF assms(2,5)] obtain p where "is_chain g (y # p)" "length (y # p) = m" by blast
  with assms(3,4) have "is_chain g (i # y # p)" by simp
  with assms(1)[unfolded short_chains_def, rule_format, of "i # y # p"] \<open>length (y # p) = m\<close> show ?thesis by simp
qed

lemma visit_total:
  "closed_graph g \<Longrightarrow> short_chains g \<Longrightarrow> good_heights g hs \<Longrightarrow> is_chain g (rev grey @ [i]) \<Longrightarrow> max_depth < k + length grey \<or> n < k + length grey \<Longrightarrow>
     (\<And>p. is_chain g p \<Longrightarrow> length p \<le> n) \<Longrightarrow> \<exists>r. visit k g grey hs i = Inr r"
  "closed_graph g \<Longrightarrow> short_chains g \<Longrightarrow> good_heights g hs \<Longrightarrow> \<forall>y \<in> set is. is_chain g (rev grey @ [y]) \<Longrightarrow> max_depth < k + length grey \<or> n < k + length grey \<Longrightarrow>
     (\<And>p. is_chain g p \<Longrightarrow> length p \<le> n) \<Longrightarrow> \<exists>r. visit_children k g grey hs h is = Inr r"
proof (induction k g grey hs i and k g grey hs h "is" rule: visit_visit_children.induct)
  case (1 g grey hs i)
  from 1(6) [OF 1(4)] 1(2,4,5) have False by (fastforce simp: short_chains_def)
  then show ?case ..
next
  case (2 k g grey hs i)
  have "g i \<noteq> None" using is_chain_nodes [OF 2(5), of i] by simp
  then obtain c where c: "g i = Some c" by blast
  have i: "i \<notin> set grey" using short_chain_distinct [OF 2(3,5)] by simp
  show ?case
  proof (cases "map_of hs i")
    case (Some h)
    with c i show ?thesis by simp
  next
    case None
    have ch: "\<forall>y \<in> set (cc_children c). is_chain g (rev (i # grey) @ [y])"
      using is_chain_snoc [OF 2(5) c] 2(2) c by (auto simp: closed_graph_def)
    have fuel: "max_depth < k + length (i # grey) \<or> n < k + length (i # grey)" using 2(6) by auto
    from 2(1) [OF c i None 2(2,3,4) ch fuel 2(7)] obtain m hs1 where vc: "visit_children k g (i # grey) hs 1 (cc_children c) = Inr (m, hs1)" by fastforce
    from visit_sound(2) [OF vc 2(4)] have s: "good_heights g hs1" "m = 1 \<or> (\<exists>y \<in> set (cc_children c). map_of hs1 y = Some (m - 1))" by blast+
    have "m \<le> max_depth"
    proof (cases "m = 1")
      case False
      with s(2) obtain y where "y \<in> set (cc_children c)" "map_of hs1 y = Some (m - 1)" by blast
      from too_high [OF 2(3) s(1) c this] show ?thesis by simp
    qed (simp add: max_depth_def)
    with vc c i None show ?thesis by simp
  qed
next
  case (3 k g grey hs h)
  then show ?case by simp
next
  case (4 k g grey hs h i "is")
  have i: "is_chain g (rev grey @ [i])" and r: "\<forall>y \<in> set is. is_chain g (rev grey @ [y])" using 4(6) by auto
  from 4(1) [OF 4(3,4,5) i 4(7,8)] obtain m hs1 where v: "visit k g grey hs i = Inr (m, hs1)" by fastforce
  from visit_sound(1) [OF v 4(5)] have g: "good_heights g hs1" by blast
  from 4(2) [OF v refl 4(3,4) g r 4(7,8)] v show ?case by simp
qed

lemma visit_all_sound:
  "visit_all k g hs is = Inr hs' \<Longrightarrow> good_heights g hs \<Longrightarrow> good_heights g hs' \<and> extends hs hs' \<and> (\<forall>i \<in> set is. map_of hs' i \<noteq> None)"
proof (induction k g hs "is" rule: visit_all.induct)
  case (2 k g hs i "is")
  from 2(2) obtain n hs1 where v: "visit k g [] hs i = Inr (n, hs1)" and r: "visit_all k g hs1 is = Inr hs'" by (auto split: sum.splits)
  from visit_sound(1) [OF v 2(3)] have a: "good_heights g hs1" "extends hs hs1" "map_of hs1 i = Some n" by auto
  from 2(1) [OF v refl r a(1)] a show ?case by (auto simp: extends_def)
qed simp

lemma visit_all_total:
  assumes "closed_graph g" and "short_chains g" and "\<And>p. is_chain g p \<Longrightarrow> length p \<le> n" and "n < k"
  shows "good_heights g hs \<Longrightarrow> \<forall>i \<in> set is. g i \<noteq> None \<Longrightarrow> \<exists>hs'. visit_all k g hs is = Inr hs'"
proof (induction "is" arbitrary: hs)
  case (Cons i "is")
  have "is_chain g (rev [] @ [i])" using Cons.prems by simp
  from visit_total(1) [OF assms(1,2) Cons.prems(1) this _ assms(3), of k] assms(4)
  obtain m hs1 where v: "visit k g [] hs i = Inr (m, hs1)" by fastforce
  from visit_sound(1) [OF v Cons.prems(1)] have "good_heights g hs1" by blast
  from Cons.IH [OF this] Cons.prems(2) v show ?case by simp
qed simp

lemma nodes_of_ids: "nodes_of cs i \<noteq> None \<longleftrightarrow> i \<in> cc_id ` set cs"
  by (auto simp: nodes_of_def find_None_iff)

lemma nodes_of_in:
  assumes "distinct (map cc_id cs)"
  shows "nodes_of cs i = Some c \<longleftrightarrow> c \<in> set cs \<and> cc_id c = i"
proof
  assume "nodes_of cs i = Some c"
  then show "c \<in> set cs \<and> cc_id c = i" using find_in_set [of "\<lambda>c. cc_id c = i" cs c] by (simp add: nodes_of_def)
next
  assume "c \<in> set cs \<and> cc_id c = i"
  with find_distinct_key [OF assms, of c] show "nodes_of cs i = Some c" by (simp add: nodes_of_def)
qed

lemma closed_nodes_of:
  assumes "distinct (map cc_id cs)"
  shows "closed_graph (nodes_of cs) \<longleftrightarrow> (\<forall>c \<in> set cs. set (cc_children c) \<subseteq> cc_id ` set cs)"
  using nodes_of_in [OF assms] nodes_of_ids [of cs] unfolding closed_graph_def by blast

text \<open>A walk over all components succeeds exactly on closed graphs with short chains.\<close>

lemma visit_all_iff:
  assumes d: "distinct (map cc_id cs)" and o: "set is = cc_id ` set cs"
  shows "(\<exists>hs. visit_all (length cs + 1) (nodes_of cs) [] is = Inr hs) \<longleftrightarrow> closed_graph (nodes_of cs) \<and> short_chains (nodes_of cs)"
proof
  let ?g = "nodes_of cs"
  assume "\<exists>hs. visit_all (length cs + 1) ?g [] is = Inr hs"
  then obtain hs where "visit_all (length cs + 1) ?g [] is = Inr hs" ..
  from visit_all_sound [OF this] have g: "good_heights ?g hs" and all: "\<forall>i \<in> set is. map_of hs i \<noteq> None" by (auto simp: good_heights_def)
  have dom: "\<exists>h. map_of hs x = Some h" if "?g x \<noteq> None" for x using that all o nodes_of_ids [of cs x] by auto
  have "closed_graph ?g"
    unfolding closed_graph_def
  proof (intro allI impI ballI)
    fix x c y
    assume x: "?g x = Some c" "y \<in> set (cc_children c)"
    with dom [of x] g obtain k where "map_of hs y = Some k" unfolding good_heights_def by (metis option.distinct(1) option.inject)
    with g show "?g y \<noteq> None" unfolding good_heights_def by blast
  qed
  moreover have "short_chains ?g"
    unfolding short_chains_def
  proof (intro allI impI)
    fix p
    assume p: "is_chain ?g p"
    show "length p \<le> max_depth"
    proof (cases p)
      case (Cons x q)
      from is_chain_nodes [OF p, of x] Cons dom obtain h where h: "map_of hs x = Some h" by auto
      from chain_height [OF g h] p Cons have "length p \<le> h" by simp
      moreover have "h \<le> max_depth" using g h unfolding good_heights_def by blast
      ultimately show ?thesis by simp
    qed simp
  qed
  ultimately show "closed_graph ?g \<and> short_chains ?g" ..
next
  let ?g = "nodes_of cs"
  assume g: "closed_graph ?g \<and> short_chains ?g"
  have len: "length p \<le> length cs" if "is_chain ?g p" for p
  proof -
    have "distinct p" using short_chain_distinct g that by blast
    moreover have "set p \<subseteq> cc_id ` set cs" using is_chain_nodes [OF that] nodes_of_ids by blast
    ultimately have "length p \<le> card (cc_id ` set cs)" by (metis List.finite_set card_mono distinct_card finite_imageI)
    also have "\<dots> \<le> length cs" by (metis card_image_le card_length le_trans List.finite_set)
    finally show ?thesis .
  qed
  show "\<exists>hs. visit_all (length cs + 1) ?g [] is = Inr hs"
    using visit_all_total [of ?g "length cs" "length cs + 1" "[]" "is"] g len o nodes_of_ids [of cs] by (auto simp: good_heights_def)
qed

subsection \<open>The size of a drawing\<close>

text \<open>How often something is drawn below a component when shared components are drawn each time, \<open>d\<close> levels deep.\<close>

fun drawn :: "nat \<Rightarrow> nodes \<Rightarrow> string \<Rightarrow> nat" where
  "drawn 0 g i = 0"
| "drawn (Suc d) g i = 1 + sum_list (map (drawn d g) (case g i of None \<Rightarrow> [] | Some c \<Rightarrow> cc_children c))"

lemma drawn_stable: "good_heights g hs \<Longrightarrow> map_of hs i = Some h \<Longrightarrow> h \<le> d \<Longrightarrow> drawn d g i = drawn h g i"
proof (induction h arbitrary: i d rule: less_induct)
  case (less h)
  obtain c where c: "g i = Some c" "1 \<le> h" "\<forall>y \<in> set (cc_children c). \<exists>k. map_of hs y = Some k \<and> k < h"
    by (rule good_heights_at [OF less.prems(1,2)])
  obtain d' h' where d: "d = Suc d'" "h = Suc h'" using less.prems(3) c(2) by (cases d; cases h) auto
  have "drawn d' g y = drawn h' g y" if y: "y \<in> set (cc_children c)" for y
  proof -
    from c(3) y obtain k where k: "map_of hs y = Some k" "k < h" by blast
    from less.IH [OF k(2) less.prems(1) k(1), of d'] less.IH [OF k(2) less.prems(1) k(1), of h'] k(2) d less.prems(3) show ?thesis by simp
  qed
  then have "map (drawn d' g) (cc_children c) = map (drawn h' g) (cc_children c)" by (intro map_cong refl)
  then show ?case unfolding d drawn.simps c(1) by (simp only: option.case)
qed

definition drawing :: "nodes \<Rightarrow> string \<Rightarrow> nat" where
  "drawing g i = drawn max_depth g i"

lemma drawing_unfold:
  assumes "good_heights g hs" and "map_of hs i = Some h" and "g i = Some c"
  shows "drawing g i = 1 + sum_list (map (drawing g) (cc_children c))"
proof -
  have h: "1 \<le> h" "h \<le> max_depth" and ch: "\<forall>y \<in> set (cc_children c). \<exists>k. map_of hs y = Some k \<and> k < h"
    using good_heights_at [OF assms(1,2)] assms(3) by (metis option.inject)+
  have "drawn (max_depth - 1) g y = drawn max_depth g y" if "y \<in> set (cc_children c)" for y
  proof -
    from ch that obtain k where k: "map_of hs y = Some k" "k < h" by blast
    with drawn_stable [OF assms(1) k(1), of max_depth] drawn_stable [OF assms(1) k(1), of "max_depth - 1"] h(2) show ?thesis by simp
  qed
  then have "map (drawn (max_depth - 1) g) (cc_children c) = map (drawing g) (cc_children c)" by (simp add: drawing_def)
  moreover have "max_depth = Suc (max_depth - 1)" by (simp add: max_depth_def)
  ultimately show ?thesis using assms(3) by (metis (no_types, lifting) drawing_def drawn.simps(2) option.simps(5))
qed

definition good_counts :: "nodes \<Rightarrow> (string \<times> nat) list \<Rightarrow> bool" where
  "good_counts g cs \<longleftrightarrow> (\<forall>x n. map_of cs x = Some n \<longrightarrow> n = min (drawing g x) (max_rendered + 1))"

lemma count_sound:
  "\<And>h. good_heights g hs \<Longrightarrow> map_of hs i = Some h \<Longrightarrow> h \<le> k \<Longrightarrow> good_counts g cs \<Longrightarrow>
     fst (count_nodes k g cs i) = min (drawing g i) (max_rendered + 1) \<and> good_counts g (snd (count_nodes k g cs i))"
  "good_heights g hs \<Longrightarrow> \<forall>y \<in> set is. \<exists>h. map_of hs y = Some h \<and> h \<le> k \<Longrightarrow> good_counts g cs \<Longrightarrow> n \<le> max_rendered \<Longrightarrow>
     fst (count_children k g cs n is) = min (n + sum_list (map (drawing g) is)) (max_rendered + 1) \<and> good_counts g (snd (count_children k g cs n is))"
proof (induction k g cs i and k g cs n "is" rule: count_nodes_count_children.induct)
  case (1 g cs i)
  then show ?case using good_heights_at by fastforce
next
  case (2 k g cs i)
  show ?case
  proof (cases "map_of cs i")
    case (Some n)
    with 2(5) show ?thesis by (simp add: good_counts_def)
  next
    case None
    obtain c where c: "g i = Some c" "\<forall>y \<in> set (cc_children c). \<exists>k. map_of hs y = Some k \<and> k < h"
      by (rule good_heights_at [OF 2(2,3)])
    have ch: "\<forall>y \<in> set (case g i of None \<Rightarrow> [] | Some c \<Rightarrow> cc_children c). \<exists>h. map_of hs y = Some h \<and> h \<le> k"
      using c 2(4) by fastforce
    obtain m cs1 where m: "count_children k g cs 1 (cc_children c) = (m, cs1)" by fastforce
    have "m = min (1 + sum_list (map (drawing g) (cc_children c))) (max_rendered + 1) \<and> good_counts g cs1"
      using 2(1) [OF None 2(2) ch 2(5)] m c(1) by (simp add: max_rendered_def)
    with m c(1) None drawing_unfold [OF 2(2,3) c(1)] show ?thesis by (simp add: good_counts_def)
  qed
next
  case (3 k g cs n)
  then show ?case by simp
next
  case (4 k g cs n i "is")
  from 4(4) obtain h where h: "map_of hs i = Some h" "h \<le> k" and r: "\<forall>y \<in> set is. \<exists>h. map_of hs y = Some h \<and> h \<le> k" by auto
  obtain m cs1 where m: "count_nodes k g cs i = (m, cs1)" by fastforce
  from 4(1) [OF 4(3) h 4(5)] m have a: "m = min (drawing g i) (max_rendered + 1)" "good_counts g cs1" by auto
  show ?case
  proof (cases "max_rendered < n + m")
    case True
    with m a show ?thesis by (auto simp: min_def)
  next
    case False
    then have "n + m \<le> max_rendered" by simp
    with 4(2) [OF m [symmetric] False 4(3) r a(2)] have "fst (count_children k g cs1 (n + m) is) = min (n + m + sum_list (map (drawing g) is)) (max_rendered + 1) \<and>
       good_counts g (snd (count_children k g cs1 (n + m) is))" by simp
    moreover have "m = drawing g i" using a(1) \<open>n + m \<le> max_rendered\<close> by (auto simp: min_def split: if_splits)
    ultimately show ?thesis using m False by (simp add: add.assoc)
  qed
qed

definition graph_ok :: "canvas_component list \<Rightarrow> string \<Rightarrow> bool" where
  "graph_ok cs root \<longleftrightarrow>
    length cs \<le> max_components \<and> distinct (map cc_id cs) \<and> (\<forall>c \<in> set cs. set (cc_children c) \<subseteq> cc_id ` set cs) \<and>
    short_chains (nodes_of cs) \<and> (root = [] \<or> root \<in> cc_id ` set cs \<and> drawing (nodes_of cs) root \<le> max_rendered)"

lemma graph_check_iff:
  assumes "set (order (map cc_id cs)) = cc_id ` set cs"
  shows "validate_canvas_graph order cs root = None \<longleftrightarrow> graph_ok cs root"
proof (cases "length cs \<le> max_components \<and> distinct (map cc_id cs) \<and> (root = [] \<or> root \<in> cc_id ` set cs)")
  case False
  then show ?thesis using nodes_of_ids [of cs root] by (auto simp: validate_canvas_graph_def graph_ok_def Let_def)
next
  case True
  let ?g = "nodes_of cs"
  have pre: "validate_canvas_graph order cs root = (case visit_all (length cs + 1) ?g [] (order (map cc_id cs)) of
         Inl e \<Rightarrow> Some (Invalid ''component graph'')
       | Inr hs \<Rightarrow> if root \<noteq> [] \<and> max_rendered < fst (count_nodes (length cs + 1) ?g [] root) then Some (Invalid ''rendered nodes'') else None)"
    using True nodes_of_ids [of cs root] by (auto simp: validate_canvas_graph_def Let_def)
  show ?thesis
  proof (cases "visit_all (length cs + 1) ?g [] (order (map cc_id cs))")
    case (Inl e)
    then have "\<not> (closed_graph ?g \<and> short_chains ?g)" using visit_all_iff [of cs, OF _ assms] True by auto
    with Inl pre closed_nodes_of [of cs] True show ?thesis by (auto simp: graph_ok_def)
  next
    case (Inr hs)
    then have g: "closed_graph ?g" "short_chains ?g" using visit_all_iff [of cs, OF _ assms] True by auto
    from visit_all_sound [OF Inr] have h: "good_heights ?g hs" "\<forall>i \<in> cc_id ` set cs. map_of hs i \<noteq> None"
      using assms by (auto simp: good_heights_def)
    have "fst (count_nodes (length cs + 1) ?g [] root) = min (drawing ?g root) (max_rendered + 1)" if "root \<noteq> []"
    proof -
      from that True h(2) obtain k where k: "map_of hs root = Some k" by auto
      from height_chain [OF h(1) k] obtain p where p: "is_chain ?g (root # p)" "length (root # p) = k" by blast
      have "distinct (root # p)" using short_chain_distinct [OF g(2) p(1)] .
      moreover have "set (root # p) \<subseteq> cc_id ` set cs" using is_chain_nodes [OF p(1)] nodes_of_ids [of cs] by blast
      ultimately have "k \<le> card (cc_id ` set cs)" by (metis List.finite_set card_mono distinct_card finite_imageI p(2))
      also have "\<dots> \<le> length cs" by (metis card_image_le card_length le_trans List.finite_set)
      finally show ?thesis using count_sound(1) [OF h(1) k, of "length cs + 1" "[]"] by (simp add: good_counts_def)
    qed
    with Inr pre g closed_nodes_of [of cs] True show ?thesis by (auto simp: graph_ok_def min_def split: if_splits)
  qed
qed

text \<open>
  C34. The check of the component graph is exact.  Whatever order it takes the components in, it accepts
  a list of components exactly if it is short enough, no id occurs twice, every child and the root exist, no chain of
  nested components has more than sixteen of them, which excludes cycles, and the drawing from the root, with
  shared components drawn each time, has at most 2048 nodes.
\<close>

theorem graph_check_exact:
  assumes "set (order (map cc_id cs)) = cc_id ` set cs"
  shows "validate_canvas_graph order cs root = None \<longleftrightarrow>
    length cs \<le> max_components \<and> distinct (map cc_id cs) \<and> (\<forall>c \<in> set cs. set (cc_children c) \<subseteq> cc_id ` set cs) \<and>
    short_chains (nodes_of cs) \<and> (root = [] \<or> root \<in> cc_id ` set cs \<and> drawing (nodes_of cs) root \<le> max_rendered)"
  using graph_check_iff [of order cs root, OF assms] by (simp add: graph_ok_def)

definition demo_components :: "canvas_component list" where
  "demo_components =
    [\<lparr>cc_id = ''a'', cc_type = ''Column'', cc_text = None, cc_path = [], cc_children = [''b'', ''c'', ''b'']\<rparr>,
     \<lparr>cc_id = ''b'', cc_type = ''Row'', cc_text = None, cc_path = [], cc_children = [''c'', ''c'']\<rparr>,
     \<lparr>cc_id = ''c'', cc_type = ''Divider'', cc_text = None, cc_path = [], cc_children = []\<rparr>]"

lemma graph_check_exact_witness:
  "set (rev (map cc_id demo_components)) = cc_id ` set demo_components \<and> validate_canvas_graph rev demo_components ''a'' = None \<and>
   short_chains (nodes_of demo_components) \<and> drawing (nodes_of demo_components) ''a'' \<le> max_rendered \<and>
   drawing (nodes_of demo_components) ''a'' = 8"
proof -
  have o: "set (rev (map cc_id demo_components)) = cc_id ` set demo_components" by simp
  have v: "validate_canvas_graph rev demo_components ''a'' = None" by code_simp
  have d: "drawing (nodes_of demo_components) ''a'' = 8" by code_simp
  from v graph_check_exact [of rev demo_components "''a''", OF o] have "short_chains (nodes_of demo_components)" by blast
  with o v d show ?thesis by (simp add: max_rendered_def)
qed

subsection \<open>Stored documents\<close>

definition component_ok :: "canvas_component \<Rightarrow> bool" where
  "component_ok c \<longleftrightarrow> canvas_identifier (cc_id c) \<and>
    (cc_type c \<in> {''Text'', ''Heading''} \<and> (cc_text c = None) = (cc_path c \<noteq> []) \<and> cc_children c = [] \<or>
     cc_type c \<in> {''Column'', ''Row'', ''Divider''} \<and> cc_text c = None \<and> cc_path c = []) \<and>
    (\<forall>t. cc_text c = Some t \<longrightarrow> int (length t) \<le> max_text)"

definition surface_ok :: "canvas_env \<Rightarrow> canvas_surface \<Rightarrow> bool" where
  "surface_ok E s \<longleftrightarrow> canvas_identifier (cs_id s) \<and> cs_catalog s = catalog_v1 \<and> (\<forall>c \<in> set (cs_components s). component_ok c) \<and>
    graph_ok (cs_components s) (surface_root s) \<and> (cs_rendering s \<longrightarrow> cs_root s \<noteq> []) \<and>
    (cs_data s = [] \<or> ce_size E (JObj (cs_data s)) \<le> max_data)"

definition mutation_ok :: "canvas_env \<Rightarrow> canvas_mutation \<Rightarrow> bool" where
  "mutation_ok E m \<longleftrightarrow> canvas_identifier (snd m) \<and> (case fst m of
      CreateSurface c \<Rightarrow> c = catalog_v1
    | SurfaceUpdate cs \<Rightarrow> (\<forall>c \<in> set cs. component_ok c)
    | BeginRendering r \<Rightarrow> r \<noteq> []
    | DataModelUpdate d \<Rightarrow> ce_size E (JObj d) \<le> max_data
    | DeleteSurface \<Rightarrow> True)"

definition document_ok :: "canvas_env \<Rightarrow> canvas_state \<Rightarrow> bool" where
  "document_ok E s \<longleftrightarrow> length (cv_surfaces s) \<le> max_surfaces \<and> distinct (map cs_id (cv_surfaces s)) \<and>
    (\<forall>x \<in> set (cv_surfaces s). surface_ok E x \<and> validate_canvas_bound_text x)"

lemma pointer_not_empty: "valid_canvas_pointer p \<Longrightarrow> p \<noteq> []"
  by (auto simp: valid_canvas_pointer_def)

lemma parse_component_ok:
  assumes "parse_canvas_component v = Inr c"
  shows "component_ok c"
proof -
  from assms obtain ms i ty where f: "canvas_fields (Some v) [''id'', ''type'', ''text'', ''textPath'', ''children''] = Inr ms"
    and i: "canvas_string ms ''id'' = Inr i" "canvas_identifier i" and ty: "canvas_string ms ''type'' = Inr ty"
    unfolding parse_canvas_component_def by (auto split: sum.splits if_splits)
  define t p ch where d: "t = (member ''text'' ms \<noteq> None)" "p = (member ''textPath'' ms \<noteq> None)" "ch = (member ''children'' ms \<noteq> None)"
  note * = assms[unfolded parse_canvas_component_def f i(1) ty Let_def sum.case d [symmetric]]
  consider (words) "ty = ''Text'' \<or> ty = ''Heading''" | (box) "ty = ''Column'' \<or> ty = ''Row''" | (divider) "ty = ''Divider''"
    using * i(2) by (auto split: if_splits)
  then show ?thesis
  proof cases
    case words
    then have r: "\<not> (t = p \<or> ch)" "t \<Longrightarrow> \<exists>s. canvas_string ms ''text'' = Inr s \<and> int (length s) \<le> max_text \<and> c = \<lparr>cc_id = i, cc_type = ty, cc_text = Some s, cc_path = [], cc_children = []\<rparr>"
      "\<not> t \<Longrightarrow> \<exists>s. valid_canvas_pointer s \<and> c = \<lparr>cc_id = i, cc_type = ty, cc_text = None, cc_path = s, cc_children = []\<rparr>"
      using * i(2) by (auto split: if_split_asm sum.split_asm)
    with words i(2) show ?thesis by (cases t) (auto simp: component_ok_def dest: pointer_not_empty)
  next
    case box
    then have "\<exists>is. c = \<lparr>cc_id = i, cc_type = ty, cc_text = None, cc_path = [], cc_children = is\<rparr>"
      using * i(2) by (auto split: if_split_asm option.split_asm json.split_asm)
    with box i(2) show ?thesis by (auto simp: component_ok_def)
  next
    case divider
    with * i(2) have "c = \<lparr>cc_id = i, cc_type = ty, cc_text = None, cc_path = [], cc_children = []\<rparr>" by (simp split: if_split_asm)
    with divider i(2) show ?thesis by (simp add: component_ok_def)
  qed
qed

lemma parse_components_ok: "parse_components vs = Inr cs \<Longrightarrow> \<forall>c \<in> set cs. component_ok c"
  by (induction vs arbitrary: cs) (auto split: sum.splits dest: parse_component_ok)

lemma event_target: "validate_canvas_event ev session x = Inr (a, t) \<Longrightarrow> canvas_identifier t"
  by (auto simp: validate_canvas_event_def split: list.splits if_splits json.splits option.splits)

lemma parse_mutation_ok:
  assumes "parse_canvas_mutation E session line = Inr m"
  shows "mutation_ok E m"
proof -
  from assms obtain ev a t where e: "validate_canvas_event ev session [] = Inr (a, t)"
    unfolding parse_canvas_mutation_def Let_def by (auto split: sum.splits if_splits option.splits)
  show ?thesis
    using assms unfolding parse_canvas_mutation_def Let_def
    by (auto simp: mutation_ok_def canvas_identifier_def [of "[]"] dest!: event_target parse_components_ok
        split: sum.splits if_splits option.splits json.splits)
qed

lemma change_surface_all:
  assumes "\<forall>x \<in> set ss. P x" and "\<And>x. find (\<lambda>s. cs_id s = i) ss = Some x \<Longrightarrow> \<forall>y \<in> set (f x). P y"
  shows "\<forall>x \<in> set (change_surface i f ss). P x"
  using assms
proof (induction ss)
  case (Cons a ss)
  then show ?case by (cases "cs_id a = i") auto
qed simp

lemma change_surface_ids:
  "(\<And>x. map cs_id (f x) = [cs_id x]) \<Longrightarrow> map cs_id (change_surface i f ss) = map cs_id ss"
  by (induction ss) auto

lemma delete_surface_ids:
  "set (map cs_id (change_surface i (\<lambda>s. []) ss)) \<subseteq> set (map cs_id ss)"
  "distinct (map cs_id ss) \<Longrightarrow> distinct (map cs_id (change_surface i (\<lambda>s. []) ss))"
  by (induction ss) auto

lemma graph_ok_empty: "graph_ok [] []"
  unfolding graph_ok_def short_chains_def
proof (intro conjI allI impI)
  fix p
  assume p: "is_chain (nodes_of []) p"
  show "length p \<le> max_depth" using is_chain_nodes [OF p] by (cases p) (auto simp: nodes_of_def)
qed auto

lemma surface_replaced:
  assumes "find (\<lambda>s. cs_id s = i) ss = Some s" and "\<forall>x \<in> set ss. P x" and "P (f s)" and "\<And>x. cs_id (f x) = cs_id x" and "distinct (map cs_id ss)"
  shows "\<forall>x \<in> set (change_surface i (\<lambda>s. [f s]) ss). P x" and "distinct (map cs_id (change_surface i (\<lambda>s. [f s]) ss))"
    and "length (change_surface i (\<lambda>s. [f s]) ss) = length ss"
proof -
  show "\<forall>x \<in> set (change_surface i (\<lambda>s. [f s]) ss). P x"
    by (rule change_surface_all [OF assms(2)]) (use assms(1,3) in simp)
  have e: "map cs_id (change_surface i (\<lambda>s. [f s]) ss) = map cs_id ss" by (rule change_surface_ids) (simp add: assms(4))
  then show "distinct (map cs_id (change_surface i (\<lambda>s. [f s]) ss))" using assms(5) by simp
  from e show "length (change_surface i (\<lambda>s. [f s]) ss) = length ss" by (metis length_map)
qed

lemma delete_surface_shorter: "length (change_surface i (\<lambda>s. []) ss) \<le> length ss"
  by (induction ss) auto

lemma changed_surfaces_ok:
  assumes o: "\<And>xs. set (ce_order E xs) = set xs" and m: "mutation_ok E m" and c: "changed_surfaces E m ss = Inr ss'"
    and ss: "length ss \<le> max_surfaces" "distinct (map cs_id ss)" "\<forall>x \<in> set ss. surface_ok E x"
  shows "length ss' \<le> max_surfaces \<and> distinct (map cs_id ss') \<and> (\<forall>x \<in> set ss'. surface_ok E x)"
proof -
  obtain a i where mi: "m = (a, i)" by fastforce
  have graph: "graph_ok cs r" if "validate_canvas_graph (ce_order E) cs r = None" for cs r
    using that graph_check_iff [of "ce_order E" cs r] o by simp
  show ?thesis
  proof (cases "find (\<lambda>s. cs_id s = i) ss")
    case None
    with c mi obtain cat where a: "a = CreateSurface cat" and l: "length ss < max_surfaces"
      and ss': "ss' = ss @ [\<lparr>cs_id = i, cs_catalog = cat, cs_root = [], cs_components = [], cs_data = [], cs_rendering = False\<rparr>]"
      by (auto simp: changed_surfaces_def split: canvas_action.splits if_splits)
    have "i \<notin> set (map cs_id ss)" using None by (auto simp: find_None_iff)
    with ss l a m mi show ?thesis
      unfolding ss' by (auto simp: surface_ok_def mutation_ok_def surface_root_def graph_ok_empty)
  next
    case (Some s)
    have s: "surface_ok E s" using Some ss(3) find_in_set [of "\<lambda>s. cs_id s = i" ss s] by auto
    show ?thesis
    proof (cases a)
      case (CreateSurface cat)
      with c mi Some show ?thesis by (simp add: changed_surfaces_def)
    next
      case (SurfaceUpdate cs)
      with c mi Some have v: "validate_canvas_graph (ce_order E) cs (surface_root s) = None" "ss' = change_surface i (\<lambda>s. [s\<lparr>cs_components := cs\<rparr>]) ss"
        by (auto simp: changed_surfaces_def split: option.splits)
      have "surface_ok E (s\<lparr>cs_components := cs\<rparr>)" using s graph [OF v(1)] m mi SurfaceUpdate
        by (auto simp: surface_ok_def mutation_ok_def surface_root_def)
      with surface_replaced [where f = "\<lambda>s. s\<lparr>cs_components := cs\<rparr>" and P = "surface_ok E", OF Some ss(3) this _ ss(2)] ss(1) v(2) show ?thesis by simp
    next
      case (BeginRendering r)
      with c mi Some have v: "validate_canvas_graph (ce_order E) (cs_components s) r = None" "ss' = change_surface i (\<lambda>s. [s\<lparr>cs_root := r, cs_rendering := True\<rparr>]) ss"
        by (auto simp: changed_surfaces_def split: option.splits)
      have "surface_ok E (s\<lparr>cs_root := r, cs_rendering := True\<rparr>)" using s graph [OF v(1)] m mi BeginRendering
        by (auto simp: surface_ok_def mutation_ok_def surface_root_def)
      with surface_replaced [where f = "\<lambda>s. s\<lparr>cs_root := r, cs_rendering := True\<rparr>" and P = "surface_ok E", OF Some ss(3) this _ ss(2)] ss(1) v(2) show ?thesis by simp
    next
      case (DataModelUpdate d)
      with c mi Some have v: "ss' = change_surface i (\<lambda>s. [s\<lparr>cs_data := d\<rparr>]) ss" by (simp add: changed_surfaces_def)
      have "surface_ok E (s\<lparr>cs_data := d\<rparr>)" using s m mi DataModelUpdate by (auto simp: surface_ok_def mutation_ok_def surface_root_def)
      with surface_replaced [where f = "\<lambda>s. s\<lparr>cs_data := d\<rparr>" and P = "surface_ok E", OF Some ss(3) this _ ss(2)] ss(1) v show ?thesis by simp
    next
      case DeleteSurface
      with c mi Some have v: "ss' = change_surface i (\<lambda>s. []) ss" by (simp add: changed_surfaces_def)
      have "\<forall>x \<in> set ss'. surface_ok E x" unfolding v by (rule change_surface_all [OF ss(3)]) simp
      with delete_surface_ids(2) [OF ss(2), of i] delete_surface_shorter [of i ss] ss(1) v show ?thesis by simp
    qed
  qed
qed

lemma apply_mutation_cases:
  assumes "apply_canvas_mutation E m s = Inr s'"
  obtains ss where "changed_surfaces E m (cv_surfaces s) = Inr ss" and "\<forall>x \<in> set ss. validate_canvas_bound_text x"
    and "s' = s\<lparr>cv_surfaces := ss, cv_revision := cv_revision s + 1\<rparr>"
  using assms by (auto simp: apply_canvas_mutation_def Let_def list_all_iff split: if_splits sum.splits)

lemma mutate_cases:
  assumes "mutate E session m db = (Inr s', db')"
  obtains s where "canvas_identifier session" and "session \<in> set (cd_sessions db)" and "stored_canvas db session = Inr s" and "cv_revision s < max_revision"
    and "(case m of None \<Rightarrow> Inr (s\<lparr>cv_surfaces := [], cv_revision := cv_revision s + 1\<rparr>) | Some m \<Rightarrow> apply_canvas_mutation E m s) = Inr s'"
    and "ce_size E (canvas_json s') \<le> max_state" and "walk_json 0 (canvas_json s')" and "db' = db\<lparr>cd_rows := (cd_rows db)(session \<mapsto> (cv_revision s', Some s'))\<rparr>"
proof -
  from assms obtain s where a: "canvas_identifier session" "session \<in> set (cd_sessions db)" "stored_canvas db session = Inr s" "cv_revision s < max_revision"
    unfolding mutate_def by (auto split: if_splits sum.splits)
  with assms have "(case (case m of None \<Rightarrow> Inr (s\<lparr>cv_surfaces := [], cv_revision := cv_revision s + 1\<rparr>) | Some m \<Rightarrow> apply_canvas_mutation E m s) of
           Inl e \<Rightarrow> (Inl e, db)
         | Inr s' \<Rightarrow>
             if max_state < ce_size E (canvas_json s') then (Inl (Invalid ''state exceeds''), db)
             else if \<not> walk_json 0 (canvas_json s') then (Inl (Invalid ''final state''), db)
             else (Inr s', db\<lparr>cd_rows := (cd_rows db)(session \<mapsto> (cv_revision s', Some s'))\<rparr>)) = (Inr s', db')"
    by (simp add: mutate_def)
  with a that show thesis by (auto split: sum.split_asm if_split_asm)
qed

lemma mutate_error: "mutate E session m db = (Inl e, db') \<Longrightarrow> db' = db"
  unfolding mutate_def by (auto split: if_splits sum.splits)

lemma stored_canvas_ok:
  assumes "stored_canvas db session = Inr s"
  shows "cv_session s = session" and "0 \<le> cv_revision s" and "cv_revision s \<le> max_revision"
    and "s = empty_canvas session \<and> cd_rows db session = None \<or> (\<exists>rv. cd_rows db session = Some (rv, Some s))"
  using assms by (auto simp: stored_canvas_def empty_canvas_def max_revision_def split: option.splits if_splits prod.splits)

lemma mutate_step:
  assumes "mutate E session m db = (Inr s', db')"
  obtains s where "stored_canvas db session = Inr s" and "cv_session s' = session" and "cv_revision s' = cv_revision s + 1" and "cv_revision s' \<le> max_revision"
    and "0 \<le> cv_revision s'" and "(case m of None \<Rightarrow> cv_surfaces s' = [] | Some m \<Rightarrow> changed_surfaces E m (cv_surfaces s) = Inr (cv_surfaces s'))"
    and "\<forall>x \<in> set (cv_surfaces s'). validate_canvas_bound_text x"
proof -
  from assms obtain s where a: "stored_canvas db session = Inr s" "cv_revision s < max_revision"
    and b: "(case m of None \<Rightarrow> Inr (s\<lparr>cv_surfaces := [], cv_revision := cv_revision s + 1\<rparr>) | Some m \<Rightarrow> apply_canvas_mutation E m s) = Inr s'"
    by (rule mutate_cases)
  note s = stored_canvas_ok [OF a(1)]
  show thesis
  proof (cases m)
    case None
    with b have "s' = s\<lparr>cv_surfaces := [], cv_revision := cv_revision s + 1\<rparr>" by simp
    with a s None show ?thesis by (intro that [of s]) auto
  next
    case (Some x)
    with b have "apply_canvas_mutation E x s = Inr s'" by simp
    then show ?thesis by (rule apply_mutation_cases) (use a s Some in \<open>intro that [of s], auto\<close>)
  qed
qed

definition canvas_ok :: "canvas_env \<Rightarrow> string \<Rightarrow> canvas_state \<Rightarrow> bool" where
  "canvas_ok E session s \<longleftrightarrow> document_ok E s \<and> cv_session s = session \<and> 0 \<le> cv_revision s \<and> cv_revision s \<le> max_revision \<and>
    ce_size E (canvas_json s) \<le> max_state \<and> walk_json 0 (canvas_json s)"

definition rows_ok :: "canvas_env \<Rightarrow> canvas_db \<Rightarrow> bool" where
  "rows_ok E db \<longleftrightarrow> (\<forall>session row. cd_rows db session = Some row \<longrightarrow> (\<exists>s. row = (cv_revision s, Some s) \<and> canvas_ok E session s))"

lemma mutate_rows_ok:
  assumes o: "\<And>xs. set (ce_order E xs) = set xs" and m: "\<And>x. m = Some x \<Longrightarrow> mutation_ok E x" and r: "rows_ok E db" and e: "mutate E session m db = (res, db')"
  shows "rows_ok E db'"
proof (cases res)
  case (Inl x)
  with e mutate_error r show ?thesis by blast
next
  case (Inr s')
  with e have e': "mutate E session m db = (Inr s', db')" by simp
  obtain s where a: "stored_canvas db session = Inr s" and b: "cv_session s' = session" "cv_revision s' \<le> max_revision" "0 \<le> cv_revision s'"
    and c: "case m of None \<Rightarrow> cv_surfaces s' = [] | Some m \<Rightarrow> changed_surfaces E m (cv_surfaces s) = Inr (cv_surfaces s')"
    and bt: "\<forall>x \<in> set (cv_surfaces s'). validate_canvas_bound_text x" by (rule mutate_step [OF e'])
  obtain d: "ce_size E (canvas_json s') \<le> max_state" "walk_json 0 (canvas_json s')" "db' = db\<lparr>cd_rows := (cd_rows db)(session \<mapsto> (cv_revision s', Some s'))\<rparr>"
    by (rule mutate_cases [OF e'])
  have "document_ok E s" using stored_canvas_ok(4) [OF a] r by (auto simp: rows_ok_def canvas_ok_def empty_canvas_def document_ok_def)
  then have "document_ok E s'"
    using c bt changed_surfaces_ok [OF o m, of _ "cv_surfaces s" "cv_surfaces s'"] by (cases m) (simp_all add: document_ok_def)
  with b d(1,2) have "canvas_ok E session s'" by (simp add: canvas_ok_def)
  with r d(3) show ?thesis by (auto simp: rows_ok_def)
qed

text \<open>The histories of the store: sessions appear, and actions and resets arrive in any order.\<close>

inductive canvas_step :: "canvas_env \<Rightarrow> canvas_db \<Rightarrow> canvas_db \<Rightarrow> bool" for E where
  session_created: "canvas_step E db (db\<lparr>cd_sessions := session # cd_sessions db\<rparr>)"
| action_applied: "apply_canvas E session line db = (r, db') \<Longrightarrow> canvas_step E db db'"
| canvas_reset: "reset_canvas E session db = (r, db') \<Longrightarrow> canvas_step E db db'"

inductive canvas_reachable :: "canvas_env \<Rightarrow> canvas_db \<Rightarrow> bool" for E where
  nothing_stored: "canvas_reachable E \<lparr>cd_sessions = sessions, cd_rows = \<lambda>_. None\<rparr>"
| canvas_next: "canvas_reachable E db \<Longrightarrow> canvas_step E db db' \<Longrightarrow> canvas_reachable E db'"

lemma reachable_rows_ok:
  assumes o: "\<And>xs. set (ce_order E xs) = set xs" and "canvas_reachable E db"
  shows "rows_ok E db"
  using assms(2)
proof induction
  case (nothing_stored sessions)
  then show ?case by (simp add: rows_ok_def)
next
  case (canvas_next db db')
  from canvas_next(2) show ?case
  proof cases
    case (session_created session)
    with canvas_next(3) show ?thesis by (simp add: rows_ok_def)
  next
    case (action_applied session line r)
    show ?thesis
    proof (cases "parse_canvas_mutation E session line")
      case (Inl e)
      with action_applied canvas_next(3) show ?thesis by (simp add: apply_canvas_def)
    next
      case (Inr m)
      with action_applied have "mutate E session (Some m) db = (r, db')" by (simp add: apply_canvas_def)
      from mutate_rows_ok [OF o _ canvas_next(3) this] parse_mutation_ok [OF Inr] show ?thesis by simp
    qed
  next
    case (canvas_reset session r)
    then have "mutate E session None db = (r, db')" by (simp add: reset_canvas_def)
    from mutate_rows_ok [OF o _ canvas_next(3) this] show ?thesis by simp
  qed
qed

text \<open>
  C35. Stored canvas documents stay readable and drawable.  After any sequence of actions and resets, whatever
  lines they were, the canvas of every session that exists can be read; it has at most sixteen surfaces with distinct ids, the
  components of a surface form an acyclic graph without dangling children and at most sixteen deep, the root of a surface that is rendering
  is one of them and its drawing has at most 2048 nodes, every bound text is at most 16 KiB long, and a stored document at most 256 KiB.
\<close>

theorem canvas_stays_drawable:
  assumes "\<And>xs. set (ce_order E xs) = set xs"
    and "canvas_reachable E db"
    and "session \<in> set (cd_sessions db)" and "canvas_identifier session"
  shows "\<exists>d. get_canvas db session = Inr d \<and> cv_session d = session \<and> 0 \<le> cv_revision d \<and> cv_revision d \<le> max_revision \<and>
    length (cv_surfaces d) \<le> max_surfaces \<and> distinct (map cs_id (cv_surfaces d)) \<and>
    (\<forall>s \<in> set (cv_surfaces d).
       length (cs_components s) \<le> max_components \<and> distinct (map cc_id (cs_components s)) \<and> (\<forall>c \<in> set (cs_components s). component_ok c) \<and>
       (\<forall>c \<in> set (cs_components s). set (cc_children c) \<subseteq> cc_id ` set (cs_components s)) \<and> short_chains (nodes_of (cs_components s)) \<and>
       (cs_rendering s \<longrightarrow> cs_root s \<in> cc_id ` set (cs_components s) \<and> drawing (nodes_of (cs_components s)) (cs_root s) \<le> max_rendered) \<and>
       (\<forall>c \<in> set (cs_components s). cc_path c \<noteq> [] \<longrightarrow> int (length (bound_text (cs_data s) (cc_path c))) \<le> max_text)) \<and>
    (cd_rows db session \<noteq> None \<longrightarrow> ce_size E (canvas_json d) \<le> max_state)"
proof -
  have r: "rows_ok E db" by (rule reachable_rows_ok [OF assms(1,2)])
  have "\<exists>d. stored_canvas db session = Inr d \<and> document_ok E d \<and> cv_session d = session \<and> 0 \<le> cv_revision d \<and> cv_revision d \<le> max_revision \<and>
    (cd_rows db session \<noteq> None \<longrightarrow> ce_size E (canvas_json d) \<le> max_state)"
  proof (cases "cd_rows db session")
    case None
    then show ?thesis by (simp add: stored_canvas_def document_ok_def empty_canvas_def max_revision_def)
  next
    case (Some row)
    with r obtain d where "row = (cv_revision d, Some d)" "canvas_ok E session d" unfolding rows_ok_def by blast
    with Some show ?thesis by (simp add: stored_canvas_def canvas_ok_def)
  qed
  then obtain d where d: "stored_canvas db session = Inr d" "document_ok E d" "cv_session d = session" "0 \<le> cv_revision d" "cv_revision d \<le> max_revision"
    "cd_rows db session \<noteq> None \<longrightarrow> ce_size E (canvas_json d) \<le> max_state" by blast
  have "get_canvas db session = Inr d" using d(1) assms(3,4) by (simp add: get_canvas_def)
  moreover have "\<forall>s \<in> set (cv_surfaces d). surface_ok E s \<and> validate_canvas_bound_text s" using d(2) by (simp add: document_ok_def)
  ultimately show ?thesis
    using d by (intro exI [of _ d]) (auto simp: document_ok_def surface_ok_def graph_ok_def surface_root_def validate_canvas_bound_text_def list_all_iff)
qed

definition demo_env :: canvas_env where
  "demo_env = \<lparr>ce_parse = (\<lambda>s.
       if s = ''create'' then Some (JObj [(''createSurface'', JObj [(''surfaceId'', JStr ''main''), (''catalog'', JStr catalog_v1)])])
       else if s = ''update'' then Some (JObj [(''surfaceUpdate'', JObj [(''surfaceId'', JStr ''main''), (''components'', JArr
         [JObj [(''id'', JStr ''top''), (''type'', JStr ''Column''), (''children'', JArr [JStr ''line'', JStr ''name'', JStr ''line''])],
          JObj [(''id'', JStr ''line''), (''type'', JStr ''Divider'')],
          JObj [(''id'', JStr ''name''), (''type'', JStr ''Text''), (''textPath'', JStr ''/user/name'')]])])])
       else if s = ''begin'' then Some (JObj [(''beginRendering'', JObj [(''surfaceId'', JStr ''main''), (''root'', JStr ''top'')])])
       else None),
     ce_size = (\<lambda>v. 400), ce_number = Some, ce_order = rev\<rparr>"

definition demo_db :: canvas_db where
  "demo_db = \<lparr>cd_sessions = [''s''], cd_rows = (\<lambda>_. None)\<rparr>"

definition demo_run :: "string list \<Rightarrow> canvas_db" where
  "demo_run lines = fold (\<lambda>line db. snd (apply_canvas demo_env ''s'' line db)) lines demo_db"

lemma demo_reachable: "canvas_reachable demo_env (demo_run lines)"
proof (induction lines rule: rev_induct)
  case Nil
  then show ?case unfolding demo_run_def demo_db_def by (simp add: nothing_stored)
next
  case (snoc line lines)
  have "canvas_step demo_env (demo_run lines) (demo_run (lines @ [line]))"
    by (rule action_applied [of _ "''s''" line _ "fst (apply_canvas demo_env ''s'' line (demo_run lines))"]) (simp add: demo_run_def)
  with snoc show ?case by (rule canvas_next)
qed

lemma canvas_stays_drawable_witness:
  "canvas_reachable demo_env (demo_run [''create'', ''update'', ''begin'']) \<and>
   (\<exists>d s. get_canvas (demo_run [''create'', ''update'', ''begin'']) ''s'' = Inr d \<and> cv_revision d = 3 \<and> cv_surfaces d = [s] \<and> cs_rendering s \<and>
      drawing (nodes_of (cs_components s)) ''top'' \<le> max_rendered)"
proof -
  let ?db = "demo_run [''create'', ''update'', ''begin'']"
  have v: "case get_canvas ?db ''s'' of Inl e \<Rightarrow> False | Inr d \<Rightarrow> cv_revision d = 3 \<and> length (cv_surfaces d) = 1 \<and> cs_rendering (hd (cv_surfaces d)) \<and> cs_root (hd (cv_surfaces d)) = ''top''"
    by code_simp
  then obtain d where d: "get_canvas ?db ''s'' = Inr d" "cv_revision d = 3" "length (cv_surfaces d) = 1" "cs_rendering (hd (cv_surfaces d))" "cs_root (hd (cv_surfaces d)) = ''top''"
    by (auto split: sum.splits)
  then obtain s where s: "cv_surfaces d = [s]" by (auto simp: length_Suc_conv)
  have o: "set (ce_order demo_env xs) = set xs" for xs by (simp add: demo_env_def)
  have m: "''s'' \<in> set (cd_sessions ?db)" by code_simp
  have i: "canvas_identifier ''s''" by code_simp
  from canvas_stays_drawable [OF o demo_reachable m i] d(1) s d(4,5) have "drawing (nodes_of (cs_components s)) ''top'' \<le> max_rendered" by auto
  with d s demo_reachable show ?thesis by auto
qed

text \<open>
  What a change to a canvas answers is what the next read gives.  A change that fails leaves the store as it was;
  one that succeeds had a readable document before it, counts its revision up by exactly one within the range a browser can represent,
  leaves the documents of all other sessions alone, and answers the very document the next read returns.
\<close>

theorem canvas_commit:
  assumes "mutate E session m db = (r, db')"
  shows "case r of
      Inl e \<Rightarrow> db' = db
    | Inr d \<Rightarrow> get_canvas db' session = Inr d \<and> cd_sessions db' = cd_sessions db \<and> (\<forall>x. x \<noteq> session \<longrightarrow> cd_rows db' x = cd_rows db x) \<and>
        (\<exists>d0. get_canvas db session = Inr d0 \<and> cv_revision d = cv_revision d0 + 1 \<and> cv_revision d \<le> max_revision \<and> (m = None \<longrightarrow> cv_surfaces d = []))"
proof (cases r)
  case (Inl e)
  with assms mutate_error show ?thesis by auto
next
  case (Inr d)
  with assms have e: "mutate E session m db = (Inr d, db')" by simp
  obtain d0 where a: "stored_canvas db session = Inr d0" and b: "cv_session d = session" "cv_revision d = cv_revision d0 + 1" "cv_revision d \<le> max_revision" "0 \<le> cv_revision d"
    and c: "case m of None \<Rightarrow> cv_surfaces d = [] | Some m \<Rightarrow> changed_surfaces E m (cv_surfaces d0) = Inr (cv_surfaces d)" by (rule mutate_step [OF e])
  obtain i: "canvas_identifier session" "session \<in> set (cd_sessions db)" and w: "walk_json 0 (canvas_json d)"
    and db': "db' = db\<lparr>cd_rows := (cd_rows db)(session \<mapsto> (cv_revision d, Some d))\<rparr>" by (rule mutate_cases [OF e])
  have "get_canvas db' session = Inr d" using i w b db' by (simp add: get_canvas_def stored_canvas_def)
  moreover have "get_canvas db session = Inr d0" using i a by (simp add: get_canvas_def)
  ultimately show ?thesis using Inr b c db' by auto
qed

lemma canvas_commit_witness:
  "\<exists>d db'. mutate demo_env ''s'' (Some (CreateSurface catalog_v1, ''main'')) demo_db = (Inr d, db') \<and> get_canvas db' ''s'' = Inr d \<and> cv_revision d = 1"
proof -
  let ?r = "mutate demo_env ''s'' (Some (CreateSurface catalog_v1, ''main'')) demo_db"
  have "case fst ?r of Inl e \<Rightarrow> False | Inr d \<Rightarrow> cv_revision d = 1" by code_simp
  then obtain d where d: "fst ?r = Inr d" "cv_revision d = 1" by (auto split: sum.splits)
  then have e: "?r = (Inr d, snd ?r)" by (simp add: prod_eq_iff)
  from canvas_commit [OF e] e d show ?thesis by auto
qed

end
