(* ===== verification/Session_Store.thy ===== *)
theory Session_Store
  imports Seahorse Go_Glob Complex_Main
begin

text \<open>
  The store of sessions (\<open>internal/session\<close>: \<open>postgres.go\<close>, \<open>retention.go\<close>, \<open>retention_postgres.go\<close>,
  \<open>runtime_status.go\<close>, \<open>session.go\<close>, \<open>stash.go\<close>): sessions with optimistic versions, their branches, the routes of
  chats to sessions, and the bound on the number of sessions.  A transaction is a function on the tables; row locks make it atomic.
  Rows hold values where the code holds their JSON, a missing parent is the empty text, and \<open>now\<close> and new ids are arguments.
\<close>

subsection \<open>Data\<close>

record session =
  sn_id :: string
  sn_title :: string
  sn_folder :: string
  sn_parent :: string
  sn_created :: int
  sn_updated :: int
  sn_model :: string
  sn_provider :: string
  sn_tokens :: int
  sn_cost :: rat
  sn_turns :: int
  sn_metadata :: "(string \<times> string) list"
  sn_status :: string
  sn_messages :: "chat_message list"
  sn_children :: "string list"
  sn_branched :: int

text \<open>The count of turns is not stored; a load computes it.\<close>

definition stored :: "session \<Rightarrow> session" where
  "stored s = s\<lparr>sn_turns := 0\<rparr>"

definition loaded :: "session \<Rightarrow> session" where
  "loaded r = r\<lparr>sn_turns := int (length (sn_messages r))\<rparr>"

record route =
  rt_channel :: string
  rt_chat :: string
  rt_thread :: string
  rt_session :: string
  rt_follow :: string
  rt_updated :: int

record session_db =
  sx_sessions :: "session list"
  sx_routes :: "route list"
  sx_runtime :: "(string \<times> string) list"

datatype session_error = NotFound | AlreadyExists | WriteConflict | MergeDiverged | ParentRequired | BadBranchPoint | IdMissing
  | NegativeTurn | KeyTaken | InvalidStatus | InvalidCandidate | BadPagination | StashEmpty | StashMissing

definition find_session :: "string \<Rightarrow> session_db \<Rightarrow> session option" where
  "find_session i db = find (\<lambda>s. sn_id s = i) (sx_sessions db)"

definition put_session :: "session \<Rightarrow> session_db \<Rightarrow> session_db" where
  "put_session s db = db\<lparr>sx_sessions := update_rows (\<lambda>r. sn_id r = sn_id s) (\<lambda>r. s) (sx_sessions db)\<rparr>"

subsection \<open>Titles\<close>

text \<open>\<open>[]rune(s)\<close>, each rune as its bytes; what is not UTF-8 becomes U+FFFD.\<close>

function runes :: "string \<Rightarrow> string list" where
  "runes s = (if s = [] then [] else first_rune s # runes (drop (rune_width s) s))"
  by pat_completeness auto
termination runes
  by (relation "measure length") (auto simp: rune_width_def)

declare runes.simps [simp del]

text \<open>The loop that drops runes until the text and its dots have at most 75 bytes.\<close>

fun shrink_runes :: "string list \<Rightarrow> string list" where
  "shrink_runes [] = []"
| "shrink_runes rs = (if 75 < length (concat rs) + 3 then shrink_runes (butlast rs) else rs)"

definition last_space :: "string \<Rightarrow> nat option" where
  "last_space s = (if CHR '' '' \<in> set s then Some (length s - 1 - length (takeWhile (\<lambda>c. c \<noteq> CHR '' '') (rev s))) else None)"

definition auto_title :: "string \<Rightarrow> session \<Rightarrow> session" where
  "auto_title first s =
    (if sn_title s \<noteq> [] \<or> first = [] then s
     else let rs = runes (trim_space first) in
       s\<lparr>sn_title := (if 72 < length rs then
           let m = concat (shrink_runes (take 72 rs));
               m = (case last_space m of Some k \<Rightarrow> if 40 < k then take k m else m | None \<Rightarrow> m)
           in m @ ''...''
         else concat rs)\<rparr>)"

definition new_session :: "string \<Rightarrow> string \<Rightarrow> int \<Rightarrow> session" where
  "new_session folder fresh now = \<lparr>sn_id = fresh, sn_title = [], sn_folder = folder, sn_parent = [], sn_created = now, sn_updated = now,
     sn_model = [], sn_provider = [], sn_tokens = 0, sn_cost = 0, sn_turns = 0, sn_metadata = [], sn_status = ''active'', sn_messages = [],
     sn_children = [], sn_branched = 0\<rparr>"

subsection \<open>Creating, loading, saving, deleting, listing\<close>

text \<open>\<open>Create\<close>: the error, and the caller's session, whose times change in any case.\<close>

definition create_session :: "string \<Rightarrow> int \<Rightarrow> session \<Rightarrow> session_db \<Rightarrow> (session_error option \<times> session) \<times> session_db" where
  "create_session fresh now s db =
    (let s = s\<lparr>sn_id := (if sn_id s = [] then fresh else sn_id s), sn_created := now, sn_updated := now,
           sn_status := (if sn_status s = [] then ''active'' else sn_status s)\<rparr> in
     if find_session (sn_id s) db \<noteq> None then ((Some AlreadyExists, s), db)
     else ((None, s), db\<lparr>sx_sessions := sx_sessions db @ [stored s]\<rparr>))"

definition load_session :: "string \<Rightarrow> session_db \<Rightarrow> session_error + session" where
  "load_session i db = (case find_session i db of None \<Rightarrow> Inl NotFound | Some r \<Rightarrow> Inr (loaded r))"

definition save_session :: "int \<Rightarrow> session \<Rightarrow> session_db \<Rightarrow> (session_error + session) \<times> session_db" where
  "save_session now s db =
    (case find_session (sn_id s) db of None \<Rightarrow> (Inl NotFound, db) | Some r \<Rightarrow>
       if sn_updated r \<noteq> sn_updated s then (Inl WriteConflict, db)
       else (Inr (s\<lparr>sn_updated := now\<rparr>), put_session (stored (s\<lparr>sn_created := sn_created r, sn_updated := now\<rparr>)) db))"

text \<open>\<open>deleteSessionTx\<close>; the runtime status goes with its session.\<close>

definition delete_session :: "string \<Rightarrow> session_db \<Rightarrow> session_error option \<times> session_db" where
  "delete_session i db =
    (case find_session i db of None \<Rightarrow> (Some NotFound, db) | Some r \<Rightarrow>
      (None, db\<lparr>sx_sessions := delete_rows (\<lambda>x. sn_id x = i) (update_rows (\<lambda>x. sn_parent x = i) (\<lambda>x. x\<lparr>sn_parent := sn_parent r\<rparr>) (sx_sessions db)),
         sx_routes := delete_rows (\<lambda>x. rt_session x = i) (sx_routes db),
         sx_runtime := delete_rows (\<lambda>x. fst x = i) (sx_runtime db)\<rparr>))"

record list_options =
  lo_folder :: string
  lo_status :: string
  lo_parent :: string
  lo_limit :: int
  lo_offset :: int
  lo_after :: "int option"
  lo_oldest_first :: bool

definition listed :: "list_options \<Rightarrow> session \<Rightarrow> bool" where
  "listed opts s \<longleftrightarrow> (lo_folder opts = [] \<or> sn_folder s = lo_folder opts) \<and> (lo_status opts = [] \<or> sn_status s = lo_status opts) \<and>
     (lo_parent opts = [] \<or> sn_parent s = lo_parent opts) \<and> (case lo_after opts of None \<Rightarrow> True | Some t \<Rightarrow> t < sn_updated s)"

definition list_sessions :: "list_options \<Rightarrow> session_db \<Rightarrow> session list" where
  "list_sessions opts db =
    (let rows = order_by (\<lambda>s. (sn_updated s, sn_id s)) (filter (listed opts) (sx_sessions db));
         rows = (if lo_oldest_first opts then rows else rev rows);
         rows = (if 0 < lo_offset opts then drop (nat (lo_offset opts)) rows else rows);
         rows = (if 0 < lo_limit opts then take (nat (lo_limit opts)) rows else rows)
     in map loaded rows)"

definition load_messages :: "string \<Rightarrow> session_db \<Rightarrow> session_error + chat_message list" where
  "load_messages i db = (case find_session i db of None \<Rightarrow> Inl NotFound | Some r \<Rightarrow> Inr (sn_messages r))"

subsection \<open>Branches\<close>

definition title_or :: "string \<Rightarrow> string \<Rightarrow> string" where
  "title_or s fallback = (if s = [] then fallback else s)"

text \<open>The child of a branch or a clone, and the transaction that adds it.\<close>

definition child_of :: "string \<Rightarrow> string \<Rightarrow> int \<Rightarrow> nat \<Rightarrow> session \<Rightarrow> session" where
  "child_of prefix fresh now k p =
    \<lparr>sn_id = fresh, sn_title = prefix @ title_or (sn_title p) ''session'', sn_folder = sn_folder p, sn_parent = sn_id p, sn_created = now, sn_updated = now,
     sn_model = sn_model p, sn_provider = sn_provider p, sn_tokens = 0, sn_cost = 0, sn_turns = int k, sn_metadata = sn_metadata p, sn_status = ''active'',
     sn_messages = take k (sn_messages p), sn_children = [], sn_branched = int k\<rparr>"

definition add_child :: "session \<Rightarrow> session \<Rightarrow> int \<Rightarrow> session_db \<Rightarrow> (session_error + session) \<times> session_db" where
  "add_child c p now db =
    (if find_session (sn_id c) db \<noteq> None then (Inl KeyTaken, db)
     else (Inr c, put_session (stored (p\<lparr>sn_children := sn_children p @ [sn_id c], sn_updated := now\<rparr>)) (db\<lparr>sx_sessions := sx_sessions db @ [stored c]\<rparr>)))"

definition branch_session :: "string \<Rightarrow> int \<Rightarrow> string \<Rightarrow> int \<Rightarrow> session_db \<Rightarrow> (session_error + session) \<times> session_db" where
  "branch_session parent turn fresh now db =
    (if parent = [] then (Inl IdMissing, db) else if turn < 0 then (Inl NegativeTurn, db)
     else (case load_session parent db of Inl e \<Rightarrow> (Inl e, db) | Inr p \<Rightarrow>
       add_child (child_of ''branch of '' fresh now (min (nat turn) (length (sn_messages p))) p) p now db))"

definition clone_session :: "string \<Rightarrow> string \<Rightarrow> int \<Rightarrow> session_db \<Rightarrow> (session_error + session) \<times> session_db" where
  "clone_session parent fresh now db =
    (if parent = [] then (Inl IdMissing, db)
     else (case load_session parent db of Inl e \<Rightarrow> (Inl e, db) | Inr p \<Rightarrow>
       add_child (child_of ''clone of '' fresh now (length (sn_messages p)) p) p now db))"

definition merge_session :: "string \<Rightarrow> int \<Rightarrow> session_db \<Rightarrow> (session_error + session) \<times> session_db" where
  "merge_session child now db =
    (if child = [] then (Inl IdMissing, db)
     else (case load_session child db of Inl e \<Rightarrow> (Inl e, db) | Inr c \<Rightarrow>
       if sn_parent c = [] then (Inl ParentRequired, db)
       else (case load_session (sn_parent c) db of Inl e \<Rightarrow> (Inl e, db) | Inr p \<Rightarrow>
         let b = sn_branched c in
         if b < 0 \<or> int (length (sn_messages c)) < b then (Inl BadBranchPoint, db)
         else if int (length (sn_messages p)) \<noteq> b then (Inl MergeDiverged, db)
         else let tail = drop (nat b) (sn_messages c) in
           if tail = [] then (Inr p, db)
           else let p' = p\<lparr>sn_messages := sn_messages p @ tail, sn_turns := int (length (sn_messages p @ tail)), sn_updated := now\<rparr>
             in (Inr p', put_session (stored p') db))))"

subsection \<open>Routes of chats\<close>

definition at_route :: "string \<Rightarrow> string \<Rightarrow> string \<Rightarrow> route \<Rightarrow> bool" where
  "at_route channel chat thread r \<longleftrightarrow> rt_channel r = channel \<and> rt_chat r = chat \<and> rt_thread r = thread"

definition bind_route :: "string \<Rightarrow> string \<Rightarrow> string \<Rightarrow> string \<Rightarrow> int \<Rightarrow> session_db \<Rightarrow> session_db" where
  "bind_route channel chat thread i now db = db\<lparr>sx_routes :=
    (if list_ex (at_route channel chat thread) (sx_routes db)
     then update_rows (at_route channel chat thread) (\<lambda>r. r\<lparr>rt_session := i, rt_updated := now\<rparr>) (sx_routes db)
     else sx_routes db @ [\<lparr>rt_channel = channel, rt_chat = chat, rt_thread = thread, rt_session = i, rt_follow = [], rt_updated = now\<rparr>])\<rparr>"

definition resolve_route :: "string \<Rightarrow> string \<Rightarrow> string \<Rightarrow> string \<Rightarrow> session_db \<Rightarrow> string" where
  "resolve_route channel chat thread live db =
    (let row = find (at_route channel chat thread) (sx_routes db);
         follow = (case row of None \<Rightarrow> [] | Some r \<Rightarrow> rt_follow r) in
     if follow = ''tui'' \<and> live \<noteq> [] then live
     else if follow \<noteq> [] \<and> follow \<noteq> ''tui'' then follow
     else (case row of None \<Rightarrow> [] | Some r \<Rightarrow> rt_session r))"

definition follow_route :: "string \<Rightarrow> string \<Rightarrow> string \<Rightarrow> int \<Rightarrow> session_db \<Rightarrow> session_db" where
  "follow_route channel chat target now db = db\<lparr>sx_routes :=
     update_rows (\<lambda>r. rt_channel r = channel \<and> rt_chat r = chat) (\<lambda>r. r\<lparr>rt_follow := target, rt_updated := now\<rparr>) (sx_routes db)\<rparr>"

definition touch_route :: "string \<Rightarrow> string \<Rightarrow> string \<Rightarrow> int \<Rightarrow> session_db \<Rightarrow> session_db" where
  "touch_route channel chat thread now db = db\<lparr>sx_routes := update_rows (at_route channel chat thread) (\<lambda>r. r\<lparr>rt_updated := now\<rparr>) (sx_routes db)\<rparr>"

definition unbind_route :: "string \<Rightarrow> string \<Rightarrow> string \<Rightarrow> session_db \<Rightarrow> session_db" where
  "unbind_route channel chat thread db = db\<lparr>sx_routes := delete_rows (at_route channel chat thread) (sx_routes db)\<rparr>"

definition recent_routes :: "int \<Rightarrow> session_db \<Rightarrow> (string \<times> string \<times> int) list" where
  "recent_routes limit db =
    (let rows = rev (order_by rt_updated (sx_routes db));
         rows = (if 0 < limit then take (nat limit) rows else rows)
     in map (\<lambda>r. (rt_session r, rt_channel r, rt_updated r)) rows)"

subsection \<open>Runtime status\<close>

definition max_runtime_status :: nat where
  "max_runtime_status = 2 * 1024 * 1024"

definition save_runtime_status :: "string \<Rightarrow> string \<Rightarrow> session_db \<Rightarrow> session_error option \<times> session_db" where
  "save_runtime_status i payload db =
    (if i = [] \<or> max_runtime_status < length payload \<or> \<not> json_valid payload then (Some InvalidStatus, db)
     else if find_session i db = None then (Some NotFound, db)
     else (None, db\<lparr>sx_runtime := (i, payload) # delete_rows (\<lambda>x. fst x = i) (sx_runtime db)\<rparr>))"

definition load_runtime_status :: "string \<Rightarrow> session_db \<Rightarrow> string option" where
  "load_runtime_status i db = map_option snd (find (\<lambda>x. fst x = i \<and> length (snd x) \<le> max_runtime_status) (sx_runtime db))"

subsection \<open>The bound on the number of sessions\<close>

text \<open>The native form: the candidates of one statement, deleted in batches of 128.\<close>

definition retention_candidates :: "int \<Rightarrow> session_db \<Rightarrow> string list" where
  "retention_candidates limit db =
     map sn_id (drop (nat limit) (rev (order_by (\<lambda>s. (sn_updated s, sn_id s)) (filter (\<lambda>s. sn_parent s = []) (sx_sessions db)))))"

fun delete_each :: "string list \<Rightarrow> session_db \<Rightarrow> session_error option \<times> session_db" where
  "delete_each [] db = (None, db)"
| "delete_each (i # is) db = (case delete_session i db of (Some e, db) \<Rightarrow> (Some e, db) | (None, db) \<Rightarrow> delete_each is db)"

function delete_batches :: "string list \<Rightarrow> nat \<Rightarrow> session_db \<Rightarrow> (session_error + nat) \<times> session_db" where
  "delete_batches cands n db =
    (if cands = [] then (Inr n, db)
     else let is = take 128 (order_by (\<lambda>i. i) cands) in
       (case delete_each is db of (Some e, db) \<Rightarrow> (Inl e, db)
        | (None, db) \<Rightarrow> delete_batches (filter (\<lambda>i. i \<notin> set is) cands) (n + length is) db))"
  by pat_completeness auto
termination delete_batches
proof (relation "measure (\<lambda>(cands, n, db). length cands)")
  fix cands xs :: "string list" and n :: nat and db :: session_db and p :: "session_error option \<times> session_db" and e :: "session_error option" and db' :: session_db
  assume c: "cands \<noteq> []" and i: "xs = take 128 (order_by (\<lambda>i. i) cands)"
  have "order_by (\<lambda>i. i) cands \<noteq> []" using c set_order_by [of "\<lambda>i. i" cands] by (metis set_empty)
  then have "hd (order_by (\<lambda>i. i) cands) \<in> set xs" unfolding i by (cases "order_by (\<lambda>i. i) cands") auto
  moreover have "set xs \<subseteq> set cands" unfolding i by (metis set_order_by set_take_subset)
  ultimately have "length (filter (\<lambda>i. i \<notin> set xs) cands) < length cands" by (intro length_filter_less [of "hd (order_by (\<lambda>i. i) cands)"]) auto
  then show "((filter (\<lambda>i. i \<notin> set xs) cands, n + length xs, db'), cands, n, db) \<in> measure (\<lambda>(cands, n, db). length cands)" by simp
qed simp

declare delete_batches.simps [simp del]

definition enforce_max_sessions :: "int \<Rightarrow> session_db \<Rightarrow> (session_error + nat) \<times> session_db" where
  "enforce_max_sessions limit db = (case delete_batches (retention_candidates limit db) 0 db of (Inl e, db') \<Rightarrow> (Inl e, db) | r \<Rightarrow> r)"

text \<open>
  The form for any store, given by its three operations: the pages of a scan, oldest first, are checked for
  order, the roots among them are noted, and the oldest that are too many are deleted unless they have changed.
\<close>

definition page_size :: nat where
  "page_size = 64"

fun check_page :: "(int \<times> string) option \<Rightarrow> session list \<Rightarrow> session_error + (int \<times> string) option \<times> (string \<times> int) list" where
  "check_page prev [] = Inr (prev, [])"
| "check_page prev (s # ss) =
     (if sn_id s = [] \<or> \<not> utf8_valid (sn_id s) then Inl InvalidCandidate
      else if (case prev of None \<Rightarrow> False | Some p \<Rightarrow> (sn_updated s, sn_id s) \<le> p) then Inl BadPagination
      else (case check_page (Some (sn_updated s, sn_id s)) ss of Inl e \<Rightarrow> Inl e
        | Inr (prev, cs) \<Rightarrow> Inr (prev, if sn_parent s = [] then (sn_id s, sn_updated s) # cs else cs)))"

text \<open>The scan runs until a page is short; \<open>k\<close> bounds the number of pages.\<close>

fun scan_pages :: "nat \<Rightarrow> (nat \<Rightarrow> session list) \<Rightarrow> nat \<Rightarrow> (int \<times> string) option \<Rightarrow> session_error + (string \<times> int) list" where
  "scan_pages 0 pages off prev = Inl BadPagination"
| "scan_pages (Suc k) pages off prev =
     (let page = pages off in
      if page_size < length page then Inl BadPagination
      else (case check_page prev page of Inl e \<Rightarrow> Inl e | Inr (prev, cs) \<Rightarrow>
        if length page < page_size then Inr cs
        else (case scan_pages k pages (off + length page) prev of Inl e \<Rightarrow> Inl e | Inr cs' \<Rightarrow> Inr (cs @ cs'))))"

fun prune_candidates :: "(string \<Rightarrow> 's \<Rightarrow> session_error + session) \<Rightarrow> (string \<Rightarrow> 's \<Rightarrow> session_error option \<times> 's)
    \<Rightarrow> (string \<times> int) list \<Rightarrow> nat \<Rightarrow> 's \<Rightarrow> (session_error + nat) \<times> 's" where
  "prune_candidates load delete [] n st = (Inr n, st)"
| "prune_candidates load delete ((i, t) # cs) n st =
     (case load i st of
        Inl e \<Rightarrow> if e = NotFound then prune_candidates load delete cs n st else (Inl e, st)
      | Inr s \<Rightarrow>
          if sn_parent s \<noteq> [] \<or> sn_updated s \<noteq> t then prune_candidates load delete cs n st
          else (case delete i st of
              (None, st) \<Rightarrow> prune_candidates load delete cs (n + 1) st
            | (Some e, st) \<Rightarrow> if e = NotFound then prune_candidates load delete cs n st else (Inl e, st)))"

definition enforce_max :: "nat \<Rightarrow> (nat \<Rightarrow> 's \<Rightarrow> session list) \<Rightarrow> (string \<Rightarrow> 's \<Rightarrow> session_error + session)
    \<Rightarrow> (string \<Rightarrow> 's \<Rightarrow> session_error option \<times> 's) \<Rightarrow> int \<Rightarrow> 's \<Rightarrow> (session_error + nat) \<times> 's" where
  "enforce_max k list load delete limit st =
    (if limit \<le> 0 then (Inr 0, st)
     else (case scan_pages k (\<lambda>off. list off st) 0 None of Inl e \<Rightarrow> (Inl e, st) | Inr cs \<Rightarrow>
       if int (length cs) \<le> limit then (Inr 0, st)
       else prune_candidates load delete (take (length cs - nat limit) cs) 0 st))"

text \<open>The pages of this store.\<close>

definition oldest_page :: "nat \<Rightarrow> session_db \<Rightarrow> session list" where
  "oldest_page off db = list_sessions \<lparr>lo_folder = [], lo_status = [], lo_parent = [], lo_limit = int page_size, lo_offset = int off,
     lo_after = None, lo_oldest_first = True\<rparr> db"

subsection \<open>The stash of prompts\<close>

record stash_entry =
  st_id :: string
  st_text :: string
  st_saved :: int

text \<open>The file is \<open>None\<close> when it does not parse; a save starts over then, the other operations report the error.\<close>

type_synonym stash = "stash_entry list option"

definition stash_save :: "string \<Rightarrow> string \<Rightarrow> int \<Rightarrow> stash \<Rightarrow> (session_error + string) \<times> stash" where
  "stash_save txt fresh now st = (if txt = [] then (Inl StashEmpty, st)
     else (Inr fresh, Some ((case st of None \<Rightarrow> [] | Some es \<Rightarrow> es) @ [\<lparr>st_id = fresh, st_text = txt, st_saved = now\<rparr>])))"

definition stash_list :: "stash \<Rightarrow> session_error + stash_entry list" where
  "stash_list st = (case st of None \<Rightarrow> Inl StashMissing | Some es \<Rightarrow> Inr (order_by (\<lambda>e. - st_saved e) es))"

definition stash_get :: "string \<Rightarrow> stash \<Rightarrow> session_error + string" where
  "stash_get i st = (case st of None \<Rightarrow> Inl StashMissing | Some es \<Rightarrow>
     (case find (\<lambda>e. st_id e = i) es of None \<Rightarrow> Inl NotFound | Some e \<Rightarrow> Inr (st_text e)))"

definition stash_delete :: "string \<Rightarrow> stash \<Rightarrow> session_error option \<times> stash" where
  "stash_delete i st = (case st of None \<Rightarrow> (Some StashMissing, st) | Some es \<Rightarrow> (None, Some (filter (\<lambda>e. st_id e \<noteq> i) es)))"

subsection \<open>Clients of the store\<close>

text \<open>
  Clients hold copies of sessions, which they edit and save at any later time; beside a copy stands the row
  it agreed with when it was read or written.  Timestamps of different writes differ: \<open>sy_clock\<close> is the last one.
\<close>

record session_system =
  sy_db :: session_db
  sy_copies :: "nat \<Rightarrow> (session \<times> session option) option"
  sy_clock :: int

text \<open>What a checkpoint of an interrupted task (\<open>flow_queue.go\<close>) writes to its session.\<close>

definition checkpoint_session :: "string \<Rightarrow> chat_message list \<Rightarrow> string \<Rightarrow> string \<Rightarrow> int \<Rightarrow> session_db \<Rightarrow> session_db" where
  "checkpoint_session i ms model provider now db = db\<lparr>sx_sessions :=
     update_rows (\<lambda>r. sn_id r = i) (\<lambda>r. r\<lparr>sn_messages := ms, sn_model := model, sn_provider := provider, sn_updated := now\<rparr>) (sx_sessions db)\<rparr>"

definition answered :: "nat \<Rightarrow> int \<Rightarrow> (session_error + session) \<times> session_db \<Rightarrow> session_system \<Rightarrow> session_system" where
  "answered c now res q = (case res of
      (Inl e, db) \<Rightarrow> q\<lparr>sy_db := db, sy_clock := now\<rparr>
    | (Inr s, db) \<Rightarrow> q\<lparr>sy_db := db, sy_clock := now, sy_copies := (sy_copies q)(c \<mapsto> (s, find_session (sn_id s) db))\<rparr>)"

inductive session_step :: "session_system \<Rightarrow> session_system \<Rightarrow> bool" where
  created: "sy_clock q < now \<Longrightarrow> create_session fresh now s (sy_db q) = ((e, s'), db) \<Longrightarrow>
    session_step q (q\<lparr>sy_db := db, sy_clock := now, sy_copies := (sy_copies q)(c \<mapsto> (s', if e = None then find_session (sn_id s') db else None))\<rparr>)"
| read: "load_session i (sy_db q) = Inr s \<Longrightarrow> session_step q (q\<lparr>sy_copies := (sy_copies q)(c \<mapsto> (s, find_session i (sy_db q)))\<rparr>)"
| edited: "sy_copies q c = Some (s, b) \<Longrightarrow> sn_id s' = sn_id s \<Longrightarrow> sn_updated s' = sn_updated s \<Longrightarrow>
    session_step q (q\<lparr>sy_copies := (sy_copies q)(c \<mapsto> (s', b))\<rparr>)"
| saved: "sy_clock q < now \<Longrightarrow> sy_copies q c = Some (s, b) \<Longrightarrow> session_step q (answered c now (save_session now s (sy_db q)) q)"
| branched: "sy_clock q < now \<Longrightarrow> session_step q (answered c now (branch_session i turn fresh now (sy_db q)) q)"
| cloned: "sy_clock q < now \<Longrightarrow> session_step q (answered c now (clone_session i fresh now (sy_db q)) q)"
| merged: "sy_clock q < now \<Longrightarrow> session_step q (answered c now (merge_session i now (sy_db q)) q)"
| removed: "session_step q (q\<lparr>sy_db := snd (delete_session i (sy_db q))\<rparr>)"
| pruned: "session_step q (q\<lparr>sy_db := snd (enforce_max_sessions limit (sy_db q))\<rparr>)"
| checkpointed: "sy_clock q < now \<Longrightarrow> session_step q (q\<lparr>sy_db := checkpoint_session i ms model provider now (sy_db q), sy_clock := now\<rparr>)"
| routed: "session_step q (q\<lparr>sy_db := bind_route channel chat thread i t (sy_db q)\<rparr>)"
| followed: "session_step q (q\<lparr>sy_db := follow_route channel chat target t (sy_db q)\<rparr>)"
| touched: "session_step q (q\<lparr>sy_db := touch_route channel chat thread t (sy_db q)\<rparr>)"
| unrouted: "session_step q (q\<lparr>sy_db := unbind_route channel chat thread (sy_db q)\<rparr>)"
| status_saved: "session_step q (q\<lparr>sy_db := snd (save_runtime_status i payload (sy_db q))\<rparr>)"

inductive session_reachable :: "session_system \<Rightarrow> bool" where
  no_sessions: "session_reachable \<lparr>sy_db = \<lparr>sx_sessions = [], sx_routes = [], sx_runtime = []\<rparr>, sy_copies = (\<lambda>_. None), sy_clock = now\<rparr>"
| session_next: "session_reachable q \<Longrightarrow> session_step q q' \<Longrightarrow> session_reachable q'"

text \<open>Histories that only grow: no session is rewritten or moved, and only sessions without branches are deleted.\<close>

inductive growing_step :: "session_db \<Rightarrow> session_db \<Rightarrow> bool" where
  grown_created: "create_session fresh now s db = ((None, s'), db') \<Longrightarrow> sn_branched s = 0 \<Longrightarrow> growing_step db db'"
| grown_saved: "save_session now s db = (Inr s', db') \<Longrightarrow> find_session (sn_id s) db = Some r \<Longrightarrow> sn_messages s = sn_messages r @ tail \<Longrightarrow>
    sn_parent s = sn_parent r \<Longrightarrow> sn_branched s = sn_branched r \<Longrightarrow> growing_step db db'"
| grown_branched: "branch_session i turn fresh now db = (Inr s, db') \<Longrightarrow> growing_step db db'"
| grown_cloned: "clone_session i fresh now db = (Inr s, db') \<Longrightarrow> growing_step db db'"
| grown_merged: "merge_session i now db = (Inr s, db') \<Longrightarrow> growing_step db db'"
| grown_checkpointed: "find_session i db = Some r \<Longrightarrow> growing_step db (checkpoint_session i (sn_messages r @ tail) model provider now db)"
| leaf_removed: "\<forall>s \<in> set (sx_sessions db). sn_parent s \<noteq> i \<Longrightarrow> growing_step db (snd (delete_session i db))"

inductive growing_reachable :: "session_db \<Rightarrow> bool" where
  nothing_grown: "growing_reachable \<lparr>sx_sessions = [], sx_routes = [], sx_runtime = []\<rparr>"
| grown_next: "growing_reachable db \<Longrightarrow> growing_step db db' \<Longrightarrow> growing_reachable db'"

end
