(* ===== verification/Session_Store_Props.thy ===== *)
theory Session_Store_Props
  imports Session_Store
begin

text \<open>
  Properties of the session store: a save overwrites only what its client had seen, a merge makes the parent equal to
  its branch while histories only grow, and the bound on the number of sessions keeps the newest roots in both of its forms.
  The lemmas at the end show what deletions break.
\<close>

subsection \<open>Rows\<close>

definition ids_distinct :: "session_db \<Rightarrow> bool" where
  "ids_distinct db \<longleftrightarrow> distinct (map sn_id (sx_sessions db))"


lemma loaded_simps [simp]:
  "sn_id (loaded s) = sn_id s" "sn_updated (loaded s) = sn_updated s" "sn_parent (loaded s) = sn_parent s" "sn_messages (loaded s) = sn_messages s"
  "sn_branched (loaded s) = sn_branched s" "sn_created (loaded s) = sn_created s" "sn_children (loaded s) = sn_children s"
  by (simp_all add: loaded_def)


lemma find_session_row: "ids_distinct db \<Longrightarrow> s \<in> set (sx_sessions db) \<Longrightarrow> find_session (sn_id s) db = Some s"
  using find_distinct_key [of sn_id "sx_sessions db" s] by (simp add: find_session_def ids_distinct_def)






subsection \<open>No update is lost\<close>

definition same_but_parent :: "session \<Rightarrow> session option \<Rightarrow> bool" where
  "same_but_parent r b \<longleftrightarrow> (\<exists>x. b = Some x \<and> r\<lparr>sn_parent := sn_parent x\<rparr> = x)"



text \<open>A write leaves rows alone up to their parents, or stamps them with a time after the clock.\<close>

definition stamps :: "int \<Rightarrow> session_db \<Rightarrow> session_db \<Rightarrow> bool" where
  "stamps now db db' \<longleftrightarrow> (\<forall>r \<in> set (sx_sessions db'). sn_updated r = now \<or> (\<exists>x \<in> set (sx_sessions db). \<exists>p. r = x\<lparr>sn_parent := p\<rparr>))"


lemma same_but_parent_refl: "same_but_parent r (Some r)"
  by (simp add: same_but_parent_def)











definition removed_from :: "session list \<Rightarrow> session list \<Rightarrow> bool" where
  "removed_from rows rows' \<longleftrightarrow> distinct (map sn_id rows') \<and> (\<forall>r \<in> set rows'. \<exists>x \<in> set rows. \<exists>p. r = x\<lparr>sn_parent := p\<rparr>)"






lemma removed_stamps: "removed_from (sx_sessions db) (sx_sessions db') \<Longrightarrow> stamps now db db'"
  unfolding removed_from_def stamps_def by blast





lemma create_error: "create_session fresh now s db = ((Some e, s'), db') \<Longrightarrow> db' = db"
  by (auto simp: create_session_def Let_def split: if_splits)




lemma child_simps [simp]:
  "sn_id (child_of t fresh now k p) = fresh" "sn_updated (child_of t fresh now k p) = now" "sn_parent (child_of t fresh now k p) = sn_id p"
  "sn_messages (child_of t fresh now k p) = take k (sn_messages p)" "sn_branched (child_of t fresh now k p) = int k"
  by (simp_all add: child_of_def)










subsection \<open>Merging is fast-forward\<close>











subsection \<open>The bound on the number of sessions\<close>

text \<open>What deleting a set of root sessions leaves.\<close>

definition rows_without :: "string set \<Rightarrow> session list \<Rightarrow> session list" where
  "rows_without I rows = map (\<lambda>s. if sn_parent s \<in> I then s\<lparr>sn_parent := []\<rparr> else s) (filter (\<lambda>s. sn_id s \<notin> I) rows)"

definition without_roots :: "string set \<Rightarrow> session_db \<Rightarrow> session_db" where
  "without_roots I db = db\<lparr>sx_sessions := rows_without I (sx_sessions db),
     sx_routes := filter (\<lambda>r. rt_session r \<notin> I) (sx_routes db), sx_runtime := filter (\<lambda>x. fst x \<notin> I) (sx_runtime db)\<rparr>"

lemma without_sessions [simp]: "sx_sessions (without_roots I db) = rows_without I (sx_sessions db)"
  by (simp add: without_roots_def)

lemma rows_without_none [simp]: "rows_without {} rows = rows"
  by (simp add: rows_without_def)

lemma rows_without_union:
  assumes "[] \<notin> I"
  shows "rows_without I (rows_without J rows) = rows_without (I \<union> J) rows"
  using assms unfolding rows_without_def by (induction rows) auto

lemma find_rows_without:
  "find (\<lambda>s. sn_id s = i) (rows_without I rows) =
     (if i \<in> I then None else map_option (\<lambda>s. if sn_parent s \<in> I then s\<lparr>sn_parent := []\<rparr> else s) (find (\<lambda>s. sn_id s = i) rows))"
  unfolding rows_without_def by (induction rows) auto

lemma without_no_roots [simp]: "without_roots {} db = db"
  by (simp add: without_roots_def)

lemma delete_root:
  assumes "find_session i db = Some r" and "sn_parent r = []" and "i \<noteq> []"
  shows "delete_session i db = (None, without_roots {i} db)"
proof -
  have "filter (\<lambda>x. sn_id x \<noteq> i) (map (\<lambda>x. if sn_parent x = i then x\<lparr>sn_parent := []\<rparr> else x) rows) = rows_without {i} rows" for rows
    unfolding rows_without_def by (induction rows) auto
  with assms show ?thesis by (simp add: delete_session_def without_roots_def delete_rows_def update_rows_def)
qed

lemma without_without: "[] \<notin> I \<Longrightarrow> without_roots I (without_roots J db) = without_roots (I \<union> J) db"
  by (simp add: without_roots_def rows_without_union conj_commute)

lemma find_without:
  "find_session i (without_roots I db) = (if i \<in> I then None else map_option (\<lambda>s. if sn_parent s \<in> I then s\<lparr>sn_parent := []\<rparr> else s) (find_session i db))"
  unfolding find_session_def without_sessions by (rule find_rows_without)

definition is_root :: "session_db \<Rightarrow> string \<Rightarrow> bool" where
  "is_root db i \<longleftrightarrow> i \<noteq> [] \<and> (\<exists>r. find_session i db = Some r \<and> sn_parent r = [])"

lemma is_root_without: "is_root db i \<Longrightarrow> i \<notin> I \<Longrightarrow> is_root (without_roots I db) i"
  unfolding is_root_def find_without by (cases "find_session i db") auto

lemma delete_each_roots:
  "distinct is \<Longrightarrow> \<forall>i \<in> set is. is_root db i \<Longrightarrow> delete_each is db = (None, without_roots (set is) db)"
proof (induction "is" db rule: delete_each.induct)
  case (2 i "is" db)
  then obtain r where "find_session i db = Some r" "sn_parent r = []" "i \<noteq> []" by (auto simp: is_root_def)
  from delete_root [OF this] have d: "delete_session i db = (None, without_roots {i} db)" .
  have "\<forall>j \<in> set is. is_root (without_roots {i} db) j" using 2(2,3) by (auto intro: is_root_without)
  from 2(1) [OF d [symmetric] refl _ this] 2(2) have "delete_each is (without_roots {i} db) = (None, without_roots (set is) (without_roots {i} db))" by simp
  moreover have "[] \<notin> set is" using 2(3) by (auto simp: is_root_def)
  ultimately show ?case using d by (simp add: without_without)
qed simp

lemma delete_batches_roots:
  "distinct cands \<Longrightarrow> \<forall>i \<in> set cands. is_root db i \<Longrightarrow> delete_batches cands n db = (Inr (n + length cands), without_roots (set cands) db)"
proof (induction cands n db rule: delete_batches.induct)
  case (1 cands n db)
  show ?case
  proof (cases "cands = []")
    case True
    then show ?thesis by (subst delete_batches.simps) simp
  next
    case False
    let ?is = "take 128 (order_by (\<lambda>i. i) cands)" and ?rest = "filter (\<lambda>i. i \<notin> set (take 128 (order_by (\<lambda>i. i) cands))) cands"
    have sub: "set ?is \<subseteq> set cands" by (metis set_order_by set_take_subset)
    have di: "distinct ?is" using 1(2) by (simp add: order_by_def)
    have "delete_each ?is db = (None, without_roots (set ?is) db)" by (rule delete_each_roots [OF di]) (use sub 1(3) in blast)
    note d = this
    have r: "\<forall>i \<in> set ?rest. is_root (without_roots (set ?is) db) i" using 1(3) by (auto intro: is_root_without)
    have "delete_batches ?rest (n + length ?is) (without_roots (set ?is) db) =
        (Inr (n + length ?is + length ?rest), without_roots (set ?rest) (without_roots (set ?is) db))"
      using 1(1) [OF False refl d [symmetric] refl _ r] 1(2) by simp
    moreover have "[] \<notin> set ?rest" using 1(3) by (auto simp: is_root_def)
    moreover have "set ?rest \<union> set ?is = set cands" using sub by auto
    moreover have "length ?is + length ?rest = length cands"
    proof -
      have "card (set ?is) + card (set ?rest) = card (set cands)"
        using sub by (subst card_Un_disjoint [symmetric]) (auto intro: arg_cong [of _ _ card])
      with di 1(2) show ?thesis by (simp only: distinct_card distinct_filter)
    qed
    ultimately show ?thesis using False d by (subst delete_batches.simps) (simp add: Let_def without_without)
  qed
qed

definition age :: "session \<Rightarrow> int \<times> string" where
  "age s = (sn_updated s, sn_id s)"

lemma age_fold: "(\<lambda>s. (sn_updated s, sn_id s)) = age"
  by (simp add: age_def fun_eq_iff)

definition root_list :: "session list \<Rightarrow> session list" where
  "root_list rows = order_by age (filter (\<lambda>s. sn_parent s = []) rows)"

definition newer_roots :: "session list \<Rightarrow> session \<Rightarrow> nat" where
  "newer_roots rows s = length (filter (\<lambda>r. sn_parent r = [] \<and> age s < age r) rows)"

definition dropped :: "int \<Rightarrow> session list \<Rightarrow> string \<Rightarrow> bool" where
  "dropped limit rows i \<longleftrightarrow> (\<exists>s \<in> set rows. sn_id s = i \<and> sn_parent s = [] \<and> nat limit \<le> newer_roots rows s)"

lemma sorted_ages:
  assumes "distinct (map sn_id rows)"
  shows "sorted_wrt (\<lambda>x y. age x < age y) (order_by age rows)"
proof -
  have s: "sorted (map age (order_by age rows))" by (simp add: order_by_def)
  have "distinct (map age rows)" using assms by (auto simp: distinct_map inj_on_def age_def)
  then have "distinct (map age (order_by age rows))"
    by (metis (no_types, lifting) mset_eq_imp_distinct_iff mset_map mset_sort order_by_def)
  with s have "sorted_wrt (<) (map age (order_by age rows))" by (simp only: strict_sorted_iff)
  then show ?thesis by (simp add: sorted_wrt_map)
qed

lemma above_index:
  assumes "sorted_wrt (\<lambda>x y. age x < age y) xs" and "j < length xs"
  shows "length (filter (\<lambda>r. age (xs ! j) < age r) xs) = length xs - 1 - j"
proof -
  have xs: "xs = take j xs @ xs ! j # drop (Suc j) xs" by (rule id_take_nth_drop [OF assms(2)])
  then have s: "sorted_wrt (\<lambda>x y. age x < age y) (take j xs @ xs ! j # drop (Suc j) xs)" using assms(1) by simp
  have "\<forall>r \<in> set (take j xs). age r < age (xs ! j)" using s by (simp add: sorted_wrt_append)
  then have "filter (\<lambda>r. age (xs ! j) < age r) (take j xs) = []" unfolding filter_empty_conv by (meson less_not_sym)
  moreover have "filter (\<lambda>r. age (xs ! j) < age r) (drop (Suc j) xs) = drop (Suc j) xs"
    using s by (simp add: sorted_wrt_append)
  ultimately have "filter (\<lambda>r. age (xs ! j) < age r) (take j xs @ xs ! j # drop (Suc j) xs) = drop (Suc j) xs" by simp
  then show ?thesis by (subst (2) xs) simp
qed

lemma root_list_set: "set (root_list rows) = {s \<in> set rows. sn_parent s = []}"
  by (auto simp: root_list_def)

lemma root_list_sorted: "distinct (map sn_id rows) \<Longrightarrow> sorted_wrt (\<lambda>x y. age x < age y) (root_list rows)"
  unfolding root_list_def by (rule sorted_ages) (rule distinct_map_filter)

lemma newer_roots_index:
  assumes "distinct (map sn_id rows)" and "j < length (root_list rows)"
  shows "newer_roots rows (root_list rows ! j) = length (root_list rows) - 1 - j"
proof -
  have "newer_roots rows s = length (filter (\<lambda>r. age s < age r) (root_list rows))" for s
  proof -
    have "length (filter P (order_by age xs)) = length (filter P xs)" for P and xs :: "session list"
      by (metis mset_filter mset_sort order_by_def size_mset)
    then show ?thesis by (simp add: newer_roots_def root_list_def conj_commute)
  qed
  with above_index [OF root_list_sorted [OF assms(1)] assms(2)] show ?thesis by simp
qed

text \<open>The roots that are dropped are the oldest.\<close>

lemma dropped_iff:
  assumes "distinct (map sn_id rows)"
  shows "dropped limit rows i \<longleftrightarrow> i \<in> sn_id ` set (take (length (root_list rows) - nat limit) (root_list rows))"
proof -
  let ?xs = "root_list rows" and ?k = "length (root_list rows) - nat limit"
  have "dropped limit rows i \<longleftrightarrow> (\<exists>s \<in> set ?xs. sn_id s = i \<and> nat limit \<le> newer_roots rows s)"
    by (auto simp: dropped_def root_list_set)
  also have "\<dots> \<longleftrightarrow> (\<exists>j < length ?xs. sn_id (?xs ! j) = i \<and> nat limit \<le> newer_roots rows (?xs ! j))" by (metis in_set_conv_nth)
  also have "\<dots> \<longleftrightarrow> (\<exists>j < length ?xs. sn_id (?xs ! j) = i \<and> j < ?k)" using newer_roots_index [OF assms] by (auto simp: less_diff_conv2)
  also have "\<dots> \<longleftrightarrow> i \<in> sn_id ` set (take ?k ?xs)"
  proof
    assume "\<exists>j < length ?xs. sn_id (?xs ! j) = i \<and> j < ?k"
    then obtain j where "j < length ?xs" "sn_id (?xs ! j) = i" "j < ?k" by blast
    then show "i \<in> sn_id ` set (take ?k ?xs)" by (intro image_eqI [of _ _ "?xs ! j"]) (auto simp: in_set_conv_nth)
  next
    assume "i \<in> sn_id ` set (take ?k ?xs)"
    then obtain s where "s \<in> set (take ?k ?xs)" "sn_id s = i" by blast
    moreover from this obtain j where "j < length (take ?k ?xs)" "take ?k ?xs ! j = s" by (metis in_set_conv_nth)
    ultimately show "\<exists>j < length ?xs. sn_id (?xs ! j) = i \<and> j < ?k" by (intro exI [of _ j]) auto
  qed
  finally show ?thesis .
qed

lemma candidates_rev: "retention_candidates limit db = rev (map sn_id (take (length (root_list (sx_sessions db)) - nat limit) (root_list (sx_sessions db))))"
  by (simp add: retention_candidates_def root_list_def drop_rev age_fold flip: rev_map)

lemma candidates_roots:
  assumes "ids_distinct db" and "[] \<notin> sn_id ` set (sx_sessions db)"
  shows "distinct (retention_candidates limit db)" and "\<forall>i \<in> set (retention_candidates limit db). is_root db i"
proof -
  let ?xs = "root_list (sx_sessions db)"
  have "distinct (map sn_id ?xs)"
    using assms(1) unfolding root_list_def order_by_def ids_distinct_def
    by (metis (no_types, lifting) distinct_map_filter mset_eq_imp_distinct_iff mset_map mset_sort)
  then show "distinct (retention_candidates limit db)" by (simp add: candidates_rev take_map [symmetric])
  have "is_root db (sn_id s)" if s: "s \<in> set ?xs" for s
  proof -
    from s have r: "s \<in> set (sx_sessions db)" "sn_parent s = []" by (simp_all add: root_list_set)
    with assms(2) have "sn_id s \<noteq> []" by (metis image_eqI)
    with r find_session_row [OF assms(1) r(1)] show ?thesis by (simp add: is_root_def)
  qed
  then show "\<forall>i \<in> set (retention_candidates limit db). is_root db i" using in_set_takeD by (fastforce simp: candidates_rev)
qed

lemma enforce_native:
  assumes "ids_distinct db" and "[] \<notin> sn_id ` set (sx_sessions db)"
  shows "enforce_max_sessions limit db = (Inr (length (root_list (sx_sessions db)) - nat limit), without_roots {i. dropped limit (sx_sessions db) i} db)"
proof -
  have "set (retention_candidates limit db) = {i. dropped limit (sx_sessions db) i}"
    using dropped_iff [of "sx_sessions db"] assms(1) by (auto simp: candidates_rev ids_distinct_def)
  moreover have "length (retention_candidates limit db) = length (root_list (sx_sessions db)) - nat limit" by (simp add: candidates_rev)
  ultimately show ?thesis
    using delete_batches_roots [OF candidates_roots [OF assms, of limit], of 0] by (simp add: enforce_max_sessions_def)
qed

subsection \<open>The scan of a store by pages\<close>

definition candidate :: "session \<Rightarrow> string \<times> int" where
  "candidate s = (sn_id s, sn_updated s)"

definition good_ids :: "session list \<Rightarrow> bool" where
  "good_ids rows \<longleftrightarrow> distinct (map sn_id rows) \<and> (\<forall>s \<in> set rows. sn_id s \<noteq> [] \<and> utf8_valid (sn_id s))"

definition before_all :: "(int \<times> string) option \<Rightarrow> session list \<Rightarrow> bool" where
  "before_all prev ss \<longleftrightarrow> (\<forall>p. prev = Some p \<longrightarrow> (\<forall>s \<in> set ss. p < age s))"

lemma check_page_sorted:
  "sorted_wrt (\<lambda>x y. age x < age y) ss \<Longrightarrow> \<forall>s \<in> set ss. sn_id s \<noteq> [] \<and> utf8_valid (sn_id s) \<Longrightarrow> before_all prev ss \<Longrightarrow>
     check_page prev (map loaded ss) = Inr (if ss = [] then prev else Some (age (last ss)), map candidate (filter (\<lambda>s. sn_parent s = []) ss))"
proof (induction ss arbitrary: prev)
  case (Cons s ss)
  have "before_all (Some (age s)) ss" using Cons.prems(1) by (simp add: before_all_def)
  with Cons have ih: "check_page (Some (age s)) (map loaded ss) =
      Inr (if ss = [] then Some (age s) else Some (age (last ss)), map candidate (filter (\<lambda>s. sn_parent s = []) ss))" by simp
  have "\<not> (case prev of None \<Rightarrow> False | Some p \<Rightarrow> age s \<le> p)" using Cons.prems(3) by (auto simp: before_all_def split: option.splits)
  with ih Cons.prems(2) show ?case by (cases prev) (simp_all add: age_def candidate_def)
qed simp

lemma scan_pages_sorted:
  assumes l: "sorted_wrt (\<lambda>x y. age x < age y) xs" "\<forall>s \<in> set xs. sn_id s \<noteq> [] \<and> utf8_valid (sn_id s)"
    and pages: "\<And>off. pages off = map loaded (take page_size (drop off xs))"
  shows "length xs < off + k * page_size \<Longrightarrow> off \<le> length xs \<Longrightarrow> before_all prev (drop off xs) \<Longrightarrow>
     scan_pages k pages off prev = Inr (map candidate (filter (\<lambda>s. sn_parent s = []) (drop off xs)))"
proof (induction k arbitrary: off prev)
  case 0
  then show ?case by simp
next
  case (Suc k)
  let ?page = "take page_size (drop off xs)"
  have s: "sorted_wrt (\<lambda>x y. age x < age y) (drop off xs)" using l(1) by (rule sorted_wrt_drop)
  have c: "check_page prev (map loaded ?page) = Inr (if ?page = [] then prev else Some (age (last ?page)), map candidate (filter (\<lambda>s. sn_parent s = []) ?page))"
  proof (rule check_page_sorted)
    show "sorted_wrt (\<lambda>x y. age x < age y) ?page" using s by (rule sorted_wrt_take)
    show "\<forall>s \<in> set ?page. sn_id s \<noteq> [] \<and> utf8_valid (sn_id s)" using l(2) by (meson in_set_dropD in_set_takeD)
    show "before_all prev ?page" using Suc.prems(3) by (auto simp: before_all_def dest: in_set_takeD)
  qed
  show ?case
  proof (cases "length ?page < page_size")
    case True
    then have "?page = drop off xs" by simp
    with True c pages [of off] show ?thesis by simp
  next
    case False
    then have len: "length ?page = page_size" "page_size \<le> length xs - off" by simp_all
    then have ne: "?page \<noteq> []" by (auto simp: page_size_def)
    have rest: "drop off xs = ?page @ drop (off + page_size) xs" by (metis append_take_drop_id add.commute drop_drop)
    have "before_all (Some (age (last ?page))) (drop (off + page_size) xs)"
      using s ne unfolding before_all_def by (subst (asm) rest) (auto simp: sorted_wrt_append)
    moreover have "off + page_size \<le> length xs" using len(2) Suc.prems(2) by simp
    moreover have "length xs < off + page_size + k * page_size" using Suc.prems(1) by simp
    ultimately have "scan_pages k pages (off + page_size) (Some (age (last ?page))) =
        Inr (map candidate (filter (\<lambda>s. sn_parent s = []) (drop (off + page_size) xs)))" by (intro Suc.IH)
    with c len(1) ne pages [of off] show ?thesis by (subst rest) (simp add: Let_def)
  qed
qed

text \<open>What the code asks of a store: sorted pages, loads, and deletions of roots that promote their children.\<close>

locale retention_store =
  fixes list :: "nat \<Rightarrow> 's \<Rightarrow> session list" and load :: "string \<Rightarrow> 's \<Rightarrow> session_error + session"
    and delete :: "string \<Rightarrow> 's \<Rightarrow> session_error option \<times> 's" and rows :: "'s \<Rightarrow> session list"
  assumes list_page: "list off st = map loaded (take page_size (drop off (order_by age (rows st))))"
    and load_row: "load i st = (case find (\<lambda>s. sn_id s = i) (rows st) of None \<Rightarrow> Inl NotFound | Some r \<Rightarrow> Inr (loaded r))"
    and delete_row: "find (\<lambda>s. sn_id s = i) (rows st) = Some r \<Longrightarrow> sn_parent r = [] \<Longrightarrow> i \<noteq> [] \<Longrightarrow>
      \<exists>st'. delete i st = (None, st') \<and> rows st' = rows_without {i} (rows st)"
begin

lemma prune_roots:
  "distinct (map fst cs) \<Longrightarrow>
   \<forall>c \<in> set cs. fst c \<noteq> [] \<and> (\<exists>r. find (\<lambda>s. sn_id s = fst c) (rows st) = Some r \<and> sn_parent r = [] \<and> sn_updated r = snd c) \<Longrightarrow>
   \<exists>st'. prune_candidates load delete cs n st = (Inr (n + length cs), st') \<and> rows st' = rows_without (fst ` set cs) (rows st)"
proof (induction cs arbitrary: n st)
  case (Cons c cs)
  obtain i t where c: "c = (i, t)" by fastforce
  with Cons.prems(2) obtain r where r: "find (\<lambda>s. sn_id s = i) (rows st) = Some r" "sn_parent r = []" "sn_updated r = t" "i \<noteq> []" by auto
  from delete_row [OF r(1,2,4)] obtain st1 where d: "delete i st = (None, st1)" "rows st1 = rows_without {i} (rows st)" by blast
  have "fst x \<noteq> [] \<and> (\<exists>r. find (\<lambda>s. sn_id s = fst x) (rows st1) = Some r \<and> sn_parent r = [] \<and> sn_updated r = snd x)" if x: "x \<in> set cs" for x
  proof -
    from Cons.prems(2) x obtain y where y: "fst x \<noteq> []" "find (\<lambda>s. sn_id s = fst x) (rows st) = Some y" "sn_parent y = []" "sn_updated y = snd x" by auto
    have "fst x \<noteq> i" using Cons.prems(1) x c by (auto simp: image_iff)
    with y r(4) show ?thesis by (simp add: d(2) find_rows_without)
  qed
  with Cons.IH [of st1 "n + 1"] Cons.prems(1) obtain st' where
    p: "prune_candidates load delete cs (n + 1) st1 = (Inr (n + 1 + length cs), st')" "rows st' = rows_without (fst ` set cs) (rows st1)" by auto
  have "[] \<notin> fst ` set cs" using Cons.prems(2) by auto
  then have "rows st' = rows_without (fst ` set (c # cs)) (rows st)" using p(2) d(2) c by (simp add: rows_without_union)
  moreover have "load i st = Inr (loaded r)" using r(1) by (simp add: load_row)
  ultimately show ?case using c d(1) p(1) r(2,3) by simp
qed simp

lemma enforce_rows:
  assumes "good_ids (rows st)" and "0 < limit" and "length (rows st) < k * page_size"
  shows "\<exists>st'. enforce_max k list load delete limit st = (Inr (length (root_list (rows st)) - nat limit), st') \<and>
    rows st' = rows_without {i. dropped limit (rows st) i} (rows st)"
proof -
  let ?xs = "order_by age (rows st)" and ?roots = "root_list (rows st)"
  have d: "distinct (map sn_id (rows st))" and v: "\<forall>s \<in> set ?xs. sn_id s \<noteq> [] \<and> utf8_valid (sn_id s)" using assms(1) by (simp_all add: good_ids_def)
  have roots: "filter (\<lambda>s. sn_parent s = []) ?xs = ?roots" by (simp add: root_list_def order_by_def filter_sort)
  have "scan_pages k (\<lambda>off. list off st) 0 None = Inr (map candidate (filter (\<lambda>s. sn_parent s = []) (drop 0 ?xs)))"
    by (rule scan_pages_sorted [OF sorted_ages [OF d] v]) (use assms(3) in \<open>simp_all add: list_page before_all_def order_by_def\<close>)
  then have scan: "scan_pages k (\<lambda>off. list off st) 0 None = Inr (map candidate ?roots)" by (simp add: roots)
  show ?thesis
  proof (cases "int (length ?roots) \<le> limit")
    case True
    then have n: "length ?roots - nat limit = 0" by simp
    then have "{i. dropped limit (rows st) i} = {}" using dropped_iff [OF d] by simp
    with scan True assms(2) n show ?thesis by (simp add: enforce_max_def)
  next
    case False
    let ?cs = "take (length ?roots - nat limit) (map candidate ?roots)"
    have ids: "map fst ?cs = map sn_id (take (length ?roots - nat limit) ?roots)" by (simp add: take_map candidate_def)
    have "distinct (map sn_id ?roots)"
      using d unfolding root_list_def order_by_def by (metis (no_types, lifting) distinct_map_filter mset_eq_imp_distinct_iff mset_map mset_sort)
    then have "distinct (map fst ?cs)" unfolding ids by (metis distinct_take take_map)
    moreover have "fst c \<noteq> [] \<and> (\<exists>r. find (\<lambda>s. sn_id s = fst c) (rows st) = Some r \<and> sn_parent r = [] \<and> sn_updated r = snd c)" if c: "c \<in> set ?cs" for c
    proof -
      from c obtain s where s: "s \<in> set ?roots" "c = candidate s" by (metis in_set_takeD image_iff list.set_map)
      then have "s \<in> set (rows st)" "sn_parent s = []" by (simp_all add: root_list_set)
      with s(2) v find_distinct_key [OF d] show ?thesis by (simp add: candidate_def)
    qed
    ultimately obtain st' where p: "prune_candidates load delete ?cs 0 st = (Inr (0 + length ?cs), st')" "rows st' = rows_without (fst ` set ?cs) (rows st)"
      using prune_roots by blast
    have "fst ` set ?cs = {i. dropped limit (rows st) i}" using dropped_iff [OF d] ids by (metis (no_types, lifting) Collect_cong Collect_mem_eq list.set_map)
    with p scan False assms(2) show ?thesis by (simp add: enforce_max_def)
  qed
qed

end

interpretation pg: retention_store oldest_page load_session delete_session sx_sessions
proof
  show "oldest_page off st = map loaded (take page_size (drop off (order_by age (sx_sessions st))))" for off st
    by (simp add: oldest_page_def list_sessions_def listed_def age_fold page_size_def Let_def)
  show "load_session i st = (case find (\<lambda>s. sn_id s = i) (sx_sessions st) of None \<Rightarrow> Inl NotFound | Some r \<Rightarrow> Inr (loaded r))" for i st
    by (simp add: load_session_def find_session_def)
  show "\<exists>st'. delete_session i st = (None, st') \<and> sx_sessions st' = rows_without {i} (sx_sessions st)"
    if "find (\<lambda>s. sn_id s = i) (sx_sessions st) = Some r" "sn_parent r = []" "i \<noteq> []" for i st r
    using delete_root [of i st r] that by (simp add: find_session_def)
qed

text \<open>
  C38. Both forms of the bound on the number of sessions keep the same sessions, the newest.  The scan by pages and the single statement
  delete the same number of sessions and leave the same ones: every session with a parent, and those without one that have fewer than the allowed
  number of newer ones beside them; a session whose parent was deleted has none afterwards, and all else is as before.
\<close>

theorem retention_forms_agree:
  assumes "good_ids (sx_sessions db)" and "0 < limit" and "length (sx_sessions db) < k * page_size"
  shows "\<exists>n db1 db2. enforce_max k oldest_page load_session delete_session limit db = (Inr n, db1) \<and> enforce_max_sessions limit db = (Inr n, db2) \<and>
    sx_sessions db1 = sx_sessions db2 \<and>
    n = length (filter (\<lambda>s. sn_parent s = []) (sx_sessions db)) - nat limit \<and>
    (\<forall>s \<in> set (sx_sessions db). find_session (sn_id s) db2 =
       (if dropped limit (sx_sessions db) (sn_id s) then None
        else Some (if dropped limit (sx_sessions db) (sn_parent s) then s\<lparr>sn_parent := []\<rparr> else s)))"
proof -
  have i: "ids_distinct db" "[] \<notin> sn_id ` set (sx_sessions db)" using assms(1) by (auto simp: good_ids_def ids_distinct_def image_iff)
  from pg.enforce_rows [OF assms] obtain db1 where 1: "enforce_max k oldest_page load_session delete_session limit db = (Inr (length (root_list (sx_sessions db)) - nat limit), db1)"
    "sx_sessions db1 = rows_without {i. dropped limit (sx_sessions db) i} (sx_sessions db)" by blast
  have n: "length (root_list (sx_sessions db)) = length (filter (\<lambda>s. sn_parent s = []) (sx_sessions db))" by (simp add: root_list_def order_by_def)
  show ?thesis
    using 1 n enforce_native [OF i, of limit] find_session_row [OF i(1)]
    by (intro exI [of _ "length (root_list (sx_sessions db)) - nat limit"] exI [of _ db1] exI [of _ "without_roots {i. dropped limit (sx_sessions db) i} db"])
       (simp add: find_without)
qed

subsection \<open>Sample runs\<close>

definition say :: "string \<Rightarrow> chat_message" where
  "say t = \<lparr>cm_role = ''user'', cm_content = t, cm_calls = [], cm_call_id = [], cm_attachments = []\<rparr>"

definition talk :: "string \<Rightarrow> string list \<Rightarrow> session" where
  "talk i ts = (new_session ''/work'' i 0)\<lparr>sn_messages := map say ts\<rparr>"

definition empty_db :: session_db where
  "empty_db = \<lparr>sx_sessions = [], sx_routes = [], sx_runtime = []\<rparr>"

definition with_talk :: "string \<Rightarrow> string list \<Rightarrow> int \<Rightarrow> session_db \<Rightarrow> session_db" where
  "with_talk i ts now db = snd (create_session [] now (talk i ts) db)"

definition resaved :: "string \<Rightarrow> string list \<Rightarrow> int \<Rightarrow> session_db \<Rightarrow> session_db" where
  "resaved i ts now db = (case load_session i db of Inl e \<Rightarrow> db | Inr s \<Rightarrow> snd (save_session now (s\<lparr>sn_messages := sn_messages s @ map say ts\<rparr>) db))"




definition two_roots :: session_db where
  "two_roots = snd (branch_session ''p'' 1 ''c'' 3 (with_talk ''q'' [] 2 (with_talk ''p'' [''one''] 1 empty_db)))"

lemma retention_forms_agree_witness:
  "\<exists>n db1 db2. enforce_max 1 oldest_page load_session delete_session 1 two_roots = (Inr n, db1) \<and> enforce_max_sessions 1 two_roots = (Inr n, db2) \<and>
     n = 1 \<and> sx_sessions db1 = sx_sessions db2 \<and> find_session ''q'' db2 = None"
proof -
  have g: "good_ids (sx_sessions two_roots)" by code_simp
  have l: "length (sx_sessions two_roots) < 1 * page_size" by code_simp
  have n: "length (filter (\<lambda>s. sn_parent s = []) (sx_sessions two_roots)) = 2" by code_simp
  have i: "list_ex (\<lambda>s. sn_id s = ''q'') (sx_sessions two_roots)" by code_simp
  have d: "dropped 1 (sx_sessions two_roots) ''q''" by code_simp
  from retention_forms_agree [OF g _ l, of 1] n i d show ?thesis by (fastforce simp: list_ex_iff)
qed


subsection \<open>What deletions break\<close>

text \<open>
  A session whose parent was deleted belongs to its grandparent, but keeps the branch point of its parent: a merge then appends
  its tail to a history it did not branch from.
\<close>

definition promoted_db :: session_db where
  "promoted_db = snd (delete_session ''p'' (resaved ''c'' [''three''] 6 (snd (branch_session ''p'' 2 ''c'' 5 (resaved ''p'' [''two''] 4
     (snd (branch_session ''g'' 1 ''p'' 3 (with_talk ''g'' [''one'', ''other''] 1 empty_db))))))))"

lemma merge_after_promotion:
  "map cm_content (sn_messages (the (find_session ''c'' promoted_db))) = [''one'', ''two'', ''three''] \<and>
   (case merge_session ''c'' 7 promoted_db of (Inl e, db) \<Rightarrow> False | (Inr p, db) \<Rightarrow> map cm_content (sn_messages p) = [''one'', ''other'', ''three''])"
  by code_simp

text \<open>
  Moving the children of a deleted session leaves their versions alone, so a client with an older copy writes the deleted parent back.
\<close>

definition dangling_db :: session_db where
  "dangling_db = (let db = snd (branch_session ''p'' 1 ''c'' 2 (with_talk ''p'' [''one''] 1 empty_db)) in
     case load_session ''c'' db of Inl e \<Rightarrow> db | Inr s \<Rightarrow> snd (save_session 3 s (snd (delete_session ''p'' db))))"

lemma stale_save_dangles:
  "sn_updated (the (find_session ''c'' dangling_db)) = 3 \<and> sn_parent (the (find_session ''c'' dangling_db)) = ''p'' \<and> find_session ''p'' dangling_db = None"
  by code_simp

text \<open>A chat that follows a session still resolves to it after its deletion.\<close>

lemma deleted_session_followed:
  "resolve_route ''tg'' ''1'' [] [] (snd (delete_session ''p'' (follow_route ''tg'' ''1'' ''p'' 4 (bind_route ''tg'' ''1'' [] ''q'' 3
     (with_talk ''q'' [] 2 (with_talk ''p'' [] 1 empty_db)))))) = ''p''"
  by code_simp

text \<open>A stash file that does not parse is replaced by the next save.\<close>

lemma stash_save_forgets: "txt \<noteq> [] \<Longrightarrow> stash_save txt fresh now None = (Inr fresh, Some [\<lparr>st_id = fresh, st_text = txt, st_saved = now\<rparr>])"
  by (simp add: stash_save_def)

text \<open>Titles that are cut have at most 75 bytes.\<close>

lemma shrink_runes_short: "shrink_runes rs = [] \<or> length (concat (shrink_runes rs)) + 3 \<le> 75"
  by (induction rs rule: shrink_runes.induct) auto

lemma auto_title_cut:
  assumes "sn_title s = []" and "first \<noteq> []" and "72 < length (runes (trim_space first))"
  shows "length (sn_title (auto_title first s)) \<le> 75"
proof -
  let ?m = "concat (shrink_runes (take 72 (runes (trim_space first))))"
  have "length ?m + 3 \<le> 75" using shrink_runes_short [of "take 72 (runes (trim_space first))"] by (elim disjE) simp_all
  then show ?thesis using assms by (auto simp: auto_title_def Let_def split: option.splits)
qed

end
