(* ===== verification/Checkpoint.thy ===== *)
theory Checkpoint
  imports Go_Text "HOL-Library.Sublist"
begin

text \<open>
  Checkpoints of files (\<open>internal/checkpoint/checkpoint.go\<close>): copies of files, kept under the hash of their content, that
  a restore writes back.  A file system is a table of nodes under absolute paths, a path the list of its elements; the workspace is
  reached without symbolic links, and nothing else changes files while an operation runs.  SHA-256, the files Git lists, the size of a manifest's text
  and new ids are parameters; each file that a restore writes has an outcome of its own.
\<close>

subsection \<open>Files\<close>

type_synonym path = "string list"

datatype node = File string nat | Directory | Link | Special

type_synonym files = "(path \<times> node) list"

definition node_at :: "files \<Rightarrow> path \<Rightarrow> node option" where
  "node_at fs p = (if p = [] then Some Directory else map_of fs p)"

definition set_node :: "path \<Rightarrow> node \<Rightarrow> files \<Rightarrow> files" where
  "set_node p n fs = (p, n) # filter (\<lambda>x. fst x \<noteq> p) fs"

definition drop_node :: "path \<Rightarrow> files \<Rightarrow> files" where
  "drop_node p fs = filter (\<lambda>x. fst x \<noteq> p) fs"

definition below :: "path \<Rightarrow> path \<Rightarrow> bool" where
  "below base p \<longleftrightarrow> take (length base) p = base \<and> length base < length p"

definition parents :: "path \<Rightarrow> path list" where
  "parents p = map (\<lambda>n. take n p) [1..<length p]"

text \<open>\<open>Lstat\<close>: below what is no directory there is an error, not a missing file.\<close>

datatype lstat = Missing | NotADirectory | Found node

definition lstat :: "files \<Rightarrow> path \<Rightarrow> lstat" where
  "lstat fs p = (if list_ex (\<lambda>q. case node_at fs q of None \<Rightarrow> False | Some n \<Rightarrow> n \<noteq> Directory) (parents p) then NotADirectory
     else case node_at fs p of None \<Rightarrow> Missing | Some n \<Rightarrow> Found n)"

datatype check_error = OutsideWorkspace | RootMissing | SymbolicLink | FileError | NotRegular | TooLarge | SessionMismatch | TooMany | WorkspaceTooLarge
  | IdTaken | NoWorkspace | NoInventory | InvalidId | NoCheckpoint | InvalidManifest | DuplicatePath | InvalidContent | RestoreIncomplete

subsection \<open>Manifests\<close>

record entry =
  en_path :: path
  en_sha :: string
  en_size :: int
  en_mode :: nat
  en_existed :: bool

datatype scope = NoScope | GitVisible | WholeWorkspace

record manifest =
  mf_version :: int
  mf_id :: string
  mf_session :: string
  mf_reason :: string
  mf_created :: int
  mf_entries :: "entry list"
  mf_scope :: scope
  mf_recovery_of :: string

text \<open>A directory of the checkpoint store: the manifest, if its text is one, and the contents under their hashes.\<close>

record saved =
  sv_manifest :: "manifest option"
  sv_blobs :: "(string \<times> string) list"

type_synonym checkpoints = "(string \<times> saved) list"

record manager =
  kp_root :: path
  kp_project :: "path option"
  kp_session :: string
  kp_keep :: nat
  kp_limit :: int

record check_env =
  ck_sha :: "string \<Rightarrow> string"
  ck_git :: "files \<Rightarrow> path \<Rightarrow> string list option"
  ck_manifest_size :: "manifest \<Rightarrow> int"
  ck_cwd :: path

definition new_manager :: "path \<Rightarrow> int \<Rightarrow> path option \<Rightarrow> manager" where
  "new_manager dir keep project = \<lparr>kp_root = dir, kp_project = project, kp_session = [], kp_keep = (if keep \<le> 0 then 20 else nat keep), kp_limit = 1048576\<rparr>"

definition new_session_manager :: "path \<Rightarrow> int \<Rightarrow> path \<Rightarrow> string \<Rightarrow> manager option" where
  "new_session_manager dir keep workspace session = (if session = [] then None else Some ((new_manager dir keep (Some workspace))\<lparr>kp_session := session\<rparr>))"

definition max_files :: nat where "max_files = 4096"
definition max_bytes :: int where "max_bytes = 67108864"
definition max_manifest :: int where "max_manifest = 4194304"

subsection \<open>Reading\<close>

text \<open>The absolute path of a request: relative ones start at the project or the working directory.\<close>

definition absolute :: "check_env \<Rightarrow> manager \<Rightarrow> string \<Rightarrow> path" where
  "absolute E m s = (if has_prefix s ''/'' then clean_elems True [] (split_on CHR ''/'' s)
     else clean_elems True [] ((case kp_project m of Some b \<Rightarrow> b | None \<Rightarrow> ck_cwd E) @ split_on CHR ''/'' s))"

text \<open>The loop over the elements of a path below its base.\<close>

fun check_elements :: "files \<Rightarrow> path \<Rightarrow> path \<Rightarrow> check_error option" where
  "check_elements fs q [] = None"
| "check_elements fs q (e # es) =
     (case lstat fs (q @ [e]) of
        Missing \<Rightarrow> None
      | NotADirectory \<Rightarrow> Some FileError
      | Found Link \<Rightarrow> Some SymbolicLink
      | Found n \<Rightarrow> check_elements fs (q @ [e]) es)"

definition open_path :: "manager \<Rightarrow> files \<Rightarrow> path \<Rightarrow> check_error option" where
  "open_path m fs p =
    (let base = (case kp_project m of Some b \<Rightarrow> b | None \<Rightarrow> butlast p) in
     if \<not> below base p then Some OutsideWorkspace
     else if lstat fs base \<noteq> Found Directory then Some RootMissing
     else check_elements fs base (drop (length base) p))"

definition read_entry :: "check_env \<Rightarrow> int \<Rightarrow> files \<Rightarrow> path \<Rightarrow> check_error + entry \<times> string" where
  "read_entry E limit fs p =
    (case lstat fs p of
       Missing \<Rightarrow> Inr (\<lparr>en_path = p, en_sha = [], en_size = 0, en_mode = 0, en_existed = False\<rparr>, [])
     | Found (File c md) \<Rightarrow>
         if limit < int (length c) then Inl TooLarge
         else Inr (\<lparr>en_path = p, en_sha = ck_sha E c, en_size = int (length c), en_mode = md, en_existed = True\<rparr>, c)
     | Found n \<Rightarrow> Inl NotRegular
     | NotADirectory \<Rightarrow> Inl FileError)"

text \<open>The walk over the tree: what is no directory, without the \<open>.git\<close> directories and the checkpoints.\<close>

definition walked :: "manager \<Rightarrow> path \<Rightarrow> files \<Rightarrow> path list" where
  "walked m root fs = order_by (\<lambda>p. p) (remdups (map fst (filter (\<lambda>x. below root (fst x) \<and> snd x \<noteq> Directory \<and>
     \<not> list_ex (\<lambda>q. node_at fs q = Some Directory \<and> length root \<le> length q \<and> (q \<noteq> [] \<and> last q = ''.git'' \<or> q = kp_root m)) (parents (fst x))) fs)))"

definition workspace_paths :: "check_env \<Rightarrow> manager \<Rightarrow> scope \<Rightarrow> files \<Rightarrow> check_error + path list \<times> scope" where
  "workspace_paths E m scope fs =
    (case kp_project m of None \<Rightarrow> Inl NoWorkspace | Some root \<Rightarrow>
      (case (if scope = WholeWorkspace then None else ck_git E fs root) of
         Some names \<Rightarrow>
           let ps = map (\<lambda>n. clean_elems True [] (root @ split_on CHR ''/'' n)) (filter (\<lambda>n. n \<noteq> []) names) in
           Inr (filter (\<lambda>p. \<not> (below (kp_root m) p \<or> p = kp_root m)) ps, GitVisible)
       | None \<Rightarrow>
           if scope = GitVisible then Inl NoInventory
           else if node_at fs root \<noteq> Some Directory then Inl FileError
           else let ps = walked m root fs in
             if max_files < length ps then Inl TooMany else Inr (ps, WholeWorkspace)))"

subsection \<open>Snapshots\<close>

text \<open>The loop that captures files, with the paths it has and the size of their contents; a later content under the same hash replaces the earlier one.\<close>

fun capture :: "check_env \<Rightarrow> manager \<Rightarrow> files \<Rightarrow> path list \<Rightarrow> int \<Rightarrow> path list \<Rightarrow> check_error + entry list \<times> (string \<times> string) list" where
  "capture E m fs seen used [] = Inr ([], [])"
| "capture E m fs seen used (p # ps) =
     (case open_path m fs p of Some e \<Rightarrow> Inl e | None \<Rightarrow>
     (case read_entry E (kp_limit m) fs p of Inl e \<Rightarrow> Inl e | Inr (en, c) \<Rightarrow>
      if p \<in> set seen then capture E m fs seen used ps
      else if max_bytes < used + int (length c) then Inl WorkspaceTooLarge
      else (case capture E m fs (p # seen) (used + int (length c)) ps of Inl e \<Rightarrow> Inl e
        | Inr (ens, cs) \<Rightarrow> Inr (en # ens, if en_existed en then cs @ [(en_sha en, c)] else cs))))"

definition load_manifest :: "check_env \<Rightarrow> string \<Rightarrow> checkpoints \<Rightarrow> check_error + manifest" where
  "load_manifest E i cps =
    (if i = [] \<or> i = ''.'' \<or> i = ''..'' \<or> contains_any i [CHR ''/'', CHR 0x5C] then Inl InvalidId
     else (case map_of cps i of None \<Rightarrow> Inl NoCheckpoint | Some sv \<Rightarrow>
       (case sv_manifest sv of None \<Rightarrow> Inl InvalidManifest | Some man \<Rightarrow>
         if max_manifest < ck_manifest_size E man then Inl InvalidManifest
         else if mf_id man \<noteq> i \<or> max_files < length (mf_entries man) then Inl InvalidManifest else Inr man)))"

definition list_manifests :: "check_env \<Rightarrow> string \<Rightarrow> checkpoints \<Rightarrow> manifest list" where
  "list_manifests E session cps = order_by (\<lambda>man. - mf_created man)
     (filter (\<lambda>man. session = [] \<or> mf_session man = session)
       (List.map_filter (\<lambda>x. case load_manifest E (fst x) cps of Inl e \<Rightarrow> None | Inr man \<Rightarrow> Some man) cps))"

definition list_checkpoints :: "check_env \<Rightarrow> manager \<Rightarrow> string \<Rightarrow> checkpoints \<Rightarrow> check_error + manifest list" where
  "list_checkpoints E m session cps =
    (if kp_session m \<noteq> [] \<and> session \<noteq> [] \<and> session \<noteq> kp_session m then Inl SessionMismatch
     else Inr (list_manifests E (if kp_session m \<noteq> [] then kp_session m else session) cps))"

definition prune_session :: "check_env \<Rightarrow> manager \<Rightarrow> string \<Rightarrow> checkpoints \<Rightarrow> checkpoints" where
  "prune_session E m session cps =
    (let old = drop (kp_keep m) (list_manifests E session cps) in filter (\<lambda>x. fst x \<notin> mf_id ` set old) cps)"

text \<open>\<open>snapshotLocked\<close>; \<open>io\<close> says whether the writes to the store succeed, without which nothing is published.\<close>

definition snapshot_locked :: "check_env \<Rightarrow> manager \<Rightarrow> string \<Rightarrow> string \<Rightarrow> path list \<Rightarrow> string \<Rightarrow> string \<Rightarrow> int \<Rightarrow> bool \<Rightarrow> files \<Rightarrow> checkpoints
    \<Rightarrow> (check_error + manifest) \<times> checkpoints" where
  "snapshot_locked E m session reason paths recovery fresh now io fs cps =
    (if kp_session m \<noteq> [] \<and> session \<noteq> kp_session m then (Inl SessionMismatch, cps)
     else (case (if paths = [] then workspace_paths E m NoScope fs else Inr (paths, NoScope)) of Inl e \<Rightarrow> (Inl e, cps) | Inr (paths, scope) \<Rightarrow>
       if max_files < length paths then (Inl TooMany, cps)
       else if map_of cps fresh \<noteq> None then (Inl IdTaken, cps)
       else (case capture E m fs [] 0 paths of Inl e \<Rightarrow> (Inl e, cps) | Inr (ens, blobs) \<Rightarrow>
         if \<not> io then (Inl FileError, cps)
         else
           let man = \<lparr>mf_version = 2, mf_id = fresh, mf_session = session, mf_reason = reason, mf_created = now, mf_entries = ens, mf_scope = scope,
                 mf_recovery_of = recovery\<rparr>;
               cps = (fresh, \<lparr>sv_manifest = Some man, sv_blobs = blobs\<rparr>) # cps
           in (Inr man, if session \<noteq> [] \<and> recovery = [] then prune_session E m session cps else cps))))"

definition snapshot :: "check_env \<Rightarrow> manager \<Rightarrow> string \<Rightarrow> string \<Rightarrow> string list \<Rightarrow> string \<Rightarrow> int \<Rightarrow> bool \<Rightarrow> files \<Rightarrow> checkpoints
    \<Rightarrow> (check_error + manifest) \<times> checkpoints" where
  "snapshot E m session reason requests fresh now io fs cps = snapshot_locked E m session reason (map (absolute E m) requests) [] fresh now io fs cps"

subsection \<open>Restoring\<close>

text \<open>The preflight: every entry can be put back, with verified content.  \<open>valid_hash\<close> is 64 hexadecimal digits.\<close>

definition hex_char :: "char \<Rightarrow> bool" where
  "hex_char c \<longleftrightarrow> is_digit c \<or> (97 \<le> byte c \<and> byte c \<le> 102) \<or> (65 \<le> byte c \<and> byte c \<le> 70)"

definition valid_hash :: "string \<Rightarrow> bool" where
  "valid_hash h \<longleftrightarrow> length h = 64 \<and> list_all hex_char h"

definition stored_content :: "check_env \<Rightarrow> manager \<Rightarrow> saved \<Rightarrow> entry \<Rightarrow> check_error + string" where
  "stored_content E m sv en =
    (if \<not> en_existed en then Inr []
     else if \<not> valid_hash (en_sha en) then Inl InvalidContent
     else (case map_of (sv_blobs sv) (en_sha en) of None \<Rightarrow> Inl FileError | Some c \<Rightarrow>
       if int (length c) \<noteq> en_size en \<or> kp_limit m < int (length c) \<or> ck_sha E c \<noteq> en_sha en then Inl InvalidContent else Inr c))"

fun preflight :: "check_env \<Rightarrow> manager \<Rightarrow> saved \<Rightarrow> files \<Rightarrow> path list \<Rightarrow> int \<Rightarrow> entry list \<Rightarrow> check_error + (entry \<times> string) list" where
  "preflight E m sv fs seen used [] = Inr []"
| "preflight E m sv fs seen used (en # ens) =
     (case open_path m fs (en_path en) of Some e \<Rightarrow> Inl e | None \<Rightarrow>
     (case read_entry E (kp_limit m) fs (en_path en) of Inl e \<Rightarrow> Inl e | Inr _ \<Rightarrow>
      if en_path en \<in> set seen then Inl DuplicatePath
      else (case stored_content E m sv en of Inl e \<Rightarrow> Inl e | Inr c \<Rightarrow>
        if max_bytes < used + int (length c) then Inl WorkspaceTooLarge
        else (case preflight E m sv fs (en_path en # seen) (used + int (length c)) ens of Inl e \<Rightarrow> Inl e
          | Inr ts \<Rightarrow> Inr ((en, c) # ts)))))"

definition gone :: "path \<Rightarrow> entry" where
  "gone p = \<lparr>en_path = p, en_sha = [], en_size = 0, en_mode = 0, en_existed = False\<rparr>"

text \<open>\<open>MkdirAll\<close> and the write through a temporary file; \<open>Remove\<close> also takes empty directories.\<close>

definition mkdir_all :: "path \<Rightarrow> files \<Rightarrow> files option" where
  "mkdir_all p fs =
    (if list_ex (\<lambda>q. case node_at fs q of None \<Rightarrow> False | Some n \<Rightarrow> n \<noteq> Directory) (parents (p @ [[]])) then None
     else Some (fold (\<lambda>q fs. if node_at fs q = None then set_node q Directory fs else fs) (parents (p @ [[]])) fs))"

datatype io_outcome = AllDone | NothingDone | OnlyDirectories | DoneButFailed

definition write_back :: "io_outcome \<Rightarrow> path \<Rightarrow> string \<Rightarrow> nat \<Rightarrow> files \<Rightarrow> bool \<times> files" where
  "write_back io p c md fs =
    (case mkdir_all (butlast p) fs of None \<Rightarrow> (False, fs) | Some fs' \<Rightarrow>
       if io = NothingDone then (False, fs)
       else if io = OnlyDirectories \<or> node_at fs' p = Some Directory then (False, fs')
       else (io = AllDone, set_node p (File c md) fs'))"

definition remove_back :: "io_outcome \<Rightarrow> path \<Rightarrow> files \<Rightarrow> bool \<times> files" where
  "remove_back io p fs =
    (case lstat fs p of
       Missing \<Rightarrow> (io = AllDone, fs)
     | NotADirectory \<Rightarrow> (False, fs)
     | Found n \<Rightarrow>
         if n = Directory \<and> list_ex (\<lambda>x. below p (fst x)) fs then (False, fs)
         else if io = AllDone \<or> io = DoneButFailed then (io = AllDone, drop_node p fs) else (False, fs))"

fun apply_targets :: "manager \<Rightarrow> int \<Rightarrow> io_outcome list \<Rightarrow> (entry \<times> string) list \<Rightarrow> files \<Rightarrow> check_error option \<times> files" where
  "apply_targets m version ios [] fs = (None, fs)"
| "apply_targets m version ios ((en, c) # ts) fs =
     (let io = (case ios of [] \<Rightarrow> AllDone | io # _ \<Rightarrow> io) in
      (case open_path m fs (en_path en) of Some e \<Rightarrow> (Some e, fs) | None \<Rightarrow>
       (case (if en_existed en then write_back io (en_path en) c (if version < 2 \<and> en_mode en = 0 then 384 else en_mode en) fs
              else remove_back io (en_path en) fs) of
          (False, fs) \<Rightarrow> (Some RestoreIncomplete, fs)
        | (True, fs) \<Rightarrow> apply_targets m version (drop 1 ios) ts fs)))"

definition restore :: "check_env \<Rightarrow> manager \<Rightarrow> string \<Rightarrow> string \<Rightarrow> int \<Rightarrow> bool \<Rightarrow> io_outcome list \<Rightarrow> files \<Rightarrow> checkpoints
    \<Rightarrow> check_error option \<times> files \<times> checkpoints" where
  "restore E m i fresh now io ios fs cps =
    (case load_manifest E i cps of Inl e \<Rightarrow> (Some e, fs, cps) | Inr man \<Rightarrow>
     if kp_session m \<noteq> [] \<and> mf_session man \<noteq> kp_session m then (Some SessionMismatch, fs, cps)
     else (case preflight E m (the (map_of cps i)) fs [] 0 (mf_entries man) of Inl e \<Rightarrow> (Some e, fs, cps) | Inr ts \<Rightarrow>
       (case (if mf_scope man = NoScope then Inr ([], NoScope) else workspace_paths E m (mf_scope man) fs) of Inl e \<Rightarrow> (Some e, fs, cps) | Inr (current, _) \<Rightarrow>
         let extra = filter (\<lambda>p. p \<notin> en_path ` set (mf_entries man)) current;
             targets = ts @ map (\<lambda>p. (gone p, [])) extra;
             paths = map (\<lambda>t. en_path (fst t)) targets
         in if paths = [] then (None, fs, cps)
            else (case snapshot_locked E m (mf_session man) (''before restore '' @ i) paths i fresh now io fs cps of
                (Inl e, cps) \<Rightarrow> (Some e, fs, cps)
              | (Inr _, cps) \<Rightarrow> (case apply_targets m (mf_version man) ios targets fs of (e, fs) \<Rightarrow> (e, fs, cps))))))"

end
