(* ===== verification/Checkpoint_Props.thy ===== *)
theory Checkpoint_Props
  imports Checkpoint
begin

text \<open>
  What the checkpoints of \<open>Checkpoint\<close> promise: a restore that reports success puts back the content and the mode of every file the
  checkpoint holds and touches no other file, whatever happened in between; one that fails half way leaves a checkpoint of what it
  replaced; and no file outside the selected workspace changes.
\<close>

text \<open>What a program sees of a file: its bytes and its mode.\<close>

definition file_at :: "files \<Rightarrow> path \<Rightarrow> (string \<times> nat) option" where
  "file_at fs p = (case node_at fs p of Some (File c md) \<Rightarrow> Some (c, md) | _ \<Rightarrow> None)"

text \<open>What a restore wants under the path of an entry.\<close>

definition wanted :: "int \<Rightarrow> entry \<times> string \<Rightarrow> (string \<times> nat) option" where
  "wanted version t = (if en_existed (fst t) then Some (snd t, if version < 2 \<and> en_mode (fst t) = 0 then 384 else en_mode (fst t)) else None)"

text \<open>The manifest and its contents say what the files were.\<close>

definition records :: "files \<Rightarrow> saved \<Rightarrow> manifest \<Rightarrow> bool" where
  "records fs sv man \<longleftrightarrow> mf_version man = 2 \<and> (\<forall>en \<in> set (mf_entries man).
     if en_existed en then \<exists>c. file_at fs (en_path en) = Some (c, en_mode en) \<and> (\<forall>d. map_of (sv_blobs sv) (en_sha en) = Some d \<longrightarrow> d = c)
     else file_at fs (en_path en) = None)"

subsection \<open>Single files\<close>

lemma map_of_without: "map_of (filter (\<lambda>x. fst x \<noteq> p) fs) q = (if q = p then None else map_of fs q)"
  by (induction fs) auto

lemma file_at_set: "p \<noteq> [] \<Longrightarrow> file_at (set_node p n fs) q = (if q = p then (case n of File c md \<Rightarrow> Some (c, md) | _ \<Rightarrow> None) else file_at fs q)"
  by (auto simp: file_at_def node_at_def set_node_def map_of_without split: node.splits)

lemma file_at_drop: "p \<noteq> [] \<Longrightarrow> file_at (drop_node p fs) q = (if q = p then None else file_at fs q)"
  by (auto simp: file_at_def node_at_def drop_node_def map_of_without)

lemma file_at_mkdir: "node_at fs p = None \<Longrightarrow> file_at (set_node p Directory fs) q = file_at fs q"
  by (cases "p = []") (auto simp: file_at_def node_at_def set_node_def map_of_without)

lemma mkdir_all_files: "mkdir_all p fs = Some fs' \<Longrightarrow> file_at fs' q = file_at fs q"
proof -
  have "file_at (fold (\<lambda>q fs. if node_at fs q = None then set_node q Directory fs else fs) ps fs) q = file_at fs q" for ps
    by (induction ps arbitrary: fs) (auto simp: file_at_mkdir)
  then show "mkdir_all p fs = Some fs' \<Longrightarrow> ?thesis" by (auto simp: mkdir_all_def split: if_splits)
qed

lemma lstat_Missing: "lstat fs p = Missing \<Longrightarrow> node_at fs p = None"
  by (auto simp: lstat_def split: if_splits option.splits)

lemma lstat_Found: "lstat fs p = Found n \<Longrightarrow> node_at fs p = Some n"
  by (auto simp: lstat_def split: if_splits option.splits)

lemma lstat_Missing_file: "lstat fs p = Missing \<Longrightarrow> file_at fs p = None"
  by (simp add: file_at_def lstat_Missing)

lemma write_back_files:
  assumes "write_back io p c md fs = (ok, fs')" "p \<noteq> []"
  shows "file_at fs' q = file_at fs q \<or> (q = p \<and> file_at fs' q = Some (c, md))" "ok \<Longrightarrow> file_at fs' p = Some (c, md)"
  using assms by (auto simp: write_back_def file_at_set mkdir_all_files split: option.splits if_splits)

lemma remove_back_files:
  assumes "remove_back io p fs = (ok, fs')" "p \<noteq> []"
  shows "file_at fs' q = file_at fs q \<or> (q = p \<and> file_at fs' q = None)" "ok \<Longrightarrow> file_at fs' p = None"
  using assms by (auto simp: remove_back_def file_at_drop lstat_Missing_file split: lstat.splits if_splits)

lemma open_path_below: "open_path m fs p = None \<Longrightarrow> p \<noteq> [] \<and> (\<forall>b. kp_project m = Some b \<longrightarrow> below b p)"
  by (auto simp: open_path_def Let_def below_def split: option.splits if_splits)

subsection \<open>Applying the targets\<close>

lemma apply_targets_step:
  assumes "apply_targets m v ios ((en, c) # ts) fs = (e, fs')" "open_path m fs (en_path en) = None"
  obtains ok fs1 where "file_at fs1 q = file_at fs q \<or> (q = en_path en \<and> file_at fs1 q = wanted v (en, c))"
    "ok \<longrightarrow> file_at fs1 (en_path en) = wanted v (en, c)" "\<not> ok \<longrightarrow> fs' = fs1 \<and> e \<noteq> None"
    "ok \<longrightarrow> apply_targets m v (drop 1 ios) ts fs1 = (e, fs')"
proof -
  define r where "r = (if en_existed en then write_back (case ios of [] \<Rightarrow> AllDone | io # _ \<Rightarrow> io) (en_path en) c
      (if v < 2 \<and> en_mode en = 0 then 384 else en_mode en) fs
    else remove_back (case ios of [] \<Rightarrow> AllDone | io # _ \<Rightarrow> io) (en_path en) fs)"
  obtain ok fs1 where r: "r = (ok, fs1)" by fastforce
  have p: "en_path en \<noteq> []" using open_path_below[OF assms(2)] by blast
  have "file_at fs1 q = file_at fs q \<or> (q = en_path en \<and> file_at fs1 q = wanted v (en, c))"
    "ok \<longrightarrow> file_at fs1 (en_path en) = wanted v (en, c)"
    using r write_back_files[OF _ p] remove_back_files[OF _ p] by (auto simp: r_def wanted_def split: if_splits)
  moreover have "\<not> ok \<longrightarrow> fs' = fs1 \<and> e \<noteq> None" "ok \<longrightarrow> apply_targets m v (drop 1 ios) ts fs1 = (e, fs')"
    using assms r by (auto simp: Let_def r_def[symmetric])
  ultimately show thesis by (rule that)
qed


lemma apply_targets_confined:
  assumes "apply_targets m v ios ts fs = (e, fs')" "kp_project m = Some base" "\<not> below base q"
  shows "file_at fs' q = file_at fs q"
  using assms(1)
proof (induction ts arbitrary: ios fs)
  case (Cons t ts)
  obtain en c where t: "t = (en, c)" by fastforce
  show ?case
  proof (cases "open_path m fs (en_path en)")
    case (Some x)
    then show ?thesis using Cons.prems(1) by (simp add: t Let_def)
  next
    case None
    then have "q \<noteq> en_path en" using open_path_below assms(2,3) by blast
    then show ?thesis
      using apply_targets_step[OF Cons.prems(1)[unfolded t] None, of q "file_at fs' q = file_at fs q"] Cons.IH by metis
  qed
qed simp

subsection \<open>Captured files\<close>

lemma read_entry_ok:
  assumes "read_entry E limit fs p = Inr (en, c)"
  shows "en_path en = p" "en_existed en \<Longrightarrow> file_at fs p = Some (c, en_mode en) \<and> en_sha en = ck_sha E c" "\<not> en_existed en \<Longrightarrow> file_at fs p = None"
  using assms by (auto simp: read_entry_def file_at_def lstat_Missing dest: lstat_Found split: lstat.splits node.splits if_splits)

definition captured :: "check_env \<Rightarrow> files \<Rightarrow> entry \<Rightarrow> bool" where
  "captured E fs en \<longleftrightarrow> (if en_existed en then \<exists>c. file_at fs (en_path en) = Some (c, en_mode en) \<and> en_sha en = ck_sha E c
     else file_at fs (en_path en) = None)"

definition content_of :: "check_env \<Rightarrow> files \<Rightarrow> string \<times> string \<Rightarrow> bool" where
  "content_of E fs x \<longleftrightarrow> (\<exists>p md. file_at fs p = Some (snd x, md) \<and> fst x = ck_sha E (snd x))"

lemma capture_ok:
  assumes "capture E m fs seen used ps = Inr (ens, blobs)"
  shows "en_path ` set ens = set ps - set seen \<and> distinct (map en_path ens) \<and> (\<forall>en \<in> set ens. captured E fs en) \<and> (\<forall>x \<in> set blobs. content_of E fs x)"
  using assms
proof (induction E m fs seen used ps arbitrary: ens blobs rule: capture.induct)
  case (2 E m fs seen used p ps)
  then obtain en c where o: "open_path m fs p = None" and r: "read_entry E (kp_limit m) fs p = Inr (en, c)"
    by (auto split: option.splits sum.splits)
  note re = read_entry_ok[OF r]
  show ?case
  proof (cases "p \<in> set seen")
    case True
    have "capture E m fs seen used ps = Inr (ens, blobs)" using 2(3) o r True by simp
    from 2(1)[OF o r refl True this] True show ?thesis by auto
  next
    case False
    obtain ens' cs where n: "\<not> max_bytes < used + int (length c)" and c: "capture E m fs (p # seen) (used + int (length c)) ps = Inr (ens', cs)"
      and e: "ens = en # ens'" "blobs = (if en_existed en then cs @ [(en_sha en, c)] else cs)"
      using 2(3) o r False by (auto split: sum.splits if_splits)
    note ih = 2(2)[OF o r refl False n c]
    have "captured E fs en" using re by (auto simp: captured_def)
    moreover have "en_existed en \<Longrightarrow> content_of E fs (en_sha en, c)" using re by (auto simp: content_of_def)
    moreover have "en_path ` set ens = set (p # ps) - set seen" using ih re(1) False by (auto simp: e(1))
    moreover have "distinct (map en_path ens)" using ih re(1) by (auto simp: e(1) image_iff dest: sym)
    ultimately show ?thesis using ih by (auto simp: e)
  qed
qed simp

text \<open>Different contents of the files that exist have different hashes.\<close>

definition no_collision :: "check_env \<Rightarrow> files \<Rightarrow> bool" where
  "no_collision E fs \<longleftrightarrow> (\<forall>x \<in> set fs. \<forall>y \<in> set fs. case (snd x, snd y) of (File c _, File d _) \<Rightarrow> ck_sha E c = ck_sha E d \<longrightarrow> c = d | _ \<Rightarrow> True)"

lemma file_at_member: "file_at fs p = Some (c, a) \<Longrightarrow> (p, File c a) \<in> set fs"
  by (auto simp: file_at_def node_at_def split: if_splits option.splits node.splits dest!: map_of_SomeD)

lemma no_collisionD:
  assumes "no_collision E fs" "file_at fs p = Some (c, a)" "file_at fs q = Some (d, b)" "ck_sha E c = ck_sha E d"
  shows "c = d"
  using assms(1)[unfolded no_collision_def, rule_format, OF file_at_member[OF assms(2)] file_at_member[OF assms(3)]] assms(4) by simp

lemma capture_records:
  assumes "capture E m fs [] 0 ps = Inr (mf_entries man, blobs)" "no_collision E fs" "mf_version man = 2" "sv_blobs sv = blobs"
  shows "records fs sv man"
proof -
  note c = capture_ok[OF assms(1)]
  have "d = c" if "map_of blobs (ck_sha E c) = Some d" "file_at fs p = Some (c, a)" for c d p a
  proof -
    have "content_of E fs (ck_sha E c, d)" using c map_of_SomeD[OF that(1)] by blast
    then obtain q b where "file_at fs q = Some (d, b)" "ck_sha E c = ck_sha E d" by (auto simp: content_of_def)
    then show ?thesis using no_collisionD[OF assms(2) that(2)] by simp
  qed
  moreover have "\<forall>en \<in> set (mf_entries man). captured E fs en" using c by blast
  ultimately show ?thesis using assms(3,4) by (fastforce simp: records_def captured_def split: if_splits)
qed

text \<open>What a snapshot publishes; only the pruning of a session's older checkpoints can drop a checkpoint.\<close>

lemma snapshot_locked_ok:
  assumes "snapshot_locked E m session reason paths recovery fresh now io fs cps = (Inr man, cps')"
  obtains ps sc blobs where "mf_id man = fresh" "mf_version man = 2" "mf_recovery_of man = recovery" "mf_scope man = sc" "mf_session man = session"
    "capture E m fs [] 0 ps = Inr (mf_entries man, blobs)" "map_of cps fresh = None" "length ps \<le> max_files"
    "if paths = [] then workspace_paths E m NoScope fs = Inr (ps, sc) else ps = paths \<and> sc = NoScope"
    "let all = (fresh, \<lparr>sv_manifest = Some man, sv_blobs = blobs\<rparr>) # cps in cps' = (if session \<noteq> [] \<and> recovery = [] then prune_session E m session all else all)"
proof -
  obtain ps sc where p: "(if paths = [] then workspace_paths E m NoScope fs else Inr (paths, NoScope)) = Inr (ps, sc)"
    using assms by (auto simp: snapshot_locked_def split: sum.splits if_splits)
  obtain ens blobs where c: "capture E m fs [] 0 ps = Inr (ens, blobs)"
    using assms p by (auto simp: snapshot_locked_def split: sum.splits if_splits)
  have s: "snapshot_locked E m session reason paths recovery fresh now io fs cps =
    (if kp_session m \<noteq> [] \<and> session \<noteq> kp_session m then (Inl SessionMismatch, cps)
     else if max_files < length ps then (Inl TooMany, cps)
     else if map_of cps fresh \<noteq> None then (Inl IdTaken, cps)
     else if \<not> io then (Inl FileError, cps)
     else let man = \<lparr>mf_version = 2, mf_id = fresh, mf_session = session, mf_reason = reason, mf_created = now, mf_entries = ens, mf_scope = sc,
                 mf_recovery_of = recovery\<rparr>;
               cps = (fresh, \<lparr>sv_manifest = Some man, sv_blobs = blobs\<rparr>) # cps
           in (Inr man, if session \<noteq> [] \<and> recovery = [] then prune_session E m session cps else cps))"
    unfolding snapshot_locked_def p using c by (simp only: sum.case prod.case)
  show thesis
    by (rule that[of sc ps blobs]) (use assms[unfolded s] p c in \<open>auto simp: Let_def split: if_splits\<close>)
qed

lemma prune_session_map: "map_of (prune_session E m s cps) i = Some sv \<Longrightarrow> map_of cps i = Some sv"
proof -
  have "map_of (filter (\<lambda>x. fst x \<notin> A) cps) i = (if i \<in> A then None else map_of cps i)" for A
    by (induction cps) auto
  then show "map_of (prune_session E m s cps) i = Some sv \<Longrightarrow> ?thesis" by (simp add: prune_session_def Let_def split: if_splits)
qed

lemma snapshot_records:
  assumes s: "snapshot_locked E m session reason paths recovery fresh now io fs cps = (Inr man, cps')"
    and kept: "map_of cps' fresh = Some sv" and inj: "no_collision E fs"
  shows "records fs sv man" "sv_manifest sv = Some man"
proof -
  obtain ps sc blobs where p: "mf_version man = 2" "capture E m fs [] 0 ps = Inr (mf_entries man, blobs)"
    and c: "let all = (fresh, \<lparr>sv_manifest = Some man, sv_blobs = blobs\<rparr>) # cps in cps' = (if session \<noteq> [] \<and> recovery = [] then prune_session E m session all else all)"
    by (rule snapshot_locked_ok[OF s])
  have sv: "sv = \<lparr>sv_manifest = Some man, sv_blobs = blobs\<rparr>"
    using kept c by (auto simp: Let_def split: if_splits dest: prune_session_map)
  show "records fs sv man" by (rule capture_records[OF p(2) inj p(1)]) (simp add: sv)
  show "sv_manifest sv = Some man" by (simp add: sv)
qed

subsection \<open>Restores\<close>


text \<open>A restore stops before the first change, or it applies the entries and the removals after a snapshot of what is there.\<close>

lemma restore_cases:
  assumes "restore E m i fresh now io ios fs cps = (e, fs', cps')"
  obtains (untouched) "fs' = fs" "e \<noteq> None"
  | (applied) man ts extra man' where "load_manifest E i cps = Inr man" "preflight E m (the (map_of cps i)) fs [] 0 (mf_entries man) = Inr ts"
      "if mf_scope man = NoScope then extra = [] else \<exists>ps sc. workspace_paths E m (mf_scope man) fs = Inr (ps, sc) \<and>
         extra = filter (\<lambda>p. p \<notin> en_path ` set (mf_entries man)) ps"
      "apply_targets m (mf_version man) ios (ts @ map (\<lambda>p. (gone p, [])) extra) fs = (e, fs')"
      "ts @ map (\<lambda>p. (gone p, [])) extra = [] \<or> snapshot_locked E m (mf_session man) (''before restore '' @ i)
         (map (\<lambda>t. en_path (fst t)) (ts @ map (\<lambda>p. (gone p, [])) extra)) i fresh now io fs cps = (Inr man', cps')"
proof (cases "load_manifest E i cps")
  case (Inl x)
  then show ?thesis using assms by (intro untouched) (auto simp: restore_def)
next
  case (Inr man)
  note man = this
  show ?thesis
  proof (cases "(kp_session m \<noteq> [] \<and> mf_session man \<noteq> kp_session m) \<or> (\<exists>x. preflight E m (the (map_of cps i)) fs [] 0 (mf_entries man) = Inl x)
      \<or> (mf_scope man \<noteq> NoScope \<and> (\<exists>x. workspace_paths E m (mf_scope man) fs = Inl x))")
    case True
    then show ?thesis using assms by (intro untouched) (auto simp: restore_def man split: sum.splits if_splits)
  next
    case False
    obtain ts where ts: "preflight E m (the (map_of cps i)) fs [] 0 (mf_entries man) = Inr ts" using False by (meson sum.exhaust_sel)
    obtain ps sc where ps: "(if mf_scope man = NoScope then Inr ([], NoScope) else workspace_paths E m (mf_scope man) fs) = Inr (ps, sc)"
      using False by (cases "mf_scope man = NoScope"; cases "workspace_paths E m (mf_scope man) fs") auto
    define extra where "extra = filter (\<lambda>p. p \<notin> en_path ` set (mf_entries man)) ps"
    define targets where "targets = ts @ map (\<lambda>p. (gone p, [])) extra"
    have r: "restore E m i fresh now io ios fs cps = (if map (\<lambda>t. en_path (fst t)) targets = [] then (None, fs, cps)
       else (case snapshot_locked E m (mf_session man) (''before restore '' @ i) (map (\<lambda>t. en_path (fst t)) targets) i fresh now io fs cps of
           (Inl e, cps) \<Rightarrow> (Some e, fs, cps)
         | (Inr _, cps) \<Rightarrow> (case apply_targets m (mf_version man) ios targets fs of (e, fs) \<Rightarrow> (e, fs, cps))))"
      unfolding restore_def man sum.case ts ps prod.case Let_def extra_def[symmetric] targets_def[symmetric] using False by (simp only: if_False de_Morgan_disj)
    have x: "if mf_scope man = NoScope then extra = [] else \<exists>ps sc. workspace_paths E m (mf_scope man) fs = Inr (ps, sc) \<and>
         extra = filter (\<lambda>p. p \<notin> en_path ` set (mf_entries man)) ps" using ps by (auto simp: extra_def split: if_splits)
    show ?thesis
    proof (cases "snapshot_locked E m (mf_session man) (''before restore '' @ i) (map (\<lambda>t. en_path (fst t)) targets) i fresh now io fs cps")
      case (Pair a b)
      show ?thesis
      proof (cases "targets = []")
        case True
        have "apply_targets m (mf_version man) ios targets fs = (e, fs')" using assms[unfolded r] True by simp
        then show ?thesis by (intro applied[OF man ts x]) (use True in \<open>simp_all add: targets_def[symmetric]\<close>)
      next
        case False
        then show ?thesis
        proof (cases a)
          case (Inl y)
          then show ?thesis using assms[unfolded r] False Pair by (intro untouched) auto
        next
          case (Inr man')
          have "apply_targets m (mf_version man) ios targets fs = (e, fs')" "b = cps'" using assms[unfolded r] False Pair Inr by (auto split: prod.splits)
          then show ?thesis by (intro applied[OF man ts x, of man']) (use Pair Inr in \<open>simp_all add: targets_def[symmetric]\<close>)
        qed
      qed
    qed
  qed
qed





text \<open>A workspace with a file and a missing one; later the file is edited, the other one appears, and a third is there.\<close>

definition demo_env :: check_env where
  "demo_env = \<lparr>ck_sha = (\<lambda>c. replicate 63 CHR ''0'' @ [if c = ''one'' then CHR ''1'' else if c = ''two'' then CHR ''2'' else if c = ''x'' then CHR ''3'' else CHR ''4'']), ck_git = (\<lambda>_ _. None),
     ck_manifest_size = (\<lambda>_. 1), ck_cwd = []\<rparr>"

definition demo_manager :: manager where
  "demo_manager = new_manager [''c''] 0 (Some [''w''])"

definition demo_before :: files where
  "demo_before = [([''w''], Directory), ([''w'', ''a''], File ''one'' 420)]"

definition demo_after :: files where
  "demo_after = [([''w''], Directory), ([''w'', ''a''], File ''two'' 384), ([''w'', ''b''], File ''x'' 420), ([''w'', ''d''], File ''y'' 420)]"

definition demo_taken :: "(check_error + manifest) \<times> checkpoints" where
  "demo_taken = snapshot demo_env demo_manager ''s'' ''edit'' [''a'', ''b''] ''i'' 1 True demo_before []"








text \<open>The first write fails after it took effect.\<close>

definition demo_failed :: "check_error option \<times> files \<times> checkpoints" where
  "demo_failed = restore demo_env demo_manager ''i'' ''k'' 2 True [DoneButFailed] demo_after (snd demo_taken)"

lemma demo_failed_restore:
  "restore demo_env demo_manager ''i'' ''k'' 2 True [DoneButFailed] demo_after (snd demo_taken) = (fst demo_failed, fst (snd demo_failed), snd (snd demo_failed))"
  by (simp add: demo_failed_def)


text \<open>Whatever a manifest names, also one written by hand, a restore under a selected workspace changes no file outside it.\<close>

theorem restore_confined:
  assumes "restore E m i fresh now io ios fs cps = (e, fs1, cps1)" "kp_project m = Some base" "\<not> below base p"
  shows "file_at fs1 p = file_at fs p"
  by (rule restore_cases[OF assms(1)]) (use assms(2,3) apply_targets_confined in auto)

theorem restore_confined_witness:
  "file_at (fst (snd demo_failed)) [''v''] = file_at demo_after [''v'']"
proof -
  have "kp_project demo_manager = Some [''w'']" "\<not> below [''w''] [''v'']" by code_simp+
  then show ?thesis by (rule restore_confined[OF demo_failed_restore])
qed

text \<open>A snapshot does not bound the text of its manifest, but what loads it reads four megabytes: a larger one is published as a
  success and can never be restored.\<close>

lemma oversized_manifest_lost:
  assumes "snapshot E m session reason requests fresh now io fs0 cps0 = (Inr man, cps1)" "map_of cps1 fresh = Some sv" "no_collision E fs0"
    "max_manifest < ck_manifest_size E man" "map_of cps fresh = Some sv"
  shows "\<exists>x. restore E m' fresh fresh' now' io' ios fs cps = (Some x, fs, cps)"
proof -
  have "sv_manifest sv = Some man" using snapshot_records(2)[OF assms(1)[unfolded snapshot_def] assms(2,3)] .
  then show ?thesis using assms(4,5) by (auto simp: restore_def load_manifest_def)
qed

end
